(* ===== verification/Prelude.thy ===== *)
theory Prelude
  imports Main "HOL-Library.Word"
begin

text \<open>
  Shared vocabulary of the development: the C character classes and string
  routines that the daemon uses, decimal conversion in both directions,
  bounded copies, the limits of the machine integers, and the generic list
  lemmas that the component theories rewrite with.

  A NUL-terminated C string is a list of characters without the character of
  code zero; the terminator itself is not part of the list.  A buffer of
  \<open>cap\<close> bytes therefore holds at most \<open>cap - 1\<close> characters.
\<close>

named_theorems cchar_simps \<open>character classes unfolded to codes\<close>
named_theorems cstr_simps \<open>bounded copies and comparisons of C strings\<close>

type_synonym cstr = string

section \<open>Machine limits\<close>

definition SIZE_MAX :: nat where
  "SIZE_MAX = 2 ^ 64 - 1"

definition UINT_MAX :: nat where
  "UINT_MAX = 2 ^ 32 - 1"

definition UINT16_MAX :: nat where
  "UINT16_MAX = 2 ^ 16 - 1"

definition LLONG_MAX :: int where
  "LLONG_MAX = 2 ^ 63 - 1"

text \<open>Unsigned additions that the code leaves unguarded wrap around.\<close>

definition size_add :: "nat \<Rightarrow> nat \<Rightarrow> nat" where
  "size_add a b = (a + b) mod 2 ^ 64"

definition uint_add :: "nat \<Rightarrow> nat \<Rightarrow> nat" where
  "uint_add a b = (a + b) mod 2 ^ 32"

definition size_sub :: "nat \<Rightarrow> nat \<Rightarrow> nat" where
  "size_sub a b = (a + 2 ^ 64 - b) mod 2 ^ 64"

lemma SIZE_MAX_pos [simp]: "0 < SIZE_MAX"
  by (simp add: SIZE_MAX_def)

lemma size_add_small: "a + b \<le> SIZE_MAX \<Longrightarrow> size_add a b = a + b"
  by (simp add: size_add_def SIZE_MAX_def)

lemma uint_add_small: "a + b \<le> UINT_MAX \<Longrightarrow> uint_add a b = a + b"
  by (simp add: uint_add_def UINT_MAX_def)

lemma uint_add_le_UINT_MAX: "uint_add a b \<le> UINT_MAX"
proof -
  have "uint_add a b < 2 ^ 32"
    by (simp add: uint_add_def)
  then show ?thesis
    by (simp add: UINT_MAX_def)
qed

section \<open>Characters\<close>

abbreviation code :: "char \<Rightarrow> nat" where
  "code c \<equiv> of_char c"

definition c_isspace :: "char \<Rightarrow> bool" where
  [cchar_simps]: "c_isspace c \<longleftrightarrow> (9 \<le> code c \<and> code c \<le> 13) \<or> code c = 32"

definition c_isdigit :: "char \<Rightarrow> bool" where
  [cchar_simps]: "c_isdigit c \<longleftrightarrow> 48 \<le> code c \<and> code c \<le> 57"

definition c_isupper :: "char \<Rightarrow> bool" where
  [cchar_simps]: "c_isupper c \<longleftrightarrow> 65 \<le> code c \<and> code c \<le> 90"

definition c_islower :: "char \<Rightarrow> bool" where
  [cchar_simps]: "c_islower c \<longleftrightarrow> 97 \<le> code c \<and> code c \<le> 122"

definition c_isalpha :: "char \<Rightarrow> bool" where
  [cchar_simps]: "c_isalpha c \<longleftrightarrow> c_isupper c \<or> c_islower c"

definition c_isalnum :: "char \<Rightarrow> bool" where
  [cchar_simps]: "c_isalnum c \<longleftrightarrow> c_isalpha c \<or> c_isdigit c"

definition c_tolower :: "char \<Rightarrow> char" where
  "c_tolower c = (if c_isupper c then char_of (code c + 32) else c)"

definition c_toupper :: "char \<Rightarrow> char" where
  "c_toupper c = (if c_islower c then char_of (code c - 32) else c)"

lemma code_char_of [simp]: "n < 256 \<Longrightarrow> code (char_of n) = n"
  by simp

lemma code_eq_iff: "code c = code d \<longleftrightarrow> c = d"
  by (simp add: of_char_eq_iff)

lemma code_eq_zero: "code c = 0 \<longleftrightarrow> c = CHR 0x00"
  using code_eq_iff [of c "CHR 0x00"] by simp

section \<open>Bounded copies and comparisons\<close>

definition cstr_ok :: "cstr \<Rightarrow> bool" where
  "cstr_ok s \<longleftrightarrow> CHR 0x00 \<notin> set s"

text \<open>What \<open>snprintf\<close> leaves in a buffer of \<open>cap\<close> bytes, and the test the
  callers make of its return value.\<close>

definition snprintf_into :: "nat \<Rightarrow> cstr \<Rightarrow> cstr" where
  [cstr_simps]: "snprintf_into cap s = take (cap - 1) s"

definition snprintf_fits :: "nat \<Rightarrow> cstr \<Rightarrow> bool" where
  [cstr_simps]: "snprintf_fits cap s \<longleftrightarrow> 0 < length s \<and> length s < cap"

definition strncmp_eq :: "nat \<Rightarrow> cstr \<Rightarrow> cstr \<Rightarrow> bool" where
  [cstr_simps]: "strncmp_eq n a b \<longleftrightarrow> take n a = take n b"

lemma snprintf_into_fits [simp]: "length s < cap \<Longrightarrow> snprintf_into cap s = s"
  by (simp add: snprintf_into_def)

lemma length_snprintf_into: "length (snprintf_into cap s) \<le> cap - 1"
  by (simp add: snprintf_into_def)

lemma strncmp_eq_short:
  "length a < n \<Longrightarrow> length b < n \<Longrightarrow> strncmp_eq n a b \<longleftrightarrow> a = b"
  by (simp add: strncmp_eq_def)

text \<open>Comparison without regard to case.\<close>

definition strcasecmp_eq :: "cstr \<Rightarrow> cstr \<Rightarrow> bool" where
  "strcasecmp_eq a b \<longleftrightarrow> map c_tolower a = map c_tolower b"

lemma strcasecmp_eq_refl [simp]: "strcasecmp_eq a a"
  by (simp add: strcasecmp_eq_def)

lemma strcasecmp_eq_sym: "strcasecmp_eq a b \<longleftrightarrow> strcasecmp_eq b a"
  by (auto simp: strcasecmp_eq_def)

lemma strcasecmp_eq_trans: "strcasecmp_eq a b \<Longrightarrow> strcasecmp_eq b c \<Longrightarrow> strcasecmp_eq a c"
  by (simp add: strcasecmp_eq_def)

lemma strcasecmp_eq_Nil [simp]: "strcasecmp_eq [] b \<longleftrightarrow> b = []" "strcasecmp_eq b [] \<longleftrightarrow> b = []"
  by (auto simp: strcasecmp_eq_def)

text \<open>Trimming, as \<open>trim_whitespace_inplace\<close> and \<open>host_trim_whitespace\<close> do.\<close>

definition c_trim :: "cstr \<Rightarrow> cstr" where
  "c_trim s = rev (dropWhile c_isspace (rev (dropWhile c_isspace s)))"

text \<open>Whether \<open>strstr\<close> finds the second text in the first.\<close>

fun c_strstr :: "cstr \<Rightarrow> cstr \<Rightarrow> bool" where
  "c_strstr [] p = (p = [])"
| "c_strstr (c # s) p = (take (length p) (c # s) = p \<or> c_strstr s p)"

lemma take_length_eq: "take (length p) s = p \<longleftrightarrow> (\<exists>t. s = p @ t)"
  by (metis append_eq_conv_conj append_take_drop_id)

lemma c_strstr_iff: "c_strstr s p \<longleftrightarrow> (\<exists>u t. s = u @ p @ t)"
proof (induction s)
  case (Cons c s)
  have "(\<exists>u t. c # s = u @ p @ t) \<longleftrightarrow> (\<exists>t. c # s = p @ t) \<or> (\<exists>u t. s = u @ p @ t)"
    by (metis append_Cons append_Nil list.exhaust list.inject)
  with Cons show ?case by (simp only: c_strstr.simps take_length_eq)
qed simp

text \<open>The pieces of a text between separators, as \<open>strtok_r\<close> returns them: runs
  of separators count once, and empty pieces are not returned.\<close>

function strtok_all :: "(char \<Rightarrow> bool) \<Rightarrow> cstr \<Rightarrow> cstr list" where
  "strtok_all sep s =
     (let t = dropWhile sep s
      in if t = [] then []
         else takeWhile (\<lambda>c. \<not> sep c) t # strtok_all sep (dropWhile (\<lambda>c. \<not> sep c) t))"
  by pat_completeness auto
termination
proof (relation "measure (\<lambda>(sep, s). length s)")
  fix sep :: "char \<Rightarrow> bool" and s t
  assume t: "t = dropWhile sep s" "t \<noteq> []"
  then have "\<not> sep (hd t)" by (metis hd_dropWhile)
  with t(2) have "length (dropWhile (\<lambda>c. \<not> sep c) t) < length t"
    by (cases t) (auto simp: le_imp_less_Suc length_dropWhile_le)
  also have "length t \<le> length s" using t(1) by (simp add: length_dropWhile_le)
  finally show "((sep, dropWhile (\<lambda>c. \<not> sep c) t), sep, s) \<in> measure (\<lambda>(sep, s). length s)"
    by simp
qed simp

declare strtok_all.simps [simp del]

section \<open>Decimal numbers\<close>

definition digit_char :: "nat \<Rightarrow> char" where
  "digit_char d = char_of (48 + d)"

definition digit_val :: "char \<Rightarrow> nat" where
  "digit_val c = code c - 48"

text \<open>The \<open>%u\<close> conversion and its zero-padded form.\<close>

fun dec_str :: "nat \<Rightarrow> cstr" where
  "dec_str n = (if n < 10 then [digit_char n]
                else dec_str (n div 10) @ [digit_char (n mod 10)])"

declare dec_str.simps [simp del]

definition pad0 :: "nat \<Rightarrow> cstr \<Rightarrow> cstr" where
  "pad0 w s = replicate (w - length s) (CHR ''0'') @ s"

text \<open>The value of a digit string, and \<open>strtoul\<close> on a text that starts with a
  digit: the value saturates, and the rest of the text is returned.\<close>

definition digits_val :: "cstr \<Rightarrow> nat" where
  "digits_val s = foldl (\<lambda>v c. v * 10 + digit_val c) 0 s"

definition strtoul_digits :: "cstr \<Rightarrow> nat \<times> cstr" where
  "strtoul_digits s =
     (min SIZE_MAX (digits_val (takeWhile c_isdigit s)), dropWhile c_isdigit s)"

text \<open>\<open>strtoul\<close> in general: leading space, a sign, then digits.  Without digits
  nothing is consumed.  The third component says whether a number was read.\<close>

definition strtoul :: "cstr \<Rightarrow> nat \<times> cstr \<times> bool" where
  "strtoul s =
     (let t = dropWhile c_isspace s;
          neg = (t \<noteq> [] \<and> hd t = CHR ''-'');
          u = (if t \<noteq> [] \<and> (hd t = CHR ''-'' \<or> hd t = CHR ''+'') then tl t else t);
          v = digits_val (takeWhile c_isdigit u)
      in if takeWhile c_isdigit u = [] then (0, s, False)
         else if v > SIZE_MAX then (SIZE_MAX, dropWhile c_isdigit u, True)
         else ((if neg then (2 ^ 64 - v) mod 2 ^ 64 else v), dropWhile c_isdigit u, True))"

text \<open>\<open>strtol\<close> and \<open>atoi\<close> in the same way, on signed values.\<close>

definition strtol :: "cstr \<Rightarrow> int \<times> cstr \<times> bool" where
  "strtol s =
     (let t = dropWhile c_isspace s;
          neg = (t \<noteq> [] \<and> hd t = CHR ''-'');
          u = (if t \<noteq> [] \<and> (hd t = CHR ''-'' \<or> hd t = CHR ''+'') then tl t else t);
          v = int (digits_val (takeWhile c_isdigit u))
      in if takeWhile c_isdigit u = [] then (0, s, False)
         else ((if neg then max (- (LLONG_MAX + 1)) (- v) else min LLONG_MAX v),
               dropWhile c_isdigit u, True))"

text \<open>\<open>atoi\<close> keeps the low 32 bits of that value.\<close>

definition atoi :: "cstr \<Rightarrow> int" where
  "atoi s = signed_take_bit 31 (fst (strtol s))"

lemma c_isdigit_digit_char [simp]: "d < 10 \<Longrightarrow> c_isdigit (digit_char d)"
  by (simp add: c_isdigit_def digit_char_def)

lemma digit_val_digit_char [simp]: "d < 10 \<Longrightarrow> digit_val (digit_char d) = d"
  by (simp add: digit_val_def digit_char_def)

lemma digits_val_append:
  "digits_val (s @ [c]) = digits_val s * 10 + digit_val c"
  by (simp add: digits_val_def)

lemma digits_val_Nil [simp]: "digits_val [] = 0"
  by (simp add: digits_val_def)

lemma dec_str_not_Nil [simp]: "dec_str n \<noteq> []"
  by (subst dec_str.simps) simp

lemma dec_str_digits: "list_all c_isdigit (dec_str n)"
proof (induction n rule: dec_str.induct)
  case (1 n)
  then show ?case
    by (cases "n < 10") (simp_all add: dec_str.simps [of n])
qed

lemma hd_dec_str_digit: "c_isdigit (hd (dec_str n))"
  using dec_str_digits [of n] by (cases "dec_str n") auto

lemma digits_val_dec_str [simp]: "digits_val (dec_str n) = n"
proof (induction n rule: dec_str.induct)
  case (1 n)
  then show ?case
    by (cases "n < 10")
      (simp_all add: dec_str.simps [of n] digits_val_append, simp add: digits_val_def)
qed

lemma length_dec_str_le: "n < 10 ^ k \<Longrightarrow> 0 < k \<Longrightarrow> length (dec_str n) \<le> k"
proof (induction n arbitrary: k rule: dec_str.induct)
  case (1 n)
  show ?case
  proof (cases "n < 10")
    case True
    with 1 show ?thesis by (simp add: dec_str.simps [of n])
  next
    case False
    with 1 obtain j where j: "k = Suc j" "0 < j"
      by (cases k; cases "k - 1") auto
    with 1(2) have "n div 10 < 10 ^ j"
      by (simp add: less_mult_imp_div_less mult.commute)
    with 1(1) [OF False _ j(2)] have "length (dec_str (n div 10)) \<le> j" by simp
    with False j show ?thesis by (simp add: dec_str.simps [of n])
  qed
qed

text \<open>Reading back a printed number, whatever non-digit follows it.\<close>

lemma takeWhile_digits_dec_str:
  "t = [] \<or> \<not> c_isdigit (hd t) \<Longrightarrow> takeWhile c_isdigit (dec_str n @ t) = dec_str n"
  using dec_str_digits [of n]
  by (cases t) (auto simp: list_all_iff takeWhile_append)

lemma dropWhile_digits_dec_str:
  "t = [] \<or> \<not> c_isdigit (hd t) \<Longrightarrow> dropWhile c_isdigit (dec_str n @ t) = t"
  using dec_str_digits [of n]
  by (cases t) (auto simp: list_all_iff dropWhile_append)

lemma strtoul_digits_dec_str:
  "n \<le> SIZE_MAX \<Longrightarrow> t = [] \<or> \<not> c_isdigit (hd t) \<Longrightarrow>
   strtoul_digits (dec_str n @ t) = (n, t)"
  by (simp add: strtoul_digits_def takeWhile_digits_dec_str dropWhile_digits_dec_str)

section \<open>Lists\<close>

lemma take_append_drop_single:
  "i < length xs \<Longrightarrow> take i xs @ x # drop (Suc i) xs = xs[i := x]"
  by (simp add: upd_conv_take_nth_drop)

lemma filter_list_update_outside:
  "i < length xs \<Longrightarrow> \<not> P (xs ! i) \<Longrightarrow> \<not> P y \<Longrightarrow>
   filter P (xs[i := y]) = filter P xs"
  by (induction xs arbitrary: i) (auto split: nat.splits)

lemma distinct_map_update:
  "distinct (map f xs) \<Longrightarrow> i < length xs \<Longrightarrow> f y = f (xs ! i) \<Longrightarrow>
   distinct (map f (xs[i := y]))"
  by (metis length_map list_update_id map_update nth_map)

section \<open>Scans and compaction loops over an array\<close>

text \<open>The index of the first element that satisfies a test, as the linear search
  loops of the daemon return it.\<close>

fun first_index :: "('a \<Rightarrow> bool) \<Rightarrow> 'a list \<Rightarrow> nat option" where
  "first_index P [] = None"
| "first_index P (x # xs) = (if P x then Some 0 else map_option Suc (first_index P xs))"

lemma first_index_None: "first_index P xs = None \<longleftrightarrow> (\<forall>x\<in>set xs. \<not> P x)"
  by (induction xs) auto

lemma first_index_Some:
  "first_index P xs = Some i \<longleftrightarrow> i < length xs \<and> P (xs ! i) \<and> (\<forall>j<i. \<not> P (xs ! j))"
proof (induction xs arbitrary: i)
  case (Cons x xs)
  show ?case
    by (cases i) (auto simp: Cons.IH all_conj_distrib less_Suc_eq_0_disj)
qed simp

lemma first_index_cong:
  "(\<And>x. x \<in> set xs \<Longrightarrow> P x = Q x) \<Longrightarrow> first_index P xs = first_index Q xs"
  by (induction xs) auto

lemma first_index_append:
  "first_index P (xs @ ys) =
     (case first_index P xs of Some i \<Rightarrow> Some i
      | None \<Rightarrow> map_option (\<lambda>i. i + length xs) (first_index P ys))"
  by (induction xs) (auto simp: option.map_comp comp_def option.map_ident split: option.splits)

lemma first_index_find: "map_option (\<lambda>i. xs ! i) (first_index P xs) = find P xs"
  by (induction xs) (auto simp: option.map_comp comp_def)

text \<open>Lists whose elements carry a key: looking an entry up after an entry has been
  appended or replaced by one of the same key.\<close>

lemma find_append:
  "find P (xs @ ys) = (case find P xs of None \<Rightarrow> find P ys | Some x \<Rightarrow> Some x)"
  by (induction xs) auto

lemma find_key_None: "find (\<lambda>e. key e = k) xs = None \<longleftrightarrow> k \<notin> key ` set xs"
  by (induction xs) auto

lemma find_key_snoc:
  "key y \<notin> key ` set xs \<Longrightarrow>
   find (\<lambda>e. key e = j) (xs @ [y]) = (if j = key y then Some y else find (\<lambda>e. key e = j) xs)"
  by (induction xs) auto

lemma find_key_filter:
  "distinct (map key xs) \<Longrightarrow>
   find (\<lambda>e. key e = k) (filter K xs) =
     (case find (\<lambda>e. key e = k) xs of None \<Rightarrow> None | Some e \<Rightarrow> if K e then Some e else None)"
proof (induction xs)
  case (Cons x xs)
  then have "find (\<lambda>e. key e = key x) xs = None" by (simp add: find_key_None)
  with Cons show ?case by auto
qed simp

lemma find_key_update:
  "distinct (map key xs) \<Longrightarrow> n < length xs \<Longrightarrow> key y = key (xs ! n) \<Longrightarrow>
   find (\<lambda>e. key e = j) (xs[n := y]) = (if j = key y then Some y else find (\<lambda>e. key e = j) xs)"
proof (induction xs arbitrary: n)
  case (Cons x xs)
  then show ?case
    by (cases n) (auto simp: find_key_None nth_mem)
qed simp

lemma map_key_update:
  "n < length xs \<Longrightarrow> key y = key (xs ! n) \<Longrightarrow> map key (xs[n := y]) = map key xs"
  by (metis length_map list_update_id map_update nth_map)

lemma image_key_update:
  "n < length xs \<Longrightarrow> key y = key (xs ! n) \<Longrightarrow> key ` set (xs[n := y]) = key ` set xs"
  by (metis image_set map_key_update)

lemma option_eq_Some_ext: "(\<And>x. a = Some x \<longleftrightarrow> b = Some x) \<Longrightarrow> a = b"
  by (cases a; cases b) auto

lemma find_key_eq_Some:
  "distinct (map key xs) \<Longrightarrow> find (\<lambda>e. key e = k) xs = Some e \<longleftrightarrow> e \<in> set xs \<and> key e = k"
  by (induction xs) (auto simp: rev_image_eqI)

lemma remove_index_filter:
  "\<lbrakk>i < length xs; f (xs ! i) = t; \<forall>j<length xs. j \<noteq> i \<longrightarrow> f (xs ! j) \<noteq> t\<rbrakk> \<Longrightarrow>
   take i xs @ drop (Suc i) xs = filter (\<lambda>x. f x \<noteq> t) xs"
proof (induction xs arbitrary: i)
  case (Cons x xs)
  show ?case
  proof (cases i)
    case 0
    with Cons.prems have "\<forall>y\<in>set xs. f y \<noteq> t" by (force simp: in_set_conv_nth)
    with 0 Cons.prems show ?thesis by simp
  next
    case (Suc k)
    with Cons.prems have "\<forall>j<length xs. j \<noteq> k \<longrightarrow> f (xs ! j) \<noteq> t" by fastforce
    with Suc Cons.IH [of k] Cons.prems show ?thesis by auto
  qed
qed simp

lemma remove_key_filter:
  assumes "distinct (map key xs)" "i < length xs"
  shows "take i xs @ drop (Suc i) xs = filter (\<lambda>x. key x \<noteq> key (xs ! i)) xs"
proof (rule remove_index_filter)
  have "key (xs ! j) = key (xs ! i) \<Longrightarrow> j = i" if "j < length xs" for j
    using assms that nth_eq_iff_index_eq [OF assms(1), of j i] by simp
  then show "\<forall>j<length xs. j \<noteq> i \<longrightarrow> key (xs ! j) \<noteq> key (xs ! i)" by blast
qed (use assms in simp_all)

text \<open>In-place compaction: the read index runs over the first \<open>n\<close> elements, the
  write index follows and counts the elements kept.\<close>

function compact_loop ::
  "('a \<Rightarrow> bool) \<Rightarrow> nat \<Rightarrow> nat \<Rightarrow> nat \<Rightarrow> 'a list \<Rightarrow> 'a list \<times> nat" where
  "compact_loop keep n idx w xs =
     (if idx < n
      then if keep (xs ! idx)
           then compact_loop keep n (Suc idx) (Suc w)
                  (if w \<noteq> idx then xs[w := xs ! idx] else xs)
           else compact_loop keep n (Suc idx) w xs
      else (xs, w))"
  by pat_completeness auto
termination
  by (relation "measure (\<lambda>(keep, n, idx, w, xs). n - idx)") auto

declare compact_loop.simps [simp del]

lemma compact_loop_filter:
  "w \<le> idx \<Longrightarrow> idx \<le> n \<Longrightarrow> n \<le> length xs \<Longrightarrow>
   (case compact_loop keep n idx w xs of
      (ys, v) \<Rightarrow> take v ys = take w xs @ filter keep (take (n - idx) (drop idx xs)))"
proof (induction keep n idx w xs rule: compact_loop.induct)
  case (1 keep n idx w xs)
  show ?case
  proof (cases "idx < n")
    case True
    with "1.prems" have split: "take (n - idx) (drop idx xs)
        = xs ! idx # take (n - Suc idx) (drop (Suc idx) xs)"
      by (metis Cons_nth_drop_Suc Suc_diff_Suc less_le_trans take_Suc_Cons)
    show ?thesis
    proof (cases "keep (xs ! idx)")
      case keep: True
      define ys where "ys = (if w \<noteq> idx then xs[w := xs ! idx] else xs)"
      have len: "length ys = length xs" by (simp add: ys_def)
      have tk: "take (Suc w) ys = take w xs @ [xs ! idx]"
        using "1.prems" True by (auto simp: ys_def take_Suc_conv_app_nth)
      have dr: "drop (Suc idx) ys = drop (Suc idx) xs"
        using "1.prems" by (auto simp: ys_def)
      have "case compact_loop keep n (Suc idx) (Suc w) ys of (zs, v) \<Rightarrow>
          take v zs = take (Suc w) ys @ filter keep (take (n - Suc idx) (drop (Suc idx) ys))"
        using "1.IH"(1) [OF True keep] "1.prems" True len unfolding ys_def by auto
      then show ?thesis
        using True keep by (simp add: compact_loop.simps [of keep n idx w xs] split tk dr
            flip: ys_def split: prod.splits)
    next
      case False
      have "case compact_loop keep n (Suc idx) w xs of (zs, v) \<Rightarrow>
          take v zs = take w xs @ filter keep (take (n - Suc idx) (drop (Suc idx) xs))"
        using "1.IH"(2) [OF True False] "1.prems" True by auto
      with True False show ?thesis
        by (simp add: compact_loop.simps [of keep n idx w xs] split split: prod.splits)
    qed
  next
    case False
    with "1.prems" have "idx = n" by simp
    with "1.prems" show ?thesis
      by (simp add: compact_loop.simps [of keep n n w xs])
  qed
qed

definition compact :: "('a \<Rightarrow> bool) \<Rightarrow> 'a list \<Rightarrow> 'a list" where
  "compact keep xs = (case compact_loop keep (length xs) 0 0 xs of (ys, w) \<Rightarrow> take w ys)"

lemma compact_eq_filter: "compact keep xs = filter keep xs"
  using compact_loop_filter [of 0 0 "length xs" xs keep]
  by (simp add: compact_def split: prod.splits)

end
