(* ===== verification/Interfaces.thy ===== *)
theory Interfaces
  imports Prelude
begin

text \<open>
  The contracts that several components of the daemon share, each as a locale.
  A component theory proves that its own definitions meet a contract (an
  interpretation) and then uses the lemmas proved here once.

  \<^item> \<open>invariant_system\<close>: a state machine with a guarded step function and an
    invariant, lifted to every run.
  \<^item> \<open>budget_system\<close>: the same for an invariant that counts the steps, within a budget.
  \<^item> \<open>capacity_policy\<close>: how a growable array chooses its next capacity.
  \<^item> \<open>keyed_table\<close>: a per-address table with lookup, ensure and update.
  \<^item> \<open>bounded_filter\<close>, \<open>terminated_filter\<close>: copy loops into a buffer of given size.
\<close>

section \<open>State machines with an invariant\<close>

locale invariant_system =
  fixes step :: "'e \<Rightarrow> 's \<Rightarrow> 's"
    and ok :: "'e \<Rightarrow> bool"
    and inv :: "'s \<Rightarrow> bool"
  assumes inv_step: "ok e \<Longrightarrow> inv s \<Longrightarrow> inv (step e s)"
begin

definition run :: "'e list \<Rightarrow> 's \<Rightarrow> 's" where
  "run es s = fold step es s"

lemma run_Nil [simp]: "run [] s = s"
  by (simp add: run_def)

lemma run_Cons [simp]: "run (e # es) s = run es (step e s)"
  by (simp add: run_def)

lemma run_append: "run (es @ fs) s = run fs (run es s)"
  by (simp add: run_def)

lemma inv_run: "list_all ok es \<Longrightarrow> inv s \<Longrightarrow> inv (run es s)"
  by (induction es arbitrary: s) (auto intro: inv_step)

end

text \<open>Runs whose invariant counts the steps taken, and that stay within a budget.\<close>

locale budget_system =
  fixes step :: "'e \<Rightarrow> 's \<Rightarrow> 's"
    and ok :: "'e \<Rightarrow> bool"
    and inv :: "nat \<Rightarrow> 's \<Rightarrow> bool"
    and budget :: nat
  assumes inv_budget_step: "ok e \<Longrightarrow> n < budget \<Longrightarrow> inv n s \<Longrightarrow> inv (Suc n) (step e s)"
begin

lemma inv_budget_run:
  "list_all ok es \<Longrightarrow> n + length es \<le> budget \<Longrightarrow> inv n s \<Longrightarrow> inv (n + length es) (fold step es s)"
proof (induction es arbitrary: n s)
  case (Cons e es)
  then show ?case using inv_budget_step [of e n s] Cons.IH [of "Suc n" "step e s"] by simp
qed simp

end

section \<open>Growable arrays\<close>

text \<open>\<open>grow cap need\<close> is the capacity chosen for an array of capacity \<open>cap\<close> that
  must hold \<open>need\<close> elements, or \<open>None\<close> where the code gives up.\<close>

locale capacity_policy =
  fixes grow :: "nat \<Rightarrow> nat \<Rightarrow> nat option"
    and limit :: nat
  assumes grow_enough: "grow cap need = Some c \<Longrightarrow> need \<le> c"
    and grow_mono: "cap \<le> limit \<Longrightarrow> grow cap need = Some c \<Longrightarrow> cap \<le> c"
    and grow_keep: "0 < need \<Longrightarrow> need \<le> cap \<Longrightarrow> grow cap need = Some cap"
    and grow_total: "need \<le> limit \<Longrightarrow> \<exists>c. grow cap need = Some c"
begin

text \<open>Appending to an array that satisfies its capacity bound keeps the bound.\<close>

lemma append_fits:
  assumes "grow cap (length xs + length ys) = Some c" "cap \<le> limit"
  shows "length (xs @ ys) \<le> c" and "cap \<le> c"
  using grow_enough [OF assms(1)] grow_mono [OF assms(2,1)] by simp_all

lemma grow_idem: "0 < need \<Longrightarrow> grow cap need = Some c \<Longrightarrow> grow c need = Some c"
  using grow_enough grow_keep by blast

end

text \<open>The doubling loop all growable arrays of the daemon share: starting from a
  positive capacity it doubles until the request fits, and gives up (\<open>None\<close>)
  when doubling again would pass the largest \<open>size_t\<close>.\<close>

function double_until :: "nat \<Rightarrow> nat \<Rightarrow> nat option" where
  "double_until c need =
     (if need \<le> c then Some c
      else if c = 0 \<or> c > SIZE_MAX div 2 then None
      else double_until (2 * c) need)"
  by pat_completeness auto
termination
  by (relation "measure (\<lambda>(c, need). need - c)") auto

declare double_until.simps [simp del]

lemma double_until_keep [simp]: "need \<le> c \<Longrightarrow> double_until c need = Some c"
  by (simp add: double_until.simps)

lemma double_until_bounds:
  "double_until c need = Some d \<Longrightarrow> need \<le> d \<and> c \<le> d"
proof (induction c need rule: double_until.induct)
  case (1 c need)
  show ?case
  proof (cases "need \<le> c")
    case False
    with 1 show ?thesis
      by (force simp: double_until.simps [of c need] split: if_splits)
  qed (use 1 in simp)
qed

lemma double_until_less_double:
  "double_until c need = Some d \<Longrightarrow> c < need \<Longrightarrow> d < 2 * need"
proof (induction c need rule: double_until.induct)
  case (1 c need)
  have d: "double_until (2 * c) need = Some d" and c: "\<not> need \<le> c" "\<not> (c = 0 \<or> c > SIZE_MAX div 2)"
    using 1(2,3) by (auto simp: double_until.simps [of c need] split: if_splits)
  show ?case
  proof (cases "2 * c < need")
    case True
    with 1(1) [OF c d] show ?thesis by simp
  next
    case False
    with d have "d = 2 * c" by simp
    with 1(3) show ?thesis by simp
  qed
qed

lemma double_until_total:
  "0 < c \<Longrightarrow> need \<le> SIZE_MAX div 2 + 1 \<Longrightarrow> \<exists>d. double_until c need = Some d"
proof (induction c need rule: double_until.induct)
  case (1 c need)
  then show ?case
    by (cases "need \<le> c") (auto simp: double_until.simps [of c need])
qed

section \<open>Tables keyed by client address\<close>

text \<open>
  \<open>lookup t k\<close> is the entry stored for the address \<open>k\<close>; \<open>ensure t k\<close> adds a fresh
  entry where there is none (or fails when the table cannot grow); \<open>modify t k f\<close>
  applies \<open>f\<close> to the entry of \<open>k\<close> where there is one.
\<close>

locale keyed_table =
  fixes lookup :: "'t \<Rightarrow> cstr \<Rightarrow> 'e option"
    and ensure :: "'t \<Rightarrow> cstr \<Rightarrow> 't option"
    and modify :: "'t \<Rightarrow> cstr \<Rightarrow> ('e \<Rightarrow> 'e) \<Rightarrow> 't"
    and key_of :: "'e \<Rightarrow> cstr"
    and fresh :: "cstr \<Rightarrow> 'e"
    and key_ok :: "cstr \<Rightarrow> bool"
    and wf :: "'t \<Rightarrow> bool"
  assumes lookup_ensure:
      "wf t \<Longrightarrow> key_ok k \<Longrightarrow> key_ok j \<Longrightarrow> ensure t k = Some t' \<Longrightarrow>
       lookup t' j = (if j = k \<and> lookup t k = None then Some (fresh k) else lookup t j)"
    and lookup_modify:
      "wf t \<Longrightarrow> key_ok k \<Longrightarrow> key_ok j \<Longrightarrow> (\<And>e. key_of (f e) = key_of e) \<Longrightarrow>
       lookup (modify t k f) j = (if j = k then map_option f (lookup t k) else lookup t j)"
    and wf_ensure: "wf t \<Longrightarrow> key_ok k \<Longrightarrow> ensure t k = Some t' \<Longrightarrow> wf t'"
    and wf_modify: "wf t \<Longrightarrow> key_ok k \<Longrightarrow> (\<And>e. key_of (f e) = key_of e) \<Longrightarrow> wf (modify t k f)"
begin

lemma lookup_ensure_same:
  "wf t \<Longrightarrow> key_ok k \<Longrightarrow> ensure t k = Some t' \<Longrightarrow>
   lookup t' k = Some (case lookup t k of None \<Rightarrow> fresh k | Some e \<Rightarrow> e)"
  by (auto simp: lookup_ensure split: option.splits)

text \<open>Working on one address leaves every other address as it was.\<close>

lemma ensure_modify_other:
  assumes "wf t" "key_ok k" "key_ok j" "j \<noteq> k" "ensure t k = Some t'"
    and "\<And>e. key_of (f e) = key_of e"
  shows "lookup (modify t' k f) j = lookup t j"
  using assms by (simp add: lookup_modify wf_ensure lookup_ensure)

text \<open>The entry of the address itself is the update of the old or the fresh one.\<close>

lemma ensure_modify_same:
  assumes "wf t" "key_ok k" "ensure t k = Some t'" and "\<And>e. key_of (f e) = key_of e"
  shows "lookup (modify t' k f) k = Some (f (case lookup t k of None \<Rightarrow> fresh k | Some e \<Rightarrow> e))"
  using assms by (simp add: lookup_modify wf_ensure lookup_ensure_same)

end

section \<open>Copy loops into a bounded buffer\<close>

text \<open>\<open>filt cap s\<close> is what a copy loop leaves in a buffer of \<open>cap\<close> bytes: it stays
  inside the buffer and never makes a text longer.  A loop that also writes a
  terminator leaves room for it.\<close>

locale bounded_filter =
  fixes filt :: "nat \<Rightarrow> cstr \<Rightarrow> cstr"
  assumes filt_bound: "length (filt cap s) \<le> cap"
    and filt_shrinks: "length (filt cap s) \<le> length s"
begin

lemma filt_fits_both: "length (filt cap s) \<le> min cap (length s)"
  using filt_bound filt_shrinks by simp

lemma filt_Nil [simp]: "filt cap [] = []"
  using filt_shrinks [of cap "[]"] by simp

end

locale terminated_filter = bounded_filter +
  assumes filt_room: "0 < cap \<Longrightarrow> length (filt cap s) < cap"
begin

lemma filt_terminated: "0 < cap \<Longrightarrow> snprintf_into cap (filt cap s) = filt cap s"
  using filt_room by simp

end

section \<open>Maps of bounded size\<close>

text \<open>Steps that may fail, one after the other.\<close>

fun fold_opt :: "('q \<Rightarrow> 't \<Rightarrow> 't option) \<Rightarrow> 'q list \<Rightarrow> 't \<Rightarrow> 't option" where
  "fold_opt f [] t = Some t"
| "fold_opt f (q # qs) t = (case f q t of None \<Rightarrow> None | Some t' \<Rightarrow> fold_opt f qs t')"

lemma fold_opt_append: "fold_opt f (ps @ qs) t = (case fold_opt f ps t of None \<Rightarrow> None | Some t' \<Rightarrow> fold_opt f qs t')"
  by (induction ps arbitrary: t) (auto split: option.split)

text \<open>Storing under a key where there is room, or where the key is known.\<close>

definition bounded_store :: "nat \<Rightarrow> 'k \<Rightarrow> ('v option \<Rightarrow> 'v) \<Rightarrow> ('k \<Rightarrow> 'v option) \<Rightarrow> 'k \<Rightarrow> 'v option" where
  "bounded_store limit k v m = (if m k = None \<and> limit \<le> card (dom m) then m else m(k \<mapsto> v (m k)))"

text \<open>
  A table represents a map of at most \<open>limit\<close> keys.  A request \<open>q\<close> is stored under \<open>key q\<close>
  with a value made from the old one; requests that are not \<open>valid\<close> change nothing.
\<close>

locale bounded_map =
  fixes contents :: "'t \<Rightarrow> 'k \<Rightarrow> 'v option"
    and store :: "'q \<Rightarrow> 't \<Rightarrow> 't option"
    and forget :: "'q \<Rightarrow> 't \<Rightarrow> 't"
    and key :: "'q \<Rightarrow> 'k"
    and fill :: "'q \<Rightarrow> 'v option \<Rightarrow> 'v"
    and valid :: "'q \<Rightarrow> bool"
    and limit :: nat
    and wf :: "'t \<Rightarrow> bool"
  assumes store_law: "wf t \<Longrightarrow> \<exists>t'. store q t = Some t' \<and> wf t' \<and>
      contents t' = (if valid q then bounded_store limit (key q) (fill q) (contents t) else contents t)"
    and forget_law: "wf t \<Longrightarrow> wf (forget q t) \<and> contents (forget q t) = (contents t)(key q := None)"
    and bounded: "wf t \<Longrightarrow> finite (dom (contents t)) \<and> card (dom (contents t)) \<le> limit"
begin

lemma stored:
  assumes "wf t"
  obtains t' where "store q t = Some t'" "wf t'"
    "contents t' = (if valid q then bounded_store limit (key q) (fill q) (contents t) else contents t)"
  using store_law [OF assms] by blast

text \<open>Storing many requests never fails, and is storing them in the map.\<close>

lemma store_all:
  assumes "wf t"
  shows "\<exists>t'. fold_opt store qs t = Some t' \<and> wf t' \<and>
    contents t' = fold (\<lambda>q m. if valid q then bounded_store limit (key q) (fill q) m else m) qs (contents t)"
  using assms
proof (induction qs arbitrary: t)
  case (Cons q qs)
  obtain t' where t': "store q t = Some t'" "wf t'"
    "contents t' = (if valid q then bounded_store limit (key q) (fill q) (contents t) else contents t)"
    using stored [OF Cons.prems] by metis
  then show ?case using Cons.IH [OF t'(2)] by simp
qed simp

text \<open>Keys that are not among the requests keep their values, and with enough room the keys of all
  requests are there with a value that some request made.\<close>

lemma fold_store_other:
  assumes "k \<notin> key ` {q \<in> set qs. valid q}"
  shows "fold (\<lambda>q m. if valid q then bounded_store limit (key q) (fill q) m else m) qs m k = m k"
  using assms
proof (induction qs arbitrary: m)
  case (Cons p qs)
  have "k \<notin> key ` {q \<in> set qs. valid q}" "valid p \<Longrightarrow> k \<noteq> key p" using Cons.prems by auto
  then show ?case using Cons.IH by (cases "valid p") (simp_all add: bounded_store_def)
qed simp

lemma fold_store_present:
  assumes "k \<in> key ` {q \<in> set qs. valid q}" "finite (dom m)" "card (dom m) + length qs \<le> limit"
  shows "\<exists>p\<in>set qs. \<exists>old. valid p \<and> key p = k \<and>
    fold (\<lambda>q m. if valid q then bounded_store limit (key q) (fill q) m else m) qs m k = Some (fill p old)"
  using assms
proof (induction qs arbitrary: m)
  case (Cons p qs)
  define m' where "m' = (if valid p then bounded_store limit (key p) (fill p) m else m)"
  have m': "finite (dom m')" "card (dom m') + length qs \<le> limit"
    using Cons.prems(2,3) by (auto simp: m'_def bounded_store_def card_insert_if)
  show ?case
  proof (cases "k \<in> key ` {q \<in> set qs. valid q}")
    case True
    then show ?thesis using Cons.IH [OF True m'] by (auto simp: m'_def)
  next
    case False
    then have p: "valid p" "key p = k" using Cons.prems(1) by auto
    have "fold (\<lambda>q m. if valid q then bounded_store limit (key q) (fill q) m else m) qs m' k = m' k"
      using False by (rule fold_store_other)
    moreover have "m' k = Some (fill p (m k))"
      using Cons.prems(3) p by (auto simp: m'_def bounded_store_def)
    ultimately show ?thesis using p by (auto simp: m'_def)
  qed
qed simp

end

end
