(* ===== verification/Timespec.thy ===== *)
theory Timespec
  imports Prelude
begin

text \<open>
  The clock arithmetic of \<^verbatim>\<open>src/host/transport/keys.c\<close>: differences that stop
  at zero, conversion to nanoseconds, addition of a delay, comparison.  The
  fields are mathematical integers; the daemon reads them from the monotonic
  clock, so they stay far inside the 64-bit range.
\<close>

record timespec =
  tv_sec :: int
  tv_nsec :: int

definition timespec_zero :: timespec where
  "timespec_zero = \<lparr>tv_sec = 0, tv_nsec = 0\<rparr>"

definition timespec_is_zero :: "timespec \<Rightarrow> bool" where
  "timespec_is_zero t \<longleftrightarrow> tv_sec t = 0 \<and> tv_nsec t = 0"

definition timespec_diff :: "timespec \<Rightarrow> timespec \<Rightarrow> timespec" where
  "timespec_diff finish start =
     (let sec = tv_sec finish - tv_sec start;
          nsec = tv_nsec finish - tv_nsec start;
          (sec, nsec) = (if nsec < 0 then (sec - 1, nsec + 1000000000) else (sec, nsec));
          (sec, nsec) = (if sec < 0 then (0, 0) else (sec, nsec))
      in \<lparr>tv_sec = sec, tv_nsec = nsec\<rparr>)"

definition timespec_to_ns :: "timespec \<Rightarrow> int" where
  "timespec_to_ns t = tv_sec t * 1000000000 + tv_nsec t"

text \<open>C's quotient and remainder agree with \<open>div\<close> and \<open>mod\<close> here: the operands
  are not negative where they are used.\<close>

definition timespec_add_ns :: "timespec \<Rightarrow> int \<Rightarrow> timespec" where
  "timespec_add_ns start nanoseconds =
     (if nanoseconds < 0 then start
      else let sec = tv_sec start + nanoseconds div 1000000000;
               nsec = tv_nsec start + nanoseconds mod 1000000000
           in if nsec \<ge> 1000000000
              then \<lparr>tv_sec = sec + nsec div 1000000000, tv_nsec = nsec mod 1000000000\<rparr>
              else \<lparr>tv_sec = sec, tv_nsec = nsec\<rparr>)"

definition timespec_add_ms :: "timespec \<Rightarrow> nat \<Rightarrow> timespec" where
  "timespec_add_ms start milliseconds =
     (let sec = tv_sec start + int (milliseconds div 1000);
          nsec = tv_nsec start + int (milliseconds mod 1000) * 1000000
      in if nsec \<ge> 1000000000
         then \<lparr>tv_sec = sec + nsec div 1000000000, tv_nsec = nsec mod 1000000000\<rparr>
         else \<lparr>tv_sec = sec, tv_nsec = nsec\<rparr>)"

definition timespec_compare :: "timespec \<Rightarrow> timespec \<Rightarrow> int" where
  "timespec_compare lhs rhs =
     (if tv_sec lhs < tv_sec rhs then -1
      else if tv_sec lhs > tv_sec rhs then 1
      else if tv_nsec lhs < tv_nsec rhs then -1
      else if tv_nsec lhs > tv_nsec rhs then 1
      else 0)"

section \<open>Normalised times\<close>

definition timespec_ok :: "timespec \<Rightarrow> bool" where
  "timespec_ok t \<longleftrightarrow> 0 \<le> tv_sec t \<and> 0 \<le> tv_nsec t \<and> tv_nsec t < 1000000000"

lemma timespec_ok_zero [simp]: "timespec_ok timespec_zero"
  by (simp add: timespec_ok_def timespec_zero_def)

lemma timespec_is_zero_iff: "timespec_is_zero t \<longleftrightarrow> t = timespec_zero"
  by (auto simp: timespec_is_zero_def timespec_zero_def)

lemma timespec_to_ns_zero [simp]: "timespec_to_ns timespec_zero = 0"
  by (simp add: timespec_to_ns_def timespec_zero_def)

lemma timespec_to_ns_nonneg: "timespec_ok t \<Longrightarrow> 0 \<le> timespec_to_ns t"
  by (simp add: timespec_ok_def timespec_to_ns_def)

lemma timespec_ns_div:
  "timespec_ok t \<Longrightarrow> timespec_to_ns t div 1000000000 = tv_sec t"
  by (simp add: timespec_ok_def timespec_to_ns_def)

lemma timespec_to_ns_inj:
  assumes "timespec_ok s" "timespec_ok t" "timespec_to_ns s = timespec_to_ns t"
  shows "s = t"
proof -
  have "tv_sec s = tv_sec t"
    using assms by (metis timespec_ns_div)
  with assms show ?thesis
    by (cases s; cases t) (simp add: timespec_to_ns_def)
qed

lemma timespec_diff_to_ns:
  assumes "timespec_ok e" "timespec_ok s"
  shows "timespec_to_ns (timespec_diff e s) = max 0 (timespec_to_ns e - timespec_to_ns s)"
  using assms
  by (auto simp: timespec_diff_def timespec_ok_def timespec_to_ns_def Let_def max_def)

lemma timespec_ok_diff:
  assumes "timespec_ok e" "timespec_ok s"
  shows "timespec_ok (timespec_diff e s)"
  using assms by (auto simp: timespec_diff_def timespec_ok_def Let_def)

lemma timespec_add_ns_to_ns:
  "0 \<le> n \<Longrightarrow> timespec_to_ns (timespec_add_ns t n) = timespec_to_ns t + n"
proof -
  assume "0 \<le> n"
  moreover have "(n div 1000000000) * 1000000000 + n mod 1000000000 = n" by simp
  ultimately show ?thesis
    unfolding timespec_add_ns_def timespec_to_ns_def Let_def
    by (simp add: algebra_simps)
qed

lemma timespec_ok_add_ns: "timespec_ok t \<Longrightarrow> 0 \<le> n \<Longrightarrow> timespec_ok (timespec_add_ns t n)"
  by (auto simp: timespec_add_ns_def timespec_ok_def Let_def pos_imp_zdiv_nonneg_iff)

lemma timespec_add_ms_to_ns:
  "timespec_to_ns (timespec_add_ms t n) = timespec_to_ns t + int n * 1000000"
proof -
  have "int n = int (n div 1000) * 1000 + int (n mod 1000)"
    by (metis mult_div_mod_eq mult.commute of_nat_add of_nat_mult of_nat_numeral)
  then show ?thesis
    unfolding timespec_add_ms_def timespec_to_ns_def Let_def
    by (simp add: algebra_simps)
qed

lemma timespec_ok_add_ms: "timespec_ok t \<Longrightarrow> timespec_ok (timespec_add_ms t n)"
  by (auto simp: timespec_add_ms_def timespec_ok_def Let_def pos_imp_zdiv_nonneg_iff)

lemma timespec_compare_less:
  assumes "timespec_ok s" "timespec_ok t"
  shows "timespec_compare s t < 0 \<longleftrightarrow> timespec_to_ns s < timespec_to_ns t"
  using assms by (auto simp: timespec_compare_def timespec_ok_def timespec_to_ns_def)

lemma timespec_compare_greater:
  assumes "timespec_ok s" "timespec_ok t"
  shows "0 < timespec_compare s t \<longleftrightarrow> timespec_to_ns t < timespec_to_ns s"
  using assms by (auto simp: timespec_compare_def timespec_ok_def timespec_to_ns_def)

lemmas timespec_ns_simps =
  timespec_diff_to_ns timespec_add_ns_to_ns timespec_add_ms_to_ns timespec_compare_less timespec_compare_greater

end
