(* ===== verification/Connection_Guard.thy ===== *)
theory Connection_Guard
  imports Interfaces Timespec
begin

text \<open>
  The per-address connection guard of
  \<^verbatim>\<open>src/host/transport/connection_guard.c\<close>: pruning of stale entries, lookup,
  growth of the table, and the registration of one connection attempt with its
  sliding window, its escalating penalty and its ban recommendation.

  The array \<open>host->connection_guard\<close> with its count is the list of its live
  entries; the cleared tail of the array is not observable.  Whether a
  reallocation succeeds is the parameter \<open>alloc\<close>, asked for the number of
  entries requested.
\<close>

section \<open>State\<close>

record connection_guard_entry =
  cg_ip :: cstr
  window_start :: timespec
  attempts :: nat
  blocked_until :: timespec
  block_count :: nat
  last_seen :: timespec

record connection_guard_result =
  res_blocked :: bool
  res_escalate_ban :: bool
  res_blocked_until :: timespec
  res_attempt_count :: nat
  res_block_count :: nat

record guard_table =
  connection_guard :: "connection_guard_entry list"
  connection_guard_capacity :: nat

definition SSH_CHATTER_IP_LEN :: nat where
  "SSH_CHATTER_IP_LEN = 64"

definition GUARD_WINDOW_NS :: int where
  "GUARD_WINDOW_NS = 5000000000"

definition GUARD_THRESHOLD :: nat where
  "GUARD_THRESHOLD = 8"

definition GUARD_BLOCK_BASE_NS :: int where
  "GUARD_BLOCK_BASE_NS = 2000000000"

definition GUARD_BLOCK_STEP_NS :: int where
  "GUARD_BLOCK_STEP_NS = 2000000000"

definition GUARD_BLOCK_MAX_NS :: int where
  "GUARD_BLOCK_MAX_NS = 60000000000"

definition GUARD_RETENTION_NS :: int where
  "GUARD_RETENTION_NS = 300000000000"

definition GUARD_BAN_THRESHOLD :: nat where
  "GUARD_BAN_THRESHOLD = 5"

lemmas guard_consts = GUARD_WINDOW_NS_def GUARD_THRESHOLD_def GUARD_BLOCK_BASE_NS_def
  GUARD_BLOCK_STEP_NS_def GUARD_BLOCK_MAX_NS_def GUARD_RETENTION_NS_def
  GUARD_BAN_THRESHOLD_def

section \<open>Operations\<close>

definition guard_keep :: "timespec \<Rightarrow> connection_guard_entry \<Rightarrow> bool" where
  "guard_keep now entry \<longleftrightarrow>
     cg_ip entry \<noteq> [] \<and>
     \<not> (\<not> timespec_is_zero (last_seen entry) \<and>
        timespec_to_ns (timespec_diff now (last_seen entry)) > GUARD_RETENTION_NS)"

definition host_connection_guard_prune :: "timespec \<Rightarrow> guard_table \<Rightarrow> guard_table" where
  "host_connection_guard_prune now t =
     (if connection_guard t = [] then t
      else t\<lparr>connection_guard := compact (guard_keep now) (connection_guard t)\<rparr>)"

definition host_find_connection_guard :: "guard_table \<Rightarrow> cstr \<Rightarrow> nat option" where
  "host_find_connection_guard t ip =
     first_index (\<lambda>e. strncmp_eq SSH_CHATTER_IP_LEN (cg_ip e) ip) (connection_guard t)"

definition fresh_guard_entry :: "cstr \<Rightarrow> connection_guard_entry" where
  "fresh_guard_entry ip =
     \<lparr>cg_ip = take (SSH_CHATTER_IP_LEN - 1) ip, window_start = timespec_zero, attempts = 0,
      blocked_until = timespec_zero, block_count = 0, last_seen = timespec_zero\<rparr>"

text \<open>The result is the table and the index of the entry; \<open>None\<close> is the null
  pointer of a failed reallocation or of an empty address.\<close>

definition host_ensure_connection_guard ::
  "(nat \<Rightarrow> bool) \<Rightarrow> guard_table \<Rightarrow> cstr \<Rightarrow> (guard_table \<times> nat) option" where
  "host_ensure_connection_guard alloc t ip =
     (if ip = [] then None
      else case host_find_connection_guard t ip of
        Some i \<Rightarrow> Some (t, i)
      | None \<Rightarrow>
          let count = length (connection_guard t);
              cap = connection_guard_capacity t;
              new_capacity = (if cap > 0 then cap * 2 else 16)
          in if count \<ge> cap
             then if alloc new_capacity
                  then Some (t\<lparr>connection_guard := connection_guard t @ [fresh_guard_entry ip],
                               connection_guard_capacity := new_capacity\<rparr>, count)
                  else None
             else Some (t\<lparr>connection_guard := connection_guard t @ [fresh_guard_entry ip]\<rparr>, count))"

definition guard_result_zero :: connection_guard_result where
  "guard_result_zero =
     \<lparr>res_blocked = False, res_escalate_ban = False, res_blocked_until = timespec_zero,
      res_attempt_count = 0, res_block_count = 0\<rparr>"

definition guard_penalty_ns :: "nat \<Rightarrow> int" where
  "guard_penalty_ns blocks =
     (let penalty = GUARD_BLOCK_BASE_NS
            + int (if blocks > 0 then blocks - 1 else 0) * GUARD_BLOCK_STEP_NS
      in if penalty > GUARD_BLOCK_MAX_NS then GUARD_BLOCK_MAX_NS else penalty)"

text \<open>The sliding window of the entry at the time of an attempt.\<close>

definition guard_roll_window ::
  "timespec \<Rightarrow> connection_guard_entry \<Rightarrow> connection_guard_entry" where
  "guard_roll_window now e =
     (if timespec_is_zero (window_start e)
      then e\<lparr>window_start := now, attempts := 0\<rparr>
      else let window_ns = timespec_to_ns (timespec_diff now (window_start e))
           in if window_ns > GUARD_WINDOW_NS
              then e\<lparr>window_start := now, attempts := 0,
                     block_count := (if window_ns > GUARD_RETENTION_NS then 0 else block_count e)\<rparr>
              else e)"

text \<open>What registration does to the entry of the address, and its result.\<close>

definition guard_entry_register ::
  "timespec \<Rightarrow> connection_guard_entry \<Rightarrow> connection_guard_result \<times> connection_guard_entry" where
  "guard_entry_register now entry =
     (let e = entry\<lparr>last_seen := now\<rparr>
      in if \<not> timespec_is_zero (blocked_until e) \<and> timespec_compare (blocked_until e) now > 0
         then (\<lparr>res_blocked = True, res_escalate_ban = False,
                res_blocked_until = blocked_until e,
                res_attempt_count = attempts e, res_block_count = block_count e\<rparr>, e)
         else
           let e = guard_roll_window now (e\<lparr>blocked_until := timespec_zero\<rparr>);
               e = e\<lparr>attempts := (if attempts e < SIZE_MAX then attempts e + 1 else attempts e)\<rparr>
           in if attempts e \<ge> GUARD_THRESHOLD
              then let attempt_snapshot = attempts e;
                       blocks = (if block_count e < UINT_MAX then block_count e + 1
                                 else block_count e);
                       deadline = timespec_add_ns now (guard_penalty_ns blocks)
                   in (\<lparr>res_blocked = True,
                        res_escalate_ban = (blocks \<ge> GUARD_BAN_THRESHOLD),
                        res_blocked_until = deadline,
                        res_attempt_count = attempt_snapshot, res_block_count = blocks\<rparr>,
                       e\<lparr>block_count := blocks, blocked_until := deadline,
                         window_start := now, attempts := 0\<rparr>)
              else (\<lparr>res_blocked = False, res_escalate_ban = False,
                     res_blocked_until = timespec_zero,
                     res_attempt_count = attempts e, res_block_count = block_count e\<rparr>, e))"

definition host_connection_guard_register ::
  "(nat \<Rightarrow> bool) \<Rightarrow> timespec \<Rightarrow> cstr \<Rightarrow> guard_table \<Rightarrow> connection_guard_result \<times> guard_table" where
  "host_connection_guard_register alloc now ip t =
     (if ip = [] then (guard_result_zero, t)
      else let t = host_connection_guard_prune now t
           in case host_ensure_connection_guard alloc t ip of
                None \<Rightarrow> (guard_result_zero, t)
              | Some (t, i) \<Rightarrow>
                  let (r, e) = guard_entry_register now (connection_guard t ! i)
                  in (r, t\<lparr>connection_guard := (connection_guard t)[i := e]\<rparr>))"

text \<open>The guard of the accept loop, reset by every successful accept.\<close>

record health_guard =
  consecutive_errors :: nat
  last_error_time :: timespec

definition host_error_guard_register_success :: "health_guard \<Rightarrow> health_guard" where
  "host_error_guard_register_success g =
     g\<lparr>consecutive_errors := 0, last_error_time := timespec_zero\<rparr>"


section \<open>The table as a map from addresses\<close>

definition guard_key_ok :: "cstr \<Rightarrow> bool" where
  "guard_key_ok ip \<longleftrightarrow> ip \<noteq> [] \<and> length ip < SSH_CHATTER_IP_LEN"

definition guard_lookup :: "guard_table \<Rightarrow> cstr \<Rightarrow> connection_guard_entry option" where
  "guard_lookup t ip =
     map_option (\<lambda>i. connection_guard t ! i) (host_find_connection_guard t ip)"

definition guard_modify ::
  "guard_table \<Rightarrow> cstr \<Rightarrow> (connection_guard_entry \<Rightarrow> connection_guard_entry) \<Rightarrow> guard_table" where
  "guard_modify t ip f =
     (case host_find_connection_guard t ip of
        None \<Rightarrow> t
      | Some i \<Rightarrow> t\<lparr>connection_guard := (connection_guard t)[i := f (connection_guard t ! i)]\<rparr>)"

text \<open>Well-formedness: addresses are bounded, not empty and pairwise different, and
  the array has room for its entries.\<close>

definition guard_wf :: "guard_table \<Rightarrow> bool" where
  "guard_wf t \<longleftrightarrow>
     distinct (map cg_ip (connection_guard t)) \<and>
     (\<forall>e\<in>set (connection_guard t). guard_key_ok (cg_ip e)) \<and>
     length (connection_guard t) \<le> connection_guard_capacity t"

lemma guard_match_iff:
  "guard_wf t \<Longrightarrow> guard_key_ok ip \<Longrightarrow> e \<in> set (connection_guard t) \<Longrightarrow>
   strncmp_eq SSH_CHATTER_IP_LEN (cg_ip e) ip \<longleftrightarrow> cg_ip e = ip"
  by (auto simp: guard_wf_def guard_key_ok_def strncmp_eq_short)

lemma host_find_connection_guard_eq:
  assumes "guard_wf t" "guard_key_ok ip"
  shows "host_find_connection_guard t ip = first_index (\<lambda>e. cg_ip e = ip) (connection_guard t)"
  unfolding host_find_connection_guard_def
  by (rule first_index_cong) (use assms guard_match_iff in auto)

lemma guard_lookup_find:
  "guard_wf t \<Longrightarrow> guard_key_ok ip \<Longrightarrow>
   guard_lookup t ip = find (\<lambda>e. cg_ip e = ip) (connection_guard t)"
  by (simp add: guard_lookup_def host_find_connection_guard_eq first_index_find)

lemma guard_wf_empty: "guard_wf \<lparr>connection_guard = [], connection_guard_capacity = 0\<rparr>"
  by (simp add: guard_wf_def)

lemma guard_wf_prune: "guard_wf t \<Longrightarrow> guard_wf (host_connection_guard_prune now t)"
  by (auto simp: guard_wf_def host_connection_guard_prune_def compact_eq_filter
      distinct_map_filter intro: le_trans [OF length_filter_le])

lemma host_ensure_connection_guard_cases:
  assumes "host_ensure_connection_guard alloc t ip = Some (t', i)"
  obtains (found) "host_find_connection_guard t ip = Some i" "t' = t"
  | (added) "host_find_connection_guard t ip = None" "i = length (connection_guard t)"
      "connection_guard t' = connection_guard t @ [fresh_guard_entry ip]"
      "length (connection_guard t) \<le> connection_guard_capacity t \<Longrightarrow>
         length (connection_guard t) < connection_guard_capacity t'"
  using assms
  by (auto simp: host_ensure_connection_guard_def Let_def split: option.splits if_splits)

lemma fresh_guard_entry_ip: "guard_key_ok ip \<Longrightarrow> cg_ip (fresh_guard_entry ip) = ip"
  by (simp add: fresh_guard_entry_def guard_key_ok_def SSH_CHATTER_IP_LEN_def)

lemma guard_find_None_notin:
  "guard_wf t \<Longrightarrow> guard_key_ok ip \<Longrightarrow> host_find_connection_guard t ip = None \<Longrightarrow>
   ip \<notin> cg_ip ` set (connection_guard t)"
  by (auto simp: host_find_connection_guard_eq first_index_None)

lemma guard_wf_ensure:
  assumes "guard_wf t" "guard_key_ok ip" "host_ensure_connection_guard alloc t ip = Some (t', i)"
  shows "guard_wf t'"
  using assms(3)
proof (cases rule: host_ensure_connection_guard_cases)
  case added
  with assms guard_find_None_notin show ?thesis
    by (auto simp: guard_wf_def fresh_guard_entry_ip)
qed (use assms in simp)

lemma guard_find_bound:
  "host_find_connection_guard t ip = Some i \<Longrightarrow> i < length (connection_guard t)"
  by (simp add: host_find_connection_guard_def first_index_Some)

lemma guard_wf_update:
  "guard_wf t \<Longrightarrow> i < length (connection_guard t) \<Longrightarrow> cg_ip e = cg_ip (connection_guard t ! i) \<Longrightarrow>
   guard_wf (t\<lparr>connection_guard := (connection_guard t)[i := e]\<rparr>)"
  unfolding guard_wf_def
  using image_key_update [of i "connection_guard t" cg_ip e]
  by (simp add: map_key_update flip: ball_simps(9))

lemma guard_wf_modify:
  assumes "guard_wf t" and "\<And>e. cg_ip (f e) = cg_ip e"
  shows "guard_wf (guard_modify t ip f)"
  using assms guard_find_bound
  by (auto simp: guard_modify_def intro!: guard_wf_update split: option.splits)

lemma guard_lookup_modify:
  assumes "guard_wf t" "guard_key_ok k" "guard_key_ok j" and f: "\<And>e. cg_ip (f e) = cg_ip e"
  shows "guard_lookup (guard_modify t k f) j
       = (if j = k then map_option f (guard_lookup t k) else guard_lookup t j)"
proof (cases "host_find_connection_guard t k")
  case None
  then show ?thesis by (simp add: guard_modify_def guard_lookup_def)
next
  case (Some i)
  then have i: "i < length (connection_guard t)" "cg_ip (connection_guard t ! i) = k"
    using assms by (auto simp: host_find_connection_guard_eq first_index_Some)
  have "guard_wf (guard_modify t k f)"
    using assms by (simp add: guard_wf_modify)
  moreover have "guard_lookup t k = Some (connection_guard t ! i)"
    using Some by (simp add: guard_lookup_def)
  ultimately show ?thesis
    using assms Some i
    by (simp add: guard_lookup_find guard_modify_def find_key_update guard_wf_def)
qed


lemma guard_ensure_found:
  assumes "guard_wf t" "guard_key_ok ip" "host_ensure_connection_guard alloc t ip = Some (t', i)"
  shows "host_find_connection_guard t' ip = Some i"
  using assms(3)
proof (cases rule: host_ensure_connection_guard_cases)
  case added
  with assms guard_wf_ensure [OF assms] show ?thesis
    by (simp add: host_find_connection_guard_eq first_index_append fresh_guard_entry_ip)
qed simp

lemma guard_lookup_ensure:
  assumes "guard_wf t" "guard_key_ok k" "guard_key_ok j"
    and e: "host_ensure_connection_guard alloc t k = Some (t', i)"
  shows "guard_lookup t' j =
     (if j = k \<and> guard_lookup t k = None then Some (fresh_guard_entry k) else guard_lookup t j)"
  using e
proof (cases rule: host_ensure_connection_guard_cases)
  case found
  then show ?thesis by (auto simp: guard_lookup_def)
next
  case added
  then have "guard_lookup t k = None" by (simp add: guard_lookup_def)
  moreover have "guard_lookup t' j = find (\<lambda>e. cg_ip e = j) (connection_guard t')"
    using assms guard_wf_ensure [OF assms(1,2) e] by (simp add: guard_lookup_find)
  ultimately show ?thesis
    using assms added guard_find_None_notin [OF assms(1,2) added(1)]
    by (simp add: find_key_snoc fresh_guard_entry_ip guard_lookup_find)
qed

interpretation guard_tab: keyed_table guard_lookup
  "\<lambda>t k. map_option fst (host_ensure_connection_guard alloc t k)"
  guard_modify cg_ip fresh_guard_entry guard_key_ok guard_wf for alloc
proof (unfold_locales, goal_cases)
  case (1 t k j t')
  then show ?case by (auto simp: guard_lookup_ensure)
next
  case (2 t k j f)
  then show ?case by (simp add: guard_lookup_modify)
next
  case (3 t k t')
  then show ?case by (auto intro: guard_wf_ensure)
next
  case (4 t k f)
  then show ?case by (simp add: guard_wf_modify)
qed

text \<open>Registration as an update of the pruned and extended table.\<close>

lemma guard_roll_window_ip [simp]: "cg_ip (guard_roll_window now e) = cg_ip e"
  by (simp add: guard_roll_window_def Let_def)

lemma guard_entry_register_ip [simp]: "cg_ip (snd (guard_entry_register now e)) = cg_ip e"
  by (simp add: guard_entry_register_def Let_def)

lemma host_connection_guard_register_eq:
  assumes "guard_wf t" "guard_key_ok ip"
  shows "host_connection_guard_register alloc now ip t =
    (let p = host_connection_guard_prune now t in
     case host_ensure_connection_guard alloc p ip of
       None \<Rightarrow> (guard_result_zero, p)
     | Some (t', i) \<Rightarrow>
         (fst (guard_entry_register now (the (guard_lookup t' ip))),
          guard_modify t' ip (\<lambda>e. snd (guard_entry_register now e))))"
  using assms guard_ensure_found [OF guard_wf_prune [OF assms(1)] assms(2)]
  by (auto simp: host_connection_guard_register_def guard_key_ok_def guard_modify_def
      guard_lookup_def Let_def split: option.splits prod.splits)

lemma guard_wf_register:
  assumes "guard_wf t" "guard_key_ok ip"
  shows "guard_wf (snd (host_connection_guard_register alloc now ip t))"
  using assms guard_wf_prune [OF assms(1)] guard_wf_ensure [OF guard_wf_prune [OF assms(1)] assms(2)]
  by (auto simp: host_connection_guard_register_eq Let_def guard_wf_modify
      split: option.splits)

lemma guard_lookup_prune:
  assumes "guard_wf t" "guard_key_ok ip"
  shows "guard_lookup (host_connection_guard_prune now t) ip =
    (case guard_lookup t ip of None \<Rightarrow> None | Some e \<Rightarrow> if guard_keep now e then Some e else None)"
  using assms guard_wf_prune [OF assms(1), of now]
  by (simp add: guard_lookup_find)
    (simp add: host_connection_guard_prune_def compact_eq_filter guard_wf_def find_key_filter)

lemma guard_lookup_register_other:
  assumes "guard_wf t" "guard_key_ok k" "guard_key_ok j" "j \<noteq> k"
  shows "guard_lookup (snd (host_connection_guard_register alloc now k t)) j
       = guard_lookup (host_connection_guard_prune now t) j"
  using assms guard_tab.ensure_modify_other [OF guard_wf_prune [OF assms(1)] assms(2,3,4)]
  by (auto simp: host_connection_guard_register_eq Let_def split: option.splits)

text \<open>Registration of an address whose entry is \<open>e\<close> (fresh where there was none).\<close>

definition guard_current :: "timespec \<Rightarrow> cstr \<Rightarrow> guard_table \<Rightarrow> connection_guard_entry" where
  "guard_current now ip t =
     (case guard_lookup (host_connection_guard_prune now t) ip of
        None \<Rightarrow> fresh_guard_entry ip | Some e \<Rightarrow> e)"

lemma guard_ensure_alloc:
  "guard_key_ok ip \<Longrightarrow> (\<And>n. alloc n) \<Longrightarrow> \<exists>t' i. host_ensure_connection_guard alloc t ip = Some (t', i)"
  by (auto simp: host_ensure_connection_guard_def guard_key_ok_def Let_def split: option.splits)

lemma guard_register_same:
  assumes "guard_wf t" "guard_key_ok ip" "\<And>n. alloc n"
  shows "fst (host_connection_guard_register alloc now ip t)
           = fst (guard_entry_register now (guard_current now ip t))"
    and "guard_lookup (snd (host_connection_guard_register alloc now ip t)) ip
           = Some (snd (guard_entry_register now (guard_current now ip t)))"
proof -
  let ?p = "host_connection_guard_prune now t"
  obtain t' i where e: "host_ensure_connection_guard alloc ?p ip = Some (t', i)"
    using guard_ensure_alloc assms(2,3) by blast
  then have e': "map_option fst (host_ensure_connection_guard alloc ?p ip) = Some t'" by simp
  note wf = guard_wf_prune [OF assms(1)]
  show "fst (host_connection_guard_register alloc now ip t)
      = fst (guard_entry_register now (guard_current now ip t))"
    using assms e guard_tab.lookup_ensure_same [OF wf assms(2) e']
    by (simp add: host_connection_guard_register_eq guard_current_def Let_def)
  show "guard_lookup (snd (host_connection_guard_register alloc now ip t)) ip
      = Some (snd (guard_entry_register now (guard_current now ip t)))"
    using assms e guard_tab.ensure_modify_same [OF wf assms(2) e',
        of "\<lambda>e. snd (guard_entry_register now e)"]
    by (simp add: host_connection_guard_register_eq guard_current_def Let_def)
qed


section \<open>Invariant of every run\<close>

type_synonym guard_event = "(nat \<Rightarrow> bool) \<times> timespec \<times> cstr"

definition guard_step :: "guard_event \<Rightarrow> guard_table \<Rightarrow> guard_table" where
  "guard_step = (\<lambda>(alloc, now, ip). \<lambda>t. snd (host_connection_guard_register alloc now ip t))"

definition guard_event_ok :: "guard_event \<Rightarrow> bool" where
  "guard_event_ok = (\<lambda>(alloc, now, ip). timespec_ok now \<and> guard_key_ok ip)"

definition guard_entry_inv :: "connection_guard_entry \<Rightarrow> bool" where
  "guard_entry_inv e \<longleftrightarrow>
     attempts e < GUARD_THRESHOLD \<and> block_count e \<le> UINT_MAX \<and>
     timespec_ok (window_start e) \<and> timespec_ok (blocked_until e) \<and> timespec_ok (last_seen e)"

definition guard_inv :: "guard_table \<Rightarrow> bool" where
  "guard_inv t \<longleftrightarrow> guard_wf t \<and> (\<forall>e\<in>set (connection_guard t). guard_entry_inv e)"

definition guard_empty :: guard_table where
  "guard_empty = \<lparr>connection_guard = [], connection_guard_capacity = 0\<rparr>"

lemma guard_penalty_nonneg: "0 \<le> guard_penalty_ns n"
  by (simp add: guard_penalty_ns_def guard_consts Let_def)

lemma guard_entry_inv_fresh: "guard_entry_inv (fresh_guard_entry ip)"
  by (simp add: guard_entry_inv_def fresh_guard_entry_def guard_consts)

lemma guard_entry_inv_register:
  "guard_entry_inv e \<Longrightarrow> timespec_ok now \<Longrightarrow> guard_entry_inv (snd (guard_entry_register now e))"
  by (auto simp: guard_entry_register_def guard_roll_window_def guard_entry_inv_def Let_def
      guard_consts SIZE_MAX_def guard_penalty_nonneg timespec_ok_add_ns)

lemma guard_inv_prune: "guard_inv t \<Longrightarrow> guard_inv (host_connection_guard_prune now t)"
  using guard_wf_prune
  by (auto simp: guard_inv_def host_connection_guard_prune_def compact_eq_filter)

lemma guard_inv_ensure:
  assumes "guard_inv t" "guard_key_ok ip" "host_ensure_connection_guard alloc t ip = Some (t', i)"
  shows "guard_inv t'"
  using assms(3)
proof (cases rule: host_ensure_connection_guard_cases)
  case added
  with assms guard_wf_ensure show ?thesis
    by (fastforce simp: guard_inv_def guard_entry_inv_fresh)
qed (use assms in simp)

lemma guard_inv_register:
  assumes "guard_inv t" "guard_key_ok ip" "timespec_ok now"
  shows "guard_inv (snd (host_connection_guard_register alloc now ip t))"
proof -
  have wf: "guard_wf t" using assms(1) by (simp add: guard_inv_def)
  have "\<forall>e\<in>set (connection_guard (snd (host_connection_guard_register alloc now ip t))).
      guard_entry_inv e"
    using assms guard_inv_prune [OF assms(1), of now]
      guard_inv_ensure [OF guard_inv_prune [OF assms(1)] assms(2)]
      guard_ensure_found [OF guard_wf_prune [OF wf] assms(2), THEN guard_find_bound]
    by (auto simp: host_connection_guard_register_def guard_inv_def Let_def guard_entry_inv_register
        split: option.splits prod.splits dest!: set_update_subset_insert [THEN subsetD])
      (metis guard_entry_inv_register nth_mem snd_conv)
  with wf assms(2) show ?thesis
    by (simp add: guard_inv_def guard_wf_register)
qed

interpretation guard_sys: invariant_system guard_step guard_event_ok guard_inv
  by unfold_locales (auto simp: guard_step_def guard_event_ok_def guard_inv_register)

text \<open>
  Whatever sequence of connection attempts is registered, starting from the
  empty table of a new host and whether or not allocations succeed, the guard
  table keeps one entry per address, never holds more entries than its capacity,
  and every entry has fewer attempts than the blocking threshold and normalised
  times.
\<close>

theorem guard_run_invariant:
  "list_all guard_event_ok es \<Longrightarrow> guard_inv (fold guard_step es guard_empty)"
  using guard_sys.inv_run [of es guard_empty]
  by (simp add: guard_sys.run_def guard_inv_def guard_empty_def guard_wf_empty)

theorem guard_run_invariant_witness:
  "guard_inv (fold guard_step
     [(\<lambda>_. True, \<lparr>tv_sec = 1, tv_nsec = 0\<rparr>, ''10.0.0.1''),
      (\<lambda>_. False, \<lparr>tv_sec = 2, tv_nsec = 5\<rparr>, ''10.0.0.2'')] guard_empty)"
  by (rule guard_run_invariant)
    (simp add: guard_event_ok_def timespec_ok_def guard_key_ok_def SSH_CHATTER_IP_LEN_def)

section \<open>Blocking\<close>

text \<open>One client attempting at each time of a list: the verdicts and the table.\<close>

fun guard_attempts ::
  "(nat \<Rightarrow> bool) \<Rightarrow> cstr \<Rightarrow> timespec list \<Rightarrow> guard_table \<Rightarrow>
   connection_guard_result list \<times> guard_table" where
  "guard_attempts alloc ip [] t = ([], t)"
| "guard_attempts alloc ip (now # ts) t =
     (let (r, t1) = host_connection_guard_register alloc now ip t;
          (rs, t2) = guard_attempts alloc ip ts t1
      in (r # rs, t2))"

text \<open>The same on the entry alone.\<close>

fun entry_attempts ::
  "timespec list \<Rightarrow> connection_guard_entry \<Rightarrow> connection_guard_result list" where
  "entry_attempts [] e = []"
| "entry_attempts (now # ts) e =
     fst (guard_entry_register now e) # entry_attempts ts (snd (guard_entry_register now e))"

lemma guard_entry_register_last_seen [simp]:
  "last_seen (snd (guard_entry_register now e)) = now"
  by (simp add: guard_entry_register_def guard_roll_window_def Let_def)

text \<open>Attempts that follow each other within the retention time act on one entry.\<close>

definition within_retention :: "timespec \<Rightarrow> timespec \<Rightarrow> bool" where
  "within_retention now seen \<longleftrightarrow>
     timespec_ok now \<and> timespec_ok seen \<and>
     timespec_to_ns now \<le> timespec_to_ns seen + GUARD_RETENTION_NS"

fun spaced :: "timespec \<Rightarrow> timespec list \<Rightarrow> bool" where
  "spaced seen [] = True"
| "spaced seen (now # ts) = (within_retention now seen \<and> spaced now ts)"

lemma guard_keep_within:
  "cg_ip e \<noteq> [] \<Longrightarrow> within_retention now (last_seen e) \<Longrightarrow> guard_keep now e"
  by (auto simp: guard_keep_def within_retention_def timespec_diff_to_ns guard_consts max_def)

lemma guard_lookup_ip:
  "guard_wf t \<Longrightarrow> guard_key_ok ip \<Longrightarrow> guard_lookup t ip = Some e \<Longrightarrow> cg_ip e = ip"
  by (auto simp: guard_lookup_find find_Some_iff)

lemma guard_attempts_entry:
  assumes "guard_wf t" "guard_key_ok ip" "guard_lookup t ip = Some e"
    and "spaced (last_seen e) ts"
  shows "fst (guard_attempts (\<lambda>_. True) ip ts t) = entry_attempts ts e"
  using assms(1,3,4)
proof (induction ts arbitrary: t e)
  case (Cons now ts)
  have "guard_keep now e"
    using Cons.prems guard_lookup_ip [OF Cons.prems(1) assms(2) Cons.prems(2)] assms(2)
    by (auto intro!: guard_keep_within simp: guard_key_ok_def)
  then have cur: "guard_current now ip t = e"
    using Cons.prems assms(2) by (simp add: guard_current_def guard_lookup_prune)
  have "fst (guard_attempts (\<lambda>_. True) ip ts
        (snd (host_connection_guard_register (\<lambda>_. True) now ip t)))
      = entry_attempts ts (snd (guard_entry_register now e))"
    using Cons.prems assms(2) cur
    by (intro Cons.IH) (simp_all add: guard_wf_register guard_register_same)
  then show ?case
    using guard_register_same(1) [OF Cons.prems(1) assms(2), of "\<lambda>_. True" now] cur
    by (simp add: case_prod_beta Let_def)
qed simp

lemma guard_entry_register_blocked:
  assumes "timespec_ok now" "timespec_ok (blocked_until e)"
    and "timespec_to_ns now < timespec_to_ns (blocked_until e)"
  shows "guard_entry_register now e =
     (\<lparr>res_blocked = True, res_escalate_ban = False, res_blocked_until = blocked_until e,
       res_attempt_count = attempts e, res_block_count = block_count e\<rparr>, e\<lparr>last_seen := now\<rparr>)"
proof -
  have "blocked_until e \<noteq> timespec_zero"
    using assms timespec_to_ns_nonneg [OF assms(1)] by auto
  with assms show ?thesis
    by (simp add: guard_entry_register_def timespec_is_zero_iff timespec_compare_greater)
qed

lemma entry_attempts_blocked:
  assumes "timespec_ok (blocked_until e)"
    and "\<forall>now\<in>set ts. timespec_ok now \<and> timespec_to_ns now < timespec_to_ns (blocked_until e)"
  shows "\<forall>r\<in>set (entry_attempts ts e). res_blocked r \<and> res_blocked_until r = blocked_until e"
  using assms
proof (induction ts arbitrary: e)
  case (Cons now ts)
  then show ?case
    using Cons.IH [of "e\<lparr>last_seen := now\<rparr>"] by (simp add: guard_entry_register_blocked)
qed simp

lemma spaced_before_deadline:
  assumes "\<forall>now\<in>set (seen # ts). timespec_ok now \<and>
      timespec_to_ns D - GUARD_RETENTION_NS \<le> timespec_to_ns now \<and> timespec_to_ns now < timespec_to_ns D"
  shows "spaced seen ts"
  using assms by (induction ts arbitrary: seen) (auto simp: within_retention_def)

text \<open>
  A block lasts until its deadline.  Once an address has an entry with a
  deadline, every further attempt before that deadline is refused with that same
  deadline: attempting again neither lifts nor prolongs the block.
\<close>

theorem guard_block_holds:
  assumes "guard_wf t" "guard_key_ok ip" "guard_lookup t ip = Some e"
    and "timespec_ok (blocked_until e)"
    and "\<forall>now\<in>set (last_seen e # ts). timespec_ok now \<and>
          timespec_to_ns (blocked_until e) - GUARD_RETENTION_NS \<le> timespec_to_ns now \<and>
          timespec_to_ns now < timespec_to_ns (blocked_until e)"
  shows "\<forall>r\<in>set (fst (guard_attempts (\<lambda>_. True) ip ts t)).
           res_blocked r \<and> res_blocked_until r = blocked_until e"
proof -
  have "fst (guard_attempts (\<lambda>_. True) ip ts t) = entry_attempts ts e"
    by (rule guard_attempts_entry [OF assms(1-3) spaced_before_deadline [OF assms(5)]])
  with entry_attempts_blocked [OF assms(4), of ts] assms(5) show ?thesis
    by auto
qed

theorem guard_block_holds_witness:
  "list_all (\<lambda>r. res_blocked r \<and> res_blocked_until r = \<lparr>tv_sec = 12, tv_nsec = 0\<rparr>)
    (fst (guard_attempts (\<lambda>_. True) ''10.0.0.1''
      [\<lparr>tv_sec = 11, tv_nsec = 0\<rparr>, \<lparr>tv_sec = 11, tv_nsec = 5\<rparr>]
      \<lparr>connection_guard =
        [\<lparr>cg_ip = ''10.0.0.1'', window_start = \<lparr>tv_sec = 10, tv_nsec = 0\<rparr>, attempts = 0,
          blocked_until = \<lparr>tv_sec = 12, tv_nsec = 0\<rparr>, block_count = 1,
          last_seen = \<lparr>tv_sec = 10, tv_nsec = 0\<rparr>\<rparr>],
       connection_guard_capacity = 16\<rparr>))"
proof -
  let ?e = "\<lparr>cg_ip = ''10.0.0.1'', window_start = \<lparr>tv_sec = 10, tv_nsec = 0\<rparr>, attempts = 0,
          blocked_until = \<lparr>tv_sec = 12, tv_nsec = 0\<rparr>, block_count = 1,
          last_seen = \<lparr>tv_sec = 10, tv_nsec = 0\<rparr>\<rparr>"
  let ?t = "\<lparr>connection_guard = [?e], connection_guard_capacity = 16\<rparr>"
  have "guard_lookup ?t ''10.0.0.1'' = Some ?e"
    by (simp add: guard_lookup_def host_find_connection_guard_def strncmp_eq_def)
  from guard_block_holds [OF _ _ this,
      of "[\<lparr>tv_sec = 11, tv_nsec = 0\<rparr>, \<lparr>tv_sec = 11, tv_nsec = 5\<rparr>]"]
  show ?thesis
    by (simp add: list_all_iff guard_wf_def guard_key_ok_def SSH_CHATTER_IP_LEN_def timespec_ok_def
        timespec_to_ns_def guard_consts)
qed


section \<open>Reaching the threshold\<close>

text \<open>An entry in the middle of a window that started at \<open>t0\<close>, with \<open>k\<close> attempts.\<close>

definition guard_counting :: "timespec \<Rightarrow> nat \<Rightarrow> nat \<Rightarrow> connection_guard_entry \<Rightarrow> bool" where
  "guard_counting t0 k b e \<longleftrightarrow>
     window_start e = t0 \<and> attempts e = k \<and> blocked_until e = timespec_zero \<and> block_count e = b"

definition in_window :: "timespec \<Rightarrow> timespec \<Rightarrow> bool" where
  "in_window t0 now \<longleftrightarrow>
     timespec_ok t0 \<and> t0 \<noteq> timespec_zero \<and> timespec_ok now \<and>
     timespec_to_ns now \<le> timespec_to_ns t0 + GUARD_WINDOW_NS"

lemma guard_roll_in_window:
  "in_window (window_start e) now \<Longrightarrow> guard_roll_window now e = e"
  by (auto simp: in_window_def guard_roll_window_def timespec_is_zero_iff timespec_diff_to_ns
      guard_consts max_def)

lemma guard_counting_below:
  assumes "guard_counting t0 k b e" "in_window t0 now" "k + 1 < GUARD_THRESHOLD"
  shows "\<not> res_blocked (fst (guard_entry_register now e))"
    and "guard_counting t0 (k + 1) b (snd (guard_entry_register now e))"
  using assms
  by (auto simp: guard_counting_def guard_entry_register_def timespec_is_zero_iff
      guard_roll_in_window Let_def guard_consts SIZE_MAX_def)

lemma guard_counting_reached:
  assumes "guard_counting t0 k b e" "in_window t0 now" "k + 1 = GUARD_THRESHOLD" "b < UINT_MAX"
  shows "fst (guard_entry_register now e) =
     \<lparr>res_blocked = True, res_escalate_ban = (b + 1 \<ge> GUARD_BAN_THRESHOLD),
      res_blocked_until = timespec_add_ns now (guard_penalty_ns (b + 1)),
      res_attempt_count = GUARD_THRESHOLD, res_block_count = b + 1\<rparr>"
  using assms
  by (auto simp: guard_counting_def guard_entry_register_def timespec_is_zero_iff
      guard_roll_in_window Let_def guard_consts SIZE_MAX_def)

lemma entry_attempts_counting:
  assumes "guard_counting t0 k b e" "\<forall>now\<in>set ts. in_window t0 now"
    and "k + length ts + 1 = GUARD_THRESHOLD" "in_window t0 now" "b < UINT_MAX"
  shows "map res_blocked (entry_attempts (ts @ [now]) e) = replicate (length ts) False @ [True]
       \<and> res_blocked_until (last (entry_attempts (ts @ [now]) e))
           = timespec_add_ns now (guard_penalty_ns (b + 1))
       \<and> res_escalate_ban (last (entry_attempts (ts @ [now]) e)) = (b + 1 \<ge> GUARD_BAN_THRESHOLD)"
  using assms(1-3)
proof (induction ts arbitrary: k e)
  case Nil
  with assms(4,5) show ?case by (simp add: guard_counting_reached)
next
  case (Cons u ts)
  from Cons.prems have "\<not> res_blocked (fst (guard_entry_register u e))"
    "guard_counting t0 (k + 1) b (snd (guard_entry_register u e))"
    using guard_counting_below [OF Cons.prems(1), of u] by simp_all
  with Cons.prems Cons.IH [of "k + 1" "snd (guard_entry_register u e)"] show ?case
    by (cases ts) simp_all
qed

text \<open>The length of the penalty in closed form.\<close>

lemma guard_penalty_eq: "0 < n \<Longrightarrow> guard_penalty_ns n = min 60000000000 (2000000000 * int n)"
  by (auto simp: guard_penalty_ns_def guard_consts Let_def min_def of_nat_diff)

text \<open>
  C5: The window is enforced exactly.  An address whose entry has \<open>k\<close> attempts in a
  window that is still open is let through until the eighth attempt; the eighth
  attempt is refused, its deadline is two seconds later for the first block and
  two seconds more for each later block, at most sixty seconds, and from the fifth
  block on a ban is recommended.
\<close>

theorem guard_threshold_blocks:
  assumes "guard_wf t" "guard_key_ok ip" "guard_lookup t ip = Some e"
    and "guard_counting t0 k b e" "b < UINT_MAX" "k + length ts + 1 = 8"
    and "\<forall>now\<in>set (ts @ [now]). in_window t0 now" and "spaced (last_seen e) (ts @ [now])"
  shows "map res_blocked (fst (guard_attempts (\<lambda>_. True) ip (ts @ [now]) t))
           = replicate (length ts) False @ [True]
       \<and> timespec_to_ns (res_blocked_until (last (fst (guard_attempts (\<lambda>_. True) ip (ts @ [now]) t))))
           = timespec_to_ns now + min 60000000000 (2000000000 * int (b + 1))
       \<and> res_escalate_ban (last (fst (guard_attempts (\<lambda>_. True) ip (ts @ [now]) t)))
           = (b + 1 \<ge> 5)"
proof -
  have "fst (guard_attempts (\<lambda>_. True) ip (ts @ [now]) t) = entry_attempts (ts @ [now]) e"
    by (rule guard_attempts_entry [OF assms(1-3,8)])
  with entry_attempts_counting [OF assms(4) _ _ _ assms(5), of ts now] assms(6,7) show ?thesis
    using guard_penalty_eq [of "b + 1"]
    by (auto simp: GUARD_THRESHOLD_def GUARD_BAN_THRESHOLD_def timespec_add_ns_to_ns
        guard_penalty_nonneg)
qed

theorem guard_threshold_blocks_witness:
  "map res_blocked (fst (guard_attempts (\<lambda>_. True) ''10.0.0.1''
      ([\<lparr>tv_sec = 11, tv_nsec = 0\<rparr>] @ [\<lparr>tv_sec = 12, tv_nsec = 0\<rparr>])
      \<lparr>connection_guard =
        [\<lparr>cg_ip = ''10.0.0.1'', window_start = \<lparr>tv_sec = 10, tv_nsec = 0\<rparr>, attempts = 6,
          blocked_until = timespec_zero, block_count = 4,
          last_seen = \<lparr>tv_sec = 10, tv_nsec = 0\<rparr>\<rparr>],
       connection_guard_capacity = 16\<rparr>)) = [False, True]"
proof -
  let ?e = "\<lparr>cg_ip = ''10.0.0.1'', window_start = \<lparr>tv_sec = 10, tv_nsec = 0\<rparr>, attempts = 6,
          blocked_until = timespec_zero, block_count = 4,
          last_seen = \<lparr>tv_sec = 10, tv_nsec = 0\<rparr>\<rparr>"
  let ?t = "\<lparr>connection_guard = [?e], connection_guard_capacity = 16\<rparr>"
  let ?ts = "[\<lparr>tv_sec = 11, tv_nsec = 0\<rparr>]" and ?now = "\<lparr>tv_sec = 12, tv_nsec = 0\<rparr>"
  have lookup: "guard_lookup ?t ''10.0.0.1'' = Some ?e"
    by (simp add: guard_lookup_def host_find_connection_guard_def strncmp_eq_def)
  have wf: "guard_wf ?t" "guard_key_ok ''10.0.0.1''"
    by (simp_all add: guard_wf_def guard_key_ok_def SSH_CHATTER_IP_LEN_def)
  have counting: "guard_counting \<lparr>tv_sec = 10, tv_nsec = 0\<rparr> 6 4 ?e"
    by (simp add: guard_counting_def)
  have "\<forall>now\<in>set (?ts @ [?now]). in_window \<lparr>tv_sec = 10, tv_nsec = 0\<rparr> now"
    and "spaced (last_seen ?e) (?ts @ [?now])"
    by (simp_all add: in_window_def within_retention_def timespec_ok_def timespec_zero_def
        timespec_to_ns_def guard_consts)
  from guard_threshold_blocks [OF wf lookup counting _ _ this] show ?thesis
    by (simp add: UINT_MAX_def)
qed

section \<open>Isolation of addresses\<close>

text \<open>
  Attempts from one address never affect another: after any registration the
  entry of a different address is the one it had, removed only where it is older
  than the retention time, whatever the verdict and whether or not the table could
  grow.
\<close>

theorem guard_isolation:
  assumes "guard_wf t" "guard_key_ok k" "guard_key_ok j" "j \<noteq> k"
  shows "guard_lookup (snd (host_connection_guard_register alloc now k t)) j
       = (case guard_lookup t j of None \<Rightarrow> None
          | Some e \<Rightarrow> if guard_keep now e then Some e else None)"
  using assms by (simp add: guard_lookup_register_other guard_lookup_prune)

theorem guard_isolation_witness:
  "guard_lookup (snd (host_connection_guard_register (\<lambda>_. False) \<lparr>tv_sec = 9, tv_nsec = 0\<rparr>
      ''10.0.0.1'' \<lparr>connection_guard = [(fresh_guard_entry ''10.0.0.2'')\<lparr>attempts := 3\<rparr>],
                    connection_guard_capacity = 1\<rparr>)) ''10.0.0.2''
   = Some ((fresh_guard_entry ''10.0.0.2'')\<lparr>attempts := 3\<rparr>)"
  by (subst guard_isolation)
    (simp_all add: guard_wf_def guard_key_ok_def SSH_CHATTER_IP_LEN_def fresh_guard_entry_def
      guard_lookup_def host_find_connection_guard_def strncmp_eq_def guard_keep_def
      timespec_is_zero_iff)

end
