(* ===== verification/Join_Activity.thy ===== *)
theory Join_Activity
  imports Connection_Guard "HOL-Library.Multiset"
begin

text \<open>
  Join throttling of \<^verbatim>\<open>src/host/runtime/user_commands.c\<close>: the per-address
  activity table with its swap-removal prune, the admission delay that spaces
  joins, the registration of a join attempt with its kick verdict, and the
  counter of suspicious events.  Every successful attempt is also registered in
  the connection guard.

  As for the guard, the array with its count is the list of its live entries and
  the success of a reallocation is the parameter \<open>alloc\<close>.  The times read from
  the monotonic clock are arguments.
\<close>

section \<open>State\<close>

record join_activity_entry =
  ja_ip :: cstr
  last_username :: cstr
  last_attempt :: timespec
  rapid_attempts :: nat
  same_name_attempts :: nat
  join_window_start :: timespec
  join_window_attempts :: nat
  last_suspicious :: timespec
  suspicious_events :: nat
  asciiart_has_cooldown :: bool
  last_asciiart_post :: timespec

datatype host_join_attempt_result = JOIN_OK | JOIN_KICK | JOIN_BAN

record join_host =
  join_activity :: "join_activity_entry list"
  join_activity_capacity :: nat
  operator_grants :: "cstr list"
  join_guard :: guard_table
  next_join_ready_time :: timespec
  join_throttle_initialised :: bool
  join_progress_length :: nat

definition USERNAME_LEN :: nat where
  "USERNAME_LEN = 256"

definition JOIN_BAR_MAX :: nat where
  "JOIN_BAR_MAX = 17"

definition JOIN_RAPID_WINDOW_NS :: int where
  "JOIN_RAPID_WINDOW_NS = 60000000000"

definition JOIN_KICK_WINDOW_NS :: int where
  "JOIN_KICK_WINDOW_NS = 60000000000"

definition JOIN_KICK_THRESHOLD :: nat where
  "JOIN_KICK_THRESHOLD = 20"

definition JOIN_ACTIVITY_RETENTION_NS :: int where
  "JOIN_ACTIVITY_RETENTION_NS = 300 * 1000000000"

definition SUSPICIOUS_EVENT_WINDOW_NS :: int where
  "SUSPICIOUS_EVENT_WINDOW_NS = 300000000000"

definition SUSPICIOUS_EVENT_THRESHOLD :: nat where
  "SUSPICIOUS_EVENT_THRESHOLD = 2"

lemmas join_consts = JOIN_RAPID_WINDOW_NS_def JOIN_KICK_WINDOW_NS_def JOIN_KICK_THRESHOLD_def
  JOIN_ACTIVITY_RETENTION_NS_def SUSPICIOUS_EVENT_WINDOW_NS_def SUSPICIOUS_EVENT_THRESHOLD_def

section \<open>Pruning\<close>

definition join_stale :: "timespec \<Rightarrow> join_activity_entry \<Rightarrow> bool" where
  "join_stale now e \<longleftrightarrow>
     timespec_is_zero (last_attempt e) \<or>
     timespec_to_ns (timespec_diff now (last_attempt e)) \<ge> JOIN_ACTIVITY_RETENTION_NS"

definition join_age :: "timespec \<Rightarrow> join_activity_entry \<Rightarrow> join_activity_entry" where
  "join_age now e =
     (if asciiart_has_cooldown e \<and>
         timespec_to_ns (timespec_diff now (last_asciiart_post e)) \<ge> JOIN_ACTIVITY_RETENTION_NS
      then e\<lparr>asciiart_has_cooldown := False\<rparr> else e)"

text \<open>The loop: a stale entry is overwritten by the last one, and the index stays.\<close>

function join_prune_loop ::
  "timespec \<Rightarrow> nat \<Rightarrow> join_activity_entry list \<Rightarrow> join_activity_entry list" where
  "join_prune_loop now idx xs =
     (if idx < length xs
      then if join_stale now (xs ! idx)
           then join_prune_loop now idx (butlast (xs[idx := last xs]))
           else join_prune_loop now (Suc idx) (xs[idx := join_age now (xs ! idx)])
      else xs)"
  by pat_completeness auto
termination
  by (relation "measure (\<lambda>(now, idx, xs). length xs - idx)") auto

declare join_prune_loop.simps [simp del]

definition host_prune_join_activity_locked ::
  "(nat \<Rightarrow> bool) \<Rightarrow> timespec \<Rightarrow> timespec option \<Rightarrow> join_host \<Rightarrow> join_host" where
  "host_prune_join_activity_locked alloc clock reference_time h =
     (if join_activity h = [] then h
      else
        let now = (case reference_time of
                     Some r \<Rightarrow> if timespec_is_zero r then clock else r
                   | None \<Rightarrow> clock);
            xs = join_prune_loop now 0 (join_activity h);
            cap = join_activity_capacity h;
            h = h\<lparr>join_activity := xs\<rparr>
        in if xs = [] then h\<lparr>join_activity_capacity := 0\<rparr>
           else if cap > 8 \<and> length xs \<le> cap div 2
           then let new_capacity = max (max (cap div 2) 8) (length xs)
                in if alloc new_capacity then h\<lparr>join_activity_capacity := new_capacity\<rparr> else h
           else h)"

section \<open>Lookup and growth\<close>

definition host_find_join_activity_locked :: "join_host \<Rightarrow> cstr \<Rightarrow> nat option" where
  "host_find_join_activity_locked h ip =
     (if ip = [] then None
      else first_index (\<lambda>e. strncmp_eq SSH_CHATTER_IP_LEN (ja_ip e) ip) (join_activity h))"

definition fresh_join_entry :: "cstr \<Rightarrow> join_activity_entry" where
  "fresh_join_entry ip =
     \<lparr>ja_ip = snprintf_into SSH_CHATTER_IP_LEN ip, last_username = [],
      last_attempt = timespec_zero, rapid_attempts = 0, same_name_attempts = 0,
      join_window_start = timespec_zero, join_window_attempts = 0,
      last_suspicious = timespec_zero, suspicious_events = 0,
      asciiart_has_cooldown = False, last_asciiart_post = timespec_zero\<rparr>"

definition host_ensure_join_activity_locked ::
  "(nat \<Rightarrow> bool) \<Rightarrow> join_host \<Rightarrow> cstr \<Rightarrow> (join_host \<times> nat) option" where
  "host_ensure_join_activity_locked alloc h ip =
     (if ip = [] then None
      else case host_find_join_activity_locked h ip of
        Some i \<Rightarrow> Some (h, i)
      | None \<Rightarrow>
          let count = length (join_activity h);
              cap = join_activity_capacity h;
              new_capacity = (if cap > 0 then cap * 2 else 8)
          in if count \<ge> cap
             then if alloc new_capacity
                  then Some (h\<lparr>join_activity := join_activity h @ [fresh_join_entry ip],
                               join_activity_capacity := new_capacity\<rparr>, count)
                  else None
             else Some (h\<lparr>join_activity := join_activity h @ [fresh_join_entry ip]\<rparr>, count))"

section \<open>Admission delay\<close>

text \<open>The progress of the bar, the wait before admission, and the new state.\<close>

definition host_prepare_join_delay :: "timespec \<Rightarrow> join_host \<Rightarrow> nat \<times> timespec \<times> join_host" where
  "host_prepare_join_delay now h0 =
     (let h = (if join_throttle_initialised h0 then h0
               else h0\<lparr>next_join_ready_time := now, join_throttle_initialised := True,
                       join_progress_length := 0\<rparr>);
          wait = (if timespec_compare now (next_join_ready_time h) < 0
                  then timespec_diff (next_join_ready_time h) now else timespec_zero);
          base = (if timespec_compare (next_join_ready_time h) now > 0
                  then next_join_ready_time h else now);
          progress = join_progress_length h mod JOIN_BAR_MAX + 1
      in (progress, wait,
          h\<lparr>next_join_ready_time := timespec_add_ms base 100, join_progress_length := progress\<rparr>))"

section \<open>Join attempts and suspicious events\<close>

text \<open>What a join attempt does to the entry of its address; \<open>None\<close> is a missing
  user name.\<close>

definition join_entry_register ::
  "timespec \<Rightarrow> cstr option \<Rightarrow> join_activity_entry \<Rightarrow> join_activity_entry" where
  "join_entry_register now username entry =
     (let diff_ns = timespec_to_ns (timespec_diff now (last_attempt entry));
          has_prior_attempt = (\<not> timespec_is_zero (last_attempt entry));
          within_window = (has_prior_attempt \<and> diff_ns \<le> JOIN_RAPID_WINDOW_NS);
          e = entry\<lparr>rapid_attempts :=
                (if within_window then size_add (rapid_attempts entry) 1 else 1)\<rparr>;
          e = (case username of
                 Some u \<Rightarrow>
                   if u \<noteq> [] then
                     if within_window \<and> strncmp_eq USERNAME_LEN (last_username e) u
                     then e\<lparr>same_name_attempts := size_add (same_name_attempts e) 1\<rparr>
                     else e\<lparr>same_name_attempts := 1,
                            last_username := snprintf_into USERNAME_LEN u\<rparr>
                   else e\<lparr>same_name_attempts :=
                            (if within_window then size_add (same_name_attempts e) 1 else 1)\<rparr>
               | None \<Rightarrow> e\<lparr>same_name_attempts :=
                            (if within_window then size_add (same_name_attempts e) 1 else 1)\<rparr>);
          e = (if timespec_is_zero (join_window_start e)
               then e\<lparr>join_window_start := now, join_window_attempts := 1\<rparr>
               else if timespec_to_ns (timespec_diff now (join_window_start e)) > JOIN_KICK_WINDOW_NS
               then e\<lparr>join_window_start := now, join_window_attempts := 1\<rparr>
               else if join_window_attempts e < SIZE_MAX
               then e\<lparr>join_window_attempts := join_window_attempts e + 1\<rparr>
               else e)
      in e\<lparr>last_attempt := now\<rparr>)"

definition host_ip_has_grant_locked :: "join_host \<Rightarrow> cstr \<Rightarrow> bool" where
  "host_ip_has_grant_locked h ip \<longleftrightarrow>
     ip \<noteq> [] \<and> list_ex (\<lambda>g. strncmp_eq SSH_CHATTER_IP_LEN g ip) (operator_grants h)"

definition host_register_join_attempt ::
  "(nat \<Rightarrow> bool) \<Rightarrow> timespec \<Rightarrow> timespec \<Rightarrow> cstr option \<Rightarrow> cstr \<Rightarrow> join_host \<Rightarrow>
   host_join_attempt_result \<times> join_host" where
  "host_register_join_attempt alloc now guard_now username ip h =
     (if ip = [] then (JOIN_OK, h)
      else
        let h = host_prune_join_activity_locked alloc now (Some now) h
        in case host_ensure_join_activity_locked alloc h ip of
             None \<Rightarrow> (JOIN_OK, h)
           | Some (h, i) \<Rightarrow>
               let e = join_entry_register now username (join_activity h ! i);
                   h = h\<lparr>join_activity := (join_activity h)[i := e]\<rparr>;
                   exempt_ip = host_ip_has_grant_locked h ip;
                   kick_ip = (\<not> exempt_ip \<and> join_window_attempts e \<ge> JOIN_KICK_THRESHOLD)
               in if \<not> exempt_ip \<and> kick_ip then (JOIN_KICK, h)
                  else (JOIN_OK,
                        h\<lparr>join_guard :=
                          snd (host_connection_guard_register alloc guard_now ip (join_guard h))\<rparr>))"

definition suspicious_entry_register ::
  "timespec \<Rightarrow> join_activity_entry \<Rightarrow> join_activity_entry" where
  "suspicious_entry_register now entry =
     (let e = (if \<not> timespec_is_zero (last_suspicious entry) \<and>
                  timespec_to_ns (timespec_diff now (last_suspicious entry))
                    > SUSPICIOUS_EVENT_WINDOW_NS
               then entry\<lparr>suspicious_events := 0\<rparr> else entry)
      in e\<lparr>suspicious_events :=
             (if suspicious_events e < SUSPICIOUS_EVENT_THRESHOLD
              then suspicious_events e + 1 else SUSPICIOUS_EVENT_THRESHOLD),
           last_suspicious := now\<rparr>)"

text \<open>The returned flag is always false; the second component is the number of
  events written to \<open>attempts_out\<close>.\<close>

definition host_register_suspicious_activity ::
  "(nat \<Rightarrow> bool) \<Rightarrow> timespec \<Rightarrow> cstr \<Rightarrow> join_host \<Rightarrow> bool \<times> nat \<times> join_host" where
  "host_register_suspicious_activity alloc now ip h =
     (if ip = [] then (False, 0, h)
      else case host_ensure_join_activity_locked alloc h ip of
        None \<Rightarrow> (False, 0, h)
      | Some (h, i) \<Rightarrow>
          let e = suspicious_entry_register now (join_activity h ! i)
          in (False, suspicious_events e, h\<lparr>join_activity := (join_activity h)[i := e]\<rparr>))"

section \<open>Pruning keeps exactly the recent entries\<close>

lemma mset_swap_remove:
  assumes "idx < length xs"
  shows "mset (drop idx (butlast (xs[idx := last xs]))) = mset (drop (Suc idx) xs)"
    and "take idx (butlast (xs[idx := last xs])) = take idx xs"
proof -
  have ne: "xs \<noteq> []" using assms by auto
  show "take idx (butlast (xs[idx := last xs])) = take idx xs"
    using assms by (simp add: butlast_conv_take)
  show "mset (drop idx (butlast (xs[idx := last xs]))) = mset (drop (Suc idx) xs)"
  proof (cases "Suc idx = length xs")
    case True
    then show ?thesis by (simp add: butlast_conv_take)
  next
    case False
    with assms have "drop (Suc idx) xs \<noteq> []" by simp
    then have s: "drop (Suc idx) xs = butlast (drop (Suc idx) xs) @ [last xs]"
      by (metis append_butlast_last_id last_drop drop_eq_Nil not_le)
    have "drop idx (xs[idx := last xs]) = last xs # drop (Suc idx) xs"
      using assms by (simp add: drop_update_swap Cons_nth_drop_Suc [symmetric])
    then have "drop idx (butlast (xs[idx := last xs])) = last xs # butlast (drop (Suc idx) xs)"
      using \<open>drop (Suc idx) xs \<noteq> []\<close> by (simp add: drop_butlast)
    then show ?thesis by (subst s) simp
  qed
qed

lemma join_prune_loop_mset:
  "mset (join_prune_loop now idx xs) =
     mset (take idx xs)
     + image_mset (join_age now) (mset (filter (\<lambda>e. \<not> join_stale now e) (drop idx xs)))"
proof (induction now idx xs rule: join_prune_loop.induct)
  case (1 now idx xs)
  show ?case
  proof (cases "idx < length xs")
    case True
    then have d: "drop idx xs = xs ! idx # drop (Suc idx) xs"
      by (simp add: Cons_nth_drop_Suc)
    show ?thesis
    proof (cases "join_stale now (xs ! idx)")
      case stale: True
      with 1(1) [OF True stale] True show ?thesis
        by (simp add: join_prune_loop.simps [of now idx xs] mset_swap_remove d flip: mset_filter)
          (simp add: mset_swap_remove)
    next
      case False
      with 1(2) [OF True False] True show ?thesis
        by (simp add: join_prune_loop.simps [of now idx xs] d take_Suc_conv_app_nth)
    qed
  qed (simp add: join_prune_loop.simps [of now idx xs])
qed

text \<open>
  Pruning removes exactly the entries without a join attempt in the retention
  time and keeps the others, each once: the swap-removal loop, which moves the last
  entry into every hole and looks at it again, never skips an entry and never
  duplicates one.  Of a kept entry only an expired art cooldown is cleared.
\<close>

theorem join_prune_exact:
  "mset (join_prune_loop now 0 xs) =
     image_mset (join_age now) {#e \<in># mset xs. \<not> join_stale now e#}"
  using join_prune_loop_mset [of now 0 xs] by simp

section \<open>Admission is spaced\<close>

fun join_admissions :: "timespec list \<Rightarrow> join_host \<Rightarrow> int list" where
  "join_admissions [] h = []"
| "join_admissions (now # ts) h =
     (let (progress, wait, h') = host_prepare_join_delay now h
      in (timespec_to_ns now + timespec_to_ns wait) # join_admissions ts h')"

text \<open>One call: the client is admitted when the throttle is ready or now, whichever
  is later, and the next is ready 100 ms after that.\<close>

lemma host_prepare_join_delay_step:
  assumes "timespec_ok now" "timespec_ok (next_join_ready_time h)"
    and "host_prepare_join_delay now h = (progress, wait, h')"
  shows "join_throttle_initialised h'" and "timespec_ok (next_join_ready_time h')"
    and "timespec_to_ns (next_join_ready_time h')
           = timespec_to_ns now + timespec_to_ns wait + 100000000"
    and "join_throttle_initialised h \<Longrightarrow>
           timespec_to_ns (next_join_ready_time h) \<le> timespec_to_ns now + timespec_to_ns wait"
    and "1 \<le> progress \<and> progress \<le> JOIN_BAR_MAX \<and> join_progress_length h' = progress"
  using assms
  by (auto simp: host_prepare_join_delay_def Let_def timespec_ns_simps timespec_ok_add_ms
      JOIN_BAR_MAX_def Suc_le_eq)

lemma join_admissions_after:
  assumes "\<forall>now\<in>set ts. timespec_ok now" "timespec_ok (next_join_ready_time h)"
    and "join_throttle_initialised h" "x \<in> set (join_admissions ts h)"
  shows "timespec_to_ns (next_join_ready_time h) \<le> x"
  using assms
proof (induction ts arbitrary: h)
  case (Cons now ts)
  obtain p w h' where h': "host_prepare_join_delay now h = (p, w, h')" by (metis prod_cases3)
  note step = host_prepare_join_delay_step [OF _ Cons.prems(2) h']
  from Cons.prems h' have "x = timespec_to_ns now + timespec_to_ns w \<or> x \<in> set (join_admissions ts h')"
    by auto
  with Cons.prems Cons.IH [of h'] step show ?case by auto
qed simp

text \<open>
  The throttle spaces joins.  Whatever times the clock shows when clients join,
  even if it goes backwards, the times at which they are admitted (the time of the
  call plus the wait it returns) are at least 100 milliseconds apart, and in the
  order of the calls.
\<close>

theorem join_admissions_spaced:
  assumes "\<forall>now\<in>set ts. timespec_ok now" "timespec_ok (next_join_ready_time h)"
  shows "sorted_wrt (\<lambda>a b. a + 100000000 \<le> b) (join_admissions ts h)"
  using assms
proof (induction ts arbitrary: h)
  case (Cons now ts)
  obtain p w h' where h': "host_prepare_join_delay now h = (p, w, h')" by (metis prod_cases3)
  note step = host_prepare_join_delay_step [OF _ Cons.prems(2) h']
  from Cons step h' join_admissions_after [of ts h'] show ?case by auto
qed simp

theorem join_admissions_spaced_witness:
  "sorted_wrt (\<lambda>a b. a + 100000000 \<le> b)
     (join_admissions [\<lparr>tv_sec = 5, tv_nsec = 0\<rparr>, \<lparr>tv_sec = 5, tv_nsec = 20\<rparr>]
       \<lparr>join_activity = [], join_activity_capacity = 0, operator_grants = [],
        join_guard = guard_empty, next_join_ready_time = timespec_zero,
        join_throttle_initialised = False, join_progress_length = 0\<rparr>)"
  by (rule join_admissions_spaced) (simp_all add: timespec_ok_def timespec_zero_def)

section \<open>The activity table as a map from addresses\<close>

definition join_wf :: "join_host \<Rightarrow> bool" where
  "join_wf h \<longleftrightarrow>
     distinct (map ja_ip (join_activity h)) \<and>
     (\<forall>e\<in>set (join_activity h). guard_key_ok (ja_ip e)) \<and>
     length (join_activity h) \<le> join_activity_capacity h"

definition join_lookup :: "join_host \<Rightarrow> cstr \<Rightarrow> join_activity_entry option" where
  "join_lookup h ip =
     map_option (\<lambda>i. join_activity h ! i) (host_find_join_activity_locked h ip)"

definition join_modify ::
  "join_host \<Rightarrow> cstr \<Rightarrow> (join_activity_entry \<Rightarrow> join_activity_entry) \<Rightarrow> join_host" where
  "join_modify h ip f =
     (case host_find_join_activity_locked h ip of
        None \<Rightarrow> h
      | Some i \<Rightarrow> h\<lparr>join_activity := (join_activity h)[i := f (join_activity h ! i)]\<rparr>)"

lemma host_find_join_activity_eq:
  assumes "join_wf h" "guard_key_ok ip"
  shows "host_find_join_activity_locked h ip = first_index (\<lambda>e. ja_ip e = ip) (join_activity h)"
  using assms unfolding host_find_join_activity_locked_def
  by (auto simp: join_wf_def guard_key_ok_def strncmp_eq_short intro!: first_index_cong)

lemma join_lookup_find:
  "join_wf h \<Longrightarrow> guard_key_ok ip \<Longrightarrow>
   join_lookup h ip = find (\<lambda>e. ja_ip e = ip) (join_activity h)"
  by (simp add: join_lookup_def host_find_join_activity_eq first_index_find)

lemma fresh_join_entry_ip: "guard_key_ok ip \<Longrightarrow> ja_ip (fresh_join_entry ip) = ip"
  by (simp add: fresh_join_entry_def guard_key_ok_def)

lemma host_ensure_join_activity_cases:
  assumes "host_ensure_join_activity_locked alloc h ip = Some (h', i)"
  obtains (found) "host_find_join_activity_locked h ip = Some i" "h' = h"
  | (added) "host_find_join_activity_locked h ip = None" "i = length (join_activity h)"
      "join_activity h' = join_activity h @ [fresh_join_entry ip]"
      "length (join_activity h) \<le> join_activity_capacity h \<Longrightarrow>
         length (join_activity h) < join_activity_capacity h'"
  using assms
  by (auto simp: host_ensure_join_activity_locked_def Let_def split: option.splits if_splits)

lemma join_wf_ensure:
  assumes "join_wf h" "guard_key_ok ip" "host_ensure_join_activity_locked alloc h ip = Some (h', i)"
  shows "join_wf h'"
  using assms(3)
proof (cases rule: host_ensure_join_activity_cases)
  case added
  with assms show ?thesis
    by (auto simp: join_wf_def fresh_join_entry_ip host_find_join_activity_eq first_index_None)
qed (use assms in simp)

lemma join_ensure_found:
  assumes "join_wf h" "guard_key_ok ip" "host_ensure_join_activity_locked alloc h ip = Some (h', i)"
  shows "host_find_join_activity_locked h' ip = Some i"
  using assms(3)
proof (cases rule: host_ensure_join_activity_cases)
  case added
  with assms join_wf_ensure [OF assms] show ?thesis
    by (simp add: host_find_join_activity_eq first_index_append fresh_join_entry_ip)
qed simp

lemma join_lookup_ensure:
  assumes "join_wf h" "guard_key_ok k" "guard_key_ok j"
    and e: "host_ensure_join_activity_locked alloc h k = Some (h', i)"
  shows "join_lookup h' j =
     (if j = k \<and> join_lookup h k = None then Some (fresh_join_entry k) else join_lookup h j)"
  using e
proof (cases rule: host_ensure_join_activity_cases)
  case added
  then have "k \<notin> ja_ip ` set (join_activity h)" "join_lookup h k = None"
    using assms by (auto simp: host_find_join_activity_eq first_index_None join_lookup_def)
  with added assms join_wf_ensure [OF assms(1,2) e] show ?thesis
    by (simp add: join_lookup_find find_key_snoc fresh_join_entry_ip)
qed (auto simp: join_lookup_def)

lemma join_find_bound:
  "host_find_join_activity_locked h ip = Some i \<Longrightarrow> i < length (join_activity h)"
  by (simp add: host_find_join_activity_locked_def first_index_Some split: if_splits)

lemma join_wf_modify:
  assumes "join_wf h" and "\<And>e. ja_ip (f e) = ja_ip e"
  shows "join_wf (join_modify h ip f)"
proof (cases "host_find_join_activity_locked h ip")
  case (Some i)
  then have "i < length (join_activity h)" by (rule join_find_bound)
  with assms Some image_key_update [of i "join_activity h" ja_ip "f (join_activity h ! i)"]
  show ?thesis
    by (simp add: join_modify_def join_wf_def map_key_update flip: ball_simps(9))
qed (use assms in \<open>simp add: join_modify_def\<close>)

lemma join_lookup_modify:
  assumes "join_wf h" "guard_key_ok k" "guard_key_ok j" and f: "\<And>e. ja_ip (f e) = ja_ip e"
  shows "join_lookup (join_modify h k f) j
       = (if j = k then map_option f (join_lookup h k) else join_lookup h j)"
proof (cases "host_find_join_activity_locked h k")
  case None
  then show ?thesis by (simp add: join_modify_def join_lookup_def)
next
  case (Some i)
  then have i: "i < length (join_activity h)" "ja_ip (join_activity h ! i) = k"
    using assms by (auto simp: host_find_join_activity_eq first_index_Some)
  have "join_wf (join_modify h k f)"
    using assms by (simp add: join_wf_modify)
  moreover have "join_lookup h k = Some (join_activity h ! i)"
    using Some by (simp add: join_lookup_def)
  ultimately show ?thesis
    using assms Some i
    by (simp add: join_lookup_find join_modify_def find_key_update join_wf_def)
qed

interpretation join_tab: keyed_table join_lookup
  "\<lambda>h k. map_option fst (host_ensure_join_activity_locked alloc h k)"
  join_modify ja_ip fresh_join_entry guard_key_ok join_wf for alloc
proof (unfold_locales, goal_cases)
  case (1 t k j t')
  then show ?case by (auto simp: join_lookup_ensure)
next
  case (2 t k j f)
  then show ?case by (simp add: join_lookup_modify)
next
  case (3 t k t')
  then show ?case by (auto intro: join_wf_ensure)
next
  case (4 t k f)
  then show ?case by (simp add: join_wf_modify)
qed

section \<open>Pruning on the map\<close>

lemma join_age_ip [simp]: "ja_ip (join_age now e) = ja_ip e"
  by (simp add: join_age_def)

lemma join_prune_loop_set:
  "set (join_prune_loop now 0 xs) = join_age now ` {e \<in> set xs. \<not> join_stale now e}"
  using arg_cong [OF join_prune_loop_mset [of now 0 xs], of set_mset] by auto

lemma join_prune_loop_keys:
  "mset (map ja_ip (join_prune_loop now 0 xs))
     = mset (map ja_ip (filter (\<lambda>e. \<not> join_stale now e) xs))"
proof -
  have "image_mset ja_ip (mset (join_prune_loop now 0 xs))
      = image_mset ja_ip (mset (filter (\<lambda>e. \<not> join_stale now e) xs))"
    using join_prune_loop_mset [of now 0 xs] by (simp add: image_mset.compositionality comp_def)
  then show ?thesis by simp
qed

lemma join_prune_activity:
  "join_activity (host_prune_join_activity_locked alloc clock r h)
     = join_prune_loop (case r of Some r \<Rightarrow> if timespec_is_zero r then clock else r
                        | None \<Rightarrow> clock) 0 (join_activity h)"
  by (simp add: host_prune_join_activity_locked_def Let_def)
    (simp add: join_prune_loop.simps)

lemma length_join_prune_loop: "length (join_prune_loop now 0 xs) \<le> length xs"
  using arg_cong [OF join_prune_loop_keys [of now xs], of size]
  by (simp flip: size_mset)

lemma join_wf_prune:
  assumes "join_wf h"
  shows "join_wf (host_prune_join_activity_locked alloc clock r h)"
proof -
  have "distinct (map ja_ip (join_prune_loop now 0 (join_activity h)))" for now
    using assms mset_eq_imp_distinct_iff [OF join_prune_loop_keys [of now "join_activity h"]]
    by (simp add: join_wf_def distinct_map_filter)
  moreover have "length (join_prune_loop now 0 (join_activity h)) \<le> join_activity_capacity h" for now
    using assms length_join_prune_loop [of now "join_activity h"] by (simp add: join_wf_def)
  ultimately show ?thesis
    using assms
    by (auto simp: join_wf_def join_prune_activity join_prune_loop_set)
      (auto simp: host_prune_join_activity_locked_def Let_def)
qed

lemma join_lookup_prune:
  assumes "join_wf h" "guard_key_ok ip"
  shows "join_lookup (host_prune_join_activity_locked alloc now (Some now) h) ip =
    (case join_lookup h ip of None \<Rightarrow> None
     | Some e \<Rightarrow> if join_stale now e then None else Some (join_age now e))" (is "?L = ?R")
proof -
  have "?L = Some e \<longleftrightarrow> ?R = Some e" for e
  proof -
    have "?L = Some e \<longleftrightarrow>
        e \<in> set (join_prune_loop now 0 (join_activity h)) \<and> ja_ip e = ip"
      using assms join_wf_prune [OF assms(1), of alloc now "Some now"]
      by (simp add: join_lookup_find join_wf_def find_key_eq_Some)
        (simp add: join_prune_activity)
    also have "\<dots> \<longleftrightarrow> ?R = Some e"
      using assms
      by (auto simp: join_prune_loop_set join_lookup_find join_wf_def find_key_eq_Some
          find_key_None split: option.splits) (metis distinct_map inj_onD)+
    finally show ?thesis .
  qed
  then show ?thesis by (rule option_eq_Some_ext)
qed

section \<open>Verdicts\<close>

lemma join_entry_register_ip [simp]: "ja_ip (join_entry_register now u e) = ja_ip e"
  by (simp add: join_entry_register_def Let_def split: option.splits)

lemma join_entry_register_last [simp]: "last_attempt (join_entry_register now u e) = now"
  by (simp add: join_entry_register_def Let_def)

lemma join_age_window [simp]:
  "join_window_start (join_age now e) = join_window_start e"
  "join_window_attempts (join_age now e) = join_window_attempts e"
  by (simp_all add: join_age_def)

lemma host_prune_join_frame [simp]:
  "operator_grants (host_prune_join_activity_locked alloc c r h) = operator_grants h"
  "join_guard (host_prune_join_activity_locked alloc c r h) = join_guard h"
  by (simp_all add: host_prune_join_activity_locked_def Let_def)

lemma host_ensure_join_frame:
  "host_ensure_join_activity_locked alloc h ip = Some (h', i) \<Longrightarrow>
   operator_grants h' = operator_grants h \<and> join_guard h' = join_guard h"
  by (auto simp: host_ensure_join_activity_locked_def Let_def split: option.splits if_splits)

definition join_current :: "timespec \<Rightarrow> cstr \<Rightarrow> join_host \<Rightarrow> join_activity_entry" where
  "join_current now ip h =
     (case join_lookup h ip of
        None \<Rightarrow> fresh_join_entry ip
      | Some e \<Rightarrow> if join_stale now e then fresh_join_entry ip else join_age now e)"

lemma join_lookup_guard [simp]: "join_lookup (h\<lparr>join_guard := g\<rparr>) ip = join_lookup h ip"
  by (simp add: join_lookup_def host_find_join_activity_locked_def)

lemma join_wf_guard [simp]: "join_wf (h\<lparr>join_guard := g\<rparr>) = join_wf h"
  by (simp add: join_wf_def)

lemma join_ensure_alloc:
  "guard_key_ok ip \<Longrightarrow> (\<And>n. alloc n) \<Longrightarrow>
   \<exists>h' i. host_ensure_join_activity_locked alloc h ip = Some (h', i)"
  by (auto simp: host_ensure_join_activity_locked_def guard_key_ok_def Let_def split: option.splits)

text \<open>One registration where allocation succeeds: the verdict, the grants, and the
  entry of the address afterwards.\<close>

lemma join_register_same:
  fixes now gnow :: timespec and u :: "cstr option"
  assumes "join_wf h" "guard_key_ok ip" "\<And>n. alloc n"
  defines "e \<equiv> join_entry_register now u (join_current now ip h)"
  defines "out \<equiv> host_register_join_attempt alloc now gnow u ip h"
  shows "fst out = (if \<not> host_ip_has_grant_locked h ip \<and> join_window_attempts e \<ge> JOIN_KICK_THRESHOLD
                    then JOIN_KICK else JOIN_OK)"
    and "join_lookup (snd out) ip = Some e" and "join_wf (snd out)"
    and "operator_grants (snd out) = operator_grants h"
proof -
  let ?p = "host_prune_join_activity_locked alloc now (Some now) h"
  let ?f = "join_entry_register now u"
  have wf: "join_wf ?p" using assms(1) by (rule join_wf_prune)
  obtain h' i where ens: "host_ensure_join_activity_locked alloc ?p ip = Some (h', i)"
    using join_ensure_alloc assms(2,3) by blast
  then have ens': "map_option fst (host_ensure_join_activity_locked alloc ?p ip) = Some h'" by simp
  have grants: "operator_grants h' = operator_grants h"
    using host_ensure_join_frame [OF ens] by simp
  have found: "host_find_join_activity_locked h' ip = Some i"
    by (rule join_ensure_found [OF wf assms(2) ens])
  have cur: "join_lookup h' ip = Some (join_current now ip h)"
    using join_tab.lookup_ensure_same [OF wf assms(2) ens'] assms(1,2)
    by (simp add: join_current_def join_lookup_prune split: option.splits)
  then have e: "?f (join_activity h' ! i) = e"
    using found by (simp add: e_def join_lookup_def)
  have out: "out = (let h1 = join_modify h' ip ?f in
      if \<not> host_ip_has_grant_locked h ip \<and> join_window_attempts e \<ge> JOIN_KICK_THRESHOLD
      then (JOIN_KICK, h1)
      else (JOIN_OK, h1\<lparr>join_guard := snd (host_connection_guard_register alloc gnow ip (join_guard h1))\<rparr>))"
    using assms(2) ens found e grants
    by (simp add: out_def host_register_join_attempt_def guard_key_ok_def Let_def join_modify_def
        host_ip_has_grant_locked_def)
  have wf': "join_wf (join_modify h' ip ?f)"
    using join_wf_ensure [OF wf assms(2) ens] by (simp add: join_wf_modify)
  have "join_lookup (join_modify h' ip ?f) ip = Some e"
    using join_tab.lookup_modify [OF join_wf_ensure [OF wf assms(2) ens] assms(2,2)] cur e_def
    by simp
  with out wf' grants found show "fst out = (if \<not> host_ip_has_grant_locked h ip \<and>
      join_window_attempts e \<ge> JOIN_KICK_THRESHOLD then JOIN_KICK else JOIN_OK)"
    "join_lookup (snd out) ip = Some e" "join_wf (snd out)"
    "operator_grants (snd out) = operator_grants h"
    by (simp_all add: Let_def join_modify_def)
qed

fun join_attempts ::
  "cstr \<Rightarrow> (timespec \<times> timespec \<times> cstr option) list \<Rightarrow> join_host \<Rightarrow> host_join_attempt_result list" where
  "join_attempts ip [] h = []"
| "join_attempts ip ((now, gnow, u) # ts) h =
     (let (r, h') = host_register_join_attempt (\<lambda>_. True) now gnow u ip h
      in r # join_attempts ip ts h')"

definition in_join_window :: "timespec \<Rightarrow> timespec \<Rightarrow> bool" where
  "in_join_window t0 now \<longleftrightarrow>
     timespec_ok now \<and> timespec_to_ns t0 \<le> timespec_to_ns now \<and>
     timespec_to_ns now \<le> timespec_to_ns t0 + JOIN_KICK_WINDOW_NS"

lemma join_entry_in_window:
  assumes "timespec_ok t0" "t0 \<noteq> timespec_zero" "join_window_start e = t0"
    and "join_window_attempts e < SIZE_MAX" "in_join_window t0 now"
  shows "join_window_start (join_entry_register now u e) = t0"
    and "join_window_attempts (join_entry_register now u e) = join_window_attempts e + 1"
  using assms
  by (auto simp: join_entry_register_def Let_def in_join_window_def timespec_diff_to_ns
      timespec_is_zero_iff join_consts split: option.splits)

lemma join_not_stale:
  assumes "timespec_ok t0" "t0 \<noteq> timespec_zero" "in_join_window t0 now" "in_join_window t0 (last_attempt e)"
  shows "\<not> join_stale now e"
proof -
  have "0 < timespec_to_ns t0"
    using assms timespec_to_ns_nonneg timespec_to_ns_inj [OF assms(1) timespec_ok_zero] by fastforce
  with assms show ?thesis
    by (auto simp: join_stale_def timespec_is_zero_iff in_join_window_def timespec_diff_to_ns join_consts)
qed

text \<open>
  The join limit is exact.  An address that has made \<open>k\<close> attempts in a window
  that began at \<open>t0\<close> and goes on attempting within sixty seconds of \<open>t0\<close> is
  accepted up to its nineteenth attempt and kicked from the twentieth on, under
  whatever user names it tries; an address that holds an operator grant is never
  kicked.
\<close>

theorem join_kick_exact:
  assumes "join_wf h" "guard_key_ok ip" "join_lookup h ip = Some e"
    and "timespec_ok t0" "t0 \<noteq> timespec_zero" "join_window_start e = t0"
    and "in_join_window t0 (last_attempt e)" "join_window_attempts e = k"
    and "\<forall>(now, gnow, u)\<in>set ts. in_join_window t0 now" "k + length ts \<le> SIZE_MAX"
  shows "join_attempts ip ts h =
     map (\<lambda>i. if \<not> host_ip_has_grant_locked h ip \<and> k + i + 1 \<ge> 20 then JOIN_KICK else JOIN_OK)
       [0..<length ts]"
  using assms(1,3,6-10)
proof (induction ts arbitrary: h e k)
  case (Cons a ts)
  obtain now gnow u where a: "a = (now, gnow, u)" by (cases a)
  have win: "in_join_window t0 now" using Cons.prems a by simp
  have cur: "join_current now ip h = join_age now e"
    using join_not_stale [OF assms(4,5) win Cons.prems(4)] Cons.prems(2) by (simp add: join_current_def)
  let ?out = "host_register_join_attempt (\<lambda>_. True) now gnow u ip h"
  let ?e = "join_entry_register now u (join_age now e)"
  have e: "join_window_start ?e = t0" "join_window_attempts ?e = k + 1"
    using join_entry_in_window [OF assms(4,5), of "join_age now e" now u] Cons.prems win by simp_all
  note same = join_register_same [OF Cons.prems(1) assms(2) TrueI, where now = now and u = u and gnow = gnow, unfolded cur]
  have "join_attempts ip ts (snd ?out) =
      map (\<lambda>i. if \<not> host_ip_has_grant_locked (snd ?out) ip \<and> (k + 1) + i + 1 \<ge> 20
               then JOIN_KICK else JOIN_OK) [0..<length ts]"
    using Cons.prems same e win by (intro Cons.IH [of _ ?e]) simp_all
  moreover have "fst ?out = (if \<not> host_ip_has_grant_locked h ip \<and> k + 1 \<ge> 20
      then JOIN_KICK else JOIN_OK)"
    using same(1) e by (simp add: JOIN_KICK_THRESHOLD_def)
  ultimately show ?case
    using same(4)
    by (simp add: a case_prod_beta Let_def host_ip_has_grant_locked_def map_upt_Suc del: upt_Suc)
qed simp

theorem join_kick_exact_witness:
  "join_attempts ''10.0.0.1''
     [(\<lparr>tv_sec = 20, tv_nsec = 0\<rparr>, \<lparr>tv_sec = 20, tv_nsec = 0\<rparr>, Some ''ann''),
      (\<lparr>tv_sec = 21, tv_nsec = 0\<rparr>, \<lparr>tv_sec = 21, tv_nsec = 0\<rparr>, None)]
     \<lparr>join_activity = [(fresh_join_entry ''10.0.0.1'')
        \<lparr>last_attempt := \<lparr>tv_sec = 19, tv_nsec = 0\<rparr>, join_window_start := \<lparr>tv_sec = 10, tv_nsec = 0\<rparr>,
         join_window_attempts := 18\<rparr>],
      join_activity_capacity = 8, operator_grants = [], join_guard = guard_empty,
      next_join_ready_time = timespec_zero, join_throttle_initialised = False,
      join_progress_length = 0\<rparr>
   = [JOIN_OK, JOIN_KICK]"
  (is "join_attempts ?ip ?ts ?h = _")
proof -
  let ?e = "(fresh_join_entry ''10.0.0.1'')
        \<lparr>last_attempt := \<lparr>tv_sec = 19, tv_nsec = 0\<rparr>, join_window_start := \<lparr>tv_sec = 10, tv_nsec = 0\<rparr>,
         join_window_attempts := 18\<rparr>"
  have "join_wf ?h" "guard_key_ok ?ip" "join_lookup ?h ?ip = Some ?e"
    by (simp_all add: join_wf_def guard_key_ok_def SSH_CHATTER_IP_LEN_def fresh_join_entry_def
        join_lookup_def host_find_join_activity_locked_def strncmp_eq_def)
  from join_kick_exact [OF this, of "\<lparr>tv_sec = 10, tv_nsec = 0\<rparr>" 18 ?ts] show ?thesis
    by (simp add: timespec_ok_def timespec_zero_def in_join_window_def timespec_to_ns_def
        join_consts SIZE_MAX_def host_ip_has_grant_locked_def upt_rec)
qed

section \<open>What the verdict does not depend on\<close>

lemma host_prune_join_guard:
  "host_prune_join_activity_locked alloc c r (h\<lparr>join_guard := g\<rparr>)
     = (host_prune_join_activity_locked alloc c r h)\<lparr>join_guard := g\<rparr>"
  by (simp add: host_prune_join_activity_locked_def Let_def)

lemma host_ensure_join_guard:
  "host_ensure_join_activity_locked alloc (h\<lparr>join_guard := g\<rparr>) ip
     = map_option (\<lambda>(h, i). (h\<lparr>join_guard := g\<rparr>, i)) (host_ensure_join_activity_locked alloc h ip)"
  by (simp add: host_ensure_join_activity_locked_def host_find_join_activity_locked_def Let_def
      split: option.splits)

text \<open>
  The verdict of a join attempt never depends on the connection guard: with any
  other guard table, also one that blocks the address or recommends its ban, the
  verdict is the same, and the verdict for a ban is never returned although the
  caller handles it.
\<close>

theorem join_verdict_ignores_guard:
  "fst (host_register_join_attempt alloc now gnow u ip (h\<lparr>join_guard := g\<rparr>))
     = fst (host_register_join_attempt alloc now gnow u ip h)
   \<and> fst (host_register_join_attempt alloc now gnow u ip h) \<noteq> JOIN_BAN"
  by (auto simp: host_register_join_attempt_def host_prune_join_guard host_ensure_join_guard
      host_ip_has_grant_locked_def Let_def split: option.splits prod.splits)

lemma suspicious_entry_ip [simp]: "ja_ip (suspicious_entry_register now e) = ja_ip e"
  by (simp add: suspicious_entry_register_def Let_def)

lemma suspicious_events_kept [simp]:
  "suspicious_events (join_entry_register now u e) = suspicious_events e"
  by (simp add: join_entry_register_def Let_def split: option.splits)

text \<open>A suspicious event on an address that has no entry yet.\<close>

lemma suspicious_first_event:
  fixes now :: timespec
  assumes "join_wf h" "guard_key_ok ip" "join_lookup h ip = None"
  defines "h1 \<equiv> snd (snd (host_register_suspicious_activity (\<lambda>_. True) now ip h))"
  shows "join_lookup h1 ip = Some (suspicious_entry_register now (fresh_join_entry ip))"
    and "join_wf h1"
proof -
  obtain h' i where ens: "host_ensure_join_activity_locked (\<lambda>_. True) h ip = Some (h', i)"
    using join_ensure_alloc [OF assms(2) TrueI, of h] by auto
  have found: "host_find_join_activity_locked h' ip = Some i"
    by (rule join_ensure_found [OF assms(1,2) ens])
  have wf: "join_wf h'" by (rule join_wf_ensure [OF assms(1,2) ens])
  have h1: "h1 = join_modify h' ip (suspicious_entry_register now)"
    using ens found assms(2)
    by (simp add: h1_def host_register_suspicious_activity_def guard_key_ok_def join_modify_def Let_def)
  show "join_lookup h1 ip = Some (suspicious_entry_register now (fresh_join_entry ip))"
    using join_lookup_ensure [OF assms(1,2,2) ens] assms(2,3) wf
    by (simp add: h1 join_lookup_modify)
  show "join_wf h1" using wf by (simp add: h1 join_wf_modify)
qed

text \<open>
  A suspicious event of an address that has not joined is forgotten by its next
  join attempt: the entry that the event created has no join time, so the prune at
  the start of the attempt removes it and the count starts again at zero.
\<close>

theorem suspicious_then_join_forgets:
  assumes "join_wf h" "guard_key_ok ip" "join_lookup h ip = None"
  shows "let h1 = snd (snd (host_register_suspicious_activity (\<lambda>_. True) t1 ip h));
             h2 = snd (host_register_join_attempt (\<lambda>_. True) t2 t3 u ip h1)
         in map_option suspicious_events (join_lookup h1 ip) = Some 1 \<and>
            map_option suspicious_events (join_lookup h2 ip) = Some 0"
proof -
  let ?h1 = "snd (snd (host_register_suspicious_activity (\<lambda>_. True) t1 ip h))"
  note first = suspicious_first_event [OF assms, of t1]
  have "join_current t2 ip ?h1 = fresh_join_entry ip"
    by (simp add: join_current_def first(1) join_stale_def suspicious_entry_register_def
        fresh_join_entry_def timespec_is_zero_iff)
  with join_register_same(2) [OF first(2) assms(2), of "\<lambda>_. True" t2 t3 u] first(1)
  show ?thesis
    by (simp add: Let_def suspicious_entry_register_def fresh_join_entry_def
        SUSPICIOUS_EVENT_THRESHOLD_def timespec_is_zero_iff)
qed

theorem suspicious_then_join_forgets_witness:
  "let h = \<lparr>join_activity = [], join_activity_capacity = 0, operator_grants = [],
        join_guard = guard_empty, next_join_ready_time = timespec_zero,
        join_throttle_initialised = False, join_progress_length = 0\<rparr>;
       h1 = snd (snd (host_register_suspicious_activity (\<lambda>_. True) \<lparr>tv_sec = 4, tv_nsec = 0\<rparr> ''10.0.0.9'' h));
       h2 = snd (host_register_join_attempt (\<lambda>_. True) \<lparr>tv_sec = 5, tv_nsec = 0\<rparr>
              \<lparr>tv_sec = 5, tv_nsec = 0\<rparr> (Some ''eve'') ''10.0.0.9'' h1)
   in map_option suspicious_events (join_lookup h1 ''10.0.0.9'') = Some 1 \<and>
      map_option suspicious_events (join_lookup h2 ''10.0.0.9'') = Some 0"
  unfolding Let_def
  by (rule suspicious_then_join_forgets [unfolded Let_def])
    (simp_all add: join_wf_def guard_key_ok_def SSH_CHATTER_IP_LEN_def join_lookup_def
      host_find_join_activity_locked_def)

section \<open>Unknown addresses\<close>

lemma join_entry_register_fresh:
  "join_window_attempts (join_entry_register now u (fresh_join_entry ip)) = 1"
  by (simp add: join_entry_register_def fresh_join_entry_def Let_def timespec_is_zero_def timespec_zero_def
      split: option.split)

text \<open>An address without an entry is accepted, and its attempt adds at most its own key.\<close>

lemma unknown_address_joins:
  assumes "\<forall>k\<in>ja_ip ` set (join_activity h). \<not> strncmp_eq SSH_CHATTER_IP_LEN k ip"
  shows "fst (host_register_join_attempt alloc now gn u ip h) = JOIN_OK"
    and "ja_ip ` set (join_activity (snd (host_register_join_attempt alloc now gn u ip h)))
      \<subseteq> insert (snprintf_into SSH_CHATTER_IP_LEN ip) (ja_ip ` set (join_activity h))"
proof -
  define h1 where "h1 = host_prune_join_activity_locked alloc now (Some now) h"
  have keys: "ja_ip ` set (join_activity h1) \<subseteq> ja_ip ` set (join_activity h)"
    unfolding h1_def join_prune_activity by (auto simp: join_prune_loop_set)
  have none: "host_find_join_activity_locked h1 ip = None"
    using assms keys by (auto simp: host_find_join_activity_locked_def first_index_None)
  have fresh: "ja_ip (join_entry_register now u (fresh_join_entry ip)) = snprintf_into SSH_CHATTER_IP_LEN ip"
    by (simp add: fresh_join_entry_def)
  have "fst (host_register_join_attempt alloc now gn u ip h) = JOIN_OK \<and>
     ja_ip ` set (join_activity (snd (host_register_join_attempt alloc now gn u ip h)))
      \<subseteq> insert (snprintf_into SSH_CHATTER_IP_LEN ip) (ja_ip ` set (join_activity h))"
  proof (cases "host_ensure_join_activity_locked alloc h1 ip")
    case None
    with keys show ?thesis
      by (auto simp: host_register_join_attempt_def h1_def [symmetric])
  next
    case (Some p)
    then obtain h2 i where e: "host_ensure_join_activity_locked alloc h1 ip = Some (h2, i)" by (cases p) auto
    then have add: "i = length (join_activity h1)" "join_activity h2 = join_activity h1 @ [fresh_join_entry ip]"
      using none by (auto elim!: host_ensure_join_activity_cases)
    define e' where "e' = join_entry_register now u (join_activity h2 ! i)"
    have e': "join_window_attempts e' = 1" "ja_ip e' = snprintf_into SSH_CHATTER_IP_LEN ip"
      using fresh by (simp_all add: e'_def add join_entry_register_fresh)
    then have "\<not> join_window_attempts e' \<ge> JOIN_KICK_THRESHOLD" by (simp add: JOIN_KICK_THRESHOLD_def)
    then have "host_register_join_attempt alloc now gn u ip h =
        (if ip = [] then (JOIN_OK, h) else
         (JOIN_OK, (h2\<lparr>join_activity := (join_activity h2)[i := e']\<rparr>)
           \<lparr>join_guard := snd (host_connection_guard_register alloc gn ip (join_guard h2))\<rparr>))"
      by (simp add: host_register_join_attempt_def h1_def [symmetric] e e'_def [symmetric] Let_def)
    then show ?thesis using keys e'(2) by (auto simp: add)
  qed
  then show "fst (host_register_join_attempt alloc now gn u ip h) = JOIN_OK"
    and "ja_ip ` set (join_activity (snd (host_register_join_attempt alloc now gn u ip h)))
      \<subseteq> insert (snprintf_into SSH_CHATTER_IP_LEN ip) (ja_ip ` set (join_activity h))"
    by simp_all
qed

end
