(* ===== verification/Ip_Rules.thy ===== *)
theory Ip_Rules
  imports Interfaces
begin

text \<open>
  Address ranges and version policies of \<^verbatim>\<open>src/host/core/ip_ban.c\<close>: the
  patterns on client versions, CIDR ranges for both address families, the table
  of version/address ban rules with its growth, and the rules read from the
  environment.

  \<open>inet_pton\<close> belongs to the operating system: \<open>pton4\<close> and \<open>pton6\<close> are
  parameters that give the address of a text, 32 bits in host order or sixteen
  bytes, or \<open>None\<close>.  Allocations succeed as the parameters \<open>alloc\<close> (for a table
  of given size) and \<open>dup_ok\<close> (for the copies of a pattern) say.
\<close>

unbundle bit_operations_syntax

type_synonym ipv4 = "32 word"
type_synonym ipv6 = "8 word list"

definition MAX_VERSION_IP_BANS :: nat where
  "MAX_VERSION_IP_BANS = 8192"

definition VERSION_PATTERN_LEN :: nat where
  "VERSION_PATTERN_LEN = 16384"

definition VERSION_NOTE_LEN :: nat where
  "VERSION_NOTE_LEN = 96"

definition CIDR_TEXT_LEN :: nat where
  "CIDR_TEXT_LEN = 64"

section \<open>Version patterns\<close>

datatype version_pattern_match =
  MATCH_ANY | MATCH_EXACT | MATCH_PREFIX | MATCH_SUFFIX | MATCH_SUBSTRING

text \<open>The normalised text, the original text and the mode of a pattern.\<close>

definition host_version_ip_parse_pattern ::
  "cstr option \<Rightarrow> nat \<Rightarrow> nat \<Rightarrow> (cstr \<times> cstr \<times> version_pattern_match) option" where
  "host_version_ip_parse_pattern pattern normalized_len original_len =
     (let working = (case pattern of Some p \<Rightarrow> p | None \<Rightarrow> [])
      in if length working \<ge> VERSION_PATTERN_LEN then None
         else let trimmed = c_trim working
              in if trimmed = [] then None
                 else
                   let original = snprintf_into original_len trimmed;
                       leading_star = (hd trimmed = CHR ''*'');
                       trailing_star = (last trimmed = CHR ''*'')
                   in if leading_star \<and> trailing_star \<and> length trimmed = 1
                      then Some ([], original, MATCH_ANY)
                      else
                        let body = (if trailing_star then butlast trimmed else trimmed);
                            body = (if leading_star then tl body else body)
                        in if body = [] then Some ([], original, MATCH_ANY)
                           else if CHR ''*'' \<in> set body then None
                           else if normalized_len = 0 then None
                           else Some (snprintf_into normalized_len body, original,
                                  if leading_star \<and> trailing_star then MATCH_SUBSTRING
                                  else if leading_star then MATCH_SUFFIX
                                  else if trailing_star then MATCH_PREFIX
                                  else MATCH_EXACT))"

section \<open>Address ranges\<close>

text \<open>The address text and the prefix length of \<open>address/prefix\<close>.\<close>

definition host_split_cidr :: "int \<Rightarrow> cstr \<Rightarrow> (cstr \<times> nat) option" where
  "host_split_cidr limit cidr =
     (if length cidr \<ge> CIDR_TEXT_LEN then None
      else if CHR ''/'' \<notin> set cidr then None
      else
        let buffer = takeWhile (\<lambda>c. c \<noteq> CHR ''/'') cidr;
            prefix_str = tl (dropWhile (\<lambda>c. c \<noteq> CHR ''/'') cidr);
            (prefix_long, rest, read) = strtol prefix_str
        in if \<not> read \<or> prefix_long < 0 \<or> prefix_long > limit then None
           else Some (buffer, nat prefix_long))"

definition ipv4_mask_of :: "nat \<Rightarrow> ipv4" where
  "ipv4_mask_of prefix = (if prefix = 0 then 0 else push_bit (32 - prefix) 0xFFFFFFFF)"

definition host_parse_ipv4_cidr ::
  "(cstr \<Rightarrow> ipv4 option) \<Rightarrow> cstr \<Rightarrow> (ipv4 \<times> ipv4) option" where
  "host_parse_ipv4_cidr pton4 cidr =
     (case host_split_cidr 32 cidr of
        None \<Rightarrow> None
      | Some (buffer, prefix) \<Rightarrow>
          (case pton4 buffer of
             None \<Rightarrow> None
           | Some address \<Rightarrow>
               let msk = ipv4_mask_of prefix
               in Some (address AND msk, msk)))"

text \<open>The bytes of an IPv6 mask, filled from the left while bits remain.\<close>

fun ipv6_mask_bytes :: "nat \<Rightarrow> nat \<Rightarrow> ipv6" where
  "ipv6_mask_bytes 0 remaining = []"
| "ipv6_mask_bytes (Suc n) remaining =
     (if remaining \<ge> 8 then 0xFF # ipv6_mask_bytes n (remaining - 8)
      else if remaining > 0 then push_bit (8 - remaining) 0xFF # ipv6_mask_bytes n 0
      else 0 # ipv6_mask_bytes n 0)"

definition ipv6_and :: "ipv6 \<Rightarrow> ipv6 \<Rightarrow> ipv6" where
  "ipv6_and a m = map2 (AND) a m"

definition host_parse_ipv6_cidr ::
  "(cstr \<Rightarrow> ipv6 option) \<Rightarrow> cstr \<Rightarrow> (ipv6 \<times> ipv6) option" where
  "host_parse_ipv6_cidr pton6 cidr =
     (case host_split_cidr 128 cidr of
        None \<Rightarrow> None
      | Some (buffer, prefix) \<Rightarrow>
          (case pton6 buffer of
             None \<Rightarrow> None
           | Some address \<Rightarrow>
               let msk = ipv6_mask_bytes 16 prefix
               in Some (ipv6_and address msk, msk)))"

definition host_cidr_contains_ip ::
  "(cstr \<Rightarrow> ipv4 option) \<Rightarrow> (cstr \<Rightarrow> ipv6 option) \<Rightarrow> cstr \<Rightarrow> cstr \<Rightarrow> bool" where
  "host_cidr_contains_ip pton4 pton6 cidr_text ip =
     (if ip = [] then False
      else case host_parse_ipv4_cidr pton4 cidr_text of
        Some (network, msk) \<Rightarrow>
          (case pton4 ip of None \<Rightarrow> False | Some address \<Rightarrow> address AND msk = network)
      | None \<Rightarrow>
          (case host_parse_ipv6_cidr pton6 cidr_text of
             Some (network, msk) \<Rightarrow>
               (case pton6 ip of None \<Rightarrow> False | Some address \<Rightarrow> ipv6_and address msk = network)
           | None \<Rightarrow> False))"

section \<open>The rule table\<close>

record version_ip_ban_rule =
  in_use :: bool
  match_mode :: version_pattern_match
  original_pattern :: cstr
  normalized_pattern :: cstr
  cidr_text :: cstr
  rule_note :: cstr
  is_ipv6 :: bool
  ipv4_network :: ipv4
  ipv4_mask :: ipv4
  ipv6_network :: ipv6
  ipv6_mask :: ipv6

text \<open>The rules in use up to the count of the host, and the capacity of the array;
  the array is allocated where the capacity is positive.\<close>

record rule_table =
  version_ip_ban_rules :: "version_ip_ban_rule list"
  version_ip_ban_rule_capacity :: nat

function rules_double :: "nat \<Rightarrow> nat \<Rightarrow> nat" where
  "rules_double c need =
     (if 0 < c \<and> c < need \<and> c < MAX_VERSION_IP_BANS then rules_double (c * 2) need else c)"
  by pat_completeness auto
termination
  by (relation "measure (\<lambda>(c, need). need - c)") auto

declare rules_double.simps [simp del]

definition rules_capacity :: "nat \<Rightarrow> nat \<Rightarrow> nat option" where
  "rules_capacity cap min_capacity =
     (if min_capacity \<le> cap \<and> cap > 0 then Some cap
      else let c = rules_double (if cap > 0 then cap else 16) min_capacity;
               c = (if c > MAX_VERSION_IP_BANS then MAX_VERSION_IP_BANS else c)
           in if c < min_capacity then None else Some c)"

definition host_version_ip_rules_reserve ::
  "(nat \<Rightarrow> bool) \<Rightarrow> nat \<Rightarrow> rule_table \<Rightarrow> rule_table option" where
  "host_version_ip_rules_reserve alloc min_capacity h =
     (if min_capacity \<le> version_ip_ban_rule_capacity h \<and> version_ip_ban_rule_capacity h > 0
      then Some h
      else case rules_capacity (version_ip_ban_rule_capacity h) min_capacity of
        None \<Rightarrow> None
      | Some c \<Rightarrow> if alloc c then Some (h\<lparr>version_ip_ban_rule_capacity := c\<rparr>) else None)"

definition host_version_ip_rules_prepare ::
  "(nat \<Rightarrow> bool) \<Rightarrow> rule_table \<Rightarrow> rule_table option" where
  "host_version_ip_rules_prepare alloc h =
     (if version_ip_ban_rule_capacity h = 0
      then map_option (\<lambda>h. h\<lparr>version_ip_ban_rules := []\<rparr>) (host_version_ip_rules_reserve alloc 16 h)
      else Some (h\<lparr>version_ip_ban_rules := []\<rparr>))"

definition version_matches :: "version_pattern_match \<Rightarrow> cstr \<Rightarrow> cstr option \<Rightarrow> bool" where
  "version_matches mode normalized version =
     (case mode of
        MATCH_ANY \<Rightarrow> True
      | MATCH_EXACT \<Rightarrow> (case version of None \<Rightarrow> False | Some v \<Rightarrow> v = normalized)
      | MATCH_PREFIX \<Rightarrow>
          (case version of None \<Rightarrow> False | Some v \<Rightarrow>
             let prefix_len = min VERSION_PATTERN_LEN (length normalized)
             in prefix_len > 0 \<and> strncmp_eq prefix_len v normalized)
      | MATCH_SUFFIX \<Rightarrow>
          (case version of None \<Rightarrow> False | Some v \<Rightarrow>
             let suffix_len = min VERSION_PATTERN_LEN (length normalized)
             in suffix_len > 0 \<and> length v \<ge> suffix_len \<and>
                strncmp_eq suffix_len (drop (length v - suffix_len) v) normalized)
      | MATCH_SUBSTRING \<Rightarrow>
          (case version of None \<Rightarrow> False | Some v \<Rightarrow> normalized \<noteq> [] \<and> c_strstr v normalized))"

definition rule_covers ::
  "(cstr \<Rightarrow> ipv4 option) \<Rightarrow> (cstr \<Rightarrow> ipv6 option) \<Rightarrow> version_ip_ban_rule \<Rightarrow> cstr \<Rightarrow> bool" where
  "rule_covers pton4 pton6 rule ip =
     (if \<not> is_ipv6 rule
      then (case pton4 ip of None \<Rightarrow> False
            | Some address \<Rightarrow> address AND ipv4_mask rule = ipv4_network rule)
      else (case pton6 ip of None \<Rightarrow> False
            | Some address \<Rightarrow> ipv6_and address (ipv6_mask rule) = ipv6_network rule))"

definition host_version_ip_rule_matches ::
  "(cstr \<Rightarrow> ipv4 option) \<Rightarrow> (cstr \<Rightarrow> ipv6 option) \<Rightarrow>
   version_ip_ban_rule \<Rightarrow> cstr option \<Rightarrow> cstr \<Rightarrow> bool" where
  "host_version_ip_rule_matches pton4 pton6 rule version ip \<longleftrightarrow>
     in_use rule \<and> ip \<noteq> [] \<and>
     version_matches (match_mode rule) (normalized_pattern rule) version \<and>
     rule_covers pton4 pton6 rule ip"

text \<open>The network of a parsed range, whichever family it is of.\<close>

datatype parsed_cidr = Cidr4 ipv4 ipv4 | Cidr6 ipv6 ipv6

definition parse_any_cidr ::
  "(cstr \<Rightarrow> ipv4 option) \<Rightarrow> (cstr \<Rightarrow> ipv6 option) \<Rightarrow> cstr \<Rightarrow> parsed_cidr option" where
  "parse_any_cidr pton4 pton6 cidr =
     (case host_parse_ipv4_cidr pton4 cidr of
        Some (network, msk) \<Rightarrow> Some (Cidr4 network msk)
      | None \<Rightarrow>
          (case host_parse_ipv6_cidr pton6 cidr of
             Some (network, msk) \<Rightarrow> Some (Cidr6 network msk)
           | None \<Rightarrow> None))"

definition same_rule ::
  "version_pattern_match \<Rightarrow> cstr \<Rightarrow> parsed_cidr \<Rightarrow> version_ip_ban_rule \<Rightarrow> bool" where
  "same_rule mode normalized net existing \<longleftrightarrow>
     in_use existing \<and> match_mode existing = mode \<and>
     strncmp_eq VERSION_PATTERN_LEN (normalized_pattern existing) normalized \<and>
     (case net of
        Cidr4 network msk \<Rightarrow>
          \<not> is_ipv6 existing \<and> ipv4_network existing = network \<and> ipv4_mask existing = msk
      | Cidr6 network msk \<Rightarrow>
          is_ipv6 existing \<and> ipv6_network existing = network \<and> ipv6_mask existing = msk)"

definition new_rule ::
  "version_pattern_match \<Rightarrow> cstr \<Rightarrow> cstr \<Rightarrow> cstr \<Rightarrow> parsed_cidr \<Rightarrow> cstr \<Rightarrow> version_ip_ban_rule" where
  "new_rule mode original normalized cidr net nt =
     \<lparr>in_use = True, match_mode = mode, original_pattern = original,
      normalized_pattern = normalized, cidr_text = snprintf_into CIDR_TEXT_LEN cidr,
      rule_note = take (VERSION_NOTE_LEN - 1) nt,
      is_ipv6 = (case net of Cidr4 _ _ \<Rightarrow> False | Cidr6 _ _ \<Rightarrow> True),
      ipv4_network = (case net of Cidr4 n _ \<Rightarrow> n | Cidr6 _ _ \<Rightarrow> 0),
      ipv4_mask = (case net of Cidr4 _ m \<Rightarrow> m | Cidr6 _ _ \<Rightarrow> 0),
      ipv6_network = (case net of Cidr4 _ _ \<Rightarrow> replicate 16 0 | Cidr6 n _ \<Rightarrow> n),
      ipv6_mask = (case net of Cidr4 _ _ \<Rightarrow> replicate 16 0 | Cidr6 _ m \<Rightarrow> m)\<rparr>"

definition host_version_ip_rule_add ::
  "(cstr \<Rightarrow> ipv4 option) \<Rightarrow> (cstr \<Rightarrow> ipv6 option) \<Rightarrow> (nat \<Rightarrow> bool) \<Rightarrow> bool \<Rightarrow>
   cstr \<Rightarrow> cstr \<Rightarrow> cstr \<Rightarrow> rule_table \<Rightarrow> bool \<times> rule_table" where
  "host_version_ip_rule_add pton4 pton6 alloc dup_ok pattern cidr nt h =
     (let count = length (version_ip_ban_rules h)
      in if count \<ge> MAX_VERSION_IP_BANS then (False, h)
         else case host_version_ip_rules_reserve alloc (count + 1) h of
           None \<Rightarrow> (False, h)
         | Some h \<Rightarrow>
           (case host_version_ip_parse_pattern (Some pattern) VERSION_PATTERN_LEN VERSION_PATTERN_LEN of
              None \<Rightarrow> (False, h)
            | Some (normalized, original, mode) \<Rightarrow>
                if length cidr \<ge> CIDR_TEXT_LEN then (False, h)
                else if c_trim cidr = [] then (False, h)
                else
                  (case parse_any_cidr pton4 pton6 (c_trim cidr) of
                     None \<Rightarrow> (False, h)
                   | Some net \<Rightarrow>
                       (case first_index (same_rule mode normalized net) (version_ip_ban_rules h) of
                          Some i \<Rightarrow>
                            (True, if nt \<noteq> []
                                   then h\<lparr>version_ip_ban_rules := (version_ip_ban_rules h)
                                     [i := (version_ip_ban_rules h ! i)
                                             \<lparr>rule_note := take (VERSION_NOTE_LEN - 1) nt\<rparr>]\<rparr>
                                   else h)
                        | None \<Rightarrow>
                            if \<not> dup_ok then (False, h)
                            else (True, h\<lparr>version_ip_ban_rules := version_ip_ban_rules h @
                                    [new_rule mode original normalized (c_trim cidr) net nt]\<rparr>)))))"

definition host_version_ip_should_ban ::
  "(cstr \<Rightarrow> ipv4 option) \<Rightarrow> (cstr \<Rightarrow> ipv6 option) \<Rightarrow>
   rule_table \<Rightarrow> cstr option \<Rightarrow> cstr \<Rightarrow> version_ip_ban_rule option" where
  "host_version_ip_should_ban pton4 pton6 h version ip =
     (if ip = [] then None
      else find (\<lambda>rule. in_use rule \<and> host_version_ip_rule_matches pton4 pton6 rule version ip)
             (version_ip_ban_rules h))"

section \<open>Rules from the environment and the seeds\<close>

definition version_ip_rule_separator :: "char \<Rightarrow> bool" where
  "version_ip_rule_separator c \<longleftrightarrow> c = CHR '','' \<or> c = CHR '';'' \<or> c = CHR 0x0A"

text \<open>The pattern, the range and the note of one entry, or \<open>None\<close> where it is skipped.\<close>

definition parse_env_rule :: "cstr \<Rightarrow> (cstr \<times> cstr \<times> cstr) option" where
  "parse_env_rule token =
     (let trimmed = c_trim token
      in if trimmed = [] then None
         else
           let note_part = (if CHR ''#'' \<in> set trimmed
                            then c_trim (tl (dropWhile (\<lambda>c. c \<noteq> CHR ''#'') trimmed)) else []);
               body = takeWhile (\<lambda>c. c \<noteq> CHR ''#'') trimmed
           in if CHR ''@'' \<notin> set body then None
              else
                let pattern = c_trim (takeWhile (\<lambda>c. c \<noteq> CHR ''@'') body);
                    cidr = c_trim (tl (dropWhile (\<lambda>c. c \<noteq> CHR ''@'') body))
                in if pattern = [] \<or> cidr = [] then None
                   else Some (pattern, cidr, if note_part \<noteq> [] then note_part else ''custom rule''))"

definition host_version_ip_rules_load_env ::
  "(cstr \<Rightarrow> ipv4 option) \<Rightarrow> (cstr \<Rightarrow> ipv6 option) \<Rightarrow> (nat \<Rightarrow> bool) \<Rightarrow> bool \<Rightarrow>
   cstr option \<Rightarrow> rule_table \<Rightarrow> rule_table" where
  "host_version_ip_rules_load_env pton4 pton6 alloc dup_ok env h =
     (case env of
        None \<Rightarrow> h
      | Some text \<Rightarrow>
          if text = [] \<or> \<not> dup_ok then h
          else fold (\<lambda>token h. case parse_env_rule token of
                       None \<Rightarrow> h
                     | Some (pattern, cidr, nt) \<Rightarrow>
                         snd (host_version_ip_rule_add pton4 pton6 alloc dup_ok pattern cidr nt h))
                 (strtok_all version_ip_rule_separator text) h)"

definition kVersionIpBanSeeds :: "(cstr \<times> cstr \<times> cstr) list" where
  "kVersionIpBanSeeds =
     [(''SSH-2.0-Go*'', ''34.80.0.0/12'', ''''),
      (''SSH-2.0-Go*'', ''34.96.0.0/14'', ''''),
      (''SSH-2.0-paramiko_*'', ''52.78.0.0/15'', ''''),
      (''SSH-2.0-AsyncSSH_*'', ''20.214.0.0/15'', ''''),
      (''SSH-2.0-libssh_0.4*'', ''0.0.0.0/0'', ''''),
      (''SSH-2.0-libssh_0.5*'', ''0.0.0.0/0'', ''''),
      (''SSH-2.0-libssh_0.6*'', ''0.0.0.0/0'', ''''),
      (''SSH-2.0-libssh_0.7*'', ''0.0.0.0/0'', ''''),
      (''SSH-2.0-libssh_0.8*'', ''0.0.0.0/0'', ''''),
      (''SSH-2.0-libssh_0.9*'', ''0.0.0.0/0'', ''''),
      (''SSH-2.0-paramiko*'', ''3.0.0.0/8'', ''''),
      (''SSH-2.0-paramiko_1.*'', ''0.0.0.0/0'', ''''),
      (''SSH-2.0-paramiko_2.*'', ''44.0.0.0/8'', ''''),
      (''SSH-2.0-JSch*'', ''35.0.0.0/8'', ''''),
      (''SSH-2.0-JSch_0.1.55'', ''0.0.0.0/0'', ''''),
      (''SSH-2.0-JSch_0.1.53'', ''0.0.0.0/0'', ''''),
      (''SSH-2.0-JSch_0.1.54'', ''0.0.0.0/0'', ''''),
      (''SSH-2.0-PuTTY*'', ''23.0.0.0/8'', ''''),
      (''SSH-2.0-PuTTY_Release_0.6*'', ''52.0.0.0/8'', ''''),
      (''SSH-2.0-PuTTY_Release_0.7*'', ''104.0.0.0/8'', ''''),
      (''SSH-2.0-masscan*'', ''0.0.0.0/0'', ''''),
      (''SSH-2.0-Nmap*'', ''0.0.0.0/0'', ''''),
      (''SSH-2.0-Go-SSH*'', ''0.0.0.0/0'', ''''),
      (''SSH-2.0-Python-requests*'', ''0.0.0.0/0'', ''''),
      (''SSH-2.0-PHPSecLib*'', ''0.0.0.0/0'', ''''),
      (''SSH-2.0-Dropbear*'', ''0.0.0.0/0'', ''''),
      (''SSH-2.0-BlackRose*'', ''0.0.0.0/0'', ''''),
      (''SSH-2.0-PumaBot*'', ''0.0.0.0/0'', ''''),
      (''SSH-2.0-SSH-Client-v1.*'', ''0.0.0.0/0'', ''''),
      (''SSH-2.0-sshj*'', ''0.0.0.0/0'', ''''),
      (''SSH-2.0-Java*'', ''13.0.0.0/8'', ''''),
      (''SSH-2.0-Python*'', ''104.0.0.0/8'', ''''),
      (''SSH-2.0-Curl*'', ''172.0.0.0/8'', ''''),
      (''SSH-2.0-Ruby*'', ''18.0.0.0/8'', ''''),
      (''SSH-2.0-SSH*'', ''134.0.0.0/8'', ''''),
      (''SSH-1.99*'', ''0.0.0.0/0'', ''''),
      ('''', ''0.0.0.0/0'', ''''),
      (''SSH-2.0-Go*'', ''147.0.0.0/8'', ''''),
      (''SSH-2.0-Python*'', ''13.0.0.0/8'', ''''),
      (''SSH-2.0-libssh*'', ''192.0.0.0/8'', ''''),
      (''SSH-2.0-paramiko*'', ''172.0.0.0/8'', ''''),
      (''SSH-2.0-JSch*'', ''10.0.0.0/8'', ''''),
      (''SSH-2.0-Curl*'', ''103.0.0.0/8'', ''''),
      (''SSH-2.0-Go*'', ''167.0.0.0/8'', ''''),
      (''SSH-2.0-paramiko*'', ''69.0.0.0/8'', ''''),
      (''SSH-2.0-libssh*'', ''173.0.0.0/8'', ''''),
      (''SSH-2.0-JSch*'', ''216.0.0.0/8'', ''''),
      (''SSH-2.0-Python*'', ''185.0.0.0/8'', ''''),
      (''SSH-2.0-SSH-2.0-libssh*'', ''0.0.0.0/0'', ''''),
      (''SSH-2.0-paramiko_paramiko*'', ''0.0.0.0/0'', ''''),
      (''SSH-2.0-Jakarta*'', ''0.0.0.0/0'', ''''),
      (''SSH-2.0-ssh.net*'', ''0.0.0.0/0'', ''''),
      (''SSH-2.0-Mina*'', ''0.0.0.0/0'', ''''),
      (''SSH-2.0-Tectia*'', ''0.0.0.0/0'', ''''),
      (''SSH-2.0-Ganymed*'', ''0.0.0.0/0'', ''''),
      (''SSH-2.0-NSSHS*'', ''0.0.0.0/0'', ''''),
      (''SSH-2.0-F-Secure*'', ''0.0.0.0/0'', ''''),
      (''SSH-2.0-SecureCRT*'', ''0.0.0.0/0'', ''''),
      (''SSH-2.0-Unknown*'', ''0.0.0.0/0'', ''''),
      (''SSH-2.0-SshTunnel*'', ''0.0.0.0/0'', ''''),
      (''SSH-2.0-paramiko*'', ''199.0.0.0/8'', ''''),
      (''SSH-2.0-paramiko*'', ''207.0.0.0/8'', ''''),
      (''SSH-2.0-paramiko*'', ''85.0.0.0/8'', ''''),
      (''SSH-2.0-Python*'', ''199.0.0.0/8'', ''''),
      (''SSH-2.0-Go*'', ''199.0.0.0/8'', ''''),
      (''SSH-2.0-Java*'', ''199.0.0.0/8'', ''''),
      (''SSH-2.0-Go*'', ''85.0.0.0/8'', ''''),
      (''SSH-2.0-Python*'', ''85.0.0.0/8'', '''')]"

definition host_version_ip_rules_init ::
  "(cstr \<Rightarrow> ipv4 option) \<Rightarrow> (cstr \<Rightarrow> ipv6 option) \<Rightarrow> (nat \<Rightarrow> bool) \<Rightarrow> bool \<Rightarrow>
   cstr option \<Rightarrow> rule_table \<Rightarrow> rule_table" where
  "host_version_ip_rules_init pton4 pton6 alloc dup_ok env h =
     (case host_version_ip_rules_prepare alloc h of
        None \<Rightarrow> h
      | Some h \<Rightarrow>
          host_version_ip_rules_load_env pton4 pton6 alloc dup_ok env
            (fold (\<lambda>(pattern, cidr, nt) h.
                     snd (host_version_ip_rule_add pton4 pton6 alloc dup_ok pattern cidr nt h))
               kVersionIpBanSeeds h))"

section \<open>Patterns are globs\<close>

text \<open>The usual meaning of a pattern in which a star stands for any text.\<close>

fun glob_match :: "cstr \<Rightarrow> cstr \<Rightarrow> bool" where
  "glob_match [] s = (s = [])"
| "glob_match (c # p) [] = (c = CHR ''*'' \<and> glob_match p [])"
| "glob_match (c # p) (d # s) =
     (if c = CHR ''*'' then glob_match p (d # s) \<or> glob_match (c # p) s
      else c = d \<and> glob_match p s)"

lemma glob_star: "glob_match (CHR ''*'' # q) s \<longleftrightarrow> (\<exists>u t. s = u @ t \<and> glob_match q t)"
proof (induction s)
  case (Cons d s)
  have "(\<exists>u t. d # s = u @ t \<and> glob_match q t)
      \<longleftrightarrow> glob_match q (d # s) \<or> (\<exists>u t. s = u @ t \<and> glob_match q t)"
    by (metis append_Cons append_Nil list.exhaust list.inject)
  with Cons show ?case by simp
qed simp

lemma glob_literal:
  "CHR ''*'' \<notin> set p \<Longrightarrow> glob_match (p @ q) s \<longleftrightarrow> (\<exists>t. s = p @ t \<and> glob_match q t)"
proof (induction p arbitrary: s)
  case (Cons c p)
  then show ?case by (cases s) auto
qed simp

lemma glob_exact: "CHR ''*'' \<notin> set p \<Longrightarrow> glob_match p s \<longleftrightarrow> s = p"
  using glob_literal [of p "[]" s] by auto

lemma glob_any [simp]: "glob_match [CHR ''*''] s"
  by (simp add: glob_star)

text \<open>A trimmed pattern with its stars, and what is left between them.\<close>

lemma pattern_shapes:
  assumes "t \<noteq> []"
  obtains (any) "t = [CHR ''*'']"
  | (both) b where "t = CHR ''*'' # b @ [CHR ''*'']"
  | (leading) b where "t = CHR ''*'' # b" "b \<noteq> []" "last b \<noteq> CHR ''*''"
  | (trailing) b where "t = b @ [CHR ''*'']" "b \<noteq> []" "hd b \<noteq> CHR ''*''"
  | (none) "hd t \<noteq> CHR ''*''" "last t \<noteq> CHR ''*''"
proof (cases "hd t = CHR ''*''")
  case True
  with assms obtain b where b: "t = CHR ''*'' # b" by (cases t) auto
  show thesis
  proof (cases "b = [] \<or> last b \<noteq> CHR ''*''")
    case True
    with b any leading show thesis by auto
  next
    case False
    then have "b = butlast b @ [CHR ''*'']" by (metis append_butlast_last_id)
    with b both show thesis by metis
  qed
next
  case False
  show thesis
  proof (cases "last t = CHR ''*''")
    case True
    then have t: "t = butlast t @ [CHR ''*'']" by (metis append_butlast_last_id assms)
    with False have "butlast t \<noteq> []" "hd (butlast t) \<noteq> CHR ''*''"
      by (metis append_Nil list.sel(1), metis append_Nil hd_append2 list.sel(1) t)
    with t trailing show thesis by metis
  qed (use False none in auto)
qed

lemma length_c_trim: "length (c_trim s) \<le> length s"
  unfolding c_trim_def by (metis length_dropWhile_le length_rev le_trans)

lemmas parse_pattern_simps = host_version_ip_parse_pattern_def Let_def

lemma substring_glob:
  "b \<noteq> [] \<Longrightarrow> CHR ''*'' \<notin> set b \<Longrightarrow>
   version_matches MATCH_SUBSTRING b (Some v) \<longleftrightarrow> glob_match (CHR ''*'' # b @ [CHR ''*'']) v"
  by (auto simp: version_matches_def c_strstr_iff glob_star glob_literal)

lemma prefix_glob:
  "b \<noteq> [] \<Longrightarrow> CHR ''*'' \<notin> set b \<Longrightarrow> length b < VERSION_PATTERN_LEN \<Longrightarrow>
   version_matches MATCH_PREFIX b (Some v) \<longleftrightarrow> glob_match (b @ [CHR ''*'']) v"
  by (auto simp: version_matches_def Let_def glob_literal strncmp_eq_def take_length_eq)

lemma suffix_glob:
  assumes "b \<noteq> []" "CHR ''*'' \<notin> set b" "length b < VERSION_PATTERN_LEN"
  shows "version_matches MATCH_SUFFIX b (Some v) \<longleftrightarrow> glob_match (CHR ''*'' # b) v"
proof -
  have "length v \<ge> length b \<and> drop (length v - length b) v = b \<longleftrightarrow> (\<exists>u. v = u @ b)"
    by (metis append_take_drop_id append_eq_conv_conj diff_diff_cancel length_append
        length_drop add_diff_cancel_right' le_add2)
  with assms show ?thesis
    by (auto simp: version_matches_def Let_def glob_star glob_exact strncmp_eq_def)
qed

lemma star_inside:
  assumes "hd t \<noteq> CHR ''*''" "last t \<noteq> CHR ''*''" "CHR ''*'' \<in> set t"
  shows "CHR ''*'' \<in> set (butlast (tl t))"
proof -
  obtain xs ys where "t = xs @ CHR ''*'' # ys"
    using assms(3) by (meson split_list)
  with assms(1,2) show ?thesis
    by (cases xs; cases ys rule: rev_cases) (auto simp: butlast_append)
qed

lemma star_not_last:
  assumes "last b \<noteq> CHR ''*''" "CHR ''*'' \<in> set b"
  shows "CHR ''*'' \<in> set (butlast b)"
  using assms by (cases b rule: rev_cases) auto

lemma parse_pattern_cases:
  assumes "length pattern < VERSION_PATTERN_LEN"
  shows "case host_version_ip_parse_pattern (Some pattern) VERSION_PATTERN_LEN VERSION_PATTERN_LEN of
           None \<Rightarrow> c_trim pattern = [] \<or> CHR ''*'' \<in> set (butlast (tl (c_trim pattern)))
         | Some (normalized, original, mode) \<Rightarrow>
             \<not> (c_trim pattern = [] \<or> CHR ''*'' \<in> set (butlast (tl (c_trim pattern)))) \<and>
             original = c_trim pattern \<and> length normalized < VERSION_PATTERN_LEN \<and>
             (\<forall>v. version_matches mode normalized (Some v) \<longleftrightarrow> glob_match (c_trim pattern) v)"
proof (cases "c_trim pattern = []")
  case True
  with assms show ?thesis by (simp add: parse_pattern_simps)
next
  case False
  have len: "length (c_trim pattern) < VERSION_PATTERN_LEN"
    using assms length_c_trim [of pattern] by simp
  from False show ?thesis
  proof (cases rule: pattern_shapes)
    case any
    with assms len show ?thesis
      by (simp add: parse_pattern_simps version_matches_def)
  next
    case (both b)
    with assms len show ?thesis
      by (auto simp: parse_pattern_simps version_matches_def [of MATCH_ANY] substring_glob glob_star)
  next
    case (leading b)
    with assms len star_not_last show ?thesis
      by (auto simp: parse_pattern_simps suffix_glob dest: in_set_butlastD)
  next
    case (trailing b)
    moreover have "CHR ''*'' \<in> set (tl b)" if "CHR ''*'' \<in> set b"
      using that trailing by (cases b) auto
    ultimately show ?thesis
      using assms len by (auto simp: parse_pattern_simps prefix_glob tl_append split: list.splits)
  next
    case none
    with assms len False star_inside [OF none] show ?thesis
      by (auto simp: parse_pattern_simps version_matches_def glob_exact
          dest: in_set_butlastD list.set_sel(2))
  qed
qed

lemma parse_pattern_glob:
  assumes "length pattern < VERSION_PATTERN_LEN"
    and "host_version_ip_parse_pattern (Some pattern) VERSION_PATTERN_LEN VERSION_PATTERN_LEN
           = Some (normalized, original, mode)"
  shows "version_matches mode normalized (Some v) \<longleftrightarrow> glob_match (c_trim pattern) v"
    and "length normalized < VERSION_PATTERN_LEN"
  using parse_pattern_cases [OF assms(1)] assms(2) by auto

text \<open>
  Patterns on client versions mean what they look like.  A pattern is refused
  exactly when it is empty or has a star between other characters; otherwise the
  parsed pattern accepts exactly the versions that the trimmed pattern matches as a
  glob.
\<close>

theorem version_pattern_is_glob:
  assumes "length pattern < VERSION_PATTERN_LEN"
  shows "case host_version_ip_parse_pattern (Some pattern) VERSION_PATTERN_LEN VERSION_PATTERN_LEN of
           None \<Rightarrow> c_trim pattern = [] \<or> CHR ''*'' \<in> set (butlast (tl (c_trim pattern)))
         | Some (normalized, original, mode) \<Rightarrow>
             c_trim pattern \<noteq> [] \<and> CHR ''*'' \<notin> set (butlast (tl (c_trim pattern))) \<and>
             (\<forall>v. version_matches mode normalized (Some v) \<longleftrightarrow> glob_match (c_trim pattern) v)"
  using parse_pattern_cases [OF assms] by (auto split: option.splits)

theorem version_pattern_is_glob_witness:
  "case host_version_ip_parse_pattern (Some '' *ssh* '') VERSION_PATTERN_LEN VERSION_PATTERN_LEN of
     None \<Rightarrow> c_trim '' *ssh* '' = [] \<or> CHR ''*'' \<in> set (butlast (tl (c_trim '' *ssh* '')))
   | Some (normalized, original, mode) \<Rightarrow>
       c_trim '' *ssh* '' \<noteq> [] \<and> CHR ''*'' \<notin> set (butlast (tl (c_trim '' *ssh* ''))) \<and>
       (\<forall>v. version_matches mode normalized (Some v) \<longleftrightarrow> glob_match (c_trim '' *ssh* '') v)"
  by (rule version_pattern_is_glob) (simp add: VERSION_PATTERN_LEN_def)

section \<open>Ranges compare leading bits\<close>

text \<open>The bits of a word from the most significant one down, and of an IPv6 address.\<close>

definition msb_bits :: "'a::len word \<Rightarrow> bool list" where
  "msb_bits w = map (bit w) (rev [0..<LENGTH('a)])"

definition ipv6_bits :: "ipv6 \<Rightarrow> bool list" where
  "ipv6_bits a = concat (map msb_bits a)"

lemma length_msb_bits [simp]: "length (msb_bits (w :: 'a::len word)) = LENGTH('a)"
  by (simp add: msb_bits_def)

lemma nth_msb_bits:
  "i < LENGTH('a) \<Longrightarrow> msb_bits (w :: 'a::len word) ! i = bit w (LENGTH('a) - Suc i)"
  by (simp add: msb_bits_def rev_nth)

lemma and_prefix_mask_iff:
  fixes a b :: "'a::len word"
  assumes "p \<le> LENGTH('a)"
  shows "a AND push_bit (LENGTH('a) - p) (- 1) = b AND push_bit (LENGTH('a) - p) (- 1)
    \<longleftrightarrow> take p (msb_bits a) = take p (msb_bits b)"
proof -
  let ?n = "LENGTH('a)"
  have "a AND push_bit (?n - p) (- 1) = b AND push_bit (?n - p) (- 1)
      \<longleftrightarrow> (\<forall>n. n < ?n \<longrightarrow> ?n - p \<le> n \<longrightarrow> bit a n = bit b n)"
    by (auto simp: bit_eq_iff bit_simps)
  also have "\<dots> \<longleftrightarrow> (\<forall>i<p. bit a (?n - Suc i) = bit b (?n - Suc i))"
  proof (rule iffI; intro allI impI)
    fix n
    assume *: "\<forall>i<p. bit a (?n - Suc i) = bit b (?n - Suc i)" and n: "n < ?n" "?n - p \<le> n"
    have "?n - Suc n < p" "?n - Suc (?n - Suc n) = n" using n assms by auto
    with * show "bit a n = bit b n" by metis
  qed (use assms in auto)
  also have "\<dots> \<longleftrightarrow> take p (msb_bits a) = take p (msb_bits b)"
    using assms by (simp add: list_eq_iff_nth_eq nth_msb_bits)
  finally show ?thesis .
qed

lemma msb_bits_inject [simp]: "msb_bits a = msb_bits b \<longleftrightarrow> a = b"
  using and_prefix_mask_iff [of "LENGTH('a)" a b for a b :: "'a word"] by simp

lemma ipv4_mask_of_push: "p \<le> 32 \<Longrightarrow> ipv4_mask_of p = push_bit (32 - p) (- 1)"
proof -
  have ones: "(0xFFFFFFFF :: ipv4) = - 1" by simp
  have "push_bit 32 (- 1 :: ipv4) = 0" by (simp add: bit_eq_iff bit_simps)
  then show ?thesis by (simp only: ipv4_mask_of_def ones diff_zero split: if_split) simp
qed

lemma ipv4_prefix_iff:
  "p \<le> 32 \<Longrightarrow> a AND ipv4_mask_of p = b AND ipv4_mask_of p
     \<longleftrightarrow> take p (msb_bits a) = take p (msb_bits b)"
  using and_prefix_mask_iff [of p a b] by (simp add: ipv4_mask_of_push)

lemma ipv6_prefix_iff:
  "length a = n \<Longrightarrow> length b = n \<Longrightarrow>
   ipv6_and a (ipv6_mask_bytes n p) = ipv6_and b (ipv6_mask_bytes n p)
     \<longleftrightarrow> take p (ipv6_bits a) = take p (ipv6_bits b)"
proof (induction n p arbitrary: a b rule: ipv6_mask_bytes.induct)
  case (2 n p)
  then obtain x xs y ys where ab: "a = x # xs" "b = y # ys" "length xs = n" "length ys = n"
    by (auto simp: length_Suc_conv)
  have ff: "(0xFF :: 8 word) = - 1" by simp
  consider "p \<ge> 8" | "0 < p" "p < 8" | "p = 0" by linarith
  then show ?case
  proof cases
    case 1
    with 2(1) [OF 1 ab(3,4)] ab show ?thesis
      by (auto simp: ipv6_and_def ipv6_bits_def ff)
  next
    case 2
    then have p: "\<not> 8 \<le> p" by simp
    have "ipv6_and xs (ipv6_mask_bytes n 0) = ipv6_and ys (ipv6_mask_bytes n 0)"
      using "2.IH"(2) [OF p 2(1) ab(3,4)] by simp
    with 2 ab and_prefix_mask_iff [of p x y] show ?thesis
      by (simp add: ipv6_and_def ipv6_bits_def ff)
  next
    case 3
    then have p: "\<not> 8 \<le> p" "\<not> 0 < p" by simp_all
    with "2.IH"(3) [OF p ab(3,4)] ab 3 show ?thesis
      by (simp add: ipv6_and_def ipv6_bits_def)
  qed
qed (simp add: ipv6_and_def)

text \<open>The address and the prefix length that a range names, in one family.\<close>

definition cidr_range_of :: "(cstr \<Rightarrow> 'a option) \<Rightarrow> int \<Rightarrow> cstr \<Rightarrow> ('a \<times> nat) option" where
  "cidr_range_of pton limit cidr =
     (case host_split_cidr limit cidr of
        None \<Rightarrow> None
      | Some (t, p) \<Rightarrow> map_option (\<lambda>a. (a, p)) (pton t))"

lemma host_split_cidr_prefix:
  "host_split_cidr (int n) cidr = Some (t, p) \<Longrightarrow> p \<le> n"
  by (auto simp: host_split_cidr_def Let_def split: if_splits prod.splits)

text \<open>
  Range checks compare leading bits.  Where the text of a range names an IPv4
  address and a prefix of \<open>p\<close> bits, an address is contained exactly when its
  first \<open>p\<close> bits are those of the named address; otherwise, where it names an
  IPv6 address, the same holds over the 128 bits of the sixteen bytes; otherwise
  nothing is contained.
\<close>

theorem cidr_contains_prefix:
  assumes "ip \<noteq> []" "\<And>t a. pton6 t = Some a \<Longrightarrow> length a = 16"
  shows "host_cidr_contains_ip pton4 pton6 cidr ip \<longleftrightarrow>
    (case cidr_range_of pton4 32 cidr of
       Some (a, p) \<Rightarrow> (\<exists>b. pton4 ip = Some b \<and> take p (msb_bits a) = take p (msb_bits b))
     | None \<Rightarrow>
        (case cidr_range_of pton6 128 cidr of
           Some (a, p) \<Rightarrow> (\<exists>b. pton6 ip = Some b \<and> take p (ipv6_bits a) = take p (ipv6_bits b))
         | None \<Rightarrow> False))"
proof -
  have p32: "host_split_cidr 32 cidr = Some (t, p) \<Longrightarrow> p \<le> 32" for t p
    using host_split_cidr_prefix [of 32 cidr t p] by simp
  have six: "ipv6_and b (ipv6_mask_bytes 16 p) = ipv6_and a (ipv6_mask_bytes 16 p)
      \<longleftrightarrow> take p (ipv6_bits a) = take p (ipv6_bits b)"
    if "pton6 t = Some a" "pton6 ip = Some b" for t p a b
    using ipv6_prefix_iff [of b 16 a p] assms(2) [OF that(1)] assms(2) [OF that(2)] by auto
  show ?thesis
    using assms(1)
    by (auto simp: host_cidr_contains_ip_def host_parse_ipv4_cidr_def host_parse_ipv6_cidr_def
        cidr_range_of_def Let_def ipv4_prefix_iff p32 six split: option.splits)
qed

theorem cidr_contains_prefix_witness:
  "host_cidr_contains_ip
     (\<lambda>t. if t = ''10.0.0.0'' then Some 0x0A000000
          else if t = ''10.9.9.9'' then Some 0x0A090909 else None)
     (\<lambda>t. if t = ''::1'' then Some (replicate 15 0 @ [1]) else None)
     ''10.0.0.0/8'' ''10.9.9.9''"
proof -
  let ?pton4 = "(\<lambda>t. if t = ''10.0.0.0'' then Some 0x0A000000
          else if t = ''10.9.9.9'' then Some 0x0A090909 else None) :: cstr \<Rightarrow> ipv4 option"
  let ?pton6 = "(\<lambda>t. if t = ''::1'' then Some (replicate 15 0 @ [1]) else None) :: cstr \<Rightarrow> ipv6 option"
  have "cidr_range_of ?pton4 32 ''10.0.0.0/8'' = Some (0x0A000000, 8)"
    by (simp add: cidr_range_of_def host_split_cidr_def strtol_def CIDR_TEXT_LEN_def LLONG_MAX_def
        Let_def digits_val_def digit_val_def c_isdigit_def c_isspace_def)
  moreover have "take 8 (msb_bits (0x0A000000 :: ipv4)) = take 8 (msb_bits (0x0A090909 :: ipv4))"
    by (simp add: msb_bits_def upt_rec bit_iff_odd_drop_bit)
  moreover have "?pton6 t = Some a \<Longrightarrow> length a = 16" for t a
    by (auto split: if_splits)
  ultimately show ?thesis
    using cidr_contains_prefix [of "''10.9.9.9''" ?pton6 ?pton4 "''10.0.0.0/8''"]
    by simp
qed

section \<open>What a rule table bans\<close>

text \<open>Every rule of a table is in use and has a pattern that fits its buffer; the
  array has room for the rules.\<close>

definition rules_wf :: "rule_table \<Rightarrow> bool" where
  "rules_wf h \<longleftrightarrow>
     (\<forall>r\<in>set (version_ip_ban_rules h). in_use r \<and> length (normalized_pattern r) < VERSION_PATTERN_LEN) \<and>
     length (version_ip_ban_rules h) \<le> version_ip_ban_rule_capacity h \<and>
     version_ip_ban_rule_capacity h \<le> MAX_VERSION_IP_BANS"

lemma rules_double_ge: "c \<le> rules_double c need"
proof (induction c need rule: rules_double.induct)
  case (1 c need)
  then show ?case by (subst rules_double.simps) auto
qed

lemma rules_double_enough:
  "0 < c \<Longrightarrow> need \<le> rules_double c need \<or> MAX_VERSION_IP_BANS \<le> rules_double c need"
proof (induction c need rule: rules_double.induct)
  case (1 c need)
  then show ?case by (subst (1 2) rules_double.simps) auto
qed

interpretation rules_cap: capacity_policy rules_capacity MAX_VERSION_IP_BANS
proof (unfold_locales, goal_cases)
  case (1 cap need c)
  then show ?case by (auto simp: rules_capacity_def Let_def split: if_splits)
next
  case (2 cap need c)
  then show ?case
    using rules_double_ge [of cap need]
    by (auto simp: rules_capacity_def Let_def split: if_splits)
next
  case (3 need cap)
  then show ?case by (simp add: rules_capacity_def)
next
  case (4 need cap)
  then show ?case
    using rules_double_enough [of cap need] rules_double_enough [of 16 need]
    by (auto simp: rules_capacity_def Let_def MAX_VERSION_IP_BANS_def)
qed

lemma rules_capacity_limit:
  "cap \<le> MAX_VERSION_IP_BANS \<Longrightarrow> rules_capacity cap need = Some c \<Longrightarrow> c \<le> MAX_VERSION_IP_BANS"
  by (auto simp: rules_capacity_def Let_def split: if_splits)

lemma rules_reserve_cases:
  assumes "host_version_ip_rules_reserve alloc n h = Some h'"
  obtains (kept) "h' = h" "n \<le> version_ip_ban_rule_capacity h"
  | (grown) c where "rules_capacity (version_ip_ban_rule_capacity h) n = Some c"
      "h' = h\<lparr>version_ip_ban_rule_capacity := c\<rparr>"
proof (cases "n \<le> version_ip_ban_rule_capacity h \<and> version_ip_ban_rule_capacity h > 0")
  case True
  with assms kept show thesis by (simp add: host_version_ip_rules_reserve_def)
next
  case False
  with assms obtain c where "rules_capacity (version_ip_ban_rule_capacity h) n = Some c"
    "h' = h\<lparr>version_ip_ban_rule_capacity := c\<rparr>"
    unfolding host_version_ip_rules_reserve_def by (auto split: if_splits option.splits)
  with grown show thesis by blast
qed

lemma rules_reserve_wf:
  assumes "rules_wf h" "host_version_ip_rules_reserve alloc n h = Some h'"
  shows "version_ip_ban_rules h' = version_ip_ban_rules h \<and>
         n \<le> version_ip_ban_rule_capacity h' \<and> rules_wf h'"
  using assms(2)
proof (cases rule: rules_reserve_cases)
  case (grown c)
  have cap: "version_ip_ban_rule_capacity h \<le> MAX_VERSION_IP_BANS"
    using assms(1) by (simp add: rules_wf_def)
  from grown(2) assms(1) rules_cap.grow_enough [OF grown(1)] rules_cap.grow_mono [OF cap grown(1)]
    rules_capacity_limit [OF cap grown(1)]
  show ?thesis by (simp add: rules_wf_def)
qed (use assms(1) in simp)

lemma new_rule_flags [simp]:
  "in_use (new_rule mode original normalized text net nt)"
  "normalized_pattern (new_rule mode original normalized text net nt) = normalized"
  by (simp_all add: new_rule_def)

text \<open>A rule, new or old, covers an address exactly when its range contains it.\<close>

lemma covers_new_rule:
  "ip \<noteq> [] \<Longrightarrow> parse_any_cidr pton4 pton6 cidr = Some net \<Longrightarrow>
   rule_covers pton4 pton6 (new_rule mode original normalized text net nt) ip
     = host_cidr_contains_ip pton4 pton6 cidr ip"
  by (auto simp: parse_any_cidr_def rule_covers_def new_rule_def host_cidr_contains_ip_def
      split: option.splits)

lemma same_rule_matches:
  assumes "same_rule mode normalized net r" "length (normalized_pattern r) < VERSION_PATTERN_LEN"
    and "length normalized < VERSION_PATTERN_LEN"
  shows "host_version_ip_rule_matches pton4 pton6 r v ip =
    host_version_ip_rule_matches pton4 pton6 (new_rule mode original normalized text net nt) v ip"
  using assms
  by (auto simp: same_rule_def host_version_ip_rule_matches_def new_rule_def rule_covers_def
      strncmp_eq_short split: parsed_cidr.splits option.splits)

lemma should_ban_iff:
  "host_version_ip_should_ban pton4 pton6 h v ip \<noteq> None \<longleftrightarrow>
   (\<exists>r\<in>set (version_ip_ban_rules h). host_version_ip_rule_matches pton4 pton6 r v ip)"
  by (auto simp: host_version_ip_should_ban_def find_None_iff host_version_ip_rule_matches_def
      simp del: not_None_eq)

lemma matches_note [simp]:
  "host_version_ip_rule_matches pton4 pton6 (r\<lparr>rule_note := n\<rparr>) v ip
     = host_version_ip_rule_matches pton4 pton6 r v ip"
  by (simp add: host_version_ip_rule_matches_def rule_covers_def split: option.splits)

text \<open>A new rule matches what its pattern and range say.\<close>

lemma new_rule_matches:
  assumes "length pattern < VERSION_PATTERN_LEN" "ip \<noteq> []"
    and "host_version_ip_parse_pattern (Some pattern) VERSION_PATTERN_LEN VERSION_PATTERN_LEN
           = Some (normalized, original, mode)"
    and "parse_any_cidr pton4 pton6 (c_trim cidr) = Some net"
  shows "host_version_ip_rule_matches pton4 pton6
           (new_rule mode original normalized text net nt) (Some v) ip
     \<longleftrightarrow> glob_match (c_trim pattern) v \<and> host_cidr_contains_ip pton4 pton6 (c_trim cidr) ip"
  using parse_pattern_glob(1) [OF assms(1,3)] assms(2-4)
  by (simp add: host_version_ip_rule_matches_def covers_new_rule)
    (simp add: new_rule_def)

text \<open>Changing the note of a rule changes nothing else.\<close>

lemma rules_wf_update:
  "rules_wf h \<Longrightarrow> i < length (version_ip_ban_rules h) \<Longrightarrow>
   rules_wf (h\<lparr>version_ip_ban_rules := (version_ip_ban_rules h)
     [i := (version_ip_ban_rules h ! i)\<lparr>rule_note := n\<rparr>]\<rparr>)"
  by (auto simp: rules_wf_def dest!: set_update_subset_insert [THEN subsetD])

lemma bex_update_note:
  assumes "i < length xs"
  shows "(\<exists>r\<in>set (xs[i := (xs ! i)\<lparr>rule_note := n\<rparr>]).
            host_version_ip_rule_matches pton4 pton6 r v ip)
     \<longleftrightarrow> (\<exists>r\<in>set xs. host_version_ip_rule_matches pton4 pton6 r v ip)"
proof -
  let ?m = "\<lambda>r. host_version_ip_rule_matches pton4 pton6 r v ip"
  have "map ?m (xs[i := (xs ! i)\<lparr>rule_note := n\<rparr>]) = map ?m xs"
    using assms by (simp add: map_key_update)
  from arg_cong [OF this, of "\<lambda>bs. True \<in> set bs"] show ?thesis
    by (simp only: set_map image_iff eq_commute [of True] eq_True)
qed

text \<open>The three ways in which adding a rule can end.\<close>

lemma rule_add_cases:
  assumes "host_version_ip_rule_add pton4 pton6 alloc dup_ok pattern cidr nt h = (success, h')"
  obtains (failed) "\<not> success" "h' = h \<or> (\<exists>n. host_version_ip_rules_reserve alloc n h = Some h')"
  | (old) h1 normalized original mode net i where "success"
      "host_version_ip_rules_reserve alloc (length (version_ip_ban_rules h) + 1) h = Some h1"
      "host_version_ip_parse_pattern (Some pattern) VERSION_PATTERN_LEN VERSION_PATTERN_LEN
           = Some (normalized, original, mode)"
      "parse_any_cidr pton4 pton6 (c_trim cidr) = Some net"
      "first_index (same_rule mode normalized net) (version_ip_ban_rules h1) = Some i"
      "h' = (if nt = [] then h1 else h1\<lparr>version_ip_ban_rules := (version_ip_ban_rules h1)
          [i := (version_ip_ban_rules h1 ! i)\<lparr>rule_note := take (VERSION_NOTE_LEN - 1) nt\<rparr>]\<rparr>)"
  | (new) h1 normalized original mode net where "success"
      "host_version_ip_rules_reserve alloc (length (version_ip_ban_rules h) + 1) h = Some h1"
      "host_version_ip_parse_pattern (Some pattern) VERSION_PATTERN_LEN VERSION_PATTERN_LEN
           = Some (normalized, original, mode)"
      "parse_any_cidr pton4 pton6 (c_trim cidr) = Some net"
      "h' = h1\<lparr>version_ip_ban_rules := version_ip_ban_rules h1 @
         [new_rule mode original normalized (c_trim cidr) net nt]\<rparr>"
  using assms
  by (auto simp: host_version_ip_rule_add_def Let_def split: if_splits option.splits prod.splits)

text \<open>
  C6: The rule table is the set of policies added to it.  When adding a pattern and a
  range succeeds, whether as a new rule or because an equal rule is already there, the
  clients banned afterwards are exactly those banned before and those whose version
  the pattern matches as a glob and whose address the range contains; when it fails,
  exactly those banned before.  The table stays well-formed.
\<close>

theorem rule_add_policy:
  assumes "rules_wf h" "length pattern < VERSION_PATTERN_LEN" "ip \<noteq> []"
    and "host_version_ip_rule_add pton4 pton6 alloc dup_ok pattern cidr nt h = (success, h')"
  shows "rules_wf h' \<and>
    (host_version_ip_should_ban pton4 pton6 h' (Some v) ip \<noteq> None \<longleftrightarrow>
       host_version_ip_should_ban pton4 pton6 h (Some v) ip \<noteq> None \<or>
       success \<and> glob_match (c_trim pattern) v \<and>
         host_cidr_contains_ip pton4 pton6 (c_trim cidr) ip)"
proof -
  let ?contains = "host_cidr_contains_ip pton4 pton6 (c_trim cidr) ip"
  from assms(4) show ?thesis
  proof (cases rule: rule_add_cases)
    case failed
    with rules_reserve_wf [OF assms(1)] assms(1) show ?thesis
      by (auto simp: should_ban_iff simp del: not_None_eq)
  next
    case (old h1 normalized original mode net i)
    note h1 = rules_reserve_wf [OF assms(1) old(2)]
    let ?r = "version_ip_ban_rules h1 ! i"
    have i: "i < length (version_ip_ban_rules h1)" "same_rule mode normalized net ?r"
      using old(5) by (simp_all add: first_index_Some)
    have "host_version_ip_rule_matches pton4 pton6 ?r (Some v) ip
        \<longleftrightarrow> glob_match (c_trim pattern) v \<and> ?contains"
      using h1 i same_rule_matches [OF i(2) _ parse_pattern_glob(2) [OF assms(2) old(3)]]
        new_rule_matches [OF assms(2,3) old(3,4)]
      by (simp add: rules_wf_def)
    moreover have "rules_wf h'"
      using h1 rules_wf_update [OF _ i(1)] old(6) by simp
    moreover have "host_version_ip_should_ban pton4 pton6 h' (Some v) ip \<noteq> None
        \<longleftrightarrow> host_version_ip_should_ban pton4 pton6 h1 (Some v) ip \<noteq> None"
      using old(6) by (simp add: should_ban_iff bex_update_note [OF i(1)] del: not_None_eq)
    ultimately show ?thesis
      using h1 i(1) old(1) nth_mem [OF i(1)]
      by (auto simp: should_ban_iff simp del: not_None_eq)
  next
    case (new h1 normalized original mode net)
    note h1 = rules_reserve_wf [OF assms(1) new(2)]
    with new parse_pattern_glob(2) [OF assms(2) new(3)] new_rule_matches [OF assms(2,3) new(3,4)]
    show ?thesis
      by (auto simp: should_ban_iff rules_wf_def new_rule_flags simp del: not_None_eq)
  qed
qed

theorem rule_add_policy_witness:
  "case host_version_ip_rule_add
      (\<lambda>t. if t = ''10.0.0.0'' then Some 0x0A000000 else Some 0x0A090909)
      (\<lambda>t. None) (\<lambda>_. True) True ''SSH-2.0-Go*'' '' 10.0.0.0/8 '' ''scanner''
      \<lparr>version_ip_ban_rules = [], version_ip_ban_rule_capacity = 16\<rparr> of
   (success, h') \<Rightarrow> rules_wf h' \<and>
    (host_version_ip_should_ban
        (\<lambda>t. if t = ''10.0.0.0'' then Some 0x0A000000 else Some 0x0A090909) (\<lambda>t. None)
        h' (Some ''SSH-2.0-Go'') ''10.9.9.9'' \<noteq> None \<longleftrightarrow>
     host_version_ip_should_ban
        (\<lambda>t. if t = ''10.0.0.0'' then Some 0x0A000000 else Some 0x0A090909) (\<lambda>t. None)
        \<lparr>version_ip_ban_rules = [], version_ip_ban_rule_capacity = 16\<rparr>
        (Some ''SSH-2.0-Go'') ''10.9.9.9'' \<noteq> None \<or>
     success \<and> glob_match (c_trim ''SSH-2.0-Go*'') ''SSH-2.0-Go'' \<and>
       host_cidr_contains_ip
        (\<lambda>t. if t = ''10.0.0.0'' then Some 0x0A000000 else Some 0x0A090909) (\<lambda>t. None)
        (c_trim '' 10.0.0.0/8 '') ''10.9.9.9'')"
  (is "case ?add of (s, h') \<Rightarrow> ?P s h'")
proof (cases ?add)
  case (Pair s h')
  have "?P s h'"
    by (rule rule_add_policy [OF _ _ _ Pair])
      (simp_all add: rules_wf_def VERSION_PATTERN_LEN_def MAX_VERSION_IP_BANS_def)
  with Pair show ?thesis by simp
qed

lemma rules_reserve_rules:
  "host_version_ip_rules_reserve alloc n h = Some h' \<Longrightarrow>
   version_ip_ban_rules h' = version_ip_ban_rules h"
  by (erule rules_reserve_cases) auto

text \<open>
  The seed that is meant for clients without a version is never loaded.  The list
  of built-in rules has an entry with an empty pattern for every address, and adding
  that entry always fails and leaves the rules as they are, because an empty pattern
  is refused.
\<close>

theorem empty_seed_never_loaded:
  "([], ''0.0.0.0/0'', []) \<in> set kVersionIpBanSeeds \<and>
   \<not> fst (host_version_ip_rule_add pton4 pton6 alloc dup_ok [] ''0.0.0.0/0'' [] h) \<and>
   version_ip_ban_rules (snd (host_version_ip_rule_add pton4 pton6 alloc dup_ok
     [] ''0.0.0.0/0'' [] h)) = version_ip_ban_rules h"
proof -
  have "host_version_ip_parse_pattern (Some []) VERSION_PATTERN_LEN VERSION_PATTERN_LEN = None"
    by (simp add: parse_pattern_simps c_trim_def)
  moreover have "([], ''0.0.0.0/0'', []) \<in> set kVersionIpBanSeeds"
    by (simp add: kVersionIpBanSeeds_def)
  ultimately show ?thesis
    using rules_reserve_rules
    by (auto simp: host_version_ip_rule_add_def Let_def split: option.splits)
qed

end
