(* ===== verification/Ban_List.thy ===== *)
theory Ban_List
  imports Ip_Rules Connection_Guard
begin

text \<open>
  The list of banned users and addresses (\<^verbatim>\<open>src/host/runtime/user_commands.c\<close>)
  and the protected addresses (\<^verbatim>\<open>src/host/core/system_config.c\<close>) that no ban may
  cover.  Both arrays are lists of their live entries; the ban array is allocated
  once at its full size.  Saving the list to disk is not part of the state.
\<close>

section \<open>State\<close>

record host_ban_entry =
  ban_username :: cstr
  ban_ip :: cstr

record ban_host =
  bans :: "host_ban_entry list"
  protected_ips :: "cstr list"

definition MAX_BANS :: nat where
  "MAX_BANS = 16384"

definition MAX_PROTECTED_IPS :: nat where
  "MAX_PROTECTED_IPS = 16"

definition BAN_USERNAME_LEN :: nat where
  "BAN_USERNAME_LEN = 256"

section \<open>Protected addresses\<close>

definition host_address_is_wildcard :: "cstr option \<Rightarrow> bool" where
  "host_address_is_wildcard address =
     (case address of
        None \<Rightarrow> True
      | Some a \<Rightarrow>
          a = [] \<or> a = ''*'' \<or> a = ''0.0.0.0'' \<or> a = ''::'' \<or> a = ''::0'' \<or>
          list_all (\<lambda>c. c = CHR '':'' \<or> c = CHR ''.'' \<or> c = CHR ''0'') a)"

definition host_is_protected_ip_unlocked :: "ban_host \<Rightarrow> cstr \<Rightarrow> bool" where
  "host_is_protected_ip_unlocked h ip \<longleftrightarrow>
     ip \<noteq> [] \<and>
     list_ex (\<lambda>p. strncmp_eq SSH_CHATTER_IP_LEN p ip) (take MAX_PROTECTED_IPS (protected_ips h))"

definition host_protected_ip_add_unlocked :: "bool \<Rightarrow> cstr \<Rightarrow> ban_host \<Rightarrow> bool \<times> ban_host" where
  "host_protected_ip_add_unlocked alloc ip h =
     (let trimmed = c_trim (take SSH_CHATTER_IP_LEN ip)
      in if trimmed = [] then (False, h)
         else
           let normalized = take (SSH_CHATTER_IP_LEN - 1) trimmed
           in if host_address_is_wildcard (Some normalized) then (False, h)
              else if host_is_protected_ip_unlocked h normalized then (True, h)
              else if length (protected_ips h) \<ge> MAX_PROTECTED_IPS then (False, h)
              else if \<not> alloc then (False, h)
              else (True, h\<lparr>protected_ips := protected_ips h @ [normalized]\<rparr>))"

definition host_protected_ips_load_from_env :: "bool \<Rightarrow> cstr option \<Rightarrow> ban_host \<Rightarrow> ban_host" where
  "host_protected_ips_load_from_env alloc env h =
     (case env of
        None \<Rightarrow> h
      | Some text \<Rightarrow>
          if text = [] \<or> \<not> alloc then h
          else fold (\<lambda>token h.
                 let working = c_trim (take (SSH_CHATTER_IP_LEN - 1) token)
                 in if working = [] then h
                    else snd (host_protected_ip_add_unlocked alloc working h))
               (strtok_all (\<lambda>c. c = CHR '','') text) h)"

definition host_protected_ips_bootstrap :: "bool \<Rightarrow> cstr option \<Rightarrow> ban_host \<Rightarrow> ban_host" where
  "host_protected_ips_bootstrap alloc env h =
     host_protected_ips_load_from_env alloc env
       (fold (\<lambda>ip h. snd (host_protected_ip_add_unlocked alloc ip h))
          [''127.0.0.1'', ''::1'', ''192.168.0.1''] h)"

section \<open>Bans\<close>

text \<open>Whether the address of one entry bans an address.\<close>

definition ban_covers ::
  "(cstr \<Rightarrow> ipv4 option) \<Rightarrow> (cstr \<Rightarrow> ipv6 option) \<Rightarrow> cstr \<Rightarrow> cstr \<Rightarrow> bool" where
  "ban_covers pton4 pton6 b ip =
     (if CHR ''/'' \<in> set b then host_cidr_contains_ip pton4 pton6 b ip
      else strncmp_eq SSH_CHATTER_IP_LEN b ip)"

definition host_is_ip_banned ::
  "(cstr \<Rightarrow> ipv4 option) \<Rightarrow> (cstr \<Rightarrow> ipv6 option) \<Rightarrow> ban_host \<Rightarrow> cstr \<Rightarrow> bool" where
  "host_is_ip_banned pton4 pton6 h ip =
     (if ip = [] then False
      else if host_is_protected_ip_unlocked h ip then False
      else list_ex (\<lambda>b. ban_ip b \<noteq> [] \<and> \<not> host_is_protected_ip_unlocked h (ban_ip b) \<and>
                        ban_covers pton4 pton6 (ban_ip b) ip) (bans h))"

definition host_is_username_banned :: "ban_host \<Rightarrow> cstr \<Rightarrow> bool" where
  "host_is_username_banned h username \<longleftrightarrow>
     username \<noteq> [] \<and> list_ex (\<lambda>b. strncmp_eq BAN_USERNAME_LEN (ban_username b) username) (bans h)"

definition ban_entry_matches :: "cstr option \<Rightarrow> cstr option \<Rightarrow> host_ban_entry \<Rightarrow> bool" where
  "ban_entry_matches username ip b \<longleftrightarrow>
     (case username of None \<Rightarrow> False
      | Some u \<Rightarrow> u \<noteq> [] \<and> strncmp_eq BAN_USERNAME_LEN (ban_username b) u) \<or>
     (case ip of None \<Rightarrow> False
      | Some i \<Rightarrow> i \<noteq> [] \<and> strncmp_eq SSH_CHATTER_IP_LEN (ban_ip b) i)"

definition host_add_ban_entry ::
  "(cstr \<Rightarrow> ipv4 option) \<Rightarrow> (cstr \<Rightarrow> ipv6 option) \<Rightarrow>
   cstr option \<Rightarrow> cstr option \<Rightarrow> ban_host \<Rightarrow> bool \<times> ban_host" where
  "host_add_ban_entry pton4 pton6 username ip h =
     (let user_text = (case username of None \<Rightarrow> [] | Some u \<Rightarrow> u);
          ip_text = (case ip of None \<Rightarrow> [] | Some i \<Rightarrow> i)
      in if length (bans h) \<ge> MAX_BANS then (False, h)
         else if ip_text \<noteq> [] \<and> host_is_protected_ip_unlocked h ip_text then (True, h)
         else if ip_text \<noteq> [] \<and> CHR ''/'' \<in> set ip_text \<and>
           list_ex (\<lambda>p. host_cidr_contains_ip pton4 pton6 ip_text p)
             (take MAX_PROTECTED_IPS (protected_ips h)) then (True, h)
         else if list_ex (ban_entry_matches username ip) (bans h) then (True, h)
         else (True, h\<lparr>bans := bans h @
                [\<lparr>ban_username = take (BAN_USERNAME_LEN - 1) user_text,
                  ban_ip = take (SSH_CHATTER_IP_LEN - 1) ip_text\<rparr>]\<rparr>))"

text \<open>Removal shifts the later entries down by one place.\<close>

definition host_remove_ban_entry :: "cstr \<Rightarrow> ban_host \<Rightarrow> bool \<times> ban_host" where
  "host_remove_ban_entry token h =
     (if token = [] then (False, h)
      else case first_index (\<lambda>b. strncmp_eq BAN_USERNAME_LEN (ban_username b) token \<or>
                                 strncmp_eq SSH_CHATTER_IP_LEN (ban_ip b) token) (bans h) of
        None \<Rightarrow> (False, h)
      | Some idx \<Rightarrow> (True, h\<lparr>bans := take idx (bans h) @ drop (Suc idx) (bans h)\<rparr>))"

section \<open>Bans and protected addresses\<close>

text \<open>Texts that fit their buffers, and the invariant of the list: no entry covers a
  protected address, and no name and no address occurs twice.\<close>

definition ban_text_ok :: "cstr \<Rightarrow> bool" where
  "ban_text_ok ip \<longleftrightarrow> length ip < SSH_CHATTER_IP_LEN"

definition ban_inv ::
  "(cstr \<Rightarrow> ipv4 option) \<Rightarrow> (cstr \<Rightarrow> ipv6 option) \<Rightarrow> ban_host \<Rightarrow> bool" where
  "ban_inv pton4 pton6 h \<longleftrightarrow>
     length (bans h) \<le> MAX_BANS \<and>
     length (protected_ips h) \<le> MAX_PROTECTED_IPS \<and>
     (\<forall>p\<in>set (protected_ips h). p \<noteq> [] \<and> ban_text_ok p) \<and>
     (\<forall>b\<in>set (bans h). length (ban_username b) < BAN_USERNAME_LEN \<and> ban_text_ok (ban_ip b)) \<and>
     distinct (filter (\<lambda>u. u \<noteq> []) (map ban_username (bans h))) \<and>
     distinct (filter (\<lambda>i. i \<noteq> []) (map ban_ip (bans h))) \<and>
     (\<forall>b\<in>set (bans h). \<forall>p\<in>set (protected_ips h). ban_ip b \<noteq> [] \<longrightarrow>
        \<not> ban_covers pton4 pton6 (ban_ip b) p)"

datatype ban_event = AddBan "cstr option" "cstr option" | RemoveBan cstr

definition ban_step ::
  "(cstr \<Rightarrow> ipv4 option) \<Rightarrow> (cstr \<Rightarrow> ipv6 option) \<Rightarrow> ban_event \<Rightarrow> ban_host \<Rightarrow> ban_host" where
  "ban_step pton4 pton6 ev h =
     (case ev of
        AddBan u i \<Rightarrow> snd (host_add_ban_entry pton4 pton6 u i h)
      | RemoveBan t \<Rightarrow> snd (host_remove_ban_entry t h))"

definition ban_event_ok :: "ban_event \<Rightarrow> bool" where
  "ban_event_ok ev =
     (case ev of
        AddBan u i \<Rightarrow> (case u of None \<Rightarrow> True | Some u \<Rightarrow> length u < BAN_USERNAME_LEN) \<and>
                       (case i of None \<Rightarrow> True | Some i \<Rightarrow> ban_text_ok i)
      | RemoveBan t \<Rightarrow> True)"

lemma protected_iff:
  assumes "ban_inv pton4 pton6 h" "ban_text_ok ip" "ip \<noteq> []"
  shows "host_is_protected_ip_unlocked h ip \<longleftrightarrow> ip \<in> set (protected_ips h)"
  using assms
  by (auto simp: host_is_protected_ip_unlocked_def ban_inv_def list_ex_iff ban_text_ok_def
      strncmp_eq_short)

lemma ban_covers_text:
  "CHR ''/'' \<notin> set b \<Longrightarrow> ban_text_ok b \<Longrightarrow> ban_text_ok ip \<Longrightarrow> ban_covers pton4 pton6 b ip \<longleftrightarrow> b = ip"
  by (simp add: ban_covers_def ban_text_ok_def strncmp_eq_short)

text \<open>How adding ends, for texts that fit.\<close>

lemma add_ban_cases:
  assumes "host_add_ban_entry pton4 pton6 u i h = (r, h')" "ban_event_ok (AddBan u i)"
  defines "ut \<equiv> case u of None \<Rightarrow> [] | Some u \<Rightarrow> u" and "it \<equiv> case i of None \<Rightarrow> [] | Some i \<Rightarrow> i"
  obtains (same) "h' = h"
  | (added) "r" "h' = h\<lparr>bans := bans h @ [\<lparr>ban_username = ut, ban_ip = it\<rparr>]\<rparr>"
      "length (bans h) < MAX_BANS" "\<not> host_is_protected_ip_unlocked h it"
      "CHR ''/'' \<in> set it \<Longrightarrow> list_all (\<lambda>p. \<not> host_cidr_contains_ip pton4 pton6 it p)
         (take MAX_PROTECTED_IPS (protected_ips h))"
      "list_all (\<lambda>b. \<not> ban_entry_matches u i b) (bans h)"
proof -
  have "it \<noteq> []" if "host_is_protected_ip_unlocked h it \<or> CHR ''/'' \<in> set it"
    using that by (auto simp: host_is_protected_ip_unlocked_def)
  moreover have "take (BAN_USERNAME_LEN - 1) ut = ut" "take (SSH_CHATTER_IP_LEN - 1) it = it"
    using assms(2) by (auto simp: ban_event_ok_def ut_def it_def ban_text_ok_def split: option.splits)
  ultimately show thesis
    using assms(1) same added
    unfolding host_add_ban_entry_def ut_def [symmetric] it_def [symmetric] Let_def
    by (auto simp: list_all_iff list_ex_iff split: if_splits)
qed

lemma add_ban_inv:
  assumes "ban_inv pton4 pton6 h" "ban_event_ok (AddBan u i)"
  shows "ban_inv pton4 pton6 (snd (host_add_ban_entry pton4 pton6 u i h))"
proof -
  obtain r h' where out: "host_add_ban_entry pton4 pton6 u i h = (r, h')" by (metis surj_pair)
  let ?ut = "case u of None \<Rightarrow> [] | Some u \<Rightarrow> u" and ?it = "case i of None \<Rightarrow> [] | Some i \<Rightarrow> i"
  have len: "length ?ut < BAN_USERNAME_LEN" "ban_text_ok ?it"
    using assms(2) by (auto simp: ban_event_ok_def ban_text_ok_def BAN_USERNAME_LEN_def
        SSH_CHATTER_IP_LEN_def split: option.splits)
  from out assms(2) have "ban_inv pton4 pton6 h'"
  proof (cases rule: add_ban_cases)
    case added
    have new: "?ut \<noteq> [] \<Longrightarrow> ?ut \<notin> ban_username ` set (bans h)"
      "?it \<noteq> [] \<Longrightarrow> ?it \<notin> ban_ip ` set (bans h)"
      using added(6) by (auto simp: ban_entry_matches_def list_all_iff strncmp_eq_def split: option.splits)
    have "\<not> ban_covers pton4 pton6 ?it p" if "p \<in> set (protected_ips h)" "?it \<noteq> []" for p
    proof (cases "CHR ''/'' \<in> set ?it")
      case True
      with added(5) that assms(1) show ?thesis
        by (simp add: ban_covers_def list_all_iff ban_inv_def)
    next
      case False
      with added(4) that assms(1) len protected_iff [OF assms(1) len(2) that(2)] show ?thesis
        by (auto simp: ban_covers_text ban_inv_def)
    qed
    with added(2,3) new len assms(1) show ?thesis
      by (auto simp: ban_inv_def)
  qed (use assms in simp)
  with out show ?thesis by simp
qed

lemma remove_ban_cases:
  assumes "host_remove_ban_entry t h = (r, h')"
  obtains (none) "\<not> r" "h' = h"
      "t = [] \<or> (\<forall>b\<in>set (bans h). \<not> (strncmp_eq BAN_USERNAME_LEN (ban_username b) t \<or>
                                 strncmp_eq SSH_CHATTER_IP_LEN (ban_ip b) t))"
  | (removed) i where "r" "t \<noteq> []"
      "first_index (\<lambda>b. strncmp_eq BAN_USERNAME_LEN (ban_username b) t \<or>
                       strncmp_eq SSH_CHATTER_IP_LEN (ban_ip b) t) (bans h) = Some i"
      "h' = h\<lparr>bans := take i (bans h) @ drop (Suc i) (bans h)\<rparr>"
  using assms
  by (auto simp: host_remove_ban_entry_def first_index_None split: option.splits if_splits)

lemma remove_ban_inv:
  assumes "ban_inv pton4 pton6 h"
  shows "ban_inv pton4 pton6 (snd (host_remove_ban_entry t h))"
proof -
  have sub: "set (take i xs @ drop (Suc i) xs) \<subseteq> set xs" for i and xs :: "host_ban_entry list"
    using set_take_subset set_drop_subset by fastforce
  have dis: "distinct (filter P (map f (take i xs @ drop (Suc i) xs)))"
    if "distinct (filter P (map f xs))" for P f i and xs :: "host_ban_entry list"
  proof -
    have "xs = take i xs @ take 1 (drop i xs) @ drop (Suc i) xs"
      by (metis append_take_drop_id drop_drop plus_1_eq_Suc)
    with that have "distinct (filter P (map f (take i xs @ take 1 (drop i xs) @ drop (Suc i) xs)))"
      by metis
    then show ?thesis by auto
  qed
  obtain r h' where out: "host_remove_ban_entry t h = (r, h')" by (metis surj_pair)
  then have "ban_inv pton4 pton6 h'"
  proof (cases rule: remove_ban_cases)
    case (removed i)
    with assms sub [of i "bans h"] dis [of _ ban_username "bans h" i] dis [of _ ban_ip "bans h" i]
    show ?thesis unfolding ban_inv_def by auto
  qed (use assms in simp)
  with out show ?thesis by simp
qed

interpretation ban_sys: invariant_system "ban_step pton4 pton6" ban_event_ok "ban_inv pton4 pton6"
  for pton4 pton6
  by unfold_locales (auto simp: ban_step_def add_ban_inv remove_ban_inv split: ban_event.splits)

text \<open>
  C4: No ban ever covers a protected address.  Whatever bans operators add and remove,
  by name, by address or by range, the list keeps its size limit, holds no name and no
  address twice, and no entry of it, read as an address or as a range, covers an
  address that was protected at the start.
\<close>

theorem bans_never_cover_protected:
  assumes "ban_inv pton4 pton6 h" "list_all ban_event_ok es"
  shows "ban_inv pton4 pton6 (fold (ban_step pton4 pton6) es h)"
  using ban_sys.inv_run [OF assms(2,1)] by (simp add: ban_sys.run_def)

theorem bans_never_cover_protected_witness:
  "ban_inv (\<lambda>t. if t = ''127.0.0.0'' then Some 0x7F000000 else Some 0x7F000001) (\<lambda>t. None)
     (fold (ban_step (\<lambda>t. if t = ''127.0.0.0'' then Some 0x7F000000 else Some 0x7F000001) (\<lambda>t. None))
        [AddBan (Some ''mallory'') (Some ''127.0.0.0/8''), AddBan (Some ''eve'') None, RemoveBan ''eve'']
        \<lparr>bans = [], protected_ips = [''127.0.0.1'']\<rparr>)"
  by (rule bans_never_cover_protected)
    (simp_all add: ban_inv_def ban_text_ok_def ban_event_ok_def SSH_CHATTER_IP_LEN_def
      BAN_USERNAME_LEN_def MAX_PROTECTED_IPS_def)

section \<open>What adding and removing a ban does\<close>

text \<open>
  Adding a ban has exactly its effect.  When the list had no entry for the name or
  the address, is not full, and the address or range covers no protected address,
  then afterwards an address is banned exactly when it was banned before or is an
  unprotected address that the new address or range covers, and a name exactly when
  it was banned before or is the new name.
\<close>

theorem add_ban_effect:
  assumes "ban_inv pton4 pton6 h" "length u < BAN_USERNAME_LEN" "ban_text_ok i" "i \<noteq> []" "u \<noteq> []"
    and "length (bans h) < MAX_BANS"
    and "\<forall>p\<in>set (protected_ips h). \<not> ban_covers pton4 pton6 i p"
    and "i \<notin> set (protected_ips h)"
    and "\<forall>b\<in>set (bans h). ban_username b \<noteq> u \<and> ban_ip b \<noteq> i"
    and "a \<noteq> []" "length v < BAN_USERNAME_LEN" "v \<noteq> []"
  shows "let h' = snd (host_add_ban_entry pton4 pton6 (Some u) (Some i) h) in
      (host_is_ip_banned pton4 pton6 h' a \<longleftrightarrow> host_is_ip_banned pton4 pton6 h a \<or>
         (\<not> host_is_protected_ip_unlocked h a \<and> ban_covers pton4 pton6 i a)) \<and>
      (host_is_username_banned h' v \<longleftrightarrow> host_is_username_banned h v \<or> v = u)"
proof -
  have prot: "\<not> host_is_protected_ip_unlocked h i"
    using protected_iff [OF assms(1,3,4)] assms(8) by simp
  have nocidr: "CHR ''/'' \<in> set i \<Longrightarrow>
      \<not> list_ex (\<lambda>p. host_cidr_contains_ip pton4 pton6 i p) (take MAX_PROTECTED_IPS (protected_ips h))"
    using assms(7) by (auto simp: list_ex_iff ban_covers_def dest: in_set_takeD)
  have nomatch: "\<not> list_ex (ban_entry_matches (Some u) (Some i)) (bans h)"
    using assms(1-3,9) by (auto simp: list_ex_iff ban_entry_matches_def ban_inv_def
        ban_text_ok_def strncmp_eq_short)
  have "host_add_ban_entry pton4 pton6 (Some u) (Some i) h
      = (True, h\<lparr>bans := bans h @ [\<lparr>ban_username = u, ban_ip = i\<rparr>]\<rparr>)"
    using assms(2-6) prot nocidr nomatch
    by (auto simp: host_add_ban_entry_def ban_text_ok_def)
  moreover have "host_is_protected_ip_unlocked (h\<lparr>bans := bs\<rparr>) x = host_is_protected_ip_unlocked h x"
    for bs x by (simp add: host_is_protected_ip_unlocked_def)
  ultimately show ?thesis
    using assms prot by (auto simp: host_is_ip_banned_def host_is_username_banned_def strncmp_eq_short)
qed

theorem add_ban_effect_witness:
  "let h = \<lparr>bans = [\<lparr>ban_username = ''eve'', ban_ip = ''10.0.0.7''\<rparr>], protected_ips = [''127.0.0.1'']\<rparr>;
       h' = snd (host_add_ban_entry (\<lambda>t. None) (\<lambda>t. None) (Some ''mallory'') (Some ''10.0.0.9'') h) in
      (host_is_ip_banned (\<lambda>t. None) (\<lambda>t. None) h' ''10.0.0.9'' \<longleftrightarrow>
         host_is_ip_banned (\<lambda>t. None) (\<lambda>t. None) h ''10.0.0.9'' \<or>
         (\<not> host_is_protected_ip_unlocked h ''10.0.0.9'' \<and>
          ban_covers (\<lambda>t. None) (\<lambda>t. None) ''10.0.0.9'' ''10.0.0.9'')) \<and>
      (host_is_username_banned h' ''mallory'' \<longleftrightarrow>
         host_is_username_banned h ''mallory'' \<or> ''mallory'' = ''mallory'')"
  unfolding Let_def
  by (rule add_ban_effect [unfolded Let_def])
    (simp_all add: ban_inv_def ban_text_ok_def SSH_CHATTER_IP_LEN_def BAN_USERNAME_LEN_def
      MAX_BANS_def MAX_PROTECTED_IPS_def ban_covers_def strncmp_eq_def)

text \<open>
  Banning a user again from a new address does not ban that address.  When the
  name is already on the list, adding the name with an address that is not banned
  reports success, leaves the list as it is, and the address stays unbanned.
\<close>

theorem add_ban_known_user_skips_ip:
  assumes "length (bans h) < MAX_BANS" "u \<noteq> []" "host_is_username_banned h u"
    and "\<not> host_is_ip_banned pton4 pton6 h i"
  shows "host_add_ban_entry pton4 pton6 (Some u) (Some i) h = (True, h) \<and>
     \<not> host_is_ip_banned pton4 pton6 (snd (host_add_ban_entry pton4 pton6 (Some u) (Some i) h)) i"
proof -
  have "list_ex (ban_entry_matches (Some u) (Some i)) (bans h)"
    using assms(2,3) by (auto simp: list_ex_iff host_is_username_banned_def ban_entry_matches_def)
  with assms(1) have "host_add_ban_entry pton4 pton6 (Some u) (Some i) h = (True, h)"
    by (auto simp: host_add_ban_entry_def Let_def)
  with assms(4) show ?thesis by simp
qed

theorem add_ban_known_user_skips_ip_witness:
  "host_add_ban_entry (\<lambda>t. None) (\<lambda>t. None) (Some ''eve'') (Some ''10.0.0.8'')
     \<lparr>bans = [\<lparr>ban_username = ''eve'', ban_ip = ''10.0.0.7''\<rparr>], protected_ips = []\<rparr>
   = (True, \<lparr>bans = [\<lparr>ban_username = ''eve'', ban_ip = ''10.0.0.7''\<rparr>], protected_ips = []\<rparr>)"
  by (rule add_ban_known_user_skips_ip [THEN conjunct1])
    (simp_all add: MAX_BANS_def host_is_username_banned_def host_is_ip_banned_def
      host_is_protected_ip_unlocked_def ban_covers_def strncmp_eq_def BAN_USERNAME_LEN_def
      SSH_CHATTER_IP_LEN_def)

lemma nonempty_names_unique:
  assumes "distinct (filter (\<lambda>u. u \<noteq> []) (map f xs))" "f (xs ! i) = t" "t \<noteq> []" "i < length xs"
    and "j < length xs" "f (xs ! j) = t"
  shows "i = j"
  using assms
proof (induction xs arbitrary: i j)
  case (Cons x xs)
  have "\<And>k. k < length xs \<Longrightarrow> f (xs ! k) \<in> f ` set xs" by simp
  with Cons show ?case
    by (cases i; cases j; simp split: if_splits; metis)
qed simp

text \<open>
  Lifting a ban by name is exact: it removes the entry of that name and no other,
  after which the name is not banned, and it reports whether there was one.
\<close>

theorem remove_ban_by_name:
  assumes "ban_inv pton4 pton6 h" "u \<noteq> []" "length u < BAN_USERNAME_LEN"
    and "\<forall>b\<in>set (bans h). \<not> strncmp_eq SSH_CHATTER_IP_LEN (ban_ip b) u"
  shows "host_remove_ban_entry u h =
     (host_is_username_banned h u, h\<lparr>bans := filter (\<lambda>b. ban_username b \<noteq> u) (bans h)\<rparr>)
   \<and> \<not> host_is_username_banned (snd (host_remove_ban_entry u h)) u"
proof -
  have match: "\<And>b. b \<in> set (bans h) \<Longrightarrow> strncmp_eq BAN_USERNAME_LEN (ban_username b) u \<longleftrightarrow> ban_username b = u"
    using assms(1,3) by (auto simp: ban_inv_def strncmp_eq_short)
  have banned: "host_is_username_banned h u \<longleftrightarrow> (\<exists>b\<in>set (bans h). ban_username b = u)"
    using assms(2) match by (auto simp: host_is_username_banned_def list_ex_iff)
  obtain r h' where out: "host_remove_ban_entry u h = (r, h')" by (metis surj_pair)
  then have "r = host_is_username_banned h u \<and> h' = h\<lparr>bans := filter (\<lambda>b. ban_username b \<noteq> u) (bans h)\<rparr>"
  proof (cases rule: remove_ban_cases)
    case none
    with assms(2) match banned show ?thesis by (simp add: filter_True)
  next
    case (removed i)
    then have i: "i < length (bans h)" "ban_username (bans h ! i) = u"
      using match assms(4) by (auto simp: first_index_Some)
    have "\<forall>j<length (bans h). j \<noteq> i \<longrightarrow> ban_username (bans h ! j) \<noteq> u"
      using nonempty_names_unique [of ban_username "bans h" i u] i assms(1,2)
      unfolding ban_inv_def by metis
    from remove_index_filter [OF i this] removed(4)
    have "h' = h\<lparr>bans := filter (\<lambda>b. ban_username b \<noteq> u) (bans h)\<rparr>" by simp
    moreover have "host_is_username_banned h u"
      unfolding banned using i nth_mem by metis
    ultimately show ?thesis using removed(1) by simp
  qed
  moreover have "\<not> host_is_username_banned (h\<lparr>bans := filter (\<lambda>b. ban_username b \<noteq> u) (bans h)\<rparr>) u"
    using match by (auto simp: host_is_username_banned_def list_ex_iff)
  ultimately show ?thesis using out by simp
qed

theorem remove_ban_by_name_witness:
  "host_remove_ban_entry ''eve''
     \<lparr>bans = [\<lparr>ban_username = ''ann'', ban_ip = ''10.0.0.6''\<rparr>,
              \<lparr>ban_username = ''eve'', ban_ip = ''10.0.0.7''\<rparr>], protected_ips = []\<rparr>
   = (True, \<lparr>bans = [\<lparr>ban_username = ''ann'', ban_ip = ''10.0.0.6''\<rparr>], protected_ips = []\<rparr>)"
proof -
  let ?h = "\<lparr>bans = [\<lparr>ban_username = ''ann'', ban_ip = ''10.0.0.6''\<rparr>,
              \<lparr>ban_username = ''eve'', ban_ip = ''10.0.0.7''\<rparr>], protected_ips = []\<rparr>"
  have "ban_inv (\<lambda>t. None) (\<lambda>t. None) ?h"
    by (simp add: ban_inv_def ban_text_ok_def SSH_CHATTER_IP_LEN_def BAN_USERNAME_LEN_def MAX_BANS_def)
  from remove_ban_by_name [OF this, of "''eve''"] show ?thesis
    by (simp add: BAN_USERNAME_LEN_def SSH_CHATTER_IP_LEN_def strncmp_eq_def
        host_is_username_banned_def)
qed

end
