(* ===== verification/Lan_Access.thy ===== *)
theory Lan_Access
  imports Ip_Rules
begin

text \<open>
  Who a session is: the name it logs in with, and the operators of the local network.
  The names and passwords of these operators come from the environment
  (\<^verbatim>\<open>src/host/core/system_config.c\<close>); the dialogue of messages that authenticates a
  session is \<^verbatim>\<open>src/host/output/auth.c\<close>, the stripping of escape sequences
  \<^verbatim>\<open>src/user_data.c\<close>, private addresses and the grant of privileges
  \<^verbatim>\<open>src/host/transport/session_setup.c\<close>.

  A message of the SSH library is given by what the code reads of it.  What the user
  files say is a parameter: \<open>password_set name ip\<close>, whether the record loaded for a name
  from an address has a password, and \<open>verify name ip password\<close>, whether the password is
  the one of that record.
\<close>

section \<open>Private addresses\<close>

definition ipv4_octet :: "nat \<Rightarrow> ipv4 \<Rightarrow> nat" where
  "ipv4_octet i a = unat (drop_bit (24 - 8 * i) a) mod 256"

definition session_is_private_ipv4 :: "nat \<Rightarrow> nat \<Rightarrow> bool" where
  "session_is_private_ipv4 o0 o1 \<longleftrightarrow>
     o0 = 10 \<or> o0 = 127 \<or>
     (o0 = 172 \<and> o1 \<ge> 16 \<and> o1 \<le> 31) \<or>
     (o0 = 192 \<and> o1 = 168) \<or> (o0 = 169 \<and> o1 = 254)"

text \<open>The macros of the socket library on the sixteen bytes of an address.\<close>

definition in6_is_loopback :: "ipv6 \<Rightarrow> bool" where
  "in6_is_loopback a \<longleftrightarrow> a = replicate 15 0 @ [1]"

definition in6_is_linklocal :: "ipv6 \<Rightarrow> bool" where
  "in6_is_linklocal a \<longleftrightarrow> a ! 0 = 0xFE \<and> a ! 1 AND 0xC0 = 0x80"

definition in6_is_v4mapped :: "ipv6 \<Rightarrow> bool" where
  "in6_is_v4mapped a \<longleftrightarrow> take 12 a = replicate 10 0 @ [0xFF, 0xFF]"

definition session_is_lan_client ::
  "(cstr \<Rightarrow> ipv4 option) \<Rightarrow> (cstr \<Rightarrow> ipv6 option) \<Rightarrow> cstr \<Rightarrow> bool" where
  "session_is_lan_client pton4 pton6 ip =
     (if ip = [] then False
      else case pton4 ip of
        Some a \<Rightarrow> session_is_private_ipv4 (ipv4_octet 0 a) (ipv4_octet 1 a)
      | None \<Rightarrow>
          (case pton6 ip of
             None \<Rightarrow> False
           | Some a \<Rightarrow>
               if in6_is_loopback a \<or> in6_is_linklocal a then True
               else if in6_is_v4mapped a
               then session_is_private_ipv4 (unat (a ! 12)) (unat (a ! 13))
               else a ! 0 AND 0xFE = 0xFC))"

section \<open>Operators of the local network\<close>

record lan_operator_credential =
  lan_active :: bool
  lan_nickname :: cstr
  lan_password :: cstr

definition MAX_LAN_OPERATORS :: nat where
  "MAX_LAN_OPERATORS = 5"

definition LAN_NAME_LEN :: nat where
  "LAN_NAME_LEN = 256"

definition LAN_PASSWORD_LEN :: nat where
  "LAN_PASSWORD_LEN = 128"

definition LAN_OPERATOR_ENV_PAIRS :: "(cstr \<times> cstr) list" where
  "LAN_OPERATOR_ENV_PAIRS =
     [(''ADMIN1'', ''ADMIN1PW''), (''ADMIN2'', ''ADMIN2PW''), (''ADMIN3'', ''ADMIN3PW''),
      (''ADMIN4'', ''ADMIN4PW''), (''BACKUP'', ''BACKUPPW'')]"

definition lan_entry_names :: "cstr \<Rightarrow> lan_operator_credential \<Rightarrow> bool" where
  "lan_entry_names username c \<longleftrightarrow> lan_active c \<and> strcasecmp_eq (lan_nickname c) username"

text \<open>The index of the entry of a name.\<close>

definition host_find_lan_operator_credential ::
  "lan_operator_credential list \<Rightarrow> cstr \<Rightarrow> nat option" where
  "host_find_lan_operator_credential ops username =
     (if username = [] then None
      else first_index (lan_entry_names username) (take MAX_LAN_OPERATORS ops))"

definition host_is_lan_operator_username :: "lan_operator_credential list \<Rightarrow> cstr \<Rightarrow> bool" where
  "host_is_lan_operator_username ops username \<longleftrightarrow>
     host_find_lan_operator_credential ops username \<noteq> None"

definition lan_credential :: "cstr \<Rightarrow> cstr \<Rightarrow> lan_operator_credential" where
  "lan_credential username password =
     \<lparr>lan_active = True, lan_nickname = snprintf_into LAN_NAME_LEN username,
      lan_password = snprintf_into LAN_PASSWORD_LEN password\<rparr>"

definition lan_load_pair ::
  "cstr option \<times> cstr option \<Rightarrow> lan_operator_credential list \<Rightarrow> lan_operator_credential list" where
  "lan_load_pair pair ops =
     (case pair of
        (Some username, Some password) \<Rightarrow>
          if username = [] \<or> password = [] then ops
          else (case host_find_lan_operator_credential ops username of
                  Some i \<Rightarrow> ops[i := lan_credential username password]
                | None \<Rightarrow>
                    if length ops \<ge> MAX_LAN_OPERATORS then ops
                    else ops @ [lan_credential username password])
      | _ \<Rightarrow> ops)"

definition host_load_lan_operator_credentials ::
  "(cstr \<Rightarrow> cstr option) \<Rightarrow> lan_operator_credential list" where
  "host_load_lan_operator_credentials getenv =
     fold (\<lambda>(name_var, password_var). lan_load_pair (getenv name_var, getenv password_var))
       LAN_OPERATOR_ENV_PAIRS []"

section \<open>Names without escape sequences\<close>

definition ESC :: char where
  "ESC = CHR 0x1B"

definition c_iscntrl :: "char \<Rightarrow> bool" where
  "c_iscntrl c \<longleftrightarrow> code c < 32 \<or> code c = 127"

text \<open>What follows an operating system command: it ends with the bell or with an escape
  and a backslash.\<close>

fun osc_rest :: "cstr \<Rightarrow> cstr" where
  "osc_rest [] = []"
| "osc_rest (c # s) =
     (if c = CHR 0x07 then s
      else if c = ESC \<and> s \<noteq> [] \<and> hd s = CHR 0x5C then tl s
      else osc_rest s)"

lemma length_osc_rest: "length (osc_rest s) \<le> length s"
  by (induction s rule: osc_rest.induct) auto

definition csi_rest :: "cstr \<Rightarrow> cstr" where
  "csi_rest s = drop 1 (dropWhile (\<lambda>c. \<not> (64 \<le> code c \<and> code c \<le> 126)) s)"

lemma length_csi_rest: "length (csi_rest s) \<le> length s"
  using length_dropWhile_le [of "\<lambda>c. \<not> (64 \<le> code c \<and> code c \<le> 126)" s]
  unfolding csi_rest_def length_drop by linarith

function ansi_loop :: "nat \<Rightarrow> cstr \<Rightarrow> cstr \<Rightarrow> cstr" where
  "ansi_loop cap out s =
     (case s of
        [] \<Rightarrow> out
      | c # s' \<Rightarrow>
          if c = ESC then
            (case s' of
               [] \<Rightarrow> out
             | d # t \<Rightarrow>
                 if d = CHR ''['' then ansi_loop cap out (csi_rest t)
                 else if d = CHR '']'' then ansi_loop cap out (osc_rest t)
                 else ansi_loop cap out s')
          else if c_iscntrl c \<and> c \<noteq> CHR 0x09 then ansi_loop cap out s'
          else ansi_loop cap (if length out + 1 < cap then out @ [c] else out) s')"
  by pat_completeness auto
termination
  by (relation "measure (\<lambda>(cap, out, s). length s)")
    (auto simp: less_Suc_eq_le intro: le_SucI length_csi_rest length_osc_rest)

declare ansi_loop.simps [simp del]

definition user_data_strip_ansi_sequences :: "cstr \<Rightarrow> nat \<Rightarrow> cstr option" where
  "user_data_strip_ansi_sequences input cap =
     (if cap = 0 then None else Some (ansi_loop cap [] input))"

section \<open>Authentication\<close>

record lan_session =
  ls_name :: cstr
  ls_ip :: cstr
  lan_operator_credentials_valid :: bool
  authenticated_via_ssh_password :: bool
  is_operator :: bool
  is_lan_operator :: bool

datatype auth_message =
    AuthRequest (am_user: "cstr option") (am_by_password: bool) (am_password: "cstr option")
  | OtherMessage

definition auth_username :: "cstr option \<Rightarrow> cstr \<Rightarrow> cstr" where
  "auth_username username current =
     (case username of
        None \<Rightarrow> current
      | Some u \<Rightarrow>
          if u = [] then current
          else let cleaned = (case user_data_strip_ansi_sequences u LAN_NAME_LEN of
                                None \<Rightarrow> [] | Some c \<Rightarrow> c)
               in if cleaned = [] then take (LAN_NAME_LEN - 1) u else cleaned)"

text \<open>One request: whether it authenticates, and the session after it.\<close>

definition auth_request ::
  "(cstr \<Rightarrow> ipv4 option) \<Rightarrow> (cstr \<Rightarrow> ipv6 option) \<Rightarrow> (cstr \<Rightarrow> cstr \<Rightarrow> bool) \<Rightarrow>
   (cstr \<Rightarrow> cstr \<Rightarrow> cstr \<Rightarrow> bool) \<Rightarrow> lan_operator_credential list \<Rightarrow>
   cstr option \<Rightarrow> bool \<Rightarrow> cstr option \<Rightarrow> lan_session \<Rightarrow> bool \<times> lan_session" where
  "auth_request pton4 pton6 password_set verify ops user by_password password s0 =
     (let s = s0\<lparr>ls_name := auth_username user (ls_name s0)\<rparr>
      in case host_find_lan_operator_credential ops (ls_name s) of
           Some i \<Rightarrow>
             let credential = ops ! i
             in if \<not> session_is_lan_client pton4 pton6 (ls_ip s) then (False, s)
                else if \<not> by_password then (False, s)
                else if password = None \<or> lan_password credential = [] \<or>
                        password \<noteq> Some (lan_password credential) then (False, s)
                else (True, s\<lparr>ls_name := snprintf_into LAN_NAME_LEN (lan_nickname credential),
                              lan_operator_credentials_valid := True\<rparr>)
         | None \<Rightarrow>
             if by_password \<and> password_set (ls_name s) (ls_ip s)
             then (case password of
                     None \<Rightarrow> (False, s)
                   | Some p \<Rightarrow>
                       if verify (ls_name s) (ls_ip s) p
                       then (True, s\<lparr>authenticated_via_ssh_password := True\<rparr>)
                       else (False, s))
             else (True, s))"

fun auth_loop ::
  "(cstr \<Rightarrow> ipv4 option) \<Rightarrow> (cstr \<Rightarrow> ipv6 option) \<Rightarrow> (cstr \<Rightarrow> cstr \<Rightarrow> bool) \<Rightarrow>
   (cstr \<Rightarrow> cstr \<Rightarrow> cstr \<Rightarrow> bool) \<Rightarrow> lan_operator_credential list \<Rightarrow>
   auth_message list \<Rightarrow> lan_session \<Rightarrow> bool \<times> lan_session" where
  "auth_loop pton4 pton6 password_set verify ops [] s = (False, s)"
| "auth_loop pton4 pton6 password_set verify ops (m # ms) s =
     (case m of
        OtherMessage \<Rightarrow> auth_loop pton4 pton6 password_set verify ops ms s
      | AuthRequest user by_password password \<Rightarrow>
          (case auth_request pton4 pton6 password_set verify ops user by_password password s of
             (True, s') \<Rightarrow> (True, s')
           | (False, s') \<Rightarrow> auth_loop pton4 pton6 password_set verify ops ms s'))"

definition session_authenticate ::
  "(cstr \<Rightarrow> ipv4 option) \<Rightarrow> (cstr \<Rightarrow> ipv6 option) \<Rightarrow> (cstr \<Rightarrow> cstr \<Rightarrow> bool) \<Rightarrow>
   (cstr \<Rightarrow> cstr \<Rightarrow> cstr \<Rightarrow> bool) \<Rightarrow> lan_operator_credential list \<Rightarrow>
   auth_message list \<Rightarrow> lan_session \<Rightarrow> bool \<times> lan_session" where
  "session_authenticate pton4 pton6 password_set verify ops ms s =
     auth_loop pton4 pton6 password_set verify ops ms
       (s\<lparr>lan_operator_credentials_valid := False, authenticated_via_ssh_password := False\<rparr>)"

definition session_assign_lan_privileges ::
  "(cstr \<Rightarrow> ipv4 option) \<Rightarrow> (cstr \<Rightarrow> ipv6 option) \<Rightarrow> lan_operator_credential list \<Rightarrow>
   lan_session \<Rightarrow> lan_session" where
  "session_assign_lan_privileges pton4 pton6 ops s =
     (if \<not> lan_operator_credentials_valid s then s\<lparr>is_lan_operator := False\<rparr>
      else if \<not> session_is_lan_client pton4 pton6 (ls_ip s)
      then s\<lparr>lan_operator_credentials_valid := False, is_lan_operator := False\<rparr>
      else if \<not> host_is_lan_operator_username ops (ls_name s)
      then s\<lparr>lan_operator_credentials_valid := False, is_lan_operator := False\<rparr>
      else s\<lparr>is_operator := True, is_lan_operator := True\<rparr>)"

section \<open>Private ranges\<close>

lemma unat_drop_bit_div: "unat (drop_bit k (w :: 'a::len word)) = unat w div 2 ^ k"
proof -
  have "unat (drop_bit k w) = drop_bit k (unat w)" by (rule unat_drop_bit_eq)
  then show ?thesis by (simp only: drop_bit_eq_div)
qed

lemma msb_bits_prefix_div:
  fixes a n :: "'a::len word"
  assumes "p \<le> LENGTH('a)"
  shows "take p (msb_bits a) = take p (msb_bits n) \<longleftrightarrow>
    unat a div 2 ^ (LENGTH('a) - p) = unat n div 2 ^ (LENGTH('a) - p)"
proof -
  let ?k = "LENGTH('a) - p"
  have "take p (msb_bits a) = take p (msb_bits n) \<longleftrightarrow>
      (\<forall>i. i < LENGTH('a) \<longrightarrow> ?k \<le> i \<longrightarrow> bit a i = bit n i)"
    unfolding and_prefix_mask_iff [OF assms, symmetric] by (auto simp: bit_eq_iff bit_simps)
  also have "\<dots> \<longleftrightarrow> (\<forall>j. bit a (?k + j) = bit n (?k + j))"
  proof (rule iffI; intro allI impI)
    fix j assume *: "\<forall>i. i < LENGTH('a) \<longrightarrow> ?k \<le> i \<longrightarrow> bit a i = bit n i"
    show "bit a (?k + j) = bit n (?k + j)"
    proof (cases "?k + j < LENGTH('a)")
      case True
      with * show ?thesis by simp
    next
      case False
      then show ?thesis using bit_imp_le_length by blast
    qed
  next
    fix i assume *: "\<forall>j. bit a (?k + j) = bit n (?k + j)" and "i < LENGTH('a)" "?k \<le> i"
    with spec [OF *, of "i - ?k"] show "bit a i = bit n i" by simp
  qed
  also have "\<dots> \<longleftrightarrow> drop_bit ?k a = drop_bit ?k n"
  proof
    assume "drop_bit ?k a = drop_bit ?k n"
    then have "bit (drop_bit ?k a) j = bit (drop_bit ?k n) j" for j by simp
    then show "\<forall>j. bit a (?k + j) = bit n (?k + j)" by (simp add: bit_drop_bit_eq)
  qed (auto simp: bit_drop_bit_eq intro!: bit_word_eqI)
  finally show ?thesis
    by (simp add: word_unat_eq_iff unat_drop_bit_div)
qed

text \<open>The private networks of IPv4, as addresses with the length of their prefix.\<close>

definition private_networks :: "(ipv4 \<times> nat) list" where
  "private_networks = [(0x0A000000, 8), (0x7F000000, 8), (0xAC100000, 12), (0xC0A80000, 16), (0xA9FE0000, 16)]"

definition private_bits :: "bool list \<Rightarrow> bool" where
  "private_bits bs \<longleftrightarrow> list_ex (\<lambda>(n, p). take p bs = take p (msb_bits n)) private_networks"

lemma octets_split:
  assumes "(m::nat) = 256 * q + r" "r < 256" "m = 16 * t + u" "u < 16"
  shows "t = 2753 \<longleftrightarrow> q = 172 \<and> 16 \<le> r \<and> r \<le> 31"
    and "m = 49320 \<longleftrightarrow> q = 192 \<and> r = 168" and "m = 43518 \<longleftrightarrow> q = 169 \<and> r = 254"
proof -
  have "q = 172 \<and> 16 \<le> r \<and> r \<le> 31" if "t = 2753"
  proof -
    have "q = 172" using assms that by linarith
    with assms that show ?thesis by simp
  qed
  moreover have "t = 2753" if "q = 172" "16 \<le> r" "r \<le> 31" using assms that by linarith
  ultimately show "t = 2753 \<longleftrightarrow> q = 172 \<and> 16 \<le> r \<and> r \<le> 31" by blast
  have "q = 192" if "m = 49320" using assms that by linarith
  then have "q = 192 \<and> r = 168" if "m = 49320" using assms(1) that by simp
  then show "m = 49320 \<longleftrightarrow> q = 192 \<and> r = 168" using assms(1) by auto
  have "q = 169" if "m = 43518" using assms that by linarith
  then have "q = 169 \<and> r = 254" if "m = 43518" using assms(1) that by simp
  then show "m = 43518 \<longleftrightarrow> q = 169 \<and> r = 254" using assms(1) by auto
qed

lemma private_ipv4_bits:
  "session_is_private_ipv4 (ipv4_octet 0 a) (ipv4_octet 1 a) \<longleftrightarrow> private_bits (msb_bits a)"
proof -
  define m where "m = unat a div 65536"
  have "unat a < 2 ^ 32" using unsigned_less [of a] by simp
  then have "m < 65536" unfolding m_def by (simp add: less_mult_imp_div_less)
  then have oct: "ipv4_octet 0 a = m div 256" "ipv4_octet 1 a = m mod 256"
    unfolding ipv4_octet_def m_def
    by (simp_all add: unat_drop_bit_div div_mult2_eq [symmetric])
  have div: "unat a div 16777216 = m div 256" "unat a div 1048576 = m div 16"
    unfolding m_def by (simp_all add: div_mult2_eq [symmetric])
  have "private_bits (msb_bits a) \<longleftrightarrow>
      m div 256 = 10 \<or> m div 256 = 127 \<or> m div 16 = 2753 \<or> m = 49320 \<or> m = 43518"
    by (simp add: private_bits_def private_networks_def msb_bits_prefix_div div m_def [symmetric])
  moreover have "m div 16 = 2753 \<longleftrightarrow> m div 256 = 172 \<and> 16 \<le> m mod 256 \<and> m mod 256 \<le> 31"
    "m = 49320 \<longleftrightarrow> m div 256 = 192 \<and> m mod 256 = 168"
    "m = 43518 \<longleftrightarrow> m div 256 = 169 \<and> m mod 256 = 254"
    using octets_split [of m "m div 256" "m mod 256" "m div 16" "m mod 16"] by simp_all
  ultimately show ?thesis
    by (simp only: session_is_private_ipv4_def oct)
qed

lemma byte_prefix_mask:
  "take 2 (msb_bits (y :: 8 word)) = take 2 (msb_bits (0x80 :: 8 word)) \<longleftrightarrow> y AND 0xC0 = 0x80"
  "take 7 (msb_bits (y :: 8 word)) = take 7 (msb_bits (0xFC :: 8 word)) \<longleftrightarrow> y AND 0xFE = 0xFC"
proof -
  have neg: "(- 64 :: 8 word) = 0xC0" "(- 2 :: 8 word) = 0xFE" by simp_all
  show "take 2 (msb_bits y) = take 2 (msb_bits (0x80 :: 8 word)) \<longleftrightarrow> y AND 0xC0 = 0x80"
    using and_prefix_mask_iff [of 2 y "0x80"] by (simp del: push_bit_minus_one_eq_not_mask add: neg)
  show "take 7 (msb_bits y) = take 7 (msb_bits (0xFC :: 8 word)) \<longleftrightarrow> y AND 0xFE = 0xFC"
    using and_prefix_mask_iff [of 7 y "0xFC"] by (simp del: push_bit_minus_one_eq_not_mask add: neg)
qed

lemma ipv6_bits_Cons: "ipv6_bits (x # xs) = msb_bits x @ ipv6_bits xs"
  by (simp add: ipv6_bits_def)

lemma private_mapped_bits:
  "private_bits (msb_bits (x :: 8 word) @ msb_bits (y :: 8 word) @ rest) \<longleftrightarrow>
   session_is_private_ipv4 (unat x) (unat y)"
proof -
  have nets: "take 8 (msb_bits (0x0A000000 :: ipv4)) = msb_bits (10 :: 8 word)"
    "take 8 (msb_bits (0x7F000000 :: ipv4)) = msb_bits (127 :: 8 word)"
    "take 12 (msb_bits (0xAC100000 :: ipv4)) = msb_bits (172 :: 8 word) @ take 4 (msb_bits (16 :: 8 word))"
    "take 16 (msb_bits (0xC0A80000 :: ipv4)) = msb_bits (192 :: 8 word) @ msb_bits (168 :: 8 word)"
    "take 16 (msb_bits (0xA9FE0000 :: ipv4)) = msb_bits (169 :: 8 word) @ msb_bits (254 :: 8 word)"
    by code_simp+
  have y4: "take 4 (msb_bits y) = take 4 (msb_bits (16 :: 8 word)) \<longleftrightarrow> 16 \<le> unat y \<and> unat y \<le> 31"
    using msb_bits_prefix_div [of 4 y 16] by auto
  show ?thesis
    by (simp add: private_bits_def private_networks_def nets y4 session_is_private_ipv4_def
        word_unat_eq_iff)
qed

lemma ipv6_lan_bits:
  assumes "length a = 16"
  shows "in6_is_linklocal a \<longleftrightarrow> take 10 (ipv6_bits a) = take 10 (ipv6_bits [0xFE, 0x80])"
    and "a ! 0 AND 0xFE = 0xFC \<longleftrightarrow> take 7 (ipv6_bits a) = take 7 (ipv6_bits [0xFC])"
    and "session_is_private_ipv4 (unat (a ! 12)) (unat (a ! 13)) \<longleftrightarrow> private_bits (drop 96 (ipv6_bits a))"
proof -
  obtain a0 a1 as where a: "a = a0 # a1 # as"
    using assms by (cases a; cases "tl a") auto
  show "in6_is_linklocal a \<longleftrightarrow> take 10 (ipv6_bits a) = take 10 (ipv6_bits [0xFE, 0x80])"
    by (simp add: a in6_is_linklocal_def ipv6_bits_Cons byte_prefix_mask [symmetric])
  show "a ! 0 AND 0xFE = 0xFC \<longleftrightarrow> take 7 (ipv6_bits a) = take 7 (ipv6_bits [0xFC])"
    by (simp add: a ipv6_bits_Cons byte_prefix_mask [symmetric])
  have "drop 12 a = a ! 12 # a ! 13 # drop 14 a"
    using assms Cons_nth_drop_Suc [of 12 a] Cons_nth_drop_Suc [of 13 a] by simp
  then have split: "a = take 12 a @ a ! 12 # a ! 13 # drop 14 a"
    by (metis append_take_drop_id)
  have "length (ipv6_bits (take 12 a)) = 96"
    using assms by (simp add: ipv6_bits_def length_concat o_def sum_list_triv)
  then have "drop 96 (ipv6_bits a) = msb_bits (a ! 12) @ msb_bits (a ! 13) @ ipv6_bits (drop 14 a)"
    by (subst split) (simp add: ipv6_bits_def)
  then show "session_is_private_ipv4 (unat (a ! 12)) (unat (a ! 13)) \<longleftrightarrow>
      private_bits (drop 96 (ipv6_bits a))"
    by (simp add: private_mapped_bits)
qed

text \<open>
  A client counts as local exactly when its address lies in a private network: for
  IPv4 when its leading bits are those of 10/8, 127/8, 172.16/12, 192.168/16 or
  169.254/16; for IPv6 when it is the loopback address, lies in fe80::/10 or fc00::/7, or
  is a mapped IPv4 address whose last 32 bits lie in one of the IPv4 networks.
\<close>

theorem lan_client_private_ranges:
  assumes "ip \<noteq> []" "\<And>t a. pton6 t = Some a \<Longrightarrow> length a = 16"
  shows "session_is_lan_client pton4 pton6 ip \<longleftrightarrow>
    (case pton4 ip of
       Some a \<Rightarrow> private_bits (msb_bits a)
     | None \<Rightarrow>
        (case pton6 ip of
           None \<Rightarrow> False
         | Some a \<Rightarrow>
             a = replicate 15 0 @ [1] \<or>
             take 10 (ipv6_bits a) = take 10 (ipv6_bits [0xFE, 0x80]) \<or>
             take 7 (ipv6_bits a) = take 7 (ipv6_bits [0xFC]) \<or>
             (take 12 a = replicate 10 0 @ [0xFF, 0xFF] \<and> private_bits (drop 96 (ipv6_bits a)))))"
proof -
  have "a ! 0 AND 0xFE \<noteq> 0xFC" if "in6_is_v4mapped a" for a
  proof -
    have "a ! 0 = take 12 a ! 0" by simp
    with that show ?thesis by (simp add: in6_is_v4mapped_def nth_append)
  qed
  note mapped = this
  show ?thesis
  proof (cases "pton4 ip")
    case (Some a)
    with assms(1) show ?thesis
      using private_ipv4_bits [of a] by (simp add: session_is_lan_client_def)
  next
    case None
    then show ?thesis
    proof (cases "pton6 ip")
      case (Some a)
      with None assms(1) ipv6_lan_bits [OF assms(2) [OF Some]] mapped [of a] show ?thesis
        by (auto simp: session_is_lan_client_def in6_is_loopback_def in6_is_v4mapped_def)
    qed (simp add: session_is_lan_client_def)
  qed
qed

theorem lan_client_private_ranges_witness:
  "session_is_lan_client (\<lambda>t. if t = ''172.20.0.9'' then Some 0xAC140009 else None) (\<lambda>t. None)
     ''172.20.0.9'' \<longleftrightarrow> private_bits (msb_bits (0xAC140009 :: ipv4))"
  using lan_client_private_ranges [of "''172.20.0.9''" "\<lambda>t. None"
      "\<lambda>t. if t = ''172.20.0.9'' then Some 0xAC140009 else None"]
  by simp

section \<open>The configured operators\<close>

lemma first_index_update_same:
  assumes "first_index P xs = Some i" "P x"
  shows "first_index P (xs[i := x]) = Some i"
  using assms by (auto simp: first_index_Some nth_list_update)

text \<open>The invariant of the list while it is loaded.\<close>

definition lan_ops_ok :: "lan_operator_credential list \<Rightarrow> bool" where
  "lan_ops_ok ops \<longleftrightarrow>
     length ops \<le> MAX_LAN_OPERATORS \<and>
     list_all (\<lambda>c. lan_active c \<and> lan_nickname c \<noteq> [] \<and> lan_password c \<noteq> [] \<and>
       length (lan_nickname c) < LAN_NAME_LEN) ops \<and>
     distinct (map (\<lambda>c. map c_tolower (lan_nickname c)) ops)"

definition lan_lookup :: "lan_operator_credential list \<Rightarrow> cstr \<Rightarrow> lan_operator_credential option" where
  "lan_lookup ops u = map_option (\<lambda>i. ops ! i) (host_find_lan_operator_credential ops u)"

lemma lan_lookup_find:
  assumes "lan_ops_ok ops" "u \<noteq> []"
  shows "lan_lookup ops u = find (\<lambda>c. strcasecmp_eq (lan_nickname c) u) ops"
proof -
  have "first_index (lan_entry_names u) ops = first_index (\<lambda>c. strcasecmp_eq (lan_nickname c) u) ops"
    using assms(1) by (auto simp: lan_ops_ok_def list_all_iff lan_entry_names_def intro: first_index_cong)
  with assms show ?thesis
    by (simp add: lan_lookup_def host_find_lan_operator_credential_def lan_ops_ok_def first_index_find)
qed

lemma lan_find_Some:
  assumes "lan_ops_ok ops" "host_find_lan_operator_credential ops u = Some i"
  shows "i < length ops" "strcasecmp_eq (lan_nickname (ops ! i)) u" "u \<noteq> []"
  using assms
  by (auto simp: host_find_lan_operator_credential_def lan_ops_ok_def first_index_Some
      lan_entry_names_def split: if_splits)

lemma lan_find_None:
  assumes "lan_ops_ok ops" "u \<noteq> []"
  shows "host_find_lan_operator_credential ops u = None \<longleftrightarrow>
     (\<forall>c\<in>set ops. \<not> strcasecmp_eq (lan_nickname c) u)"
  using assms
  by (auto simp: host_find_lan_operator_credential_def lan_ops_ok_def first_index_None
      lan_entry_names_def list_all_iff)

abbreviation lan_key :: "lan_operator_credential \<Rightarrow> cstr" where
  "lan_key c \<equiv> map c_tolower (lan_nickname c)"

lemma lan_lookup_key:
  assumes "lan_ops_ok ops" "u \<noteq> []"
  shows "lan_lookup ops u = find (\<lambda>c. lan_key c = map c_tolower u) ops"
  using lan_lookup_find [OF assms] by (simp add: strcasecmp_eq_def)

definition env_pair_ok :: "cstr option \<times> cstr option \<Rightarrow> bool" where
  "env_pair_ok pair =
     ((case fst pair of None \<Rightarrow> True | Some n \<Rightarrow> length n < LAN_NAME_LEN) \<and>
      (case snd pair of None \<Rightarrow> True | Some p \<Rightarrow> length p < LAN_PASSWORD_LEN))"

text \<open>What one complete pair does to the list.\<close>

lemma lan_load_pair_complete:
  assumes ok: "lan_ops_ok ops" and ne: "n \<noteq> []" "p \<noteq> []"
    and len: "length n < LAN_NAME_LEN" "length p < LAN_PASSWORD_LEN"
    and room: "length ops < MAX_LAN_OPERATORS"
  defines "c \<equiv> \<lparr>lan_active = True, lan_nickname = n, lan_password = p\<rparr>"
  defines "ops' \<equiv> lan_load_pair (Some n, Some p) ops"
  shows "lan_ops_ok ops'" and "length ops' \<le> Suc (length ops)"
    and "u \<noteq> [] \<Longrightarrow> lan_lookup ops' u = (if strcasecmp_eq n u then Some c else lan_lookup ops u)"
proof -
  have c: "lan_credential n p = c" using len by (simp add: lan_credential_def c_def)
  have ck: "lan_key c = map c_tolower n" by (simp add: c_def)
  have dis: "distinct (map lan_key ops)" using ok by (simp add: lan_ops_ok_def)
  have new: "lan_ops_ok ops' \<and> length ops' \<le> Suc (length ops) \<and>
      (\<forall>u. find (\<lambda>c. lan_key c = map c_tolower u) ops' =
        (if map c_tolower u = lan_key c then Some c else find (\<lambda>c. lan_key c = map c_tolower u) ops))"
  proof (cases "host_find_lan_operator_credential ops n")
    case None
    then have "ops' = ops @ [c]" using ne room by (simp add: ops'_def lan_load_pair_def c)
    moreover from None have "lan_key c \<notin> lan_key ` set ops"
      using lan_find_None [OF ok ne(1)] by (auto simp: strcasecmp_eq_def ck)
    moreover have "list_all (\<lambda>c. lan_active c \<and> lan_nickname c \<noteq> [] \<and> lan_password c \<noteq> [] \<and>
       length (lan_nickname c) < LAN_NAME_LEN) [c]" using ne len by (simp add: c_def)
    ultimately show ?thesis using ok room by (simp add: find_key_snoc lan_ops_ok_def)
  next
    case (Some i)
    then have o: "ops' = ops[i := c]" using ne by (simp add: ops'_def lan_load_pair_def c)
    note i = lan_find_Some [OF ok Some]
    have same: "lan_key c = lan_key (ops ! i)" using i(2) by (simp add: strcasecmp_eq_def ck)
    have "lan_ops_ok ops'"
      using ok i(1) same ne len unfolding o lan_ops_ok_def
      by (auto simp: list_all_iff c_def map_update dest: set_update_subset_insert [THEN subsetD])
        (metis list_update_id map_update)
    with find_key_update [OF dis i(1) same] i(1) show ?thesis unfolding o by simp
  qed
  then show "lan_ops_ok ops'" and "length ops' \<le> Suc (length ops)" by auto
  show "lan_lookup ops' u = (if strcasecmp_eq n u then Some c else lan_lookup ops u)" if "u \<noteq> []"
    using new lan_lookup_key [OF ok that] lan_lookup_key [OF _ that, of ops'] ck
    by (auto simp: strcasecmp_eq_def)
qed

lemma lan_load_pair_other:
  "lan_load_pair (Some n, Some p) ops = ops" if "n = [] \<or> p = []"
  using that by (simp add: lan_load_pair_def)

definition complete_pairs :: "(cstr option \<times> cstr option) list \<Rightarrow> (cstr \<times> cstr) list" where
  "complete_pairs prs =
     [(n, p). (Some n, Some p) \<leftarrow> prs, n \<noteq> [] \<and> p \<noteq> []]"

lemma complete_pairs_simps [simp]:
  "complete_pairs [] = []"
  "complete_pairs ((None, q) # prs) = complete_pairs prs"
  "complete_pairs ((q', None) # prs) = complete_pairs prs"
  "complete_pairs ((Some n, Some p) # prs) =
     (if n \<noteq> [] \<and> p \<noteq> [] then (n, p) # complete_pairs prs else complete_pairs prs)"
  by (cases q'; simp add: complete_pairs_def)+

lemma lan_load_run:
  assumes "list_all env_pair_ok prs" "lan_ops_ok ops" "length ops + length prs \<le> MAX_LAN_OPERATORS"
  shows "lan_ops_ok (fold lan_load_pair prs ops) \<and>
    (u \<noteq> [] \<longrightarrow> lan_lookup (fold lan_load_pair prs ops) u =
      (case find (\<lambda>(n, p). strcasecmp_eq n u) (rev (complete_pairs prs)) of
         Some (n, p) \<Rightarrow> Some \<lparr>lan_active = True, lan_nickname = n, lan_password = p\<rparr>
       | None \<Rightarrow> lan_lookup ops u))"
  using assms
proof (induction prs arbitrary: ops)
  case (Cons pr prs)
  show ?case
  proof (cases "\<exists>n p. pr = (Some n, Some p) \<and> n \<noteq> [] \<and> p \<noteq> []")
    case True
    then obtain n p where pr: "pr = (Some n, Some p)" "n \<noteq> []" "p \<noteq> []" by blast
    with Cons.prems have len: "length n < LAN_NAME_LEN" "length p < LAN_PASSWORD_LEN"
      "length ops < MAX_LAN_OPERATORS" by (auto simp: env_pair_ok_def)
    note step = lan_load_pair_complete [OF Cons.prems(2) pr(2,3) len]
    have "length (lan_load_pair pr ops) + length prs \<le> MAX_LAN_OPERATORS"
      using step(2) Cons.prems(3) pr(1) by simp
    with Cons.IH [of "lan_load_pair pr ops"] step(1,3) Cons.prems(1) pr show ?thesis
      by (auto simp: find_append split: option.splits)
  next
    case False
    then have "lan_load_pair pr ops = ops" "complete_pairs (pr # prs) = complete_pairs prs"
      by (cases pr; cases "fst pr"; cases "snd pr"; auto simp: lan_load_pair_def)+
    with Cons show ?thesis by simp
  qed
qed simp

text \<open>
  Loading the operators of the local network from the environment: an operator is
  known under a name, in any capitalisation, exactly when some pair of variables has that
  name and a password, and then with the spelling and the password of the last such pair.
  The list holds every name once and never more than five.
\<close>

theorem lan_operators_loaded:
  assumes "list_all (\<lambda>(nv, pv). env_pair_ok (getenv nv, getenv pv)) LAN_OPERATOR_ENV_PAIRS" "u \<noteq> []"
  shows "lan_ops_ok (host_load_lan_operator_credentials getenv) \<and>
    lan_lookup (host_load_lan_operator_credentials getenv) u =
      map_option (\<lambda>(n, p). \<lparr>lan_active = True, lan_nickname = n, lan_password = p\<rparr>)
        (find (\<lambda>(n, p). strcasecmp_eq n u)
          (rev (complete_pairs (map (\<lambda>(nv, pv). (getenv nv, getenv pv)) LAN_OPERATOR_ENV_PAIRS))))"
proof -
  let ?prs = "map (\<lambda>(nv, pv). (getenv nv, getenv pv)) LAN_OPERATOR_ENV_PAIRS"
  have load: "host_load_lan_operator_credentials getenv = fold lan_load_pair ?prs []"
    by (simp add: host_load_lan_operator_credentials_def LAN_OPERATOR_ENV_PAIRS_def)
  have "list_all env_pair_ok ?prs" using assms(1) by (simp add: list_all_iff split_beta)
  moreover have "lan_ops_ok []" "length [] + length ?prs \<le> MAX_LAN_OPERATORS"
    by (simp_all add: lan_ops_ok_def LAN_OPERATOR_ENV_PAIRS_def MAX_LAN_OPERATORS_def)
  moreover have "lan_lookup [] u = None"
    by (simp add: lan_lookup_def host_find_lan_operator_credential_def)
  ultimately show ?thesis
    using lan_load_run [of ?prs "[]" u] assms(2) unfolding load
    by (auto split: option.splits)
qed

theorem lan_operators_loaded_witness:
  "let getenv = (\<lambda>v. if v = ''ADMIN1'' then Some ''Root'' else if v = ''ADMIN1PW'' then Some ''a''
      else if v = ''ADMIN3'' then Some ''ROOT'' else if v = ''ADMIN3PW'' then Some ''b'' else None) in
   lan_lookup (host_load_lan_operator_credentials getenv) ''root''
     = Some \<lparr>lan_active = True, lan_nickname = ''ROOT'', lan_password = ''b''\<rparr>"
proof -
  let ?g = "\<lambda>v :: cstr. if v = ''ADMIN1'' then Some ''Root'' else if v = ''ADMIN1PW'' then Some ''a''
      else if v = ''ADMIN3'' then Some ''ROOT'' else if v = ''ADMIN3PW'' then Some ''b'' else None"
  have "lan_lookup (host_load_lan_operator_credentials ?g) ''root'' =
      map_option (\<lambda>(n, p). \<lparr>lan_active = True, lan_nickname = n, lan_password = p\<rparr>)
        (find (\<lambda>(n, p). strcasecmp_eq n ''root'')
          (rev (complete_pairs (map (\<lambda>(nv, pv). (?g nv, ?g pv)) LAN_OPERATOR_ENV_PAIRS))))"
    by (rule lan_operators_loaded [THEN conjunct2])
      (simp_all add: LAN_OPERATOR_ENV_PAIRS_def env_pair_ok_def LAN_NAME_LEN_def LAN_PASSWORD_LEN_def)
  moreover have "strcasecmp_eq ''ROOT'' ''root''" by code_simp
  ultimately show ?thesis by (simp add: LAN_OPERATOR_ENV_PAIRS_def)
qed

section \<open>Authentication of operators\<close>

lemma lan_name_self:
  assumes "lan_ops_ok ops" "c \<in> set ops"
  shows "host_is_lan_operator_username ops (lan_nickname c)"
proof -
  have "lan_nickname c \<noteq> []" using assms by (auto simp: lan_ops_ok_def list_all_iff)
  with lan_find_None [OF assms(1) this] assms(2) show ?thesis
    by (auto simp: host_is_lan_operator_username_def)
qed

text \<open>What a session that was let in may be: either its name belongs to no operator and it
  has no credentials, or it sent the password of an operator from a private address and
  carries his name.\<close>

definition lan_entitled ::
  "(cstr \<Rightarrow> ipv4 option) \<Rightarrow> (cstr \<Rightarrow> ipv6 option) \<Rightarrow> lan_operator_credential list \<Rightarrow>
   auth_message list \<Rightarrow> lan_session \<Rightarrow> bool" where
  "lan_entitled pton4 pton6 ops ms s \<longleftrightarrow>
     session_is_lan_client pton4 pton6 (ls_ip s) \<and>
     (\<exists>c\<in>set ops. lan_nickname c = ls_name s \<and>
        (\<exists>user. AuthRequest user True (Some (lan_password c)) \<in> set ms))"

lemma auth_request_cases:
  assumes "lan_ops_ok ops" "\<not> lan_operator_credentials_valid s"
    and "auth_request pton4 pton6 password_set verify ops user by_password password s = (r, s')"
  shows "ls_ip s' = ls_ip s"
    and "\<not> r \<Longrightarrow> \<not> lan_operator_credentials_valid s'"
    and "r \<Longrightarrow> host_is_lan_operator_username ops (ls_name s') = lan_operator_credentials_valid s'"
    and "r \<Longrightarrow> lan_operator_credentials_valid s' \<Longrightarrow>
      lan_entitled pton4 pton6 ops [AuthRequest user by_password password] s'"
proof -
  let ?n = "auth_username user (ls_name s)"
  have "ls_ip s' = ls_ip s \<and> (\<not> r \<longrightarrow> \<not> lan_operator_credentials_valid s') \<and>
     (r \<longrightarrow> host_is_lan_operator_username ops (ls_name s') = lan_operator_credentials_valid s' \<and>
       (lan_operator_credentials_valid s' \<longrightarrow>
          lan_entitled pton4 pton6 ops [AuthRequest user by_password password] s'))"
  proof (cases "host_find_lan_operator_credential ops ?n")
    case None
    then have "\<not> host_is_lan_operator_username ops ?n" by (simp add: host_is_lan_operator_username_def)
    with assms(2,3) None show ?thesis
      by (auto simp: auth_request_def Let_def split: if_splits option.splits)
  next
    case (Some i)
    note i = lan_find_Some [OF assms(1) Some]
    then have mem: "ops ! i \<in> set ops" by simp
    then have "length (lan_nickname (ops ! i)) < LAN_NAME_LEN"
      using assms(1) by (auto simp: lan_ops_ok_def list_all_iff)
    with assms(2,3) Some mem lan_name_self [OF assms(1) mem] show ?thesis
      by (auto simp: auth_request_def Let_def lan_entitled_def split: if_splits)
  qed
  then show "ls_ip s' = ls_ip s" "\<not> r \<Longrightarrow> \<not> lan_operator_credentials_valid s'"
    "r \<Longrightarrow> host_is_lan_operator_username ops (ls_name s') = lan_operator_credentials_valid s'"
    "r \<Longrightarrow> lan_operator_credentials_valid s' \<Longrightarrow>
      lan_entitled pton4 pton6 ops [AuthRequest user by_password password] s'"
    by auto
qed

lemma auth_loop_sound:
  assumes "lan_ops_ok ops" "\<not> lan_operator_credentials_valid s"
    and "auth_loop pton4 pton6 password_set verify ops ms s = (True, s')"
  shows "ls_ip s' = ls_ip s \<and>
    host_is_lan_operator_username ops (ls_name s') = lan_operator_credentials_valid s' \<and>
    (lan_operator_credentials_valid s' \<longrightarrow> lan_entitled pton4 pton6 ops ms s')"
  using assms
proof (induction ms arbitrary: s)
  case (Cons m ms)
  have mono: "lan_entitled pton4 pton6 ops (m # ms) s'" if "lan_entitled pton4 pton6 ops ms' s'"
    "set ms' \<subseteq> set (m # ms)" for ms'
    using that unfolding lan_entitled_def by blast
  show ?case
  proof (cases m)
    case OtherMessage
    with Cons mono [of ms] show ?thesis by auto
  next
    case (AuthRequest user by_password password)
    obtain r s1 where req: "auth_request pton4 pton6 password_set verify ops user by_password password s = (r, s1)"
      by (metis surj_pair)
    note one = auth_request_cases [OF Cons.prems(1,2) req]
    show ?thesis
    proof (cases r)
      case True
      with Cons.prems(3) AuthRequest req have "s' = s1" by simp
      with one True AuthRequest mono [of "[m]"] show ?thesis by auto
    next
      case False
      with Cons.prems(3) AuthRequest req have "auth_loop pton4 pton6 password_set verify ops ms s1 = (True, s')"
        by simp
      with Cons.IH [OF Cons.prems(1) one(2)] False one(1) mono [of ms] show ?thesis by auto
    qed
  qed
qed simp

text \<open>
  C7: Nobody passes as an operator of the local network.  Whatever messages a client sends,
  a session that is authenticated and given its privileges is an operator of the local
  network exactly when its name is that of a configured operator, in any capitalisation;
  and then its address is private and it sent the operator's password.
\<close>

theorem lan_login_exact:
  assumes "lan_ops_ok ops"
    and "session_authenticate pton4 pton6 password_set verify ops ms s = (True, s1)"
  defines "s2 \<equiv> session_assign_lan_privileges pton4 pton6 ops s1"
  shows "(is_lan_operator s2 \<longleftrightarrow> host_is_lan_operator_username ops (ls_name s2)) \<and>
    (is_lan_operator s2 \<longrightarrow> lan_entitled pton4 pton6 ops ms s2)"
proof -
  have "host_is_lan_operator_username ops (ls_name s1) = lan_operator_credentials_valid s1 \<and>
    (lan_operator_credentials_valid s1 \<longrightarrow> lan_entitled pton4 pton6 ops ms s1)"
    using auth_loop_sound [OF assms(1) _ assms(2) [unfolded session_authenticate_def]] by simp
  moreover from this have "lan_operator_credentials_valid s1 \<Longrightarrow> session_is_lan_client pton4 pton6 (ls_ip s1)"
    by (simp add: lan_entitled_def)
  ultimately show ?thesis
    by (auto simp: s2_def session_assign_lan_privileges_def lan_entitled_def)
qed

theorem lan_login_exact_witness:
  "let pton4 = (\<lambda>t. if t = ''10.0.0.2'' then Some 0x0A000002 else None);
       ops = [\<lparr>lan_active = True, lan_nickname = ''Boss'', lan_password = ''pw''\<rparr>];
       s = \<lparr>ls_name = [], ls_ip = ''10.0.0.2'', lan_operator_credentials_valid = False,
            authenticated_via_ssh_password = False, is_operator = False, is_lan_operator = False\<rparr>;
       s1 = snd (session_authenticate pton4 (\<lambda>t. None) (\<lambda>_ _. False) (\<lambda>_ _ _. False) ops
              [AuthRequest (Some ''boss'') False None, AuthRequest (Some ''boss'') True (Some ''pw'')] s) in
   is_lan_operator (session_assign_lan_privileges pton4 (\<lambda>t. None) ops s1)
     \<longleftrightarrow> host_is_lan_operator_username ops
           (ls_name (session_assign_lan_privileges pton4 (\<lambda>t. None) ops s1))"
proof -
  let ?pton4 = "\<lambda>t :: cstr. if t = ''10.0.0.2'' then Some (0x0A000002 :: ipv4) else None"
  let ?ops = "[\<lparr>lan_active = True, lan_nickname = ''Boss'', lan_password = ''pw''\<rparr>]"
  let ?s = "\<lparr>ls_name = [], ls_ip = ''10.0.0.2'', lan_operator_credentials_valid = False,
            authenticated_via_ssh_password = False, is_operator = False, is_lan_operator = False\<rparr>"
  let ?ms = "[AuthRequest (Some ''boss'') False None, AuthRequest (Some ''boss'') True (Some ''pw'')]"
  let ?out = "session_authenticate ?pton4 (\<lambda>t. None) (\<lambda>_ _. False) (\<lambda>_ _ _. False) ?ops ?ms ?s"
  have ok: "lan_ops_ok ?ops" by (simp add: lan_ops_ok_def MAX_LAN_OPERATORS_def LAN_NAME_LEN_def)
  have "fst ?out" by code_simp
  then have "?out = (True, snd ?out)" by (simp add: prod_eq_iff)
  from lan_login_exact [OF ok this] show ?thesis by (simp add: Let_def)
qed

section \<open>Names\<close>

lemma ansi_loop_Nil [simp]: "ansi_loop cap out [] = out"
  by (simp add: ansi_loop.simps)

lemma ansi_loop_Cons:
  "c \<noteq> ESC \<Longrightarrow> ansi_loop cap out (c # s) =
     ansi_loop cap (if (c_iscntrl c \<and> c \<noteq> CHR 0x09) \<or> \<not> length out + 1 < cap then out else out @ [c]) s"
  by (simp add: ansi_loop.simps [of cap out "c # s"])

text \<open>An escape leads to a shorter rest, with the same output.\<close>

lemma ansi_loop_ESC:
  obtains t where "length t \<le> length s" "\<And>cap out. ansi_loop cap out (ESC # s) = ansi_loop cap out t"
proof (cases s)
  case Nil
  have "ansi_loop cap out (ESC # s) = ansi_loop cap out []" for cap out
    by (simp add: Nil ansi_loop.simps [of cap out "[ESC]"])
  then show thesis using that [of "[]"] by simp
next
  case (Cons d t)
  define r where "r = (if d = CHR ''['' then csi_rest t else if d = CHR '']'' then osc_rest t else s)"
  have "ansi_loop cap out (ESC # s) = ansi_loop cap out r" for cap out
    by (simp add: Cons r_def ansi_loop.simps [of cap out "ESC # d # t"])
  moreover have "length r \<le> length s"
    using length_csi_rest [of t] length_osc_rest [of t] by (simp add: r_def Cons)
  ultimately show thesis using that by blast
qed

lemma ansi_loop_clean:
  "list_all (\<lambda>c. c = CHR 0x09 \<or> \<not> c_iscntrl c) out \<Longrightarrow>
   list_all (\<lambda>c. c = CHR 0x09 \<or> \<not> c_iscntrl c) (ansi_loop cap out s) \<and>
   (length out < cap \<longrightarrow> length (ansi_loop cap out s) < cap)"
proof (induction s arbitrary: out rule: length_induct)
  case (1 s)
  show ?case
  proof (cases s)
    case (Cons c s')
    show ?thesis
    proof (cases "c = ESC")
      case True
      obtain t where t: "length t \<le> length s'" "\<And>cap out. ansi_loop cap out (ESC # s') = ansi_loop cap out t"
        using ansi_loop_ESC by blast
      with 1 Cons True show ?thesis by simp
    next
      case False
      define out' where "out' = (if (c_iscntrl c \<and> c \<noteq> CHR 0x09) \<or> \<not> length out + 1 < cap then out else out @ [c])"
      then have "list_all (\<lambda>c. c = CHR 0x09 \<or> \<not> c_iscntrl c) out'" "length out < cap \<Longrightarrow> length out' < cap"
        using 1(2) by auto
      moreover have "ansi_loop cap out s = ansi_loop cap out' s'"
        unfolding Cons out'_def by (rule ansi_loop_Cons [OF False])
      ultimately show ?thesis using 1(1) Cons by auto
    qed
  qed (use 1 in simp)
qed

text \<open>
  The name of a session holds no control character and no escape sequence, unless it
  consists of nothing else: a user name that leaves something when it is stripped
  becomes that rest, which holds no control character but the tabulator and fits its
  buffer; one of which nothing is left is taken over with its escape sequences, cut to
  the size of the buffer.
\<close>

theorem auth_username_stripped:
  assumes "u \<noteq> []"
  shows "auth_username (Some u) current =
      (if ansi_loop LAN_NAME_LEN [] u = [] then take (LAN_NAME_LEN - 1) u
       else ansi_loop LAN_NAME_LEN [] u) \<and>
    list_all (\<lambda>c. c = CHR 0x09 \<or> \<not> c_iscntrl c) (ansi_loop LAN_NAME_LEN [] u) \<and>
    length (auth_username (Some u) current) < LAN_NAME_LEN"
  using assms ansi_loop_clean [of "[]" LAN_NAME_LEN u]
  by (auto simp: auth_username_def user_data_strip_ansi_sequences_def LAN_NAME_LEN_def)

theorem auth_username_stripped_witness:
  "auth_username (Some [ESC, CHR ''['', CHR ''2'', CHR ''J'']) ''old''
     = [ESC, CHR ''['', CHR ''2'', CHR ''J'']"
proof -
  let ?u = "[ESC, CHR ''['', CHR ''2'', CHR ''J'']"
  have "ansi_loop LAN_NAME_LEN [] ?u = []" by code_simp
  with auth_username_stripped [of ?u "''old''"] show ?thesis by (simp add: LAN_NAME_LEN_def)
qed

end
