(* ===== verification/Nick_Claims.thy ===== *)
theory Nick_Claims
  imports Interfaces
begin

text \<open>
  The claims on nicknames (\<^verbatim>\<open>src/host/runtime/display_handlers.c\<close>): a registered user claims
  his name with the hash of his password, and another session may take the name only if
  it proves the same password, from the same address where the claim is bound to one.
  The claims are an array of pointers into an object pool, kept without holes; here it is
  the list of the claims, and the success of the pool is the parameter \<open>pool_ok\<close>.  The
  file behind the claims is not part of the state.
\<close>

type_synonym claim_bytes = "8 word list"

record nickname_claim =
  claim_nickname :: cstr
  claim_owner_ip :: cstr
  claim_salt :: claim_bytes
  claim_hash :: claim_bytes
  owner_session_id :: nat
  claim_ip_wide :: bool
  claim_fixnick :: bool

text \<open>What the operations read of a session.\<close>

record claim_session =
  cs_session_id :: nat
  cs_ip :: cstr
  cs_user_data_loaded :: bool
  cs_password_hash :: claim_bytes

definition MAX_NICKNAME_CLAIMS :: nat where
  "MAX_NICKNAME_CLAIMS = 1024"

definition CLAIM_NAME_LEN :: nat where
  "CLAIM_NAME_LEN = 256"

definition CLAIM_IP_LEN :: nat where
  "CLAIM_IP_LEN = 64"

definition security_layer_is_zero_hash :: "claim_bytes \<Rightarrow> bool" where
  "security_layer_is_zero_hash hash \<longleftrightarrow> list_all (\<lambda>b. b = 0) hash"

section \<open>Operations\<close>

definition host_nickname_claim_find_locked :: "nickname_claim list \<Rightarrow> cstr \<Rightarrow> nat option" where
  "host_nickname_claim_find_locked claims nick =
     (if nick = [] then None
      else first_index (\<lambda>c. strcasecmp_eq (claim_nickname c) nick) claims)"

definition find_reserved_names :: "nickname_claim list \<Rightarrow> cstr \<Rightarrow> bool" where
  "find_reserved_names claims nick \<longleftrightarrow>
     nick \<noteq> [] \<and> list_ex (\<lambda>c. strcasecmp_eq nick (claim_nickname c)) claims"

definition host_nickname_claim_can_use ::
  "nickname_claim list \<Rightarrow> claim_session \<Rightarrow> cstr \<Rightarrow> bool" where
  "host_nickname_claim_can_use claims ctx nick =
     (if nick = [] then True
      else case host_nickname_claim_find_locked claims nick of
        None \<Rightarrow> True
      | Some i \<Rightarrow>
          let claim = claims ! i
          in if owner_session_id claim = cs_session_id ctx then True
             else if cs_user_data_loaded ctx \<and> \<not> security_layer_is_zero_hash (cs_password_hash ctx) \<and>
                     cs_password_hash ctx = claim_hash claim
             then \<not> claim_ip_wide claim \<or> strncmp_eq CLAIM_IP_LEN (cs_ip ctx) (claim_owner_ip claim)
             else False)"

definition new_claim ::
  "claim_session option \<Rightarrow> cstr \<Rightarrow> claim_bytes \<Rightarrow> claim_bytes \<Rightarrow> bool \<Rightarrow> bool \<Rightarrow> nickname_claim" where
  "new_claim ctx nick salt hash ip_wide fixnick =
     \<lparr>claim_nickname = snprintf_into CLAIM_NAME_LEN nick,
      claim_owner_ip = (case ctx of None \<Rightarrow> [] | Some s \<Rightarrow> snprintf_into CLAIM_IP_LEN (cs_ip s)),
      claim_salt = salt, claim_hash = hash,
      owner_session_id = (case ctx of None \<Rightarrow> 0 | Some s \<Rightarrow> cs_session_id s),
      claim_ip_wide = ip_wide, claim_fixnick = fixnick\<rparr>"

text \<open>An existing claim is overwritten in every field, a missing one is appended.\<close>

definition host_nickname_claim_upsert ::
  "bool \<Rightarrow> claim_session option \<Rightarrow> cstr \<Rightarrow> claim_bytes \<Rightarrow> claim_bytes \<Rightarrow> bool \<Rightarrow> bool \<Rightarrow>
   nickname_claim list \<Rightarrow> bool \<times> nickname_claim list" where
  "host_nickname_claim_upsert pool_ok ctx nick salt hash ip_wide fixnick claims =
     (if nick = [] then (False, claims)
      else
        let claim = new_claim ctx nick salt hash ip_wide fixnick
        in case host_nickname_claim_find_locked claims nick of
             Some i \<Rightarrow> (True, claims[i := claim])
           | None \<Rightarrow>
               if length claims < MAX_NICKNAME_CLAIMS \<and> pool_ok then (True, claims @ [claim])
               else (False, claims))"

definition host_nickname_claim_remove :: "cstr \<Rightarrow> nickname_claim list \<Rightarrow> nickname_claim list" where
  "host_nickname_claim_remove nick claims =
     (if nick = [] then claims
      else case host_nickname_claim_find_locked claims nick of
        None \<Rightarrow> claims
      | Some i \<Rightarrow> take i claims @ drop (Suc i) claims)"

definition claim_released :: "claim_session \<Rightarrow> cstr option \<Rightarrow> nickname_claim \<Rightarrow> bool" where
  "claim_released ctx nick claim \<longleftrightarrow>
     (case nick of None \<Rightarrow> True | Some n \<Rightarrow> n = [] \<or> strcasecmp_eq (claim_nickname claim) n) \<and>
     owner_session_id claim = cs_session_id ctx"

text \<open>The loop: a released claim is closed over by the later ones and the index stays.\<close>

function release_loop ::
  "claim_session \<Rightarrow> cstr option \<Rightarrow> nat \<Rightarrow> nickname_claim list \<Rightarrow> nickname_claim list" where
  "release_loop ctx nick idx claims =
     (if idx < length claims
      then if claim_released ctx nick (claims ! idx)
           then release_loop ctx nick idx (take idx claims @ drop (Suc idx) claims)
           else release_loop ctx nick (Suc idx) claims
      else claims)"
  by pat_completeness auto
termination
  by (relation "measure (\<lambda>(ctx, nick, idx, claims). length claims - idx)") auto

declare release_loop.simps [simp del]

definition host_nickname_claim_release ::
  "claim_session \<Rightarrow> cstr option \<Rightarrow> nickname_claim list \<Rightarrow> nickname_claim list" where
  "host_nickname_claim_release ctx nick claims = release_loop ctx nick 0 claims"

text \<open>The claims of a file with a valid header; reading stops where the table is full.\<close>

fun claims_load :: "(nickname_claim option \<times> bool) list \<Rightarrow> nickname_claim list \<Rightarrow> nickname_claim list" where
  "claims_load [] claims = claims"
| "claims_load ((r, pool_ok) # rs) claims =
     (if length claims \<ge> MAX_NICKNAME_CLAIMS then claims
      else claims_load rs (case r of
             Some c \<Rightarrow> if pool_ok then claims @ [c] else claims
           | None \<Rightarrow> claims))"

text \<open>The header is the magic number and the version; \<open>None\<close> where it cannot be read.\<close>

definition host_nickname_claims_load ::
  "(nat \<times> nat) option \<Rightarrow> (nickname_claim option \<times> bool) list \<Rightarrow> nickname_claim list \<Rightarrow> nickname_claim list" where
  "host_nickname_claims_load header records claims =
     (case header of
        None \<Rightarrow> claims
      | Some (magic, version) \<Rightarrow>
          if magic \<noteq> 0x4e434c4d \<or> version \<noteq> 1 then claims else claims_load records [])"

section \<open>Releasing\<close>

lemma release_loop_filter:
  "idx \<le> length claims \<Longrightarrow>
   release_loop ctx nick idx claims =
     take idx claims @ filter (\<lambda>c. \<not> claim_released ctx nick c) (drop idx claims)"
proof (induction ctx nick idx claims rule: release_loop.induct)
  case (1 ctx nick idx claims)
  show ?case
  proof (cases "idx < length claims")
    case True
    then have d: "drop idx claims = claims ! idx # drop (Suc idx) claims"
      by (simp add: Cons_nth_drop_Suc)
    show ?thesis
    proof (cases "claim_released ctx nick (claims ! idx)")
      case rel: True
      with 1(1) [OF True rel] True show ?thesis
        by (simp add: release_loop.simps [of ctx nick idx claims] d)
    next
      case False
      with 1(2) [OF True False] True show ?thesis
        by (simp add: release_loop.simps [of ctx nick idx claims] d take_Suc_conv_app_nth)
    qed
  next
    case False
    with 1(3) have "idx = length claims" by simp
    then show ?thesis by (simp add: release_loop.simps)
  qed
qed

lemma claim_release_filter:
  "host_nickname_claim_release ctx nick claims = filter (\<lambda>c. \<not> claim_released ctx nick c) claims"
  by (simp add: host_nickname_claim_release_def release_loop_filter)

section \<open>One claim per name\<close>

abbreviation claim_key :: "nickname_claim \<Rightarrow> cstr" where
  "claim_key c \<equiv> map c_tolower (claim_nickname c)"

definition claims_ok :: "nickname_claim list \<Rightarrow> bool" where
  "claims_ok claims \<longleftrightarrow>
     length claims \<le> MAX_NICKNAME_CLAIMS \<and>
     list_all (\<lambda>c. claim_nickname c \<noteq> [] \<and> length (claim_nickname c) < CLAIM_NAME_LEN) claims \<and>
     distinct (map claim_key claims)"

definition claim_lookup :: "nickname_claim list \<Rightarrow> cstr \<Rightarrow> nickname_claim option" where
  "claim_lookup claims nick = find (\<lambda>c. claim_key c = map c_tolower nick) claims"

datatype claim_event =
    ClaimUpsert bool "claim_session option" cstr claim_bytes claim_bytes bool bool
  | ClaimRemove cstr
  | ClaimRelease claim_session "cstr option"

definition claim_step :: "claim_event \<Rightarrow> nickname_claim list \<Rightarrow> nickname_claim list" where
  "claim_step ev claims =
     (case ev of
        ClaimUpsert p ctx n s h w f \<Rightarrow> snd (host_nickname_claim_upsert p ctx n s h w f claims)
      | ClaimRemove n \<Rightarrow> host_nickname_claim_remove n claims
      | ClaimRelease ctx n \<Rightarrow> host_nickname_claim_release ctx n claims)"

definition claim_event_ok :: "claim_event \<Rightarrow> bool" where
  "claim_event_ok ev =
     (case ev of ClaimUpsert p ctx n s h w f \<Rightarrow> length n < CLAIM_NAME_LEN | _ \<Rightarrow> True)"

lemma claim_find_key:
  "host_nickname_claim_find_locked claims nick =
     (if nick = [] then None else first_index (\<lambda>c. claim_key c = map c_tolower nick) claims)"
  by (simp add: host_nickname_claim_find_locked_def strcasecmp_eq_def)

lemma claim_find_lookup:
  "nick \<noteq> [] \<Longrightarrow>
   map_option (\<lambda>i. claims ! i) (host_nickname_claim_find_locked claims nick) = claim_lookup claims nick"
  by (simp add: claim_find_key claim_lookup_def first_index_find)

lemma claim_remove_filter:
  assumes "distinct (map claim_key claims)" "nick \<noteq> []"
  shows "host_nickname_claim_remove nick claims =
     filter (\<lambda>c. claim_key c \<noteq> map c_tolower nick) claims"
proof (cases "host_nickname_claim_find_locked claims nick")
  case None
  with assms(2) have "\<forall>c\<in>set claims. claim_key c \<noteq> map c_tolower nick"
    by (simp add: claim_find_key first_index_None)
  with None assms(2) show ?thesis by (simp add: host_nickname_claim_remove_def filter_id_conv)
next
  case (Some i)
  with assms(2) have i: "i < length claims" "claim_key (claims ! i) = map c_tolower nick"
    by (auto simp: claim_find_key first_index_Some)
  with Some assms(2) remove_key_filter [OF assms(1) i(1)] show ?thesis
    by (simp add: host_nickname_claim_remove_def)
qed

lemma claims_ok_filter: "claims_ok claims \<Longrightarrow> claims_ok (filter P claims)"
  unfolding claims_ok_def list_all_iff
  by (auto intro: le_trans [OF length_filter_le] distinct_map_filter)

lemma claim_upsert_cases:
  assumes "claims_ok claims" "length nick < CLAIM_NAME_LEN"
    and "host_nickname_claim_upsert pool_ok ctx nick salt hash ip_wide fixnick claims = (r, claims')"
  defines "c \<equiv> new_claim ctx nick salt hash ip_wide fixnick"
  shows "claims_ok claims'"
    and "r \<Longrightarrow> claim_lookup claims' n = (if strcasecmp_eq nick n then Some c else claim_lookup claims n)"
    and "\<not> r \<Longrightarrow> claims' = claims"
    and "r \<longleftrightarrow> nick \<noteq> [] \<and> (claim_lookup claims nick \<noteq> None \<or> length claims < MAX_NICKNAME_CLAIMS \<and> pool_ok)"
proof -
  have ck: "claim_key c = map c_tolower nick" "claim_nickname c = nick"
    using assms(2) by (simp_all add: c_def new_claim_def)
  have dis: "distinct (map claim_key claims)" using assms(1) by (simp add: claims_ok_def)
  have "claims_ok claims' \<and>
     (r \<longrightarrow> claim_lookup claims' n = (if strcasecmp_eq nick n then Some c else claim_lookup claims n)) \<and>
     (\<not> r \<longrightarrow> claims' = claims) \<and>
     (r \<longleftrightarrow> nick \<noteq> [] \<and> (claim_lookup claims nick \<noteq> None \<or> length claims < MAX_NICKNAME_CLAIMS \<and> pool_ok))"
  proof (cases "nick = []")
    case True
    with assms show ?thesis by (simp add: host_nickname_claim_upsert_def)
  next
    case ne: False
    show ?thesis
    proof (cases "host_nickname_claim_find_locked claims nick")
      case None
      then have fresh: "claim_key c \<notin> claim_key ` set claims" "claim_lookup claims nick = None"
        using ne claim_find_lookup [OF ne, of claims]
        by (auto simp: ck) (auto simp: claim_find_key first_index_None)
      with assms(1-3) None ne ck find_key_snoc [OF fresh(1), of "map c_tolower n"] show ?thesis
        by (auto simp: host_nickname_claim_upsert_def c_def [symmetric] claims_ok_def claim_lookup_def
            strcasecmp_eq_def split: if_splits)
    next
      case (Some i)
      with ne have i: "i < length claims" "claim_key c = claim_key (claims ! i)"
        by (auto simp: claim_find_key first_index_Some ck)
      have out: "r" "claims' = claims[i := c]"
        using assms(3) Some ne by (auto simp: host_nickname_claim_upsert_def c_def)
      have "claims_ok claims'"
        using assms(1,2) ne i ck unfolding out claims_ok_def
        by (auto simp: list_all_iff map_key_update dest: set_update_subset_insert [THEN subsetD])
      with out Some ne find_key_update [OF dis i, of "map c_tolower n"] ck claim_find_lookup [OF ne, of claims]
      show ?thesis by (auto simp: claim_lookup_def strcasecmp_eq_def)
    qed
  qed
  then show "claims_ok claims'"
    and "r \<Longrightarrow> claim_lookup claims' n = (if strcasecmp_eq nick n then Some c else claim_lookup claims n)"
    and "\<not> r \<Longrightarrow> claims' = claims"
    and "r \<longleftrightarrow> nick \<noteq> [] \<and> (claim_lookup claims nick \<noteq> None \<or> length claims < MAX_NICKNAME_CLAIMS \<and> pool_ok)"
    by blast+
qed

lemma claims_step_ok:
  assumes "claim_event_ok ev" "claims_ok claims"
  shows "claims_ok (claim_step ev claims)"
proof (cases ev)
  case (ClaimUpsert p ctx n s h w f)
  with assms claim_upsert_cases(1) [OF assms(2) _ prod.collapse [symmetric], of n p ctx s h w f] show ?thesis
    by (simp add: claim_step_def claim_event_ok_def)
next
  case (ClaimRemove n)
  with assms(2) claim_remove_filter [of claims n] claims_ok_filter [OF assms(2)] show ?thesis
    by (cases "n = []") (auto simp: claim_step_def claims_ok_def host_nickname_claim_remove_def)
next
  case (ClaimRelease ctx n)
  with assms(2) show ?thesis by (simp add: claim_step_def claim_release_filter claims_ok_filter)
qed

interpretation claim_sys: invariant_system claim_step claim_event_ok claims_ok
  by unfold_locales (rule claims_step_ok)

section \<open>A claim guards its name\<close>

lemma can_use_lookup:
  assumes "nick \<noteq> []"
  shows "host_nickname_claim_can_use claims ctx nick \<longleftrightarrow>
    (case claim_lookup claims nick of
       None \<Rightarrow> True
     | Some c \<Rightarrow>
         owner_session_id c = cs_session_id ctx \<or>
         cs_user_data_loaded ctx \<and> \<not> security_layer_is_zero_hash (cs_password_hash ctx) \<and>
         cs_password_hash ctx = claim_hash c \<and>
         (claim_ip_wide c \<longrightarrow> strncmp_eq CLAIM_IP_LEN (cs_ip ctx) (claim_owner_ip c)))"
  using assms claim_find_lookup [OF assms, of claims, symmetric]
  by (cases "host_nickname_claim_find_locked claims nick")
    (auto simp: host_nickname_claim_can_use_def Let_def)

text \<open>Events that do not concern the claim of a session on a name.\<close>

definition claim_untouched :: "nat \<Rightarrow> cstr \<Rightarrow> claim_event \<Rightarrow> bool" where
  "claim_untouched owner nick ev =
     (case ev of
        ClaimUpsert p ctx n s h w f \<Rightarrow> \<not> strcasecmp_eq n nick
      | ClaimRemove n \<Rightarrow> \<not> strcasecmp_eq n nick
      | ClaimRelease ctx n \<Rightarrow> cs_session_id ctx \<noteq> owner)"

lemma claim_lookup_filter:
  assumes "claims_ok claims" "claim_lookup claims nick = Some c" "P c"
  shows "claim_lookup (filter P claims) nick = Some c"
  using assms find_key_filter [of claim_key claims "map c_tolower nick" P]
  by (simp add: claim_lookup_def claims_ok_def)

lemma claim_lookup_step:
  assumes "claims_ok claims" "claim_event_ok ev" "claim_lookup claims nick = Some c"
    and "claim_untouched (owner_session_id c) nick ev"
  shows "claim_lookup (claim_step ev claims) nick = Some c"
proof (cases ev)
  case (ClaimUpsert p ctx n s h w f)
  obtain r claims' where up: "host_nickname_claim_upsert p ctx n s h w f claims = (r, claims')"
    by (metis surj_pair)
  have "length n < CLAIM_NAME_LEN" "\<not> strcasecmp_eq n nick"
    using assms(2,4) ClaimUpsert by (simp_all add: claim_event_ok_def claim_untouched_def)
  with claim_upsert_cases(2,3) [OF assms(1) _ up] assms(3) have "claim_lookup claims' nick = Some c"
    by (cases r) auto
  then show ?thesis by (simp add: claim_step_def ClaimUpsert up)
next
  case (ClaimRemove n)
  show ?thesis
  proof (cases "n = []")
    case False
    have key: "claim_key c = map c_tolower nick"
      using assms(3) by (auto simp: claim_lookup_def find_Some_iff)
    have "claim_key c \<noteq> map c_tolower n"
      using assms(4) ClaimRemove key by (auto simp: claim_untouched_def strcasecmp_eq_def)
    with claim_lookup_filter [OF assms(1,3)] claim_remove_filter [of claims n] assms(1) False
    show ?thesis by (simp add: claim_step_def ClaimRemove claims_ok_def)
  qed (use assms(3) in \<open>simp add: claim_step_def ClaimRemove host_nickname_claim_remove_def\<close>)
next
  case (ClaimRelease ctx n)
  then have "\<not> claim_released ctx n c"
    using assms(4) by (auto simp: claim_untouched_def claim_released_def)
  with claim_lookup_filter [OF assms(1,3)] show ?thesis
    by (simp add: claim_step_def ClaimRelease claim_release_filter)
qed

lemma claim_lookup_run:
  "\<lbrakk>claims_ok claims; list_all claim_event_ok evs; claim_lookup claims nick = Some c;
    list_all (claim_untouched (owner_session_id c) nick) evs\<rbrakk> \<Longrightarrow>
   claim_lookup (fold claim_step evs claims) nick = Some c"
  by (induction evs arbitrary: claims) (auto simp: claim_lookup_step claims_step_ok)

text \<open>
  C8: A claimed nickname is guarded.  After a session has claimed a name, and whatever
  other claims are made, removed and released meanwhile, as long as the claim itself is
  not renewed, removed or released, another session may use the name, in any
  capitalisation, exactly when its account has a password with the hash of the claim and,
  where the claim is bound to an address, it comes from that address.  The table holds
  one claim per name and at most 1024 of them.
\<close>

theorem claimed_name_guarded:
  assumes "claims_ok claims" "length nick < CLAIM_NAME_LEN" "length (cs_ip owner) < CLAIM_IP_LEN"
    and "host_nickname_claim_upsert pool_ok (Some owner) nick salt hash ip_wide fixnick claims = (True, claims1)"
    and "list_all claim_event_ok evs" "list_all (claim_untouched (cs_session_id owner) nick) evs"
    and "cs_session_id other \<noteq> cs_session_id owner" "strcasecmp_eq nick n" "n \<noteq> []"
  shows "claims_ok (fold claim_step evs claims1) \<and>
    (host_nickname_claim_can_use (fold claim_step evs claims1) other n \<longleftrightarrow>
       cs_user_data_loaded other \<and> \<not> security_layer_is_zero_hash (cs_password_hash other) \<and>
       cs_password_hash other = hash \<and>
       (ip_wide \<longrightarrow> strncmp_eq CLAIM_IP_LEN (cs_ip other) (cs_ip owner)))"
proof -
  let ?c = "new_claim (Some owner) nick salt hash ip_wide fixnick"
  note up = claim_upsert_cases [OF assms(1,2,4)]
  have "claim_lookup claims1 nick = Some ?c" using up(2) [of nick] by simp
  moreover have "owner_session_id ?c = cs_session_id owner" by (simp add: new_claim_def)
  ultimately have "claim_lookup (fold claim_step evs claims1) nick = Some ?c"
    using claim_lookup_run [OF up(1) assms(5)] assms(6) by simp
  then have "claim_lookup (fold claim_step evs claims1) n = Some ?c"
    using assms(8) by (simp add: claim_lookup_def strcasecmp_eq_def)
  then show ?thesis
    using can_use_lookup [OF assms(9)] assms(3,7) claim_sys.inv_run [OF assms(5) up(1)]
    by (auto simp: new_claim_def claim_sys.run_def)
qed

theorem claimed_name_guarded_witness:
  "let owner = \<lparr>cs_session_id = 1, cs_ip = ''10.0.0.1'', cs_user_data_loaded = True, cs_password_hash = [7]\<rparr>;
       other = \<lparr>cs_session_id = 2, cs_ip = ''10.0.0.2'', cs_user_data_loaded = True, cs_password_hash = [8]\<rparr>;
       claims = snd (host_nickname_claim_upsert True (Some owner) ''Ann'' [1] [7] False False []) in
   \<not> host_nickname_claim_can_use (fold claim_step [ClaimRelease other None] claims) other ''ANN''"
proof -
  let ?owner = "\<lparr>cs_session_id = 1, cs_ip = ''10.0.0.1'', cs_user_data_loaded = True, cs_password_hash = [7]\<rparr>"
  let ?other = "\<lparr>cs_session_id = 2, cs_ip = ''10.0.0.2'', cs_user_data_loaded = True, cs_password_hash = [8]\<rparr>"
  let ?claims = "snd (host_nickname_claim_upsert True (Some ?owner) ''Ann'' [1] [7] False False [])"
  have up: "host_nickname_claim_upsert True (Some ?owner) ''Ann'' [1] [7] False False [] = (True, ?claims)"
    by (simp add: host_nickname_claim_upsert_def host_nickname_claim_find_locked_def MAX_NICKNAME_CLAIMS_def)
  have "strcasecmp_eq ''Ann'' ''ANN''" by code_simp
  then show ?thesis
    using claimed_name_guarded [OF _ _ _ up, of "[ClaimRelease ?other None]" ?other "''ANN''"]
    by (simp add: claims_ok_def CLAIM_NAME_LEN_def CLAIM_IP_LEN_def claim_event_ok_def claim_untouched_def)
qed

end
