(* ===== verification/Chat_History.thy ===== *)
theory Chat_History
  imports Interfaces
begin

text \<open>
  The members of the chat room (\<^verbatim>\<open>src/host/transport/state_types.c\<close> and
  \<^verbatim>\<open>session_setup.c\<close>) and the bounded history cache in front of the archive
  (\<^verbatim>\<open>session_setup.c\<close>, \<^verbatim>\<open>src/host/runtime/buffers.c\<close>).

  A session is named by its identity, a number; a history entry is copied as a whole
  by the code, so its type is left open.  Whether an allocation succeeds is the
  parameter \<open>alloc\<close>; \<open>cold\<close> is what the blob of a released history holds, and
  \<open>disk start n\<close> is what reading entries of the state file returns.  Evicted
  entries are handed to the archive in order; the file behind it is not modelled.
\<close>

section \<open>Room members\<close>

type_synonym session_id = nat

record chat_room =
  members :: "session_id list"
  member_capacity :: nat

function room_double :: "nat \<Rightarrow> nat \<Rightarrow> nat" where
  "room_double c required =
     (if c < required
      then if c = 0 \<or> c > SIZE_MAX div 2 then required else room_double (2 * c) required
      else c)"
  by pat_completeness auto
termination
  by (relation "measure (\<lambda>(c, required). required - c)") auto

declare room_double.simps [simp del]

definition room_capacity :: "nat \<Rightarrow> nat \<Rightarrow> nat option" where
  "room_capacity cap required =
     (if required \<le> cap then Some cap else Some (room_double (if cap = 0 then 8 else cap) required))"

definition chat_room_ensure_capacity :: "(nat \<Rightarrow> bool) \<Rightarrow> chat_room \<Rightarrow> nat \<Rightarrow> chat_room option" where
  "chat_room_ensure_capacity alloc room required =
     (if required \<le> member_capacity room then Some room
      else let new_capacity = room_double (if member_capacity room = 0 then 8 else member_capacity room) required
           in if alloc new_capacity then Some (room\<lparr>member_capacity := new_capacity\<rparr>) else None)"

definition chat_room_init :: chat_room where
  "chat_room_init = \<lparr>members = [], member_capacity = 0\<rparr>"

definition chat_room_add :: "(nat \<Rightarrow> bool) \<Rightarrow> session_id \<Rightarrow> chat_room \<Rightarrow> chat_room" where
  "chat_room_add alloc session room =
     (if list_ex (\<lambda>m. m = session) (members room) then room
      else case chat_room_ensure_capacity alloc room (length (members room) + 1) of
        None \<Rightarrow> room
      | Some room \<Rightarrow> room\<lparr>members := members room @ [session]\<rparr>)"

text \<open>The members behind the session move down by one place.\<close>

definition chat_room_remove :: "session_id \<Rightarrow> chat_room \<Rightarrow> chat_room" where
  "chat_room_remove session room =
     (case first_index (\<lambda>m. m = session) (members room) of
        None \<Rightarrow> room
      | Some idx \<Rightarrow> room\<lparr>members := take idx (members room) @ drop (Suc idx) (members room)\<rparr>)"

section \<open>The history cache\<close>

definition HISTORY_CACHE_LIMIT :: nat where
  "HISTORY_CACHE_LIMIT = 32768"

record 'e history_host =
  history :: "'e list"
  history_capacity :: nat
  history_total :: nat
  history_start_index :: nat
  history_released :: bool
  history_cache_loaded :: bool
  archived :: "'e list"

text \<open>The growth of the buffer for entries of \<open>esize\<close> bytes.\<close>

function history_double :: "nat \<Rightarrow> nat \<Rightarrow> nat \<Rightarrow> nat" where
  "history_double esize c need =
     (if c < need
      then if c = 0 \<or> c > SIZE_MAX div 2 then need
           else if 2 * c > SIZE_MAX div esize then need
           else history_double esize (2 * c) need
      else c)"
  by pat_completeness auto
termination
  by (relation "measure (\<lambda>(esize, c, need). need - c)") auto

declare history_double.simps [simp del]

definition host_history_reserve_locked ::
  "(nat \<Rightarrow> bool) \<Rightarrow> nat \<Rightarrow> nat \<Rightarrow> 'e history_host \<Rightarrow> 'e history_host option" where
  "host_history_reserve_locked alloc esize min_cap0 h =
     (let min_cap = (if min_cap0 > HISTORY_CACHE_LIMIT then HISTORY_CACHE_LIMIT else min_cap0)
      in if min_cap \<le> history_capacity h then Some h
         else if min_cap > SIZE_MAX div esize then None
         else let c = history_double esize (if history_capacity h > 0 then history_capacity h else 64) min_cap
              in if alloc c then Some (h\<lparr>history_capacity := c\<rparr>) else None)"

text \<open>\<open>cold\<close> is the entries and the total of the blob, or \<open>None\<close> where it cannot be
  read.\<close>

definition host_history_restore_cache_locked ::
  "('e list \<times> nat) option \<Rightarrow> 'e history_host \<Rightarrow> 'e history_host" where
  "host_history_restore_cache_locked cold h =
     (if \<not> history_released h then h
      else case cold of
        None \<Rightarrow> h
      | Some (restored, meta_total) \<Rightarrow>
          if restored = [] then h
          else let total = (if meta_total \<ge> length restored then meta_total else history_total h)
               in h\<lparr>history := restored, history_capacity := length restored,
                    history_total := total, history_start_index := size_sub total (length restored),
                    history_cache_loaded := True, history_released := False\<rparr>)"

definition host_history_append_locked ::
  "('e list \<times> nat) option \<Rightarrow> (nat \<Rightarrow> bool) \<Rightarrow> nat \<Rightarrow> 'e \<Rightarrow> 'e history_host \<Rightarrow>
   bool \<times> 'e history_host" where
  "host_history_append_locked cold alloc esize entry h0 =
     (let h = host_history_restore_cache_locked cold h0;
          count = length (history h);
          desired = (if count + 1 > HISTORY_CACHE_LIMIT then HISTORY_CACHE_LIMIT else count + 1)
      in case host_history_reserve_locked alloc esize desired h of
           None \<Rightarrow> (False, h)
         | Some h \<Rightarrow>
             let h = (if count < HISTORY_CACHE_LIMIT then h\<lparr>history := history h @ [entry]\<rparr>
                      else if count > 0
                      then h\<lparr>history := tl (history h) @ [entry],
                             history_start_index := history_start_index h + 1,
                             archived := archived h @ [hd (history h)]\<rparr>
                      else h\<lparr>history := [entry]\<rparr>);
                 total = history_total h + 1;
                 total = (if total < length (history h) then length (history h) else total);
                 expected_start = (if total > length (history h) then total - length (history h) else 0)
             in (True, h\<lparr>history_total := total, history_start_index := expected_start\<rparr>))"

definition host_history_total :: "('e list \<times> nat) option \<Rightarrow> 'e history_host \<Rightarrow> nat \<times> 'e history_host" where
  "host_history_total cold h =
     (let h = host_history_restore_cache_locked cold h in (history_total h, h))"

text \<open>The entries copied from an index on, at most \<open>capacity\<close> of them.  \<open>disk\<close> is
  \<open>None\<close> where no state file is configured.\<close>

definition host_history_copy_range ::
  "('e list \<times> nat) option \<Rightarrow> bool \<Rightarrow> (nat \<Rightarrow> nat \<Rightarrow> 'e list) option \<Rightarrow> nat \<Rightarrow> nat \<Rightarrow> 'e history_host \<Rightarrow>
   'e list \<times> 'e history_host" where
  "host_history_copy_range cold alloc_ok disk start_index capacity h0 =
     (if capacity = 0 then ([], h0)
      else
        let h = host_history_restore_cache_locked cold h0;
            total = history_total h
        in if start_index \<ge> total then ([], h)
           else
             let cache_start = history_start_index h;
                 cache_end = cache_start + length (history h);
                 total_available = min (total - start_index) capacity;
                 before_cache = (if start_index < cache_start
                                 then min (cache_start - start_index) total_available else 0);
                 cache_begin_index = start_index + before_cache;
                 cache_portion = (if total_available > before_cache \<and> cache_begin_index < cache_end
                                  then min (total_available - before_cache) (cache_end - cache_begin_index)
                                  else 0);
                 cached = take cache_portion (drop (cache_begin_index - cache_start) (history h))
             in if cache_portion > 0 \<and> \<not> alloc_ok then ([], h)
                else if before_cache > 0
                then (case disk of
                        None \<Rightarrow> ([], h)
                      | Some read \<Rightarrow>
                          let fetched = read start_index before_cache
                          in if length fetched < before_cache then (fetched, h)
                             else (take before_cache fetched @ cached, h))
                else (cached, h))"

section \<open>Membership\<close>

lemma room_double_ge: "c \<le> room_double c need"
proof (induction c need rule: room_double.induct)
  case (1 c need)
  then show ?case by (subst room_double.simps) auto
qed

lemma room_double_enough: "need \<le> room_double c need"
proof (induction c need rule: room_double.induct)
  case (1 c need)
  then show ?case by (subst room_double.simps) auto
qed

interpretation room_cap: capacity_policy room_capacity SIZE_MAX
proof (unfold_locales, goal_cases)
  case (1 cap need c)
  then show ?case using room_double_enough by (auto simp: room_capacity_def split: if_splits)
next
  case (2 cap need c)
  then show ?case using room_double_ge by (auto simp: room_capacity_def split: if_splits)
next
  case (3 need cap)
  then show ?case by (simp add: room_capacity_def)
next
  case (4 need cap)
  then show ?case by (simp add: room_capacity_def)
qed

lemma chat_room_ensure_grow:
  "chat_room_ensure_capacity alloc room n = Some room' \<Longrightarrow>
   \<exists>c. room_capacity (member_capacity room) n = Some c \<and> room' = room\<lparr>member_capacity := c\<rparr>"
  by (auto simp: chat_room_ensure_capacity_def room_capacity_def Let_def split: if_splits)

datatype room_event = RoomAdd "nat \<Rightarrow> bool" session_id | RoomRemove session_id

definition room_step :: "room_event \<Rightarrow> chat_room \<Rightarrow> chat_room" where
  "room_step ev room =
     (case ev of RoomAdd alloc s \<Rightarrow> chat_room_add alloc s room | RoomRemove s \<Rightarrow> chat_room_remove s room)"

definition room_inv :: "chat_room \<Rightarrow> bool" where
  "room_inv room \<longleftrightarrow> distinct (members room) \<and> length (members room) \<le> member_capacity room"

lemma room_add_cases:
  obtains (same) "chat_room_add alloc s room = room" "s \<in> set (members room) \<or> \<not> alloc (room_double
      (if member_capacity room = 0 then 8 else member_capacity room) (length (members room) + 1))"
  | (added) c where "s \<notin> set (members room)" "length (members room) < c"
      "chat_room_add alloc s room = room\<lparr>member_capacity := c, members := members room @ [s]\<rparr>"
proof (cases "s \<in> set (members room)")
  case True
  with same show thesis by (auto simp: chat_room_add_def list_ex_iff)
next
  case False
  then have ex: "\<not> list_ex (\<lambda>m. m = s) (members room)" by (auto simp: list_ex_iff)
  show thesis
  proof (cases "chat_room_ensure_capacity alloc room (length (members room) + 1)")
    case None
    with ex same show thesis
      by (auto simp: chat_room_add_def chat_room_ensure_capacity_def Let_def split: if_splits)
  next
    case (Some room')
    with chat_room_ensure_grow [OF Some] obtain c where
      c: "room_capacity (member_capacity room) (length (members room) + 1) = Some c"
      "room' = room\<lparr>member_capacity := c\<rparr>" by auto
    with ex Some False room_cap.grow_enough [OF c(1)] added [of c] show thesis
      by (simp add: chat_room_add_def)
  qed
qed

lemma chat_room_remove_members:
  "distinct (members room) \<Longrightarrow>
   chat_room_remove s room = room\<lparr>members := filter (\<lambda>m. m \<noteq> s) (members room)\<rparr>"
proof (cases "first_index (\<lambda>m. m = s) (members room)")
  case None
  then have "s \<notin> set (members room)" by (auto simp: first_index_None)
  then have "filter (\<lambda>m. m \<noteq> s) (members room) = members room" by (auto intro: filter_True)
  with None show ?thesis by (simp add: chat_room_remove_def)
next
  case (Some i)
  assume d: "distinct (members room)"
  from Some have i: "i < length (members room)" "members room ! i = s" by (auto simp: first_index_Some)
  have "members room = take i (members room) @ s # drop (Suc i) (members room)"
    using i by (metis id_take_nth_drop)
  with d have "filter (\<lambda>m. m \<noteq> s) (members room) = take i (members room) @ drop (Suc i) (members room)"
    by (smt (verit) append_Cons append_Nil distinct_append distinct.simps(2) filter.simps(2)
        filter_True filter_append not_distinct_conv_prefix set_append UnCI disjoint_iff list.set_intros(1))
  with Some show ?thesis by (simp add: chat_room_remove_def)
qed

lemma room_inv_step: "room_inv room \<Longrightarrow> room_inv (room_step ev room)"
proof (cases ev)
  case (RoomAdd alloc s)
  assume "room_inv room"
  with RoomAdd show ?thesis
    by (cases rule: room_add_cases [of alloc s room]) (auto simp: room_step_def room_inv_def)
next
  case (RoomRemove s)
  assume "room_inv room"
  with RoomRemove show ?thesis
    by (auto simp: room_step_def room_inv_def chat_room_remove_members
        intro: le_trans [OF length_filter_le])
qed

interpretation room_sys: invariant_system room_step "\<lambda>_. True" room_inv
  by unfold_locales (rule room_inv_step)

text \<open>Whether the last event about a session is an addition.\<close>

fun last_added :: "session_id \<Rightarrow> room_event list \<Rightarrow> bool \<Rightarrow> bool" where
  "last_added s [] present = present"
| "last_added s (RoomAdd alloc x # evs) present = last_added s evs (present \<or> x = s)"
| "last_added s (RoomRemove x # evs) present = last_added s evs (present \<and> s \<noteq> x)"

lemma room_add_mem:
  "(\<And>n. alloc n) \<Longrightarrow> set (members (chat_room_add alloc s room)) = insert s (set (members room))"
  by (cases rule: room_add_cases [of alloc s room]) auto

lemma room_run_members:
  "list_all (\<lambda>ev. case ev of RoomAdd alloc x \<Rightarrow> \<forall>n. alloc n | _ \<Rightarrow> True) evs \<Longrightarrow> room_inv room \<Longrightarrow>
   s \<in> set (members (fold room_step evs room)) \<longleftrightarrow> last_added s evs (s \<in> set (members room))"
proof (induction evs arbitrary: room)
  case (Cons ev evs)
  have inv: "room_inv (room_step ev room)" using Cons.prems by (simp add: room_inv_step)
  show ?case
  proof (cases ev)
    case (RoomAdd alloc x)
    with Cons.prems Cons.IH [OF _ inv] show ?thesis
      by (simp add: room_step_def room_add_mem disj_commute eq_commute)
  next
    case (RoomRemove x)
    with Cons.prems Cons.IH [OF _ inv] show ?thesis
      by (auto simp: room_step_def room_inv_def chat_room_remove_members)
  qed
qed simp

text \<open>
  The room has exactly the sessions that joined and did not leave.  After any
  sequence of additions and removals from a new room, a session is a member exactly
  when it was added and not removed since; no session is a member twice, and the
  members fit the allocated array.
\<close>

theorem room_membership:
  assumes "list_all (\<lambda>ev. case ev of RoomAdd alloc x \<Rightarrow> \<forall>n. alloc n | _ \<Rightarrow> True) evs"
  shows "room_inv (fold room_step evs chat_room_init) \<and>
     (s \<in> set (members (fold room_step evs chat_room_init)) \<longleftrightarrow> last_added s evs False)"
proof -
  have init: "room_inv chat_room_init" by (simp add: room_inv_def chat_room_init_def)
  have "room_inv (fold room_step evs chat_room_init)"
    using room_sys.inv_run [OF _ init, of evs] by (simp add: room_sys.run_def list_all_iff)
  with room_run_members [OF assms init, of s] show ?thesis by (simp add: chat_room_init_def)
qed

theorem room_membership_witness:
  "room_inv (fold room_step [RoomAdd (\<lambda>_. True) 1, RoomAdd (\<lambda>_. True) 2, RoomRemove 1] chat_room_init) \<and>
   (2 \<in> set (members (fold room_step [RoomAdd (\<lambda>_. True) 1, RoomAdd (\<lambda>_. True) 2, RoomRemove 1] chat_room_init))
    \<longleftrightarrow> last_added 2 [RoomAdd (\<lambda>_. True) 1, RoomAdd (\<lambda>_. True) 2, RoomRemove 1] False)"
  by (rule room_membership) simp

section \<open>The history is a window on the log\<close>

text \<open>\<open>log\<close> is every entry ever appended: the archive has its beginning, the cache its
  end, and the counters say where the cache starts.\<close>

definition history_inv :: "'e list \<Rightarrow> 'e history_host \<Rightarrow> bool" where
  "history_inv log h \<longleftrightarrow>
     \<not> history_released h \<and> archived h @ history h = log \<and>
     length (history h) = min HISTORY_CACHE_LIMIT (length log) \<and>
     history_total h = length log \<and> history_start_index h = length (archived h)"

lemma history_reserve_frame:
  "host_history_reserve_locked alloc esize n h = Some h' \<Longrightarrow> \<exists>c. h' = h\<lparr>history_capacity := c\<rparr>"
  by (auto simp: host_history_reserve_locked_def Let_def split: if_splits
      intro: exI [of _ "history_capacity h"])

lemma history_restore_live [simp]:
  "\<not> history_released h \<Longrightarrow> host_history_restore_cache_locked cold h = h"
  by (simp add: host_history_restore_cache_locked_def)

text \<open>One append: it fails and changes nothing, or it extends the log by its entry.\<close>

lemma history_append_step:
  assumes "history_inv log h" "host_history_append_locked cold alloc esize e h = (r, h')"
  shows "history_inv (if r then log @ [e] else log) h'"
proof -
  have live: "\<not> history_released h" and log: "archived h @ history h = log"
    and cached: "length (history h) = min HISTORY_CACHE_LIMIT (length log)"
    and total: "history_total h = length log" and first: "history_start_index h = length (archived h)"
    using assms(1) by (simp_all add: history_inv_def)
  have len: "length log = length (archived h) + length (history h)"
    unfolding log [symmetric] by simp
  have pos: "HISTORY_CACHE_LIMIT > 0" by (simp add: HISTORY_CACHE_LIMIT_def)
  let ?desired = "if length (history h) + 1 > HISTORY_CACHE_LIMIT then HISTORY_CACHE_LIMIT
                  else length (history h) + 1"
  show ?thesis
  proof (cases "host_history_reserve_locked alloc esize ?desired h")
    case None
    with assms live show ?thesis by (simp add: host_history_append_locked_def Let_def)
  next
    case (Some g)
    from history_reserve_frame [OF this] obtain c where g: "g = h\<lparr>history_capacity := c\<rparr>" by auto
    show ?thesis
    proof (cases "length (history h) < HISTORY_CACHE_LIMIT")
      case True
      with cached len have "archived h = []" by (simp add: min_def split: if_splits)
      with log have "archived h = []" "history h = log" by simp_all
      with assms(2) live Some g True total first show ?thesis
        by (auto simp: host_history_append_locked_def history_inv_def Let_def)
    next
      case False
      with cached have full: "length (history h) = HISTORY_CACHE_LIMIT" by simp
      with pos have ne: "history h \<noteq> []" by auto
      have out: "r" "h' = h\<lparr>history_capacity := c, history := tl (history h) @ [e],
          archived := archived h @ [hd (history h)], history_total := history_total h + 1,
          history_start_index := history_total h + 1 - HISTORY_CACHE_LIMIT\<rparr>"
        using assms(2) live Some g pos full total len
        by (auto simp: host_history_append_locked_def Let_def)
      have "archived h @ hd (history h) # tl (history h) = log" using log ne by simp
      with out full len total live pos show ?thesis by (simp add: history_inv_def)
    qed
  qed
qed

fun history_run ::
  "nat \<Rightarrow> ((nat \<Rightarrow> bool) \<times> 'e) list \<Rightarrow> 'e history_host \<Rightarrow> 'e list \<times> 'e history_host" where
  "history_run esize [] h = ([], h)"
| "history_run esize ((alloc, e) # es) h =
     (let (r, h1) = host_history_append_locked None alloc esize e h;
          (accepted, h2) = history_run esize es h1
      in ((if r then e # accepted else accepted), h2))"

lemma history_run_inv:
  "history_inv log h \<Longrightarrow> history_run esize es h = (accepted, h') \<Longrightarrow> history_inv (log @ accepted) h'"
proof (induction es arbitrary: log h accepted)
  case (Cons x es)
  obtain alloc e where x: "x = (alloc, e)" by (cases x)
  obtain r h1 where r: "host_history_append_locked None alloc esize e h = (r, h1)" by (metis surj_pair)
  obtain rest where rest: "history_run esize es h1 = (rest, h')" "accepted = (if r then e # rest else rest)"
    using Cons.prems(2) x r by (auto simp: case_prod_beta Let_def prod_eq_iff)
  from Cons.IH [OF history_append_step [OF Cons.prems(1) r] rest(1)] rest(2) show ?case
    by (auto split: if_splits)
qed simp

definition history_empty :: "'e history_host" where
  "history_empty = \<lparr>history = [], history_capacity = 0, history_total = 0, history_start_index = 0,
     history_released = False, history_cache_loaded = False, archived = []\<rparr>"



lemma take_min_length_drop: "take (min k (length xs - i)) (drop i xs) = take k (drop i xs)"
  by (cases "k \<le> length xs - i") (simp_all add: min_def)

lemma history_inv_facts:
  assumes "history_inv log h"
  shows "\<not> history_released h" "history_total h = length log"
    "history_start_index h = length (archived h)"
    "length log = length (archived h) + length (history h)" "log = archived h @ history h"
  using assms by (auto simp: history_inv_def)

text \<open>A range that begins before the cache and reaches into it.\<close>

lemma copy_range_across:
  assumes "history_inv log h" "0 < n"
    and "\<And>s k. s + k \<le> length (archived h) \<Longrightarrow> read s k = take k (drop s log)"
    and "start < length (archived h)" "length (archived h) < start + n" "start < length log"
  shows "fst (host_history_copy_range cold True (Some read) start n h) = take n (drop start log)"
proof -
  note inv = history_inv_facts [OF assms(1)]
  note copy = host_history_copy_range_def history_restore_live [OF inv(1)] inv(2,3) Let_def
  define b where "b = length (archived h) - start"
  define ta where "ta = min (length log - start) n"
  have b: "0 < b" "b < n" "start + b = length (archived h)" using assms(4,5) by (auto simp: b_def)
  have ta: "min b ta = b" "ta - b = min (length (history h)) (n - b)"
    using b inv(4) by (auto simp: ta_def b_def)
  have read: "read start b = take b (drop start log)" using b by (intro assms(3)) simp
  have more: "b < ta" if "history h \<noteq> []"
    using ta(2) b that by (metis length_greater_0_conv min_less_iff_conj zero_less_diff)
  have portion: "take (if b < ta \<and> length (archived h) < length (archived h) + length (history h)
          then min (ta - b) (length (history h)) else 0) (history h) = take (n - b) (history h)"
    using more ta(2) by (cases "history h = []") (simp_all add: min_def)
  have lb: "min (length log - start) b = b" using b inv(4) by simp
  have "take n (drop start log) = take b (drop start log) @ take (n - b) (history h)"
    using b inv(5) by (simp add: b_def)
  then show ?thesis
    using assms(2,4,6) b ta(1) read portion more lb
    by (auto simp: copy b_def [symmetric] ta_def [symmetric])
qed

text \<open>
  A range of the history is read correctly across the boundary of the cache.  Where
  the state file holds the archived entries, copying from any index returns exactly the
  entries of the log from that index on, as many as were asked for.
\<close>

theorem history_copy_range_log:
  assumes "history_inv log h" "0 < n"
    and "\<And>s k. s + k \<le> length (archived h) \<Longrightarrow> read s k = take k (drop s log)"
  shows "fst (host_history_copy_range cold True (Some read) start n h) = take n (drop start log)"
proof -
  note inv = history_inv_facts [OF assms(1)] and len = history_inv_facts(4) [OF assms(1)]
  note copy = host_history_copy_range_def history_restore_live [OF inv(1)] inv(2,3) Let_def
  consider (past) "length log \<le> start" | (cached) "length (archived h) \<le> start" "start < length log"
    | (short) "start + n \<le> length (archived h)" "start < length log"
    | (split) "start < length (archived h)" "length (archived h) < start + n" "start < length log"
    using len by linarith
  then show ?thesis
  proof cases
    case past
    with assms(2) show ?thesis by (simp add: copy)
  next
    case cached
    then have "take n (drop start log) = take n (drop (start - length (archived h)) (history h))"
      using inv(5) by simp
    moreover have "length (history h) - (start - length (archived h))
        = length (archived h) + length (history h) - start" using cached(1) by simp
    ultimately show ?thesis
      using cached assms(2) len take_min_length_drop [of n "history h" "start - length (archived h)"]
      by (simp add: copy min.commute)
  next
    case short
    from assms(3) [OF short(1)] have "read start n = take n (drop start log)" .
    moreover have "min (length log - start) n = n" "min (length (archived h) - start) n = n"
      "start < length (archived h)"
      using short assms(2) len by auto
    ultimately show ?thesis
      using short(2) assms(2) by (simp add: copy)
  next
    case split
    with assms show ?thesis by (rule copy_range_across)
  qed
qed

theorem history_copy_range_log_witness:
  "fst (host_history_copy_range None True
     (Some (\<lambda>s k. take k (drop s [''a'', ''b'', ''c'']))) 1 2
     \<lparr>history = [''a'', ''b'', ''c''], history_capacity = 64, history_total = 3, history_start_index = 0,
      history_released = False, history_cache_loaded = True, archived = []\<rparr>)
   = take 2 (drop 1 [''a'', ''b'', ''c''])"
  by (rule history_copy_range_log) (simp_all add: history_inv_def HISTORY_CACHE_LIMIT_def)

end
