(* ===== verification/Admission.thy ===== *)
theory Admission
  imports Join_Activity Ban_List Lan_Access Nick_Claims Chat_History
begin

text \<open>
  How a session gets into the chat room: the thread of a session
  (\<^verbatim>\<open>src/host/runtime/session_lifecycle.c\<close>) from the handshake to the entry into the room,
  the change of a nickname (\<^verbatim>\<open>src/host/runtime/user_commands.c\<close>) and the end of the session,
  composed of the guards, lists and tables of the other theories.

  The state is that of the host with all its sessions.  The thread of a session is a
  sequence of stages; a stage runs without interference of the stages of other sessions
  that touch the same data, because each of its operations holds the lock of its table, and
  any number of sessions and the operators who edit the ban list take turns in any order.
  What comes from outside in a stage (messages, lines, clock readings, success of an
  allocation) are the arguments of the stage.  The user files are the parameters of
  \<open>adm_env\<close>.
\<close>

section \<open>State\<close>

datatype session_transport = SESSION_TRANSPORT_SSH | SESSION_TRANSPORT_TELNET

text \<open>The place in the thread of a session that is reached.\<close>

datatype session_phase = Accepted | Identified | LoggedIn | NameCleared | Registered | InRoom | Ended

record adm_session =
  who :: lan_session
  transport_kind :: session_transport
  session_number :: nat
  user_data_loaded :: bool
  user_data_name :: cstr
  user_data_hash :: claim_bytes
  password_not_set :: bool
  username_conflict :: bool
  has_joined_room :: bool
  phase :: session_phase

record adm_host =
  host_rules :: rule_table
  host_bans :: ban_host
  host_joins :: join_host
  host_room :: chat_room
  host_lan_ops :: "lan_operator_credential list"
  host_claims :: "nickname_claim list"
  ai_persona_a_name :: cstr
  ai_persona_b_name :: cstr
  captcha_enabled :: bool
  sessions :: "session_id \<Rightarrow> adm_session option"

text \<open>What an invalid, a zero and a good multi-byte sequence give.\<close>

datatype mb_result = MbInvalid | MbChar nat nat

record adm_env =
  env_pton4 :: "cstr \<Rightarrow> ipv4 option"
  env_pton6 :: "cstr \<Rightarrow> ipv6 option"
  env_password_set :: "cstr \<Rightarrow> cstr \<Rightarrow> bool"
  env_verify :: "cstr \<Rightarrow> cstr \<Rightarrow> cstr \<Rightarrow> bool"
  env_has_password :: "cstr \<Rightarrow> bool"
  env_user_data :: "cstr \<Rightarrow> cstr \<Rightarrow> (cstr \<times> claim_bytes) option"
  env_mbrtowc :: "cstr \<Rightarrow> mb_result"

definition claim_view :: "adm_session \<Rightarrow> claim_session" where
  "claim_view s = \<lparr>cs_session_id = session_number s, cs_ip = ls_ip (who s),
     cs_user_data_loaded = user_data_loaded s, cs_password_hash = user_data_hash s\<rparr>"

abbreviation user_name :: "adm_session \<Rightarrow> cstr" where
  "user_name s \<equiv> ls_name (who s)"

abbreviation client_ip :: "adm_session \<Rightarrow> cstr" where
  "client_ip s \<equiv> ls_ip (who s)"

definition put_session :: "session_id \<Rightarrow> adm_session \<Rightarrow> adm_host \<Rightarrow> adm_host" where
  "put_session i s h = h\<lparr>sessions := (sessions h)(i := Some s)\<rparr>"

section \<open>Names\<close>

definition system_reserved_names :: "cstr list" where
  "system_reserved_names =
     [''Guest'', ''Admin'', ''Operator'', ''System'', ''Root'', ''Moderator'', ''Chatter'', ''ssh-chatter'',
      ''bot'', ''Bot'', ''BOT'', ''kaka'', ''dada'', ''eliza'']"

definition host_is_system_reserved_username :: "adm_host \<Rightarrow> cstr \<Rightarrow> bool" where
  "host_is_system_reserved_username h username =
     (if username = [] then False
      else list_ex (\<lambda>n. strcasecmp_eq username n) system_reserved_names \<or>
           (ai_persona_a_name h \<noteq> [] \<and> strcasecmp_eq username (ai_persona_a_name h)) \<or>
           (ai_persona_b_name h \<noteq> [] \<and> strcasecmp_eq username (ai_persona_b_name h)))"

definition host_username_reserved :: "adm_host \<Rightarrow> cstr \<Rightarrow> bool" where
  "host_username_reserved h username \<longleftrightarrow>
     username \<noteq> [] \<and> host_is_lan_operator_username (host_lan_ops h) username"

definition member_named :: "adm_host \<Rightarrow> cstr \<Rightarrow> session_id \<Rightarrow> bool" where
  "member_named h username m =
     (case sessions h m of None \<Rightarrow> False
      | Some s \<Rightarrow> strncmp_eq USERNAME_LEN (user_name s) username)"

definition chat_room_find_user :: "adm_host \<Rightarrow> cstr \<Rightarrow> session_id option" where
  "chat_room_find_user h username = find (member_named h username) (members (host_room h))"

definition session_is_captcha_exempt :: "adm_session \<Rightarrow> bool" where
  "session_is_captcha_exempt s =
     (if user_name s = [] then False
      else map c_tolower (take (USERNAME_LEN - 1) (user_name s)) = ''gpt'')"

text \<open>The characters of a nickname: no control character, no space.\<close>

function nick_chars_ok :: "(cstr \<Rightarrow> mb_result) \<Rightarrow> cstr \<Rightarrow> bool" where
  "nick_chars_ok mbrtowc cursor =
     (if cursor = [] then True
      else case mbrtowc cursor of
        MbInvalid \<Rightarrow> False
      | MbChar wc consumed \<Rightarrow>
          if consumed = 0 then nick_chars_ok mbrtowc (tl cursor)
          else if wc < 0x20 \<or> wc = 0x7F \<or> wc = 0x20 \<or> wc = 0x09 then False
          else nick_chars_ok mbrtowc (drop consumed cursor))"
  by pat_completeness auto
termination
  by (relation "measure (\<lambda>(m, cursor). length cursor)") auto

declare nick_chars_ok.simps [simp del]

definition session_user_data_load :: "adm_env \<Rightarrow> adm_session \<Rightarrow> adm_session" where
  "session_user_data_load env s =
     (if user_data_loaded s then s
      else case env_user_data env (user_name s) (client_ip s) of
        None \<Rightarrow> s
      | Some (name, hash) \<Rightarrow>
          s\<lparr>user_data_loaded := True, user_data_name := name, user_data_hash := hash\<rparr>)"

text \<open>The change of a nickname, in the order of its checks.\<close>

definition nick_rejected :: "adm_env \<Rightarrow> adm_host \<Rightarrow> session_id \<Rightarrow> adm_session \<Rightarrow> cstr \<Rightarrow> bool" where
  "nick_rejected env h i s new_name =
     (let owns = strcasecmp_eq (user_name s) new_name \<or>
                 (user_data_loaded s \<and> strcasecmp_eq (user_data_name s) new_name)
      in (\<not> owns \<and> env_has_password env new_name \<and>
            \<not> host_nickname_claim_can_use (host_claims h) (claim_view s) new_name) \<or>
         (case chat_room_find_user h new_name of None \<Rightarrow> False | Some existing \<Rightarrow> existing \<noteq> i))"

definition session_handle_nick :: "adm_env \<Rightarrow> cstr \<Rightarrow> session_id \<Rightarrow> adm_session \<Rightarrow> adm_host \<Rightarrow> adm_host" where
  "session_handle_nick env arguments i s h =
     (if arguments = [] then h
      else
        let new_name = c_trim (snprintf_into USERNAME_LEN arguments)
        in if new_name = [] then h
           else if is_lan_operator (who s) \<and> new_name \<noteq> user_name s then h
           else if \<not> nick_chars_ok (env_mbrtowc env) new_name then h
           else if host_is_username_banned (host_bans h) new_name then h
           else if host_username_reserved h new_name \<and> \<not> is_lan_operator (who s) then h
           else
             let s = session_user_data_load env s
             in if nick_rejected env h i s new_name then put_session i s h
                else put_session i (session_user_data_load env
                         (s\<lparr>who := (who s)\<lparr>ls_name := snprintf_into USERNAME_LEN new_name\<rparr>\<rparr>))
                       (h\<lparr>host_claims := host_nickname_claim_release (claim_view s)
                            (Some (user_name s)) (host_claims h)\<rparr>))"

section \<open>The dialogue before the room\<close>

definition session_consume_token :: "cstr \<Rightarrow> nat \<Rightarrow> cstr \<times> cstr" where
  "session_consume_token input cap =
     (let blank = (\<lambda>c. c = CHR '' '' \<or> c = CHR 0x09);
          start = dropWhile blank input
      in (take (cap - 1) (takeWhile (\<lambda>c. \<not> c_isspace c) start),
          dropWhile blank (dropWhile (\<lambda>c. \<not> c_isspace c) start)))"

text \<open>A line of the dialogue, whether the record of the name has a password when the
  line is handled, and whether a new record can be saved.\<close>

record login_input =
  li_line :: cstr
  li_password_set :: bool
  li_saved :: bool

datatype login_outcome = LoginLeft | LoginGuest | LoginPassword | LoginSignup

fun login_loop :: "(cstr \<Rightarrow> bool) \<Rightarrow> nat \<Rightarrow> login_input list \<Rightarrow> login_outcome" where
  "login_loop verify empty_enter_count [] = LoginLeft"
| "login_loop verify empty_enter_count (l # ls) =
     (let line = c_trim (li_line l)
      in if line = [] then
           if empty_enter_count + 1 \<ge> 2
           then if li_password_set l then login_loop verify 0 ls else LoginGuest
           else login_loop verify (empty_enter_count + 1) ls
         else
           let (command, cursor) = session_consume_token line 32
           in if strcasecmp_eq command ''/exit'' then LoginLeft
              else if strcasecmp_eq command ''/guest''
              then if li_password_set l then login_loop verify 0 ls else LoginGuest
              else if strcasecmp_eq command ''/login''
              then if \<not> li_password_set l then login_loop verify 0 ls
                   else if cursor = [] then login_loop verify 0 ls
                   else if verify cursor then LoginPassword
                   else login_loop verify 0 ls
              else if strcasecmp_eq command ''/signup''
              then if li_password_set l then login_loop verify 0 ls
                   else if cursor = [] then login_loop verify 0 ls
                   else if li_saved l then LoginSignup
                   else login_loop verify 0 ls
              else login_loop verify 0 ls)"

section \<open>The stages of the thread\<close>

definition session_end :: "session_id \<Rightarrow> adm_session \<Rightarrow> adm_host \<Rightarrow> adm_host" where
  "session_end i s h = put_session i (s\<lparr>phase := Ended\<rparr>) h"

definition new_session :: "session_transport \<Rightarrow> cstr \<Rightarrow> session_id \<Rightarrow> adm_session" where
  "new_session kind ip i =
     \<lparr>who = \<lparr>ls_name = [], ls_ip = snprintf_into SSH_CHATTER_IP_LEN ip,
        lan_operator_credentials_valid = False, authenticated_via_ssh_password = False,
        is_operator = False, is_lan_operator = False\<rparr>,
      transport_kind = kind, session_number = i, user_data_loaded = False, user_data_name = [],
      user_data_hash = [], password_not_set = False, username_conflict = False,
      has_joined_room = False, phase = Accepted\<rparr>"

text \<open>Handshake and authentication: the identity of the session, or \<open>None\<close> where it is
  turned away.  \<open>telnet_name\<close> is the confirmed name of a telnet user, \<open>shell_ok\<close> whether a
  channel and a shell were negotiated.\<close>

definition session_handshake ::
  "adm_env \<Rightarrow> cstr option \<Rightarrow> auth_message list \<Rightarrow> cstr option \<Rightarrow> bool \<Rightarrow> adm_host \<Rightarrow> adm_session \<Rightarrow>
   lan_session option" where
  "session_handshake env banner ms telnet_name shell_ok h s =
     (case transport_kind s of
        SESSION_TRANSPORT_TELNET \<Rightarrow>
          Some (case telnet_name of
                  None \<Rightarrow> who s
                | Some n \<Rightarrow> (who s)\<lparr>ls_name := snprintf_into USERNAME_LEN n\<rparr>)
      | SESSION_TRANSPORT_SSH \<Rightarrow>
          if host_version_ip_should_ban (env_pton4 env) (env_pton6 env) (host_rules h) banner (client_ip s)
             \<noteq> None
          then None
          else case session_authenticate (env_pton4 env) (env_pton6 env) (env_password_set env)
                      (env_verify env) (host_lan_ops h) ms (who s) of
                 (False, w) \<Rightarrow> None
               | (True, w) \<Rightarrow> if shell_ok then Some w else None)"

text \<open>Privileges, then the preferred nickname.\<close>

definition session_apply_granted_privileges :: "adm_host \<Rightarrow> lan_session \<Rightarrow> lan_session" where
  "session_apply_granted_privileges h w =
     (if host_ip_has_grant_locked (host_joins h) (ls_ip w) then w\<lparr>is_operator := True\<rparr> else w)"

definition session_identify ::
  "adm_env \<Rightarrow> cstr option \<Rightarrow> auth_message list \<Rightarrow> cstr option \<Rightarrow> bool \<Rightarrow> cstr option \<Rightarrow>
   session_id \<Rightarrow> adm_session \<Rightarrow> adm_host \<Rightarrow> adm_host" where
  "session_identify env banner ms telnet_name shell_ok preferred i s h =
     (case session_handshake env banner ms telnet_name shell_ok h s of
        None \<Rightarrow> session_end i s h
      | Some w \<Rightarrow>
          let w = session_apply_granted_privileges h
                    (session_assign_lan_privileges (env_pton4 env) (env_pton6 env) (host_lan_ops h) w);
              s = session_user_data_load env (s\<lparr>who := w, phase := Identified\<rparr>);
              h = put_session i s h
          in case preferred of
               None \<Rightarrow> h
             | Some nick \<Rightarrow>
                 if user_data_loaded s \<and> nick \<noteq> [] \<and> \<not> strcasecmp_eq (user_name s) nick
                 then session_handle_nick env nick i s h else h)"

text \<open>Captcha, ban of the address, dialogue.  \<open>account\<close> is the name and the hash of the
  record that the dialogue loads; \<open>salt\<close>, \<open>fixnick\<close> and \<open>pool_ok\<close> are what a new account
  and its claim need.\<close>

definition session_run_login_tui ::
  "adm_env \<Rightarrow> login_input list \<Rightarrow> cstr \<times> claim_bytes \<Rightarrow> claim_bytes \<Rightarrow> bool \<Rightarrow> bool \<Rightarrow>
   session_id \<Rightarrow> adm_session \<Rightarrow> adm_host \<Rightarrow> adm_host" where
  "session_run_login_tui env ls account salt fixnick pool_ok i s h =
     (if authenticated_via_ssh_password (who s) \<or> is_operator (who s) \<or> is_lan_operator (who s)
      then put_session i (s\<lparr>phase := LoggedIn\<rparr>) h
      else
        let s' = s\<lparr>user_data_name := fst account, user_data_hash := snd account, phase := LoggedIn\<rparr>
        in case login_loop (env_verify env (user_name s) []) 0 ls of
             LoginLeft \<Rightarrow> session_end i s h
           | LoginGuest \<Rightarrow> put_session i (s'\<lparr>password_not_set := True\<rparr>) h
           | LoginPassword \<Rightarrow>
               put_session i (s'\<lparr>password_not_set := False, user_data_loaded := True\<rparr>) h
           | LoginSignup \<Rightarrow>
               put_session i (s'\<lparr>password_not_set := False, user_data_loaded := True\<rparr>)
                 (h\<lparr>host_claims := snd (host_nickname_claim_upsert pool_ok (Some (claim_view s))
                      (user_name s) salt (snd account) False fixnick (host_claims h))\<rparr>))"

definition session_login ::
  "adm_env \<Rightarrow> bool \<Rightarrow> login_input list \<Rightarrow> cstr \<times> claim_bytes \<Rightarrow> claim_bytes \<Rightarrow> bool \<Rightarrow> bool \<Rightarrow>
   session_id \<Rightarrow> adm_session \<Rightarrow> adm_host \<Rightarrow> adm_host" where
  "session_login env captcha_ok ls account salt fixnick pool_ok i s h =
     (if captcha_enabled h \<and> \<not> session_is_captcha_exempt s \<and> \<not> captcha_ok then session_end i s h
      else if host_is_ip_banned (env_pton4 env) (env_pton6 env) (host_bans h) (client_ip s)
      then session_end i s h
      else session_run_login_tui env ls account salt fixnick pool_ok i s h)"

definition name_refused :: "adm_host \<Rightarrow> adm_session \<Rightarrow> bool" where
  "name_refused h s \<longleftrightarrow>
     host_is_username_banned (host_bans h) (user_name s) \<or>
     host_is_system_reserved_username h (user_name s) \<or>
     (host_is_lan_operator_username (host_lan_ops h) (user_name s) \<and> \<not> is_lan_operator (who s)) \<or>
     chat_room_find_user h (user_name s) \<noteq> None \<or>
     length (take 64 (user_name s)) < 2"

definition session_clear_name :: "session_id \<Rightarrow> adm_session \<Rightarrow> adm_host \<Rightarrow> adm_host" where
  "session_clear_name i s h =
     (if name_refused h s then session_end i (s\<lparr>username_conflict := True\<rparr>) h
      else put_session i (s\<lparr>phase := NameCleared\<rparr>) h)"

definition session_register ::
  "adm_env \<Rightarrow> (nat \<Rightarrow> bool) \<Rightarrow> timespec \<Rightarrow> timespec \<Rightarrow> timespec \<Rightarrow> session_id \<Rightarrow> adm_session \<Rightarrow>
   adm_host \<Rightarrow> adm_host" where
  "session_register env alloc now guard_now delay_now i s h =
     (case host_register_join_attempt alloc now guard_now (Some (user_name s)) (client_ip s) (host_joins h) of
        (JOIN_OK, j) \<Rightarrow>
          put_session i (s\<lparr>phase := Registered\<rparr>)
            (h\<lparr>host_joins := snd (snd (host_prepare_join_delay delay_now j))\<rparr>)
      | (_, j) \<Rightarrow> session_end i s (h\<lparr>host_joins := j\<rparr>))"

definition session_enter :: "(nat \<Rightarrow> bool) \<Rightarrow> session_id \<Rightarrow> adm_session \<Rightarrow> adm_host \<Rightarrow> adm_host" where
  "session_enter alloc i s h =
     put_session i (s\<lparr>has_joined_room := True, phase := InRoom\<rparr>)
       (h\<lparr>host_room := chat_room_add alloc i (host_room h)\<rparr>)"

definition session_leave :: "session_id \<Rightarrow> adm_session \<Rightarrow> adm_host \<Rightarrow> adm_host" where
  "session_leave i s h =
     session_end i s
       (h\<lparr>host_room := (if has_joined_room s then chat_room_remove i (host_room h) else host_room h),
          host_claims := host_nickname_claim_release (claim_view s) None (host_claims h)\<rparr>)"

section \<open>Steps\<close>

datatype adm_label = Stage session_id | BanAdded "cstr option" "cstr option" | BanLifted cstr

inductive adm_step :: "adm_env \<Rightarrow> adm_host \<Rightarrow> adm_label \<Rightarrow> adm_host \<Rightarrow> bool" for env where
  accept: "sessions h i = None \<Longrightarrow> adm_step env h (Stage i) (put_session i (new_session kind ip i) h)"
| identify: "\<lbrakk>sessions h i = Some s; phase s = Accepted\<rbrakk> \<Longrightarrow>
     adm_step env h (Stage i) (session_identify env banner ms telnet_name shell_ok preferred i s h)"
| login: "\<lbrakk>sessions h i = Some s; phase s = Identified\<rbrakk> \<Longrightarrow>
     adm_step env h (Stage i) (session_login env captcha_ok ls account salt fixnick pool_ok i s h)"
| clear_name: "\<lbrakk>sessions h i = Some s; phase s = LoggedIn\<rbrakk> \<Longrightarrow>
     adm_step env h (Stage i) (session_clear_name i s h)"
| register: "\<lbrakk>sessions h i = Some s; phase s = NameCleared\<rbrakk> \<Longrightarrow>
     adm_step env h (Stage i) (session_register env alloc now guard_now delay_now i s h)"
| enter: "\<lbrakk>sessions h i = Some s; phase s = Registered\<rbrakk> \<Longrightarrow>
     adm_step env h (Stage i) (session_enter alloc i s h)"
| nick: "\<lbrakk>sessions h i = Some s; phase s = InRoom\<rbrakk> \<Longrightarrow>
     adm_step env h (Stage i) (session_handle_nick env arguments i s h)"
| leave: "\<lbrakk>sessions h i = Some s; phase s = InRoom\<rbrakk> \<Longrightarrow>
     adm_step env h (Stage i) (session_leave i s h)"
| lost: "\<lbrakk>sessions h i = Some s; phase s \<noteq> InRoom; phase s \<noteq> Ended\<rbrakk> \<Longrightarrow>
     adm_step env h (Stage i) (session_end i s h)"
| ban: "adm_step env h (BanAdded u a)
     (h\<lparr>host_bans := snd (host_add_ban_entry (env_pton4 env) (env_pton6 env) u a (host_bans h))\<rparr>)"
| lift: "adm_step env h (BanLifted t) (h\<lparr>host_bans := snd (host_remove_ban_entry t (host_bans h))\<rparr>)"

inductive adm_run :: "adm_env \<Rightarrow> adm_host \<Rightarrow> adm_label list \<Rightarrow> adm_host \<Rightarrow> bool" for env h0 where
  start: "adm_run env h0 [] h0"
| step: "adm_run env h0 ls h \<Longrightarrow> adm_step env h l h' \<Longrightarrow> adm_run env h0 (ls @ [l]) h'"

inductive_cases adm_stage: "adm_step env h (Stage i) h'"
inductive_cases adm_ban: "adm_step env h (BanAdded u a) h'"
inductive_cases adm_lift: "adm_step env h (BanLifted t) h'"

section \<open>What a step changes\<close>

lemma put_session_simps [simp]:
  "sessions (put_session i s h) j = (if j = i then Some s else sessions h j)"
  "host_room (put_session i s h) = host_room h" "host_bans (put_session i s h) = host_bans h"
  "host_lan_ops (put_session i s h) = host_lan_ops h" "host_joins (put_session i s h) = host_joins h"
  "host_claims (put_session i s h) = host_claims h" "host_rules (put_session i s h) = host_rules h"
  "ai_persona_a_name (put_session i s h) = ai_persona_a_name h"
  "ai_persona_b_name (put_session i s h) = ai_persona_b_name h"
  "captcha_enabled (put_session i s h) = captcha_enabled h"
  by (simp_all add: put_session_def)

lemma session_user_data_load_simps [simp]:
  "who (session_user_data_load env s) = who s" "phase (session_user_data_load env s) = phase s"
  "has_joined_room (session_user_data_load env s) = has_joined_room s"
  "session_number (session_user_data_load env s) = session_number s"
  by (simp_all add: session_user_data_load_def split: option.split)

lemma auth_request_ip:
  "ls_ip (snd (auth_request pton4 pton6 password_set verify ops user by_password password s)) = ls_ip s"
  by (simp add: auth_request_def Let_def split: option.split)

lemma auth_loop_ip:
  "ls_ip (snd (auth_loop pton4 pton6 password_set verify ops ms s)) = ls_ip s"
proof (induction ms arbitrary: s)
  case (Cons m ms)
  then show ?case
    using auth_request_ip [of pton4 pton6 password_set verify ops _ _ _ s]
    by (cases m) (auto split: prod.split bool.split, metis snd_conv, metis snd_conv)
qed simp

lemma authenticate_ip:
  "ls_ip (snd (session_authenticate pton4 pton6 password_set verify ops ms s)) = ls_ip s"
  by (simp add: session_authenticate_def auth_loop_ip)

lemma handshake_ip:
  assumes "session_handshake env banner ms tn sh h s = Some w"
  shows "ls_ip w = client_ip s"
proof (cases "transport_kind s")
  case SESSION_TRANSPORT_SSH
  let ?out = "session_authenticate (env_pton4 env) (env_pton6 env) (env_password_set env)
     (env_verify env) (host_lan_ops h) ms (who s)"
  have "w = snd ?out"
    using assms SESSION_TRANSPORT_SSH
    by (cases ?out) (simp add: session_handshake_def split: if_splits bool.splits)
  then show ?thesis by (simp add: authenticate_ip)
qed (use assms in \<open>auto simp: session_handshake_def split: option.splits\<close>)

lemma assign_lan_simps [simp]:
  "ls_ip (session_assign_lan_privileges pton4 pton6 ops w) = ls_ip w"
  "ls_name (session_assign_lan_privileges pton4 pton6 ops w) = ls_name w"
  by (simp_all add: session_assign_lan_privileges_def)

lemma granted_simps [simp]:
  "ls_ip (session_apply_granted_privileges h w) = ls_ip w"
  "ls_name (session_apply_granted_privileges h w) = ls_name w"
  "is_lan_operator (session_apply_granted_privileges h w) = is_lan_operator w"
  "lan_operator_credentials_valid (session_apply_granted_privileges h w) = lan_operator_credentials_valid w"
  by (simp_all add: session_apply_granted_privileges_def)

lemma if_or_fold: "(if a then x else if b then x else y) = (if a \<or> b then x else y)"
  by simp

text \<open>How a change of nickname ends.\<close>

lemma length_c_trim_le: "length (c_trim s) \<le> length s"
  by (metis c_trim_def length_dropWhile_le length_rev order_trans)

lemma handle_nick_cases:
  obtains (same) "session_handle_nick env arguments i s h = h"
  | (loaded) "session_handle_nick env arguments i s h = put_session i (session_user_data_load env s) h"
  | (renamed) s' claims new where
      "session_handle_nick env arguments i s h = put_session i s' (h\<lparr>host_claims := claims\<rparr>)"
      "who s' = (who s)\<lparr>ls_name := new\<rparr>" "phase s' = phase s" "has_joined_room s' = has_joined_room s"
      "new \<noteq> []" "length new < USERNAME_LEN" "is_lan_operator (who s) \<Longrightarrow> new = user_name s"
      "\<not> is_lan_operator (who s) \<Longrightarrow> \<not> host_is_lan_operator_username (host_lan_ops h) new"
      "\<not> host_is_username_banned (host_bans h) new"
      "\<And>j. chat_room_find_user h new = Some j \<Longrightarrow> j = i"
proof -
  define new where "new = c_trim (snprintf_into USERNAME_LEN arguments)"
  have "length new \<le> length (snprintf_into USERNAME_LEN arguments)"
    unfolding new_def by (rule length_c_trim_le)
  also have "\<dots> < USERNAME_LEN"
    using length_snprintf_into [of USERNAME_LEN arguments] by (simp add: USERNAME_LEN_def)
  finally have len: "length new < USERNAME_LEN" .
  define s1 where "s1 = session_user_data_load env s"
  define s' where "s' = session_user_data_load env (s1\<lparr>who := (who s1)\<lparr>ls_name := new\<rparr>\<rparr>)"
  define claims where "claims = host_nickname_claim_release (claim_view s1) (Some (user_name s1)) (host_claims h)"
  define C where "C \<longleftrightarrow> arguments = [] \<or> new = [] \<or> (is_lan_operator (who s) \<and> new \<noteq> user_name s) \<or>
     \<not> nick_chars_ok (env_mbrtowc env) new \<or> host_is_username_banned (host_bans h) new \<or>
     (host_username_reserved h new \<and> \<not> is_lan_operator (who s))"
  have eq: "session_handle_nick env arguments i s h =
      (if C then h else if nick_rejected env h i s1 new then put_session i s1 h
       else put_session i s' (h\<lparr>host_claims := claims\<rparr>))"
    unfolding session_handle_nick_def new_def [symmetric] Let_def s1_def [symmetric] s'_def claims_def
      C_def snprintf_into_fits [OF len] by (simp only: if_or_fold)
  show thesis
  proof (cases "C \<or> nick_rejected env h i s1 new")
    case True
    then show thesis using same loaded eq by (cases C) (simp_all add: s1_def)
  next
    case False
    have w: "who s' = (who s)\<lparr>ls_name := new\<rparr>" "phase s' = phase s" "has_joined_room s' = has_joined_room s"
      by (simp_all add: s'_def s1_def)
    from False have c: "\<not> C" "\<not> nick_rejected env h i s1 new" by simp_all
    show thesis
    proof (rule renamed [OF _ w _ len])
      show "session_handle_nick env arguments i s h = put_session i s' (h\<lparr>host_claims := claims\<rparr>)"
        using c eq by simp
      show "chat_room_find_user h new = Some j \<Longrightarrow> j = i" for j
        using c(2) by (auto simp: nick_rejected_def)
    qed (use c(1) in \<open>auto simp: C_def host_username_reserved_def\<close>)
  qed
qed

section \<open>Operators of the local network\<close>

definition past_name_gate :: "session_phase \<Rightarrow> bool" where
  "past_name_gate p \<longleftrightarrow> p = NameCleared \<or> p = Registered \<or> p = InRoom"

text \<open>A session that is an operator has valid credentials, a private address and an
  operator's name; and behind the check of names nobody else has such a name.\<close>

definition lan_sound :: "adm_env \<Rightarrow> adm_host \<Rightarrow> adm_session \<Rightarrow> bool" where
  "lan_sound env h s \<longleftrightarrow>
     (is_lan_operator (who s) \<longrightarrow>
        lan_operator_credentials_valid (who s) \<and>
        session_is_lan_client (env_pton4 env) (env_pton6 env) (client_ip s) \<and>
        host_is_lan_operator_username (host_lan_ops h) (user_name s)) \<and>
     (past_name_gate (phase s) \<longrightarrow>
        host_is_lan_operator_username (host_lan_ops h) (user_name s) \<longrightarrow> is_lan_operator (who s))"

lemma lan_sound_cong:
  "who s' = who s \<Longrightarrow> phase s' = phase s \<or> \<not> past_name_gate (phase s') \<Longrightarrow>
   host_lan_ops h' = host_lan_ops h \<Longrightarrow> lan_sound env h s \<Longrightarrow> lan_sound env h' s'"
  by (auto simp: lan_sound_def)

lemma lan_sound_past:
  "who s' = who s \<Longrightarrow> past_name_gate (phase s) \<Longrightarrow>
   host_lan_ops h' = host_lan_ops h \<Longrightarrow> lan_sound env h s \<Longrightarrow> lan_sound env h' s'"
  by (auto simp: lan_sound_def)

text \<open>The step of one session leaves the others and the configuration alone.\<close>

definition stage_effect :: "session_id \<Rightarrow> adm_host \<Rightarrow> adm_session \<Rightarrow> adm_host \<Rightarrow> bool" where
  "stage_effect i h s' h' \<longleftrightarrow>
     sessions h' i = Some s' \<and> (\<forall>j. j \<noteq> i \<longrightarrow> sessions h' j = sessions h j) \<and>
     host_lan_ops h' = host_lan_ops h \<and> host_bans h' = host_bans h"

lemma stage_effect_put:
  "host_lan_ops h1 = host_lan_ops h \<Longrightarrow> host_bans h1 = host_bans h \<Longrightarrow> sessions h1 = sessions h \<Longrightarrow>
   stage_effect i h s' (put_session i s' h1)"
  by (simp add: stage_effect_def)

lemma stage_effect_end:
  "host_lan_ops h1 = host_lan_ops h \<Longrightarrow> host_bans h1 = host_bans h \<Longrightarrow> sessions h1 = sessions h \<Longrightarrow>
   stage_effect i h (s\<lparr>phase := Ended\<rparr>) (session_end i s h1)"
  by (simp add: session_end_def stage_effect_put)

lemma assign_lan_sound:
  "is_lan_operator (session_assign_lan_privileges pton4 pton6 ops w) \<Longrightarrow>
   lan_operator_credentials_valid (session_assign_lan_privileges pton4 pton6 ops w) \<and>
   session_is_lan_client pton4 pton6 (ls_ip w) \<and> host_is_lan_operator_username ops (ls_name w)"
  by (auto simp: session_assign_lan_privileges_def split: if_splits)

lemma nick_effect:
  assumes "sessions h i = Some s" "lan_sound env h s"
  shows "\<exists>s'. stage_effect i h s' (session_handle_nick env arguments i s h) \<and> lan_sound env h s' \<and>
     phase s' = phase s \<and> has_joined_room s' = has_joined_room s \<and> client_ip s' = client_ip s \<and>
     host_room (session_handle_nick env arguments i s h) = host_room h \<and>
     (user_name s' = user_name s \<or> (\<forall>j. chat_room_find_user h (user_name s') = Some j \<longrightarrow> j = i))"
proof (cases rule: handle_nick_cases [of env arguments i s h])
  case same
  with assms show ?thesis by (intro exI [of _ s]) (simp add: stage_effect_def)
next
  case loaded
  with assms show ?thesis
    by (intro exI [of _ "session_user_data_load env s"])
      (auto intro: stage_effect_put elim: lan_sound_cong [rotated 3])
next
  case (renamed s' claims new)
  have "lan_sound env h s'"
    using renamed(2,3,7,8) assms(2) by (auto simp: lan_sound_def)
  with renamed show ?thesis
    by (intro exI [of _ s']) (auto intro!: stage_effect_put)
qed

text \<open>One step of a session that is past the accept: the new session and its relation to
  the old one.\<close>

definition phase_next :: "session_phase \<Rightarrow> session_phase \<Rightarrow> bool" where
  "phase_next p q \<longleftrightarrow>
     q = Ended \<or> (p, q) \<in> {(Accepted, Identified), (Identified, LoggedIn), (LoggedIn, NameCleared),
       (NameCleared, Registered), (Registered, InRoom), (InRoom, InRoom)}"

definition stage_gates :: "adm_env \<Rightarrow> adm_host \<Rightarrow> session_id \<Rightarrow> adm_session \<Rightarrow> adm_session \<Rightarrow> bool" where
  "stage_gates env h i s s' \<longleftrightarrow>
     client_ip s' = client_ip s \<and> phase_next (phase s) (phase s') \<and>
     (phase s' = LoggedIn \<longrightarrow>
        \<not> host_is_ip_banned (env_pton4 env) (env_pton6 env) (host_bans h) (client_ip s)) \<and>
     (phase s' = NameCleared \<longrightarrow> user_name s' = user_name s \<and> \<not> name_refused h s) \<and>
     (phase s' = Registered \<longrightarrow> user_name s' = user_name s) \<and>
     (phase s' = InRoom \<longrightarrow> has_joined_room s' \<and>
        (user_name s' = user_name s \<or>
         phase s = InRoom \<and> (\<forall>j. chat_room_find_user h (user_name s') = Some j \<longrightarrow> j = i)))"

lemma gates_end: "stage_gates env h i s (s\<lparr>username_conflict := c, phase := Ended\<rparr>)"
  "stage_gates env h i s (s\<lparr>phase := Ended\<rparr>)"
  by (simp_all add: stage_gates_def phase_next_def)

lemma identify_effect:
  assumes "sessions h i = Some s" "phase s = Accepted" "lan_sound env h s"
  shows "\<exists>s'. stage_effect i h s' (session_identify env banner ms tn sh pref i s h) \<and> lan_sound env h s' \<and>
     stage_gates env h i s s' \<and> host_room (session_identify env banner ms tn sh pref i s h) = host_room h"
proof (cases "session_handshake env banner ms tn sh h s")
  case None
  have "lan_sound env h (s\<lparr>phase := Ended\<rparr>)"
    using assms(3) by (rule lan_sound_cong [rotated 3]) (simp_all add: past_name_gate_def)
  with None gates_end(2) stage_effect_end [of h h i s] show ?thesis
    by (auto simp: session_identify_def session_end_def)
next
  case (Some w0)
  have ip: "ls_ip w0 = client_ip s" by (rule handshake_ip [OF Some])
  define w where "w = session_apply_granted_privileges h
     (session_assign_lan_privileges (env_pton4 env) (env_pton6 env) (host_lan_ops h) w0)"
  define s1 where "s1 = session_user_data_load env (s\<lparr>who := w, phase := Identified\<rparr>)"
  have s1: "who s1 = w" "phase s1 = Identified" by (simp_all add: s1_def)
  have lan: "lan_sound env h s1"
    using assign_lan_sound [of "env_pton4 env" "env_pton6 env" "host_lan_ops h" w0]
    by (auto simp: lan_sound_def s1 past_name_gate_def w_def)
  have ipw: "ls_ip w = client_ip s" by (simp add: w_def ip)
  let ?h1 = "put_session i s1 h"
  have eff1: "stage_effect i h s1 ?h1" by (rule stage_effect_put) simp_all
  have gates: "stage_gates env h i s s'" if "phase s' = Identified" "client_ip s' = client_ip s" for s'
    using that assms(2) by (simp add: stage_gates_def phase_next_def)
  have eq: "session_identify env banner ms tn sh pref i s h =
      (case pref of None \<Rightarrow> ?h1
       | Some nick \<Rightarrow> if user_data_loaded s1 \<and> nick \<noteq> [] \<and> \<not> strcasecmp_eq (user_name s1) nick
           then session_handle_nick env nick i s1 ?h1 else ?h1)"
    unfolding s1_def w_def by (simp only: session_identify_def Some Let_def option.case)
  show ?thesis
  proof (cases "session_identify env banner ms tn sh pref i s h = ?h1")
    case True
    with eff1 lan gates [of s1] s1 ipw show ?thesis by auto
  next
    case False
    then obtain nick where n: "session_identify env banner ms tn sh pref i s h = session_handle_nick env nick i s1 ?h1"
      using eq by (auto split: option.splits if_splits)
    have "lan_sound env ?h1 s1" using lan by (simp add: lan_sound_def)
    from nick_effect [OF _ this, of i nick] obtain s' where s':
      "stage_effect i ?h1 s' (session_handle_nick env nick i s1 ?h1)" "lan_sound env ?h1 s'"
      "phase s' = phase s1" "client_ip s' = client_ip s1"
      "host_room (session_handle_nick env nick i s1 ?h1) = host_room ?h1" by auto
    have "stage_effect i h s' (session_handle_nick env nick i s1 ?h1)"
      using s'(1) by (simp add: stage_effect_def)
    with s' n gates [of s'] s1 ipw show ?thesis by (auto simp: lan_sound_def)
  qed
qed

text \<open>The effect of the other stages is a plain case distinction: the session ends or
  goes on to the next phase with the same identity.\<close>

definition simple_effect :: "adm_env \<Rightarrow> adm_host \<Rightarrow> session_id \<Rightarrow> adm_session \<Rightarrow> adm_host \<Rightarrow> bool" where
  "simple_effect env h i s h' \<longleftrightarrow>
     (\<exists>s'. stage_effect i h s' h' \<and> who s' = who s \<and> stage_gates env h i s s' \<and>
        (past_name_gate (phase s') \<longrightarrow> past_name_gate (phase s) \<or> \<not> name_refused h s))"

lemma simple_effect_end:
  "host_lan_ops h1 = host_lan_ops h \<Longrightarrow> host_bans h1 = host_bans h \<Longrightarrow> sessions h1 = sessions h \<Longrightarrow>
   simple_effect env h i s (session_end i s h1)"
  using stage_effect_end [of h1 h i s] gates_end(2) [of env h i s]
  by (auto simp: simple_effect_def past_name_gate_def)

lemma simple_effect_put:
  "\<lbrakk>host_lan_ops h1 = host_lan_ops h; host_bans h1 = host_bans h; sessions h1 = sessions h;
    who s' = who s; stage_gates env h i s s';
    past_name_gate (phase s') \<Longrightarrow> past_name_gate (phase s) \<or> \<not> name_refused h s\<rbrakk> \<Longrightarrow>
   simple_effect env h i s (put_session i s' h1)"
  using stage_effect_put [of h1 h i s'] by (auto simp: simple_effect_def)

lemma login_effect:
  assumes "phase s = Identified"
  shows "simple_effect env h i s (session_login env c ls account salt fixnick pool_ok i s h)"
    and "host_room (session_login env c ls account salt fixnick pool_ok i s h) = host_room h"
  using assms
  by (auto simp: session_login_def session_run_login_tui_def Let_def session_end_def stage_gates_def
      phase_next_def past_name_gate_def
      intro!: simple_effect_end [unfolded session_end_def] simple_effect_put
      split: login_outcome.split)

lemma clear_name_effect:
  assumes "phase s = LoggedIn"
  shows "simple_effect env h i s (session_clear_name i s h)"
    and "host_room (session_clear_name i s h) = host_room h"
  using assms
  by (auto simp: session_clear_name_def session_end_def stage_gates_def
      phase_next_def past_name_gate_def intro!: simple_effect_put)

lemma register_effect:
  assumes "phase s = NameCleared"
  shows "simple_effect env h i s (session_register env alloc now gn dn i s h)"
    and "host_room (session_register env alloc now gn dn i s h) = host_room h"
  using assms
  by (auto simp: session_register_def session_end_def stage_gates_def
      phase_next_def past_name_gate_def intro!: simple_effect_put
      split: prod.split host_join_attempt_result.split)

lemma enter_effect:
  assumes "phase s = Registered"
  shows "simple_effect env h i s (session_enter alloc i s h)"
  using assms
  by (auto simp: session_enter_def stage_gates_def phase_next_def past_name_gate_def
      intro!: simple_effect_put)

lemma leave_effect: "simple_effect env h i s (session_leave i s h)"
  unfolding session_leave_def by (rule simple_effect_end) simp_all

lemma lan_sound_simple:
  assumes "simple_effect env h i s h'" "lan_sound env h s"
  shows "\<exists>s'. stage_effect i h s' h' \<and> lan_sound env h s' \<and> stage_gates env h i s s'"
proof -
  from assms(1) obtain s' where s': "stage_effect i h s' h'" "who s' = who s" "stage_gates env h i s s'"
    "past_name_gate (phase s') \<Longrightarrow> past_name_gate (phase s) \<or> \<not> name_refused h s"
    by (auto simp: simple_effect_def)
  with assms(2) have "lan_sound env h s'" by (auto simp: lan_sound_def name_refused_def)
  with s' show ?thesis by blast
qed

section \<open>The invariant of the host\<close>

definition adm_inv :: "adm_env \<Rightarrow> adm_host \<Rightarrow> bool" where
  "adm_inv env h \<longleftrightarrow>
     (\<forall>i s. sessions h i = Some s \<longrightarrow> lan_sound env h s \<and> (phase s = InRoom \<longrightarrow> has_joined_room s)) \<and>
     (\<forall>m\<in>set (members (host_room h)). \<exists>s. sessions h m = Some s \<and> phase s = InRoom) \<and>
     room_inv (host_room h)"

definition room_effect :: "session_id \<Rightarrow> adm_session \<Rightarrow> adm_host \<Rightarrow> adm_host \<Rightarrow> bool" where
  "room_effect i s' h h' \<longleftrightarrow>
     room_inv (host_room h') \<and>
     (host_room h' = host_room h \<and> (i \<in> set (members (host_room h)) \<longrightarrow> phase s' = InRoom) \<or>
      phase s' = InRoom \<and> (\<forall>s. sessions h i = Some s \<longrightarrow> phase s = Registered) \<and>
        set (members (host_room h')) \<subseteq> insert i (set (members (host_room h))) \<or>
      phase s' = Ended \<and> set (members (host_room h')) = set (members (host_room h)) - {i})"

lemma new_session_simps [simp]:
  "phase (new_session kind ip i) = Accepted" "is_lan_operator (who (new_session kind ip i)) = False"
  by (simp_all add: new_session_def)

lemma room_add_effect:
  assumes "room_inv room"
  shows "room_inv (chat_room_add alloc i room)"
    and "set (members (chat_room_add alloc i room)) \<subseteq> insert i (set (members room))"
  using assms
  by (cases rule: room_add_cases [of alloc i room]; auto simp: room_inv_def)+

lemma room_remove_effect:
  assumes "room_inv room"
  shows "room_inv (chat_room_remove i room)"
    and "set (members (chat_room_remove i room)) = set (members room) - {i}"
  using assms chat_room_remove_members [of room i]
  by (auto simp: room_inv_def intro: le_trans [OF length_filter_le])

text \<open>The summary of a step of a session: what its new state is, and what the step does to
  the room.\<close>

lemma stage_summary:
  assumes "adm_step env h (Stage i) h'" "adm_inv env h"
  shows "\<exists>s'. stage_effect i h s' h' \<and> lan_sound env h s' \<and> room_effect i s' h h' \<and>
    (\<forall>s. sessions h i = Some s \<longrightarrow> stage_gates env h i s s') \<and>
    (sessions h i = None \<longrightarrow> phase s' = Accepted)"
proof -
  have inv: "sessions h i = Some s \<Longrightarrow> lan_sound env h s \<and> (phase s = InRoom \<longrightarrow> has_joined_room s)" for s
    using assms(2) by (simp add: adm_inv_def)
  have room: "room_inv (host_room h)" using assms(2) by (simp add: adm_inv_def)
  have general: ?thesis if "sessions h i = Some s" "stage_effect i h s' h'" "lan_sound env h s'"
    "stage_gates env h i s s'" "room_effect i s' h h'" for s s'
    using that by auto
  have outside: "i \<notin> set (members (host_room h))" if "sessions h i = Some s" "phase s \<noteq> InRoom" for s
    using assms(2) that by (auto simp: adm_inv_def)
  have quiet: ?thesis if "simple_effect env h i s h'" "sessions h i = Some s" "host_room h' = host_room h"
    "phase s \<noteq> InRoom" for s
    using lan_sound_simple [OF that(1)] inv [OF that(2)] general [OF that(2)] that(3) room outside [OF that(2,4)]
    by (auto simp: room_effect_def)
  from assms(1) show ?thesis
  proof cases
    case (accept kind ip)
    have "lan_sound env h (new_session kind ip i)" by (simp add: lan_sound_def past_name_gate_def)
    moreover have "i \<notin> set (members (host_room h))" using assms(2) accept(2) by (auto simp: adm_inv_def)
    ultimately show ?thesis using accept room
      by (intro exI [of _ "new_session kind ip i"]) (simp add: stage_effect_def room_effect_def)
  next
    case (identify s banner ms tn sh pref)
    with identify_effect [of h i s env banner ms tn sh pref] inv [of s] general [of s] room
      outside [of s] show ?thesis
      by (auto simp: room_effect_def)
  next
    case (login s c ls account salt fixnick pool_ok)
    with quiet [of s] login_effect [OF login(3)] show ?thesis by simp
  next
    case (clear_name s)
    with quiet [of s] clear_name_effect [OF clear_name(3)] show ?thesis by simp
  next
    case (register s alloc now gn dn)
    with quiet [of s] register_effect [OF register(3)] show ?thesis by simp
  next
    case (enter s alloc)
    let ?s' = "s\<lparr>has_joined_room := True, phase := InRoom\<rparr>"
    have h': "sessions h' i = Some ?s'" "host_room h' = chat_room_add alloc i (host_room h)"
      by (simp_all add: enter(1) session_enter_def)
    have "room_effect i ?s' h h'"
      using room_add_effect [OF room, of alloc i] enter(2,3) by (simp add: room_effect_def h')
    moreover obtain s' where "stage_effect i h s' h'" "lan_sound env h s'" "stage_gates env h i s s'"
      using lan_sound_simple [OF enter_effect [OF enter(3), of env h i alloc]] inv [OF enter(2)] enter(1) by auto
    ultimately show ?thesis using general [OF enter(2)] h'(1) by (auto simp: stage_effect_def)
  next
    case (nick s arguments)
    from nick_effect [OF nick(2), of env arguments] inv [OF nick(2)] obtain s' where s':
      "stage_effect i h s' h'" "lan_sound env h s'" "phase s' = phase s" "has_joined_room s' = has_joined_room s"
      "client_ip s' = client_ip s" "host_room h' = host_room h"
      "user_name s' = user_name s \<or> (\<forall>j. chat_room_find_user h (user_name s') = Some j \<longrightarrow> j = i)"
      using nick(1) by blast
    then have "stage_gates env h i s s'"
      using nick(3) inv [OF nick(2)] by (auto simp: stage_gates_def phase_next_def)
    with s' nick(3) general [OF nick(2)] room show ?thesis by (auto simp: room_effect_def)
  next
    case (leave s)
    have h': "sessions h' i = Some (s\<lparr>phase := Ended\<rparr>)" "host_room h' = chat_room_remove i (host_room h)"
      using inv [OF leave(2)] leave(3) by (simp_all add: leave(1) session_leave_def session_end_def)
    have "room_effect i (s\<lparr>phase := Ended\<rparr>) h h'"
      using room_remove_effect [OF room, of i] by (simp add: room_effect_def h')
    moreover obtain s' where "stage_effect i h s' h'" "lan_sound env h s'" "stage_gates env h i s s'"
      using lan_sound_simple [OF leave_effect [of env h i s]] inv [OF leave(2)] leave(1) by auto
    ultimately show ?thesis using general [OF leave(2)] h'(1) by (auto simp: stage_effect_def)
  next
    case (lost s)
    with quiet [of s] simple_effect_end [of h h env i s] show ?thesis by (simp add: session_end_def)
  qed
qed

lemma adm_inv_step:
  assumes "adm_step env h l h'" "adm_inv env h"
  shows "adm_inv env h'"
proof (cases l)
  case (Stage i)
  from stage_summary [OF assms(1) [unfolded Stage] assms(2)] obtain s' where sum:
    "stage_effect i h s' h' \<and> lan_sound env h s' \<and> room_effect i s' h h' \<and>
     (\<forall>s. sessions h i = Some s \<longrightarrow> stage_gates env h i s s') \<and>
     (sessions h i = None \<longrightarrow> phase s' = Accepted)" by (rule exE)
  then have joined: "phase s' = InRoom \<longrightarrow> has_joined_room s'"
    by (cases "sessions h i") (simp_all add: stage_gates_def)
  have lan: "lan_sound env h' s = lan_sound env h s" for s
    using sum by (simp add: lan_sound_def stage_effect_def)
  have sess: "sessions h' j = (if j = i then Some s' else sessions h j)" for j
    using sum by (simp add: stage_effect_def)
  have was: "phase s' = InRoom \<or> phase s' = Ended" if "i \<in> set (members (host_room h))"
  proof -
    have "\<exists>s. sessions h i = Some s \<and> phase s = InRoom"
      using that assms(2) by (simp add: adm_inv_def)
    then show ?thesis using sum by (auto simp: stage_gates_def phase_next_def)
  qed
  have "\<exists>s. sessions h' m = Some s \<and> phase s = InRoom" if "m \<in> set (members (host_room h'))" for m
  proof (cases "m = i")
    case True
    with that was sum show ?thesis by (auto simp: room_effect_def sess)
  next
    case False
    with that sum have "m \<in> set (members (host_room h))" by (auto simp: room_effect_def)
    with False assms(2) show ?thesis by (simp add: adm_inv_def sess)
  qed
  moreover have "\<forall>j s. sessions h' j = Some s \<longrightarrow> lan_sound env h' s \<and> (phase s = InRoom \<longrightarrow> has_joined_room s)"
    using assms(2) sum joined by (simp add: adm_inv_def sess lan)
  moreover have "room_inv (host_room h')" using sum by (simp add: room_effect_def)
  ultimately show ?thesis by (simp add: adm_inv_def)
qed (use assms in \<open>auto elim!: adm_ban adm_lift simp: adm_inv_def lan_sound_def\<close>)

lemma adm_step_lan_ops: "adm_step env h l h' \<Longrightarrow> adm_inv env h \<Longrightarrow> host_lan_ops h' = host_lan_ops h"
  using stage_summary [of env h _ h'] by (cases l) (auto elim!: adm_ban adm_lift simp: stage_effect_def)

lemma adm_run_inv:
  "adm_run env h0 ls h \<Longrightarrow> adm_inv env h0 \<Longrightarrow> adm_inv env h \<and> host_lan_ops h = host_lan_ops h0"
  by (induction rule: adm_run.induct) (auto simp: adm_inv_step adm_step_lan_ops)

definition adm_start :: "adm_host \<Rightarrow> bool" where
  "adm_start h \<longleftrightarrow> sessions h = (\<lambda>_. None) \<and> host_room h = chat_room_init"

lemma adm_start_inv: "adm_start h \<Longrightarrow> adm_inv env h"
  by (simp add: adm_start_def adm_inv_def chat_room_init_def room_inv_def)

text \<open>
  C1: In the chat room the name of an operator of the local network is genuine.  From the
  start of the host on, whatever sessions connect, log in, change their nickname and leave
  in whatever order, and whatever bans are set and lifted meanwhile, a member of the room
  carries the name of an operator, in any capitalisation, exactly when it is a session
  with that privilege, and then it has valid credentials and a private address.
\<close>

theorem room_operators_genuine:
  assumes "adm_start h0" "adm_run env h0 ls h" "m \<in> set (members (host_room h))"
  shows "\<exists>s. sessions h m = Some s \<and> phase s = InRoom \<and>
    (host_is_lan_operator_username (host_lan_ops h0) (user_name s) \<longleftrightarrow> is_lan_operator (who s)) \<and>
    (is_lan_operator (who s) \<longrightarrow> lan_operator_credentials_valid (who s) \<and>
       session_is_lan_client (env_pton4 env) (env_pton6 env) (client_ip s))"
proof -
  have inv: "adm_inv env h" "host_lan_ops h = host_lan_ops h0"
    using adm_run_inv [OF assms(2) adm_start_inv [OF assms(1)]] by simp_all
  with assms(3) obtain s where s: "sessions h m = Some s" "phase s = InRoom"
    unfolding adm_inv_def by meson
  with inv(1) have "lan_sound env h s" by (simp add: adm_inv_def)
  with s inv(2) show ?thesis by (auto simp: lan_sound_def past_name_gate_def)
qed

section \<open>Bans at the door\<close>

definition behind_ban_gate :: "session_phase \<Rightarrow> bool" where
  "behind_ban_gate p \<longleftrightarrow> p = LoggedIn \<or> past_name_gate p"

lemma ban_add_keeps:
  assumes "host_is_ip_banned pton4 pton6 b a"
  shows "host_is_ip_banned pton4 pton6 (snd (host_add_ban_entry pton4 pton6 u i b)) a"
proof -
  obtain bs where "snd (host_add_ban_entry pton4 pton6 u i b) = b\<lparr>bans := bans b @ bs\<rparr>"
  proof (cases "snd (host_add_ban_entry pton4 pton6 u i b) = b")
    case True
    then show thesis using that [of "[]"] by simp
  next
    case False
    then show thesis
      using that by (auto simp: host_add_ban_entry_def Let_def split: if_splits)
  qed
  moreover have "host_is_protected_ip_unlocked (b\<lparr>bans := xs\<rparr>) x = host_is_protected_ip_unlocked b x" for xs x
    by (simp add: host_is_protected_ip_unlocked_def)
  ultimately show ?thesis using assms by (auto simp: host_is_ip_banned_def split: if_splits)
qed

definition shut_out :: "adm_env \<Rightarrow> cstr \<Rightarrow> adm_host \<Rightarrow> bool" where
  "shut_out env a h \<longleftrightarrow>
     host_is_ip_banned (env_pton4 env) (env_pton6 env) (host_bans h) a \<and>
     (\<forall>i s. sessions h i = Some s \<longrightarrow> client_ip s = a \<longrightarrow> \<not> behind_ban_gate (phase s))"

lemma shut_out_step:
  assumes "adm_step env h l h'" "adm_inv env h" "shut_out env a h" "\<forall>t. l \<noteq> BanLifted t"
  shows "shut_out env a h'"
proof (cases l)
  case (Stage i)
  from stage_summary [OF assms(1) [unfolded Stage] assms(2)] obtain s' where sum:
    "stage_effect i h s' h' \<and> lan_sound env h s' \<and> room_effect i s' h h' \<and>
     (\<forall>s. sessions h i = Some s \<longrightarrow> stage_gates env h i s s') \<and>
     (sessions h i = None \<longrightarrow> phase s' = Accepted)" by (rule exE)
  have "\<not> behind_ban_gate (phase s')" if "client_ip s' = a"
  proof (cases "sessions h i")
    case None
    with sum show ?thesis by (simp add: behind_ban_gate_def past_name_gate_def)
  next
    case (Some s)
    with sum have g: "stage_gates env h i s s'" by simp
    then have "client_ip s = a" using that by (simp add: stage_gates_def)
    with Some assms(3) have "\<not> behind_ban_gate (phase s)"
      "host_is_ip_banned (env_pton4 env) (env_pton6 env) (host_bans h) (client_ip s)"
      by (simp_all add: shut_out_def)
    with g show ?thesis
      by (auto simp: stage_gates_def phase_next_def behind_ban_gate_def past_name_gate_def)
  qed
  with sum assms(3) show ?thesis by (simp add: shut_out_def stage_effect_def) (metis option.inject)
next
  case (BanAdded u b)
  with assms(1,3) show ?thesis by (auto elim!: adm_ban simp: shut_out_def ban_add_keeps)
qed (use assms(4) in auto)

text \<open>
  C3: A banned address does not get into the room.  Once an address is banned, by itself
  or by a range, and no session from it has passed the check, then as long as no ban is
  lifted no session from that address is a member of the room: neither one that was
  waiting nor any that connects later, whatever names and passwords it uses.
\<close>

theorem banned_address_never_enters:
  assumes "adm_inv env h" "shut_out env a h" "adm_run env h ls h'"
    and "\<forall>t. BanLifted t \<notin> set ls" "m \<in> set (members (host_room h'))" "sessions h' m = Some s"
  shows "client_ip s \<noteq> a"
proof -
  have "adm_inv env h' \<and> shut_out env a h'"
    using assms(3,1,2,4)
  proof (induction rule: adm_run.induct)
    case (step ls h1 l h2)
    then have "adm_inv env h1" "shut_out env a h1" "\<forall>t. l \<noteq> BanLifted t" by auto
    with step(2) adm_inv_step shut_out_step show ?case by blast
  qed simp
  moreover from this assms(5,6) have "phase s = InRoom" by (auto simp: adm_inv_def)
  ultimately show ?thesis
    using assms(6) by (auto simp: shut_out_def behind_ban_gate_def past_name_gate_def)
qed

section \<open>Names in the room\<close>

text \<open>Sessions that hold a name: the members, and those that passed the check of names and
  wait for their entry.\<close>

definition waiting :: "adm_session \<Rightarrow> bool" where
  "waiting s \<longleftrightarrow> phase s = NameCleared \<or> phase s = Registered"

definition holds_name :: "adm_host \<Rightarrow> session_id \<Rightarrow> adm_session \<Rightarrow> bool" where
  "holds_name h i s \<longleftrightarrow> sessions h i = Some s \<and> (i \<in> set (members (host_room h)) \<or> waiting s)"

definition same_name :: "adm_session \<Rightarrow> adm_session \<Rightarrow> bool" where
  "same_name s t \<longleftrightarrow> strncmp_eq USERNAME_LEN (user_name s) (user_name t)"

definition unique_names :: "adm_host \<Rightarrow> bool" where
  "unique_names h \<longleftrightarrow>
     (\<forall>i j s t. holds_name h i s \<longrightarrow> holds_name h j t \<longrightarrow> same_name s t \<longrightarrow> i = j)"

lemma unique_namesD:
  "unique_names h \<Longrightarrow> holds_name h i s \<Longrightarrow> holds_name h j t \<Longrightarrow> same_name s t \<Longrightarrow> i = j"
  by (simp add: unique_names_def)

text \<open>A step in which no other session waits with the name that the moving session has
  after it.\<close>

definition no_rival :: "session_id \<Rightarrow> adm_host \<Rightarrow> adm_host \<Rightarrow> bool" where
  "no_rival i h h' \<longleftrightarrow>
     (\<forall>s' j t. sessions h' i = Some s' \<longrightarrow> j \<noteq> i \<longrightarrow> sessions h j = Some t \<longrightarrow> waiting t \<longrightarrow> \<not> same_name s' t)"

inductive calm_run :: "adm_env \<Rightarrow> adm_host \<Rightarrow> adm_host \<Rightarrow> bool" for env h0 where
  calm_start: "calm_run env h0 h0"
| calm_stage: "calm_run env h0 h \<Longrightarrow> adm_step env h (Stage i) h' \<Longrightarrow> no_rival i h h' \<Longrightarrow> calm_run env h0 h'"
| calm_ban: "calm_run env h0 h \<Longrightarrow> adm_step env h (BanAdded u a) h' \<Longrightarrow> calm_run env h0 h'"
| calm_lift: "calm_run env h0 h \<Longrightarrow> adm_step env h (BanLifted t) h' \<Longrightarrow> calm_run env h0 h'"

lemma find_user_None:
  assumes "chat_room_find_user h n = None" "j \<in> set (members (host_room h))" "sessions h j = Some t"
  shows "\<not> strncmp_eq USERNAME_LEN (user_name t) n"
  using assms by (auto simp: chat_room_find_user_def find_None_iff member_named_def)

lemma find_user_Some:
  assumes "j \<in> set (members (host_room h))" "sessions h j = Some t" "strncmp_eq USERNAME_LEN (user_name t) n"
  obtains k u where "chat_room_find_user h n = Some k" "k \<in> set (members (host_room h))"
    "sessions h k = Some u" "strncmp_eq USERNAME_LEN (user_name u) n"
proof (cases "chat_room_find_user h n")
  case None
  with find_user_None assms show thesis by blast
next
  case (Some k)
  then have k: "k \<in> set (members (host_room h))" "member_named h n k"
    by (auto simp: chat_room_find_user_def find_Some_iff)
  then obtain u where "sessions h k = Some u" "strncmp_eq USERNAME_LEN (user_name u) n"
    by (auto simp: member_named_def split: option.splits)
  with Some k show thesis using that by blast
qed

lemma same_name_sym: "same_name s t \<longleftrightarrow> same_name t s"
  by (auto simp: same_name_def strncmp_eq_def)

lemma same_name_trans: "same_name s t \<Longrightarrow> user_name s' = user_name s \<Longrightarrow> same_name s' t"
  by (simp add: same_name_def)

text \<open>The session that moves does not take a name that another session holds.\<close>

lemma mover_name_free:
  assumes inv: "adm_inv env h" and uniq: "unique_names h" and rival: "no_rival i h h'"
    and sum: "stage_effect i h s' h'" "room_effect i s' h h'"
      "\<forall>s. sessions h i = Some s \<longrightarrow> stage_gates env h i s s'" "sessions h i = None \<longrightarrow> phase s' = Accepted"
    and mine: "holds_name h' i s'" and other: "holds_name h j t" "j \<noteq> i"
  shows "\<not> same_name s' t"
proof
  assume same: "same_name s' t"
  have s': "sessions h' i = Some s'" using sum(1) by (simp add: stage_effect_def)
  have notwait: "\<not> waiting t"
    using rival s' other same by (auto simp: no_rival_def holds_name_def)
  then have jm: "j \<in> set (members (host_room h))" and t: "sessions h j = Some t"
    using other(1) by (auto simp: holds_name_def)
  have "i \<in> set (members (host_room h)) \<Longrightarrow> \<exists>s. sessions h i = Some s \<and> phase s = InRoom"
    using inv by (simp add: adm_inv_def)
  with sum(2-4) mine obtain s where s: "sessions h i = Some s" and g: "stage_gates env h i s s'"
    by (cases "sessions h i") (auto simp: holds_name_def waiting_def room_effect_def)
  have kept: False if "user_name s' = user_name s" "holds_name h i s"
    using unique_namesD [OF uniq that(2) other(1)] same_name_trans [OF same, of s] that(1) other(2) by simp
  have clash: False if "phase s' = NameCleared"
    using g that find_user_None [OF _ jm t, of "user_name s"] same
    by (auto simp: stage_gates_def name_refused_def same_name_def strncmp_eq_def)
  have wait: False if "phase s' = Registered"
  proof -
    have "phase s = NameCleared" "user_name s' = user_name s"
      using g that by (auto simp: stage_gates_def phase_next_def)
    with kept s show False by (simp add: holds_name_def waiting_def)
  qed
  have room: False if "phase s' = InRoom" "i \<in> set (members (host_room h'))"
  proof (cases "user_name s' = user_name s")
    case True
    have "phase s = Registered \<or> phase s = InRoom" using g that(1) by (auto simp: stage_gates_def phase_next_def)
    with that sum(2) s have "holds_name h i s"
      by (auto simp: holds_name_def waiting_def room_effect_def)
    with kept True show False by blast
  next
    case False
    with g that(1) have own: "phase s = InRoom" "\<And>k. chat_room_find_user h (user_name s') = Some k \<Longrightarrow> k = i"
      by (auto simp: stage_gates_def)
    obtain k u where k: "chat_room_find_user h (user_name s') = Some k" "k \<in> set (members (host_room h))"
      "sessions h k = Some u" "strncmp_eq USERNAME_LEN (user_name u) (user_name s')"
      using find_user_Some [OF jm t, of "user_name s'"] same by (auto simp: same_name_def strncmp_eq_def)
    with own(2) have "k = i" by blast
    moreover have "same_name u t" using k(4) same by (simp add: same_name_def strncmp_eq_def)
    moreover have "holds_name h k u" using k by (simp add: holds_name_def)
    ultimately show False using unique_namesD [OF uniq _ other(1), of k u] other(2) by simp
  qed
  have "i \<in> set (members (host_room h')) \<Longrightarrow> phase s' = InRoom"
    using adm_inv_step sum(2) s inv g
    by (auto simp: room_effect_def)
  then show False using mine clash wait room by (auto simp: holds_name_def waiting_def)
qed

lemma unique_names_stage:
  assumes "adm_step env h (Stage i) h'" "adm_inv env h" "unique_names h" "no_rival i h h'"
  shows "unique_names h'"
proof -
  from stage_summary [OF assms(1,2)] obtain s' where sum:
    "stage_effect i h s' h' \<and> lan_sound env h s' \<and> room_effect i s' h h' \<and>
     (\<forall>s. sessions h i = Some s \<longrightarrow> stage_gates env h i s s') \<and>
     (sessions h i = None \<longrightarrow> phase s' = Accepted)" by (rule exE)
  then have free: "holds_name h' i s' \<Longrightarrow> holds_name h j t \<Longrightarrow> j \<noteq> i \<Longrightarrow> \<not> same_name s' t" for j t
    using mover_name_free [OF assms(2-4), of s' j t] by simp
  have old: "holds_name h j t" if "holds_name h' j t" "j \<noteq> i" for j t
    using that sum by (auto simp: holds_name_def stage_effect_def room_effect_def)
  have new: "t = s'" if "holds_name h' i t" for t
    using that sum by (simp add: holds_name_def stage_effect_def)
  show ?thesis
    unfolding unique_names_def
  proof (intro allI impI)
    fix j k t u assume jk: "holds_name h' j t" "holds_name h' k u" "same_name t u"
    show "j = k"
    proof (cases "j = i \<or> k = i")
      case True
      with jk free old new same_name_sym show ?thesis by metis
    next
      case False
      with jk old unique_namesD [OF assms(3)] show ?thesis by blast
    qed
  qed
qed

lemma unique_names_bans [simp]: "unique_names (h\<lparr>host_bans := b\<rparr>) = unique_names h"
  by (simp add: unique_names_def holds_name_def)

lemma calm_run_names: "calm_run env h0 h \<Longrightarrow> adm_start h0 \<Longrightarrow> adm_inv env h \<and> unique_names h"
proof (induction rule: calm_run.induct)
  case calm_start
  then show ?case
    by (simp add: adm_start_inv) (simp add: adm_start_def unique_names_def holds_name_def)
next
  case (calm_stage h i h')
  then show ?case using adm_inv_step unique_names_stage by blast
next
  case (calm_ban h u a h')
  then have "adm_inv env h'" using adm_inv_step by blast
  with calm_ban show ?case by (auto elim!: adm_ban)
next
  case (calm_lift h t h')
  then have "adm_inv env h'" using adm_inv_step by blast
  with calm_lift show ?case by (auto elim!: adm_lift)
qed


section \<open>Executing steps\<close>

text \<open>The inputs of the steps, and their execution where the session has reached the
  stage.\<close>

datatype adm_input =
    IAccept session_id session_transport cstr
  | IIdentify session_id "cstr option" "auth_message list" "cstr option" bool "cstr option"
  | ILogin session_id bool "login_input list" "cstr \<times> claim_bytes" claim_bytes bool bool
  | IClear session_id
  | IRegister session_id "nat \<Rightarrow> bool" timespec timespec timespec
  | IEnter session_id "nat \<Rightarrow> bool"
  | INick session_id cstr
  | ILeave session_id
  | IBan "cstr option" "cstr option"

fun input_label :: "adm_input \<Rightarrow> adm_label" where
  "input_label (IAccept i k ip) = Stage i"
| "input_label (IIdentify i b ms tn sh pref) = Stage i"
| "input_label (ILogin i c ls acc salt fx p) = Stage i"
| "input_label (IClear i) = Stage i"
| "input_label (IRegister i al n g d) = Stage i"
| "input_label (IEnter i al) = Stage i"
| "input_label (INick i a) = Stage i"
| "input_label (ILeave i) = Stage i"
| "input_label (IBan u a) = BanAdded u a"

definition at_phase ::
  "session_id \<Rightarrow> session_phase \<Rightarrow> (adm_session \<Rightarrow> adm_host) \<Rightarrow> adm_host \<Rightarrow> adm_host option" where
  "at_phase i p f h =
     (case sessions h i of None \<Rightarrow> None | Some s \<Rightarrow> if phase s = p then Some (f s) else None)"

fun adm_exec :: "adm_env \<Rightarrow> adm_input \<Rightarrow> adm_host \<Rightarrow> adm_host option" where
  "adm_exec env (IAccept i kind ip) h =
     (case sessions h i of None \<Rightarrow> Some (put_session i (new_session kind ip i) h) | Some s \<Rightarrow> None)"
| "adm_exec env (IIdentify i b ms tn sh pref) h =
     at_phase i Accepted (\<lambda>s. session_identify env b ms tn sh pref i s h) h"
| "adm_exec env (ILogin i c ls acc salt fx p) h =
     at_phase i Identified (\<lambda>s. session_login env c ls acc salt fx p i s h) h"
| "adm_exec env (IClear i) h = at_phase i LoggedIn (\<lambda>s. session_clear_name i s h) h"
| "adm_exec env (IRegister i al n g d) h =
     at_phase i NameCleared (\<lambda>s. session_register env al n g d i s h) h"
| "adm_exec env (IEnter i al) h = at_phase i Registered (\<lambda>s. session_enter al i s h) h"
| "adm_exec env (INick i a) h = at_phase i InRoom (\<lambda>s. session_handle_nick env a i s h) h"
| "adm_exec env (ILeave i) h = at_phase i InRoom (\<lambda>s. session_leave i s h) h"
| "adm_exec env (IBan u a) h =
     Some (h\<lparr>host_bans := snd (host_add_ban_entry (env_pton4 env) (env_pton6 env) u a (host_bans h))\<rparr>)"

fun adm_execs :: "adm_env \<Rightarrow> adm_input list \<Rightarrow> adm_host \<Rightarrow> adm_host option" where
  "adm_execs env [] h = Some h"
| "adm_execs env (x # xs) h =
     (case adm_exec env x h of None \<Rightarrow> None | Some h' \<Rightarrow> adm_execs env xs h')"

lemma at_phase_Some:
  "at_phase i p f h = Some h' \<longleftrightarrow> (\<exists>s. sessions h i = Some s \<and> phase s = p \<and> h' = f s)"
  by (auto simp: at_phase_def split: option.splits)

lemma adm_exec_step: "adm_exec env x h = Some h' \<Longrightarrow> adm_step env h (input_label x) h'"
  by (cases x) (auto simp: at_phase_Some intro: adm_step.intros split: option.splits)

lemma adm_run_append:
  "adm_run env h0 ls h \<Longrightarrow> adm_step env h l h' \<Longrightarrow> adm_run env h' ls' h'' \<Longrightarrow>
   adm_run env h0 (ls @ l # ls') h''"
proof (rotate_tac 2, induction rule: adm_run.induct)
  case start
  then show ?case using adm_run.step by simp
next
  case (step ls' h1 l1 h2)
  then show ?case using adm_run.step [of env h0 "ls @ l # ls'" h1 l1 h2] by simp
qed

lemma adm_execs_run:
  "adm_execs env xs h = Some h' \<Longrightarrow> adm_run env h (map input_label xs) h'"
proof (induction xs arbitrary: h)
  case (Cons x xs)
  then obtain h1 where h1: "adm_exec env x h = Some h1" "adm_execs env xs h1 = Some h'"
    by (auto split: option.splits)
  from adm_run_append [OF adm_run.start adm_exec_step [OF h1(1)] Cons.IH [OF h1(2)]] show ?case
    by simp
qed (simp add: adm_run.start)

end
