(* ===== verification/Room_Entry.thy ===== *)
theory Room_Entry
  imports Admission
begin

text \<open>
  What the stages of \<open>Admission\<close> promise to a single session: that its thread comes to an
  end or into the room, that the way is open for a session nothing speaks against, that a
  registered name needs its password; and two ways in which the rules on names are
  circumvented.  The concrete host at the beginning serves as an example.
\<close>

section \<open>An example host\<close>

definition demo_env :: adm_env where
  "demo_env =
     \<lparr>env_pton4 = (\<lambda>t. if t = ''10.0.0.2'' then Some 0x0A000002 else if t = ''203.0.113.9'' then Some 0xCB007109
        else None),
      env_pton6 = (\<lambda>t. None), env_password_set = (\<lambda>n ip. False), env_verify = (\<lambda>n ip p. p = ''secret''),
      env_has_password = (\<lambda>n. False), env_user_data = (\<lambda>n ip. Some (n, [])),
      env_mbrtowc = (\<lambda>t. MbChar (of_char (hd t)) 1)\<rparr>"

definition demo_host :: adm_host where
  "demo_host =
     \<lparr>host_rules = \<lparr>version_ip_ban_rules = [], version_ip_ban_rule_capacity = 0\<rparr>,
      host_bans = \<lparr>bans = [], protected_ips = [''127.0.0.1'']\<rparr>,
      host_joins = \<lparr>join_activity = [], join_activity_capacity = 0, operator_grants = [],
        join_guard = guard_empty, next_join_ready_time = timespec_zero,
        join_throttle_initialised = False, join_progress_length = 0\<rparr>,
      host_room = chat_room_init,
      host_lan_ops = [\<lparr>lan_active = True, lan_nickname = ''Boss'', lan_password = ''pw''\<rparr>],
      host_claims = [], ai_persona_a_name = [], ai_persona_b_name = [], captcha_enabled = False,
      sessions = (\<lambda>i. None)\<rparr>"

definition demo_arrive :: "session_id \<Rightarrow> cstr \<Rightarrow> auth_message list \<Rightarrow> adm_input list" where
  "demo_arrive i ip ms =
     [IAccept i SESSION_TRANSPORT_SSH ip, IIdentify i (Some ''SSH-2.0'') ms None True None,
      ILogin i True [\<lparr>li_line = ''/guest'', li_password_set = False, li_saved = False\<rparr>] ([], []) [] False True]"

definition demo_final :: "adm_input list \<Rightarrow> adm_host" where
  "demo_final xs = (case adm_execs demo_env xs demo_host of Some h \<Rightarrow> h | None \<Rightarrow> demo_host)"

definition demo_runs :: "adm_input list \<Rightarrow> bool" where
  "demo_runs xs = (case adm_execs demo_env xs demo_host of Some h \<Rightarrow> True | None \<Rightarrow> False)"

lemma demo_final_run: "demo_runs xs \<Longrightarrow> adm_run demo_env demo_host (map input_label xs) (demo_final xs)"
  unfolding demo_runs_def demo_final_def by (auto split: option.splits intro: adm_execs_run)

lemma demo_start: "adm_start demo_host"
  by (simp add: adm_start_def demo_host_def)

section \<open>The way into the room\<close>

lemma clear_step:
  assumes "sessions h i = Some s" "phase s = LoggedIn" "\<not> name_refused h s"
  shows "adm_step env h (Stage i) (put_session i (s\<lparr>phase := NameCleared\<rparr>) h)"
  using adm_step.clear_name [OF assms(1,2), of env] assms(3) by (simp add: session_clear_name_def)

lemma register_step:
  assumes "sessions h i = Some s" "phase s = NameCleared"
    and "\<forall>k\<in>ja_ip ` set (join_activity (host_joins h)). \<not> strncmp_eq SSH_CHATTER_IP_LEN k (client_ip s)"
  shows "\<exists>j. adm_step env h (Stage i) (put_session i (s\<lparr>phase := Registered\<rparr>) (h\<lparr>host_joins := j\<rparr>)) \<and>
    ja_ip ` set (join_activity j) \<subseteq>
      insert (snprintf_into SSH_CHATTER_IP_LEN (client_ip s)) (ja_ip ` set (join_activity (host_joins h)))"
proof -
  let ?al = "\<lambda>n :: nat. True" and ?t = timespec_zero
  obtain r j where out: "host_register_join_attempt ?al ?t ?t (Some (user_name s)) (client_ip s) (host_joins h) = (r, j)"
    by (metis surj_pair)
  with unknown_address_joins [OF assms(3), of ?al ?t ?t "Some (user_name s)"] have
    r: "r = JOIN_OK" "ja_ip ` set (join_activity j) \<subseteq>
      insert (snprintf_into SSH_CHATTER_IP_LEN (client_ip s)) (ja_ip ` set (join_activity (host_joins h)))" by simp_all
  define j' where "j' = snd (snd (host_prepare_join_delay ?t j))"
  have "join_activity j' = join_activity j"
    by (simp add: j'_def host_prepare_join_delay_def Let_def)
  moreover have "adm_step env h (Stage i) (put_session i (s\<lparr>phase := Registered\<rparr>) (h\<lparr>host_joins := j'\<rparr>))"
    using adm_step.register [OF assms(1,2), of env ?al ?t ?t ?t] out r(1)
    by (simp add: session_register_def j'_def)
  ultimately show ?thesis using r(2) by (intro exI [of _ j']) simp
qed

lemma enter_step:
  assumes "sessions h i = Some s" "phase s = Registered" "i \<notin> set (members (host_room h))"
  shows "\<exists>room. adm_step env h (Stage i)
     (put_session i (s\<lparr>has_joined_room := True, phase := InRoom\<rparr>) (h\<lparr>host_room := room\<rparr>)) \<and>
    members room = members (host_room h) @ [i]"
proof -
  let ?al = "\<lambda>n :: nat. True"
  have "members (chat_room_add ?al i (host_room h)) = members (host_room h) @ [i]"
    using assms(3) by (cases rule: room_add_cases [of ?al i "host_room h"]) simp_all
  then show ?thesis
    using adm_step.enter [OF assms(1,2), of env ?al]
    by (intro exI [of _ "chat_room_add ?al i (host_room h)"]) (simp add: session_enter_def)
qed

lemma enter_run:
  assumes "adm_inv env h" "sessions h i = Some s" "phase s = LoggedIn" "\<not> name_refused h s"
    and "\<forall>k\<in>ja_ip ` set (join_activity (host_joins h)). \<not> strncmp_eq SSH_CHATTER_IP_LEN k (client_ip s)"
  shows "\<exists>h' s'. adm_run env h [Stage i, Stage i, Stage i] h' \<and> sessions h' i = Some s' \<and>
     phase s' = InRoom \<and> who s' = who s \<and> members (host_room h') = members (host_room h) @ [i] \<and>
     (\<forall>j. j \<noteq> i \<longrightarrow> sessions h' j = sessions h j)"
proof -
  have out: "i \<notin> set (members (host_room h))" using assms(1-3) by (auto simp: adm_inv_def)
  let ?h1 = "put_session i (s\<lparr>phase := NameCleared\<rparr>) h"
  have s1: "adm_step env h (Stage i) ?h1" by (rule clear_step [OF assms(2-4)])
  obtain j where s2: "adm_step env ?h1 (Stage i)
      (put_session i (s\<lparr>phase := Registered\<rparr>) (?h1\<lparr>host_joins := j\<rparr>))"
    using register_step [of ?h1 i "s\<lparr>phase := NameCleared\<rparr>" env] assms(5) by auto
  let ?h2 = "put_session i (s\<lparr>phase := Registered\<rparr>) (?h1\<lparr>host_joins := j\<rparr>)"
  obtain room where s3: "adm_step env ?h2 (Stage i)
      (put_session i (s\<lparr>has_joined_room := True, phase := InRoom\<rparr>) (?h2\<lparr>host_room := room\<rparr>))"
    "members room = members (host_room h) @ [i]"
    using enter_step [of ?h2 i "s\<lparr>phase := Registered\<rparr>" env] out by auto
  let ?h3 = "put_session i (s\<lparr>has_joined_room := True, phase := InRoom\<rparr>) (?h2\<lparr>host_room := room\<rparr>)"
  have "adm_run env h [Stage i, Stage i, Stage i] ?h3"
    using adm_run.step [OF adm_run.step [OF adm_run.step [OF adm_run.start s1] s2] s3(1)] by simp
  with s3(2) show ?thesis
    by (intro exI [of _ ?h3] exI [of _ "s\<lparr>has_joined_room := True, phase := InRoom\<rparr>"]) simp
qed

lemma adm_run_trans: "adm_run env h1 ls' h2 \<Longrightarrow> adm_run env h0 ls h1 \<Longrightarrow> adm_run env h0 (ls @ ls') h2"
proof (induction rule: adm_run.induct)
  case (step ls' h l h')
  then show ?case using adm_run.step [of env h0 "ls @ ls'" h l h'] by simp
qed simp

text \<open>
  The way into the room is open.  A session that is logged in, whose name is not
  refused and whose address has no record of join attempts gets into the room by its
  next three stages, with the name it has; every other session stays as it is.
\<close>

theorem way_into_room:
  assumes "adm_inv env h" "sessions h i = Some s" "phase s = LoggedIn" "\<not> name_refused h s"
    and "\<forall>k\<in>ja_ip ` set (join_activity (host_joins h)). \<not> strncmp_eq SSH_CHATTER_IP_LEN k (client_ip s)"
  shows "\<exists>h' s'. adm_run env h [Stage i, Stage i, Stage i] h' \<and> sessions h' i = Some s' \<and>
     phase s' = InRoom \<and> who s' = who s \<and> members (host_room h') = members (host_room h) @ [i] \<and>
     (\<forall>j. j \<noteq> i \<longrightarrow> sessions h' j = sessions h j)"
  by (rule enter_run [OF assms])

definition ann_arrives :: "adm_input list" where
  "ann_arrives = demo_arrive 1 ''203.0.113.9'' [AuthRequest (Some ''ann'') False None]"

definition boss_arrives :: "adm_input list" where
  "boss_arrives = demo_arrive 1 ''10.0.0.2'' [AuthRequest (Some ''boss'') True (Some ''pw'')]"

definition demo_session :: "adm_input list \<Rightarrow> session_id \<Rightarrow> adm_session" where
  "demo_session xs i = (case sessions (demo_final xs) i of Some s \<Rightarrow> s | None \<Rightarrow> new_session SESSION_TRANSPORT_SSH [] i)"

definition ready_to_join :: "adm_input list \<Rightarrow> session_id \<Rightarrow> bool" where
  "ready_to_join xs i \<longleftrightarrow> demo_runs xs \<and> (case sessions (demo_final xs) i of Some s \<Rightarrow> True | None \<Rightarrow> False) \<and>
     phase (demo_session xs i) = LoggedIn \<and> \<not> name_refused (demo_final xs) (demo_session xs i)"

lemma demo_joins_empty: "join_activity (host_joins (demo_final ann_arrives)) = []"
  "join_activity (host_joins (demo_final boss_arrives)) = []"
  by code_simp+

lemma demo_ready: "ready_to_join ann_arrives 1" "ready_to_join boss_arrives 1"
  by code_simp+

lemma demo_inv: "demo_runs xs \<Longrightarrow> adm_inv demo_env (demo_final xs)"
  using adm_run_inv [OF demo_final_run adm_start_inv [OF demo_start]] by blast

lemma ready_session:
  "ready_to_join xs i \<Longrightarrow> sessions (demo_final xs) i = Some (demo_session xs i) \<and>
   phase (demo_session xs i) = LoggedIn \<and> \<not> name_refused (demo_final xs) (demo_session xs i) \<and> demo_runs xs"
  by (auto simp: ready_to_join_def demo_session_def split: option.splits)

theorem way_into_room_witness:
  "\<exists>h'. adm_run demo_env (demo_final ann_arrives) [Stage 1, Stage 1, Stage 1] h' \<and>
     1 \<in> set (members (host_room h'))"
proof -
  note r = ready_session [OF demo_ready(1)]
  have "adm_inv demo_env (demo_final ann_arrives)" using r demo_inv by simp
  from way_into_room [OF this, of 1 "demo_session ann_arrives 1"] r show ?thesis
    by (force simp: demo_joins_empty)
qed

theorem room_operators_genuine_witness:
  "\<exists>ls h s. adm_run demo_env demo_host ls h \<and> 1 \<in> set (members (host_room h)) \<and>
     sessions h 1 = Some s \<and> is_lan_operator (who s) \<and> lan_operator_credentials_valid (who s) \<and>
     session_is_lan_client (env_pton4 demo_env) (env_pton6 demo_env) (client_ip s)"
proof -
  note r = ready_session [OF demo_ready(2)]
  have inv: "adm_inv demo_env (demo_final boss_arrives)" using r demo_inv by simp
  from enter_run [OF this, of 1 "demo_session boss_arrives 1"] r obtain h s where h:
    "adm_run demo_env (demo_final boss_arrives) [Stage 1, Stage 1, Stage 1] h" "sessions h 1 = Some s"
    "who s = who (demo_session boss_arrives 1)" "1 \<in> set (members (host_room h))"
    by (force simp: demo_joins_empty)
  have run: "adm_run demo_env demo_host (map input_label boss_arrives @ [Stage 1, Stage 1, Stage 1]) h"
    using adm_run_trans [OF h(1) demo_final_run] r by simp
  have op: "is_lan_operator (who (demo_session boss_arrives 1))" by code_simp
  from room_operators_genuine [OF demo_start run h(4)] h(2,3) op have
    "is_lan_operator (who s) \<and> lan_operator_credentials_valid (who s) \<and>
     session_is_lan_client (env_pton4 demo_env) (env_pton6 demo_env) (client_ip s)" by auto
  with run h(2,4) show ?thesis
    by (intro exI [of _ "map input_label boss_arrives @ [Stage 1, Stage 1, Stage 1]"] exI [of _ h] exI [of _ s]) simp
qed

text \<open>A host with a member and a visitor from a banned address.\<close>

definition eve_host :: adm_host where
  "eve_host = demo_host
     \<lparr>host_bans := \<lparr>bans = [\<lparr>ban_username = [], ban_ip = ''203.0.113.9''\<rparr>], protected_ips = []\<rparr>,
      host_lan_ops := [], host_room := \<lparr>members = [2], member_capacity = 8\<rparr>,
      sessions := [1 \<mapsto> new_session SESSION_TRANSPORT_SSH ''203.0.113.9'' 1,
         2 \<mapsto> (new_session SESSION_TRANSPORT_SSH ''10.0.0.2'' 2)\<lparr>has_joined_room := True, phase := InRoom\<rparr>]\<rparr>"

lemma eve_host_inv: "adm_inv demo_env eve_host"
  by (simp add: adm_inv_def eve_host_def lan_sound_def room_inv_def new_session_def
      host_is_lan_operator_username_def host_find_lan_operator_credential_def)

lemma eve_shut_out: "shut_out demo_env ''203.0.113.9'' eve_host"
  by (simp add: shut_out_def eve_host_def new_session_def behind_ban_gate_def past_name_gate_def
      host_is_ip_banned_def host_is_protected_ip_unlocked_def ban_covers_def strncmp_eq_def
      SSH_CHATTER_IP_LEN_def snprintf_into_def)

theorem banned_address_never_enters_witness:
  "\<exists>h s. adm_run demo_env eve_host [Stage 1] h \<and> 2 \<in> set (members (host_room h)) \<and>
     sessions h 2 = Some s \<and> client_ip s \<noteq> ''203.0.113.9''"
proof -
  let ?s1 = "new_session SESSION_TRANSPORT_SSH ''203.0.113.9'' 1"
  let ?s2 = "(new_session SESSION_TRANSPORT_SSH ''10.0.0.2'' 2)\<lparr>has_joined_room := True, phase := InRoom\<rparr>"
  let ?h = "session_end 1 ?s1 eve_host"
  have "sessions eve_host 1 = Some ?s1" by (simp add: eve_host_def)
  then have run: "adm_run demo_env eve_host [Stage 1] ?h"
    using adm_run.step [OF adm_run.start adm_step.lost] by simp
  have mem: "2 \<in> set (members (host_room ?h))" "sessions ?h 2 = Some ?s2"
    by (simp_all add: session_end_def eve_host_def)
  have "client_ip ?s2 \<noteq> ''203.0.113.9''"
    by (rule banned_address_never_enters [OF eve_host_inv eve_shut_out run _ mem]) simp
  with run mem show ?thesis by (intro exI [of _ ?h] exI [of _ ?s2]) simp
qed

text \<open>A session that is alone has no rival.\<close>

lemma solo_calm:
  "\<lbrakk>adm_run env h0 ls h; adm_start h0; \<forall>l\<in>set ls. l = Stage i\<rbrakk> \<Longrightarrow>
   calm_run env h0 h \<and> adm_inv env h \<and> (\<forall>j. j \<noteq> i \<longrightarrow> sessions h j = None)"
proof (induction rule: adm_run.induct)
  case start
  then show ?case by (simp add: calm_run.calm_start adm_start_inv) (simp add: adm_start_def)
next
  case (step ls h l h')
  then have l: "l = Stage i" and IH: "calm_run env h0 h" "adm_inv env h" "\<forall>j. j \<noteq> i \<longrightarrow> sessions h j = None"
    by simp_all
  then have "no_rival i h h'" by (simp add: no_rival_def)
  then have "calm_run env h0 h'" using calm_run.calm_stage [OF IH(1)] step(2) l by simp
  moreover have "\<forall>j. j \<noteq> i \<longrightarrow> sessions h' j = None"
    using stage_summary [OF step(2) [unfolded l] IH(2)] IH(3) by (auto simp: stage_effect_def)
  ultimately show ?case using adm_inv_step [OF step(2) IH(2)] by simp
qed


section \<open>Every session comes to a decision\<close>

definition stages_left :: "session_phase \<Rightarrow> nat" where
  "stages_left p = (case p of Accepted \<Rightarrow> 5 | Identified \<Rightarrow> 4 | LoggedIn \<Rightarrow> 3 | NameCleared \<Rightarrow> 2
     | Registered \<Rightarrow> 1 | InRoom \<Rightarrow> 0 | Ended \<Rightarrow> 0)"

lemma phase_next_left: "phase_next p q \<Longrightarrow> stages_left q \<le> stages_left p - 1"
  by (cases p; cases q) (auto simp: phase_next_def stages_left_def)

lemma stages_left_run:
  "\<lbrakk>adm_run env h ls h'; adm_inv env h; sessions h i = Some s\<rbrakk> \<Longrightarrow>
   \<exists>s'. sessions h' i = Some s' \<and> stages_left (phase s') \<le> stages_left (phase s) - count_list ls (Stage i)"
proof (induction rule: adm_run.induct)
  case (step ls h1 l h2)
  then obtain s1 where s1: "sessions h1 i = Some s1"
    "stages_left (phase s1) \<le> stages_left (phase s) - count_list ls (Stage i)" by blast
  have inv: "adm_inv env h1" using adm_run_inv step by blast
  show ?case
  proof (cases "\<exists>j. l = Stage j")
    case True
    then obtain j where l: "l = Stage j" by blast
    from stage_summary [OF step(2) [unfolded l] inv] obtain s' where sum:
      "stage_effect j h1 s' h2 \<and> (\<forall>s. sessions h1 j = Some s \<longrightarrow> stage_gates env h1 j s s')" by blast
    show ?thesis
    proof (cases "j = i")
      case True
      with sum s1(1) have "sessions h2 i = Some s'" "phase_next (phase s1) (phase s')"
        by (auto simp: stage_effect_def stage_gates_def)
      with phase_next_left s1(2) l True show ?thesis by fastforce
    next
      case False
      with sum s1 l show ?thesis by (auto simp: stage_effect_def)
    qed
  next
    case False
    then have "sessions h2 = sessions h1" using step(2) by (cases l) (auto elim!: adm_ban adm_lift)
    with s1 False show ?thesis by (cases l) auto
  qed
qed simp



section \<open>Passwords\<close>

definition password_line :: "(cstr \<Rightarrow> bool) \<Rightarrow> login_input \<Rightarrow> bool" where
  "password_line verify l =
     (let (command, cursor) = session_consume_token (c_trim (li_line l)) 32
      in li_password_set l \<and> strcasecmp_eq command ''/login'' \<and> cursor \<noteq> [] \<and> verify cursor)"

lemma login_loop_sound:
  "case login_loop verify n ls of
     LoginLeft \<Rightarrow> True
   | LoginPassword \<Rightarrow> list_ex (password_line verify) ls
   | _ \<Rightarrow> list_ex (\<lambda>l. \<not> li_password_set l) ls"
proof (induction ls arbitrary: n)
  case (Cons l ls)
  have mono: "case login_loop verify k ls of LoginLeft \<Rightarrow> True
     | LoginPassword \<Rightarrow> list_ex (password_line verify) (l # ls)
     | _ \<Rightarrow> list_ex (\<lambda>l. \<not> li_password_set l) (l # ls)" for k
    using Cons [of k] by (auto split: login_outcome.splits)
  obtain command cursor where tok: "session_consume_token (c_trim (li_line l)) 32 = (command, cursor)"
    by (metis surj_pair)
  show ?case
    using mono [of 0] mono [of "n + 1"] tok
    by (auto simp: Let_def password_line_def)
qed simp

text \<open>
  C10: A registered name needs its password.  While the record of its name has a password,
  a session that did not authenticate by it over SSH and is no operator gets past the
  dialogue only with a line that gives this password; neither the way of guests, nor two
  empty lines, nor signing up lets it in.
\<close>

theorem registered_name_needs_password:
  assumes "list_all li_password_set ls"
    and "\<not> authenticated_via_ssh_password (who s)" "\<not> is_operator (who s)" "\<not> is_lan_operator (who s)"
    and "sessions (session_login env captcha_ok ls account salt fixnick pool_ok i s h) i = Some s'"
    and "phase s' = LoggedIn"
  shows "list_ex (password_line (env_verify env (user_name s) [])) ls"
proof -
  have none: "\<not> list_ex (\<lambda>l. \<not> li_password_set l) ls"
    using assms(1) by (auto simp: list_all_iff list_ex_iff)
  show ?thesis
    using login_loop_sound [where verify = "env_verify env (user_name s) []" and n = 0 and ls = ls] none assms(2-6)
    by (auto simp: session_login_def session_run_login_tui_def session_end_def Let_def
        split: if_splits login_outcome.splits)
qed

theorem registered_name_needs_password_witness:
  "let ls = [\<lparr>li_line = ''/guest'', li_password_set = True, li_saved = True\<rparr>,
             \<lparr>li_line = ''/Login secret'', li_password_set = True, li_saved = True\<rparr>] in
   list_ex (password_line (env_verify demo_env ''ann'' [])) ls"
proof -
  let ?ls = "[\<lparr>li_line = ''/guest'', li_password_set = True, li_saved = True\<rparr>,
             \<lparr>li_line = ''/Login secret'', li_password_set = True, li_saved = True\<rparr>]"
  let ?s = "(new_session SESSION_TRANSPORT_SSH ''10.0.0.2'' 1)"
  let ?s = "?s\<lparr>who := (who ?s)\<lparr>ls_name := ''ann''\<rparr>, phase := Identified\<rparr>"
  let ?h = "session_login demo_env True ?ls ([], []) [] False True 1 ?s demo_host"
  have "case sessions ?h 1 of None \<Rightarrow> False | Some s' \<Rightarrow> phase s' = LoggedIn" by code_simp
  then obtain s' where "sessions ?h 1 = Some s'" "phase s' = LoggedIn" by (auto split: option.splits)
  from registered_name_needs_password [OF _ _ _ _ this] show ?thesis by (simp add: new_session_def)
qed

section \<open>Ways around the rules on names\<close>

lemma all_in_singleton: "A \<subseteq> {x} \<Longrightarrow> \<not> P x \<Longrightarrow> \<forall>k\<in>A. \<not> P k"
  by auto

lemma name_refused_put:
  assumes "i \<notin> set (members (host_room h))"
  shows "name_refused (put_session i s h) t = name_refused h t"
proof -
  have "find (member_named (put_session i s h) n) (members (host_room h))
      = find (member_named h n) (members (host_room h))" for n
    using assms by (intro find_cong) (auto simp: member_named_def)
  then show ?thesis
    by (simp add: name_refused_def chat_room_find_user_def host_is_system_reserved_username_def)
qed

text \<open>
  C34: The check of names and the entry into the room do not exclude each other.  Two
  sessions from addresses without join records that are logged in under one name, both
  while nobody of that name is in the room, both become members when each passes the check
  of its name before the other has entered.
\<close>

theorem name_race:
  assumes "adm_inv env h" "i \<noteq> j"
    and "sessions h i = Some s" "phase s = LoggedIn" "\<not> name_refused h s"
    and "sessions h j = Some t" "phase t = LoggedIn" "\<not> name_refused h t" "same_name s t"
    and "join_activity (host_joins h) = []"
    and "\<not> strncmp_eq SSH_CHATTER_IP_LEN (snprintf_into SSH_CHATTER_IP_LEN (client_ip s)) (client_ip t)"
  shows "\<exists>h' s' t'. adm_run env h [Stage i, Stage j, Stage i, Stage j, Stage i, Stage j] h' \<and>
     set (members (host_room h')) \<supseteq> {i, j} \<and> sessions h' i = Some s' \<and> sessions h' j = Some t' \<and> same_name s' t'"
proof -
  have out: "i \<notin> set (members (host_room h))" "j \<notin> set (members (host_room h))"
    using assms(1-8) by (auto simp: adm_inv_def)
  let ?s1 = "s\<lparr>phase := NameCleared\<rparr>" and ?t1 = "t\<lparr>phase := NameCleared\<rparr>"
  let ?s2 = "s\<lparr>phase := Registered\<rparr>" and ?t2 = "t\<lparr>phase := Registered\<rparr>"
  let ?s3 = "s\<lparr>has_joined_room := True, phase := InRoom\<rparr>" and ?t3 = "t\<lparr>has_joined_room := True, phase := InRoom\<rparr>"
  let ?h1 = "put_session i ?s1 h"
  let ?h2 = "put_session j ?t1 ?h1"
  have r1: "adm_step env h (Stage i) ?h1" by (rule clear_step [OF assms(3-5)])
  have r2: "adm_step env ?h1 (Stage j) ?h2"
    using clear_step [of ?h1 j t env] assms(2,6-8) name_refused_put [OF out(1)] by simp
  obtain a where r3: "adm_step env ?h2 (Stage i) (put_session i ?s2 (?h2\<lparr>host_joins := a\<rparr>))"
    "ja_ip ` set (join_activity a) \<subseteq> {snprintf_into SSH_CHATTER_IP_LEN (client_ip s)}"
    using register_step [of ?h2 i ?s1 env] assms(2,10) by auto
  let ?h3 = "put_session i ?s2 (?h2\<lparr>host_joins := a\<rparr>)"
  have "\<forall>k\<in>ja_ip ` set (join_activity a). \<not> strncmp_eq SSH_CHATTER_IP_LEN k (client_ip t)"
    using r3(2) assms(11) by (rule all_in_singleton)
  then obtain b where r4: "adm_step env ?h3 (Stage j) (put_session j ?t2 (?h3\<lparr>host_joins := b\<rparr>))"
    using register_step [of ?h3 j ?t1 env] assms(2) by auto
  let ?h4 = "put_session j ?t2 (?h3\<lparr>host_joins := b\<rparr>)"
  obtain room1 where r5: "adm_step env ?h4 (Stage i) (put_session i ?s3 (?h4\<lparr>host_room := room1\<rparr>))"
    "members room1 = members (host_room h) @ [i]"
    using enter_step [of ?h4 i ?s2 env] out assms(2) by auto
  let ?h5 = "put_session i ?s3 (?h4\<lparr>host_room := room1\<rparr>)"
  obtain room2 where r6: "adm_step env ?h5 (Stage j) (put_session j ?t3 (?h5\<lparr>host_room := room2\<rparr>))"
    "members room2 = members (host_room h) @ [i, j]"
    using enter_step [of ?h5 j ?t2 env] out r5(2) assms(2) by auto
  let ?h6 = "put_session j ?t3 (?h5\<lparr>host_room := room2\<rparr>)"
  have "adm_run env h [Stage i, Stage j, Stage i, Stage j, Stage i, Stage j] ?h6"
    using adm_run.step [OF adm_run.step [OF adm_run.step [OF adm_run.step [OF adm_run.step [OF
      adm_run.step [OF adm_run.start r1] r2] r3(1)] r4] r5(1)] r6(1)] by simp
  then show ?thesis
    using assms(2,9) r6(2)
    by (intro exI [of _ ?h6] exI [of _ ?s3] exI [of _ ?t3]) (simp add: same_name_def)
qed

definition twins_arrive :: "adm_input list" where
  "twins_arrive = demo_arrive 1 ''203.0.113.9'' [AuthRequest (Some ''ann'') False None] @
     demo_arrive 2 ''10.0.0.2'' [AuthRequest (Some ''ann'') False None]"

lemma twins_ready: "ready_to_join twins_arrive 1" "ready_to_join twins_arrive 2"
  by code_simp+

lemma twins_facts:
  "join_activity (host_joins (demo_final twins_arrive)) = []"
  "client_ip (demo_session twins_arrive 1) = ''203.0.113.9''" "client_ip (demo_session twins_arrive 2) = ''10.0.0.2''"
  "user_name (demo_session twins_arrive 1) = ''ann''" "user_name (demo_session twins_arrive 2) = ''ann''"
  by code_simp+

theorem name_race_witness:
  "\<exists>h'. adm_run demo_env (demo_final twins_arrive) [Stage 1, Stage 2, Stage 1, Stage 2, Stage 1, Stage 2] h' \<and>
     set (members (host_room h')) \<supseteq> {1, 2}"
proof -
  note r = ready_session [OF twins_ready(1)] and q = ready_session [OF twins_ready(2)]
  have inv: "adm_inv demo_env (demo_final twins_arrive)" using r demo_inv by simp
  have "\<not> strncmp_eq SSH_CHATTER_IP_LEN (snprintf_into SSH_CHATTER_IP_LEN ''203.0.113.9'') ''10.0.0.2''"
    by (simp add: strncmp_eq_def snprintf_into_def SSH_CHATTER_IP_LEN_def)
  with name_race [OF inv, of 1 2 "demo_session twins_arrive 1" "demo_session twins_arrive 2"] r q
  show ?thesis by (auto simp: twins_facts same_name_def strncmp_eq_def simp del: One_nat_def)
qed

lemma reserved_name_trim:
  "n \<in> set system_reserved_names \<Longrightarrow> c_trim n = n \<and> n \<noteq> [] \<and> length n < USERNAME_LEN"
proof -
  have "list_all (\<lambda>n. c_trim n = n \<and> n \<noteq> [] \<and> length n < USERNAME_LEN) system_reserved_names"
    by code_simp
  then show "n \<in> set system_reserved_names \<Longrightarrow> ?thesis" by (simp add: list_all_iff)
qed

text \<open>
  The names reserved for the system are open to a change of nickname.  A name that
  would be refused to a session that enters is given to a member who asks for it by
  \<^verbatim>\<open>/nick\<close>, since that command looks only for operators of the local network.
\<close>

theorem nick_takes_reserved_name:
  assumes "n \<in> set system_reserved_names" "\<not> is_lan_operator (who s)"
    and "nick_chars_ok (env_mbrtowc env) n" "\<not> host_is_username_banned (host_bans h) n"
    and "\<not> host_is_lan_operator_username (host_lan_ops h) n" "\<not> env_has_password env n"
    and "chat_room_find_user h n = None"
  shows "\<exists>s'. sessions (session_handle_nick env n i s h) i = Some s' \<and> user_name s' = n \<and> name_refused h s'"
proof -
  have n: "c_trim (snprintf_into USERNAME_LEN n) = n" "n \<noteq> []" "length n < USERNAME_LEN"
    using reserved_name_trim [OF assms(1)] by simp_all
  let ?s1 = "session_user_data_load env s"
  let ?s' = "session_user_data_load env (?s1\<lparr>who := (who ?s1)\<lparr>ls_name := n\<rparr>\<rparr>)"
  have "\<not> nick_rejected env h i ?s1 n" using assms(6,7) by (simp add: nick_rejected_def Let_def)
  then have "sessions (session_handle_nick env n i s h) i = Some ?s'"
    using assms n by (simp add: session_handle_nick_def Let_def host_username_reserved_def)
  moreover have "name_refused h ?s'"
    using assms(1) n(2) bexI [of "strcasecmp_eq n" n "set system_reserved_names"]
    by (simp add: name_refused_def host_is_system_reserved_username_def list_ex_iff)
  ultimately show ?thesis by auto
qed

theorem nick_takes_reserved_name_witness:
  "\<exists>s'. sessions (session_handle_nick demo_env ''Admin'' 2
       (new_session SESSION_TRANSPORT_SSH ''10.0.0.2'' 2) demo_host) 2 = Some s' \<and>
     user_name s' = ''Admin'' \<and> name_refused demo_host s'"
proof (rule nick_takes_reserved_name)
  show "nick_chars_ok (env_mbrtowc demo_env) ''Admin''" by code_simp
  show "''Admin'' \<in> set system_reserved_names" by (simp add: system_reserved_names_def)
  show "\<not> host_is_lan_operator_username (host_lan_ops demo_host) ''Admin''" by code_simp
  show "\<not> env_has_password demo_env ''Admin''" by (simp add: demo_env_def)
  show "chat_room_find_user demo_host ''Admin'' = None"
    by (simp add: chat_room_find_user_def demo_host_def chat_room_init_def)
qed (simp_all add: host_is_username_banned_def demo_host_def)

end
