(* ===== verification/Display_Model.thy ===== *)
theory Display_Model
  imports Interfaces
begin

text \<open>
  The display model of \<^verbatim>\<open>src/display_model.c\<close>: wrapping of messages into display
  lines, the growing line log, the view with its stable anchor, the visible frame
  and scrolling.

  A message is read from its buffer: its characters, then the terminating zero.
  Reading past the terminator is the value \<open>None\<close> of the wrapping functions, so
  every statement that they return a result also says that they stay inside the
  buffer.  The line storage belongs to an allocator library: whether a resize to a
  number of lines succeeds is the parameter \<open>resize_ok\<close>, whether lines can be mapped
  is \<open>map_ok\<close>, and what the storage holds behind the live lines is \<open>beyond\<close>.
\<close>

section \<open>Widths\<close>

definition DISPLAY_LINE_TEXT_MAX :: nat where
  "DISPLAY_LINE_TEXT_MAX = 4096"

text \<open>The byte at an index of the buffer.\<close>

definition byte_at :: "cstr \<Rightarrow> nat \<Rightarrow> nat option" where
  "byte_at t i = (if i < length t then Some (code (t ! i))
                  else if i = length t then Some 0 else None)"

text \<open>The index behind the parameter and intermediate bytes of an escape sequence.\<close>

function skip_params :: "cstr \<Rightarrow> nat \<Rightarrow> nat" where
  "skip_params t i =
     (if i < length t \<and> code (t ! i) \<noteq> 0 \<and> code (t ! i) \<ge> 32 \<and> code (t ! i) < 64
      then skip_params t (Suc i) else i)"
  by pat_completeness auto
termination
  by (relation "measure (\<lambda>(t, i). length t - i)") auto

declare skip_params.simps [simp del]

definition cjk3_wide :: "nat \<Rightarrow> bool" where
  "cjk3_wide cp \<longleftrightarrow>
     (0x1100 \<le> cp \<and> cp \<le> 0x115F) \<or> cp = 0x2329 \<or> cp = 0x232A \<or>
     (0x2E80 \<le> cp \<and> cp \<le> 0x303E) \<or> (0x3040 \<le> cp \<and> cp \<le> 0xA4CF) \<or>
     (0xAC00 \<le> cp \<and> cp \<le> 0xD7A3) \<or> (0xF900 \<le> cp \<and> cp \<le> 0xFAFF) \<or>
     (0xFE10 \<le> cp \<and> cp \<le> 0xFE6F) \<or> (0xFF01 \<le> cp \<and> cp \<le> 0xFF60) \<or>
     (0xFFE0 \<le> cp \<and> cp \<le> 0xFFE6)"

text \<open>The number of bytes that a lead byte announces; masks of bytes are written as
  quotients and remainders.\<close>

definition lead_len :: "nat \<Rightarrow> nat" where
  "lead_len b =
     (if b div 32 = 6 then 2 else if b div 16 = 14 then 3 else if b div 8 = 30 then 4 else 1)"

text \<open>The columns of the sequence at an index; its later bytes are read
  unconditionally.\<close>

definition lead_cols :: "cstr \<Rightarrow> nat \<Rightarrow> nat \<Rightarrow> nat option" where
  "lead_cols t i b =
     (if b div 32 = 6 then Some 1
      else if b div 16 = 14 then
        (case (byte_at t (i + 1), byte_at t (i + 2)) of
           (Some b1, Some b2) \<Rightarrow>
             Some (if cjk3_wide ((b mod 16) * 4096 + (b1 mod 64) * 64 + b2 mod 64) then 2 else 1)
         | _ \<Rightarrow> None)
      else if b div 8 = 30 then
        (case (byte_at t (i + 1), byte_at t (i + 2), byte_at t (i + 3)) of
           (Some b1, Some b2, Some b3) \<Rightarrow>
             let cp = (b mod 8) * 262144 + (b1 mod 64) * 4096 + (b2 mod 64) * 64 + b3 mod 64
             in Some (if 0x20000 \<le> cp \<and> cp \<le> 0x2FFFD then 2 else 1)
         | _ \<Rightarrow> None)
      else Some 1)"

text \<open>The check of the continuation bytes: it shortens the sequence at the first byte
  that is none, and stops at a zero byte without shortening.\<close>

function check_cont :: "cstr \<Rightarrow> nat \<Rightarrow> nat \<Rightarrow> nat \<Rightarrow> nat option" where
  "check_cont t i k byte_len =
     (if k < byte_len then
        (case byte_at t (i + k) of
           None \<Rightarrow> None
         | Some b \<Rightarrow> if b = 0 then Some byte_len
                     else if b div 64 \<noteq> 2 then Some k
                     else check_cont t i (Suc k) byte_len)
      else Some byte_len)"
  by pat_completeness auto
termination
  by (relation "measure (\<lambda>(t, i, k, n). n - k)") auto

declare check_cont.simps [simp del]

text \<open>The columns of the character at an index and the index behind it.\<close>

definition utf8_char_width :: "cstr \<Rightarrow> nat \<Rightarrow> (nat \<times> nat) option" where
  "utf8_char_width t i =
     (case byte_at t i of
        None \<Rightarrow> None
      | Some s0 \<Rightarrow>
          if s0 = 0x1B \<and> byte_at t (i + 1) = Some 91
          then let j = skip_params t (i + 2)
               in Some (0, if byte_at t j \<noteq> Some 0 then j + 1 else j)
          else if s0 < 128 then Some (if s0 \<ge> 32 then 1 else 0, i + 1)
          else case lead_cols t i s0 of
            None \<Rightarrow> None
          | Some cols \<Rightarrow>
              (case check_cont t i 1 (lead_len s0) of
                 None \<Rightarrow> None
               | Some n \<Rightarrow> Some (cols, i + n)))"

lemma skip_params_ge: "i \<le> skip_params t i"
proof (induction t i rule: skip_params.induct)
  case (1 t i)
  then show ?case by (subst skip_params.simps) auto
qed

lemma check_cont_range: "check_cont t i k n = Some m \<Longrightarrow> k \<le> m \<or> n \<le> m"
proof (induction t i k n rule: check_cont.induct)
  case (1 t i k n)
  from 1(2) show ?case
    by (subst (asm) check_cont.simps) (auto split: if_splits option.splits dest: 1(1))
qed

lemma lead_len_pos [simp]: "0 < lead_len b"
  by (simp add: lead_len_def)

lemma utf8_char_width_progress:
  assumes "utf8_char_width t i = Some (w, j)"
  shows "i < j"
proof -
  have "i < i + n" if "check_cont t i (Suc 0) (lead_len s) = Some n" for s n
    using check_cont_range [OF that] lead_len_pos [of s] by linarith
  with assms skip_params_ge [of "i + 2" t] show ?thesis
    by (auto simp: utf8_char_width_def Let_def split: option.splits if_splits)
qed

section \<open>Wrapping\<close>

record display_line =
  dl_message_id :: nat
  dl_subline_index :: nat
  dl_text :: cstr

definition copy_bytes :: "cstr \<Rightarrow> nat \<Rightarrow> nat \<Rightarrow> cstr \<Rightarrow> cstr" where
  "copy_bytes t i j row =
     (if length row + (j - i) < DISPLAY_LINE_TEXT_MAX - 1
      then row @ take (j - i) (drop i (t @ [CHR 0x00])) else row)"

text \<open>One display line: the text put on it and the index where it stops.\<close>

function wrap_row :: "cstr \<Rightarrow> nat \<Rightarrow> nat \<Rightarrow> nat \<Rightarrow> cstr \<Rightarrow> (cstr \<times> nat) option" where
  "wrap_row t width i col row =
     (case byte_at t i of
        None \<Rightarrow> None
      | Some b \<Rightarrow>
          if b = 0 \<or> b = 10 then Some (row, i)
          else case utf8_char_width t i of
            None \<Rightarrow> None
          | Some (cw, j) \<Rightarrow>
              if col + cw > width \<and> col > 0 then Some (row, i)
              else if cw > width \<and> col = 0 then Some (copy_bytes t i j row, j)
              else wrap_row t width j (col + cw) (copy_bytes t i j row))"
  by pat_completeness auto
termination
proof (relation "measure (\<lambda>(t, width, i, col, row). Suc (length t) - i)", goal_cases)
  case (2 t width i col row b z cw j)
  then show ?case
    using utf8_char_width_progress [of t i cw j]
    by (auto simp: byte_at_def split: if_splits)
qed simp

declare wrap_row.simps [simp del]

function wrap_rows :: "cstr \<Rightarrow> nat \<Rightarrow> nat \<Rightarrow> nat \<Rightarrow> nat \<Rightarrow> nat \<Rightarrow> display_line list option" where
  "wrap_rows t width mid cap produced i =
     (case byte_at t i of
        None \<Rightarrow> None
      | Some b \<Rightarrow>
          if b \<noteq> 0 \<and> produced < cap then
            (case wrap_row t width i 0 [] of
               None \<Rightarrow> None
             | Some (row, j) \<Rightarrow>
                 (case byte_at t j of
                    None \<Rightarrow> None
                  | Some c \<Rightarrow>
                      map_option (\<lambda>ls. \<lparr>dl_message_id = mid, dl_subline_index = produced mod 65536,
                                        dl_text = takeWhile (\<lambda>c. code c \<noteq> 0) row\<rparr> # ls)
                        (wrap_rows t width mid cap (Suc produced) (if c = 10 then j + 1 else j))))
          else Some [])"
  by pat_completeness auto
termination
  by (relation "measure (\<lambda>(t, width, mid, cap, produced, i). cap - produced)") auto

declare wrap_rows.simps [simp del]

text \<open>\<open>text = None\<close> is the null pointer.\<close>

definition display_model_wrap_line ::
  "cstr option \<Rightarrow> nat \<Rightarrow> nat \<Rightarrow> nat \<Rightarrow> display_line list option" where
  "display_model_wrap_line text width mid cap =
     (case text of
        None \<Rightarrow> Some []
      | Some t \<Rightarrow>
          if width = 0 \<or> cap = 0 then Some []
          else (case wrap_rows t width mid cap 0 0 of
                  None \<Rightarrow> None
                | Some [] \<Rightarrow> Some [\<lparr>dl_message_id = mid, dl_subline_index = 0, dl_text = []\<rparr>]
                | Some ls \<Rightarrow> Some ls))"

section \<open>The model\<close>

datatype display_view_mode = VIEW_FOLLOW_TAIL | VIEW_MANUAL_SCROLL

record display_view_anchor =
  anchor_message_id :: nat
  anchor_subline_index :: nat

record display_model =
  dm_lines :: "display_line list"
  line_capacity :: nat
  layout_width :: nat
  dirty :: bool
  view_mode :: display_view_mode
  view_anchor :: display_view_anchor
  last_visible_start :: nat
  last_viewport_height :: nat
  has_last_visible_frame :: bool

record display_visible_frame =
  frame_lines :: "display_line list"
  frame_count :: nat
  first_global_index :: nat
  at_tail :: bool
  at_head :: bool

definition zero_anchor :: display_view_anchor where
  "zero_anchor = \<lparr>anchor_message_id = 0, anchor_subline_index = 0\<rparr>"

definition display_model_effective_viewport :: "display_model \<Rightarrow> nat \<Rightarrow> nat" where
  "display_model_effective_viewport model fallback_lines =
     (let vp = (if last_viewport_height model > 0 then last_viewport_height model else fallback_lines)
      in if vp = 0 then 1 else vp)"

definition display_capacity :: "nat \<Rightarrow> nat \<Rightarrow> nat option" where
  "display_capacity cap needed =
     (if cap \<ge> needed then Some cap else double_until (if cap = 0 then 64 else cap) needed)"

definition display_model_ensure_capacity ::
  "(nat \<Rightarrow> bool) \<Rightarrow> display_model \<Rightarrow> nat \<Rightarrow> display_model option" where
  "display_model_ensure_capacity resize_ok model needed =
     (if line_capacity model \<ge> needed then Some model
      else case display_capacity (line_capacity model) needed of
        None \<Rightarrow> None
      | Some c \<Rightarrow> if resize_ok c then Some (model\<lparr>line_capacity := c\<rparr>) else None)"

definition display_model_zero :: display_model where
  "display_model_zero =
     \<lparr>dm_lines = [], line_capacity = 0, layout_width = 0, dirty = False,
      view_mode = VIEW_FOLLOW_TAIL, view_anchor = zero_anchor, last_visible_start = 0,
      last_viewport_height = 0, has_last_visible_frame = False\<rparr>"

definition display_model_init :: "(nat \<Rightarrow> bool) \<Rightarrow> nat \<Rightarrow> bool \<times> display_model" where
  "display_model_init resize_ok initial_capacity =
     (let cap = (if initial_capacity = 0 then 64 else initial_capacity)
      in if resize_ok cap then (True, display_model_zero\<lparr>line_capacity := cap\<rparr>)
         else (False, display_model_zero))"

definition display_model_destroy :: "display_model \<Rightarrow> display_model" where
  "display_model_destroy model = display_model_zero"

text \<open>Appending the lines of one wrapped message; false where the storage cannot grow
  or cannot be mapped.\<close>

definition store_lines ::
  "(nat \<Rightarrow> bool) \<Rightarrow> (nat \<Rightarrow> nat \<Rightarrow> bool) \<Rightarrow> display_line list \<Rightarrow> display_model \<Rightarrow> bool \<times> display_model" where
  "store_lines resize_ok map_ok ls model =
     (case display_model_ensure_capacity resize_ok model (length (dm_lines model) + length ls) of
        None \<Rightarrow> (False, model)
      | Some model \<Rightarrow>
          if map_ok (length (dm_lines model)) (length ls)
          then (True, model\<lparr>dm_lines := dm_lines model @ ls\<rparr>) else (False, model))"

fun recompute_loop ::
  "(nat \<Rightarrow> bool) \<Rightarrow> (nat \<Rightarrow> nat \<Rightarrow> bool) \<Rightarrow> nat \<Rightarrow> (nat \<times> cstr option) list \<Rightarrow> display_model \<Rightarrow>
   (bool \<times> display_model) option" where
  "recompute_loop resize_ok map_ok width [] model = Some (True, model\<lparr>dirty := False\<rparr>)"
| "recompute_loop resize_ok map_ok width ((mid, text) # ms) model =
     (case display_model_wrap_line text width mid 256 of
        None \<Rightarrow> None
      | Some ls \<Rightarrow>
          (case store_lines resize_ok map_ok ls model of
             (False, model) \<Rightarrow> Some (False, model)
           | (True, model) \<Rightarrow> recompute_loop resize_ok map_ok width ms model))"

definition display_model_recompute_layout ::
  "(nat \<Rightarrow> bool) \<Rightarrow> (nat \<Rightarrow> nat \<Rightarrow> bool) \<Rightarrow> (nat \<times> cstr option) list \<Rightarrow> nat \<Rightarrow> display_model \<Rightarrow>
   (bool \<times> display_model) option" where
  "display_model_recompute_layout resize_ok map_ok messages width model0 =
     (let model = model0\<lparr>dm_lines := [], layout_width := width\<rparr>
      in if messages = [] \<or> width = 0 then Some (True, model\<lparr>dirty := False\<rparr>)
         else recompute_loop resize_ok map_ok width messages model)"

definition display_model_append_message ::
  "(nat \<Rightarrow> bool) \<Rightarrow> (nat \<Rightarrow> nat \<Rightarrow> bool) \<Rightarrow> nat \<Rightarrow> cstr option \<Rightarrow> nat \<Rightarrow> display_model \<Rightarrow>
   (bool \<times> display_model) option" where
  "display_model_append_message resize_ok map_ok mid text width model =
     (if text = None \<or> width = 0 then Some (False, model)
      else case display_model_wrap_line text width mid 256 of
        None \<Rightarrow> None
      | Some ls \<Rightarrow>
          (case store_lines resize_ok map_ok ls model of
             (False, model) \<Rightarrow> Some (False, model)
           | (True, model) \<Rightarrow> Some (True, model\<lparr>layout_width := width\<rparr>)))"

section \<open>The view\<close>

text \<open>\<open>None\<close> is the index \<open>SIZE_MAX\<close> for an anchor that cannot be resolved.\<close>

definition display_model_resolve_anchor ::
  "(nat \<Rightarrow> nat \<Rightarrow> bool) \<Rightarrow> display_model \<Rightarrow> display_view_anchor \<Rightarrow> nat option" where
  "display_model_resolve_anchor map_ok model anchor =
     (let lines = dm_lines model
      in if lines = [] \<or> \<not> map_ok 0 (length lines) then None
         else case first_index (\<lambda>l. dl_message_id l = anchor_message_id anchor \<and>
                                    dl_subline_index l = anchor_subline_index anchor) lines of
           Some i \<Rightarrow> Some i
         | None \<Rightarrow>
             (case first_index (\<lambda>l. dl_message_id l = anchor_message_id anchor) lines of
                Some i \<Rightarrow> Some i
              | None \<Rightarrow>
                  (case first_index (\<lambda>l. dl_message_id l \<ge> anchor_message_id anchor) lines of
                     Some i \<Rightarrow> Some i
                   | None \<Rightarrow> Some (length lines - 1))))"

definition empty_frame :: display_visible_frame where
  "empty_frame = \<lparr>frame_lines = [], frame_count = 0, first_global_index = 0,
                  at_tail = True, at_head = True\<rparr>"

definition display_model_compute_visible ::
  "(nat \<Rightarrow> nat \<Rightarrow> bool) \<Rightarrow> nat \<Rightarrow> display_model \<Rightarrow> display_visible_frame \<times> display_model" where
  "display_model_compute_visible map_ok viewport_height model =
     (let total = length (dm_lines model); vp = viewport_height
      in if total = 0 \<or> vp = 0
         then (empty_frame, model\<lparr>has_last_visible_frame := False, last_visible_start := 0,
                                   last_viewport_height := viewport_height\<rparr>)
         else
           let tail_top = (if total > vp then total - vp else 0);
               frame =
                 (if view_mode model = VIEW_FOLLOW_TAIL
                  then \<lparr>frame_lines = [], frame_count = total - tail_top,
                        first_global_index = tail_top, at_tail = True, at_head = (tail_top = 0)\<rparr>
                  else
                    let anchor_idx = (case display_model_resolve_anchor map_ok model (view_anchor model) of
                                        None \<Rightarrow> tail_top | Some i \<Rightarrow> i);
                        anchor_idx = (if anchor_idx + vp > total then tail_top else anchor_idx);
                        count = (if total - anchor_idx > vp then vp else total - anchor_idx)
                    in \<lparr>frame_lines = [], frame_count = count, first_global_index = anchor_idx,
                        at_tail = (anchor_idx + count \<ge> total), at_head = (anchor_idx = 0)\<rparr>)
           in if \<not> map_ok (first_global_index frame) (frame_count frame) then (empty_frame, model)
              else (frame\<lparr>frame_lines :=
                       take (frame_count frame) (drop (first_global_index frame) (dm_lines model))\<rparr>,
                    model\<lparr>last_viewport_height := viewport_height,
                          last_visible_start := first_global_index frame,
                          has_last_visible_frame := True\<rparr>))"

definition display_model_release_visible :: "display_visible_frame \<Rightarrow> display_visible_frame" where
  "display_model_release_visible frame = frame\<lparr>frame_lines := [], frame_count := 0\<rparr>"

definition display_model_follow_tail :: "display_model \<Rightarrow> display_model" where
  "display_model_follow_tail model =
     model\<lparr>view_mode := VIEW_FOLLOW_TAIL, view_anchor := zero_anchor,
           has_last_visible_frame := False, last_visible_start := 0\<rparr>"

text \<open>One line of the storage, live or behind the live lines.\<close>

definition view_line ::
  "(nat \<Rightarrow> nat \<Rightarrow> bool) \<Rightarrow> (nat \<Rightarrow> display_line option) \<Rightarrow> display_model \<Rightarrow> nat \<Rightarrow> display_line option" where
  "view_line map_ok beyond model i =
     (if i < length (dm_lines model)
      then (if map_ok i 1 then Some (dm_lines model ! i) else None) else beyond i)"

definition anchor_of :: "display_line \<Rightarrow> display_view_anchor" where
  "anchor_of l = \<lparr>anchor_message_id = dl_message_id l, anchor_subline_index = dl_subline_index l\<rparr>"

definition display_model_scroll_up ::
  "(nat \<Rightarrow> nat \<Rightarrow> bool) \<Rightarrow> (nat \<Rightarrow> display_line option) \<Rightarrow> nat \<Rightarrow> display_model \<Rightarrow> display_model" where
  "display_model_scroll_up map_ok beyond n model =
     (if dm_lines model = [] \<or> n = 0 then model
      else
        let total = length (dm_lines model);
            viewport = min (display_model_effective_viewport model n) total;
            tail_top = (if total > viewport then total - viewport else 0);
            (current_idx, model) =
              (if view_mode model = VIEW_FOLLOW_TAIL
               then (if has_last_visible_frame model then last_visible_start model else tail_top,
                     model\<lparr>view_mode := VIEW_MANUAL_SCROLL\<rparr>)
               else (case display_model_resolve_anchor map_ok model (view_anchor model) of
                       None \<Rightarrow> tail_top | Some i \<Rightarrow> i, model));
            current_idx = (if current_idx \<ge> n then current_idx - n else 0)
        in case view_line map_ok beyond model current_idx of
             None \<Rightarrow> model
           | Some l \<Rightarrow> model\<lparr>view_anchor := anchor_of l\<rparr>)"

definition display_model_scroll_down ::
  "(nat \<Rightarrow> nat \<Rightarrow> bool) \<Rightarrow> (nat \<Rightarrow> display_line option) \<Rightarrow> nat \<Rightarrow> display_model \<Rightarrow> display_model" where
  "display_model_scroll_down map_ok beyond n model =
     (if dm_lines model = [] \<or> n = 0 then model
      else if view_mode model = VIEW_FOLLOW_TAIL then model
      else
        let total = length (dm_lines model);
            viewport = min (display_model_effective_viewport model n) total
        in case display_model_resolve_anchor map_ok model (view_anchor model) of
             None \<Rightarrow> display_model_follow_tail model
           | Some current_idx \<Rightarrow>
               let max_top = (if total > viewport then total - viewport else 0)
               in if max_top = 0 then display_model_follow_tail model
                  else let new_idx = size_add current_idx n
                       in if new_idx \<ge> max_top then display_model_follow_tail model
                          else case view_line map_ok beyond model new_idx of
                            None \<Rightarrow> display_model_follow_tail model
                          | Some l \<Rightarrow> model\<lparr>view_anchor := anchor_of l\<rparr>)"

definition display_model_is_following_tail :: "display_model \<Rightarrow> bool" where
  "display_model_is_following_tail model \<longleftrightarrow> view_mode model = VIEW_FOLLOW_TAIL"

definition display_model_total_lines :: "display_model \<Rightarrow> nat" where
  "display_model_total_lines model = length (dm_lines model)"

section \<open>Wrapping stays in the buffer and loses nothing\<close>

text \<open>Every multi-byte character is complete: the bytes that a lead byte announces
  are inside the text.\<close>

definition lead_ok :: "cstr \<Rightarrow> bool" where
  "lead_ok t \<longleftrightarrow> (\<forall>i<length t. i + lead_len (code (t ! i)) \<le> length t)"

lemma byte_at_inside: "i < length t \<Longrightarrow> byte_at t i = Some (code (t ! i))"
  by (simp add: byte_at_def)

lemma byte_at_zero: "cstr_ok t \<Longrightarrow> byte_at t i = Some 0 \<longleftrightarrow> i = length t"
  by (auto simp: byte_at_def cstr_ok_def code_eq_zero split: if_splits dest: nth_mem)

lemma skip_params_le: "i \<le> length t \<Longrightarrow> skip_params t i \<le> length t"
proof (induction t i rule: skip_params.induct)
  case (1 t i)
  then show ?case by (subst skip_params.simps) auto
qed

lemma check_cont_le:
  "i + n \<le> length t \<Longrightarrow> k \<le> n \<Longrightarrow> \<exists>m. check_cont t i k n = Some m \<and> m \<le> n"
proof (induction t i k n rule: check_cont.induct)
  case (1 t i k n)
  show ?case
  proof (cases "k < n")
    case True
    with 1(2) have b: "byte_at t (i + k) = Some (code (t ! (i + k)))"
      by (simp add: byte_at_inside)
    with 1 True show ?thesis
      by (subst check_cont.simps) (auto simp: Suc_leI)
  qed (subst check_cont.simps, simp)
qed

lemma lead_cols_bound: "lead_cols t i b = Some w \<Longrightarrow> w \<le> 2"
  by (auto simp: lead_cols_def Let_def split: if_splits option.splits)

lemma lead_cols_inside: "i + lead_len b \<le> length t \<Longrightarrow> \<exists>w. lead_cols t i b = Some w"
  by (auto simp: lead_cols_def lead_len_def byte_at_def Let_def split: if_splits)

lemma utf8_cols_bound: "utf8_char_width t i = Some (w, j) \<Longrightarrow> w \<le> 2"
  by (auto simp: utf8_char_width_def Let_def split: option.splits if_splits dest: lead_cols_bound)

lemma utf8_char_width_inside:
  assumes "cstr_ok t" "lead_ok t" "i < length t"
  shows "\<exists>w j. utf8_char_width t i = Some (w, j) \<and> j \<le> length t"
proof -
  let ?b = "code (t ! i)"
  have i: "i + lead_len ?b \<le> length t" using assms by (simp add: lead_ok_def)
  obtain w n where "lead_cols t i ?b = Some w" "check_cont t i 1 (lead_len ?b) = Some n" "n \<le> lead_len ?b"
    using lead_cols_inside [OF i] check_cont_le [OF i, of 1] lead_len_pos [of ?b]
    by (metis One_nat_def Suc_leI)
  moreover have "skip_params t (i + 2) + (if byte_at t (skip_params t (i + 2)) \<noteq> Some 0 then 1 else 0)
      \<le> length t" if "byte_at t (i + 1) = Some 91"
  proof -
    have "i + 2 \<le> length t" using that by (auto simp: byte_at_def split: if_splits)
    from skip_params_le [OF this] show ?thesis
      using byte_at_zero [OF assms(1), of "skip_params t (i + 2)"] by auto
  qed
  ultimately show ?thesis
    using i assms(3) by (auto simp: utf8_char_width_def byte_at_inside Let_def)
qed

lemma copy_bytes_inside:
  "i \<le> j \<Longrightarrow> j \<le> length t \<Longrightarrow> length row + (length t - i) < DISPLAY_LINE_TEXT_MAX - 1 \<Longrightarrow>
   copy_bytes t i j row = row @ take (j - i) (drop i t)"
  by (simp add: copy_bytes_def)

lemma take_drop_join:
  "i \<le> j \<Longrightarrow> j \<le> k \<Longrightarrow> take (j - i) (drop i t) @ take (k - j) (drop j t) = take (k - i) (drop i t)"
  by (auto simp: le_iff_add take_add add.commute)

text \<open>A row returns, advances, and its text is what it passed over.\<close>

lemma wrap_row_inside:
  "cstr_ok t \<Longrightarrow> lead_ok t \<Longrightarrow> i \<le> length t \<Longrightarrow>
   length row + (length t - i) < DISPLAY_LINE_TEXT_MAX - 1 \<Longrightarrow>
   \<exists>j. wrap_row t width i col row = Some (row @ take (j - i) (drop i t), j) \<and> i \<le> j \<and> j \<le> length t \<and>
     (i < length t \<and> code (t ! i) \<noteq> 10 \<and> col = 0 \<longrightarrow> i < j)"
proof (induction t width i col row rule: wrap_row.induct)
  case (1 t width i col row)
  show ?case
  proof (cases "i = length t \<or> code (t ! i) = 10")
    case True
    then have "wrap_row t width i col row = Some (row, i)"
      using 1(4) by (subst wrap_row.simps) (auto simp: byte_at_def)
    with True 1(4) show ?thesis by auto
  next
    case False
    with 1(4) have i: "i < length t" by simp
    then have b: "byte_at t i = Some (code (t ! i))" "code (t ! i) \<noteq> 0" "code (t ! i) \<noteq> 10"
      using byte_at_zero [OF 1(2), of i] False by (auto simp: byte_at_inside)
    obtain cw j where w: "utf8_char_width t i = Some (cw, j)" "j \<le> length t"
      using utf8_char_width_inside [OF 1(2,3) i] by auto
    have ij: "i < j" by (rule utf8_char_width_progress [OF w(1)])
    have copy: "copy_bytes t i j row = row @ take (j - i) (drop i t)"
      using ij w(2) 1(5) by (simp add: copy_bytes_inside)
    consider (stop) "col + cw > width \<and> col > 0"
      | (wide) "\<not> (col + cw > width \<and> col > 0)" "cw > width \<and> col = 0"
      | (next_char) "\<not> (col + cw > width \<and> col > 0)" "\<not> (cw > width \<and> col = 0)" by blast
    then show ?thesis
    proof cases
      case stop
      then have "wrap_row t width i col row = Some (row, i)"
        using b w by (subst wrap_row.simps) simp
      with stop i show ?thesis by auto
    next
      case wide
      then have "wrap_row t width i col row = Some (copy_bytes t i j row, j)"
        using b w by (subst wrap_row.simps) simp
      with copy ij w show ?thesis by auto
    next
      case next_char
      then have eq: "wrap_row t width i col row = wrap_row t width j (col + cw) (copy_bytes t i j row)"
        using b w by (subst wrap_row.simps) auto
      have "length (copy_bytes t i j row) + (length t - j) < DISPLAY_LINE_TEXT_MAX - 1"
        using copy ij w(2) 1(5) by simp
      with 1(1) [OF b(1) _ w(1) refl next_char] b 1(2,3) w(2) obtain k where
        "wrap_row t width j (col + cw) (copy_bytes t i j row)
           = Some (copy_bytes t i j row @ take (k - j) (drop j t), k)" "j \<le> k" "k \<le> length t"
        by auto
      with eq copy ij take_drop_join [of i j k t] show ?thesis by auto
    qed
  qed
qed

text \<open>The lines of a text: their texts, each followed by nothing or by a line feed,
  make up the text again, up to a rest only where all the room was used.\<close>

definition lossless_wrap :: "cstr \<Rightarrow> nat \<Rightarrow> display_line list \<Rightarrow> bool" where
  "lossless_wrap t room ls \<longleftrightarrow>
     (\<exists>seps rest. length seps = length ls \<and> set seps \<subseteq> {[], [CHR 0x0A]} \<and>
        t = concat (map2 (\<lambda>l s. dl_text l @ s) ls seps) @ rest \<and>
        (rest = [] \<or> length ls = room))"

definition numbered_lines :: "nat \<Rightarrow> nat \<Rightarrow> display_line list \<Rightarrow> bool" where
  "numbered_lines mid start ls \<longleftrightarrow>
     map dl_subline_index ls = map (\<lambda>k. k mod 65536) [start..<start + length ls] \<and>
     list_all (\<lambda>l. dl_message_id l = mid) ls"

lemma lossless_wrap_Cons:
  assumes "lossless_wrap u room ls" "s = [] \<or> s = [CHR 0x0A]" "t = dl_text l @ s @ u"
  shows "lossless_wrap t (Suc room) (l # ls)"
proof -
  obtain seps rest where "length seps = length ls" "set seps \<subseteq> {[], [CHR 0x0A]}"
    "u = concat (map2 (\<lambda>l s. dl_text l @ s) ls seps) @ rest" "rest = [] \<or> length ls = room"
    using assms(1) by (auto simp: lossless_wrap_def)
  with assms(2,3) show ?thesis
    unfolding lossless_wrap_def by (intro exI [of _ "s # seps"] exI [of _ rest]) auto
qed

lemma numbered_lines_Cons:
  "numbered_lines mid (Suc n) ls \<Longrightarrow> dl_subline_index l = n mod 65536 \<Longrightarrow> dl_message_id l = mid \<Longrightarrow>
   numbered_lines mid n (l # ls)"
  by (simp add: numbered_lines_def upt_conv_Cons del: upt_Suc)

lemma takeWhile_cstr: "cstr_ok t \<Longrightarrow> takeWhile (\<lambda>c. code c \<noteq> 0) (take n (drop i t)) = take n (drop i t)"
  by (auto simp: takeWhile_eq_all_conv cstr_ok_def code_eq_zero dest!: in_set_takeD in_set_dropD)

lemma wrap_rows_inside:
  "cstr_ok t \<Longrightarrow> lead_ok t \<Longrightarrow> i \<le> length t \<Longrightarrow> length t < DISPLAY_LINE_TEXT_MAX - 1 \<Longrightarrow>
   \<exists>ls. wrap_rows t width mid cap produced i = Some ls \<and> length ls \<le> cap - produced \<and>
     lossless_wrap (drop i t) (cap - produced) ls \<and> numbered_lines mid produced ls \<and>
     (ls = [] \<longrightarrow> i = length t \<or> cap \<le> produced)"
proof (induction t width mid cap produced i rule: wrap_rows.induct)
  case (1 t width mid cap produced i)
  show ?case
  proof (cases "i < length t \<and> produced < cap")
    case False
    then have "wrap_rows t width mid cap produced i = Some []"
      using 1(4) by (subst wrap_rows.simps) (auto simp: byte_at_def)
    moreover have "lossless_wrap (drop i t) (cap - produced) []"
      using False 1(4) by (auto simp: lossless_wrap_def)
    ultimately show ?thesis using False 1(4) by (auto simp: numbered_lines_def)
  next
    case True
    then have b: "byte_at t i = Some (code (t ! i))" "code (t ! i) \<noteq> 0"
      using byte_at_zero [OF 1(2), of i] by (auto simp: byte_at_inside)
    obtain j where row: "wrap_row t width i 0 [] = Some (take (j - i) (drop i t), j)"
      and j: "i \<le> j" "j \<le> length t"
      using wrap_row_inside [OF 1(2,3,4), of "[]" width 0] 1(5)
      by (metis append_Nil diff_le_self le_less_trans list.size(3) add_0)
    define c where "c = (if j < length t then code (t ! j) else 0)"
    have c: "byte_at t j = Some c" using j(2) by (auto simp: byte_at_def c_def)
    let ?k = "if c = 10 then j + 1 else j"
    let ?l = "\<lparr>dl_message_id = mid, dl_subline_index = produced mod 65536,
                dl_text = take (j - i) (drop i t)\<rparr>"
    have k: "?k \<le> length t" using j by (auto simp: c_def)
    have eq: "wrap_rows t width mid cap produced i =
        map_option ((#) ?l) (wrap_rows t width mid cap (Suc produced) ?k)"
      using b True row c
      by (subst wrap_rows.simps) (simp add: takeWhile_cstr [OF 1(2)] del: neq0_conv)
    obtain ls where ls: "wrap_rows t width mid cap (Suc produced) ?k = Some ls"
      "length ls \<le> cap - Suc produced" "lossless_wrap (drop ?k t) (cap - Suc produced) ls"
      "numbered_lines mid (Suc produced) ls"
      using 1(1) [OF b(1) _ row refl c 1(2,3) k 1(5)] b(2) True by auto
    have nl: "c = 10 \<Longrightarrow> t ! j = CHR 0x0A" "c = 10 \<Longrightarrow> j < length t"
      using code_eq_iff [of "t ! j" "CHR 0x0A"] by (auto simp: c_def split: if_splits)
    have "drop i t = take (j - i) (drop i t) @ drop j t"
      by (metis append_take_drop_id drop_drop le_add_diff_inverse2 j(1))
    moreover have "c = 10 \<Longrightarrow> drop j t = CHR 0x0A # drop (Suc j) t"
      by (metis Cons_nth_drop_Suc nl)
    ultimately have "drop i t = dl_text ?l @ (if c = 10 then [CHR 0x0A] else []) @ drop ?k t"
      by (cases "c = 10") simp_all
    from lossless_wrap_Cons [OF ls(3) _ this] True
    have "lossless_wrap (drop i t) (cap - produced) (?l # ls)"
      by (auto simp: Suc_diff_Suc)
    with eq ls True numbered_lines_Cons [OF ls(4), of ?l] show ?thesis by auto
  qed
qed



text \<open>The columns that a row occupies, character by character.\<close>

function row_columns :: "cstr \<Rightarrow> nat \<Rightarrow> nat \<Rightarrow> nat" where
  "row_columns t i j =
     (if i < j then (case utf8_char_width t i of None \<Rightarrow> 0 | Some (w, k) \<Rightarrow> w + row_columns t k j) else 0)"
  by pat_completeness auto
termination
  by (relation "measure (\<lambda>(t, i, j). j - i)") (auto dest: utf8_char_width_progress)

declare row_columns.simps [simp del]

lemma wrap_row_mono: "wrap_row t width i col row = Some (r, j) \<Longrightarrow> i \<le> j"
proof (induction t width i col row rule: wrap_row.induct)
  case (1 t width i col row)
  from 1(2) show ?case
    by (subst (asm) wrap_row.simps)
      (fastforce split: option.splits if_splits prod.splits dest: utf8_char_width_progress 1(1))
qed

lemma wrap_row_columns:
  "wrap_row t width i col row = Some (r, j) \<Longrightarrow> col \<le> width \<Longrightarrow> col + row_columns t i j \<le> max width 2"
proof (induction t width i col row rule: wrap_row.induct)
  case (1 t width i col row)
  have stay: "row_columns t k k = 0" for k by (simp add: row_columns.simps)
  from 1(2) obtain b where b: "byte_at t i = Some b"
    by (subst (asm) wrap_row.simps) (auto split: option.splits)
  show ?case
  proof (cases "b = 0 \<or> b = 10")
    case True
    with 1(2,3) b show ?thesis by (subst (asm) wrap_row.simps) (auto simp: stay)
  next
    case False
    with 1(2) b obtain cw k where w: "utf8_char_width t i = Some (cw, k)"
      by (subst (asm) wrap_row.simps) (auto split: option.splits)
    have ik: "i < k" "cw \<le> 2"
      using utf8_char_width_progress [OF w] utf8_cols_bound [OF w] by simp_all
    consider (stop) "col + cw > width \<and> col > 0"
      | (wide) "\<not> (col + cw > width \<and> col > 0)" "cw > width \<and> col = 0"
      | (next_char) "\<not> (col + cw > width \<and> col > 0)" "\<not> (cw > width \<and> col = 0)" by blast
    then show ?thesis
    proof cases
      case stop
      with 1(2,3) b w False show ?thesis by (subst (asm) wrap_row.simps) (auto simp: stay)
    next
      case wide
      with 1(2) b w False have "j = k" by (subst (asm) wrap_row.simps) auto
      with wide ik w show ?thesis by (simp add: row_columns.simps [of t i k] stay)
    next
      case next_char
      then have eq: "wrap_row t width k (col + cw) (copy_bytes t i k row) = Some (r, j)"
        using 1(2) b w False by (subst (asm) wrap_row.simps) auto
      then have "i < j" using wrap_row_mono [OF eq] ik by simp
      moreover have "col + cw + row_columns t k j \<le> max width 2"
        using 1(1) [OF b False w refl next_char eq] next_char by auto
      ultimately show ?thesis using w by (simp add: row_columns.simps [of t i j])
    qed
  qed
qed

text \<open>
  C22: A display line fits the terminal: the characters put on one line occupy at most
  the given width, or two columns where the width is one and a wide character stands
  alone.
\<close>

theorem wrap_row_fits:
  assumes "wrap_row t width i 0 [] = Some (row, j)"
  shows "row_columns t i j \<le> max width 2"
  using wrap_row_columns [OF assms] by simp

theorem wrap_row_fits_witness: "row_columns ''abcd'' 0 3 \<le> max 3 2"
proof -
  have "wrap_row ''abcd'' 3 0 0 [] = Some (''abc'', 3)"
    by (simp add: wrap_row.simps byte_at_def utf8_char_width_def copy_bytes_def
        DISPLAY_LINE_TEXT_MAX_def)
  then show ?thesis by (rule wrap_row_fits)
qed

text \<open>
  A text that ends inside a character makes wrapping read behind the buffer.  When
  the last byte announces a second byte, the check of the continuation bytes stops at
  the terminating zero without shortening the character, so the cursor steps over the
  terminator and the next read is outside the buffer.
\<close>

theorem wrap_truncated_overruns:
  fixes n :: nat
  assumes "192 \<le> n" "n < 224"
  shows "display_model_wrap_line (Some [char_of n]) (Suc width) mid (Suc cap) = None"
proof -
  have c: "code (char_of n) = n" using assms by simp
  have n: "n div 32 = 6" by (rule div_nat_eqI) (use assms in simp_all)
  have "check_cont [char_of n] 0 (Suc 0) 2 = Some 2"
    by (simp add: check_cont.simps byte_at_def)
  then have w: "utf8_char_width [char_of n] 0 = Some (1, 2)"
    using assms c n by (simp add: utf8_char_width_def byte_at_def lead_cols_def lead_len_def)
  have "wrap_row [char_of n] (Suc width) 2 (Suc 0) row = None" for row
    by (simp add: wrap_row.simps byte_at_def)
  then have "wrap_row [char_of n] (Suc width) 0 0 [] = None"
    using assms c w by (subst wrap_row.simps) (simp add: byte_at_def)
  then show ?thesis
    using assms c by (simp add: display_model_wrap_line_def wrap_rows.simps byte_at_def)
qed

theorem wrap_truncated_overruns_witness:
  "display_model_wrap_line (Some [char_of (195::nat)]) (Suc 79) 1 (Suc 255) = None"
  by (rule wrap_truncated_overruns) simp_all

section \<open>The line log\<close>

interpretation display_cap: capacity_policy display_capacity "SIZE_MAX div 2 + 1"
proof (unfold_locales, goal_cases)
  case (1 cap need c)
  then show ?case by (auto simp: display_capacity_def dest: double_until_bounds split: if_splits)
next
  case (2 cap need c)
  then show ?case by (auto simp: display_capacity_def dest: double_until_bounds split: if_splits)
next
  case (3 need cap)
  then show ?case by (simp add: display_capacity_def)
next
  case (4 need cap)
  then show ?case using double_until_total by (simp add: display_capacity_def)
qed

text \<open>Storing lines only ever appends, and touches nothing of the view.\<close>

lemma ensure_capacity_same:
  "display_model_ensure_capacity resize_ok model n = Some model' \<Longrightarrow>
   \<exists>c. model' = model\<lparr>line_capacity := c\<rparr> \<and> n \<le> c"
  by (auto simp: display_model_ensure_capacity_def dest: display_cap.grow_enough
      split: if_splits option.splits intro: exI [of _ "line_capacity model"])

lemma store_lines_cases:
  assumes "store_lines resize_ok map_ok ls model = (r, model')"
  obtains c where "\<not> r" "model' = model\<lparr>line_capacity := c\<rparr>"
    "c = line_capacity model \<or> length (dm_lines model) + length ls \<le> c"
  | c where "r" "model' = model\<lparr>line_capacity := c, dm_lines := dm_lines model @ ls\<rparr>"
    "length (dm_lines model) + length ls \<le> c"
proof (cases "display_model_ensure_capacity resize_ok model (length (dm_lines model) + length ls)")
  case None
  with assms that(1) [of "line_capacity model"] show thesis by (simp add: store_lines_def)
next
  case (Some m)
  then obtain c where c: "m = model\<lparr>line_capacity := c\<rparr>" "length (dm_lines model) + length ls \<le> c"
    using ensure_capacity_same by blast
  with Some assms that [of c] show thesis
    by (auto simp: store_lines_def split: if_splits)
qed

fun append_all ::
  "(nat \<Rightarrow> bool) \<Rightarrow> (nat \<Rightarrow> nat \<Rightarrow> bool) \<Rightarrow> nat \<Rightarrow> (nat \<times> cstr) list \<Rightarrow> display_model \<Rightarrow>
   (bool \<times> display_model) option" where
  "append_all resize_ok map_ok width [] model = Some (True, model)"
| "append_all resize_ok map_ok width ((mid, t) # ms) model =
     (case display_model_append_message resize_ok map_ok mid (Some t) width model of
        None \<Rightarrow> None
      | Some (r, model) \<Rightarrow>
          map_option (\<lambda>(rs, model). (r \<and> rs, model)) (append_all resize_ok map_ok width ms model))"

definition same_view :: "display_model \<Rightarrow> display_model \<Rightarrow> bool" where
  "same_view m n \<longleftrightarrow> view_mode m = view_mode n \<and> view_anchor m = view_anchor n"

lemma append_message_extends:
  assumes "display_model_append_message resize_ok map_ok mid text width m = Some (r, m')"
  shows "\<exists>extra. dm_lines m' = dm_lines m @ extra" and "same_view m' m"
proof -
  have "(\<exists>extra. dm_lines m' = dm_lines m @ extra) \<and> same_view m' m"
  proof (cases "text = None \<or> width = 0")
    case True
    with assms show ?thesis by (auto simp: display_model_append_message_def same_view_def)
  next
    case False
    with assms obtain ls n where ls: "display_model_wrap_line text width mid 256 = Some ls"
      "store_lines resize_ok map_ok ls m = (r, n)" "m' = n \<or> m' = n\<lparr>layout_width := width\<rparr>"
      by (auto simp: display_model_append_message_def split: option.splits prod.splits bool.splits)
    from ls(2) show ?thesis
      by (cases rule: store_lines_cases) (use ls(3) in \<open>auto simp: same_view_def\<close>)
  qed
  then show "\<exists>extra. dm_lines m' = dm_lines m @ extra" "same_view m' m" by simp_all
qed

lemma append_all_extends:
  "append_all resize_ok map_ok width ms m = Some (r, m') \<Longrightarrow>
   (\<exists>extra. dm_lines m' = dm_lines m @ extra) \<and> same_view m' m"
proof (induction ms arbitrary: m r)
  case (Cons a ms)
  obtain mid t where a: "a = (mid, t)" by (cases a)
  from Cons.prems a obtain r1 m1 rs where
    "display_model_append_message resize_ok map_ok mid (Some t) width m = Some (r1, m1)"
    "append_all resize_ok map_ok width ms m1 = Some (rs, m')"
    by (auto split: option.splits)
  with Cons.IH [of m1 rs] append_message_extends [of resize_ok map_ok mid "Some t" width m r1 m1]
  show ?case by (auto simp: same_view_def)
qed (simp add: same_view_def)

section \<open>The visible frame\<close>

text \<open>
  The visible frame is always a full window of the log.  For any positive height
  it shows as many lines as fit, the lesser of the height and the length of the log;
  they are consecutive lines of the log and inside it; and the flags say exactly
  whether the frame touches the newest and the oldest line.
\<close>

theorem visible_frame_window:
  assumes "0 < vp"
  shows "case display_model_compute_visible (\<lambda>_ _. True) vp m of (f, m') \<Rightarrow>
     frame_count f = min vp (length (dm_lines m)) \<and>
     first_global_index f + frame_count f \<le> length (dm_lines m) \<and>
     frame_lines f = take (frame_count f) (drop (first_global_index f) (dm_lines m)) \<and>
     length (frame_lines f) = frame_count f \<and>
     (at_tail f \<longleftrightarrow> first_global_index f + frame_count f = length (dm_lines m)) \<and>
     (at_head f \<longleftrightarrow> first_global_index f = 0) \<and>
     dm_lines m' = dm_lines m"
proof -
  have "i < length (dm_lines m)"
    if "display_model_resolve_anchor (\<lambda>_ _. True) m a = Some i" for a i
    using that by (auto simp: display_model_resolve_anchor_def Let_def first_index_Some
        split: if_splits option.splits)
  with assms show ?thesis
    by (auto simp: display_model_compute_visible_def Let_def empty_frame_def split: option.splits)
qed

theorem visible_frame_window_witness:
  "frame_count (fst (display_model_compute_visible (\<lambda>_ _. True) 2
     (display_model_zero\<lparr>dm_lines := map (\<lambda>k. \<lparr>dl_message_id = k, dl_subline_index = 0, dl_text = []\<rparr>) [0, 1, 2]\<rparr>))) = 2"
  using visible_frame_window [of 2 "display_model_zero\<lparr>dm_lines :=
     map (\<lambda>k. \<lparr>dl_message_id = k, dl_subline_index = 0, dl_text = []\<rparr>) [0, 1, 2]\<rparr>"]
  by (auto simp: case_prod_beta)

lemma compute_visible_manual:
  assumes "view_mode m = VIEW_MANUAL_SCROLL" "0 < vp" "i + vp \<le> length (dm_lines m)"
    and "display_model_resolve_anchor (\<lambda>_ _. True) m (view_anchor m) = Some i"
  shows "frame_lines (fst (display_model_compute_visible (\<lambda>_ _. True) vp m)) = take vp (drop i (dm_lines m))"
    and "first_global_index (fst (display_model_compute_visible (\<lambda>_ _. True) vp m)) = i"
  using assms by (auto simp: display_model_compute_visible_def Let_def)

definition exact_anchor :: "display_view_anchor \<Rightarrow> display_line \<Rightarrow> bool" where
  "exact_anchor a l \<longleftrightarrow> dl_message_id l = anchor_message_id a \<and> dl_subline_index l = anchor_subline_index a"

lemma resolve_exact:
  "first_index (exact_anchor a) (dm_lines m) = Some i \<Longrightarrow>
   display_model_resolve_anchor (\<lambda>_ _. True) m a = Some i"
  by (auto simp: display_model_resolve_anchor_def Let_def exact_anchor_def [abs_def])



section \<open>Recomputing the layout\<close>

lemma recompute_loop_append:
  "recompute_loop resize_ok map_ok width (map (\<lambda>(mid, t). (mid, Some t)) msgs) m = Some (True, m1) \<Longrightarrow>
   0 < width \<Longrightarrow> layout_width m = width \<Longrightarrow>
   \<exists>m2. append_all resize_ok map_ok width msgs m = Some (True, m2) \<and> m1 = m2\<lparr>dirty := False\<rparr>"
proof (induction msgs arbitrary: m)
  case (Cons a msgs)
  obtain mid t where a: "a = (mid, t)" by (cases a)
  obtain ls n where ls: "display_model_wrap_line (Some t) width mid 256 = Some ls"
    "store_lines resize_ok map_ok ls m = (True, n)"
    "recompute_loop resize_ok map_ok width (map (\<lambda>(mid, t). (mid, Some t)) msgs) n = Some (True, m1)"
    using Cons.prems(1) a by (auto split: option.splits prod.splits bool.splits)
  have n: "layout_width n = width"
    using ls(2) Cons.prems(3) by (cases rule: store_lines_cases) auto
  then have "display_model_append_message resize_ok map_ok mid (Some t) width m = Some (True, n)"
    using ls Cons.prems(2) by (auto simp: display_model_append_message_def)
  with Cons.IH [OF ls(3) Cons.prems(2) n] a show ?case by auto
qed auto

text \<open>
  Incremental layout agrees with the full one.  When the layout is recomputed from
  all messages at a positive width, the result is the one that appending the messages
  one by one to the emptied log gives, up to the dirty flag.
\<close>

theorem recompute_is_append_all:
  assumes "display_model_recompute_layout resize_ok map_ok (map (\<lambda>(mid, t). (mid, Some t)) msgs) width m
             = Some (True, m1)"
    and "0 < width"
  shows "map_option (\<lambda>(r, m2). (r, m2\<lparr>dirty := False\<rparr>))
           (append_all resize_ok map_ok width msgs (m\<lparr>dm_lines := [], layout_width := width\<rparr>))
         = Some (True, m1)"
proof (cases msgs)
  case Nil
  with assms show ?thesis by (auto simp: display_model_recompute_layout_def Let_def)
next
  case (Cons a ms)
  with assms recompute_loop_append [of resize_ok map_ok width msgs "m\<lparr>dm_lines := [], layout_width := width\<rparr>" m1]
  show ?thesis by (auto simp: display_model_recompute_layout_def Let_def)
qed

theorem recompute_is_append_all_witness:
  "map_option (\<lambda>(r, m2). (r, m2\<lparr>dirty := False\<rparr>))
     (append_all (\<lambda>_. True) (\<lambda>_ _. True) 10 [(1, []), (2, [])]
       (display_model_zero\<lparr>line_capacity := 64, dm_lines := [], layout_width := 10\<rparr>))
   = Some (True, display_model_zero\<lparr>line_capacity := 64, layout_width := 10,
       dm_lines := [\<lparr>dl_message_id = 1, dl_subline_index = 0, dl_text = []\<rparr>,
                    \<lparr>dl_message_id = 2, dl_subline_index = 0, dl_text = []\<rparr>]\<rparr>)"
proof -
  have "display_model_recompute_layout (\<lambda>_. True) (\<lambda>_ _. True) (map (\<lambda>(mid, t). (mid, Some t)) [(1, []), (2, [])])
      10 (display_model_zero\<lparr>line_capacity := 64\<rparr>)
    = Some (True, display_model_zero\<lparr>line_capacity := 64, layout_width := 10,
       dm_lines := [\<lparr>dl_message_id = 1, dl_subline_index = 0, dl_text = []\<rparr>,
                    \<lparr>dl_message_id = 2, dl_subline_index = 0, dl_text = []\<rparr>]\<rparr>)"
    by (simp add: display_model_recompute_layout_def display_model_wrap_line_def wrap_rows.simps
        byte_at_def store_lines_def display_model_ensure_capacity_def display_model_zero_def)
  from recompute_is_append_all [OF this] show ?thesis by simp
qed

section \<open>Scrolling\<close>

text \<open>Lines are told apart by message and subline, so an anchor names one line.\<close>

definition distinct_lines :: "display_model \<Rightarrow> bool" where
  "distinct_lines m \<longleftrightarrow> distinct (map anchor_of (dm_lines m))"

lemma resolve_distinct:
  assumes "distinct_lines m" "i < length (dm_lines m)"
  shows "display_model_resolve_anchor (\<lambda>_ _. True) m (anchor_of (dm_lines m ! i)) = Some i"
proof (rule resolve_exact)
  have "anchor_of (dm_lines m ! j) \<noteq> anchor_of (dm_lines m ! i)" if "j < i" for j
    using assms that by (auto simp: distinct_lines_def distinct_conv_nth)
  then show "first_index (exact_anchor (anchor_of (dm_lines m ! i))) (dm_lines m) = Some i"
    using assms(2) by (auto simp: first_index_Some exact_anchor_def anchor_of_def)
qed

lemma scroll_up_anchor:
  assumes "distinct_lines m" "view_mode m = VIEW_MANUAL_SCROLL" "0 < n"
    and "i < length (dm_lines m)" "view_anchor m = anchor_of (dm_lines m ! i)"
  shows "display_model_scroll_up (\<lambda>_ _. True) beyond n m
       = m\<lparr>view_anchor := anchor_of (dm_lines m ! (i - n))\<rparr>"
proof -
  have "dm_lines m \<noteq> []" "i - n < length (dm_lines m)" using assms(4) by auto
  with assms resolve_distinct [OF assms(1,4)] show ?thesis
    by (auto simp: display_model_scroll_up_def view_line_def Let_def)
qed

lemma scroll_down_anchor:
  assumes "distinct_lines m" "view_mode m = VIEW_MANUAL_SCROLL" "0 < n"
    and "view_anchor m = anchor_of (dm_lines m ! i)"
    and "i + n + vp < length (dm_lines m)" "last_viewport_height m = vp" "0 < vp"
    and "length (dm_lines m) \<le> SIZE_MAX"
  shows "display_model_scroll_down (\<lambda>_ _. True) beyond n m
       = m\<lparr>view_anchor := anchor_of (dm_lines m ! (i + n))\<rparr>"
proof -
  have ne: "dm_lines m \<noteq> []" "i < length (dm_lines m)" using assms(5) by auto
  have "size_add i n = i + n" using assms(5,8) by (intro size_add_small) simp
  moreover have "min (display_model_effective_viewport m n) (length (dm_lines m)) = vp"
    using assms(5-7) by (simp add: display_model_effective_viewport_def)
  ultimately show ?thesis
    using assms ne resolve_distinct [OF assms(1) ne(2)]
    by (simp add: display_model_scroll_down_def view_line_def Let_def)
qed

text \<open>
  Scrolling is exact and can be undone.  From a window that starts at line \<open>i\<close> of a
  log whose lines are distinct, scrolling up by \<open>n\<close> lines shows the window that starts
  \<open>n\<close> lines earlier, or the first one; and scrolling down by \<open>n\<close> from there shows the
  first window again.
\<close>

theorem scroll_up_down:
  assumes "distinct_lines m" "view_mode m = VIEW_MANUAL_SCROLL" "0 < n"
    and "view_anchor m = anchor_of (dm_lines m ! i)"
    and "last_viewport_height m = vp" "0 < vp" "i + vp < length (dm_lines m)"
    and "length (dm_lines m) \<le> SIZE_MAX"
  shows "first_global_index (fst (display_model_compute_visible (\<lambda>_ _. True) vp
           (display_model_scroll_up (\<lambda>_ _. True) beyond n m))) = i - n
     \<and> (n \<le> i \<longrightarrow> display_model_scroll_down (\<lambda>_ _. True) beyond n
           (display_model_scroll_up (\<lambda>_ _. True) beyond n m) = m)"
proof -
  let ?u = "m\<lparr>view_anchor := anchor_of (dm_lines m ! (i - n))\<rparr>"
  have up: "display_model_scroll_up (\<lambda>_ _. True) beyond n m = ?u"
    using assms by (intro scroll_up_anchor) auto
  have d: "distinct_lines ?u" using assms(1) by (simp add: distinct_lines_def)
  have "first_global_index (fst (display_model_compute_visible (\<lambda>_ _. True) vp ?u)) = i - n"
    using assms resolve_distinct [OF d, of "i - n"] by (intro compute_visible_manual(2)) auto
  moreover have "display_model_scroll_down (\<lambda>_ _. True) beyond n ?u = m" if "n \<le> i"
    using scroll_down_anchor [OF d, of n "i - n" vp beyond] assms that by simp
  ultimately show ?thesis using up by simp
qed

theorem scroll_up_down_witness:
  "first_global_index (fst (display_model_compute_visible (\<lambda>_ _. True) 1
     (display_model_scroll_up (\<lambda>_ _. True) (\<lambda>_. None) 1
       (display_model_zero\<lparr>dm_lines := map (\<lambda>k. \<lparr>dl_message_id = k, dl_subline_index = 0, dl_text = []\<rparr>) [0, 1, 2],
         view_mode := VIEW_MANUAL_SCROLL, last_viewport_height := 1,
         view_anchor := \<lparr>anchor_message_id = 1, anchor_subline_index = 0\<rparr>\<rparr>)))) = 1 - 1"
  (is "first_global_index (fst (display_model_compute_visible _ _ (display_model_scroll_up _ _ _ ?m))) = _")
  by (rule scroll_up_down [THEN conjunct1])
    (simp_all add: distinct_lines_def anchor_of_def SIZE_MAX_def)

end
