(* ===== verification/Compact_Id.thy ===== *)
theory Compact_Id
  imports Prelude
begin

text \<open>
  Compact message labels of \<^verbatim>\<open>src/host/transport/keys.c\<close>: an identifier is shown
  as a number from 1 to 9999 followed by a suffix of letters in bijective base 26.
  Values are 64-bit; the multiplication that the decoder leaves unguarded wraps.
\<close>

section \<open>Encoding\<close>

definition UINT64_MAX :: nat where
  "UINT64_MAX = 2 ^ 64 - 1"

text \<open>The letters of a suffix, least significant first, as the loop writes them.\<close>

function suffix_letters :: "nat \<Rightarrow> cstr" where
  "suffix_letters n =
     (if n > 0 then char_of (97 + (n - 1) mod 26) # suffix_letters ((n - 1) div 26) else [])"
  by pat_completeness auto
termination
  by (relation "measure id") (auto simp: div_le_dividend le_imp_less_Suc less_Suc_eq_le)

declare suffix_letters.simps [simp del]

text \<open>The label written to a buffer of \<open>len\<close> bytes; the suffix buffer holds 32.\<close>

definition host_compact_id_encode :: "nat \<Rightarrow> nat \<Rightarrow> cstr option" where
  "host_compact_id_encode ident len =
     (if len = 0 then None
      else if ident = 0 then None
      else
        let base_value = (ident - 1) mod 9999 + 1;
            suffix_index = (ident - 1) div 9999;
            digits = dec_str base_value
        in if length digits \<ge> len then None
           else if suffix_index = 0 then Some digits
           else
             let suffix = suffix_letters suffix_index
             in if length suffix \<ge> 32 then None
                else if length digits + length suffix \<ge> len then None
                else Some (digits @ rev suffix))"

section \<open>Decoding\<close>

text \<open>The loop over the digits: the value and the rest, or failure above 9999.\<close>

fun decode_digits :: "nat \<Rightarrow> cstr \<Rightarrow> (nat \<times> cstr) option" where
  "decode_digits v [] = Some (v, [])"
| "decode_digits v (c # s) =
     (if \<not> c_isdigit c then Some (v, c # s)
      else let v = v * 10 + digit_val c
           in if v > 9999 then None else decode_digits v s)"

definition letter_index :: "char \<Rightarrow> nat" where
  "letter_index c = code (c_tolower c) - 97"

fun decode_suffix :: "nat \<Rightarrow> cstr \<Rightarrow> (nat \<times> cstr) option" where
  "decode_suffix v [] = Some (v, [])"
| "decode_suffix v (c # s) =
     (if c_isspace c then Some (v, c # s)
      else if \<not> c_isalpha c then None
      else let addend = letter_index c + 1
           in if v > (UINT64_MAX - addend) div 26 then None
              else decode_suffix (v * 26 + addend) s)"

definition host_compact_id_decode :: "cstr \<Rightarrow> nat option" where
  "host_compact_id_decode text =
     (let s = dropWhile c_isspace text
      in case decode_digits 0 s of
           None \<Rightarrow> None
         | Some (base_value, rest) \<Rightarrow>
             if \<not> (s \<noteq> [] \<and> c_isdigit (hd s)) \<or> base_value = 0 then None
             else case decode_suffix 0 rest of
               None \<Rightarrow> None
             | Some (suffix_value, trail) \<Rightarrow>
                 if \<not> list_all c_isspace trail then None
                 else if suffix_value > 0
                 then let product = (suffix_value * 9999) mod 2 ^ 64
                      in if product > UINT64_MAX - base_value then None
                         else Some (product + base_value)
                 else Some base_value)"

section \<open>Leap years\<close>

definition host_is_leap_year :: "int \<Rightarrow> bool" where
  "host_is_leap_year year =
     (if year \<le> 0 then False
      else if year mod 4 \<noteq> 0 then False
      else if year mod 100 \<noteq> 0 then True
      else year mod 400 = 0)"

section \<open>Labels round trip\<close>

lemma decode_digits_list:
  "list_all c_isdigit ds \<Longrightarrow> foldl (\<lambda>v c. v * 10 + digit_val c) v ds \<le> 9999 \<Longrightarrow>
   t = [] \<or> \<not> c_isdigit (hd t) \<Longrightarrow>
   decode_digits v (ds @ t) = Some (foldl (\<lambda>v c. v * 10 + digit_val c) v ds, t)"
proof (induction ds arbitrary: v)
  case Nil
  then show ?case by (cases t) auto
next
  case (Cons d ds)
  have grow: "w \<le> foldl (\<lambda>v c. v * 10 + digit_val c) w ds" for w
  proof (induction ds arbitrary: w)
    case (Cons e es)
    then show ?case by (auto intro: le_trans [of w "w * 10 + digit_val e"])
  qed simp
  from grow [of "v * 10 + digit_val d"] Cons show ?case
    by (simp add: Let_def not_less)
qed

lemma decode_digits_dec_str:
  "n \<le> 9999 \<Longrightarrow> t = [] \<or> \<not> c_isdigit (hd t) \<Longrightarrow> decode_digits 0 (dec_str n @ t) = Some (n, t)"
  using decode_digits_list [OF dec_str_digits, of 0 n t] digits_val_dec_str [of n]
  by (simp add: digits_val_def)

lemma suffix_letters_zero [simp]: "suffix_letters 0 = []"
  by (simp add: suffix_letters.simps)

lemma suffix_letter_facts:
  assumes "k < 26"
  defines "c \<equiv> (char_of (97 + k) :: char)"
  shows "\<not> c_isspace c" "c_isalpha c" "letter_index c = k" "\<not> c_isdigit c"
  using assms(1)
  by (simp_all add: c_def letter_index_def c_tolower_def c_isspace_def c_isalpha_def c_isupper_def
      c_islower_def c_isdigit_def)

lemma decode_suffix_snoc:
  "decode_suffix v (s @ [c]) =
     (case decode_suffix v s of
        None \<Rightarrow> None
      | Some (w, []) \<Rightarrow> decode_suffix w [c]
      | Some (w, r) \<Rightarrow> Some (w, r @ [c]))"
  by (induction s arbitrary: v) (auto simp: Let_def)

lemma decode_suffix_letters:
  "n \<le> UINT64_MAX \<Longrightarrow> decode_suffix 0 (rev (suffix_letters n)) = Some (n, [])"
proof (induction n rule: suffix_letters.induct)
  case (1 n)
  show ?case
  proof (cases "n > 0")
    case True
    let ?k = "(n - 1) mod 26" and ?m = "(n - 1) div 26"
    have k: "?k < 26" by simp
    have n: "?m * 26 + ?k + 1 = n" using True by (simp add: algebra_simps)
    have "?m \<le> UINT64_MAX" using 1(2) by (meson div_le_dividend diff_le_self le_trans)
    with 1(1) [OF True] have ih: "decode_suffix 0 (rev (suffix_letters ?m)) = Some (?m, [])" by simp
    have "?m \<le> (UINT64_MAX - (?k + 1)) div 26"
      using n 1(2) by (subst less_eq_div_iff_mult_less_eq) linarith+
    with ih n True suffix_letter_facts [OF k] show ?thesis
      by (simp add: suffix_letters.simps [of n] decode_suffix_snoc)
  qed (simp add: suffix_letters.simps)
qed

lemma suffix_letters_alpha:
  "c \<in> set (suffix_letters n) \<Longrightarrow> c_isalpha c \<and> \<not> c_isdigit c"
proof (induction n rule: suffix_letters.induct)
  case (1 n)
  show ?case
  proof (cases "n > 0")
    case True
    with 1 show ?thesis
      using suffix_letter_facts [of "(n - 1) mod 26"]
      by (subst (asm) suffix_letters.simps) auto
  next
    case False
    with 1(2) show ?thesis by (simp add: suffix_letters.simps)
  qed
qed

lemma compact_id_decode_encode:
  assumes "host_compact_id_encode ident len = Some label" "ident \<le> UINT64_MAX"
  shows "host_compact_id_decode label = Some ident"
proof -
  obtain b s where ident: "s * 9999 + b = ident" and b: "b \<le> 9999" "b > 0"
    and label: "label = dec_str b @ rev (suffix_letters s)"
  proof
    show "(ident - 1) div 9999 * 9999 + ((ident - 1) mod 9999 + 1) = ident"
      using assms(1) by (auto simp: host_compact_id_encode_def split: if_splits)
    show "label = dec_str ((ident - 1) mod 9999 + 1) @ rev (suffix_letters ((ident - 1) div 9999))"
      using assms(1) by (auto simp: host_compact_id_encode_def Let_def split: if_splits)
  qed (simp_all add: less_eq_Suc_le [symmetric])
  have rest: "rev (suffix_letters s) = [] \<or> \<not> c_isdigit (hd (rev (suffix_letters s)))"
    using suffix_letters_alpha [of "hd (rev (suffix_letters s))" s]
    by (metis hd_in_set set_rev)
  obtain d ds where d: "dec_str b = d # ds" "c_isdigit d"
    using hd_dec_str_digit [of b] dec_str_not_Nil [of b] by (cases "dec_str b") auto
  then have "\<not> c_isspace d" by (simp add: c_isdigit_def c_isspace_def)
  with d have lead: "dropWhile c_isspace label = label" "label \<noteq> []" "c_isdigit (hd label)"
    by (simp_all add: label)
  have s: "s \<le> UINT64_MAX" "s * 9999 mod 2 ^ 64 = s * 9999" "s * 9999 \<le> UINT64_MAX - b"
    using ident assms(2) unfolding UINT64_MAX_def by (auto intro: mod_less)
  show ?thesis
    using lead decode_digits_dec_str [OF b(1) rest] decode_suffix_letters [OF s(1)] b(2) s(2,3) ident
    by (simp add: host_compact_id_decode_def label Let_def)
qed

lemma length_suffix_letters: "n < 26 ^ k \<Longrightarrow> length (suffix_letters n) \<le> k"
proof (induction n arbitrary: k rule: suffix_letters.induct)
  case (1 n)
  show ?case
  proof (cases "n > 0")
    case True
    with 1(2) obtain j where j: "k = Suc j" by (cases k) auto
    have "(n - 1) div 26 < 26 ^ j"
      using 1(2) j by (simp add: less_mult_imp_div_less mult.commute)
    with 1(1) [OF True] True j show ?thesis by (simp add: suffix_letters.simps [of n])
  qed simp
qed

text \<open>
  Message labels round trip.  Every identifier from 1 to the largest 64-bit number
  is encoded into a label that fits a buffer of 16 bytes, and decoding the label gives
  the identifier again.
\<close>

theorem compact_id_round_trip:
  assumes "0 < ident" "ident \<le> UINT64_MAX" "16 \<le> len"
  shows "\<exists>label. host_compact_id_encode ident len = Some label \<and> length label < 16 \<and>
           host_compact_id_decode label = Some ident"
proof -
  have "(ident - 1) div 9999 < 26 ^ 11"
    using assms(2) by (simp add: UINT64_MAX_def less_mult_imp_div_less)
  then have s: "length (suffix_letters ((ident - 1) div 9999)) \<le> 11"
    by (rule length_suffix_letters)
  have d: "length (dec_str ((ident - 1) mod 9999 + 1)) \<le> 4"
    by (rule length_dec_str_le) (simp_all add: less_Suc_eq_le [symmetric])
  have "host_compact_id_encode ident len =
      Some (dec_str ((ident - 1) mod 9999 + 1) @ rev (suffix_letters ((ident - 1) div 9999)))"
    using s d assms(1,3) by (simp add: host_compact_id_encode_def Let_def)
  with s d compact_id_decode_encode [OF this assms(2)] show ?thesis by simp
qed

theorem compact_id_round_trip_witness:
  "\<exists>label. host_compact_id_encode 19999 32 = Some label \<and> length label < 16 \<and>
     host_compact_id_decode label = Some 19999"
  by (rule compact_id_round_trip) (simp_all add: UINT64_MAX_def)

text \<open>
  Two different labels can name the same message.  The decoder multiplies the
  suffix without a check, so a long suffix wraps around: the label with the suffix
  below decodes to the identifier 8103, which is also what the label 8103 decodes to.
\<close>

theorem compact_id_decode_wraps:
  "host_compact_id_decode ''1matizxciqsp'' = Some 8103 \<and> host_compact_id_decode ''8103'' = Some 8103"
  by (simp add: host_compact_id_decode_def c_isspace_def c_isdigit_def c_isalpha_def c_isupper_def
      c_islower_def letter_index_def c_tolower_def digit_val_def UINT64_MAX_def Let_def)

end
