(* ===== verification/Message_Log.thy ===== *)
theory Message_Log
  imports Chat_History Compact_Id
begin

text \<open>
  The messages of the room as \<^verbatim>\<open>session_setup.c\<close> keeps them: identifiers, reactions, replies,
  deletion and expiry, and the state file that \<^verbatim>\<open>security/eliza_worker.c\<close> writes and
  \<^verbatim>\<open>security/state_persistence.c\<close> reads back.

  The cache of the last messages is the one of \<open>Chat_History\<close>.  The state file is the counter and
  the records of its header and history part; a file of another format is no file, and a file
  that ends early has fewer records than its header says.  The preferences and grants behind the
  records are not modelled, except whether they can be read.
  What the code asks the system for is in \<open>msg_env\<close>: the time of day, the monotonic clock in
  nanoseconds, the blob of a released history, and whether allocating, creating the temporary
  file and writing it succeed.  \<open>colour\<close> is the code of a colour name.
\<close>

section \<open>Entries\<close>

datatype chat_attachment_type =
  CHAT_ATTACHMENT_NONE | CHAT_ATTACHMENT_IMAGE | CHAT_ATTACHMENT_VIDEO | CHAT_ATTACHMENT_AUDIO |
  CHAT_ATTACHMENT_FILE

fun attachment_code :: "chat_attachment_type \<Rightarrow> nat" where
  "attachment_code CHAT_ATTACHMENT_NONE = 0"
| "attachment_code CHAT_ATTACHMENT_IMAGE = 1"
| "attachment_code CHAT_ATTACHMENT_VIDEO = 2"
| "attachment_code CHAT_ATTACHMENT_AUDIO = 3"
| "attachment_code CHAT_ATTACHMENT_FILE = 4"

definition attachment_of_code :: "nat \<Rightarrow> chat_attachment_type" where
  "attachment_of_code n =
     (if n = 1 then CHAT_ATTACHMENT_IMAGE else if n = 2 then CHAT_ATTACHMENT_VIDEO
      else if n = 3 then CHAT_ATTACHMENT_AUDIO else if n = 4 then CHAT_ATTACHMENT_FILE
      else CHAT_ATTACHMENT_NONE)"

record chat_history_entry =
  is_user_message :: bool
  preserve_whitespace :: bool
  ce_message :: cstr
  ce_username :: cstr
  ce_raw_username :: cstr
  ce_user_ip :: cstr
  ce_user_topology :: cstr
  ce_color_code :: cstr
  ce_highlight_code :: cstr
  ce_is_bold :: bool
  ce_color_name :: cstr
  ce_highlight_name :: cstr
  message_id :: nat
  attachment_type :: chat_attachment_type
  attachment_target :: cstr
  attachment_caption :: cstr
  ce_created_at :: int
  sender_ui_language :: nat
  reaction_counts :: "nat list"

definition REACTION_KIND_COUNT :: nat where
  "REACTION_KIND_COUNT = 7"

definition MSG_LIMIT :: nat where "MSG_LIMIT = 4096"
definition MSG_USERNAME_LEN :: nat where "MSG_USERNAME_LEN = 256"
definition MSG_IP_LEN :: nat where "MSG_IP_LEN = 64"
definition MSG_TOPOLOGY_LEN :: nat where "MSG_TOPOLOGY_LEN = 256"
definition MSG_COLOR_NAME_LEN :: nat where "MSG_COLOR_NAME_LEN = 32"
definition MSG_COLOR_CODE_LEN :: nat where "MSG_COLOR_CODE_LEN = 256"
definition MSG_ATTACHMENT_LEN :: nat where "MSG_ATTACHMENT_LEN = 256"

lemmas msg_sizes = REACTION_KIND_COUNT_def MSG_LIMIT_def MSG_USERNAME_LEN_def MSG_IP_LEN_def
  MSG_TOPOLOGY_LEN_def MSG_COLOR_NAME_LEN_def MSG_COLOR_CODE_LEN_def MSG_ATTACHMENT_LEN_def

text \<open>An entry of zero bytes.\<close>

definition zero_entry :: chat_history_entry where
  "zero_entry = \<lparr>is_user_message = False, preserve_whitespace = False, ce_message = [], ce_username = [],
     ce_raw_username = [], ce_user_ip = [], ce_user_topology = [], ce_color_code = [],
     ce_highlight_code = [], ce_is_bold = False, ce_color_name = [], ce_highlight_name = [],
     message_id = 0, attachment_type = CHAT_ATTACHMENT_NONE, attachment_target = [],
     attachment_caption = [], ce_created_at = 0, sender_ui_language = 0,
     reaction_counts = replicate REACTION_KIND_COUNT 0\<rparr>"

record chat_reply_entry =
  reply_in_use :: bool
  reply_id :: nat
  parent_message_id :: nat
  parent_reply_id :: nat
  reply_created_at :: int
  reply_username :: cstr
  reply_message :: cstr

section \<open>Records of the state file\<close>

record host_state_history_entry =
  hs_is_user_message :: nat
  hs_user_is_bold :: nat
  hs_username :: cstr
  hs_message :: cstr
  hs_color_name :: cstr
  hs_highlight_name :: cstr
  hs_raw_username :: cstr
  hs_message_id :: nat
  hs_created_at :: int
  hs_attachment_type :: nat
  hs_preserve :: nat
  hs_attachment_target :: cstr
  hs_attachment_caption :: cstr
  hs_color_code :: cstr
  hs_highlight_code :: cstr
  hs_reaction_counts :: "nat list"

definition host_state_write_history_entry :: "chat_history_entry \<Rightarrow> host_state_history_entry" where
  "host_state_write_history_entry e =
     \<lparr>hs_is_user_message = (if is_user_message e then 1 else 0),
      hs_user_is_bold = (if ce_is_bold e then 1 else 0),
      hs_username = snprintf_into MSG_USERNAME_LEN (ce_username e),
      hs_message = snprintf_into MSG_LIMIT (ce_message e),
      hs_color_name = snprintf_into MSG_COLOR_NAME_LEN (ce_color_name e),
      hs_highlight_name = snprintf_into MSG_COLOR_NAME_LEN (ce_highlight_name e),
      hs_raw_username = snprintf_into MSG_USERNAME_LEN (ce_raw_username e),
      hs_message_id = message_id e,
      hs_created_at = ce_created_at e,
      hs_attachment_type = attachment_code (attachment_type e),
      hs_preserve = (if preserve_whitespace e then 1 else 0),
      hs_attachment_target = snprintf_into MSG_ATTACHMENT_LEN (attachment_target e),
      hs_attachment_caption = snprintf_into MSG_ATTACHMENT_LEN (attachment_caption e),
      hs_color_code = snprintf_into MSG_COLOR_CODE_LEN (ce_color_code e),
      hs_highlight_code = snprintf_into MSG_COLOR_CODE_LEN (ce_highlight_code e),
      hs_reaction_counts = reaction_counts e\<rparr>"

definition host_state_read_history_entry :: "host_state_history_entry \<Rightarrow> chat_history_entry" where
  "host_state_read_history_entry s =
     (let e = zero_entry
        \<lparr>is_user_message := hs_is_user_message s \<noteq> 0,
         ce_is_bold := hs_user_is_bold s \<noteq> 0,
         ce_username := snprintf_into MSG_USERNAME_LEN (hs_username s),
         ce_raw_username := snprintf_into MSG_USERNAME_LEN (hs_raw_username s),
         ce_message := snprintf_into MSG_LIMIT (hs_message s),
         ce_color_name := snprintf_into MSG_COLOR_NAME_LEN (hs_color_name s),
         ce_highlight_name := snprintf_into MSG_COLOR_NAME_LEN (hs_highlight_name s),
         message_id := hs_message_id s,
         attachment_type := attachment_of_code (hs_attachment_type s),
         ce_created_at := hs_created_at s,
         preserve_whitespace := hs_preserve s \<noteq> 0,
         attachment_target := snprintf_into MSG_ATTACHMENT_LEN (hs_attachment_target s),
         attachment_caption := snprintf_into MSG_ATTACHMENT_LEN (hs_attachment_caption s),
         ce_color_code := snprintf_into MSG_COLOR_CODE_LEN (hs_color_code s),
         ce_highlight_code := snprintf_into MSG_COLOR_CODE_LEN (hs_highlight_code s),
         reaction_counts := hs_reaction_counts s\<rparr>
      in if ce_raw_username e = [] then e\<lparr>ce_raw_username := ce_username e\<rparr> else e)"

record state_file =
  sf_history_count :: nat
  sf_next_message_id :: nat
  sf_entries :: "host_state_history_entry list"

record reply_file =
  rf_next_reply_id :: nat
  rf_entries :: "chat_reply_entry list"

section \<open>The host\<close>

record msg_host =
  hist :: "chat_history_entry history_host"
  next_message_id :: nat
  mreplies :: "chat_reply_entry list"
  next_reply_id :: nat
  state_path :: bool
  state_file :: "state_file option"
  reply_path :: bool
  reply_file :: "reply_file option"
  last_state_save :: "int option"
  state_save_pending :: bool

record msg_env =
  env_now :: "int option"
  env_clock :: "int option"
  env_cold :: "(chat_history_entry list \<times> nat) option"
  env_alloc :: "nat \<Rightarrow> bool"
  env_temp_ok :: bool
  env_write_ok :: bool
  env_rest_ok :: bool

record msg_theme =
  theme_user_color :: "cstr option"
  theme_highlight :: "cstr option"
  default_user_color_name :: cstr
  default_user_highlight_name :: cstr
  colour :: "cstr \<Rightarrow> cstr option"
  highlight_colour :: "cstr \<Rightarrow> cstr option"

text \<open>The size of an entry in memory.\<close>

definition ENTRY_SIZE :: nat where
  "ENTRY_SIZE = 6080"

definition MAX_REPLIES :: nat where
  "MAX_REPLIES = 1024"

definition map_hist :: "(chat_history_entry history_host \<Rightarrow> chat_history_entry history_host) \<Rightarrow> msg_host \<Rightarrow> msg_host" where
  "map_hist f h = h\<lparr>hist := f (hist h)\<rparr>"

abbreviation cache :: "msg_host \<Rightarrow> chat_history_entry list" where
  "cache h \<equiv> history (hist h)"

definition restore_locked :: "msg_env \<Rightarrow> msg_host \<Rightarrow> msg_host" where
  "restore_locked env = map_hist (host_history_restore_cache_locked (env_cold env))"

section \<open>Normalising an entry\<close>

lemma tl_dropWhile_shorter: "s \<noteq> [] \<Longrightarrow> length (dropWhile P s) - Suc 0 < length s"
  using length_dropWhile_le [of P s] by (cases s) (simp_all add: le_imp_less_Suc)

text \<open>The loop over the lines; \<open>acc\<close> is what was written so far.\<close>

function strip_lines :: "cstr \<Rightarrow> cstr \<Rightarrow> cstr" where
  "strip_lines acc s =
     (if s = [] then acc
      else
        let line = takeWhile (\<lambda>c. c \<noteq> CHR 0x0A) s;
            rest = dropWhile (\<lambda>c. c \<noteq> CHR 0x0A) s;
            acc = (if \<not> list_all c_isspace line
                   then let acc = acc @ take (if length acc + length line \<ge> MSG_LIMIT
                                              then MSG_LIMIT - 1 - length acc else length line) line
                        in if rest \<noteq> [] \<and> length acc + 1 < MSG_LIMIT then acc @ [CHR 0x0A] else acc
                   else acc)
        in if rest = [] then acc else strip_lines acc (tl rest))"
  by pat_completeness auto
termination
  by (relation "measure (\<lambda>(acc, s). length s)") (simp_all add: tl_dropWhile_shorter)

declare strip_lines.simps [simp del]

definition host_history_strip_empty_lines :: "chat_history_entry \<Rightarrow> chat_history_entry" where
  "host_history_strip_empty_lines e =
     e\<lparr>ce_message := snprintf_into MSG_LIMIT (strip_lines [] (ce_message e))\<rparr>"

definition host_history_has_content :: "chat_history_entry \<Rightarrow> bool" where
  "host_history_has_content e \<longleftrightarrow>
     ce_message e \<noteq> [] \<or> (attachment_type e \<noteq> CHAT_ATTACHMENT_NONE \<and> attachment_target e \<noteq> [])"

definition fill_color :: "msg_theme \<Rightarrow> chat_history_entry \<Rightarrow> chat_history_entry" where
  "fill_color th e =
     (if ce_color_code e \<noteq> [] then e
      else case colour th (ce_color_name e) of
        Some ccode \<Rightarrow> e\<lparr>ce_color_code := snprintf_into MSG_COLOR_CODE_LEN ccode\<rparr>
      | None \<Rightarrow>
          let e = e\<lparr>ce_color_name := snprintf_into MSG_COLOR_NAME_LEN (default_user_color_name th)\<rparr>
          in case theme_user_color th of
               Some ccode \<Rightarrow> e\<lparr>ce_color_code := snprintf_into MSG_COLOR_CODE_LEN ccode\<rparr>
             | None \<Rightarrow> e)"

definition fill_highlight :: "msg_theme \<Rightarrow> chat_history_entry \<Rightarrow> chat_history_entry" where
  "fill_highlight th e =
     (if ce_highlight_code e \<noteq> [] then e
      else case highlight_colour th (ce_highlight_name e) of
        Some ccode \<Rightarrow> e\<lparr>ce_highlight_code := snprintf_into MSG_COLOR_CODE_LEN ccode\<rparr>
      | None \<Rightarrow>
          let e = e\<lparr>ce_highlight_name := snprintf_into MSG_COLOR_NAME_LEN (default_user_highlight_name th)\<rparr>
          in case theme_highlight th of
               Some ccode \<Rightarrow> e\<lparr>ce_highlight_code := snprintf_into MSG_COLOR_CODE_LEN ccode\<rparr>
             | None \<Rightarrow> e)"

definition host_history_normalize_entry :: "msg_theme \<Rightarrow> chat_history_entry \<Rightarrow> chat_history_entry option" where
  "host_history_normalize_entry th e0 =
     (let e = host_history_strip_empty_lines e0
      in if \<not> host_history_has_content e then None
         else if \<not> is_user_message e
         then Some (e\<lparr>ce_color_code := [], ce_highlight_code := [], ce_is_bold := False,
                      ce_color_name := [], ce_highlight_name := []\<rparr>)
         else Some (fill_highlight th (fill_color th e)))"

section \<open>Writing the state file\<close>

definition HISTORY_RETENTION_SECONDS :: int where
  "HISTORY_RETENTION_SECONDS = 14 * 24 * 60 * 60"

definition chat_history_entry_is_expired :: "int \<Rightarrow> chat_history_entry \<Rightarrow> bool" where
  "chat_history_entry_is_expired cutoff e \<longleftrightarrow>
     cutoff > 0 \<and> ce_created_at e \<noteq> 0 \<and> ce_created_at e < cutoff"

definition retention_cutoff :: "msg_env \<Rightarrow> int" where
  "retention_cutoff env =
     (case env_now env of
        None \<Rightarrow> 0
      | Some now \<Rightarrow> if now > HISTORY_RETENTION_SECONDS then now - HISTORY_RETENTION_SECONDS else 0)"

definition host_history_drop_expired_locked ::
  "int \<Rightarrow> chat_history_entry history_host \<Rightarrow> nat \<times> chat_history_entry history_host" where
  "host_history_drop_expired_locked cutoff hh =
     (if cutoff \<le> 0 \<or> history hh = [] then (0, hh)
      else let kept = filter (\<lambda>e. \<not> chat_history_entry_is_expired cutoff e) (history hh)
           in (length (history hh) - length kept, hh\<lparr>history := kept\<rparr>))"

text \<open>The first records of the file, as far as it has them, and whether it has them all.\<close>

definition older_records :: "nat \<Rightarrow> state_file option \<Rightarrow> host_state_history_entry list \<times> bool" where
  "older_records n sf =
     (if n = 0 then ([], True)
      else case sf of
        None \<Rightarrow> ([], False)
      | Some f \<Rightarrow> let lim = (if n > sf_history_count f then sf_history_count f else n)
                  in (take lim (sf_entries f), lim \<le> length (sf_entries f)))"

definition uint32 :: "nat \<Rightarrow> nat" where
  "uint32 n = n mod 2 ^ 32"

text \<open>A full rewrite of the file.  The counters and the pruned cache are updated even where the
  file cannot be written.\<close>

definition host_state_save_force_locked ::
  "msg_env \<Rightarrow> chat_history_entry list option \<Rightarrow> msg_host \<Rightarrow> msg_host" where
  "host_state_save_force_locked env over h0 =
     (let h = restore_locked env h0
      in if history_released (hist h) \<or> \<not> state_path h \<or> \<not> env_temp_ok env then h
         else
           let cutoff = retention_cutoff env;
               keep = filter (\<lambda>e. \<not> chat_history_entry_is_expired cutoff e)
           in case over of
                Some entries \<Rightarrow>
                  let kept = keep entries;
                      h = map_hist (\<lambda>hh. hh\<lparr>history_total := length kept, history_start_index := 0\<rparr>) h
                  in if env_write_ok env
                     then h\<lparr>state_file := Some \<lparr>sf_history_count = uint32 (length kept),
                            sf_next_message_id = next_message_id h,
                            sf_entries = map host_state_write_history_entry kept\<rparr>\<rparr>
                     else h
              | None \<Rightarrow>
                  let (older, complete) = older_records (history_start_index (hist h)) (state_file h);
                      older = map host_state_read_history_entry older;
                      kept_older = keep older;
                      h = (if cutoff > 0
                           then map_hist (\<lambda>hh. let hh = snd (host_history_drop_expired_locked cutoff hh)
                                  in hh\<lparr>history_start_index := length kept_older,
                                        history_total := length kept_older + length (history hh)\<rparr>) h
                           else map_hist (\<lambda>hh. hh\<lparr>history_total :=
                                  history_start_index hh + length (history hh)\<rparr>) h)
                  in if complete \<and> env_write_ok env
                     then h\<lparr>state_file := Some \<lparr>sf_history_count = uint32 (history_total (hist h)),
                            sf_next_message_id = next_message_id h,
                            sf_entries = map host_state_write_history_entry
                              (kept_older @ keep (cache h))\<rparr>\<rparr>
                     else h)"

definition STATE_SAVE_DEBOUNCE_NS :: int where
  "STATE_SAVE_DEBOUNCE_NS = 2000000000"

definition host_state_save_locked ::
  "msg_env \<Rightarrow> chat_history_entry list option \<Rightarrow> msg_host \<Rightarrow> msg_host" where
  "host_state_save_locked env over h =
     (case env_clock env of
        None \<Rightarrow> (host_state_save_force_locked env over h)\<lparr>state_save_pending := False\<rparr>
      | Some now \<Rightarrow>
          if (case last_state_save h of None \<Rightarrow> False | Some t \<Rightarrow> now - t < STATE_SAVE_DEBOUNCE_NS)
          then h\<lparr>state_save_pending := True\<rparr>
          else (host_state_save_force_locked env over h)
                 \<lparr>last_state_save := Some now, state_save_pending := False\<rparr>)"

definition host_state_save_flush_pending :: "msg_env \<Rightarrow> msg_host \<Rightarrow> msg_host" where
  "host_state_save_flush_pending env h =
     (if \<not> state_save_pending h then h
      else let h = (host_state_save_force_locked env None h)\<lparr>state_save_pending := False\<rparr>
           in case env_clock env of
                None \<Rightarrow> h
              | Some now \<Rightarrow> h\<lparr>last_state_save := Some now\<rparr>)"

section \<open>Recording messages\<close>

definition entry_matches :: "nat \<Rightarrow> chat_history_entry \<Rightarrow> bool" where
  "entry_matches ident e \<longleftrightarrow> message_id e = ident"

text \<open>Reading the history part of the file at start-up.  The state of the loop is the cache, its
  start index and the number of entries kept.\<close>

definition load_step ::
  "msg_theme \<Rightarrow> nat \<Rightarrow> nat \<Rightarrow> nat \<times> chat_history_entry \<Rightarrow>
   chat_history_entry list \<times> nat \<times> nat \<Rightarrow> chat_history_entry list \<times> nat \<times> nat" where
  "load_step th keep_start cap x acc =
     (case x of (idx, e0) \<Rightarrow> case acc of (kept, start, total_kept) \<Rightarrow>
        case host_history_normalize_entry th e0 of
          None \<Rightarrow> (kept, start, total_kept)
        | Some e \<Rightarrow>
            if length kept = HISTORY_CACHE_LIMIT
            then (tl kept @ [e], start + 1, total_kept + 1)
            else if idx \<ge> keep_start \<and> length kept < cap
            then (kept @ [e], start, total_kept + 1)
            else (kept, start, total_kept + 1))"

definition host_state_load_history_entries ::
  "msg_theme \<Rightarrow> msg_env \<Rightarrow> state_file \<Rightarrow> chat_history_entry history_host \<Rightarrow>
   bool \<times> chat_history_entry history_host" where
  "host_state_load_history_entries th env f hh =
     (let n = sf_history_count f;
          keep_start = (if n > HISTORY_CACHE_LIMIT then n - HISTORY_CACHE_LIMIT else 0);
          keep_count = (if n > HISTORY_CACHE_LIMIT then HISTORY_CACHE_LIMIT else n)
      in case (if keep_count > 0 then host_history_reserve_locked (env_alloc env) ENTRY_SIZE keep_count hh
               else Some hh) of
           None \<Rightarrow> (False, hh\<lparr>history := []\<rparr>)
         | Some hh \<Rightarrow>
             let records = map host_state_read_history_entry (take n (sf_entries f));
                 (kept, start, total_kept) =
                   fold (load_step th keep_start (history_capacity hh)) (enumerate 0 records) ([], 0, 0)
             in if n > length (sf_entries f)
                then (False, hh\<lparr>history := kept, history_start_index := start\<rparr>)
                else (True, hh\<lparr>history := kept, history_start_index := total_kept - length kept,
                               history_total := total_kept\<rparr>))"

definition host_state_normalize_next_message_id :: "nat \<Rightarrow> nat \<Rightarrow> nat" where
  "host_state_normalize_next_message_id requested stored =
     (if requested < size_add stored 1 then size_add stored 1 else requested)"

definition CLEANUP_SECONDS :: int where
  "CLEANUP_SECONDS = 3 * 24 * 60 * 60"

definition host_history_cleanup_expired :: "msg_env \<Rightarrow> msg_host \<Rightarrow> msg_host" where
  "host_history_cleanup_expired env h0 =
     (case env_now env of
        None \<Rightarrow> h0
      | Some now \<Rightarrow>
          let h = restore_locked env h0;
              kept = filter (\<lambda>e. ce_created_at e \<ge> now - CLEANUP_SECONDS) (cache h);
              removed = length (cache h) - length kept
          in if removed > 0
             then map_hist (\<lambda>hh. hh\<lparr>history := kept, history_total :=
                    (if history_total hh > removed then history_total hh - removed else 0)\<rparr>) h
             else h)"

definition host_state_load :: "msg_theme \<Rightarrow> msg_env \<Rightarrow> msg_host \<Rightarrow> msg_host" where
  "host_state_load th env h =
     (if \<not> state_path h then h
      else case state_file h of
        None \<Rightarrow> h
      | Some f \<Rightarrow>
          let (success, hh) = host_state_load_history_entries th env f (hist h);
              hh = (if success \<and> env_rest_ok env then hh else hh\<lparr>history := []\<rparr>);
              requested = (if sf_next_message_id f = 0 then size_add (history_total hh) 1
                           else sf_next_message_id f)
          in host_history_cleanup_expired env
               (h\<lparr>hist := hh, next_message_id :=
                  host_state_normalize_next_message_id requested (history_total hh)\<rparr>))"

definition host_history_restore_cache :: "msg_theme \<Rightarrow> msg_env \<Rightarrow> msg_host \<Rightarrow> msg_host" where
  "host_history_restore_cache th env h0 =
     (let h = restore_locked env h0
      in if \<not> history_released (hist h) then h
         else map_hist (\<lambda>hh. hh\<lparr>history_released := False,
                                history_cache_loaded := history_capacity hh > 0\<rparr>)
                (host_state_load th env h))"

text \<open>Appending an entry saves the state file.\<close>

definition history_append :: "msg_env \<Rightarrow> chat_history_entry \<Rightarrow> msg_host \<Rightarrow> bool \<times> msg_host" where
  "history_append env e h =
     (let (appended, hh) = host_history_append_locked (env_cold env) (env_alloc env) ENTRY_SIZE e (hist h);
          h = h\<lparr>hist := hh\<rparr>
      in (appended, if appended then host_state_save_locked env None h else h))"

definition host_history_commit_entry ::
  "msg_theme \<Rightarrow> msg_env \<Rightarrow> chat_history_entry \<Rightarrow> msg_host \<Rightarrow> chat_history_entry option \<times> msg_host" where
  "host_history_commit_entry th env e0 h0 =
     (let e1 = (if ce_created_at e0 = 0
                then case env_now env of None \<Rightarrow> e0 | Some now \<Rightarrow> e0\<lparr>ce_created_at := now\<rparr>
                else e0)
      in case host_history_normalize_entry th e1 of
           None \<Rightarrow> (None, h0)
         | Some e2 \<Rightarrow>
             let h = host_history_restore_cache th env h0;
                 ident = (if next_message_id h = 0 then 1 else next_message_id h);
                 e = e2\<lparr>message_id := (if is_user_message e2 then ident else 0)\<rparr>;
                 h = (if is_user_message e2 then h\<lparr>next_message_id := size_add ident 1\<rparr> else h);
                 (appended, h) = history_append env e h
             in (if appended then Some e else None, h))"

record msg_session =
  ms_display_name :: cstr
  ms_preferred_nickname :: "cstr option"
  ms_user_name :: cstr
  ms_ui_language :: nat
  ms_client_ip :: cstr
  ms_topology :: cstr
  ms_color_code :: cstr
  ms_highlight_code :: cstr
  ms_is_bold :: bool
  ms_color_name :: cstr
  ms_highlight_name :: cstr
  ms_is_operator :: bool
  ms_is_lan_operator :: bool

text \<open>\<open>ms_preferred_nickname\<close> is the nickname of the user's record where it is loaded;
  \<open>ms_topology\<close> the key that describes the way to the client.\<close>

definition chat_history_entry_prepare_user ::
  "msg_env \<Rightarrow> msg_session \<Rightarrow> cstr \<Rightarrow> bool \<Rightarrow> chat_history_entry" where
  "chat_history_entry_prepare_user env from message preserve =
     (let raw = (case ms_preferred_nickname from of
                   Some nick \<Rightarrow> if nick \<noteq> [] then nick else ms_user_name from
                 | None \<Rightarrow> ms_user_name from);
          raw = (if raw = [] then ms_display_name from else raw)
      in zero_entry
        \<lparr>is_user_message := True,
         preserve_whitespace := preserve,
         ce_created_at := (case env_now env of None \<Rightarrow> 0 | Some now \<Rightarrow> now),
         ce_message := snprintf_into MSG_LIMIT message,
         ce_username := snprintf_into MSG_USERNAME_LEN (ms_display_name from),
         ce_raw_username := snprintf_into MSG_USERNAME_LEN raw,
         sender_ui_language := ms_ui_language from,
         ce_user_ip := snprintf_into MSG_IP_LEN (ms_client_ip from),
         ce_user_topology := snprintf_into MSG_TOPOLOGY_LEN (ms_topology from),
         ce_color_code := snprintf_into MSG_COLOR_CODE_LEN (ms_color_code from),
         ce_highlight_code := snprintf_into MSG_COLOR_CODE_LEN (ms_highlight_code from),
         ce_is_bold := ms_is_bold from,
         ce_color_name := snprintf_into MSG_COLOR_NAME_LEN (ms_color_name from),
         ce_highlight_name := snprintf_into MSG_COLOR_NAME_LEN (ms_highlight_name from)\<rparr>)"

definition host_history_record_user ::
  "msg_theme \<Rightarrow> msg_env \<Rightarrow> msg_session \<Rightarrow> cstr \<Rightarrow> bool \<Rightarrow> msg_host \<Rightarrow> chat_history_entry option \<times> msg_host" where
  "host_history_record_user th env from message preserve h =
     (if message = [] then (None, h)
      else host_history_commit_entry th env (chat_history_entry_prepare_user env from message preserve) h)"

definition host_history_record_system ::
  "msg_theme \<Rightarrow> msg_env \<Rightarrow> cstr \<Rightarrow> msg_host \<Rightarrow> chat_history_entry option \<times> msg_host" where
  "host_history_record_system th env message h =
     (if message = [] then (None, h)
      else host_history_commit_entry th env
             (zero_entry\<lparr>ce_message := snprintf_into MSG_LIMIT message,
                         ce_created_at := (case env_now env of None \<Rightarrow> 0 | Some now \<Rightarrow> now)\<rparr>) h)"

section \<open>Finding, reacting and deleting\<close>

text \<open>The entries before the cache, as far as the file has them.\<close>

definition older_entries :: "msg_host \<Rightarrow> chat_history_entry list" where
  "older_entries h =
     (if history_start_index (hist h) > 0 \<and> state_path h
      then map host_state_read_history_entry
             (fst (older_records (history_start_index (hist h)) (state_file h)))
      else [])"

definition host_history_find_entry_by_id ::
  "msg_env \<Rightarrow> nat \<Rightarrow> msg_host \<Rightarrow> chat_history_entry option \<times> msg_host" where
  "host_history_find_entry_by_id env ident h0 =
     (if ident = 0 then (None, h0)
      else let h = restore_locked env h0
           in case List.find (entry_matches ident) (cache h) of
                Some e \<Rightarrow> (Some e, h)
              | None \<Rightarrow> (List.find (entry_matches ident) (older_entries h), h))"

definition UINT32_MAX :: nat where
  "UINT32_MAX = 2 ^ 32 - 1"

definition bump_reaction :: "nat \<Rightarrow> chat_history_entry \<Rightarrow> chat_history_entry" where
  "bump_reaction k e =
     (if reaction_counts e ! k < UINT32_MAX
      then e\<lparr>reaction_counts := (reaction_counts e)[k := reaction_counts e ! k + 1]\<rparr> else e)"

datatype msg_fault = DivisionByZero

text \<open>The size of a record of the file.\<close>

definition RECORD_SIZE :: nat where
  "RECORD_SIZE = 5760"

text \<open>The search of the records before the cache stops at the first that has the identifier.\<close>

definition older_target :: "nat \<Rightarrow> msg_host \<Rightarrow> (nat \<times> chat_history_entry) option" where
  "older_target ident h =
     (case first_index (entry_matches ident) (older_entries h) of
        None \<Rightarrow> None
      | Some idx \<Rightarrow> if is_user_message (older_entries h ! idx) then Some (idx, older_entries h ! idx) else None)"

definition host_history_apply_reaction ::
  "msg_env \<Rightarrow> nat \<Rightarrow> nat \<Rightarrow> msg_host \<Rightarrow> msg_fault + chat_history_entry option \<times> msg_host" where
  "host_history_apply_reaction env ident k h0 =
     (if ident = 0 \<or> k \<ge> REACTION_KIND_COUNT then Inr (None, h0)
      else
        let h = restore_locked env h0
        in case first_index (\<lambda>e. is_user_message e \<and> message_id e = ident) (cache h) of
             Some idx \<Rightarrow>
               let e = bump_reaction k (cache h ! idx)
               in Inr (Some e, host_state_save_locked env None
                    (map_hist (\<lambda>hh. hh\<lparr>history := (history hh)[idx := e]\<rparr>) h))
           | None \<Rightarrow>
               (case older_target ident h of
                  None \<Rightarrow> Inr (None, h)
                | Some (idx, found) \<Rightarrow>
                    if idx = 0 then Inl DivisionByZero
                    else if RECORD_SIZE \<le> SIZE_MAX div idx \<and> env_write_ok env
                    then let e = bump_reaction k found
                         in Inr (Some e, h\<lparr>state_file := map_option
                              (\<lambda>f. f\<lparr>sf_entries := (sf_entries f)[idx := host_state_write_history_entry e]\<rparr>)
                              (state_file h)\<rparr>)
                    else Inr (None, h)))"

definition host_reply_state_save_locked :: "msg_env \<Rightarrow> msg_host \<Rightarrow> msg_host" where
  "host_reply_state_save_locked env h =
     (if reply_path h \<and> env_temp_ok env \<and> env_write_ok env
      then h\<lparr>reply_file := Some \<lparr>rf_next_reply_id = next_reply_id h,
             rf_entries = filter reply_in_use (mreplies h)\<rparr>\<rparr>
      else h)"

definition in_range :: "nat \<Rightarrow> nat \<Rightarrow> nat \<Rightarrow> bool" where
  "in_range lo hi n \<longleftrightarrow> lo \<le> n \<and> n \<le> hi"

text \<open>The replies to deleted messages go.  Slots that are not in use are skipped by the copy.\<close>

definition delete_replies :: "msg_env \<Rightarrow> nat \<Rightarrow> nat \<Rightarrow> msg_host \<Rightarrow> nat \<times> msg_host" where
  "delete_replies env lo hi h =
     (let used = filter reply_in_use (mreplies h);
          kept = filter (\<lambda>r. \<not> in_range lo hi (parent_message_id r)) used;
          removed = length used - length kept
      in if removed = 0
         then (0, h\<lparr>mreplies := kept @ drop (length kept) (mreplies h)\<rparr>)
         else
           let max_id = foldl max 0 (map reply_id kept);
               next_id = (if max_id = 0 then if kept = [] then 1 else next_reply_id h
                          else if next_reply_id h \<le> max_id
                          then if max_id = UINT64_MAX then UINT64_MAX else max_id + 1
                          else next_reply_id h)
           in (removed, host_reply_state_save_locked env
                 (h\<lparr>mreplies := kept, next_reply_id := next_id\<rparr>)))"

text \<open>What a deletion works on: the entries of the file where it can be read, else the cache.\<close>

definition delete_source :: "msg_env \<Rightarrow> msg_host \<Rightarrow> chat_history_entry list option" where
  "delete_source env h =
     (let from_file =
        (if state_path h
         then case state_file h of
                None \<Rightarrow> None
              | Some f \<Rightarrow>
                  if sf_history_count f = 0 then Some []
                  else if env_alloc env (sf_history_count f) \<and> sf_history_count f \<le> length (sf_entries f)
                  then Some (map host_state_read_history_entry (take (sf_history_count f) (sf_entries f)))
                  else None
         else None)
      in case from_file of
           Some entries \<Rightarrow> Some entries
         | None \<Rightarrow> if cache h = [] \<or> env_alloc env (length (cache h)) then Some (cache h) else None)"

record delete_result =
  del_removed :: nat
  del_first :: nat
  del_last :: nat
  del_replies :: nat

definition no_delete :: delete_result where
  "no_delete = \<lparr>del_removed = 0, del_first = 0, del_last = 0, del_replies = 0\<rparr>"

definition host_history_delete_range ::
  "msg_env \<Rightarrow> nat \<Rightarrow> nat \<Rightarrow> msg_host \<Rightarrow> delete_result \<times> msg_host" where
  "host_history_delete_range env lo hi h0 =
     (if lo = 0 \<or> hi = 0 \<or> lo > hi then (no_delete, h0)
      else
        let h = restore_locked env h0
        in case delete_source env h of
             None \<Rightarrow> (no_delete, h)
           | Some entries \<Rightarrow>
               let gone = filter (\<lambda>e. is_user_message e \<and> in_range lo hi (message_id e)) entries;
                   kept = filter (\<lambda>e. \<not> (is_user_message e \<and> in_range lo hi (message_id e))) entries;
                   n = (if length kept > HISTORY_CACHE_LIMIT then HISTORY_CACHE_LIMIT else length kept)
               in if gone = [] then (no_delete, h)
                  else case host_history_reserve_locked (env_alloc env) ENTRY_SIZE n (hist h) of
                    None \<Rightarrow> (no_delete, h)
                  | Some hh \<Rightarrow>
                      let start = length kept - n;
                          hh = hh\<lparr>history := drop start kept, history_start_index := start,
                                  history_total := length kept\<rparr>;
                          max_id = foldl max 0 (map message_id kept);
                          next_id = (if max_id = 0 then 1
                                     else if next_message_id h \<le> max_id then size_add max_id 1
                                     else next_message_id h);
                          (replies, h) = delete_replies env lo hi (h\<lparr>hist := hh, next_message_id := next_id\<rparr>);
                          h = host_state_save_locked env (Some kept) h
                      in (\<lparr>del_removed = length gone,
                           del_first = foldl (\<lambda>f e. if f = 0 \<or> message_id e < f then message_id e else f) 0 gone,
                           del_last = foldl (\<lambda>f e. max f (message_id e)) 0 gone,
                           del_replies = replies\<rparr>, h))"

section \<open>Replies\<close>

definition host_replies_find_entry_by_id :: "nat \<Rightarrow> msg_host \<Rightarrow> chat_reply_entry option" where
  "host_replies_find_entry_by_id ident h =
     (if ident = 0 then None
      else List.find (\<lambda>r. reply_in_use r \<and> reply_id r = ident) (mreplies h))"

definition host_replies_commit_entry ::
  "msg_env \<Rightarrow> chat_reply_entry \<Rightarrow> msg_host \<Rightarrow> chat_reply_entry option \<times> msg_host" where
  "host_replies_commit_entry env r0 h =
     (if length (mreplies h) \<ge> MAX_REPLIES then (None, h)
      else
        let assigned = (if next_reply_id h = 0 \<or> next_reply_id h = UINT64_MAX
                        then length (mreplies h) + 1 else next_reply_id h);
            r = r0\<lparr>reply_id := assigned, reply_in_use := True\<rparr>
        in (Some r, host_reply_state_save_locked env
              (h\<lparr>next_reply_id := (if assigned < UINT64_MAX then assigned + 1 else assigned),
                 mreplies := mreplies h @ [r]\<rparr>)))"

definition load_reply :: "chat_reply_entry \<Rightarrow> chat_reply_entry list \<times> nat \<Rightarrow> chat_reply_entry list \<times> nat" where
  "load_reply r acc =
     (case acc of (kept, max_id) \<Rightarrow>
        if length kept \<ge> MAX_REPLIES then (kept, max max_id (reply_id r))
        else let ident = (if reply_id r \<noteq> 0 then reply_id r else length kept + 1)
             in (kept @ [r\<lparr>reply_in_use := True, reply_id := ident,
                           reply_username := snprintf_into MSG_USERNAME_LEN (reply_username r),
                           reply_message := snprintf_into MSG_LIMIT (reply_message r)\<rparr>], max max_id ident))"

definition host_reply_state_load :: "msg_env \<Rightarrow> msg_host \<Rightarrow> msg_host" where
  "host_reply_state_load env h =
     (if \<not> reply_path h then h
      else case reply_file h of
        None \<Rightarrow> h
      | Some f \<Rightarrow>
          if rf_entries f \<noteq> [] \<and> \<not> env_alloc env (length (rf_entries f)) then h
          else
            let (kept, max_id) = fold load_reply (rf_entries f) ([], 0);
                next_id = (if rf_next_reply_id f \<noteq> 0 then rf_next_reply_id f else 1);
                next_id = (if next_id \<le> max_id
                           then if max_id = UINT64_MAX then UINT64_MAX else max_id + 1 else next_id)
            in h\<lparr>mreplies := kept, next_reply_id := (if next_id = 0 then length kept + 1 else next_id)\<rparr>)"

section \<open>Starting the daemon\<close>

definition fresh_host :: "bool \<Rightarrow> state_file option \<Rightarrow> bool \<Rightarrow> reply_file option \<Rightarrow> msg_host" where
  "fresh_host sp sf rp rf =
     \<lparr>hist = history_empty, next_message_id = 1, mreplies = [], next_reply_id = 1,
      state_path = sp, state_file = sf, reply_path = rp, reply_file = rf,
      last_state_save = None, state_save_pending = False\<rparr>"

definition boot :: "msg_theme \<Rightarrow> msg_env \<Rightarrow> msg_host \<Rightarrow> msg_host" where
  "boot th env h =
     (let h = host_state_load th env (fresh_host (state_path h) (state_file h) (reply_path h) (reply_file h));
          h = map_hist (\<lambda>hh. hh\<lparr>history_cache_loaded := history_capacity hh > 0\<rparr>) h
      in host_reply_state_load env h)"

end
