(* ===== verification/Message_Text.thy ===== *)
theory Message_Text
  imports Message_Log
begin

text \<open>
  What normalising does to the text of a message, and what a record of the state file keeps of an
  entry.
\<close>

section \<open>Lines with content\<close>

text \<open>The lines of a text, each with the newline that ends it.\<close>

fun text_lines :: "cstr \<Rightarrow> cstr list" where
  "text_lines [] = []"
| "text_lines (c # s) =
     (if c = CHR 0x0A then [c] # text_lines s
      else case text_lines s of [] \<Rightarrow> [[c]] | l # ls \<Rightarrow> (c # l) # ls)"

definition content_line :: "cstr \<Rightarrow> bool" where
  "content_line l \<longleftrightarrow> \<not> list_all c_isspace l"

definition content_text :: "cstr \<Rightarrow> cstr" where
  "content_text s = concat (filter content_line (text_lines s))"

lemma newline_isspace [simp]: "c_isspace CHR 0x0A"
  by (simp add: c_isspace_def)

lemma concat_text_lines: "concat (text_lines s) = s"
  by (induction s) (auto split: list.split)

lemma text_lines_line:
  assumes "CHR 0x0A \<notin> set l"
  shows "text_lines (l @ CHR 0x0A # s) = (l @ [CHR 0x0A]) # text_lines s"
  using assms by (induction l) (auto split: list.split)

lemma text_lines_last: "CHR 0x0A \<notin> set l \<Longrightarrow> l \<noteq> [] \<Longrightarrow> text_lines l = [l]"
proof (induction l)
  case (Cons c l)
  then show ?case by (cases "l = []") auto
qed simp

text \<open>The shape of the lines of a text: only the last one may lack its newline.\<close>

fun lines_shape :: "cstr list \<Rightarrow> bool" where
  "lines_shape [] \<longleftrightarrow> True"
| "lines_shape [l] \<longleftrightarrow> l \<noteq> [] \<and> CHR 0x0A \<notin> set (butlast l)"
| "lines_shape (l # ls) \<longleftrightarrow> l \<noteq> [] \<and> last l = CHR 0x0A \<and> CHR 0x0A \<notin> set (butlast l) \<and> lines_shape ls"

lemma lines_shape_Cons:
  "lines_shape (l # ls) \<longleftrightarrow>
     l \<noteq> [] \<and> CHR 0x0A \<notin> set (butlast l) \<and> (ls \<noteq> [] \<longrightarrow> last l = CHR 0x0A) \<and> lines_shape ls"
  by (cases ls) auto

lemma text_lines_shape: "lines_shape (text_lines s)"
proof (induction s)
  case (Cons c s)
  then show ?case by (cases "text_lines s") (auto simp: lines_shape_Cons)
qed simp

lemma lines_shape_filter: "lines_shape ls \<Longrightarrow> lines_shape (filter P ls)"
  by (induction ls) (auto simp: lines_shape_Cons filter_empty_conv)

lemma text_lines_concat: "lines_shape ls \<Longrightarrow> text_lines (concat ls) = ls"
proof (induction ls)
  case (Cons l ls)
  have l: "l = butlast l @ [last l]" "CHR 0x0A \<notin> set (butlast l)" "lines_shape ls"
    using Cons.prems by (auto simp: lines_shape_Cons)
  show ?case
  proof (cases "last l = CHR 0x0A")
    case True
    define b where "b = butlast l"
    have b: "l = b @ [CHR 0x0A]" "CHR 0x0A \<notin> set b" using l(1,2) True by (simp_all add: b_def)
    then show ?thesis using text_lines_line [OF b(2)] Cons.IH [OF l(3)] by simp
  next
    case False
    then have "ls = []" using Cons.prems by (auto simp: lines_shape_Cons)
    have "set l = insert (last l) (set (butlast l))" by (subst l(1)) simp
    then have "CHR 0x0A \<notin> set l" using False l(2) by auto
    with \<open>ls = []\<close> show ?thesis using text_lines_last Cons.prems by (simp add: lines_shape_Cons)
  qed
qed simp

lemma content_text_lines: "text_lines (content_text s) = filter content_line (text_lines s)"
  unfolding content_text_def by (rule text_lines_concat [OF lines_shape_filter [OF text_lines_shape]])

lemma content_text_idem: "content_text (content_text s) = content_text s"
  using content_text_lines [of s] by (simp add: content_text_def)

lemma length_concat_filter: "length (concat (filter P ls)) \<le> length (concat ls)"
  by (induction ls) auto

lemma content_text_length: "length (content_text s) \<le> length s"
  using length_concat_filter [of content_line "text_lines s"] by (simp add: content_text_def concat_text_lines)

text \<open>The loop computes them, as long as the buffer is large enough, which it is for every text
  that fits a message.\<close>

lemma strip_lines_last:
  assumes "CHR 0x0A \<notin> set l" "length acc + length l < MSG_LIMIT"
  shows "strip_lines acc l = (if list_all c_isspace l then acc else acc @ l)"
proof -
  have line: "takeWhile (\<lambda>c. c \<noteq> CHR 0x0A) l = l" "dropWhile (\<lambda>c. c \<noteq> CHR 0x0A) l = []"
    using assms(1) by (auto simp: takeWhile_eq_all_conv dropWhile_eq_Nil_conv)
  show ?thesis using assms(2)
    by (cases "l = []") (simp_all add: strip_lines.simps [of acc l] strip_lines.simps [of acc "[]"] line Let_def)
qed

lemma strip_lines_step:
  assumes "CHR 0x0A \<notin> set l" "length acc + length l + 1 < MSG_LIMIT"
  shows "strip_lines acc (l @ CHR 0x0A # s) =
    strip_lines (if list_all c_isspace l then acc else acc @ l @ [CHR 0x0A]) s"
proof -
  have "takeWhile (\<lambda>c. c \<noteq> CHR 0x0A) (l @ CHR 0x0A # s) = l"
    "dropWhile (\<lambda>c. c \<noteq> CHR 0x0A) (l @ CHR 0x0A # s) = CHR 0x0A # s"
    using assms(1) by (induction l) auto
  then show ?thesis using assms(2)
    by (simp add: strip_lines.simps [of acc "l @ CHR 0x0A # s"] Let_def)
qed

lemma content_text_simps:
  "CHR 0x0A \<notin> set l \<Longrightarrow> content_text l = (if list_all c_isspace l then [] else l)"
  "CHR 0x0A \<notin> set l \<Longrightarrow> content_text (l @ CHR 0x0A # s) =
     (if list_all c_isspace l then [] else l @ [CHR 0x0A]) @ content_text s"
  by (cases "l = []"; simp add: content_text_def content_line_def text_lines_last)
    (simp add: content_text_def content_line_def text_lines_line)

lemma strip_lines_content:
  "length acc + length s < MSG_LIMIT \<Longrightarrow> strip_lines acc s = acc @ content_text s"
proof (induction "length s" arbitrary: acc s rule: less_induct)
  case less
  show ?case
  proof (cases "CHR 0x0A \<in> set s")
    case True
    then obtain l s' where s: "s = l @ CHR 0x0A # s'" "CHR 0x0A \<notin> set l" by (meson split_list_first)
    let ?acc = "if list_all c_isspace l then acc else acc @ l @ [CHR 0x0A]"
    have "strip_lines ?acc s' = ?acc @ content_text s'"
      using less.prems by (intro less.hyps) (auto simp: s(1))
    then show ?thesis
      using strip_lines_step [OF s(2), of acc s'] content_text_simps(2) [OF s(2), of s'] less.prems
      by (simp add: s(1))
  next
    case False
    then show ?thesis using strip_lines_last [OF False less.prems] content_text_simps(1) [OF False] by simp
  qed
qed

lemma strip_empty_lines_content:
  "length (ce_message e) < MSG_LIMIT \<Longrightarrow>
   host_history_strip_empty_lines e = e\<lparr>ce_message := content_text (ce_message e)\<rparr>"
  using strip_lines_content [of "[]" "ce_message e"] content_text_length [of "ce_message e"]
  by (simp add: host_history_strip_empty_lines_def)

section \<open>What a record keeps\<close>

text \<open>An entry fits the fields it is kept in.\<close>

definition entry_fits :: "chat_history_entry \<Rightarrow> bool" where
  "entry_fits e \<longleftrightarrow>
     length (ce_message e) < MSG_LIMIT \<and> length (ce_username e) < MSG_USERNAME_LEN \<and>
     length (ce_raw_username e) < MSG_USERNAME_LEN \<and>
     length (ce_color_code e) < MSG_COLOR_CODE_LEN \<and> length (ce_highlight_code e) < MSG_COLOR_CODE_LEN \<and>
     length (ce_color_name e) < MSG_COLOR_NAME_LEN \<and> length (ce_highlight_name e) < MSG_COLOR_NAME_LEN \<and>
     length (attachment_target e) < MSG_ATTACHMENT_LEN \<and> length (attachment_caption e) < MSG_ATTACHMENT_LEN"

text \<open>The address, the topology and the language of the sender are not stored.\<close>

definition persisted :: "chat_history_entry \<Rightarrow> chat_history_entry" where
  "persisted e = e\<lparr>ce_user_ip := [], ce_user_topology := [], sender_ui_language := 0,
     ce_raw_username := (if ce_raw_username e = [] then ce_username e else ce_raw_username e)\<rparr>"

lemma attachment_code_back [simp]: "attachment_of_code (attachment_code a) = a"
  by (cases a) (simp_all add: attachment_of_code_def)

lemma read_write_entry: "entry_fits e \<Longrightarrow> host_state_read_history_entry (host_state_write_history_entry e) = persisted e"
  by (auto simp: entry_fits_def host_state_read_history_entry_def host_state_write_history_entry_def persisted_def
      zero_entry_def Let_def)

lemma snprintf_into_twice [simp]: "snprintf_into n (snprintf_into n s) = snprintf_into n s"
  by (simp add: snprintf_into_def)

lemma snprintf_into_less [simp]: "0 < n \<Longrightarrow> length (snprintf_into n s) < n"
  by (simp add: snprintf_into_def)

lemma read_entry_fits [simp]: "entry_fits (host_state_read_history_entry s)"
  by (simp add: entry_fits_def host_state_read_history_entry_def zero_entry_def Let_def msg_sizes)

lemma persisted_fits: "entry_fits e \<Longrightarrow> entry_fits (persisted e)"
  by (simp add: entry_fits_def persisted_def)

lemma persisted_idem [simp]: "persisted (persisted e) = persisted e"
  by (simp add: persisted_def)

text \<open>A tag says whether an entry is a message of a user, and its identifier.\<close>

definition tag :: "chat_history_entry \<Rightarrow> bool \<times> nat" where
  "tag e = (is_user_message e, message_id e)"

lemma tag_read_write [simp]: "tag (host_state_read_history_entry (host_state_write_history_entry e)) = tag e"
  by (simp add: tag_def host_state_read_history_entry_def host_state_write_history_entry_def Let_def)

lemma tag_bump [simp]: "tag (bump_reaction k e) = tag e"
  by (simp add: tag_def bump_reaction_def)

lemma fill_tag [simp]: "tag (fill_highlight th e) = tag e" "tag (fill_color th e) = tag e"
  by (simp_all add: tag_def fill_highlight_def fill_color_def Let_def split: option.split)

lemma normalize_tag: "host_history_normalize_entry th e = Some e' \<Longrightarrow> tag e' = tag e"
  by (auto simp: host_history_normalize_entry_def Let_def split: if_splits)
    (simp_all add: tag_def host_history_strip_empty_lines_def)

end
