(* ===== verification/Message_Ids.thy ===== *)
theory Message_Ids
  imports Message_Text "HOL-Library.Sublist"
begin

text \<open>
  Identifiers of messages and replies over whole runs of the daemon: recording, reacting, deleting,
  replying, saving with and without success, and starting again from the files.
\<close>

section \<open>Runs\<close>

datatype msg_event =
  MsgCommit msg_env chat_history_entry
| MsgReact msg_env nat nat
| MsgDelete msg_env nat nat
| MsgReply msg_env chat_reply_entry
| MsgSave msg_env
| MsgFlush msg_env
| MsgRestart msg_env

fun msg_step :: "msg_theme \<Rightarrow> msg_event \<Rightarrow> msg_host \<Rightarrow> msg_host" where
  "msg_step th (MsgCommit env e) h = snd (host_history_commit_entry th env e h)"
| "msg_step th (MsgReact env ident k) h =
     (case host_history_apply_reaction env ident k h of Inl _ \<Rightarrow> h | Inr (_, h') \<Rightarrow> h')"
| "msg_step th (MsgDelete env lo hi) h = snd (host_history_delete_range env lo hi h)"
| "msg_step th (MsgReply env r) h = snd (host_replies_commit_entry env r h)"
| "msg_step th (MsgSave env) h = host_state_save_locked env None h"
| "msg_step th (MsgFlush env) h = host_state_save_flush_pending env h"
| "msg_step th (MsgRestart env) h = boot th env h"

text \<open>A restart reads the whole file.\<close>

fun msg_event_ok :: "msg_event \<Rightarrow> bool" where
  "msg_event_ok (MsgRestart env) \<longleftrightarrow> env_rest_ok env"
| "msg_event_ok _ \<longleftrightarrow> True"

section \<open>The invariant\<close>

text \<open>Identifiers of users' messages grow along the list and are below the next one; other
  entries have none.\<close>

definition ids_ok :: "nat \<Rightarrow> (bool \<times> nat) list \<Rightarrow> bool" where
  "ids_ok nx ts \<longleftrightarrow> sorted_wrt (<) (map snd (filter fst ts)) \<and>
     list_all (\<lambda>(user, i). if user then 0 < i \<and> i < nx else i = 0) ts"

definition replies_ok :: "nat \<Rightarrow> chat_reply_entry list \<Rightarrow> bool" where
  "replies_ok nx rs \<longleftrightarrow> sorted_wrt (<) (map reply_id rs) \<and>
     list_all (\<lambda>r. reply_in_use r \<and> 0 < reply_id r \<and> reply_id r < nx) rs \<and> length rs \<le> MAX_REPLIES"

definition file_ok :: "nat \<Rightarrow> state_file \<Rightarrow> bool" where
  "file_ok n f \<longleftrightarrow> length (sf_entries f) \<le> n \<and> sf_history_count f = length (sf_entries f) \<and>
     0 < sf_next_message_id f \<and> sf_next_message_id f \<le> Suc n \<and>
     ids_ok (sf_next_message_id f) (map (tag \<circ> host_state_read_history_entry) (sf_entries f))"

definition reply_file_ok :: "nat \<Rightarrow> reply_file \<Rightarrow> bool" where
  "reply_file_ok n f \<longleftrightarrow> 0 < rf_next_reply_id f \<and> rf_next_reply_id f \<le> Suc n \<and>
     replies_ok (rf_next_reply_id f) (rf_entries f)"

definition hist_ok :: "nat \<Rightarrow> chat_history_entry history_host \<Rightarrow> bool" where
  "hist_ok n hh \<longleftrightarrow> \<not> history_released hh \<and> history_start_index hh = 0 \<and> length (history hh) \<le> n \<and>
     history_total hh \<le> length (history hh)"

text \<open>\<open>n\<close> bounds the number of messages and replies so far.\<close>

definition msg_inv :: "nat \<Rightarrow> msg_host \<Rightarrow> bool" where
  "msg_inv n h \<longleftrightarrow>
     hist_ok n (hist h) \<and>
     0 < next_message_id h \<and> next_message_id h \<le> Suc n \<and> ids_ok (next_message_id h) (map tag (cache h)) \<and>
     0 < next_reply_id h \<and> next_reply_id h \<le> Suc n \<and> replies_ok (next_reply_id h) (mreplies h) \<and>
     pred_option (file_ok n) (state_file h) \<and> pred_option (reply_file_ok n) (reply_file h)"

lemmas msg_inv_defs = msg_inv_def hist_ok_def

lemma sorted_wrt_subseq: "subseq xs ys \<Longrightarrow> sorted_wrt R ys \<Longrightarrow> sorted_wrt R xs"
  by (induction rule: list_emb.induct) (auto dest: list_emb_set)

lemma subseq_set: "subseq xs ys \<Longrightarrow> set xs \<subseteq> set ys"
  by (auto elim: list_emb_set)

lemma ids_ok_subseq: "ids_ok nx ts \<Longrightarrow> subseq us ts \<Longrightarrow> ids_ok nx us"
  using sorted_wrt_subseq [OF subseq_map [OF subseq_filter]] subseq_set
  unfolding ids_ok_def list_all_iff by blast

lemma ids_ok_filter: "ids_ok nx (map f xs) \<Longrightarrow> ids_ok nx (map f (filter P xs))"
  by (erule ids_ok_subseq) (rule subseq_map [OF subseq_filter_left])

lemma ids_ok_mono: "ids_ok nx ts \<Longrightarrow> nx \<le> ny \<Longrightarrow> ids_ok ny ts"
  by (auto simp: ids_ok_def list_all_iff)

lemma ids_ok_user: "ids_ok nx ts \<Longrightarrow> 0 < nx \<Longrightarrow> ids_ok (Suc nx) (ts @ [(True, nx)])"
  by (auto simp: ids_ok_def list_all_iff sorted_wrt_append)

lemma ids_ok_system: "ids_ok nx ts \<Longrightarrow> ids_ok nx (ts @ [(False, 0)])"
  by (auto simp: ids_ok_def list_all_iff)

lemma replies_ok_mono: "replies_ok nx rs \<Longrightarrow> nx \<le> ny \<Longrightarrow> replies_ok ny rs"
  by (auto simp: replies_ok_def list_all_iff)

lemma replies_ok_filter: "replies_ok nx rs \<Longrightarrow> replies_ok nx (filter P rs)"
  using sorted_wrt_subseq [OF subseq_map [OF subseq_filter_left, of reply_id P rs]]
  by (auto simp: replies_ok_def list_all_iff intro: le_trans [OF length_filter_le])

lemma file_ok_mono: "file_ok n f \<Longrightarrow> n \<le> m \<Longrightarrow> file_ok m f"
  by (auto simp: file_ok_def)

lemma reply_file_ok_mono: "reply_file_ok n f \<Longrightarrow> n \<le> m \<Longrightarrow> reply_file_ok m f"
  by (auto simp: reply_file_ok_def)

lemma msg_inv_mono: "msg_inv n h \<Longrightarrow> n \<le> m \<Longrightarrow> msg_inv m h"
  by (auto simp: msg_inv_defs intro: file_ok_mono reply_file_ok_mono
      elim!: option.pred_mono_strong)

section \<open>Saving\<close>

lemma restore_locked_live [simp]: "\<not> history_released (hist h) \<Longrightarrow> restore_locked env h = h"
  by (simp add: restore_locked_def map_hist_def)

lemma map_hist_simps [simp]:
  "hist (map_hist f h) = f (hist h)" "next_message_id (map_hist f h) = next_message_id h"
  "mreplies (map_hist f h) = mreplies h" "next_reply_id (map_hist f h) = next_reply_id h"
  "state_path (map_hist f h) = state_path h" "state_file (map_hist f h) = state_file h"
  "reply_path (map_hist f h) = reply_path h" "reply_file (map_hist f h) = reply_file h"
  by (simp_all add: map_hist_def)

definition unexpired :: "msg_env \<Rightarrow> chat_history_entry list \<Rightarrow> chat_history_entry list" where
  "unexpired env = filter (\<lambda>e. \<not> chat_history_entry_is_expired (retention_cutoff env) e)"

lemma unexpired_Nil [simp]: "unexpired env [] = []"
  by (simp add: unexpired_def)

lemma retention_cutoff_nonneg: "0 \<le> retention_cutoff env"
  by (simp add: retention_cutoff_def split: option.split)

lemma unexpired_no_cutoff: "retention_cutoff env \<le> 0 \<Longrightarrow> unexpired env es = es"
  by (simp add: unexpired_def chat_history_entry_is_expired_def)

text \<open>What a full rewrite leaves, where all entries are in the cache.\<close>

definition saved_file :: "msg_env \<Rightarrow> msg_host \<Rightarrow> state_file" where
  "saved_file env h = \<lparr>sf_history_count = uint32 (length (unexpired env (cache h))),
     sf_next_message_id = next_message_id h,
     sf_entries = map host_state_write_history_entry (unexpired env (cache h))\<rparr>"

lemma drop_expired: "history (snd (host_history_drop_expired_locked (retention_cutoff env) hh)) = unexpired env (history hh)"
  by (auto simp: host_history_drop_expired_locked_def unexpired_def chat_history_entry_is_expired_def Let_def)

lemma drop_expired_frame:
  "history_released (snd (host_history_drop_expired_locked c hh)) = history_released hh"
  "history_capacity (snd (host_history_drop_expired_locked c hh)) = history_capacity hh"
  by (simp_all add: host_history_drop_expired_locked_def Let_def)

lemma unexpired_twice [simp]: "unexpired env (unexpired env es) = unexpired env es"
  by (simp add: unexpired_def)

lemma unexpired_length: "length (unexpired env es) \<le> length es"
  by (simp add: unexpired_def)

lemma save_force_plain:
  assumes "\<not> history_released (hist h)" "history_start_index (hist h) = 0" "state_path h" "env_temp_ok env"
  obtains hh where "host_state_save_force_locked env None h =
      (if env_write_ok env then h\<lparr>hist := hh, state_file := Some (saved_file env h)\<rparr> else h\<lparr>hist := hh\<rparr>)"
    "history hh = unexpired env (cache h)" "history_total hh = length (history hh)"
    "history_start_index hh = 0" "\<not> history_released hh" "history_capacity hh = history_capacity (hist h)"
proof (cases "retention_cutoff env > 0")
  case True
  let ?d = "snd (host_history_drop_expired_locked (retention_cutoff env) (hist h))"
  let ?hh = "?d\<lparr>history_start_index := 0, history_total := length (history ?d)\<rparr>"
  have "host_state_save_force_locked env None h =
      (if env_write_ok env then h\<lparr>hist := ?hh, state_file := Some (saved_file env h)\<rparr> else h\<lparr>hist := ?hh\<rparr>)"
    using assms True
    by (simp add: host_state_save_force_locked_def older_records_def Let_def unexpired_def [symmetric]
        drop_expired saved_file_def map_hist_def)
  then show thesis by (rule that) (use assms in \<open>simp_all add: drop_expired drop_expired_frame\<close>)
next
  case False
  let ?hh = "(hist h)\<lparr>history_total := length (cache h)\<rparr>"
  have keep: "unexpired env (cache h) = cache h" using False by (intro unexpired_no_cutoff) simp
  have "host_state_save_force_locked env None h =
      (if env_write_ok env then h\<lparr>hist := ?hh, state_file := Some (saved_file env h)\<rparr> else h\<lparr>hist := ?hh\<rparr>)"
    using assms False keep
    by (simp add: host_state_save_force_locked_def older_records_def Let_def unexpired_def [symmetric]
        saved_file_def map_hist_def)
  then show thesis by (rule that) (use assms keep in simp_all)
qed

lemma save_force_over:
  assumes "\<not> history_released (hist h)" "state_path h" "env_temp_ok env"
  shows "host_state_save_force_locked env (Some (cache h)) h =
    (let hh = (hist h)\<lparr>history_total := length (unexpired env (cache h)), history_start_index := 0\<rparr>
     in if env_write_ok env then h\<lparr>hist := hh, state_file := Some (saved_file env h)\<rparr> else h\<lparr>hist := hh\<rparr>)"
  using assms
  by (simp add: host_state_save_force_locked_def Let_def unexpired_def [symmetric] saved_file_def map_hist_def)

lemma save_force_skipped:
  "\<not> history_released (hist h) \<Longrightarrow> \<not> (state_path h \<and> env_temp_ok env) \<Longrightarrow>
   host_state_save_force_locked env over h = h"
  by (auto simp: host_state_save_force_locked_def Let_def)


lemma uint32_small: "n \<le> HISTORY_CACHE_LIMIT \<Longrightarrow> uint32 n = n"
  by (simp add: uint32_def HISTORY_CACHE_LIMIT_def)

lemma saved_file_ok:
  assumes "msg_inv n h" "n \<le> HISTORY_CACHE_LIMIT"
  shows "file_ok n (saved_file env h)"
proof -
  have "length (unexpired env (cache h)) \<le> n"
    using assms(1) unexpired_length [of env "cache h"] by (auto simp: msg_inv_defs)
  moreover have "ids_ok (next_message_id h) (map tag (unexpired env (cache h)))"
    using assms(1) by (auto simp: msg_inv_defs unexpired_def intro: ids_ok_filter)
  ultimately show ?thesis using assms uint32_small
    by (auto simp: file_ok_def saved_file_def msg_inv_defs comp_def)
qed

lemma msg_inv_hist:
  assumes "msg_inv n h" "hist_ok n hh" "subseq (map tag (history hh)) (map tag (cache h))"
  shows "msg_inv n (h\<lparr>hist := hh\<rparr>)"
  using assms ids_ok_subseq by (auto simp: msg_inv_def)

lemma msg_inv_file: "msg_inv n h \<Longrightarrow> file_ok n f \<Longrightarrow> msg_inv n (h\<lparr>state_file := Some f\<rparr>)"
  by (simp add: msg_inv_def)

lemma msg_inv_marks [simp]:
  "msg_inv n (h\<lparr>state_save_pending := p\<rparr>) \<longleftrightarrow> msg_inv n h"
  "msg_inv n (h\<lparr>last_state_save := t, state_save_pending := p\<rparr>) \<longleftrightarrow> msg_inv n h"
  "msg_inv n (h\<lparr>last_state_save := t\<rparr>) \<longleftrightarrow> msg_inv n h"
  by (simp_all add: msg_inv_def)

lemma save_force_inv:
  assumes "msg_inv n h" "n \<le> HISTORY_CACHE_LIMIT" "over = None \<or> over = Some (cache h)"
  shows "msg_inv n (host_state_save_force_locked env over h)"
proof (cases "state_path h \<and> env_temp_ok env")
  case False
  then show ?thesis using assms save_force_skipped [of h env over] by (simp add: msg_inv_defs)
next
  case True
  have live: "\<not> history_released (hist h)" "history_start_index (hist h) = 0"
    using assms(1) by (simp_all add: msg_inv_defs)
  have bound: "length (unexpired env (cache h)) \<le> n"
    using assms(1) unexpired_length [of env "cache h"] by (auto simp: msg_inv_defs)
  have sub: "subseq (map tag (unexpired env (cache h))) (map tag (cache h))"
    unfolding unexpired_def by (rule subseq_map [OF subseq_filter_left])
  have written: "msg_inv n (h\<lparr>hist := hh, state_file := Some (saved_file env h)\<rparr>)"
    if "msg_inv n (h\<lparr>hist := hh\<rparr>)" for hh
    using msg_inv_file [OF that saved_file_ok [OF assms(1,2)]] by simp
  from assms(3) show ?thesis
  proof
    assume none: "over = None"
    obtain hh where hh: "host_state_save_force_locked env None h =
      (if env_write_ok env then h\<lparr>hist := hh, state_file := Some (saved_file env h)\<rparr> else h\<lparr>hist := hh\<rparr>)"
      "history hh = unexpired env (cache h)" "history_total hh = length (history hh)"
      "history_start_index hh = 0" "\<not> history_released hh"
      using save_force_plain [OF live, of env] True by metis
    have "msg_inv n (h\<lparr>hist := hh\<rparr>)"
      using hh(2-5) sub bound by (intro msg_inv_hist [OF assms(1)]) (simp_all add: hist_ok_def)
    with written show ?thesis unfolding none hh(1) by simp
  next
    assume some: "over = Some (cache h)"
    let ?hh = "(hist h)\<lparr>history_total := length (unexpired env (cache h)), history_start_index := 0\<rparr>"
    have "msg_inv n (h\<lparr>hist := ?hh\<rparr>)"
      using assms(1) unexpired_length [of env "cache h"]
      by (intro msg_inv_hist [OF assms(1)]) (auto simp: msg_inv_defs)
    with written show ?thesis
      unfolding some using save_force_over [OF live(1)] True by (simp add: Let_def)
  qed
qed

lemma save_inv:
  assumes "msg_inv n h" "n \<le> HISTORY_CACHE_LIMIT" "over = None \<or> over = Some (cache h)"
  shows "msg_inv n (host_state_save_locked env over h)"
  using assms(1) save_force_inv [OF assms]
  by (simp add: host_state_save_locked_def split: option.split)

lemma flush_inv: "msg_inv n h \<Longrightarrow> n \<le> HISTORY_CACHE_LIMIT \<Longrightarrow> msg_inv n (host_state_save_flush_pending env h)"
  using save_force_inv [of n h None env]
  by (simp add: host_state_save_flush_pending_def Let_def split: option.split)

section \<open>Recording\<close>

lemma append_small:
  assumes "hist_ok n hh" "n < HISTORY_CACHE_LIMIT"
  obtains (failed) "host_history_append_locked cold alloc esize e hh = (False, hh)"
  | (appended) hh' where "host_history_append_locked cold alloc esize e hh = (True, hh')"
      "history hh' = history hh @ [e]" "hist_ok (Suc n) hh'"
proof -
  have hh: "\<not> history_released hh" "history_start_index hh = 0" "length (history hh) \<le> n"
    "history_total hh \<le> length (history hh)" using assms(1) by (simp_all add: hist_ok_def)
  let ?desired = "if length (history hh) + 1 > HISTORY_CACHE_LIMIT then HISTORY_CACHE_LIMIT
                  else length (history hh) + 1"
  show thesis
  proof (cases "host_history_reserve_locked alloc esize ?desired hh")
    case None
    then show thesis by (intro failed) (simp add: host_history_append_locked_def hh(1) Let_def)
  next
    case (Some g)
    from history_reserve_frame [OF this] obtain c where g: "g = hh\<lparr>history_capacity := c\<rparr>" by auto
    let ?hh' = "hh\<lparr>history_capacity := c, history := history hh @ [e],
        history_total := Suc (length (history hh)), history_start_index := 0\<rparr>"
    have "host_history_append_locked cold alloc esize e hh = (True, ?hh')"
      using Some hh assms(2) unfolding g
      by (auto simp: host_history_append_locked_def Let_def)
    then show thesis by (rule appended) (use hh in \<open>simp_all add: hist_ok_def\<close>)
  qed
qed

lemma restore_cache_live [simp]: "\<not> history_released (hist h) \<Longrightarrow> host_history_restore_cache th env h = h"
  by (simp add: host_history_restore_cache_def Let_def)

lemma commit_inv:
  assumes "msg_inv n h" "n < HISTORY_CACHE_LIMIT"
  shows "msg_inv (Suc n) (snd (host_history_commit_entry th env e h))"
proof -
  define e1 where "e1 = (if ce_created_at e = 0
      then case env_now env of None \<Rightarrow> e | Some now \<Rightarrow> e\<lparr>ce_created_at := now\<rparr> else e)"
  have up: "msg_inv (Suc n) h" using msg_inv_mono [OF assms(1)] by simp
  have live: "\<not> history_released (hist h)" and pos: "next_message_id h \<noteq> 0" using assms(1) by (auto simp: msg_inv_defs)
  show ?thesis
  proof (cases "host_history_normalize_entry th e1")
    case None
    then show ?thesis using up by (simp add: host_history_commit_entry_def e1_def [symmetric] Let_def)
  next
    case (Some e2)
    define e' where "e' = e2\<lparr>message_id := (if is_user_message e2 then next_message_id h else 0)\<rparr>"
    define g where "g = (if is_user_message e2 then h\<lparr>next_message_id := Suc (next_message_id h)\<rparr> else h)"
    have small: "size_add (next_message_id h) (Suc 0) = Suc (next_message_id h)"
      using assms by (subst size_add_small) (auto simp: msg_inv_defs SIZE_MAX_def HISTORY_CACHE_LIMIT_def)
    have commit: "snd (host_history_commit_entry th env e h) = snd (history_append env e' g)"
      using Some pos live small
      by (simp add: host_history_commit_entry_def e1_def [symmetric] e'_def g_def Let_def case_prod_beta)
    have hg: "hist g = hist h" by (simp add: g_def)
    have g: "msg_inv (Suc n) g"
      using up assms(1) ids_ok_mono by (auto simp: g_def msg_inv_defs)
    have tags: "ids_ok (next_message_id g) (map tag (cache h) @ [tag e'])"
      using assms(1) ids_ok_user ids_ok_system by (auto simp: msg_inv_defs g_def e'_def tag_def)
    have hok: "hist_ok n (hist g)" using assms(1) hg by (simp add: msg_inv_def)
    show ?thesis
    proof (rule append_small [OF hok assms(2), of "env_cold env" "env_alloc env" ENTRY_SIZE e'], goal_cases failed appended)
      case failed
      then show ?thesis using g commit by (simp add: history_append_def)
    next
      case (appended hh')
      have "msg_inv (Suc n) (g\<lparr>hist := hh'\<rparr>)"
        using g appended(2,3) tags hg by (simp add: msg_inv_def)
      then have "msg_inv (Suc n) (host_state_save_locked env None (g\<lparr>hist := hh'\<rparr>))"
        using assms(2) by (intro save_inv) auto
      then show ?thesis using appended(1) commit by (simp add: history_append_def)
    qed
  qed
qed

section \<open>Reacting, replying and deleting\<close>

lemma react_inv:
  assumes "msg_inv n h" "n \<le> HISTORY_CACHE_LIMIT"
  shows "msg_inv n (msg_step th (MsgReact env ident k) h)"
proof -
  have live: "\<not> history_released (hist h)" "history_start_index (hist h) = 0"
    using assms(1) by (simp_all add: msg_inv_defs)
  have none: "older_target ident h = None" using live by (simp add: older_target_def older_entries_def)
  show ?thesis
  proof (cases "first_index (\<lambda>e. is_user_message e \<and> message_id e = ident) (cache h)")
    case None
    then show ?thesis using assms(1) live none by (simp add: host_history_apply_reaction_def Let_def)
  next
    case (Some idx)
    let ?hh = "(hist h)\<lparr>history := (cache h)[idx := bump_reaction k (cache h ! idx)]\<rparr>"
    have "map tag ((cache h)[idx := bump_reaction k (cache h ! idx)]) = map tag (cache h)"
      by (metis (no_types) list_update_id map_update tag_bump)
    then have "msg_inv n (h\<lparr>hist := ?hh\<rparr>)"
      using assms(1) by (simp add: msg_inv_defs)
    then have "msg_inv n (host_state_save_locked env None (h\<lparr>hist := ?hh\<rparr>))"
      using assms(2) by (intro save_inv) auto
    then show ?thesis using assms(1) live Some by (simp add: host_history_apply_reaction_def Let_def map_hist_def)
  qed
qed

lemma reply_save_inv: "msg_inv n h \<Longrightarrow> msg_inv n (host_reply_state_save_locked env h)"
  using replies_ok_filter by (auto simp: host_reply_state_save_locked_def msg_inv_def reply_file_ok_def)

lemma reply_inv:
  assumes "msg_inv n h" "n < HISTORY_CACHE_LIMIT"
  shows "msg_inv (Suc n) (snd (host_replies_commit_entry env r h))"
proof (cases "length (mreplies h) \<ge> MAX_REPLIES")
  case True
  then show ?thesis using msg_inv_mono [OF assms(1)] by (simp add: host_replies_commit_entry_def)
next
  case False
  have nx: "0 < next_reply_id h" "next_reply_id h < UINT64_MAX"
    using assms by (auto simp: msg_inv_defs UINT64_MAX_def HISTORY_CACHE_LIMIT_def)
  let ?r = "r\<lparr>reply_id := next_reply_id h, reply_in_use := True\<rparr>"
  let ?h = "h\<lparr>next_reply_id := Suc (next_reply_id h), mreplies := mreplies h @ [?r]\<rparr>"
  have "replies_ok (Suc (next_reply_id h)) (mreplies h @ [?r])"
    using assms(1) False nx by (auto simp: msg_inv_def replies_ok_def list_all_iff sorted_wrt_append)
  then have "msg_inv (Suc n) ?h"
    using assms(1) msg_inv_mono [OF assms(1), of "Suc n"] by (simp add: msg_inv_defs)
  then show ?thesis using reply_save_inv False nx by (simp add: host_replies_commit_entry_def Let_def)
qed


lemma foldl_max_le: "(a::nat) \<le> b \<Longrightarrow> list_all (\<lambda>x. x \<le> b) xs \<Longrightarrow> foldl max a xs \<le> b"
  by (induction xs arbitrary: a) auto

lemma foldl_max_upper: "(a::nat) \<le> foldl max a xs \<and> list_all (\<lambda>x. x \<le> foldl max a xs) xs"
proof (induction xs arbitrary: a)
  case (Cons x xs)
  show ?case using Cons.IH [of "max a x"] by auto
qed simp

lemmas foldl_max_bounds = foldl_max_upper [THEN conjunct1] foldl_max_upper [THEN conjunct2]

text \<open>The next identifier after a deletion is above those that stay.\<close>

definition next_after :: "nat \<Rightarrow> nat list \<Rightarrow> nat" where
  "next_after nx idents =
     (let m = foldl max 0 idents in if m = 0 then 1 else if nx \<le> m then size_add m 1 else nx)"

lemma next_after_ok:
  assumes "ids_ok nf (map tag es)" "nf \<le> Suc n" "0 < nx" "nx \<le> Suc n" "n \<le> HISTORY_CACHE_LIMIT"
  shows "0 < next_after nx (map message_id es)" "next_after nx (map message_id es) \<le> Suc n"
    "ids_ok (next_after nx (map message_id es)) (map tag es)"
proof -
  let ?m = "foldl max 0 (map message_id es)"
  have "?m \<le> n" using assms(1,2)
    by (intro foldl_max_le) (auto simp: ids_ok_def list_all_iff tag_def split: if_splits)
  then have add: "size_add ?m 1 = Suc ?m"
    using assms(5) by (subst size_add_small) (auto simp: SIZE_MAX_def HISTORY_CACHE_LIMIT_def)
  have above: "list_all (\<lambda>e. message_id e \<le> ?m) es"
    using foldl_max_bounds(2) [of 0 "map message_id es"] by (simp add: list_all_iff)
  show "0 < next_after nx (map message_id es)" "next_after nx (map message_id es) \<le> Suc n"
    using assms(3,4) \<open>?m \<le> n\<close> add by (auto simp: next_after_def Let_def)
  have below: "?m = 0 \<or> ?m < next_after nx (map message_id es)"
    using add by (auto simp: next_after_def Let_def)
  show "ids_ok (next_after nx (map message_id es)) (map tag es)"
    using assms(1) above below by (fastforce simp: ids_ok_def list_all_iff tag_def split: if_splits)
qed

lemma delete_source_ok:
  assumes "msg_inv n h" "delete_source env h = Some es"
  shows "length es \<le> n \<and> (\<exists>nf \<le> Suc n. ids_ok nf (map tag es))"
proof (cases "es = cache h")
  case True
  then show ?thesis using assms(1) by (auto simp: msg_inv_defs)
next
  case False
  then obtain f where f: "state_file h = Some f" "es = map host_state_read_history_entry (take (sf_history_count f) (sf_entries f))"
    using assms(2) by (auto simp: delete_source_def Let_def split: if_splits option.splits)
  then have "file_ok n f" using assms(1) by (simp add: msg_inv_def)
  then show ?thesis unfolding f(2) by (auto simp: file_ok_def)
qed

lemma delete_replies_inv:
  assumes "msg_inv n h" "n \<le> HISTORY_CACHE_LIMIT"
  shows "msg_inv n (snd (delete_replies env lo hi h))"
proof -
  have used: "filter reply_in_use (mreplies h) = mreplies h"
    using assms(1) by (auto simp: msg_inv_def replies_ok_def list_all_iff intro: filter_True)
  define kept where "kept = filter (\<lambda>r. \<not> in_range lo hi (parent_message_id r)) (mreplies h)"
  have kept: "replies_ok (next_reply_id h) kept"
    using assms(1) unfolding kept_def by (intro replies_ok_filter) (simp add: msg_inv_def)
  show ?thesis
  proof (cases "length (mreplies h) - length kept = 0")
    case True
    have "length kept \<le> length (mreplies h)" by (simp add: kept_def)
    then have "kept = mreplies h" using True
      by (metis (no_types, lifting) diff_is_0_eq filter_True kept_def le_antisym length_filter_less not_less)
    then show ?thesis using assms(1) used
      by (simp add: delete_replies_def kept_def [symmetric] Let_def)
  next
    case False
    let ?m = "foldl max 0 (map reply_id kept)"
    define nx where "nx = (if ?m = 0 then if kept = [] then 1 else next_reply_id h
                          else if next_reply_id h \<le> ?m
                          then if ?m = UINT64_MAX then UINT64_MAX else ?m + 1 else next_reply_id h)"
    have "?m < next_reply_id h" using kept assms(1)
      by (intro le_less_trans [OF foldl_max_le [of 0 "next_reply_id h - 1"]])
        (auto simp: replies_ok_def list_all_iff msg_inv_def)
    then have nx: "nx = next_reply_id h \<or> nx = 1 \<and> kept = []" by (auto simp: nx_def)
    have "replies_ok nx kept" using nx kept by (auto simp: replies_ok_def)
    then have "msg_inv n (h\<lparr>mreplies := kept, next_reply_id := nx\<rparr>)"
      using assms(1) nx by (auto simp: msg_inv_defs)
    moreover have "snd (delete_replies env lo hi h) =
        host_reply_state_save_locked env (h\<lparr>mreplies := kept, next_reply_id := nx\<rparr>)"
      using used False by (simp add: delete_replies_def kept_def [symmetric] nx_def Let_def)
    ultimately show ?thesis using reply_save_inv by simp
  qed
qed

lemma delete_replies_hist: "hist (snd (delete_replies env lo hi h)) = hist h"
  by (simp add: delete_replies_def Let_def host_reply_state_save_locked_def)

text \<open>A deletion that takes place.\<close>

definition delete_kept :: "nat \<Rightarrow> nat \<Rightarrow> chat_history_entry list \<Rightarrow> chat_history_entry list" where
  "delete_kept lo hi = filter (\<lambda>e. \<not> (is_user_message e \<and> in_range lo hi (message_id e)))"

definition delete_gone :: "nat \<Rightarrow> nat \<Rightarrow> chat_history_entry list \<Rightarrow> chat_history_entry list" where
  "delete_gone lo hi = filter (\<lambda>e. is_user_message e \<and> in_range lo hi (message_id e))"

definition delete_host :: "msg_env \<Rightarrow> nat \<Rightarrow> nat \<Rightarrow> chat_history_entry list \<Rightarrow>
    chat_history_entry history_host \<Rightarrow> msg_host \<Rightarrow> nat \<times> msg_host" where
  "delete_host env lo hi kept hh h = delete_replies env lo hi
     (h\<lparr>hist := hh\<lparr>history := kept, history_start_index := 0, history_total := length kept\<rparr>,
        next_message_id := next_after (next_message_id h) (map message_id kept)\<rparr>)"

lemma delete_small_cases:
  assumes "\<not> history_released (hist h)" "\<And>es. delete_source env h = Some es \<Longrightarrow> length es \<le> HISTORY_CACHE_LIMIT"
  obtains (none) "host_history_delete_range env lo hi h = (no_delete, h)"
  | (deleted) es c where "delete_source env h = Some es" "0 < lo" "lo \<le> hi" "delete_gone lo hi es \<noteq> []"
      "host_history_delete_range env lo hi h =
        (\<lparr>del_removed = length (delete_gone lo hi es),
          del_first = foldl (\<lambda>f e. if f = 0 \<or> message_id e < f then message_id e else f) 0 (delete_gone lo hi es),
          del_last = foldl (\<lambda>f e. max f (message_id e)) 0 (delete_gone lo hi es),
          del_replies = fst (delete_host env lo hi (delete_kept lo hi es) ((hist h)\<lparr>history_capacity := c\<rparr>) h)\<rparr>,
         host_state_save_locked env (Some (delete_kept lo hi es))
           (snd (delete_host env lo hi (delete_kept lo hi es) ((hist h)\<lparr>history_capacity := c\<rparr>) h)))"
proof (cases "delete_source env h")
  case None
  then show thesis using none assms(1) by (simp add: host_history_delete_range_def Let_def)
next
  case (Some es)
  have le: "length (delete_kept lo hi es) \<le> HISTORY_CACHE_LIMIT"
    using assms(2) [OF Some] by (auto simp: delete_kept_def intro: le_trans [OF length_filter_le])
  show thesis
  proof (cases "lo = 0 \<or> hi < lo \<or> delete_gone lo hi es = []")
    case True
    then show thesis using none assms(1) Some
      by (auto simp: host_history_delete_range_def Let_def delete_gone_def [symmetric])
  next
    case act: False
    show thesis
    proof (cases "host_history_reserve_locked (env_alloc env) ENTRY_SIZE (length (delete_kept lo hi es)) (hist h)")
      case None
      then show thesis using none assms(1) Some act le
        by (simp add: host_history_delete_range_def Let_def delete_gone_def [symmetric] delete_kept_def [symmetric]
            del: de_Morgan_conj)
    next
      case (Some hh)
      obtain c where c: "hh = (hist h)\<lparr>history_capacity := c\<rparr>" using history_reserve_frame [OF Some] by blast
      show thesis
        by (rule deleted [of es c])
          (use act Some c le assms(1) \<open>delete_source env h = Some es\<close> in \<open>simp_all add: host_history_delete_range_def Let_def
            delete_gone_def [symmetric] delete_kept_def [symmetric] delete_host_def next_after_def case_prod_beta
            del: de_Morgan_conj\<close>)
    qed
  qed
qed


lemma delete_inv:
  assumes "msg_inv n h" "n \<le> HISTORY_CACHE_LIMIT"
  shows "msg_inv n (snd (host_history_delete_range env lo hi h))"
proof -
  have live: "\<not> history_released (hist h)" and nx: "0 < next_message_id h" "next_message_id h \<le> Suc n"
    using assms(1) by (simp_all add: msg_inv_defs)
  have le: "length es \<le> HISTORY_CACHE_LIMIT" if "delete_source env h = Some es" for es
    using delete_source_ok [OF assms(1) that] assms(2) by simp
  show ?thesis
  proof (rule delete_small_cases [OF live le, of env lo hi], goal_cases source none deleted)
    case none
    then show ?case using assms(1) by simp
  next
    case (deleted es c)
    obtain nf where nf: "length es \<le> n" "nf \<le> Suc n" "ids_ok nf (map tag es)"
      using delete_source_ok [OF assms(1) deleted(1)] by blast
    define kept where "kept = delete_kept lo hi es"
    have kept: "length kept \<le> n" "ids_ok nf (map tag kept)"
      using nf by (auto simp: kept_def delete_kept_def intro: le_trans [OF length_filter_le] ids_ok_filter)
    note after = next_after_ok [OF kept(2) nf(2) nx assms(2)]
    let ?h = "snd (delete_host env lo hi kept ((hist h)\<lparr>history_capacity := c\<rparr>) h)"
    have h1: "msg_inv n ?h"
      unfolding delete_host_def using assms(1) kept(1) after
      by (intro delete_replies_inv [OF _ assms(2)]) (simp add: msg_inv_defs)
    have "kept = cache ?h" by (simp add: delete_host_def delete_replies_hist)
    then have "msg_inv n (host_state_save_locked env (Some kept) ?h)"
      using save_inv [OF h1 assms(2), of "Some kept" env] by simp
    then show ?case using deleted(5) by (simp add: kept_def)
  qed
qed

section \<open>Starting again\<close>

lemma history_double_enough: "need \<le> history_double esize c need"
proof (induction esize c need rule: history_double.induct)
  case (1 esize c need)
  then show ?case by (subst history_double.simps) auto
qed

lemma reserve_enough:
  "host_history_reserve_locked alloc esize m hh = Some hh' \<Longrightarrow> m \<le> HISTORY_CACHE_LIMIT \<Longrightarrow> m \<le> history_capacity hh'"
  using history_double_enough
  by (auto simp: host_history_reserve_locked_def Let_def split: if_splits)

definition normalized :: "msg_theme \<Rightarrow> chat_history_entry list \<Rightarrow> chat_history_entry list" where
  "normalized th = List.map_filter (host_history_normalize_entry th)"

lemma normalized_simps [simp]:
  "normalized th [] = []"
  "normalized th (e # es) = (case host_history_normalize_entry th e of None \<Rightarrow> normalized th es
     | Some e' \<Rightarrow> e' # normalized th es)"
  by (simp_all add: normalized_def List.map_filter_def split: option.split)

lemma load_fold:
  "length kept + length es \<le> cap \<Longrightarrow> length kept + length es \<le> HISTORY_CACHE_LIMIT \<Longrightarrow>
   fold (load_step th 0 cap) (enumerate i es) (kept, st, k) =
     (kept @ normalized th es, st, k + length (normalized th es))"
proof (induction es arbitrary: kept i k)
  case (Cons e es)
  then show ?case
    by (cases "host_history_normalize_entry th e") (simp_all add: load_step_def)
qed simp

lemma normalized_tags: "subseq (map tag (normalized th es)) (map tag es)"
  by (induction es) (auto split: option.split dest: normalize_tag)

lemma load_entries_small:
  assumes "length (sf_entries f) \<le> HISTORY_CACHE_LIMIT" "sf_history_count f = length (sf_entries f)"
  obtains (failed) "host_state_load_history_entries th env f hh = (False, hh\<lparr>history := []\<rparr>)"
  | (loaded) c where "host_state_load_history_entries th env f hh =
      (True, hh\<lparr>history_capacity := c,
                history := normalized th (map host_state_read_history_entry (sf_entries f)),
                history_start_index := 0,
                history_total := length (normalized th (map host_state_read_history_entry (sf_entries f)))\<rparr>)"
proof -
  let ?n = "length (sf_entries f)" and ?es = "map host_state_read_history_entry (sf_entries f)"
  have ks: "\<not> ?n > HISTORY_CACHE_LIMIT" using assms(1) by simp
  show thesis
  proof (cases "sf_entries f = []")
    case True
    then show thesis
      by (intro loaded [of "history_capacity hh"]) (simp add: host_state_load_history_entries_def assms(2) Let_def)
  next
    case ne: False
    show thesis
    proof (cases "host_history_reserve_locked (env_alloc env) ENTRY_SIZE ?n hh")
      case None
      then show thesis using ks ne by (intro failed) (simp add: host_state_load_history_entries_def assms(2) Let_def)
    next
      case (Some g)
      obtain c where c: "g = hh\<lparr>history_capacity := c\<rparr>" using history_reserve_frame [OF Some] by blast
      have "fold (load_step th 0 c) (enumerate 0 ?es) ([], 0, 0) =
          (normalized th ?es, 0, length (normalized th ?es))"
        using load_fold [of "[]" ?es c th 0 0 0] reserve_enough [OF Some assms(1)] assms(1) c by simp
      then show thesis using Some ks ne
        by (intro loaded [of c]) (simp add: host_state_load_history_entries_def assms(2) Let_def c del: enumerate_eq_zip)
    qed
  qed
qed

lemma cleanup_inv:
  assumes "msg_inv n h"
  shows "msg_inv n (host_history_cleanup_expired env h)"
proof (cases "env_now env")
  case None
  then show ?thesis using assms by (simp add: host_history_cleanup_expired_def)
next
  case (Some now)
  let ?kept = "filter (\<lambda>e. ce_created_at e \<ge> now - CLEANUP_SECONDS) (cache h)"
  define k where "k = length ?kept"
  have le: "k \<le> length (cache h)" by (simp add: k_def)
  let ?h = "h\<lparr>hist := (hist h)\<lparr>history := ?kept, history_total :=
      (if history_total (hist h) > length (cache h) - k
       then history_total (hist h) - (length (cache h) - k) else 0)\<rparr>\<rparr>"
  have "msg_inv n ?h"
    using assms le by (intro msg_inv_hist [OF assms])
      (auto simp: msg_inv_defs k_def [symmetric] intro: subseq_map [OF subseq_filter_left])
  moreover have "host_history_cleanup_expired env h = (if k < length (cache h) then ?h else h)"
    using assms Some by (simp add: host_history_cleanup_expired_def Let_def map_hist_def msg_inv_defs k_def)
  ultimately show ?thesis using assms by simp
qed

lemma load_replies_fold:
  "list_all (\<lambda>r. 0 < reply_id r) rs \<Longrightarrow> length kept + length rs \<le> MAX_REPLIES \<Longrightarrow>
   \<exists>ls. fold load_reply rs (kept, m) = (kept @ ls, foldl max m (map reply_id rs)) \<and>
     map reply_id ls = map reply_id rs \<and> list_all reply_in_use ls"
proof (induction rs arbitrary: kept m)
  case (Cons r rs)
  let ?r = "r\<lparr>reply_in_use := True, reply_id := reply_id r,
      reply_username := snprintf_into MSG_USERNAME_LEN (reply_username r),
      reply_message := snprintf_into MSG_LIMIT (reply_message r)\<rparr>"
  have step: "load_reply r (kept, m) = (kept @ [?r], max m (reply_id r))"
    using Cons.prems by (simp add: load_reply_def Let_def)
  obtain ls where "fold load_reply rs (kept @ [?r], max m (reply_id r)) =
      ((kept @ [?r]) @ ls, foldl max (max m (reply_id r)) (map reply_id rs))"
    "map reply_id ls = map reply_id rs" "list_all reply_in_use ls"
    using Cons.IH [of "kept @ [?r]" "max m (reply_id r)"] Cons.prems by auto
  then show ?case using step by (intro exI [of _ "?r # ls"]) simp
qed simp

lemma reply_load_inv:
  assumes "msg_inv n h" "pred_option (reply_file_ok n) (reply_file h)"
  shows "msg_inv n (host_reply_state_load env h)"
proof (cases "reply_path h \<and> (\<exists>f. reply_file h = Some f \<and> (rf_entries f = [] \<or> env_alloc env (length (rf_entries f))))")
  case False
  then show ?thesis using assms(1) by (auto simp: host_reply_state_load_def split: option.split)
next
  case True
  then obtain f where f: "reply_path h" "reply_file h = Some f"
      "\<not> (rf_entries f \<noteq> [] \<and> \<not> env_alloc env (length (rf_entries f)))" by blast
  then have ok: "reply_file_ok n f" using assms(2) by simp
  obtain ls where ls: "fold load_reply (rf_entries f) ([], 0) = (ls, foldl max 0 (map reply_id (rf_entries f)))"
      "map reply_id ls = map reply_id (rf_entries f)" "list_all reply_in_use ls"
    using load_replies_fold [of "rf_entries f" "[]" 0] ok
    by (auto simp: reply_file_ok_def replies_ok_def list_all_iff)
  have "foldl max 0 (map reply_id (rf_entries f)) < rf_next_reply_id f" using ok
    by (intro le_less_trans [OF foldl_max_le [of 0 "rf_next_reply_id f - 1"]])
      (auto simp: reply_file_ok_def replies_ok_def list_all_iff)
  then have loaded: "host_reply_state_load env h = h\<lparr>mreplies := ls, next_reply_id := rf_next_reply_id f\<rparr>"
    using f ls(1) ok by (auto simp: host_reply_state_load_def Let_def reply_file_ok_def)
  have "length ls = length (rf_entries f)" using ls(2) by (metis length_map)
  moreover have "list_all (\<lambda>i. 0 < i \<and> i < rf_next_reply_id f) (map reply_id ls)"
    unfolding ls(2) using ok by (simp add: reply_file_ok_def replies_ok_def list_all_iff)
  then have "\<forall>r\<in>set ls. 0 < reply_id r \<and> reply_id r < rf_next_reply_id f" by (simp add: list_all_iff)
  ultimately have "replies_ok (rf_next_reply_id f) ls"
    using ok ls(2,3) by (simp add: reply_file_ok_def replies_ok_def list_all_iff)
  then show ?thesis unfolding loaded using assms(1) ok by (simp add: msg_inv_defs reply_file_ok_def)
qed


lemma fresh_inv:
  "pred_option (file_ok n) sf \<Longrightarrow> pred_option (reply_file_ok n) rf \<Longrightarrow> msg_inv n (fresh_host sp sf rp rf)"
  by (simp add: msg_inv_defs fresh_host_def history_empty_def ids_ok_def replies_ok_def)

lemma load_inv:
  assumes "pred_option (file_ok n) sf" "pred_option (reply_file_ok n) rf" "n \<le> HISTORY_CACHE_LIMIT" "env_rest_ok env"
  shows "msg_inv n (host_state_load th env (fresh_host sp sf rp rf))"
proof (cases "sp \<and> sf \<noteq> None")
  case False
  then show ?thesis using fresh_inv [OF assms(1,2)]
    by (auto simp: host_state_load_def fresh_host_def)
next
  case True
  then obtain f where f: "sf = Some f" by auto
  let ?h = "fresh_host sp sf rp rf"
  have ok: "file_ok n f" using assms(1) f by simp
  then have small: "length (sf_entries f) \<le> HISTORY_CACHE_LIMIT" "sf_history_count f = length (sf_entries f)"
    using assms(3) by (auto simp: file_ok_def)
  have nx: "sf_next_message_id f \<noteq> 0" using ok by (simp add: file_ok_def)
  have fresh: "state_path ?h" "state_file ?h = Some f" "hist ?h = history_empty"
    using True f by (simp_all add: fresh_host_def)
  have bound: "0 < host_state_normalize_next_message_id (sf_next_message_id f) k"
      "host_state_normalize_next_message_id (sf_next_message_id f) k \<le> Suc n"
      "sf_next_message_id f \<le> host_state_normalize_next_message_id (sf_next_message_id f) k" if "k \<le> n" for k
    using ok that assms(3) size_add_small [of k 1]
    by (auto simp: host_state_normalize_next_message_id_def file_ok_def SIZE_MAX_def HISTORY_CACHE_LIMIT_def)
  show ?thesis
  proof (rule load_entries_small [OF small, of th env history_empty], goal_cases failed loaded)
    case failed
    have "msg_inv n (?h\<lparr>hist := history_empty\<lparr>history := []\<rparr>, next_message_id :=
        host_state_normalize_next_message_id (sf_next_message_id f) 0\<rparr>)"
      using fresh_inv [OF assms(1,2), of sp rp] bound [of 0]
      by (simp add: msg_inv_defs history_empty_def ids_ok_def)
    then show ?case using cleanup_inv failed fresh nx
      by (simp add: host_state_load_def history_empty_def Let_def)
  next
    case (loaded c)
    let ?es = "normalized th (map host_state_read_history_entry (sf_entries f))"
    let ?hh = "history_empty\<lparr>history_capacity := c, history := ?es, history_start_index := 0,
        history_total := length ?es\<rparr>"
    have sub: "subseq (map tag ?es) (map (tag \<circ> host_state_read_history_entry) (sf_entries f))"
      using normalized_tags [of th "map host_state_read_history_entry (sf_entries f)"] by simp
    have len: "length ?es \<le> n" using list_emb_length [OF sub] ok by (simp add: file_ok_def)
    have "ids_ok (sf_next_message_id f) (map tag ?es)"
      using ids_ok_subseq [OF _ sub] ok by (simp add: file_ok_def)
    then have "msg_inv n (?h\<lparr>hist := ?hh, next_message_id :=
        host_state_normalize_next_message_id (sf_next_message_id f) (length ?es)\<rparr>)"
      using fresh_inv [OF assms(1,2), of sp rp] bound [OF len] ids_ok_mono len
      by (auto simp: msg_inv_defs history_empty_def)
    then show ?case using cleanup_inv loaded fresh nx assms(4)
      by (simp add: host_state_load_def Let_def)
  qed
qed

lemma load_frame: "reply_file (host_state_load th env h) = reply_file h"
  by (auto simp: host_state_load_def host_history_cleanup_expired_def restore_locked_def Let_def case_prod_beta
      split: option.split)

lemma boot_inv:
  assumes "msg_inv n h" "n \<le> HISTORY_CACHE_LIMIT" "env_rest_ok env"
  shows "msg_inv n (boot th env h)"
proof -
  let ?h = "fresh_host (state_path h) (state_file h) (reply_path h) (reply_file h)"
  let ?f = "\<lambda>hh::chat_history_entry history_host. hh\<lparr>history_cache_loaded := history_capacity hh > 0\<rparr>"
  have "msg_inv n (host_state_load th env ?h)"
    using assms by (intro load_inv) (simp_all add: msg_inv_def)
  then have "msg_inv n (map_hist ?f (host_state_load th env ?h))"
    by (simp add: msg_inv_defs)
  then show ?thesis
    unfolding boot_def Let_def by (rule reply_load_inv) (use assms in \<open>simp add: load_frame msg_inv_def fresh_host_def\<close>)
qed

section \<open>Runs keep the invariant\<close>

lemma msg_step_inv:
  assumes "msg_inv n h" "n < HISTORY_CACHE_LIMIT" "msg_event_ok ev"
  shows "msg_inv (Suc n) (msg_step th ev h)"
proof -
  have le: "n \<le> HISTORY_CACHE_LIMIT" using assms(2) by simp
  have up: "msg_inv n g \<Longrightarrow> msg_inv (Suc n) g" for g using msg_inv_mono by (metis Suc_leD order_refl)
  show ?thesis
    using assms commit_inv [OF assms(1,2)] reply_inv [OF assms(1,2)] react_inv [OF assms(1) le]
      delete_inv [OF assms(1) le] save_inv [OF assms(1) le] flush_inv [OF assms(1) le] boot_inv [OF assms(1) le]
    by (cases ev) (auto intro: up)
qed

interpretation msg_runs: budget_system "msg_step th" msg_event_ok msg_inv HISTORY_CACHE_LIMIT for th
  by unfold_locales (rule msg_step_inv)

lemmas msg_run_inv = msg_runs.inv_budget_run

end
