(* ===== verification/Message_Store.thy ===== *)
theory Message_Store
  imports Message_Ids
begin

text \<open>
  What becomes of a message: it stays with its reactions until it expires, a deletion takes the
  chosen messages, and the state file gives the others back after a restart.
\<close>

section \<open>Saving keeps the messages that have not expired\<close>

lemma save_force_cache:
  assumes "\<not> history_released (hist h)" "history_start_index (hist h) = 0"
  shows "cache (host_state_save_force_locked env None h) = cache h \<or>
    cache (host_state_save_force_locked env None h) = unexpired env (cache h)"
proof (cases "state_path h \<and> env_temp_ok env")
  case True
  then obtain hh where "host_state_save_force_locked env None h =
      (if env_write_ok env then h\<lparr>hist := hh, state_file := Some (saved_file env h)\<rparr> else h\<lparr>hist := hh\<rparr>)"
    "history hh = unexpired env (cache h)"
    using save_force_plain [OF assms, of env] by metis
  then show ?thesis by simp
qed (use assms save_force_skipped in auto)

lemma save_cache:
  assumes "\<not> history_released (hist h)" "history_start_index (hist h) = 0"
  shows "cache (host_state_save_locked env None h) = cache h \<or>
    cache (host_state_save_locked env None h) = unexpired env (cache h)"
  using save_force_cache [OF assms] by (simp add: host_state_save_locked_def split: option.split)

lemma flush_cache:
  assumes "\<not> history_released (hist h)" "history_start_index (hist h) = 0"
  shows "cache (host_state_save_flush_pending env h) = cache h \<or>
    cache (host_state_save_flush_pending env h) = unexpired env (cache h)"
  using save_force_cache [OF assms] by (simp add: host_state_save_flush_pending_def Let_def split: option.split)

text \<open>A message is young at an event where the clock has not passed its retention.\<close>

definition young_at :: "msg_env \<Rightarrow> chat_history_entry \<Rightarrow> bool" where
  "young_at env e \<longleftrightarrow> (case env_now env of None \<Rightarrow> True | Some now \<Rightarrow> now - HISTORY_RETENTION_SECONDS \<le> ce_created_at e)"

lemma young_unexpired: "young_at env e \<Longrightarrow> \<not> chat_history_entry_is_expired (retention_cutoff env) e"
  by (auto simp: young_at_def chat_history_entry_is_expired_def retention_cutoff_def split: option.splits if_splits)

lemma save_keeps_young:
  assumes "\<not> history_released (hist h)" "history_start_index (hist h) = 0" "e \<in> set (cache h)" "young_at env e"
  shows "e \<in> set (cache (host_state_save_locked env None h))" "e \<in> set (cache (host_state_save_flush_pending env h))"
  using save_cache [OF assms(1,2), of env] flush_cache [OF assms(1,2), of env] assms(3) young_unexpired [OF assms(4)]
  by (auto simp: unexpired_def)

section \<open>A message and its reactions\<close>

text \<open>What an event does to a message: a reaction to it counts.\<close>

fun react_on :: "msg_event \<Rightarrow> chat_history_entry \<Rightarrow> chat_history_entry" where
  "react_on (MsgReact env ident k) e =
     (if ident = message_id e \<and> k < REACTION_KIND_COUNT then bump_reaction k e else e)"
| "react_on _ e = e"

fun gentle :: "chat_history_entry \<Rightarrow> msg_event \<Rightarrow> bool" where
  "gentle e (MsgCommit env e') \<longleftrightarrow> young_at env e"
| "gentle e (MsgReact env i k) \<longleftrightarrow> young_at env e"
| "gentle e (MsgReply env r) \<longleftrightarrow> True"
| "gentle e (MsgSave env) \<longleftrightarrow> young_at env e"
| "gentle e (MsgFlush env) \<longleftrightarrow> young_at env e"
| "gentle e (MsgDelete env lo hi) \<longleftrightarrow> False"
| "gentle e (MsgRestart env) \<longleftrightarrow> False"

lemma bump_frame [simp]:
  "is_user_message (bump_reaction k e) = is_user_message e" "message_id (bump_reaction k e) = message_id e"
  "ce_created_at (bump_reaction k e) = ce_created_at e"
  by (simp_all add: bump_reaction_def)

lemma react_on_frame [simp]:
  "is_user_message (react_on ev e) = is_user_message e" "message_id (react_on ev e) = message_id e"
  "ce_created_at (react_on ev e) = ce_created_at e"
  by (cases ev; simp)+

lemma young_frame: "ce_created_at e' = ce_created_at e \<Longrightarrow> young_at env e' = young_at env e"
  by (simp add: young_at_def split: option.split)

lemma gentle_frame: "ce_created_at e' = ce_created_at e \<Longrightarrow> gentle e' ev = gentle e ev"
  by (cases ev) (simp_all add: young_at_def split: option.split)

lemma gentle_ok: "gentle e ev \<Longrightarrow> msg_event_ok ev"
  by (cases ev) simp_all

text \<open>An identifier names one message.\<close>

lemma sorted_wrt_less_inj:
  assumes "sorted_wrt (<) (map f xs)" "x \<in> set xs" "y \<in> set xs" "f x = (f y :: nat)"
  shows "x = y"
proof -
  have "distinct (map f xs)" using assms(1) by (simp add: strict_sorted_iff)
  then show ?thesis using assms(2-4) by (simp add: distinct_map inj_on_def)
qed

lemma ids_unique:
  assumes "ids_ok nx (map tag es)" "e \<in> set es" "e' \<in> set es" "message_id e = message_id e'" "message_id e > 0"
  shows "e = e'"
proof -
  have user: "is_user_message x" if "x \<in> set es" "message_id x > 0" for x
    using assms(1) that by (fastforce simp: ids_ok_def list_all_iff tag_def split: if_splits)
  have "map snd (filter fst (map tag es)) = map message_id (filter is_user_message es)"
    by (induction es) (simp_all add: tag_def)
  then have "sorted_wrt (<) (map message_id (filter is_user_message es))"
    using assms(1) by (simp add: ids_ok_def)
  then show ?thesis
    by (rule sorted_wrt_less_inj) (use assms user in auto)
qed

lemma react_cache:
  assumes "msg_inv n h" "e \<in> set (cache h)" "is_user_message e" "young_at env e"
  shows "react_on (MsgReact env i k) e \<in> set (cache (msg_step th (MsgReact env i k) h))"
proof -
  have inv: "\<not> history_released (hist h)" "history_start_index (hist h) = 0"
      "ids_ok (next_message_id h) (map tag (cache h))"
    using assms(1) by (simp_all add: msg_inv_defs)
  have pos: "message_id e > 0" using inv(3) assms(2,3) by (fastforce simp: ids_ok_def list_all_iff tag_def)
  have none: "older_target i h = None" using inv by (simp add: older_target_def older_entries_def)
  show ?thesis
  proof (cases "i = 0 \<or> k \<ge> REACTION_KIND_COUNT")
    case True
    then show ?thesis using assms(2) pos by (auto simp: host_history_apply_reaction_def)
  next
    case act: False
    show ?thesis
    proof (cases "first_index (\<lambda>e. is_user_message e \<and> message_id e = i) (cache h)")
      case None
      then have "message_id e \<noteq> i" using assms(2,3) by (auto simp: first_index_None list_ex_iff)
      then show ?thesis using None act inv none assms(2) by (simp add: host_history_apply_reaction_def Let_def)
    next
      case (Some idx)
      then have idx: "idx < length (cache h)" "message_id (cache h ! idx) = i" by (auto simp: first_index_Some)
      let ?g = "h\<lparr>hist := (hist h)\<lparr>history := (cache h)[idx := bump_reaction k (cache h ! idx)]\<rparr>\<rparr>"
      have step: "msg_step th (MsgReact env i k) h = host_state_save_locked env None ?g"
        using Some act inv by (simp add: host_history_apply_reaction_def Let_def map_hist_def)
      have g: "\<not> history_released (hist ?g)" "history_start_index (hist ?g) = 0" using inv by simp_all
      have "react_on (MsgReact env i k) e \<in> set (cache ?g)"
      proof (cases "message_id e = i")
        case True
        then have "e = cache h ! idx" using ids_unique [OF inv(3) assms(2)] idx pos by simp
        then show ?thesis using True act idx(1) by (simp add: set_update_memI)
      next
        case False
        then obtain j where "j < length (cache h)" "cache h ! j = e" "j \<noteq> idx"
          using assms(2) idx(2) by (metis in_set_conv_nth)
        then show ?thesis using False by (auto simp: in_set_conv_nth intro!: exI [of _ j])
      qed
      moreover have "young_at env (react_on (MsgReact env i k) e)"
        using assms(4) young_frame [of "react_on (MsgReact env i k) e" e env] by simp
      ultimately show ?thesis unfolding step using save_keeps_young(1) [OF g] by blast
    qed
  qed
qed

lemma commit_cache:
  assumes "msg_inv n h" "n < HISTORY_CACHE_LIMIT" "e \<in> set (cache h)" "young_at env e"
  shows "e \<in> set (cache (snd (host_history_commit_entry th env e0 h)))"
proof -
  have inv: "\<not> history_released (hist h)" "hist_ok n (hist h)" using assms(1) by (simp_all add: msg_inv_defs)
  have append: "e \<in> set (cache (snd (history_append env e' g)))" if g: "hist g = hist h" for e' g
  proof (rule append_small [OF inv(2) assms(2), of "env_cold env" "env_alloc env" ENTRY_SIZE e'], goal_cases failed appended)
    case failed
    then show ?case using assms(3) g by (simp add: history_append_def)
  next
    case (appended hh')
    then show ?case using assms(3,4) g save_keeps_young(1) [of "g\<lparr>hist := hh'\<rparr>" e env]
      by (simp add: history_append_def hist_ok_def)
  qed
  show ?thesis
    using assms(3) inv(1) append
    by (simp add: host_history_commit_entry_def Let_def case_prod_beta split: option.split)
qed

lemma reply_save_hist: "hist (host_reply_state_save_locked env h) = hist h"
  by (simp add: host_reply_state_save_locked_def)

lemma reply_hist: "hist (snd (host_replies_commit_entry env r h)) = hist h"
  by (simp add: host_replies_commit_entry_def Let_def reply_save_hist)

lemma step_keeps:
  assumes "msg_inv n h" "n < HISTORY_CACHE_LIMIT" "e \<in> set (cache h)" "is_user_message e" "gentle e ev"
  shows "react_on ev e \<in> set (cache (msg_step th ev h))"
proof -
  have inv: "\<not> history_released (hist h)" "history_start_index (hist h) = 0" using assms(1) by (simp_all add: msg_inv_defs)
  show ?thesis
    using assms react_cache [OF assms(1,3,4)] commit_cache [OF assms(1-3)] save_keeps_young [OF inv assms(3)] reply_hist
    by (cases ev) auto
qed

lemma run_keeps:
  assumes "msg_inv n h" "n + length evs \<le> HISTORY_CACHE_LIMIT" "e \<in> set (cache h)" "is_user_message e"
    "list_all (gentle e) evs"
  shows "fold react_on evs e \<in> set (cache (fold (msg_step th) evs h))"
  using assms
proof (induction evs arbitrary: n h e)
  case (Cons ev evs)
  have n: "n < HISTORY_CACHE_LIMIT" "Suc n + length evs \<le> HISTORY_CACHE_LIMIT" using Cons.prems(2) by simp_all
  have inv: "msg_inv (Suc n) (msg_step th ev h)"
    using msg_step_inv [OF Cons.prems(1) n(1)] gentle_ok [of e ev] Cons.prems(5) by simp
  have "list_all (gentle (react_on ev e)) evs"
    using Cons.prems(5) gentle_frame [of "react_on ev e" e] by (simp add: list_all_iff)
  then show ?case
    using Cons.IH [OF inv n(2) step_keeps [OF Cons.prems(1) n(1) Cons.prems(3,4)]] Cons.prems(4,5) by simp
qed simp

lemma react_run_frame [simp]:
  "is_user_message (fold react_on evs e) = is_user_message e" "message_id (fold react_on evs e) = message_id e"
  by (induction evs arbitrary: e) simp_all

lemma find_unique:
  assumes "msg_inv n h" "e \<in> set (cache h)" "is_user_message e"
  shows "fst (host_history_find_entry_by_id env (message_id e) h) = Some e"
proof -
  have inv: "\<not> history_released (hist h)" "ids_ok (next_message_id h) (map tag (cache h))"
    using assms(1) by (simp_all add: msg_inv_defs)
  have pos: "message_id e > 0" using inv(2) assms(2,3) by (fastforce simp: ids_ok_def list_all_iff tag_def)
  obtain e' where e': "List.find (entry_matches (message_id e)) (cache h) = Some e'"
    using assms(2) by (cases "List.find (entry_matches (message_id e)) (cache h)")
      (auto simp: find_None_iff entry_matches_def)
  then have "e' \<in> set (cache h)" "message_id e' = message_id e"
    by (auto simp: find_Some_iff entry_matches_def)
  then have "e' = e" using ids_unique [OF inv(2) assms(2)] pos by metis
  then show ?thesis using e' inv(1) pos by (simp add: host_history_find_entry_by_id_def Let_def)
qed


section \<open>Deleting\<close>

text \<open>The file has what the cache has.\<close>

definition in_sync :: "msg_host \<Rightarrow> bool" where
  "in_sync h \<longleftrightarrow> state_path h \<and> (case state_file h of None \<Rightarrow> False
     | Some f \<Rightarrow> sf_history_count f = length (sf_entries f) \<and>
                map host_state_read_history_entry (sf_entries f) = map persisted (cache h))"

lemma persisted_frame [simp]:
  "is_user_message (persisted e) = is_user_message e" "message_id (persisted e) = message_id e"
  "ce_created_at (persisted e) = ce_created_at e"
  by (simp_all add: persisted_def)

lemma delete_persisted [simp]:
  "delete_kept lo hi (map persisted es) = map persisted (delete_kept lo hi es)"
  "delete_gone lo hi (map persisted es) = map persisted (delete_gone lo hi es)"
  by (simp_all add: delete_kept_def delete_gone_def filter_map comp_def)

lemma reserve_total:
  assumes "\<And>n. alloc n" "m \<le> HISTORY_CACHE_LIMIT"
  shows "\<exists>hh'. host_history_reserve_locked alloc ENTRY_SIZE m hh = Some hh'"
  using assms by (auto simp: host_history_reserve_locked_def Let_def SIZE_MAX_def ENTRY_SIZE_def HISTORY_CACHE_LIMIT_def)

lemma save_over_frame:
  assumes "\<not> history_released (hist h)"
  shows "cache (host_state_save_locked env (Some es) h) = cache h"
    "mreplies (host_state_save_locked env (Some es) h) = mreplies h"
    "next_message_id (host_state_save_locked env (Some es) h) = next_message_id h"
    "history_released (hist (host_state_save_locked env (Some es) h)) = history_released (hist h)"
  using assms
  by (simp_all add: host_state_save_locked_def host_state_save_force_locked_def Let_def split: option.split)

lemma save_over_start:
  assumes "\<not> history_released (hist h)" "history_start_index (hist h) = 0"
  shows "history_start_index (hist (host_state_save_locked env (Some es) h)) = 0"
  using assms
  by (simp add: host_state_save_locked_def host_state_save_force_locked_def Let_def split: option.split)

lemma delete_replies_kept:
  assumes "msg_inv n h"
  shows "mreplies (snd (delete_replies env lo hi h)) = filter (\<lambda>r. \<not> in_range lo hi (parent_message_id r)) (mreplies h)"
proof -
  have used: "filter reply_in_use (mreplies h) = mreplies h"
    using assms by (auto simp: msg_inv_def replies_ok_def list_all_iff intro: filter_True)
  let ?kept = "filter (\<lambda>r. \<not> in_range lo hi (parent_message_id r)) (mreplies h)"
  show ?thesis
  proof (cases "length (mreplies h) \<le> length ?kept")
    case True
    then have "?kept = mreplies h" by (metis (no_types, lifting) filter_True length_filter_less not_less)
    then show ?thesis using used by (simp add: delete_replies_def Let_def)
  next
    case False
    then show ?thesis using used by (simp add: delete_replies_def Let_def host_reply_state_save_locked_def)
  qed
qed

lemma delete_host_frame:
  "hist (snd (delete_host env lo hi kept hh h)) =
     hh\<lparr>history := kept, history_start_index := 0, history_total := length kept\<rparr>"
  by (simp add: delete_host_def delete_replies_hist)

text \<open>A deletion that finds something in what it works on.\<close>

lemma delete_takes_place:
  assumes "msg_inv n h" "n \<le> HISTORY_CACHE_LIMIT" "\<And>m. env_alloc env m"
    "delete_source env h = Some es" "0 < lo" "lo \<le> hi" "delete_gone lo hi es \<noteq> []"
  obtains h' r where "host_history_delete_range env lo hi h = (r, h')"
    "del_removed r = length (delete_gone lo hi es)"
    "cache h' = delete_kept lo hi es" "history_start_index (hist h') = 0" "\<not> history_released (hist h')"
    "mreplies h' = filter (\<lambda>r. \<not> in_range lo hi (parent_message_id r)) (mreplies h)"
proof -
  have live: "\<not> history_released (hist h)" and nx: "0 < next_message_id h" "next_message_id h \<le> Suc n"
    using assms(1) by (simp_all add: msg_inv_defs)
  obtain nf where nf: "length es \<le> n" "nf \<le> Suc n" "ids_ok nf (map tag es)"
    using delete_source_ok [OF assms(1,4)] by blast
  let ?kept = "delete_kept lo hi es"
  have kept: "length ?kept \<le> n" "ids_ok nf (map tag ?kept)"
    using nf by (auto simp: delete_kept_def intro: le_trans [OF length_filter_le] ids_ok_filter)
  then have le: "length ?kept \<le> HISTORY_CACHE_LIMIT" using assms(2) by simp
  obtain hh where hh: "host_history_reserve_locked (env_alloc env) ENTRY_SIZE (length ?kept) (hist h) = Some hh"
    using reserve_total [of "env_alloc env", OF assms(3) le] by blast
  then obtain c where c: "hh = (hist h)\<lparr>history_capacity := c\<rparr>" using history_reserve_frame by blast
  let ?g = "h\<lparr>hist := hh\<lparr>history := ?kept, history_start_index := 0, history_total := length ?kept\<rparr>,
        next_message_id := next_after (next_message_id h) (map message_id ?kept)\<rparr>"
  let ?d = "delete_host env lo hi ?kept hh h"
  have g: "msg_inv n ?g"
    using assms(1) kept(1) next_after_ok [OF kept(2) nf(2) nx assms(2)] by (simp add: msg_inv_defs c)
  have d: "?d = delete_replies env lo hi ?g" by (simp add: delete_host_def)
  have run: "host_history_delete_range env lo hi h =
      (\<lparr>del_removed = length (delete_gone lo hi es),
        del_first = foldl (\<lambda>f e. if f = 0 \<or> message_id e < f then message_id e else f) 0 (delete_gone lo hi es),
        del_last = foldl (\<lambda>f e. max f (message_id e)) 0 (delete_gone lo hi es), del_replies = fst ?d\<rparr>,
       host_state_save_locked env (Some ?kept) (snd ?d))"
    using live assms(4-7) hh le
    by (simp add: host_history_delete_range_def Let_def delete_gone_def [symmetric] delete_kept_def [symmetric]
        delete_host_def next_after_def case_prod_beta del: de_Morgan_conj)
  have "\<not> history_released (hist (snd ?d))" "history_start_index (hist (snd ?d)) = 0" "cache (snd ?d) = ?kept"
    using live by (simp_all add: delete_host_frame c)
  then show thesis
    using that [OF run] save_over_frame [of "snd ?d" env ?kept] save_over_start [of "snd ?d" env ?kept]
      delete_replies_kept [OF g, of env lo hi]
    by (simp add: d)
qed

lemma source_in_sync:
  assumes "in_sync h" "\<And>m. env_alloc env m"
  shows "delete_source env h = Some (map persisted (cache h))"
  using assms by (auto simp: in_sync_def delete_source_def Let_def split: option.splits)

lemma source_file:
  assumes "state_path h" "state_file h = Some f" "sf_history_count f = length (sf_entries f)" "\<And>m. env_alloc env m"
  shows "delete_source env h = Some (map host_state_read_history_entry (sf_entries f))"
  using assms by (simp add: delete_source_def Let_def)

section \<open>Starting again\<close>

text \<open>An entry that normalising leaves as it is and that fits a record.\<close>

definition stored_ok :: "msg_theme \<Rightarrow> chat_history_entry \<Rightarrow> bool" where
  "stored_ok th e \<longleftrightarrow> entry_fits e \<and> host_history_normalize_entry th e = Some e"

lemma persisted_text [simp]:
  "ce_message (persisted e) = ce_message e" "ce_color_code (persisted e) = ce_color_code e"
  "ce_highlight_code (persisted e) = ce_highlight_code e" "ce_color_name (persisted e) = ce_color_name e"
  "ce_highlight_name (persisted e) = ce_highlight_name e" "attachment_type (persisted e) = attachment_type e"
  "attachment_target (persisted e) = attachment_target e"
  by (simp_all add: persisted_def)

lemma persisted_update:
  "(persisted e)\<lparr>ce_message := m\<rparr> = persisted (e\<lparr>ce_message := m\<rparr>)"
  "(persisted e)\<lparr>ce_color_code := m\<rparr> = persisted (e\<lparr>ce_color_code := m\<rparr>)"
  "(persisted e)\<lparr>ce_color_name := m\<rparr> = persisted (e\<lparr>ce_color_name := m\<rparr>)"
  "(persisted e)\<lparr>ce_highlight_code := m\<rparr> = persisted (e\<lparr>ce_highlight_code := m\<rparr>)"
  "(persisted e)\<lparr>ce_highlight_name := m\<rparr> = persisted (e\<lparr>ce_highlight_name := m\<rparr>)"
  "(persisted e)\<lparr>ce_is_bold := b\<rparr> = persisted (e\<lparr>ce_is_bold := b\<rparr>)"
  by (simp_all add: persisted_def)

lemma fill_persisted:
  "fill_color th (persisted e) = persisted (fill_color th e)"
  "fill_highlight th (persisted e) = persisted (fill_highlight th e)"
  by (simp_all add: fill_color_def fill_highlight_def Let_def persisted_update split: option.split)

lemma normalize_persisted:
  "host_history_normalize_entry th (persisted e) = map_option persisted (host_history_normalize_entry th e)"
  by (simp add: host_history_normalize_entry_def Let_def host_history_strip_empty_lines_def
      host_history_has_content_def persisted_update fill_persisted)

lemma normalized_persisted:
  "list_all (stored_ok th) es \<Longrightarrow> normalized th (map persisted es) = map persisted es"
  by (induction es) (simp_all add: stored_ok_def normalize_persisted)

text \<open>The colours of the theme are there and fit.\<close>

definition theme_ok :: "msg_theme \<Rightarrow> bool" where
  "theme_ok th \<longleftrightarrow> theme_user_color th \<notin> {None, Some []} \<and> theme_highlight th \<notin> {None, Some []}"

lemma snprintf_into_Nil [simp]: "1 < n \<Longrightarrow> snprintf_into n s = [] \<longleftrightarrow> s = []"
  by (simp add: snprintf_into_def)

lemma content_text_fits: "length s < n \<Longrightarrow> length (content_text s) < n"
  using content_text_length [of s] by simp


lemma fill_fits:
  "entry_fits e \<Longrightarrow> entry_fits (fill_color th e)" "entry_fits e \<Longrightarrow> entry_fits (fill_highlight th e)"
  by (auto simp: entry_fits_def fill_color_def fill_highlight_def Let_def msg_sizes split: option.split)

lemma fill_frame [simp]:
  "ce_message (fill_color th e) = ce_message e" "ce_message (fill_highlight th e) = ce_message e"
  "ce_color_code (fill_highlight th e) = ce_color_code e"
  "attachment_type (fill_color th e) = attachment_type e" "attachment_type (fill_highlight th e) = attachment_type e"
  "attachment_target (fill_color th e) = attachment_target e" "attachment_target (fill_highlight th e) = attachment_target e"
  "is_user_message (fill_color th e) = is_user_message e" "is_user_message (fill_highlight th e) = is_user_message e"
  by (simp_all add: fill_color_def fill_highlight_def Let_def split: option.split)

lemma fill_code:
  assumes "theme_ok th" "\<And>name c. colour th name = Some c \<Longrightarrow> c \<noteq> []" "\<And>name c. highlight_colour th name = Some c \<Longrightarrow> c \<noteq> []"
  shows "ce_color_code (fill_color th e) \<noteq> []" "ce_highlight_code (fill_highlight th e) \<noteq> []"
  using assms
  by (auto simp: fill_color_def fill_highlight_def theme_ok_def Let_def MSG_COLOR_CODE_LEN_def split: option.splits)

lemma normalize_stored:
  assumes "theme_ok th" "\<And>name c. colour th name = Some c \<Longrightarrow> c \<noteq> []" "\<And>name c. highlight_colour th name = Some c \<Longrightarrow> c \<noteq> []"
    "entry_fits e" "host_history_normalize_entry th e = Some e'"
  shows "stored_ok th e'"
proof -
  let ?e = "e\<lparr>ce_message := content_text (ce_message e)\<rparr>"
  have strip: "host_history_strip_empty_lines e = ?e"
    using assms(4) by (intro strip_empty_lines_content) (simp add: entry_fits_def)
  have fits: "entry_fits ?e"
    using assms(4) content_text_fits by (simp add: entry_fits_def)
  have content: "host_history_has_content ?e"
    using assms(5) by (auto simp: host_history_normalize_entry_def strip Let_def split: if_splits)
  show ?thesis
  proof (cases "is_user_message e")
    case True
    let ?f = "fill_highlight th (fill_color th ?e)"
    have e': "e' = ?f" using assms(5) True content by (simp add: host_history_normalize_entry_def strip Let_def)
    have ff: "entry_fits ?f" using fits fill_fits by blast
    have "host_history_strip_empty_lines ?f = ?f\<lparr>ce_message := content_text (ce_message ?f)\<rparr>"
      using ff by (intro strip_empty_lines_content) (simp add: entry_fits_def)
    also have "\<dots> = ?f\<lparr>ce_message := ce_message ?f\<rparr>" by (simp add: content_text_idem)
    finally have sf: "host_history_strip_empty_lines ?f = ?f" by simp
    have "fill_color th ?f = ?f" "fill_highlight th ?f = ?f"
      using fill_code [OF assms(1-3)] by (simp_all add: fill_color_def [of th ?f] fill_highlight_def [of th ?f])
    moreover have "host_history_has_content ?f" using content by (simp add: host_history_has_content_def)
    ultimately show ?thesis
      using True sf ff unfolding e' by (simp add: stored_ok_def host_history_normalize_entry_def Let_def)
  next
    case False
    let ?f = "?e\<lparr>ce_color_code := [], ce_highlight_code := [], ce_is_bold := False,
                 ce_color_name := [], ce_highlight_name := []\<rparr>"
    have e': "e' = ?f" using assms(5) False content by (simp add: host_history_normalize_entry_def strip Let_def)
    have ff: "entry_fits ?f" using fits by (auto simp: entry_fits_def msg_sizes)
    have "host_history_strip_empty_lines ?f = ?f\<lparr>ce_message := content_text (ce_message ?f)\<rparr>"
      using ff by (intro strip_empty_lines_content) (simp add: entry_fits_def)
    then have sf: "host_history_strip_empty_lines ?f = ?f" by (simp add: content_text_idem)
    have "host_history_has_content ?f" using content by (simp add: host_history_has_content_def)
    then show ?thesis
      using False sf ff unfolding e' by (simp add: stored_ok_def host_history_normalize_entry_def Let_def)
  qed
qed

lemma saved_records:
  assumes "list_all (stored_ok th) (cache h)"
  shows "map host_state_read_history_entry (sf_entries (saved_file env h)) = map persisted (unexpired env (cache h))"
  using assms read_write_entry by (auto simp: saved_file_def unexpired_def list_all_iff stored_ok_def)

lemma cleanup_cache:
  "\<not> history_released (hist h) \<Longrightarrow> env_now env = Some now \<Longrightarrow>
   cache (host_history_cleanup_expired env h) = filter (\<lambda>e. ce_created_at e \<ge> now - CLEANUP_SECONDS) (cache h)"
proof -
  assume a: "\<not> history_released (hist h)" "env_now env = Some now"
  let ?kept = "filter (\<lambda>e. ce_created_at e \<ge> now - CLEANUP_SECONDS) (cache h)"
  have "?kept = cache h" if "\<not> length ?kept < length (cache h)"
    using that by (metis (no_types, lifting) filter_True length_filter_less)
  then show ?thesis using a by (auto simp: host_history_cleanup_expired_def Let_def)
qed

lemma cleanup_next [simp]: "next_message_id (host_history_cleanup_expired env h) = next_message_id h"
  by (simp add: host_history_cleanup_expired_def restore_locked_def Let_def split: option.split)

lemma reply_load_frame [simp]:
  "hist (host_reply_state_load env h) = hist h" "next_message_id (host_reply_state_load env h) = next_message_id h"
  by (simp_all add: host_reply_state_load_def Let_def case_prod_beta split: option.split)

lemma boot_loads:
  assumes "state_path h" "state_file h = Some f" "file_ok n f" "n \<le> HISTORY_CACHE_LIMIT"
    "env_rest_ok env" "\<And>m. env_alloc env m" "env_now env = Some now"
  shows "cache (boot th env h) = filter (\<lambda>e. ce_created_at e \<ge> now - CLEANUP_SECONDS)
      (normalized th (map host_state_read_history_entry (sf_entries f)))"
    "sf_next_message_id f \<le> next_message_id (boot th env h)"
proof -
  let ?fresh = "fresh_host (state_path h) (state_file h) (reply_path h) (reply_file h)"
  let ?es = "normalized th (map host_state_read_history_entry (sf_entries f))"
  have small: "length (sf_entries f) \<le> HISTORY_CACHE_LIMIT" "sf_history_count f = length (sf_entries f)"
    and nx: "sf_next_message_id f \<noteq> 0"
    using assms(3,4) by (auto simp: file_ok_def)
  obtain hh' where r: "host_history_reserve_locked (env_alloc env) ENTRY_SIZE (length (sf_entries f))
      (history_empty :: chat_history_entry history_host) = Some hh'"
    using reserve_total [of "env_alloc env", OF assms(6) small(1)] by blast
  have "\<not> HISTORY_CACHE_LIMIT < length (sf_entries f)" using small(1) by simp
  then have total: "host_state_load_history_entries th env f history_empty \<noteq> (False, history_empty\<lparr>history := []\<rparr>)"
    by (cases "sf_entries f = []")
      (simp_all add: host_state_load_history_entries_def Let_def case_prod_beta small(2) r)
  obtain c where c: "host_state_load_history_entries th env f history_empty =
      (True, history_empty\<lparr>history_capacity := c, history := ?es, history_start_index := 0,
                history_total := length ?es\<rparr>)"
    using load_entries_small [OF small, of th env history_empty] total by metis
  let ?g = "?fresh\<lparr>hist := history_empty\<lparr>history_capacity := c, history := ?es, history_start_index := 0,
        history_total := length ?es\<rparr>, next_message_id :=
        host_state_normalize_next_message_id (sf_next_message_id f) (length ?es)\<rparr>"
  have load: "host_state_load th env ?fresh = host_history_cleanup_expired env ?g"
    using assms(1,2,5) c nx by (simp add: host_state_load_def Let_def fresh_host_def)
  have "\<not> history_released (hist ?g)" by (simp add: history_empty_def)
  then show "cache (boot th env h) = filter (\<lambda>e. ce_created_at e \<ge> now - CLEANUP_SECONDS) ?es"
    unfolding boot_def Let_def load using cleanup_cache [of ?g env now] assms(7) by simp
  show "sf_next_message_id f \<le> next_message_id (boot th env h)"
    unfolding boot_def Let_def load by (simp add: host_state_normalize_next_message_id_def)
qed

lemma save_writes:
  assumes "msg_inv n h" "state_path h" "env_temp_ok env" "env_write_ok env"
  shows "state_path (host_state_save_force_locked env None h)"
    "state_file (host_state_save_force_locked env None h) = Some (saved_file env h)"
    "cache (host_state_save_force_locked env None h) = unexpired env (cache h)"
proof -
  have "\<not> history_released (hist h)" "history_start_index (hist h) = 0"
    using assms(1) by (simp_all add: msg_inv_defs)
  then obtain hh where "host_state_save_force_locked env None h =
      (if env_write_ok env then h\<lparr>hist := hh, state_file := Some (saved_file env h)\<rparr> else h\<lparr>hist := hh\<rparr>)"
    "history hh = unexpired env (cache h)"
    using save_force_plain [OF _ _ assms(2,3)] by metis
  with assms(2,4) show "state_path (host_state_save_force_locked env None h)"
    "state_file (host_state_save_force_locked env None h) = Some (saved_file env h)"
    "cache (host_state_save_force_locked env None h) = unexpired env (cache h)" by simp_all
qed

end
