(* ===== verification/Message_Commands.thy ===== *)
theory Message_Commands
  imports Message_Store
begin

text \<open>
  The commands that work on recorded messages: \<^verbatim>\<open>/delete-msg\<close> (\<^verbatim>\<open>commands/social.c\<close>), the
  reactions (\<^verbatim>\<open>commands/mail.c\<close>) and \<^verbatim>\<open>/reply\<close> (\<^verbatim>\<open>commands/media.c\<close>).  A handler returns what it
  sends: lines to its session, lines and entries to the room.  \<open>usage\<close> is the usage line of the
  command in the language of the session.  The relay of a reply to other stations is left out.
\<close>

datatype msg_out =
  MsgLine cstr
| MsgNotice cstr
| MsgReacted nat cstr chat_history_entry
| MsgShown chat_history_entry

definition msg_label :: "nat \<Rightarrow> cstr" where
  "msg_label ident = (case host_compact_id_encode ident 32 of Some l \<Rightarrow> l | None \<Rightarrow> dec_str ident)"

section \<open>Deleting\<close>

text \<open>The name and the way to the client are the author's.\<close>

definition owned_by :: "msg_session \<Rightarrow> chat_history_entry \<Rightarrow> bool" where
  "owned_by s e \<longleftrightarrow>
     strcasecmp_eq (ce_username e) (ms_user_name s) \<and>
     (ce_user_ip e \<noteq> [] \<and> ms_client_ip s \<noteq> [] \<and> ce_user_ip e = ms_client_ip s \<or>
      ce_user_topology e \<noteq> [] \<and> snprintf_into MSG_TOPOLOGY_LEN (ms_topology s) \<noteq> [] \<and>
      ce_user_topology e = snprintf_into MSG_TOPOLOGY_LEN (ms_topology s))"

definition range_label :: "delete_result \<Rightarrow> cstr" where
  "range_label r =
     (if del_last r \<noteq> 0 \<and> del_last r \<noteq> del_first r
      then ''#'' @ take 30 (msg_label (del_first r)) @ ''-#'' @ take 30 (msg_label (del_last r))
      else ''#'' @ take 62 (msg_label (del_first r)))"

definition reply_note :: "delete_result \<Rightarrow> cstr" where
  "reply_note r =
     (if del_replies r > 0
      then snprintf_into 64 ('' ('' @ dec_str (del_replies r) @ '' repl'' @ (if del_replies r = 1 then ''y'' else ''ies'') @ '' removed)'')
      else [])"

definition delete_and_report ::
  "msg_theme \<Rightarrow> msg_env \<Rightarrow> msg_session \<Rightarrow> nat \<Rightarrow> nat \<Rightarrow> msg_host \<Rightarrow> msg_out list \<times> msg_host" where
  "delete_and_report th env s lo hi h =
     (let (r, h) = host_history_delete_range env lo hi h
      in if del_removed r = 0 then ([MsgLine ''No chat messages matched that identifier.''], h)
         else
           let ack = snprintf_into MSG_LIMIT (''Removed '' @ dec_str (del_removed r) @ '' message'' @
                 (if del_removed r = 1 then [] else ''s'') @ '' ('' @ range_label r @ '')'' @ reply_note r @ ''.'');
               notice = snprintf_into MSG_LIMIT (''* ['' @ ms_user_name s @ ''] removed '' @
                 (if del_removed r = 1 then ''message'' else ''messages'') @ '' '' @ range_label r @ reply_note r @ ''.'');
               (_, h) = host_history_record_system th env notice h
           in ([MsgLine ack, MsgNotice notice], h))"

text \<open>The identifiers of the argument: none, one, or a range.\<close>

definition delete_range_of :: "cstr \<Rightarrow> (cstr + nat \<times> nat) option" where
  "delete_range_of working =
     (let first = takeWhile (\<lambda>c. c \<noteq> CHR ''-'') working;
          rest = dropWhile (\<lambda>c. c \<noteq> CHR ''-'') working
      in if rest \<noteq> []
         then let first = c_trim first; end_token = c_trim (tl rest)
              in if first = [] \<or> end_token = [] then None
                 else case (host_compact_id_decode first, host_compact_id_decode end_token) of
                   (Some lo, Some hi) \<Rightarrow>
                     if lo = 0 \<or> hi = 0 then None
                     else if lo > hi
                     then Some (Inl ''Start identifier must be less than or equal to the end identifier.'')
                     else Some (Inr (lo, hi))
                 | _ \<Rightarrow> None
         else case host_compact_id_decode working of
           Some lo \<Rightarrow> if lo = 0 then None else Some (Inr (lo, lo))
         | None \<Rightarrow> None)"

definition session_handle_delete_message ::
  "msg_theme \<Rightarrow> msg_env \<Rightarrow> cstr \<Rightarrow> msg_session \<Rightarrow> cstr option \<Rightarrow> msg_host \<Rightarrow> msg_out list \<times> msg_host" where
  "session_handle_delete_message th env usage s args h =
     (case args of
        None \<Rightarrow> ([MsgLine usage], h)
      | Some arguments \<Rightarrow>
          let working = c_trim (snprintf_into MSG_LIMIT arguments)
          in if working = [] then ([MsgLine usage], h)
             else case delete_range_of working of
               None \<Rightarrow> ([MsgLine usage], h)
             | Some (Inl line) \<Rightarrow> ([MsgLine line], h)
             | Some (Inr (lo, hi)) \<Rightarrow>
                 if ms_is_operator s \<or> ms_is_lan_operator s then delete_and_report th env s lo hi h
                 else if CHR ''-'' \<in> set working
                 then ([MsgLine ''You may only delete your own single message.''], h)
                 else
                   let (found, h) = host_history_find_entry_by_id env lo h
                   in case found of
                        None \<Rightarrow> ([MsgLine ''No chat messages matched that identifier.''], h)
                      | Some e \<Rightarrow>
                          if \<not> owned_by s e
                          then ([MsgLine ''You can only delete your own messages from the same connection topology.''], h)
                          else delete_and_report th env s lo hi h)"

section \<open>Reacting\<close>

definition session_handle_reaction ::
  "msg_env \<Rightarrow> cstr \<Rightarrow> nat \<Rightarrow> cstr option \<Rightarrow> msg_host \<Rightarrow> msg_fault + msg_out list \<times> msg_host" where
  "session_handle_reaction env usage k args h =
     (if k \<ge> REACTION_KIND_COUNT then Inr ([], h)
      else case args of
        None \<Rightarrow> Inr ([MsgLine usage], h)
      | Some arguments \<Rightarrow>
          let working = c_trim (snprintf_into 64 arguments)
          in if working = [] then Inr ([MsgLine usage], h)
             else case host_compact_id_decode working of
               None \<Rightarrow> Inr ([MsgLine usage], h)
             | Some ident \<Rightarrow>
                 if ident = 0 then Inr ([MsgLine usage], h)
                 else case host_history_apply_reaction env ident k h of
                   Inl fault \<Rightarrow> Inl fault
                 | Inr (None, h) \<Rightarrow>
                     Inr ([MsgLine (snprintf_into MSG_LIMIT
                       (''Message #'' @ msg_label ident @ '' was not found or cannot be reacted to.''))], h)
                 | Inr (Some e, h) \<Rightarrow> Inr ([MsgReacted k (msg_label ident) e], h))"

section \<open>Replying\<close>

text \<open>Carriage returns, alone or before a newline, become newlines.\<close>

fun session_normalize_newlines :: "cstr \<Rightarrow> cstr" where
  "session_normalize_newlines [] = []"
| "session_normalize_newlines (c # s) =
     (if c = CHR 0x0D
      then CHR 0x0A # session_normalize_newlines (if s \<noteq> [] \<and> hd s = CHR 0x0A then tl s else s)
      else c # session_normalize_newlines s)"

definition reply_text :: "cstr \<Rightarrow> cstr" where
  "reply_text s = c_trim (map (\<lambda>c. if c = CHR 0x0A then CHR '' '' else c)
     (c_trim (session_normalize_newlines (snprintf_into MSG_LIMIT s))))"

definition blank :: "char \<Rightarrow> bool" where
  "blank c \<longleftrightarrow> c = CHR '' '' \<or> c = CHR 0x09"

text \<open>The target and the text of the arguments; whether the target is a reply.\<close>

definition reply_arguments :: "cstr \<Rightarrow> (bool \<times> nat \<times> cstr) option" where
  "reply_arguments arguments =
     (let working = c_trim (snprintf_into MSG_LIMIT arguments);
          target = takeWhile (\<lambda>c. \<not> blank c) (dropWhile blank working);
          rest = dropWhile blank (dropWhile (\<lambda>c. \<not> blank c) (dropWhile blank working))
      in if working = [] \<or> target = [] \<or> rest = [] then None
         else
           let target = (if hd target = CHR ''#'' then tl target else target);
               targeting_reply = (target \<noteq> [] \<and> hd target \<in> {CHR ''r'', CHR ''R''});
               target = (if targeting_reply then tl target else target)
           in if target = [] then None
              else case host_compact_id_decode target of
                None \<Rightarrow> None
              | Some ident \<Rightarrow> if ident = 0 then None else Some (targeting_reply, ident, rest))"

text \<open>The message and the reply that a new reply answers, or the line that says there is none.\<close>

definition reply_parent ::
  "msg_env \<Rightarrow> bool \<Rightarrow> nat \<Rightarrow> msg_host \<Rightarrow> (cstr + nat \<times> nat) \<times> msg_host" where
  "reply_parent env targeting_reply ident h =
     (let of_reply = map_option (\<lambda>r. (parent_message_id r, reply_id r)) (host_replies_find_entry_by_id ident h)
      in if targeting_reply
         then (case of_reply of
                 None \<Rightarrow> (Inl (snprintf_into MSG_LIMIT (''Reply r#'' @ msg_label ident @ '' was not found.'')), h)
               | Some p \<Rightarrow> (Inr p, h))
         else case host_history_find_entry_by_id env ident h of
           (Some e, h) \<Rightarrow> (Inr (message_id e, 0), h)
         | (None, h) \<Rightarrow>
             (case of_reply of
                None \<Rightarrow> (Inl (snprintf_into MSG_LIMIT (''Message or reply #'' @ msg_label ident @ '' was not found.'')), h)
              | Some p \<Rightarrow> (Inr p, h)))"

definition reply_line :: "chat_reply_entry \<Rightarrow> cstr" where
  "reply_line r = snprintf_into MSG_LIMIT
     (''->[r#'' @ msg_label (reply_id r) @ '' '' @ (if parent_reply_id r = 0 then ''#'' else ''r#'') @
      msg_label (if parent_reply_id r = 0 then parent_message_id r else parent_reply_id r) @ ''] '' @
      take (MSG_USERNAME_LEN - 1) (reply_username r) @ '': '' @ take (MSG_LIMIT div 2) (reply_message r))"

definition session_handle_reply ::
  "msg_theme \<Rightarrow> msg_env \<Rightarrow> cstr \<Rightarrow> msg_session \<Rightarrow> cstr option \<Rightarrow> msg_host \<Rightarrow> msg_out list \<times> msg_host" where
  "session_handle_reply th env usage s args h =
     (case args of
        None \<Rightarrow> ([MsgLine usage], h)
      | Some arguments \<Rightarrow>
          (case reply_arguments arguments of
             None \<Rightarrow> ([MsgLine usage], h)
           | Some (targeting_reply, ident, words) \<Rightarrow>
               (case reply_parent env targeting_reply ident h of
                  (Inl line, h) \<Rightarrow> ([MsgLine line], h)
                | (Inr (parent, parent_reply), h) \<Rightarrow>
                    if parent = 0 then ([MsgLine ''Unable to determine reply target.''], h)
                    else if reply_text words = [] then ([MsgLine ''Reply text cannot be empty.''], h)
                    else
                      let r = \<lparr>reply_in_use = False, reply_id = 0, parent_message_id = parent,
                               parent_reply_id = parent_reply,
                               reply_created_at = (case env_now env of None \<Rightarrow> -1 | Some now \<Rightarrow> now),
                               reply_username = snprintf_into MSG_USERNAME_LEN (ms_user_name s),
                               reply_message = snprintf_into MSG_LIMIT (reply_text words)\<rparr>
                      in case host_replies_commit_entry env r h of
                           (None, h) \<Rightarrow> ([MsgLine ''Unable to record reply.''], h)
                         | (Some stored, h) \<Rightarrow>
                             (case host_history_record_system th env (reply_line stored) h of
                                (None, h) \<Rightarrow> ([MsgLine ''Unable to broadcast reply.''], h)
                              | (Some e, h) \<Rightarrow> ([MsgShown e], h)))))"

section \<open>What the commands keep\<close>

lemma owned_by_cleared: "ce_user_ip e = [] \<Longrightarrow> ce_user_topology e = [] \<Longrightarrow> \<not> owned_by s e"
  by (simp add: owned_by_def)

lemma read_cleared:
  "ce_user_ip (host_state_read_history_entry r) = []" "ce_user_topology (host_state_read_history_entry r) = []"
  by (simp_all add: host_state_read_history_entry_def zero_entry_def Let_def)

lemma normalize_address:
  "host_history_normalize_entry th e = Some e' \<Longrightarrow>
   ce_user_ip e' = ce_user_ip e \<and> ce_user_topology e' = ce_user_topology e"
  by (auto simp: host_history_normalize_entry_def host_history_strip_empty_lines_def fill_color_def fill_highlight_def Let_def
      split: if_splits option.splits)

lemma normalized_mem: "e \<in> set (normalized th es) \<Longrightarrow> \<exists>e0\<in>set es. host_history_normalize_entry th e0 = Some e"
  by (induction es) (auto split: option.splits)

lemma restored_not_owned:
  "e \<in> set (normalized th (map host_state_read_history_entry rs)) \<Longrightarrow> \<not> owned_by s e"
  using normalized_mem [of e th "map host_state_read_history_entry rs"] normalize_address read_cleared owned_by_cleared
  by fastforce

lemma find_live: "\<not> history_released (hist h) \<Longrightarrow> snd (host_history_find_entry_by_id env ident h) = h"
  by (simp add: host_history_find_entry_by_id_def Let_def split: option.split)

lemma find_small:
  assumes "\<not> history_released (hist h)" "history_start_index (hist h) = 0"
  shows "fst (host_history_find_entry_by_id env ident h) =
    (if ident = 0 then None else List.find (entry_matches ident) (cache h))"
  using assms by (simp add: host_history_find_entry_by_id_def older_entries_def Let_def split: option.split)

text \<open>The notice that follows a deletion takes no young message away.\<close>

lemma record_system_keeps:
  assumes "msg_inv n h" "n < HISTORY_CACHE_LIMIT" "e \<in> set (cache h)" "young_at env e"
  shows "e \<in> set (cache (snd (host_history_record_system th env m h)))"
  using assms commit_cache by (simp add: host_history_record_system_def)

lemma delete_report_keeps:
  assumes "msg_inv n h" "n < HISTORY_CACHE_LIMIT" "\<And>m. env_alloc env m" "in_sync h"
    "e \<in> set (cache h)" "is_user_message e" "young_at env e" "\<not> in_range lo hi (message_id e)"
  shows "e \<in> set (cache (snd (delete_and_report th env s lo hi h))) \<or>
    persisted e \<in> set (cache (snd (delete_and_report th env s lo hi h)))"
proof -
  have live: "\<not> history_released (hist h)" and le: "n \<le> HISTORY_CACHE_LIMIT" using assms(1,2) by (simp_all add: msg_inv_defs)
  have source: "delete_source env h = Some (map persisted (cache h))" by (rule source_in_sync [OF assms(4,3)])
  obtain r h' where d: "host_history_delete_range env lo hi h = (r, h')" by (metis surj_pair)
  have inv: "msg_inv n h'" using delete_inv [OF assms(1) le, of env lo hi] d by simp
  show ?thesis
  proof (cases "0 < lo \<and> lo \<le> hi \<and> delete_gone lo hi (map persisted (cache h)) \<noteq> []")
    case True
    obtain h2 r2 where h2: "host_history_delete_range env lo hi h = (r2, h2)"
      "del_removed r2 = length (delete_gone lo hi (map persisted (cache h)))"
      "cache h2 = delete_kept lo hi (map persisted (cache h))"
      using delete_takes_place [OF assms(1) le assms(3) source] True by metis
    have "persisted e \<in> set (cache h')"
      using assms(5,8) h2 d by (simp add: delete_kept_def)
    moreover have "young_at env (persisted e)" using assms(7) young_frame [of "persisted e" e] by simp
    ultimately have "persisted e \<in> set (cache (snd (host_history_record_system th env m h')))" for m
      using record_system_keeps [OF inv assms(2)] by blast
    then show ?thesis using \<open>persisted e \<in> set (cache h')\<close> d
      by (simp add: delete_and_report_def Let_def case_prod_beta)
  next
    case False
    have small: "length es \<le> HISTORY_CACHE_LIMIT" if "delete_source env h = Some es" for es
      using delete_source_ok [OF assms(1) that] le by simp
    have "host_history_delete_range env lo hi h = (no_delete, h)"
      using False source by (cases rule: delete_small_cases [OF live small, of env lo hi]) auto
    then show ?thesis using assms(5) by (simp add: delete_and_report_def no_delete_def)
  qed
qed


lemma delete_single:
  assumes "delete_range_of w = Some (Inr (lo, hi))" "CHR ''-'' \<notin> set w"
  shows "hi = lo"
proof -
  have "dropWhile (\<lambda>c. c \<noteq> CHR ''-'') w = []" using assms(2) by (auto simp: dropWhile_eq_Nil_conv)
  then show ?thesis using assms(1) by (auto simp: delete_range_of_def Let_def split: option.splits if_splits)
qed

text \<open>A user who is not an operator deletes one message, and it is their own.\<close>

lemma delete_command_cases:
  assumes "\<not> history_released (hist h)" "\<not> ms_is_operator s" "\<not> ms_is_lan_operator s"
  obtains (line) l where "session_handle_delete_message th env usage s args h = ([MsgLine l], h)"
  | (own) i e where "fst (host_history_find_entry_by_id env i h) = Some e" "owned_by s e"
      "session_handle_delete_message th env usage s args h = delete_and_report th env s i i h"
proof (cases args)
  case None
  then show thesis by (intro line) (simp add: session_handle_delete_message_def)
next
  case (Some arguments)
  define w where "w = c_trim (snprintf_into MSG_LIMIT arguments)"
  note handler = session_handle_delete_message_def Some w_def [symmetric] Let_def
  show thesis
  proof (cases "w \<noteq> [] \<and> CHR ''-'' \<notin> set w \<and> (\<exists>lo hi. delete_range_of w = Some (Inr (lo, hi)))")
    case False
    then have "\<exists>l. session_handle_delete_message th env usage s args h = ([MsgLine l], h)"
      using assms(2,3) by (auto simp: handler split: option.split sum.split)
    then show thesis using line by blast
  next
    case True
    then obtain lo where lo: "delete_range_of w = Some (Inr (lo, lo))" using delete_single by metis
    show thesis
    proof (cases "fst (host_history_find_entry_by_id env lo h)")
      case None
      then show thesis using True lo assms line find_live [OF assms(1), of env lo]
        by (simp add: handler case_prod_beta)
    next
      case (Some e)
      then show thesis using True lo assms line own [of lo e] find_live [OF assms(1), of env lo]
        by (cases "owned_by s e") (simp_all add: handler case_prod_beta)
    qed
  qed
qed

end
