(* ===== verification/Message_Main.thy ===== *)
theory Message_Main
  imports Message_Commands
begin

text \<open>
  The properties of recorded messages over the operations and commands, with concrete instances.
\<close>

section \<open>A small room\<close>

definition sample_theme :: msg_theme where
  "sample_theme = \<lparr>theme_user_color = Some ''c'', theme_highlight = Some ''h'', default_user_color_name = ''white'',
     default_user_highlight_name = ''default'', colour = (\<lambda>_. None), highlight_colour = (\<lambda>_. None)\<rparr>"

definition sample_env :: "int \<Rightarrow> int \<Rightarrow> msg_env" where
  "sample_env now clock = \<lparr>env_now = Some now, env_clock = Some clock, env_cold = None, env_alloc = (\<lambda>_. True),
     env_temp_ok = True, env_write_ok = True, env_rest_ok = True\<rparr>"

definition sample_message :: "nat \<Rightarrow> cstr \<Rightarrow> chat_history_entry" where
  "sample_message i m = zero_entry\<lparr>is_user_message := True, ce_message := m, ce_username := ''bob'',
     ce_raw_username := ''bob'', ce_user_ip := ''10.0.0.1'', ce_color_code := ''c'', ce_highlight_code := ''h'',
     message_id := i, ce_created_at := 2000000\<rparr>"

text \<open>A room whose first messages are \<open>cached\<close> and whose file has \<open>written\<close>.\<close>

definition sample_room :: "chat_history_entry list \<Rightarrow> chat_history_entry list \<Rightarrow> msg_host" where
  "sample_room written cached = (fresh_host True (Some \<lparr>sf_history_count = length written, sf_next_message_id = 3,
       sf_entries = map host_state_write_history_entry written\<rparr>) False None)
     \<lparr>hist := history_empty\<lparr>history := cached, history_total := length cached\<rparr>, next_message_id := 3\<rparr>"

abbreviation msg1 where "msg1 \<equiv> sample_message 1 ''hi''"
abbreviation msg2 where "msg2 \<equiv> sample_message 2 ''there''"

lemma sample_tags: "tag (sample_message i m) = (True, i)"
  by (simp add: sample_message_def tag_def)

lemma sample_fields [simp]:
  "is_user_message (sample_message i m)" "message_id (sample_message i m) = i"
  "ce_created_at (sample_message i m) = 2000000" "ce_username (sample_message i m) = ''bob''"
  by (simp_all add: sample_message_def)

lemma sample_room_hist [simp]:
  "cache (sample_room written cached) = cached" "\<not> history_released (hist (sample_room written cached))"
  "history_start_index (hist (sample_room written cached)) = 0"
  by (simp_all add: sample_room_def history_empty_def)

lemma sample_room_ok:
  "msg_inv 2 (sample_room [msg1, msg2] [msg1, msg2])" "msg_inv 2 (sample_room [msg1] [msg1, msg2])"
  by (simp_all add: sample_room_def msg_inv_defs history_empty_def fresh_host_def ids_ok_def replies_ok_def
      file_ok_def sample_tags)

lemma sample_room_file [simp]:
  "state_path (sample_room written cached)"
  "state_file (sample_room written cached) = Some \<lparr>sf_history_count = length written, sf_next_message_id = 3,
       sf_entries = map host_state_write_history_entry written\<rparr>"
  "mreplies (sample_room written cached) = []"
  by (simp_all add: sample_room_def fresh_host_def)

lemma sample_fits: "entry_fits msg1" "entry_fits msg2"
  by (simp_all add: entry_fits_def sample_message_def zero_entry_def msg_sizes)

lemma sample_synced: "in_sync (sample_room [msg1, msg2] [msg1, msg2])"
  using sample_fits by (simp add: in_sync_def read_write_entry)

lemma sample_limit: "2 \<le> HISTORY_CACHE_LIMIT" "2 < HISTORY_CACHE_LIMIT" "3 \<le> HISTORY_CACHE_LIMIT"
  by (simp_all add: HISTORY_CACHE_LIMIT_def)

lemma sample_env_simps [simp]:
  "env_alloc (sample_env now c) m" "env_temp_ok (sample_env now c)" "env_write_ok (sample_env now c)"
  "env_rest_ok (sample_env now c)" "env_now (sample_env now c) = Some now" "env_clock (sample_env now c) = Some c"
  by (simp_all add: sample_env_def)

lemma sample_stored: "stored_ok sample_theme msg1" "stored_ok sample_theme msg2"
proof -
  have strip: "host_history_strip_empty_lines (sample_message i m) = sample_message i m"
    if "content_text m = m" "length m < 100" for i m
    using that strip_empty_lines_content [of "sample_message i m"]
    by (simp add: sample_message_def zero_entry_def MSG_LIMIT_def)
  have "content_text ''hi'' = ''hi''" "content_text ''there'' = ''there''"
    by (simp_all add: content_text_def content_line_def c_isspace_def)
  then have "host_history_strip_empty_lines msg1 = msg1" "host_history_strip_empty_lines msg2 = msg2"
    using strip by simp_all
  then show "stored_ok sample_theme msg1" "stored_ok sample_theme msg2"
    using sample_fits
    by (simp_all add: stored_ok_def host_history_normalize_entry_def host_history_has_content_def Let_def
        fill_color_def fill_highlight_def) (simp_all add: sample_message_def)
qed

section \<open>Properties\<close>

text \<open>
  C12: Identifiers are unique.  In every run of at most 32768 events from an empty start (messages,
  reactions, deletions, replies, saves that succeed, fail or are put off, and restarts from the
  files), the identifiers of the users' messages are positive, grow along the history and are below the
  next one to be given; the same holds of the replies, of which there are at most 1024.
\<close>

theorem message_ids_grow:
  assumes "list_all msg_event_ok evs" "length evs \<le> HISTORY_CACHE_LIMIT"
    "h = fold (msg_step th) evs (fresh_host sp None rp None)"
  shows "sorted_wrt (<) (map message_id (filter is_user_message (cache h))) \<and>
    list_all (\<lambda>e. if is_user_message e then 0 < message_id e \<and> message_id e < next_message_id h else message_id e = 0) (cache h) \<and>
    sorted_wrt (<) (map reply_id (mreplies h)) \<and>
    list_all (\<lambda>r. 0 < reply_id r \<and> reply_id r < next_reply_id h) (mreplies h) \<and> length (mreplies h) \<le> MAX_REPLIES"
proof -
  have "msg_inv (0 + length evs) h"
    unfolding assms(3) by (rule msg_run_inv [OF assms(1)]) (use assms(2) fresh_inv [of 0 None None] in simp_all)
  moreover have "map snd (filter fst (map tag es)) = map message_id (filter is_user_message es)" for es
    by (induction es) (simp_all add: tag_def)
  ultimately show ?thesis
    by (auto simp: msg_inv_defs ids_ok_def replies_ok_def list_all_iff tag_def split: if_splits)
qed

theorem message_ids_grow_witness:
  "let h = fold (msg_step sample_theme) [MsgCommit (sample_env 2000000 0) msg1, MsgCommit (sample_env 2000000 1) msg2,
       MsgDelete (sample_env 2000000 2) 1 1, MsgRestart (sample_env 2000000 3)] (fresh_host True None True None)
   in sorted_wrt (<) (map message_id (filter is_user_message (cache h))) \<and>
    list_all (\<lambda>e. if is_user_message e then 0 < message_id e \<and> message_id e < next_message_id h else message_id e = 0) (cache h) \<and>
    sorted_wrt (<) (map reply_id (mreplies h)) \<and>
    list_all (\<lambda>r. 0 < reply_id r \<and> reply_id r < next_reply_id h) (mreplies h) \<and> length (mreplies h) \<le> MAX_REPLIES"
  unfolding Let_def
  by (rule message_ids_grow [where th = sample_theme and sp = True and rp = True and evs =
        "[MsgCommit (sample_env 2000000 0) msg1, MsgCommit (sample_env 2000000 1) msg2,
          MsgDelete (sample_env 2000000 2) 1 1, MsgRestart (sample_env 2000000 3)]"])
    (simp_all add: HISTORY_CACHE_LIMIT_def)



text \<open>
  C32: A restart restores what was saved.  After a completed save, starting again gives back, in order, the
  entries that had not passed fourteen days at the save and are not older than three days at the start,
  each without the address, topology and language of its sender; identifiers go on from where they were.
\<close>

theorem restart_restores:
  assumes "msg_inv n h" "n \<le> HISTORY_CACHE_LIMIT" "list_all (stored_ok th) (cache h)"
    "state_path h" "env_temp_ok env" "env_write_ok env"
    "env_rest_ok env'" "env_alloc env' = (\<lambda>_. True)" "env_now env' = Some now"
  shows "cache (boot th env' (host_state_save_force_locked env None h)) =
      filter (\<lambda>e. ce_created_at e \<ge> now - CLEANUP_SECONDS) (map persisted (unexpired env (cache h))) \<and>
    next_message_id h \<le> next_message_id (boot th env' (host_state_save_force_locked env None h))"
proof -
  note saved = save_writes [OF assms(1,4-6)]
  have ok: "file_ok n (saved_file env h)" by (rule saved_file_ok [OF assms(1,2)])
  have alloc: "env_alloc env' m" for m using assms(8) by simp
  have stored: "list_all (stored_ok th) (unexpired env (cache h))"
    using assms(3) by (auto simp: unexpired_def list_all_iff)
  have "normalized th (map host_state_read_history_entry (sf_entries (saved_file env h))) = map persisted (unexpired env (cache h))"
    unfolding saved_records [OF assms(3)] by (rule normalized_persisted [OF stored])
  then show ?thesis
    using boot_loads [OF saved(1,2) ok assms(2,7) alloc assms(9), of th] by (simp add: saved_file_def)
qed

theorem restart_restores_witness:
  "cache (boot sample_theme (sample_env 2000100 9) (host_state_save_force_locked (sample_env 2000000 0) None
       (sample_room [msg1] [msg1, msg2]))) =
     filter (\<lambda>e. ce_created_at e \<ge> 2000100 - CLEANUP_SECONDS) (map persisted (unexpired (sample_env 2000000 0) [msg1, msg2])) \<and>
   next_message_id (sample_room [msg1] [msg1, msg2]) \<le>
     next_message_id (boot sample_theme (sample_env 2000100 9) (host_state_save_force_locked (sample_env 2000000 0) None
       (sample_room [msg1] [msg1, msg2])))"
proof -
  have "env_alloc (sample_env 2000100 9) = (\<lambda>_. True)" by (simp add: sample_env_def)
  then show ?thesis
    using restart_restores [OF sample_room_ok(2) sample_limit(1), of sample_theme "sample_env 2000000 0" "sample_env 2000100 9"]
      sample_stored by simp
qed

text \<open>
  C33: A deletion removes what it is asked to.  Where the state file has what the cache has, deleting a range
  of identifiers removes exactly the users' messages of the range and the replies to them, reports
  how many messages went, and keeps everything else in order; what it keeps it reads from the file.
\<close>

theorem delete_exact:
  assumes "msg_inv n h" "n \<le> HISTORY_CACHE_LIMIT" "in_sync h" "env_alloc env = (\<lambda>_. True)"
    "0 < lo" "lo \<le> hi" "delete_gone lo hi (cache h) \<noteq> []"
    "host_history_delete_range env lo hi h = (r, h')"
  shows "cache h' = map persisted (filter (\<lambda>e. \<not> (is_user_message e \<and> lo \<le> message_id e \<and> message_id e \<le> hi)) (cache h)) \<and>
    del_removed r = length (filter (\<lambda>e. is_user_message e \<and> lo \<le> message_id e \<and> message_id e \<le> hi) (cache h)) \<and>
    mreplies h' = filter (\<lambda>q. \<not> (lo \<le> parent_message_id q \<and> parent_message_id q \<le> hi)) (mreplies h)"
proof -
  have alloc: "env_alloc env m" for m using assms(4) by simp
  have gone: "delete_gone lo hi (map persisted (cache h)) \<noteq> []" using assms(7) by simp
  obtain h2 r2 where "host_history_delete_range env lo hi h = (r2, h2)"
    "del_removed r2 = length (delete_gone lo hi (map persisted (cache h)))"
    "cache h2 = delete_kept lo hi (map persisted (cache h))"
    "mreplies h2 = filter (\<lambda>q. \<not> in_range lo hi (parent_message_id q)) (mreplies h)"
    by (rule delete_takes_place [OF assms(1,2) alloc source_in_sync [OF assms(3) alloc] assms(5,6) gone])
  then have "cache h' = map persisted (delete_kept lo hi (cache h)) \<and> del_removed r = length (delete_gone lo hi (cache h)) \<and>
      mreplies h' = filter (\<lambda>q. \<not> in_range lo hi (parent_message_id q)) (mreplies h)"
    using assms(8) by simp
  then show ?thesis unfolding delete_kept_def delete_gone_def in_range_def by blast
qed

theorem delete_exact_witness:
  "cache (snd (host_history_delete_range (sample_env 2000000 0) 1 1 (sample_room [msg1, msg2] [msg1, msg2]))) = [persisted msg2]"
  using delete_exact [OF sample_room_ok(1) sample_limit(1) sample_synced, of "sample_env 2000000 0" 1 1
      "fst (host_history_delete_range (sample_env 2000000 0) 1 1 (sample_room [msg1, msg2] [msg1, msg2]))"
      "snd (host_history_delete_range (sample_env 2000000 0) 1 1 (sample_room [msg1, msg2] [msg1, msg2]))"]
  by (simp add: delete_gone_def in_range_def sample_env_def)

text \<open>
  C38: A deletion forgets messages that were not saved yet.  Saves within two seconds of the last one are
  put off, and a deletion works on the file: a message that is in memory but not yet in the file is
  gone after any other message is deleted.
\<close>

theorem delete_forgets_unsaved:
  assumes "msg_inv n h" "n \<le> HISTORY_CACHE_LIMIT" "env_alloc env = (\<lambda>_. True)" "state_path h" "state_file h = Some f"
    "0 < lo" "lo \<le> hi" "delete_gone lo hi (map host_state_read_history_entry (sf_entries f)) \<noteq> []"
    "fst (host_history_find_entry_by_id env i h) = Some e" "i \<notin> hs_message_id ` set (sf_entries f)"
  shows "fst (host_history_find_entry_by_id env i (snd (host_history_delete_range env lo hi h))) = None"
proof -
  have alloc: "env_alloc env m" for m using assms(3) by simp
  have count: "sf_history_count f = length (sf_entries f)" using assms(1,5) by (simp add: msg_inv_def file_ok_def)
  let ?es = "map host_state_read_history_entry (sf_entries f)"
  obtain h2 r2 where h2: "host_history_delete_range env lo hi h = (r2, h2)"
    "cache h2 = delete_kept lo hi ?es" "history_start_index (hist h2) = 0" "\<not> history_released (hist h2)"
    by (rule delete_takes_place [OF assms(1,2) alloc source_file [OF assms(4,5) count alloc] assms(6,7,8)])
  have "message_id (host_state_read_history_entry q) = hs_message_id q" for q
    by (simp add: host_state_read_history_entry_def Let_def)
  then have "List.find (entry_matches i) (cache h2) = None"
    using assms(10) unfolding h2(2) by (auto simp: find_None_iff entry_matches_def delete_kept_def)
  then show ?thesis using find_small [OF h2(4,3), of env i] h2(1) by simp
qed

theorem delete_forgets_unsaved_witness:
  "fst (host_history_find_entry_by_id (sample_env 2000000 0) 2 (sample_room [msg1] [msg1, msg2])) = Some msg2 \<and>
   fst (host_history_find_entry_by_id (sample_env 2000000 0) 2
     (snd (host_history_delete_range (sample_env 2000000 0) 1 1 (sample_room [msg1] [msg1, msg2])))) = None"
proof -
  have found: "fst (host_history_find_entry_by_id (sample_env 2000000 0) 2 (sample_room [msg1] [msg1, msg2])) = Some msg2"
    by (simp add: find_small entry_matches_def)
  moreover have "hs_message_id (host_state_write_history_entry msg1) = 1"
    by (simp add: host_state_write_history_entry_def)
  moreover have "env_alloc (sample_env 2000000 0) = (\<lambda>_. True)" by (simp add: sample_env_def)
  ultimately show ?thesis
    using delete_forgets_unsaved [OF sample_room_ok(2) sample_limit(1), of "sample_env 2000000 0"
        "\<lparr>sf_history_count = 1, sf_next_message_id = 3, sf_entries = [host_state_write_history_entry msg1]\<rparr>" 1 1 2 msg2]
      sample_fits by (simp add: delete_gone_def in_range_def read_write_entry)
qed

text \<open>
  C39: Reacting to the oldest message of the file divides by zero.  The check that the offset of the
  record does not overflow divides by its index, which is zero for the first record: where the cache
  does not have the message any more, the reaction ends the daemon.
\<close>

theorem oldest_reaction_faults:
  assumes "\<not> history_released (hist h)" "history_start_index (hist h) > 0" "state_path h" "state_file h = Some f"
    "sf_history_count f > 0" "sf_entries f = r # rs" "hs_is_user_message r \<noteq> 0" "hs_message_id r > 0"
    "hs_message_id r \<notin> message_id ` set (cache h)" "k < REACTION_KIND_COUNT"
  shows "host_history_apply_reaction env (hs_message_id r) k h = Inl DivisionByZero"
proof -
  have read: "message_id (host_state_read_history_entry r) = hs_message_id r"
    "is_user_message (host_state_read_history_entry r) \<longleftrightarrow> hs_is_user_message r \<noteq> 0"
    by (simp_all add: host_state_read_history_entry_def Let_def)
  define lim where "lim = (if history_start_index (hist h) > sf_history_count f then sf_history_count f else history_start_index (hist h))"
  obtain m where m: "lim = Suc m" using assms(2,5) by (cases lim) (auto simp: lim_def split: if_splits)
  have older: "older_entries h = host_state_read_history_entry r # map host_state_read_history_entry (take m rs)"
    using assms(2-4,6) m by (simp add: older_entries_def older_records_def lim_def [symmetric] Let_def)
  have "first_index (\<lambda>e. is_user_message e \<and> message_id e = hs_message_id r) (cache h) = None"
    using assms(9) by (simp add: first_index_None list_ex_iff) (metis image_eqI)
  moreover have "older_target (hs_message_id r) h = Some (0, host_state_read_history_entry r)"
    using assms(7) by (simp add: older_target_def older entry_matches_def read)
  ultimately show ?thesis using assms(1,8,10) by (simp add: host_history_apply_reaction_def Let_def)
qed

definition long_room :: msg_host where
  "long_room = map_hist (\<lambda>hh. hh\<lparr>history_total := 2, history_start_index := 1\<rparr>) (sample_room [msg1, msg2] [msg2])"

theorem oldest_reaction_faults_witness:
  "host_history_apply_reaction (sample_env 2000000 0) 1 0 long_room = Inl DivisionByZero"
proof -
  have written: "hs_message_id (host_state_write_history_entry msg1) = 1" "hs_is_user_message (host_state_write_history_entry msg1) = 1"
    by (simp_all add: host_state_write_history_entry_def)
  show ?thesis
    using oldest_reaction_faults [of long_room "\<lparr>sf_history_count = 2, sf_next_message_id = 3,
        sf_entries = [host_state_write_history_entry msg1, host_state_write_history_entry msg2]\<rparr>"
        "host_state_write_history_entry msg1" "[host_state_write_history_entry msg2]" 0 "sample_env 2000000 0"] written
    by (simp add: long_room_def REACTION_KIND_COUNT_def)
qed


definition sample_session :: "cstr \<Rightarrow> cstr \<Rightarrow> msg_session" where
  "sample_session name ip = \<lparr>ms_display_name = name, ms_preferred_nickname = None, ms_user_name = name, ms_ui_language = 0,
     ms_client_ip = ip, ms_topology = [], ms_color_code = [], ms_highlight_code = [], ms_is_bold = False,
     ms_color_name = [], ms_highlight_name = [], ms_is_operator = False, ms_is_lan_operator = False\<rparr>"


text \<open>
  C40: After a restart nobody can delete their own messages.  The address and the topology of a sender are
  not stored, and the delete command asks for one of them: of what a start reads from the file, no message
  counts as anybody's own, so every attempt of its author is refused.
\<close>

theorem authors_locked_out:
  assumes "msg_inv n h" "n \<le> HISTORY_CACHE_LIMIT" "state_path h" "state_file h = Some f" "env_rest_ok env"
    "env_alloc env = (\<lambda>_. True)" "env_now env = Some now" "\<not> ms_is_operator s" "\<not> ms_is_lan_operator s"
  shows "\<exists>l. session_handle_delete_message th env' usage s args (boot th env h) = ([MsgLine l], boot th env h)"
proof -
  have ok: "file_ok n f" using assms(1,4) by (simp add: msg_inv_def)
  have alloc: "env_alloc env m" for m using assms(6) by simp
  have inv: "msg_inv n (boot th env h)" by (rule boot_inv [OF assms(1,2,5)])
  have live: "\<not> history_released (hist (boot th env h))" "history_start_index (hist (boot th env h)) = 0"
    using inv by (simp_all add: msg_inv_defs)
  have cached: "set (cache (boot th env h)) \<subseteq> set (normalized th (map host_state_read_history_entry (sf_entries f)))"
    using boot_loads(1) [OF assms(3,4) ok assms(2,5) alloc assms(7), of th] by auto
  have notown: "\<not> owned_by s e" if "fst (host_history_find_entry_by_id env' i (boot th env h)) = Some e" for i e
  proof (rule restored_not_owned)
    have "e \<in> set (cache (boot th env h))"
      using that find_small [OF live, of env' i] by (auto simp: find_Some_iff split: if_splits)
    then show "e \<in> set (normalized th (map host_state_read_history_entry (sf_entries f)))" using cached by blast
  qed
  show ?thesis
    using delete_command_cases [OF live(1) assms(8,9), of th env' usage args] notown by metis
qed

theorem authors_locked_out_witness:
  "\<exists>l. session_handle_delete_message sample_theme (sample_env 2000000 0) [] (sample_session ''bob'' ''10.0.0.1'') (Some ''1'')
     (boot sample_theme (sample_env 2000000 0) (sample_room [msg1, msg2] [msg1, msg2])) =
     ([MsgLine l], boot sample_theme (sample_env 2000000 0) (sample_room [msg1, msg2] [msg1, msg2]))"
  by (rule authors_locked_out [OF sample_room_ok(1) sample_limit(1)])
    (simp_all add: sample_session_def, simp add: sample_env_def)

end
