(* ===== verification/Ddial_Protocol.thy ===== *)
theory Ddial_Protocol
  imports Interfaces
begin

text \<open>
  The line protocol of the ddial relay (\<^verbatim>\<open>src/host/ddial/protocol.c\<close>): cleaning of handles
  and bodies, the formatters of outgoing lines, the parsers of incoming ones, the
  filters of escape sequences and telnet commands.

  Texts are read up to their terminator or length and are never null here.  A formatter
  returns whether the line fitted its buffer, and what the buffer holds.  A parser
  returns the fields it fills and the rest of the line, or \<open>None\<close>.
\<close>

section \<open>Constants and data\<close>

definition DDIAL_MIN_CHANNEL :: nat where
  "DDIAL_MIN_CHANNEL = 1"

definition DDIAL_MAX_CHANNEL :: nat where
  "DDIAL_MAX_CHANNEL = 4"

definition DDIAL_DEFAULT_CHANNEL :: nat where
  "DDIAL_DEFAULT_CHANNEL = 1"

definition DDIAL_MAX_HANDLE_LEN :: nat where
  "DDIAL_MAX_HANDLE_LEN = 32"

definition DDIAL_MAX_HANDLE_WIRE_LEN :: nat where
  "DDIAL_MAX_HANDLE_WIRE_LEN = 25"

definition DDIAL_MAX_MESSAGE_LEN :: nat where
  "DDIAL_MAX_MESSAGE_LEN = 512"

definition DDIAL_MAX_BODY_LEN :: nat where
  "DDIAL_MAX_BODY_LEN = 255"

lemmas ddial_consts = DDIAL_MIN_CHANNEL_def DDIAL_MAX_CHANNEL_def DDIAL_DEFAULT_CHANNEL_def
  DDIAL_MAX_HANDLE_LEN_def DDIAL_MAX_HANDLE_WIRE_LEN_def DDIAL_MAX_MESSAGE_LEN_def
  DDIAL_MAX_BODY_LEN_def

datatype ddial_command =
    DDIAL_CMD_UNKNOWN | DDIAL_CMD_CHAT | DDIAL_CMD_PRIVATE | DDIAL_CMD_JOIN | DDIAL_CMD_WHO
  | DDIAL_CMD_MAIL | DDIAL_CMD_QUIT | DDIAL_CMD_HELP | DDIAL_CMD_TIME | DDIAL_CMD_USERS
  | DDIAL_CMD_STATS | DDIAL_CMD_NEWS | DDIAL_CMD_INFO | DDIAL_CMD_VERSION | DDIAL_CMD_BELL
  | DDIAL_CMD_DUPLEX | DDIAL_CMD_KICK | DDIAL_CMD_LINK

datatype ddial_user_tier = DDIAL_TIER_GUEST | DDIAL_TIER_PASSWORD | DDIAL_TIER_MASTER

datatype ddial_link_msg =
    DDIAL_LINK_MSG_UNKNOWN | DDIAL_LINK_MSG_MEMBER_EVENT | DDIAL_LINK_MSG_GUEST_EVENT
  | DDIAL_LINK_MSG_STATION_BROADCAST

record ddial_parsed_message =
  pm_command :: ddial_command
  pm_handle :: cstr
  pm_body :: cstr
  pm_channel :: nat

definition ddial_tier_symbol :: "ddial_user_tier \<Rightarrow> cstr" where
  "ddial_tier_symbol tier =
     (case tier of DDIAL_TIER_PASSWORD \<Rightarrow> ''*'' | DDIAL_TIER_MASTER \<Rightarrow> ''$'' | DDIAL_TIER_GUEST \<Rightarrow> [])"

definition ddial_tier_bracket_open :: "ddial_user_tier \<Rightarrow> cstr" where
  "ddial_tier_bracket_open tier =
     (case tier of DDIAL_TIER_PASSWORD \<Rightarrow> ''['' | DDIAL_TIER_MASTER \<Rightarrow> ''<'' | DDIAL_TIER_GUEST \<Rightarrow> ''('')"

definition ddial_tier_bracket_close :: "ddial_user_tier \<Rightarrow> cstr" where
  "ddial_tier_bracket_close tier =
     (case tier of DDIAL_TIER_PASSWORD \<Rightarrow> '']'' | DDIAL_TIER_MASTER \<Rightarrow> ''>'' | DDIAL_TIER_GUEST \<Rightarrow> '')'')"

section \<open>Filters\<close>

text \<open>The loop of \<open>ddial_strip_ansi\<close>; \<open>room\<close> is how many bytes still fit.\<close>

definition csi_final :: "char \<Rightarrow> bool" where
  "csi_final c \<longleftrightarrow> 0x40 \<le> code c \<and> code c \<le> 0x7E"

function strip_loop :: "nat \<Rightarrow> cstr \<Rightarrow> cstr" where
  "strip_loop room s =
     (if room = 0 then []
      else case s of
        [] \<Rightarrow> []
      | c # t \<Rightarrow>
          if c = CHR 0x1B then
            (case t of
               [] \<Rightarrow> []
             | d # u \<Rightarrow>
                 if d = CHR ''['' then strip_loop room (drop 1 (dropWhile (\<lambda>p. \<not> csi_final p) u))
                 else strip_loop room u)
          else if code c = 7 \<or> code c = 8 then strip_loop room t
          else c # strip_loop (room - 1) t)"
  by pat_completeness auto
termination
  by (relation "measure (\<lambda>(room, s). length s)")
    (auto intro: le_less_trans [OF diff_le_self le_less_trans [OF length_dropWhile_le]])

declare strip_loop.simps [simp del]

definition ddial_strip_ansi :: "nat \<Rightarrow> cstr \<Rightarrow> cstr" where
  "ddial_strip_ansi cap src = (if cap = 0 then [] else strip_loop (cap - 1) src)"

definition handle_forbidden :: "char \<Rightarrow> bool" where
  "handle_forbidden c \<longleftrightarrow>
     c = CHR ''^'' \<or> c = CHR '')'' \<or> c = CHR ''}'' \<or> c = CHR '']'' \<or> c = CHR ''>'' \<or>
     c = CHR 0x0D \<or> c = CHR 0x0A"

fun sanitize_loop :: "nat \<Rightarrow> nat \<Rightarrow> cstr \<Rightarrow> cstr" where
  "sanitize_loop cap j [] = []"
| "sanitize_loop cap j (c # s) =
     (if j + 1 < cap \<and> j < DDIAL_MAX_HANDLE_WIRE_LEN
      then if handle_forbidden c then sanitize_loop cap j s else c # sanitize_loop cap (j + 1) s
      else [])"

definition ddial_sanitize_handle :: "nat \<Rightarrow> cstr \<Rightarrow> cstr" where
  "ddial_sanitize_handle cap src =
     (if cap = 0 then [] else sanitize_loop cap 0 (ddial_strip_ansi DDIAL_MAX_HANDLE_LEN src))"

fun body_loop :: "nat \<Rightarrow> nat \<Rightarrow> cstr \<Rightarrow> cstr" where
  "body_loop cap j [] = []"
| "body_loop cap j (c # s) =
     (if j + 1 < cap \<and> j < DDIAL_MAX_BODY_LEN
      then if c = CHR 0x0D \<or> c = CHR 0x0A then [] else c # body_loop cap (j + 1) s
      else [])"

definition ddial_clean_body :: "nat \<Rightarrow> cstr \<Rightarrow> cstr" where
  "ddial_clean_body cap message = (if cap = 0 then [] else body_loop cap 0 message)"

fun carets_loop :: "nat \<Rightarrow> nat \<Rightarrow> cstr \<Rightarrow> cstr" where
  "carets_loop cap j [] = []"
| "carets_loop cap j (c # s) =
     (if j + 1 < cap then (if c = CHR ''^'' then CHR 0x0A else c) # carets_loop cap (j + 1) s else [])"

definition ddial_expand_carets :: "nat \<Rightarrow> cstr \<Rightarrow> cstr" where
  "ddial_expand_carets cap src = (if cap = 0 then [] else carets_loop cap 0 src)"

text \<open>What follows the end marker of a telnet subnegotiation.\<close>

fun skip_subneg :: "cstr \<Rightarrow> cstr" where
  "skip_subneg [] = []"
| "skip_subneg [c] = []"
| "skip_subneg (c # d # s) = (if c = CHR 0xFF \<and> d = CHR 0xF0 then s else skip_subneg (d # s))"

lemma length_skip_subneg: "length (skip_subneg s) \<le> length s"
  by (induction s rule: skip_subneg.induct) auto

text \<open>The loop of \<open>ddial_filter_telnet_iac\<close>: \<open>j\<close> bytes are written.\<close>

function iac_loop :: "nat \<Rightarrow> nat \<Rightarrow> cstr \<Rightarrow> cstr" where
  "iac_loop cap j s =
     (if j < cap then
        (case s of
           [] \<Rightarrow> []
         | c # t \<Rightarrow>
             if c \<noteq> CHR 0xFF then
               if j + 1 < cap then c # iac_loop cap (j + 1) t else iac_loop cap j t
             else (case t of
                     [] \<Rightarrow> []
                   | cmd # u \<Rightarrow>
                       if cmd = CHR 0xFF then CHR 0xFF # iac_loop cap (j + 1) u
                       else if cmd = CHR 0xFA then iac_loop cap j (skip_subneg u)
                       else if 0xF0 \<le> code cmd \<and> code cmd \<le> 0xF9 then iac_loop cap j u
                       else if 0xFB \<le> code cmd \<and> code cmd \<le> 0xFE \<and> u \<noteq> []
                       then iac_loop cap j (tl u)
                       else iac_loop cap j u))
      else [])"
  by pat_completeness auto
termination
  by (relation "measure (\<lambda>(cap, j, s). length s)")
    (auto intro: le_less_trans [OF length_skip_subneg])

declare iac_loop.simps [simp del]

definition ddial_filter_telnet_iac :: "nat \<Rightarrow> cstr \<Rightarrow> cstr" where
  "ddial_filter_telnet_iac cap src = iac_loop cap 0 src"

function slot_digits_ok :: "nat \<Rightarrow> bool" where
  "slot_digits_ok n =
     (if n > 0 then if n mod 10 = 8 \<or> n mod 10 = 9 then False else slot_digits_ok (n div 10)
      else True)"
  by pat_completeness auto
termination
  by (relation "measure id") auto

declare slot_digits_ok.simps [simp del]

definition ddial_slot_is_valid :: "nat \<Rightarrow> bool" where
  "ddial_slot_is_valid slot = slot_digits_ok slot"

section \<open>Commands of a session\<close>

definition body_buffer :: "cstr \<Rightarrow> cstr" where
  "body_buffer s = take (DDIAL_MAX_MESSAGE_LEN - 1) s"

definition parsed_empty :: ddial_parsed_message where
  "parsed_empty = \<lparr>pm_command = DDIAL_CMD_UNKNOWN, pm_handle = [], pm_body = [],
     pm_channel = DDIAL_DEFAULT_CHANNEL\<rparr>"

text \<open>The commands that take no argument.\<close>

definition simple_command :: "char \<Rightarrow> ddial_command option" where
  "simple_command c =
     (if c = CHR ''W'' then Some DDIAL_CMD_WHO else if c = CHR ''E'' then Some DDIAL_CMD_MAIL
      else if c = CHR ''Q'' then Some DDIAL_CMD_QUIT
      else if c = CHR ''H'' \<or> c = CHR ''?'' then Some DDIAL_CMD_HELP
      else if c = CHR ''T'' then Some DDIAL_CMD_TIME else if c = CHR ''U'' then Some DDIAL_CMD_USERS
      else if c = CHR ''S'' then Some DDIAL_CMD_STATS else if c = CHR ''N'' then Some DDIAL_CMD_NEWS
      else if c = CHR ''I'' then Some DDIAL_CMD_INFO else if c = CHR ''V'' then Some DDIAL_CMD_VERSION
      else if c = CHR ''B'' then Some DDIAL_CMD_BELL else if c = CHR ''D'' then Some DDIAL_CMD_DUPLEX
      else None)"

text \<open>The arguments of a private message: a name, then the text.\<close>

definition private_arguments :: "cstr \<Rightarrow> ddial_parsed_message \<Rightarrow> ddial_parsed_message" where
  "private_arguments args msg =
     (let a = dropWhile c_isspace args;
          name = takeWhile (\<lambda>c. \<not> c_isspace c) a;
          body = dropWhile c_isspace (dropWhile (\<lambda>c. \<not> c_isspace c) a)
      in msg\<lparr>pm_handle := (if length name < DDIAL_MAX_HANDLE_LEN then name else []),
             pm_body := body_buffer body\<rparr>)"

definition ddial_parse_command :: "cstr \<Rightarrow> ddial_command \<times> ddial_parsed_message" where
  "ddial_parse_command line =
     (case dropWhile c_isspace line of
        [] \<Rightarrow> (DDIAL_CMD_UNKNOWN, parsed_empty)
      | c # rest \<Rightarrow>
          if c \<noteq> CHR ''/'' then
            (DDIAL_CMD_CHAT, parsed_empty\<lparr>pm_command := DDIAL_CMD_CHAT, pm_body := body_buffer (c # rest)\<rparr>)
          else case rest of
            [] \<Rightarrow> (DDIAL_CMD_UNKNOWN, parsed_empty)
          | k # after \<Rightarrow>
              let cmd_char = c_toupper k;
                  args = dropWhile c_isspace after
              in case simple_command cmd_char of
                   Some cmd \<Rightarrow> (cmd, parsed_empty\<lparr>pm_command := cmd\<rparr>)
                 | None \<Rightarrow>
                     if cmd_char = CHR ''K'' then
                       (DDIAL_CMD_KICK, parsed_empty\<lparr>pm_command := DDIAL_CMD_KICK, pm_body := body_buffer args\<rparr>)
                     else if cmd_char = CHR ''C'' then
                       (DDIAL_CMD_CHAT, parsed_empty\<lparr>pm_command := DDIAL_CMD_CHAT, pm_body := body_buffer args\<rparr>)
                     else if cmd_char = CHR ''P'' then
                       (DDIAL_CMD_PRIVATE,
                        if args \<noteq> [] then private_arguments args (parsed_empty\<lparr>pm_command := DDIAL_CMD_PRIVATE\<rparr>)
                        else parsed_empty\<lparr>pm_command := DDIAL_CMD_PRIVATE\<rparr>)
                     else if cmd_char = CHR ''J'' then
                       (DDIAL_CMD_JOIN,
                        parsed_empty\<lparr>pm_command := DDIAL_CMD_JOIN,
                          pm_channel :=
                            (if args \<noteq> [] \<and> int (code (hd args)) - 48 \<ge> int DDIAL_MIN_CHANNEL \<and>
                                int (code (hd args)) - 48 \<le> int DDIAL_MAX_CHANNEL
                             then code (hd args) - 48 else DDIAL_DEFAULT_CHANNEL)\<rparr>)
                     else (DDIAL_CMD_UNKNOWN, parsed_empty))"

section \<open>Formatters\<close>

text \<open>What \<open>snprintf\<close> returns and leaves for a line.\<close>

definition fmt_out :: "nat \<Rightarrow> cstr \<Rightarrow> bool \<times> cstr" where
  "fmt_out cap s = (if cap = 0 then (False, []) else (snprintf_fits cap s, snprintf_into cap s))"

definition clamp_channel :: "nat \<Rightarrow> nat" where
  "clamp_channel channel =
     (let c = (if channel < DDIAL_MIN_CHANNEL then DDIAL_DEFAULT_CHANNEL else channel)
      in if c > DDIAL_MAX_CHANNEL then DDIAL_MAX_CHANNEL else c)"

abbreviation (input) clean_handle :: "cstr \<Rightarrow> cstr" where
  "clean_handle h \<equiv> ddial_sanitize_handle DDIAL_MAX_HANDLE_LEN h"

abbreviation (input) clean_body :: "cstr \<Rightarrow> cstr" where
  "clean_body m \<equiv> ddial_clean_body (DDIAL_MAX_BODY_LEN + 1) m"

definition CRLF :: cstr where
  "CRLF = [CHR 0x0D, CHR 0x0A]"

definition ddial_format_chat ::
  "nat \<Rightarrow> nat \<Rightarrow> nat \<Rightarrow> ddial_user_tier \<Rightarrow> cstr \<Rightarrow> cstr \<Rightarrow> bool \<times> cstr" where
  "ddial_format_chat cap slot channel tier handle message =
     fmt_out cap (''#'' @ dec_str slot @ ddial_tier_bracket_open tier @ ''T'' @
       dec_str (clamp_channel channel) @ '':'' @ clean_handle handle @ ddial_tier_symbol tier @
       ddial_tier_bracket_close tier @ '' '' @ clean_body message @ CRLF)"

definition ddial_format_private :: "nat \<Rightarrow> nat \<Rightarrow> cstr \<Rightarrow> cstr \<Rightarrow> bool \<times> cstr" where
  "ddial_format_private cap from_slot from_handle message =
     fmt_out cap (''IM from #'' @ dec_str from_slot @ ''['' @ clean_handle from_handle @ '']: '' @
       clean_body message @ CRLF)"

definition ddial_format_who_entry ::
  "nat \<Rightarrow> nat \<Rightarrow> nat \<Rightarrow> ddial_user_tier \<Rightarrow> cstr \<Rightarrow> nat \<Rightarrow> bool \<times> cstr" where
  "ddial_format_who_entry cap slot channel tier handle account =
     fmt_out cap (''#'' @ dec_str slot @ ddial_tier_bracket_open tier @ ''T'' @ dec_str channel @ '':'' @
       clean_handle handle @ ddial_tier_symbol tier @ ddial_tier_bracket_close tier @ '' #'' @
       pad0 3 (dec_str account) @ CRLF)"

text \<open>The identity that link lines carry, and the line formats built from it.\<close>

definition link_identity :: "nat \<Rightarrow> nat \<Rightarrow> ddial_user_tier \<Rightarrow> cstr \<Rightarrow> cstr" where
  "link_identity slot channel tier handle =
     ''#'' @ dec_str slot @ ddial_tier_bracket_open tier @ ''T'' @ dec_str (clamp_channel channel) @
     '':'' @ clean_handle handle @ '')''"

definition ddial_format_link_chat ::
  "nat \<Rightarrow> nat \<Rightarrow> nat \<Rightarrow> ddial_user_tier \<Rightarrow> cstr \<Rightarrow> cstr \<Rightarrow> bool \<times> cstr" where
  "ddial_format_link_chat cap slot channel tier handle message =
     fmt_out cap (link_identity slot channel tier handle @ '' '' @ clean_body message @ CRLF)"

definition ddial_format_link_dual_chat ::
  "nat \<Rightarrow> nat \<Rightarrow> nat \<Rightarrow> ddial_user_tier \<Rightarrow> cstr \<Rightarrow> cstr \<Rightarrow> bool \<times> cstr" where
  "ddial_format_link_dual_chat cap slot channel tier handle message =
     fmt_out cap (''~'' @ link_identity slot channel tier handle @ '' '' @ clean_body message @ CRLF)"

definition ddial_format_broadcast_header :: "nat \<Rightarrow> cstr \<Rightarrow> bool \<Rightarrow> bool \<times> cstr" where
  "ddial_format_broadcast_header cap station_name station_locked =
     (if cap = 0 \<or> station_name = [] then (False, [])
      else if clean_handle station_name = [] then (False, [])
      else fmt_out cap (''}}}-'' @ (if station_locked then '','' else ''.'') @ clean_handle station_name))"

definition ddial_format_broadcast_entry ::
  "nat \<Rightarrow> nat \<Rightarrow> nat \<Rightarrow> ddial_user_tier \<Rightarrow> cstr \<Rightarrow> nat \<Rightarrow> bool \<Rightarrow> bool \<times> cstr" where
  "ddial_format_broadcast_entry cap slot channel tier handle account is_link =
     fmt_out cap (''^#'' @ dec_str slot @ ddial_tier_bracket_open tier @ ''T'' @
       dec_str (clamp_channel channel) @
       (if is_link then ''='' @ clean_handle handle @ '':'' @ dec_str account
        else if tier = DDIAL_TIER_GUEST then '':'' @ clean_handle handle
        else '':'' @ clean_handle handle @ '':'' @ dec_str account))"

definition ddial_format_link_private ::
  "nat \<Rightarrow> nat \<Rightarrow> nat \<Rightarrow> nat \<Rightarrow> ddial_user_tier \<Rightarrow> cstr \<Rightarrow> cstr \<Rightarrow> bool \<times> cstr" where
  "ddial_format_link_private cap target_slot our_slot channel our_tier our_handle message =
     fmt_out cap (''/P'' @ dec_str target_slot @ '' '' @ link_identity our_slot channel our_tier our_handle @
       '' '' @ clean_body message @ CRLF)"

definition ddial_format_link_email :: "nat \<Rightarrow> nat \<Rightarrow> nat \<Rightarrow> cstr \<Rightarrow> cstr \<Rightarrow> bool \<times> cstr" where
  "ddial_format_link_email cap to_station from_account from_handle message =
     fmt_out cap (''/E~'' @ pad0 3 (dec_str to_station) @ ''('' @ pad0 3 (dec_str from_account) @ '':'' @
       clean_handle from_handle @ '') '' @ clean_body message @ CRLF)"

definition ddial_format_link_event ::
  "nat \<Rightarrow> nat \<Rightarrow> nat \<Rightarrow> ddial_user_tier \<Rightarrow> cstr \<Rightarrow> nat \<Rightarrow> bool \<Rightarrow> bool \<Rightarrow> bool \<Rightarrow> bool \<times> cstr" where
  "ddial_format_link_event cap slot channel tier handle account is_link station_locked is_login =
     fmt_out cap ((if tier = DDIAL_TIER_GUEST then ''}}'' else ''}'') @ ''-->'' @
       (if station_locked then '','' else ''.'') @ '' '' @ (if is_login then ''+'' else ''-'') @
       ''^#'' @ dec_str slot @ ddial_tier_bracket_open tier @ ''T'' @ dec_str (clamp_channel channel) @
       (if is_link then ''='' @ clean_handle handle @ CRLF
        else if tier = DDIAL_TIER_GUEST then '':?'' @ CRLF
        else if account > 0 then '':'' @ clean_handle handle @ '':#'' @ dec_str account @ ''*'' @ CRLF
        else '':'' @ clean_handle handle @ CRLF))"

definition ddial_format_link_login ::
  "nat \<Rightarrow> nat \<Rightarrow> nat \<Rightarrow> ddial_user_tier \<Rightarrow> cstr \<Rightarrow> nat \<Rightarrow> bool \<Rightarrow> bool \<Rightarrow> bool \<times> cstr" where
  "ddial_format_link_login cap slot channel tier handle account is_link station_locked =
     ddial_format_link_event cap slot channel tier handle account is_link station_locked True"

definition ddial_format_link_logout ::
  "nat \<Rightarrow> nat \<Rightarrow> nat \<Rightarrow> ddial_user_tier \<Rightarrow> cstr \<Rightarrow> nat \<Rightarrow> bool \<Rightarrow> bool \<Rightarrow> bool \<times> cstr" where
  "ddial_format_link_logout cap slot channel tier handle account is_link station_locked =
     ddial_format_link_event cap slot channel tier handle account is_link station_locked False"

definition ddial_format_prompt :: "nat \<Rightarrow> bool \<times> cstr" where
  "ddial_format_prompt cap = fmt_out cap ''--> ''"

definition ddial_format_system :: "nat \<Rightarrow> cstr \<Rightarrow> bool \<times> cstr" where
  "ddial_format_system cap message = fmt_out cap (''** '' @ message @ '' **'' @ CRLF)"

section \<open>Parsers\<close>

definition ddial_parse_link_prefix :: "cstr \<Rightarrow> ddial_link_msg \<times> cstr" where
  "ddial_parse_link_prefix line =
     (if take 1 line \<noteq> ''}'' then (DDIAL_LINK_MSG_UNKNOWN, line)
      else if take 3 line = ''}}}'' then (DDIAL_LINK_MSG_STATION_BROADCAST, drop 3 line)
      else if take 2 line = ''}}'' then (DDIAL_LINK_MSG_GUEST_EVENT, drop 2 line)
      else (DDIAL_LINK_MSG_MEMBER_EVENT, drop 1 line))"

definition handle_closer :: "char \<Rightarrow> bool" where
  "handle_closer c \<longleftrightarrow> c = CHR '')'' \<or> c = CHR '']'' \<or> c = CHR ''>''"

definition strip_tier_marks :: "cstr \<Rightarrow> cstr" where
  "strip_tier_marks h = rev (dropWhile (\<lambda>c. c = CHR ''*'' \<or> c = CHR ''$'') (rev h))"

record ddial_identity =
  id_slot :: nat
  id_channel :: nat
  id_is_link :: bool
  id_handle :: cstr

definition ddial_parse_identity :: "nat \<Rightarrow> cstr \<Rightarrow> (ddial_identity \<times> cstr) option" where
  "ddial_parse_identity handle_cap line =
     (case line of
        hash # p \<Rightarrow>
          if hash \<noteq> CHR ''#'' \<or> p = [] \<or> \<not> c_isdigit (hd p) then None
          else
            let (slot, p) = strtoul_digits p
            in if slot > UINT16_MAX then None
               else (case p of
                  bo # t # d # p \<Rightarrow>
                    if bo \<noteq> CHR ''('' \<and> bo \<noteq> CHR ''['' \<and> bo \<noteq> CHR ''<'' then None
                    else if t \<noteq> CHR ''T'' \<or> \<not> c_isdigit d then None
                    else
                      let is_link = (p \<noteq> [] \<and> hd p = CHR ''='');
                          p = (if p \<noteq> [] \<and> (hd p = CHR '':'' \<or> hd p = CHR ''='') then tl p else p);
                          region = takeWhile (\<lambda>c. \<not> handle_closer c) p;
                          rest = dropWhile (\<lambda>c. \<not> handle_closer c) p;
                          handle = strip_tier_marks (takeWhile (\<lambda>c. c \<noteq> CHR '':'') region)
                      in if rest = [] then None
                         else Some (\<lparr>id_slot = slot, id_channel = digit_val d, id_is_link = is_link,
                                     id_handle = take (handle_cap - 1) handle\<rparr>, tl rest)
                | _ \<Rightarrow> None)
      | [] \<Rightarrow> None)"

definition skip_one_space :: "cstr \<Rightarrow> cstr" where
  "skip_one_space p = (if p \<noteq> [] \<and> hd p = CHR '' '' then tl p else p)"

record ddial_chat_line =
  cl_link_slot :: nat
  cl_identity :: ddial_identity
  cl_dual :: bool
  cl_message :: cstr

definition link_slot_prefix :: "cstr \<Rightarrow> nat \<times> cstr" where
  "link_slot_prefix p =
     (if p \<noteq> [] \<and> c_isdigit (hd p) then
        let (candidate, q) = strtoul_digits p
        in if q \<noteq> [] \<and> hd q = CHR ''#'' \<and> candidate > 0 \<and> candidate \<le> UINT16_MAX
           then (candidate, q) else (0, p)
      else (0, p))"

definition ddial_parse_incoming_chat :: "nat \<Rightarrow> cstr \<Rightarrow> ddial_chat_line option" where
  "ddial_parse_incoming_chat handle_cap line =
     (let dual = (line \<noteq> [] \<and> hd line = CHR ''~'');
          p = (if dual then tl line else line);
          (link_slot, p) = link_slot_prefix p
      in case ddial_parse_identity handle_cap p of
           None \<Rightarrow> None
         | Some (ident, p) \<Rightarrow>
             Some \<lparr>cl_link_slot = link_slot, cl_identity = ident, cl_dual = dual,
                   cl_message = skip_one_space p\<rparr>)"

definition ddial_parse_incoming_private ::
  "nat \<Rightarrow> cstr \<Rightarrow> (nat \<times> ddial_identity \<times> cstr) option" where
  "ddial_parse_incoming_private handle_cap line =
     (case line of
        s # k # p \<Rightarrow>
          if s \<noteq> CHR ''/'' \<or> (k \<noteq> CHR ''P'' \<and> k \<noteq> CHR ''p'') then None
          else if p = [] \<or> \<not> c_isdigit (hd p) then None
          else
            let (target, p) = strtoul_digits p
            in if target > UINT16_MAX then None
               else (case ddial_parse_identity handle_cap (dropWhile (\<lambda>c. c = CHR '' '') p) of
                       None \<Rightarrow> None
                     | Some (ident, p) \<Rightarrow> Some (target, ident, skip_one_space p))
      | _ \<Rightarrow> None)"

definition ddial_parse_incoming_email ::
  "nat \<Rightarrow> cstr \<Rightarrow> (nat \<times> nat \<times> nat \<times> cstr \<times> cstr) option" where
  "ddial_parse_incoming_email handle_cap line =
     (case line of
        s # k # w # p \<Rightarrow>
          if s \<noteq> CHR ''/'' \<or> (k \<noteq> CHR ''E'' \<and> k \<noteq> CHR ''e'') \<or> w \<noteq> CHR ''~'' then None
          else if length p < 6 \<or> \<not> list_all c_isdigit (take 6 p) then None
          else
            let from_station = digits_val (take 3 p);
                to_id = digits_val (take 3 (drop 3 p));
                p = drop 6 p
            in if p = [] \<or> hd p \<noteq> CHR ''('' then None
               else if tl p = [] \<or> \<not> c_isdigit (hd (tl p)) then None
               else
                 let (from_id, p) = strtoul_digits (tl p)
                 in if p = [] \<or> hd p \<noteq> CHR '':'' then None
                    else
                      let handle = takeWhile (\<lambda>c. c \<noteq> CHR '')'') (tl p);
                          rest = dropWhile (\<lambda>c. c \<noteq> CHR '')'') (tl p)
                      in if rest = [] then None
                         else Some (from_station, to_id, from_id mod 2 ^ 32,
                                    take (handle_cap - 1) handle, skip_one_space (tl rest))
      | _ \<Rightarrow> None)"

section \<open>The filters stay inside their buffers\<close>

lemma strip_loop_eqs:
  "strip_loop 0 s = []"
  "strip_loop room [] = []"
  "strip_loop (Suc room) [CHR 0x1B] = []"
  "strip_loop (Suc room) (CHR 0x1B # CHR ''['' # u) =
     strip_loop (Suc room) (drop 1 (dropWhile (\<lambda>p. \<not> csi_final p) u))"
  "d \<noteq> CHR ''['' \<Longrightarrow> strip_loop (Suc room) (CHR 0x1B # d # u) = strip_loop (Suc room) u"
  "code c = 7 \<or> code c = 8 \<Longrightarrow> c \<noteq> CHR 0x1B \<Longrightarrow> strip_loop (Suc room) (c # t) = strip_loop (Suc room) t"
  "\<not> (code c = 7 \<or> code c = 8) \<Longrightarrow> c \<noteq> CHR 0x1B \<Longrightarrow> strip_loop (Suc room) (c # t) = c # strip_loop room t"
  by (subst strip_loop.simps; simp)+

text \<open>What remains is a subsequence of the text without escapes, bells and backspaces.\<close>

definition plain_char :: "char \<Rightarrow> bool" where
  "plain_char c \<longleftrightarrow> c \<noteq> CHR 0x1B \<and> code c \<noteq> 7 \<and> code c \<noteq> 8"

lemma drop_dropWhile_sub:
  "length (drop 1 (dropWhile P u)) \<le> length u" "set (drop 1 (dropWhile P u)) \<subseteq> set u"
  using length_dropWhile_le [of P u] set_dropWhileD [of _ P u] in_set_dropD [of _ 1 "dropWhile P u"]
  by auto

lemma strip_loop_facts:
  "length (strip_loop room s) \<le> room \<and> length (strip_loop room s) \<le> length s \<and>
   set (strip_loop room s) \<subseteq> set s \<inter> {c. plain_char c}"
proof (induction "length s" arbitrary: s room rule: less_induct)
  case less
  show ?case
  proof (cases "room = 0 \<or> s = []")
    case False
    then obtain r c t where rs: "room = Suc r" "s = c # t" by (cases room; cases s) auto
    consider (csi) u where "c = CHR 0x1B" "t = CHR ''['' # u"
      | (esc) d u where "c = CHR 0x1B" "t = d # u" "d \<noteq> CHR ''[''"
      | (last) "c = CHR 0x1B" "t = []"
      | (ctl) "c \<noteq> CHR 0x1B" "code c = 7 \<or> code c = 8"
      | (keep) "c \<noteq> CHR 0x1B" "\<not> (code c = 7 \<or> code c = 8)"
      by (cases t) auto
    then show ?thesis
    proof cases
      case csi
      let ?u = "drop 1 (dropWhile (\<lambda>p. \<not> csi_final p) u)"
      note sub = drop_dropWhile_sub [of "\<lambda>p. \<not> csi_final p" u]
      from sub(1) have "length ?u < length s" using csi rs by simp
      from less [OF this, of room] sub show ?thesis
        unfolding rs csi strip_loop_eqs by (auto simp del: drop_Suc_Cons)
    next
      case esc
      with less [of u room] show ?thesis unfolding rs by (auto simp: strip_loop_eqs)
    next
      case last
      then show ?thesis by (simp add: rs strip_loop_eqs)
    next
      case ctl
      with less [of t room] show ?thesis unfolding rs by (auto simp: strip_loop_eqs)
    next
      case keep
      with less [of t r] show ?thesis unfolding rs by (auto simp: strip_loop_eqs plain_char_def)
    qed
  qed (auto simp: strip_loop_eqs)
qed

lemma sanitize_loop_eq:
  "sanitize_loop cap j s =
     take (min (cap - 1) DDIAL_MAX_HANDLE_WIRE_LEN - j) (filter (\<lambda>c. \<not> handle_forbidden c) s)"
proof (induction s arbitrary: j)
  case (Cons c s)
  show ?case
  proof (cases "j + 1 < cap \<and> j < DDIAL_MAX_HANDLE_WIRE_LEN")
    case True
    then have "min (cap - 1) DDIAL_MAX_HANDLE_WIRE_LEN - j
        = Suc (min (cap - 1) DDIAL_MAX_HANDLE_WIRE_LEN - (j + 1))" by auto
    with True Cons show ?thesis by simp
  qed (use Cons in auto)
qed simp

lemma body_loop_eq:
  "body_loop cap j s =
     take (min (cap - 1) DDIAL_MAX_BODY_LEN - j) (takeWhile (\<lambda>c. c \<noteq> CHR 0x0D \<and> c \<noteq> CHR 0x0A) s)"
proof (induction s arbitrary: j)
  case (Cons c s)
  show ?case
  proof (cases "j + 1 < cap \<and> j < DDIAL_MAX_BODY_LEN")
    case True
    then have "min (cap - 1) DDIAL_MAX_BODY_LEN - j
        = Suc (min (cap - 1) DDIAL_MAX_BODY_LEN - (j + 1))" by auto
    with True Cons show ?thesis by simp
  qed (use Cons in auto)
qed simp

lemma carets_loop_eq:
  "carets_loop cap j s = take (cap - 1 - j) (map (\<lambda>c. if c = CHR ''^'' then CHR 0x0A else c) s)"
proof (induction s arbitrary: j)
  case (Cons c s)
  show ?case
  proof (cases "j + 1 < cap")
    case True
    then have "cap - 1 - j = Suc (cap - 1 - (j + 1))" by auto
    with True Cons show ?thesis by simp
  qed simp
qed simp

lemma iac_loop_eqs:
  "j \<ge> cap \<Longrightarrow> iac_loop cap j s = []"
  "iac_loop cap j [] = []"
  "j < cap \<Longrightarrow> c \<noteq> CHR 0xFF \<Longrightarrow> iac_loop cap j (c # t) =
     (if j + 1 < cap then c # iac_loop cap (j + 1) t else iac_loop cap j t)"
  "j < cap \<Longrightarrow> iac_loop cap j [CHR 0xFF] = []"
  "j < cap \<Longrightarrow> iac_loop cap j (CHR 0xFF # cmd # u) =
     (if cmd = CHR 0xFF then CHR 0xFF # iac_loop cap (j + 1) u
      else if cmd = CHR 0xFA then iac_loop cap j (skip_subneg u)
      else if 0xF0 \<le> code cmd \<and> code cmd \<le> 0xF9 then iac_loop cap j u
      else if 0xFB \<le> code cmd \<and> code cmd \<le> 0xFE \<and> u \<noteq> [] then iac_loop cap j (tl u)
      else iac_loop cap j u)"
  by (subst iac_loop.simps; simp)+

lemma iac_loop_bound: "length (iac_loop cap j s) \<le> cap - j \<and> length (iac_loop cap j s) \<le> length s"
proof (induction "length s" arbitrary: s j rule: less_induct)
  case less
  show ?case
  proof (cases "cap \<le> j \<or> s = []")
    case False
    then obtain c t where s: "s = c # t" "j < cap" by (cases s) auto
    show ?thesis
    proof (cases "c = CHR 0xFF")
      case c: True
      show ?thesis
      proof (cases t)
        case t: (Cons cmd u)
        have "length (tl u) < length s" by (simp add: s t)
        note IH = less [of u j] less [of u "j + 1"] less [OF this, of j] less [of "skip_subneg u" j]
        show ?thesis
          using s IH length_skip_subneg [of u] unfolding s c t
          by (auto simp: iac_loop_eqs(5))
      qed (use s c in \<open>simp add: iac_loop_eqs\<close>)
    qed (use s less [of t j] less [of t "j + 1"] in \<open>auto simp: iac_loop_eqs\<close>)
  qed (auto simp: iac_loop_eqs)
qed

interpretation strip: terminated_filter ddial_strip_ansi
proof (unfold_locales, goal_cases)
  case (1 cap s)
  show ?case using strip_loop_facts [of "cap - 1" s] by (auto simp: ddial_strip_ansi_def)
next
  case (2 cap s)
  show ?case using strip_loop_facts [of "cap - 1" s] by (auto simp: ddial_strip_ansi_def)
next
  case (3 cap s)
  then show ?case using strip_loop_facts [of "cap - 1" s] by (auto simp: ddial_strip_ansi_def)
qed

lemma sanitize_handle_eq:
  "ddial_sanitize_handle cap src =
     take (min (cap - 1) DDIAL_MAX_HANDLE_WIRE_LEN)
       (filter (\<lambda>c. \<not> handle_forbidden c) (ddial_strip_ansi DDIAL_MAX_HANDLE_LEN src))"
  by (simp add: ddial_sanitize_handle_def sanitize_loop_eq)

lemma clean_body_eq:
  "ddial_clean_body cap m =
     take (min (cap - 1) DDIAL_MAX_BODY_LEN) (takeWhile (\<lambda>c. c \<noteq> CHR 0x0D \<and> c \<noteq> CHR 0x0A) m)"
  by (simp add: ddial_clean_body_def body_loop_eq)

interpretation sanitize: terminated_filter ddial_sanitize_handle
proof (unfold_locales, goal_cases)
  case (2 cap s)
  have "length (ddial_sanitize_handle cap s) \<le> length (ddial_strip_ansi DDIAL_MAX_HANDLE_LEN s)"
    by (auto simp: sanitize_handle_eq intro: le_trans [OF min.cobounded1])
  also have "\<dots> \<le> length s" by (rule strip.filt_shrinks)
  finally show ?case .
qed (auto simp: sanitize_handle_eq)

interpretation body: terminated_filter ddial_clean_body
proof (unfold_locales, goal_cases)
  case (2 cap s)
  show ?case using length_takeWhile_le [of "\<lambda>c. c \<noteq> CHR 0x0D \<and> c \<noteq> CHR 0x0A" s]
    by (simp add: clean_body_eq min_def)
qed (auto simp: clean_body_eq)

interpretation carets: terminated_filter ddial_expand_carets
  by unfold_locales (auto simp: ddial_expand_carets_def carets_loop_eq)

interpretation iac: bounded_filter ddial_filter_telnet_iac
  by unfold_locales (use iac_loop_bound [of _ 0] in \<open>simp_all add: ddial_filter_telnet_iac_def\<close>)

section \<open>Telnet commands\<close>

text \<open>The pieces of a telnet stream: data, the escaped byte 255, commands of two and
  three bytes, subnegotiations; how they are sent and what data they carry.\<close>

datatype telnet_item =
    Data char | Escaped | Command char | Negotiation char char | Subnegotiation cstr

fun no_end_marker :: "cstr \<Rightarrow> bool" where
  "no_end_marker [] = True"
| "no_end_marker [c] = True"
| "no_end_marker (c # d # s) = (\<not> (c = CHR 0xFF \<and> d = CHR 0xF0) \<and> no_end_marker (d # s))"

fun item_ok :: "telnet_item \<Rightarrow> bool" where
  "item_ok (Data c) = (c \<noteq> CHR 0xFF)"
| "item_ok Escaped = True"
| "item_ok (Command c) = (code c < 0xFA)"
| "item_ok (Negotiation c opt) = (0xFB \<le> code c \<and> code c \<le> 0xFE)"
| "item_ok (Subnegotiation p) = no_end_marker p"

fun item_bytes :: "telnet_item \<Rightarrow> cstr" where
  "item_bytes (Data c) = [c]"
| "item_bytes Escaped = [CHR 0xFF, CHR 0xFF]"
| "item_bytes (Command c) = [CHR 0xFF, c]"
| "item_bytes (Negotiation c opt) = [CHR 0xFF, c, opt]"
| "item_bytes (Subnegotiation p) = CHR 0xFF # CHR 0xFA # p @ [CHR 0xFF, CHR 0xF0]"

fun item_data :: "telnet_item \<Rightarrow> cstr" where
  "item_data (Data c) = [c]"
| "item_data Escaped = [CHR 0xFF]"
| "item_data _ = []"

lemma skip_subneg_end: "no_end_marker p \<Longrightarrow> skip_subneg (p @ CHR 0xFF # CHR 0xF0 # s) = s"
proof (induction p rule: no_end_marker.induct)
  case (2 c)
  then show ?case by (cases "c = CHR 0xFF") simp_all
qed auto

lemma iac_loop_item:
  assumes "item_ok i" "j + length (item_data i) < cap"
  shows "iac_loop cap j (item_bytes i @ s) = item_data i @ iac_loop cap (j + length (item_data i)) s"
proof (cases i)
  case (Command c)
  have "c \<noteq> CHR 0xFF" "c \<noteq> CHR 0xFA" using assms Command by auto
  with assms Command show ?thesis by (simp add: iac_loop_eqs(5))
next
  case (Negotiation c opt)
  have "c \<noteq> CHR 0xFF" "c \<noteq> CHR 0xFA" using assms Negotiation by auto
  with assms Negotiation show ?thesis by (simp add: iac_loop_eqs(5))
next
  case (Subnegotiation p)
  with assms show ?thesis by (simp add: iac_loop_eqs(5) skip_subneg_end)
qed (use assms in \<open>simp_all add: iac_loop_eqs(3,5)\<close>)

lemma iac_loop_items:
  "list_all item_ok is \<Longrightarrow> j + length (concat (map item_data is)) < cap \<Longrightarrow>
   iac_loop cap j (concat (map item_bytes is)) = concat (map item_data is)"
  by (induction "is" arbitrary: j) (simp_all add: iac_loop_item iac_loop_eqs add.assoc)

text \<open>
  The telnet filter delivers exactly the data.  From any sequence of data bytes,
  escaped bytes, commands, option negotiations and subnegotiations it leaves the data and
  the unescaped bytes in order, provided that the buffer is larger than the data.
\<close>

theorem telnet_filter_data:
  assumes "list_all item_ok items" "length (concat (map item_data items)) < cap"
  shows "ddial_filter_telnet_iac cap (concat (map item_bytes items)) = concat (map item_data items)"
  unfolding ddial_filter_telnet_iac_def by (rule iac_loop_items) (use assms in simp_all)

theorem telnet_filter_data_witness:
  "ddial_filter_telnet_iac 8
     (concat (map item_bytes [Data CHR ''h'', Negotiation CHR 0xFB CHR 0x01, Subnegotiation ''xterm'', Escaped]))
   = concat (map item_data [Data CHR ''h'', Negotiation CHR 0xFB CHR 0x01, Subnegotiation ''xterm'', Escaped])"
  by (rule telnet_filter_data) simp_all

lemma iac_loop_plain:
  "list_all (\<lambda>c. c \<noteq> CHR 0xFF) s \<Longrightarrow> j < cap \<Longrightarrow> iac_loop cap j s = take (cap - 1 - j) s"
proof (induction s arbitrary: j)
  case (Cons c s)
  show ?case
  proof (cases "j + 1 < cap")
    case True
    then have "cap - 1 - j = Suc (cap - 1 - (j + 1))" by simp
    with True Cons show ?thesis by (simp add: iac_loop_eqs(3))
  next
    case False
    with Cons show ?thesis by (simp add: iac_loop_eqs(3))
  qed
qed (simp add: iac_loop_eqs)

section \<open>Link lines round trip\<close>

text \<open>The name a receiver reads from a handle: up to a colon, without trailing marks.\<close>

definition wire_name :: "cstr \<Rightarrow> cstr" where
  "wire_name h = strip_tier_marks (takeWhile (\<lambda>c. c \<noteq> CHR '':'') h)"

lemma clean_handle_facts:
  "length (ddial_sanitize_handle DDIAL_MAX_HANDLE_LEN h) \<le> 25"
  "c \<in> set (ddial_sanitize_handle DDIAL_MAX_HANDLE_LEN h) \<Longrightarrow> \<not> handle_forbidden c \<and> plain_char c"
proof -
  show "length (ddial_sanitize_handle DDIAL_MAX_HANDLE_LEN h) \<le> 25"
    by (simp add: sanitize_handle_eq ddial_consts)
  assume "c \<in> set (ddial_sanitize_handle DDIAL_MAX_HANDLE_LEN h)"
  then have "\<not> handle_forbidden c" "c \<in> set (ddial_strip_ansi DDIAL_MAX_HANDLE_LEN h)"
    by (auto simp: sanitize_handle_eq dest: in_set_takeD)
  then show "\<not> handle_forbidden c \<and> plain_char c"
    using strip_loop_facts [of "DDIAL_MAX_HANDLE_LEN - 1" h] by (auto simp: ddial_strip_ansi_def split: if_splits)
qed

lemma clean_handle_closer:
  "c \<in> set (ddial_sanitize_handle DDIAL_MAX_HANDLE_LEN h) \<Longrightarrow> \<not> handle_closer c"
  using clean_handle_facts(2) [of c h] by (auto simp: handle_closer_def handle_forbidden_def)

lemma length_wire_name: "length (wire_name h) \<le> length h"
proof -
  have "length (strip_tier_marks k) \<le> length k" for k
    using length_dropWhile_le [of "\<lambda>c. c = CHR ''*'' \<or> c = CHR ''$''" "rev k"]
    by (simp add: strip_tier_marks_def)
  from this [of "takeWhile (\<lambda>c. c \<noteq> CHR '':'') h"] show ?thesis
    using length_takeWhile_le [of "\<lambda>c. c \<noteq> CHR '':''" h] by (simp add: wire_name_def)
qed

lemma clamp_channel_range: "1 \<le> clamp_channel ch" "clamp_channel ch \<le> 4"
  by (simp_all add: clamp_channel_def ddial_consts)

lemma dec_str_clamp: "dec_str (clamp_channel ch) = [digit_char (clamp_channel ch)]"
  using clamp_channel_range [of ch] by (simp add: dec_str.simps)

lemma strtoul_digits_slot:
  "slot \<le> UINT16_MAX \<Longrightarrow> t = [] \<or> \<not> c_isdigit (hd t) \<Longrightarrow> strtoul_digits (dec_str slot @ t) = (slot, t)"
  by (rule strtoul_digits_dec_str) (simp_all add: UINT16_MAX_def SIZE_MAX_def)

lemma bracket_open_cases:
  "\<exists>b. ddial_tier_bracket_open tier = [b] \<and> (b = CHR ''('' \<or> b = CHR ''['' \<or> b = CHR ''<'') \<and> \<not> c_isdigit b"
  by (cases tier) (simp_all add: ddial_tier_bracket_open_def c_isdigit_def)

lemma takeWhile_region:
  assumes "\<forall>c\<in>set h. \<not> handle_closer c"
  shows "takeWhile (\<lambda>c. \<not> handle_closer c) (h @ CHR '')'' # rest) = h"
    and "dropWhile (\<lambda>c. \<not> handle_closer c) (h @ CHR '')'' # rest) = CHR '')'' # rest"
  using assms by (simp_all add: takeWhile_append dropWhile_append handle_closer_def)

lemma parse_link_identity:
  assumes "slot \<le> UINT16_MAX" "25 < handle_cap"
  shows "ddial_parse_identity handle_cap (link_identity slot ch tier h @ rest) =
     Some (\<lparr>id_slot = slot, id_channel = clamp_channel ch, id_is_link = False,
            id_handle = wire_name (ddial_sanitize_handle DDIAL_MAX_HANDLE_LEN h)\<rparr>, rest)"
proof -
  let ?h = "ddial_sanitize_handle DDIAL_MAX_HANDLE_LEN h"
  obtain b where b: "ddial_tier_bracket_open tier = [b]"
      "b = CHR ''('' \<or> b = CHR ''['' \<or> b = CHR ''<''" "\<not> c_isdigit b"
    using bracket_open_cases by blast
  let ?t = "b # CHR ''T'' # digit_char (clamp_channel ch) # CHR '':'' # ?h @ CHR '')'' # rest"
  have line: "link_identity slot ch tier h @ rest = CHR ''#'' # dec_str slot @ ?t"
    by (simp add: link_identity_def b dec_str_clamp)
  have "length (wire_name ?h) \<le> handle_cap - 1"
    using length_wire_name [of ?h] clean_handle_facts(1) [of h] assms(2) by simp
  moreover have "\<forall>c\<in>set ?h. \<not> handle_closer c" using clean_handle_closer by blast
  moreover have "strtoul_digits (dec_str slot @ ?t) = (slot, ?t)"
    using b by (intro strtoul_digits_slot assms(1)) simp
  ultimately show ?thesis
    using b assms(1) clamp_channel_range [of ch]
    by (simp add: ddial_parse_identity_def line takeWhile_region wire_name_def hd_append hd_dec_str_digit
        Let_def handle_closer_def [of "CHR '')''"])
qed

lemma clean_body_facts:
  "length (ddial_clean_body (DDIAL_MAX_BODY_LEN + 1) m) \<le> 255"
  "c \<in> set (ddial_clean_body (DDIAL_MAX_BODY_LEN + 1) m) \<Longrightarrow> c \<noteq> CHR 0x0D \<and> c \<noteq> CHR 0x0A"
  by (auto simp: clean_body_eq ddial_consts dest!: in_set_takeD set_takeWhileD)

lemma length_link_identity:
  assumes "slot \<le> UINT16_MAX"
  shows "length (link_identity slot ch tier h) \<le> 36"
proof -
  have "length (dec_str slot) \<le> 5"
    using assms by (intro length_dec_str_le) (simp_all add: UINT16_MAX_def)
  moreover have "length (ddial_tier_bracket_open tier) = 1" using bracket_open_cases [of tier] by auto
  ultimately show ?thesis
    using clean_handle_facts(1) [of h] by (simp add: link_identity_def dec_str_clamp)
qed

lemma fmt_out_fits: "s \<noteq> [] \<Longrightarrow> length s < cap \<Longrightarrow> fmt_out cap s = (True, s)"
  by (simp add: fmt_out_def snprintf_fits_def)

lemma link_slot_none: "p = [] \<or> \<not> c_isdigit (hd p) \<Longrightarrow> link_slot_prefix p = (0, p)"
  by (auto simp: link_slot_prefix_def)

lemma link_identity_hash [simp]:
  "link_identity slot ch tier h \<noteq> []" "hd (link_identity slot ch tier h) = CHR ''#''"
  by (simp_all add: link_identity_def)

lemma skip_one_space_Cons [simp]: "skip_one_space (CHR '' '' # m) = m"
  by (simp add: skip_one_space_def)

text \<open>
  C23: Chat lines survive the link.  A public message formatted for a link, on the tuned or
  on the other channel, always fits a buffer of 304 bytes, and its receiver reads back the
  sender's line number, a valid channel, the name of the cleaned handle, the right
  channel mark and the whole cleaned body, whatever handle and body are.
\<close>

theorem ddial_link_chat_round_trip:
  assumes "slot \<le> UINT16_MAX" "304 \<le> cap" "25 < handle_cap"
  shows "\<exists>line. (if dual then ddial_format_link_dual_chat else ddial_format_link_chat)
       cap slot ch tier handle message = (True, line @ CRLF) \<and>
     ddial_parse_incoming_chat handle_cap line =
       Some \<lparr>cl_link_slot = 0,
             cl_identity = \<lparr>id_slot = slot, id_channel = clamp_channel ch, id_is_link = False,
               id_handle = wire_name (ddial_sanitize_handle DDIAL_MAX_HANDLE_LEN handle)\<rparr>,
             cl_dual = dual, cl_message = ddial_clean_body (DDIAL_MAX_BODY_LEN + 1) message\<rparr>"
proof -
  let ?body = "ddial_clean_body (DDIAL_MAX_BODY_LEN + 1) message"
  let ?rest = "link_identity slot ch tier handle @ '' '' @ ?body"
  let ?line = "(if dual then ''~'' else []) @ ?rest"
  have "length (?line @ CRLF) < cap"
    using length_link_identity [OF assms(1), of ch tier handle] clean_body_facts(1) [of message] assms(2)
    by (simp add: CRLF_def)
  then have "(if dual then ddial_format_link_dual_chat else ddial_format_link_chat)
      cap slot ch tier handle message = (True, ?line @ CRLF)"
    by (auto simp: ddial_format_link_chat_def ddial_format_link_dual_chat_def CRLF_def intro!: fmt_out_fits)
  moreover have "link_slot_prefix ?rest = (0, ?rest)"
    by (rule link_slot_none) (simp add: c_isdigit_def)
  moreover have "?rest \<noteq> [] \<and> hd ?rest \<noteq> CHR ''~''" by simp
  ultimately show ?thesis
    using parse_link_identity [OF assms(1,3), of ch tier handle "'' '' @ ?body"]
    by (intro exI [of _ ?line]) (auto simp: ddial_parse_incoming_chat_def Let_def)
qed

theorem ddial_link_chat_round_trip_witness:
  "\<exists>line. (if True then ddial_format_link_dual_chat else ddial_format_link_chat)
       512 7 9 DDIAL_TIER_MASTER ''Fred)dy*'' ''hello'' = (True, line @ CRLF) \<and>
     ddial_parse_incoming_chat 32 line =
       Some \<lparr>cl_link_slot = 0,
             cl_identity = \<lparr>id_slot = 7, id_channel = clamp_channel 9, id_is_link = False,
               id_handle = wire_name (ddial_sanitize_handle DDIAL_MAX_HANDLE_LEN ''Fred)dy*'')\<rparr>,
             cl_dual = True, cl_message = ddial_clean_body (DDIAL_MAX_BODY_LEN + 1) ''hello''\<rparr>"
  by (rule ddial_link_chat_round_trip) (simp_all add: UINT16_MAX_def)

text \<open>
  Private messages survive the link: the line fits a buffer of 312 bytes, and its
  receiver reads back the target's line number, the sender's identity and the whole
  cleaned body.
\<close>

theorem ddial_link_private_round_trip:
  assumes "target \<le> UINT16_MAX" "slot \<le> UINT16_MAX" "312 \<le> cap" "25 < handle_cap"
  shows "\<exists>line. ddial_format_link_private cap target slot ch tier handle message = (True, line @ CRLF) \<and>
     ddial_parse_incoming_private handle_cap line =
       Some (target, \<lparr>id_slot = slot, id_channel = clamp_channel ch, id_is_link = False,
               id_handle = wire_name (ddial_sanitize_handle DDIAL_MAX_HANDLE_LEN handle)\<rparr>,
             ddial_clean_body (DDIAL_MAX_BODY_LEN + 1) message)"
proof -
  let ?body = "ddial_clean_body (DDIAL_MAX_BODY_LEN + 1) message"
  let ?rest = "link_identity slot ch tier handle @ '' '' @ ?body"
  let ?line = "''/P'' @ dec_str target @ '' '' @ ?rest"
  have "length (dec_str target) \<le> 5"
    using assms(1) by (intro length_dec_str_le) (simp_all add: UINT16_MAX_def)
  then have "length (?line @ CRLF) < cap"
    using length_link_identity [OF assms(2), of ch tier handle] clean_body_facts(1) [of message] assms(3)
    by (simp add: CRLF_def)
  then have "ddial_format_link_private cap target slot ch tier handle message = (True, ?line @ CRLF)"
    by (auto simp: ddial_format_link_private_def CRLF_def intro!: fmt_out_fits)
  moreover have "strtoul_digits (dec_str target @ '' '' @ ?rest) = (target, '' '' @ ?rest)"
    by (rule strtoul_digits_slot [OF assms(1)]) (simp add: c_isdigit_def)
  moreover have "dropWhile (\<lambda>c. c = CHR '' '') ('' '' @ ?rest) = ?rest"
    by (cases "link_identity slot ch tier handle") (use link_identity_hash [of slot ch tier handle] in auto)
  ultimately show ?thesis
    using parse_link_identity [OF assms(2,4), of ch tier handle "'' '' @ ?body"] assms(1)
    by (intro exI [of _ ?line]) (simp add: ddial_parse_incoming_private_def hd_append hd_dec_str_digit)
qed

theorem ddial_link_private_round_trip_witness:
  "\<exists>line. ddial_format_link_private 512 12 7 1 DDIAL_TIER_GUEST ''Ann'' ''hi there'' = (True, line @ CRLF) \<and>
     ddial_parse_incoming_private 32 line =
       Some (12, \<lparr>id_slot = 7, id_channel = clamp_channel 1, id_is_link = False,
               id_handle = wire_name (ddial_sanitize_handle DDIAL_MAX_HANDLE_LEN ''Ann'')\<rparr>,
             ddial_clean_body (DDIAL_MAX_BODY_LEN + 1) ''hi there'')"
  by (rule ddial_link_private_round_trip) (simp_all add: UINT16_MAX_def)

section \<open>Lines that do not round trip\<close>

text \<open>
  No e-mail line that the formatter writes is recognised by the parser.  The parser
  expects six digits, station and account, before the bracket; the formatter writes the
  station alone, which has at most five.
\<close>

theorem ddial_email_never_parses:
  assumes "to_station \<le> UINT16_MAX"
    and "ddial_format_link_email cap to_station from_account handle message = (True, line)"
  shows "ddial_parse_incoming_email handle_cap line = None"
proof -
  let ?station = "pad0 3 (dec_str to_station)"
  have "length (dec_str to_station) \<le> 5"
    using assms(1) by (intro length_dec_str_le) (simp_all add: UINT16_MAX_def)
  then have short: "length ?station < 6" by (simp add: pad0_def)
  obtain rest where line: "line = ''/E~'' @ ?station @ CHR ''('' # rest"
    using assms(2) by (auto simp: ddial_format_link_email_def fmt_out_def snprintf_fits_def split: if_splits)
  have "CHR ''('' \<in> set (take 6 (?station @ CHR ''('' # rest))"
    using short by (auto simp: take_Cons' split: if_splits)
  then have "\<not> list_all c_isdigit (take 6 (?station @ CHR ''('' # rest))"
    by (auto simp: list_all_iff c_isdigit_def intro!: bexI [of _ "CHR ''(''"])
  then show ?thesis by (simp add: ddial_parse_incoming_email_def line)
qed

theorem ddial_email_never_parses_witness:
  "ddial_parse_incoming_email 32 (snd (ddial_format_link_email 512 1 2 ''User'' ''hello'')) = None"
  by (rule ddial_email_never_parses [of 1 512 2 "''User''" "''hello''"])
    (simp_all add: UINT16_MAX_def, code_simp)

text \<open>
  A chunk without telnet commands that fills its buffer loses its last byte: the filter
  is given a buffer as large as the chunk and keeps one byte free.
\<close>

theorem telnet_full_chunk_loses_byte:
  assumes "list_all (\<lambda>c. c \<noteq> CHR 0xFF) chunk" "chunk \<noteq> []"
  shows "ddial_filter_telnet_iac (length chunk) chunk = butlast chunk"
  using assms iac_loop_plain [of chunk 0 "length chunk"]
  by (simp add: ddial_filter_telnet_iac_def butlast_conv_take)

theorem telnet_full_chunk_loses_byte_witness:
  "ddial_filter_telnet_iac (length ''hello'') ''hello'' = butlast ''hello''"
  by (rule telnet_full_chunk_loses_byte) simp_all

end
