(* ===== verification/Ddial_Roster.thy ===== *)
theory Ddial_Roster
  imports Ddial_Protocol "HOL-Library.Word"
begin

unbundle bit_operations_syntax

text \<open>
  The roster of the users on the far side of the ddial link (\<^verbatim>\<open>src/host/ddial/roster.c\<close>): a
  hash table with open addressing, fed with the lines of the link.

  A bucket is empty, used or a tombstone; the entry a tombstone leaves behind is never read
  and is left out.  The loop that looks for a bucket to write to has no bound of its own and
  is a partial function: \<open>None\<close> stands for a loop that does not end.  The name of the own
  station, the entries of the history and the test whether a handle is local are arguments.
\<close>

section \<open>The table\<close>

record ddial_roster_entry =
  re_key :: cstr
  re_handle :: cstr
  re_station :: cstr
  re_link_slot :: nat
  re_slot :: nat

datatype roster_bucket = RosterEmpty | RosterUsed ddial_roster_entry | RosterTombstone

record ddial_roster =
  roster_buckets :: "roster_bucket list"
  roster_count :: nat

definition DDIAL_ROSTER_BUCKETS :: nat where "DDIAL_ROSTER_BUCKETS = 1024"
definition DDIAL_ROSTER_MAX :: nat where "DDIAL_ROSTER_MAX = 512"
definition DDIAL_ROSTER_HISTORY_SCAN :: nat where "DDIAL_ROSTER_HISTORY_SCAN = 2048"
definition DDIAL_ROSTER_KEY_LEN :: nat where "DDIAL_ROSTER_KEY_LEN = DDIAL_MAX_HANDLE_LEN + 16"

definition empty_roster :: ddial_roster where
  "empty_roster = \<lparr>roster_buckets = replicate DDIAL_ROSTER_BUCKETS RosterEmpty, roster_count = 0\<rparr>"

definition ddial_roster_make_key :: "cstr \<Rightarrow> nat \<Rightarrow> nat \<Rightarrow> cstr" where
  "ddial_roster_make_key handle link_slot slot =
     (if handle = ''?'' then snprintf_into DDIAL_ROSTER_KEY_LEN (''?#'' @ dec_str link_slot @ ''#'' @ dec_str slot)
      else take (DDIAL_ROSTER_KEY_LEN - 1) (map c_tolower handle))"

definition ddial_roster_hash :: "cstr \<Rightarrow> nat" where
  "ddial_roster_hash key =
     unat (foldl (\<lambda>h c. (h XOR of_nat (code c)) * 16777619) (2166136261 :: 32 word) key) AND (DDIAL_ROSTER_BUCKETS - 1)"

definition next_bucket :: "nat \<Rightarrow> nat" where
  "next_bucket idx = (idx + 1) AND (DDIAL_ROSTER_BUCKETS - 1)"

fun lookup_loop :: "nat \<Rightarrow> nat \<Rightarrow> cstr \<Rightarrow> roster_bucket list \<Rightarrow> nat option" where
  "lookup_loop 0 idx key t = None"
| "lookup_loop (Suc n) idx key t =
     (case t ! idx of
        RosterEmpty \<Rightarrow> None
      | RosterUsed e \<Rightarrow> if re_key e = key then Some idx else lookup_loop n (next_bucket idx) key t
      | RosterTombstone \<Rightarrow> lookup_loop n (next_bucket idx) key t)"

definition ddial_roster_lookup_locked :: "cstr \<Rightarrow> ddial_roster \<Rightarrow> nat option" where
  "ddial_roster_lookup_locked key r = lookup_loop DDIAL_ROSTER_BUCKETS (ddial_roster_hash key) key (roster_buckets r)"

partial_function (option) free_loop :: "nat \<Rightarrow> roster_bucket list \<Rightarrow> nat option" where
  "free_loop idx t = (case t ! idx of RosterUsed e \<Rightarrow> free_loop (next_bucket idx) t | _ \<Rightarrow> Some idx)"

definition fresh_entry :: "cstr \<Rightarrow> ddial_roster_entry" where
  "fresh_entry key = \<lparr>re_key = key, re_handle = [], re_station = [], re_link_slot = 0, re_slot = 0\<rparr>"

definition fill_entry :: "cstr \<Rightarrow> nat \<Rightarrow> nat \<Rightarrow> cstr option \<Rightarrow> ddial_roster_entry \<Rightarrow> ddial_roster_entry" where
  "fill_entry handle link_slot slot station e =
     e\<lparr>re_handle := snprintf_into DDIAL_MAX_HANDLE_LEN handle, re_link_slot := link_slot, re_slot := slot,
       re_station := (case station of None \<Rightarrow> re_station e | Some s \<Rightarrow> snprintf_into DDIAL_MAX_HANDLE_LEN s)\<rparr>"

definition bucket_entry :: "roster_bucket \<Rightarrow> ddial_roster_entry option" where
  "bucket_entry b = (case b of RosterUsed e \<Rightarrow> Some e | _ \<Rightarrow> None)"

definition ddial_roster_put_locked :: "cstr \<Rightarrow> nat \<Rightarrow> nat \<Rightarrow> cstr option \<Rightarrow> ddial_roster \<Rightarrow> ddial_roster option" where
  "ddial_roster_put_locked handle link_slot slot station r =
     (let key = ddial_roster_make_key handle link_slot slot;
          t = roster_buckets r;
          fill = fill_entry handle link_slot slot station
      in if key = [] then Some r
         else case ddial_roster_lookup_locked key r of
                Some idx \<Rightarrow>
                  (case t ! idx of
                     RosterUsed e \<Rightarrow> Some (r\<lparr>roster_buckets := t[idx := RosterUsed (fill e)]\<rparr>)
                   | _ \<Rightarrow> Some r)
              | None \<Rightarrow>
                  if roster_count r \<ge> DDIAL_ROSTER_MAX then Some r
                  else (case free_loop (ddial_roster_hash key) t of
                          None \<Rightarrow> None
                        | Some idx \<Rightarrow> Some (r\<lparr>roster_buckets := t[idx := RosterUsed (fill (fresh_entry key))],
                                               roster_count := roster_count r + 1\<rparr>)))"

definition ddial_roster_remove_at_locked :: "nat \<Rightarrow> ddial_roster \<Rightarrow> ddial_roster" where
  "ddial_roster_remove_at_locked idx r =
     r\<lparr>roster_buckets := (roster_buckets r)[idx := RosterTombstone], roster_count := roster_count r - 1\<rparr>"

definition ddial_roster_remove_locked :: "cstr \<Rightarrow> nat \<Rightarrow> nat \<Rightarrow> ddial_roster \<Rightarrow> ddial_roster" where
  "ddial_roster_remove_locked handle link_slot slot r =
     (case ddial_roster_lookup_locked (ddial_roster_make_key handle link_slot slot) r of
        Some idx \<Rightarrow> ddial_roster_remove_at_locked idx r
      | None \<Rightarrow> r)"

section \<open>Parsing\<close>

text \<open>Positions in a line are the text from there on.\<close>

definition ddial_roster_is_entry :: "cstr \<Rightarrow> bool" where
  "ddial_roster_is_entry p =
     (case p of
        c # q \<Rightarrow> c = CHR ''#'' \<and> q \<noteq> [] \<and> c_isdigit (hd q) \<and>
          (case dropWhile c_isdigit q of
             b # t # d # _ \<Rightarrow> b \<in> set ''([<'' \<and> t = CHR ''T'' \<and> c_isdigit d
           | _ \<Rightarrow> False)
      | [] \<Rightarrow> False)"

text \<open>The flag says that an entry may start here.\<close>

fun next_entry_loop :: "bool \<Rightarrow> cstr \<Rightarrow> cstr option" where
  "next_entry_loop start [] = None"
| "next_entry_loop start (c # q) =
     (if c = CHR ''#'' \<and> start \<and> ddial_roster_is_entry (c # q) then Some (c # q)
      else next_entry_loop (c = CHR '' '' \<or> c = CHR ''^'') q)"

definition ddial_roster_next_entry :: "cstr \<Rightarrow> cstr option" where
  "ddial_roster_next_entry p = next_entry_loop True p"

definition before :: "cstr \<Rightarrow> cstr option \<Rightarrow> cstr" where
  "before p limit = (case limit of None \<Rightarrow> p | Some l \<Rightarrow> take (length p - length l) p)"

definition drop_trailing :: "(char \<Rightarrow> bool) \<Rightarrow> cstr \<Rightarrow> cstr" where
  "drop_trailing P s = rev (dropWhile P (rev s))"

record roster_identity =
  ri_link :: nat
  ri_slot :: nat
  ri_is_link :: bool
  ri_handle :: cstr

definition roster_link_prefix :: "cstr \<Rightarrow> (nat \<times> cstr) option" where
  "roster_link_prefix p =
     (if p \<noteq> [] \<and> c_isdigit (hd p)
      then case strtoul_digits p of (v, rest) \<Rightarrow> if v > UINT16_MAX then None else Some (v, rest)
      else Some (0, p))"

definition ddial_roster_parse_identity :: "cstr \<Rightarrow> cstr option \<Rightarrow> nat \<Rightarrow> roster_identity option" where
  "ddial_roster_parse_identity p limit cap =
     (case roster_link_prefix p of
        None \<Rightarrow> None
      | Some (link_slot, p) \<Rightarrow>
          if \<not> ddial_roster_is_entry p then None
          else case strtoul_digits (tl p) of
                 (slot, rest) \<Rightarrow>
                   let p = dropWhile c_isdigit (drop 2 rest);
                       handle = drop_trailing (\<lambda>c. c = CHR '' '') (takeWhile (\<lambda>c. c \<notin> set ''^:*)]>'') (before (tl p) limit))
                   in if slot > UINT16_MAX then None
                      else if p = [] \<or> hd p \<noteq> CHR '':'' \<and> hd p \<noteq> CHR ''='' then None
                      else if handle = [] then None
                      else Some \<lparr>ri_link = link_slot, ri_slot = slot, ri_is_link = (hd p = CHR ''=''),
                                 ri_handle = take (cap - 1) handle\<rparr>)"

section \<open>Lines of the link\<close>

lemma next_entry_shorter: "next_entry_loop start p = Some q \<Longrightarrow> length q \<le> length p \<and> q \<noteq> []"
proof (induction start p rule: next_entry_loop.induct)
  case (2 start c q')
  then show ?case by (auto split: if_splits)
qed simp

lemma following_shorter:
  "(case ddial_roster_next_entry (tl q) of None \<Rightarrow> 0 | Some n \<Rightarrow> Suc (length n)) < Suc (length q)"
  by (cases q) (auto simp: ddial_roster_next_entry_def split: option.split dest!: next_entry_shorter)

text \<open>The entries of a list from the first one on: their users are put into the roster and
  their keys collected.\<close>

function station_loop :: "nat \<Rightarrow> cstr \<Rightarrow> cstr option \<Rightarrow> cstr list \<Rightarrow> ddial_roster \<Rightarrow> (cstr list \<times> ddial_roster) option" where
  "station_loop link_slot station None listed r = Some (listed, r)"
| "station_loop link_slot station (Some q) listed r =
     (let following = ddial_roster_next_entry (tl q);
          parsed = (if length listed < DDIAL_ROSTER_MAX then ddial_roster_parse_identity q following DDIAL_MAX_HANDLE_LEN
                    else None)
      in case parsed of
           None \<Rightarrow> station_loop link_slot station following listed r
         | Some ident \<Rightarrow>
             if ri_is_link ident then station_loop link_slot station following listed r
             else (case ddial_roster_put_locked (ri_handle ident) link_slot (ri_slot ident) (Some station) r of
                     None \<Rightarrow> None
                   | Some r \<Rightarrow> station_loop link_slot station following
                       (listed @ [ddial_roster_make_key (ri_handle ident) link_slot (ri_slot ident)]) r))"
  by pat_completeness auto
termination
  by (relation "measure (\<lambda>(link_slot, station, q, listed, r). case q of None \<Rightarrow> 0 | Some q \<Rightarrow> Suc (length q))")
    (simp_all add: following_shorter)

declare station_loop.simps [simp del]

definition sweep_bucket :: "cstr \<Rightarrow> cstr list \<Rightarrow> nat \<Rightarrow> ddial_roster \<Rightarrow> ddial_roster" where
  "sweep_bucket station listed i r =
     (case roster_buckets r ! i of
        RosterUsed e \<Rightarrow>
          if strcasecmp_eq (re_station e) station \<and> re_key e \<notin> set listed then ddial_roster_remove_at_locked i r else r
      | _ \<Rightarrow> r)"

definition station_sweep :: "cstr \<Rightarrow> cstr list \<Rightarrow> ddial_roster \<Rightarrow> ddial_roster" where
  "station_sweep station listed r = fold (sweep_bucket station listed) [0..<DDIAL_ROSTER_BUCKETS] r"

definition station_head :: "cstr \<Rightarrow> (nat \<times> cstr \<times> cstr option) option" where
  "station_head p =
     (case roster_link_prefix p of
        None \<Rightarrow> None
      | Some (link_slot, p) \<Rightarrow>
          (case p of
             d # f # p \<Rightarrow>
               if d \<noteq> CHR ''-'' \<or> f \<noteq> CHR ''.'' \<and> f \<noteq> CHR '','' then None
               else let first = ddial_roster_next_entry p;
                        name = drop_trailing (\<lambda>c. c = CHR '' '' \<or> c = CHR ''^'') (before p first)
                    in if name = [] then None else Some (link_slot, take (DDIAL_MAX_HANDLE_LEN - 1) name, first)
           | _ \<Rightarrow> None))"

definition ddial_roster_note_station_list_locked :: "cstr option \<Rightarrow> cstr \<Rightarrow> ddial_roster \<Rightarrow> ddial_roster option" where
  "ddial_roster_note_station_list_locked own p r =
     (case station_head p of
        None \<Rightarrow> Some r
      | Some (link_slot, station, first) \<Rightarrow>
          if (case own of None \<Rightarrow> False | Some s \<Rightarrow> strcasecmp_eq s station) then Some r
          else (case station_loop link_slot station first [] r of
                  None \<Rightarrow> None
                | Some (listed, r) \<Rightarrow> Some (station_sweep station listed r)))"

definition event_parts :: "cstr \<Rightarrow> (char \<times> roster_identity) option" where
  "event_parts p =
     (if take 3 p \<noteq> ''-->'' then None
      else let p = drop 3 p;
               p = (if p \<noteq> [] \<and> (hd p = CHR ''.'' \<or> hd p = CHR '','') then tl p else p);
               p = dropWhile (\<lambda>c. c = CHR '' '') p
           in if p = [] \<or> hd p \<noteq> CHR ''+'' \<and> hd p \<noteq> CHR ''-'' then None
              else map_option (\<lambda>ident. (hd p, ident)) (ddial_roster_parse_identity
                     (dropWhile (\<lambda>c. c = CHR '' '' \<or> c = CHR ''^'') (tl p)) None DDIAL_MAX_HANDLE_LEN))"

definition ddial_roster_note_event_locked :: "cstr \<Rightarrow> ddial_roster \<Rightarrow> ddial_roster option" where
  "ddial_roster_note_event_locked p r =
     (case event_parts p of
        None \<Rightarrow> Some r
      | Some (sign, ident) \<Rightarrow>
          if ri_is_link ident then Some r
          else if sign = CHR ''+'' then ddial_roster_put_locked (ri_handle ident) (ri_link ident) (ri_slot ident) None r
          else Some (ddial_roster_remove_locked (ri_handle ident) (ri_link ident) (ri_slot ident) r))"

definition ddial_roster_note_locked :: "cstr option \<Rightarrow> cstr \<Rightarrow> ddial_roster \<Rightarrow> ddial_roster option" where
  "ddial_roster_note_locked own line r =
     (if take 8 line = ''[SYSOP] '' then ddial_roster_note_station_list_locked own (drop 8 line) r
      else if take 7 line = ''[LINK] '' then ddial_roster_note_event_locked (drop 7 line) r
      else case ddial_parse_incoming_chat DDIAL_MAX_HANDLE_LEN line of
             None \<Rightarrow> Some r
           | Some c \<Rightarrow>
               if \<not> id_is_link (cl_identity c) \<and> id_handle (cl_identity c) \<noteq> []
               then ddial_roster_put_locked (id_handle (cl_identity c)) (cl_link_slot c) (id_slot (cl_identity c)) None r
               else Some r)"

definition ddial_roster_note_line :: "cstr option \<Rightarrow> cstr \<Rightarrow> ddial_roster \<Rightarrow> ddial_roster option" where
  "ddial_roster_note_line own line r = (if line = [] then Some r else ddial_roster_note_locked own line r)"

definition ddial_roster_line_is_operational :: "cstr \<Rightarrow> bool" where
  "ddial_roster_line_is_operational line \<longleftrightarrow> take 8 line = ''[SYSOP] '' \<or> take 7 line = ''[LINK] ''"

definition ddial_line_is_network_map_noise :: "cstr \<Rightarrow> bool" where
  "ddial_line_is_network_map_noise line \<longleftrightarrow>
     line \<noteq> [] \<and> (c_strstr line ''}}}'' \<or> c_strstr line ''^#'' \<or> list_ex (\<lambda>c. code c < 0x20 \<and> c \<noteq> CHR 0x09) line)"

section \<open>Seeding and reading\<close>

text \<open>The history is a list of messages, each with the mark of a message of a user.\<close>

fun note_all :: "cstr option \<Rightarrow> (bool \<times> cstr) list \<Rightarrow> ddial_roster \<Rightarrow> ddial_roster option" where
  "note_all own [] r = Some r"
| "note_all own ((is_user, message) # es) r =
     (if is_user then note_all own es r
      else case ddial_roster_note_locked own message r of None \<Rightarrow> None | Some r \<Rightarrow> note_all own es r)"

definition ddial_roster_seed_from_history :: "cstr option \<Rightarrow> (bool \<times> cstr) list \<Rightarrow> ddial_roster \<Rightarrow> ddial_roster option" where
  "ddial_roster_seed_from_history own entries r =
     note_all own (drop (length entries - DDIAL_ROSTER_HISTORY_SCAN) entries) r"

definition ddial_roster_snapshot :: "(cstr \<Rightarrow> bool) \<Rightarrow> cstr \<Rightarrow> nat \<Rightarrow> ddial_roster \<Rightarrow> ddial_roster_entry list" where
  "ddial_roster_snapshot is_local exclude cap r =
     take cap (filter (\<lambda>e. \<not> (re_handle e \<noteq> ''?'' \<and> (exclude \<noteq> [] \<and> strcasecmp_eq (re_handle e) exclude \<or> is_local (re_handle e))))
       (take DDIAL_ROSTER_MAX (List.map_filter bucket_entry (roster_buckets r))))"

definition ddial_roster_find :: "(cstr \<Rightarrow> bool) \<Rightarrow> cstr \<Rightarrow> ddial_roster \<Rightarrow> nat option" where
  "ddial_roster_find is_local handle r =
     (if handle = [] \<or> handle = ''?'' then None
      else case ddial_roster_lookup_locked (ddial_roster_make_key handle 0 0) r of
             None \<Rightarrow> None
           | Some idx \<Rightarrow>
               (case roster_buckets r ! idx of
                  RosterUsed e \<Rightarrow> if re_link_slot e = 0 \<and> \<not> is_local handle then Some (re_slot e) else None
                | _ \<Rightarrow> None))"

end
