(* ===== verification/Roster_Map.thy ===== *)
theory Roster_Map
  imports Ddial_Roster
begin

text \<open>
  The hash table of the roster as a map from keys to entries: the invariant of the table,
  that its search and its loops do what they should, and the lines of the link as operations
  on the map.
\<close>

section \<open>Probing\<close>

lemma and_buckets: "x AND (DDIAL_ROSTER_BUCKETS - 1) = x mod DDIAL_ROSTER_BUCKETS"
proof -
  have "DDIAL_ROSTER_BUCKETS - 1 = mask 10" by (simp add: DDIAL_ROSTER_BUCKETS_def mask_eq_exp_minus_1)
  then show ?thesis using take_bit_eq_mask [of 10 x] take_bit_eq_mod [of 10 x] by (simp add: DDIAL_ROSTER_BUCKETS_def)
qed

lemma next_bucket_mod: "next_bucket idx = Suc idx mod DDIAL_ROSTER_BUCKETS"
  using and_buckets [of "idx + 1"] by (simp add: next_bucket_def)

lemma buckets_pos [simp]: "0 < DDIAL_ROSTER_BUCKETS"
  by (simp add: DDIAL_ROSTER_BUCKETS_def)

lemma hash_less [simp]: "ddial_roster_hash key < DDIAL_ROSTER_BUCKETS"
  unfolding ddial_roster_hash_def and_buckets by simp

lemma next_bucket_less [simp]: "next_bucket idx < DDIAL_ROSTER_BUCKETS"
  by (simp add: next_bucket_mod)

text \<open>The bucket \<open>d\<close> steps after \<open>idx\<close>.\<close>

definition probe :: "nat \<Rightarrow> nat \<Rightarrow> nat" where
  "probe idx d = (idx + d) mod DDIAL_ROSTER_BUCKETS"

lemma probe_0 [simp]: "idx < DDIAL_ROSTER_BUCKETS \<Longrightarrow> probe idx 0 = idx"
  by (simp add: probe_def)

lemma probe_Suc: "probe idx (Suc d) = probe (next_bucket idx) d"
  by (simp add: probe_def next_bucket_mod mod_add_left_eq)

lemma probe_less [simp]: "probe idx d < DDIAL_ROSTER_BUCKETS"
  by (simp add: probe_def)

lemma probe_reaches:
  assumes "i < DDIAL_ROSTER_BUCKETS" "idx < DDIAL_ROSTER_BUCKETS"
  obtains d where "d < DDIAL_ROSTER_BUCKETS" "probe idx d = i"
proof
  define d where "d = (i + DDIAL_ROSTER_BUCKETS - idx) mod DDIAL_ROSTER_BUCKETS"
  show "d < DDIAL_ROSTER_BUCKETS" by (simp add: d_def)
  have "probe idx d = (idx + (i + DDIAL_ROSTER_BUCKETS - idx)) mod DDIAL_ROSTER_BUCKETS"
    by (simp add: probe_def d_def mod_add_right_eq)
  also have "\<dots> = i" using assms by simp
  finally show "probe idx d = i" .
qed

definition is_used :: "roster_bucket \<Rightarrow> bool" where
  "is_used b \<longleftrightarrow> bucket_entry b \<noteq> None"

lemma bucket_entry_simps [simp]:
  "bucket_entry RosterEmpty = None" "bucket_entry (RosterUsed e) = Some e" "bucket_entry RosterTombstone = None"
  "\<not> is_used RosterEmpty" "is_used (RosterUsed e)" "\<not> is_used RosterTombstone"
  by (simp_all add: bucket_entry_def is_used_def)

lemma bucket_entry_Some: "bucket_entry b = Some e \<longleftrightarrow> b = RosterUsed e"
  by (cases b) auto

lemma lookup_loop_sound:
  assumes "lookup_loop n idx key t = Some i" "idx < DDIAL_ROSTER_BUCKETS"
  shows "i < DDIAL_ROSTER_BUCKETS \<and> (\<exists>e. t ! i = RosterUsed e \<and> re_key e = key)"
  using assms
  by (induction n idx key t rule: lookup_loop.induct) (auto split: roster_bucket.splits if_splits)

lemma lookup_loop_complete:
  assumes "idx < DDIAL_ROSTER_BUCKETS" "d < n" "t ! probe idx d = RosterUsed e" "re_key e = key"
    and "\<And>j. j < d \<Longrightarrow> t ! probe idx j \<noteq> RosterEmpty"
  shows "lookup_loop n idx key t \<noteq> None"
  using assms
proof (induction n arbitrary: idx d)
  case 0
  then show ?case by simp
next
  case (Suc n)
  show ?case
  proof (cases d)
    case 0
    then show ?thesis using Suc.prems by simp
  next
    case e: (Suc d')
    have "t ! idx \<noteq> RosterEmpty" using Suc.prems(1) Suc.prems(5) [of 0] e by simp
    moreover have "lookup_loop n (next_bucket idx) key t \<noteq> None"
    proof (rule Suc.IH [of _ d'])
      show "t ! probe (next_bucket idx) j \<noteq> RosterEmpty" if "j < d'" for j
        using Suc.prems(5) [of "Suc j"] that e by (simp add: probe_Suc)
    qed (use Suc.prems(2-4) e in \<open>simp_all add: probe_Suc\<close>)
    ultimately show ?thesis by (auto split: roster_bucket.split)
  qed
qed

text \<open>The search for a bucket to write to ends at the first that is not in use.\<close>

lemma free_loop_ends:
  assumes "idx < DDIAL_ROSTER_BUCKETS" "\<not> is_used (t ! probe idx d)"
  shows "\<exists>d'\<le>d. free_loop idx t = Some (probe idx d') \<and> \<not> is_used (t ! probe idx d') \<and> (\<forall>j<d'. is_used (t ! probe idx j))"
  using assms
proof (induction d arbitrary: idx)
  case 0
  then have "free_loop idx t = Some idx" by (subst free_loop.simps) (auto split: roster_bucket.split)
  then show ?case using 0 by simp
next
  case (Suc d)
  show ?case
  proof (cases "is_used (t ! idx)")
    case True
    then obtain e where e: "t ! idx = RosterUsed e" by (cases "t ! idx") auto
    have step: "free_loop idx t = free_loop (next_bucket idx) t" by (subst free_loop.simps) (simp add: e)
    obtain d' where d': "d' \<le> d" "free_loop (next_bucket idx) t = Some (probe (next_bucket idx) d')"
        "\<not> is_used (t ! probe (next_bucket idx) d')" "\<forall>j<d'. is_used (t ! probe (next_bucket idx) j)"
      using Suc.IH [of "next_bucket idx"] Suc.prems by (auto simp: probe_Suc)
    have "is_used (t ! probe idx j)" if "j < Suc d'" for j
      using that True d'(4) Suc.prems(1) by (cases j) (simp_all add: probe_Suc)
    then show ?thesis using d' step by (intro exI [of _ "Suc d'"]) (simp add: probe_Suc)
  next
    case False
    then have "free_loop idx t = Some idx" by (subst free_loop.simps) (auto split: roster_bucket.split)
    then show ?thesis using False Suc.prems(1) by (intro exI [of _ 0]) simp
  qed
qed

section \<open>The invariant\<close>

definition used_entries :: "roster_bucket list \<Rightarrow> ddial_roster_entry list" where
  "used_entries t = List.map_filter bucket_entry t"

definition reached :: "roster_bucket list \<Rightarrow> cstr \<Rightarrow> nat \<Rightarrow> bool" where
  "reached t key i \<longleftrightarrow> (\<exists>d<DDIAL_ROSTER_BUCKETS. probe (ddial_roster_hash key) d = i \<and>
     (\<forall>j<d. t ! probe (ddial_roster_hash key) j \<noteq> RosterEmpty))"

definition roster_ok :: "ddial_roster \<Rightarrow> bool" where
  "roster_ok r \<longleftrightarrow> length (roster_buckets r) = DDIAL_ROSTER_BUCKETS \<and> distinct (map re_key (used_entries (roster_buckets r))) \<and>
     roster_count r = length (used_entries (roster_buckets r)) \<and> roster_count r \<le> DDIAL_ROSTER_MAX \<and>
     (\<forall>i<DDIAL_ROSTER_BUCKETS. \<forall>e. roster_buckets r ! i = RosterUsed e \<longrightarrow> reached (roster_buckets r) (re_key e) i)"

lemma roster_okD:
  assumes "roster_ok r"
  shows "length (roster_buckets r) = DDIAL_ROSTER_BUCKETS" "distinct (map re_key (used_entries (roster_buckets r)))"
    "roster_count r = length (used_entries (roster_buckets r))" "roster_count r \<le> DDIAL_ROSTER_MAX"
    "i < DDIAL_ROSTER_BUCKETS \<Longrightarrow> roster_buckets r ! i = RosterUsed e \<Longrightarrow> reached (roster_buckets r) (re_key e) i"
  using assms by (auto simp: roster_ok_def)

definition roster_map :: "ddial_roster \<Rightarrow> cstr \<Rightarrow> ddial_roster_entry option" where
  "roster_map r = map_of (map (\<lambda>e. (re_key e, e)) (used_entries (roster_buckets r)))"

lemma used_entries_simps [simp]:
  "used_entries [] = []" "used_entries (RosterUsed e # t) = e # used_entries t" "used_entries (RosterEmpty # t) = used_entries t"
  "used_entries (RosterTombstone # t) = used_entries t"
  by (simp_all add: used_entries_def map_filter_simps)

lemma used_entries_append [simp]: "used_entries (s @ t) = used_entries s @ used_entries t"
proof (induction s)
  case (Cons b s)
  then show ?case by (cases b) simp_all
qed simp

lemma used_entries_mem: "e \<in> set (used_entries t) \<longleftrightarrow> RosterUsed e \<in> set t"
proof (induction t)
  case (Cons b t)
  then show ?case by (cases b) auto
qed simp

lemma set_used_entries: "e \<in> set (used_entries t) \<longleftrightarrow> (\<exists>i<length t. t ! i = RosterUsed e)"
  unfolding used_entries_mem by (auto simp: in_set_conv_nth)

lemma roster_map_Some:
  assumes "roster_ok r"
  shows "roster_map r key = Some e \<longleftrightarrow> re_key e = key \<and> e \<in> set (used_entries (roster_buckets r))"
proof -
  have "distinct (map fst (map (\<lambda>e. (re_key e, e)) (used_entries (roster_buckets r))))"
    using roster_okD(2) [OF assms] by (simp add: comp_def)
  then show ?thesis by (auto simp: roster_map_def map_of_eq_Some_iff)
qed

text \<open>The search finds the entry of the map.\<close>

lemma lookup_found:
  assumes "roster_ok r" "ddial_roster_lookup_locked key r = Some i"
  obtains e where "i < DDIAL_ROSTER_BUCKETS" "roster_buckets r ! i = RosterUsed e" "re_key e = key" "roster_map r key = Some e"
proof -
  obtain e where e: "i < DDIAL_ROSTER_BUCKETS" "roster_buckets r ! i = RosterUsed e" "re_key e = key"
    using lookup_loop_sound [OF assms(2) [unfolded ddial_roster_lookup_locked_def]] by auto
  have "e \<in> set (used_entries (roster_buckets r))" using e roster_okD(1) [OF assms(1)] by (auto simp: set_used_entries)
  then show ?thesis using that e roster_map_Some [OF assms(1)] by blast
qed

lemma lookup_absent:
  assumes "roster_ok r" "ddial_roster_lookup_locked key r = None"
  shows "roster_map r key = None"
proof (rule ccontr)
  assume "roster_map r key \<noteq> None"
  then obtain e where "re_key e = key" "e \<in> set (used_entries (roster_buckets r))"
    using roster_map_Some [OF assms(1)] by blast
  then obtain i where i: "i < DDIAL_ROSTER_BUCKETS" "roster_buckets r ! i = RosterUsed e"
    using roster_okD(1) [OF assms(1)] by (auto simp: set_used_entries)
  from roster_okD(5) [OF assms(1) this] obtain d where "d < DDIAL_ROSTER_BUCKETS" "probe (ddial_roster_hash key) d = i"
      "\<forall>j<d. roster_buckets r ! probe (ddial_roster_hash key) j \<noteq> RosterEmpty"
    using \<open>re_key e = key\<close> by (auto simp: reached_def)
  then show False
    using lookup_loop_complete [of "ddial_roster_hash key" d DDIAL_ROSTER_BUCKETS "roster_buckets r" e key] i \<open>re_key e = key\<close> assms(2)
    by (simp add: ddial_roster_lookup_locked_def)
qed

section \<open>Changing one bucket\<close>

lemma used_update:
  assumes "i < length t"
  shows "used_entries (t[i := b]) = used_entries (take i t) @ used_entries [b] @ used_entries (drop (Suc i) t)"
    "used_entries t = used_entries (take i t) @ used_entries [t ! i] @ used_entries (drop (Suc i) t)"
proof -
  show "used_entries (t[i := b]) = used_entries (take i t) @ used_entries [b] @ used_entries (drop (Suc i) t)"
    using upd_conv_take_nth_drop [OF assms, of b] used_entries_append [of "take i t" "b # drop (Suc i) t"]
      used_entries_append [of "[b]" "drop (Suc i) t"] by simp
  show "used_entries t = used_entries (take i t) @ used_entries [t ! i] @ used_entries (drop (Suc i) t)"
    using id_take_nth_drop [OF assms] used_entries_append [of "take i t" "t ! i # drop (Suc i) t"]
      used_entries_append [of "[t ! i]" "drop (Suc i) t"] by simp
qed

lemma reached_update: "reached t key j \<Longrightarrow> b \<noteq> RosterEmpty \<Longrightarrow> reached (t[i := b]) key j"
  unfolding reached_def by (metis list_update_beyond not_le nth_list_update)

text \<open>Maps given by the elements of a set and their keys.\<close>

lemma keyed_insert:
  assumes "f e \<notin> f ` R"
  shows "f e' = f e \<Longrightarrow> (f x = k \<and> x \<in> insert e' R) = (if k = f e then e' = x else f x = k \<and> x \<in> insert e R)"
    "(f x = k \<and> x \<in> R) = (k \<noteq> f e \<and> f x = k \<and> x \<in> insert e R)"
    "(f x = k \<and> x \<in> insert e R) = (if k = f e then e = x else f x = k \<and> x \<in> R)"
proof -
  have other: "f y \<noteq> f e" if "y \<in> R" for y using assms that by (metis imageI)
  show "(f x = k \<and> x \<in> insert e' R) = (if k = f e then e' = x else f x = k \<and> x \<in> insert e R)" if "f e' = f e"
    using that other [of x] by auto
  show "(f x = k \<and> x \<in> R) = (k \<noteq> f e \<and> f x = k \<and> x \<in> insert e R)"
    "(f x = k \<and> x \<in> insert e R) = (if k = f e then e = x else f x = k \<and> x \<in> R)"
    using other [of x] by auto
qed

lemma map_eq_by_Some: "(\<And>k x. m k = Some x \<longleftrightarrow> m' k = Some x) \<Longrightarrow> m = m'"
  by (rule ext) (metis not_None_eq)

text \<open>Writing to a bucket keeps the paths to the others.\<close>

lemma paths_update:
  assumes "roster_ok r" "i < DDIAL_ROSTER_BUCKETS" "b \<noteq> RosterEmpty"
    and "\<And>e. b = RosterUsed e \<Longrightarrow> reached (roster_buckets r) (re_key e) i"
    and "j < DDIAL_ROSTER_BUCKETS" "(roster_buckets r)[i := b] ! j = RosterUsed e"
  shows "reached ((roster_buckets r)[i := b]) (re_key e) j"
proof (cases "j = i")
  case True
  then show ?thesis using assms(2-4,6) roster_okD(1) [OF assms(1)] by (intro reached_update) simp_all
next
  case False
  then show ?thesis using assms(3,5,6) roster_okD(5) [OF assms(1)] by (intro reached_update) simp_all
qed

lemma replace_bucket:
  assumes "roster_ok r" "i < DDIAL_ROSTER_BUCKETS" "roster_buckets r ! i = RosterUsed e" "re_key e' = re_key e"
    and "r' = r\<lparr>roster_buckets := (roster_buckets r)[i := RosterUsed e']\<rparr>"
  shows "roster_ok r'" "roster_map r' = (roster_map r)(re_key e \<mapsto> e')"
proof -
  note ok = roster_okD [OF assms(1)]
  have i: "i < length (roster_buckets r)" using assms(2) ok(1) by simp
  note u = used_update(1) [OF i, of "RosterUsed e'"] used_update(2) [OF i]
  have path: "reached (roster_buckets r') (re_key x) j" if "j < DDIAL_ROSTER_BUCKETS" "roster_buckets r' ! j = RosterUsed x" for j x
    using paths_update [OF assms(1,2), of "RosterUsed e'"] ok(5) [OF assms(2,3)] assms(4) that by (simp add: assms(5))
  show r': "roster_ok r'"
    using ok path u assms(3,4) by (simp add: roster_ok_def assms(5))
  define R where "R = set (used_entries (take i (roster_buckets r))) \<union> set (used_entries (drop (Suc i) (roster_buckets r)))"
  have sets: "set (used_entries (roster_buckets r')) = insert e' R" "set (used_entries (roster_buckets r)) = insert e R"
    "re_key e \<notin> re_key ` R"
    using u ok(2) assms(3) by (auto simp: assms(5) R_def)
  show "roster_map r' = (roster_map r)(re_key e \<mapsto> e')"
  proof (rule map_eq_by_Some)
    fix k x
    have "roster_map r' k = Some x \<longleftrightarrow> (if k = re_key e then e' = x else roster_map r k = Some x)"
      unfolding roster_map_Some [OF r'] roster_map_Some [OF assms(1)] sets by (rule keyed_insert(1) [OF sets(3) assms(4)])
    then show "roster_map r' k = Some x \<longleftrightarrow> ((roster_map r)(re_key e \<mapsto> e')) k = Some x" by simp
  qed
qed

lemma remove_bucket:
  assumes "roster_ok r" "i < DDIAL_ROSTER_BUCKETS" "roster_buckets r ! i = RosterUsed e" "r' = ddial_roster_remove_at_locked i r"
  shows "roster_ok r'" "roster_map r' = (roster_map r)(re_key e := None)"
proof -
  note ok = roster_okD [OF assms(1)]
  have i: "i < length (roster_buckets r)" using assms(2) ok(1) by simp
  note u = used_update(1) [OF i, of RosterTombstone] used_update(2) [OF i]
  have r'_def: "r' = r\<lparr>roster_buckets := (roster_buckets r)[i := RosterTombstone], roster_count := roster_count r - 1\<rparr>"
    by (simp add: assms(4) ddial_roster_remove_at_locked_def)
  have path: "reached (roster_buckets r') (re_key x) j" if "j < DDIAL_ROSTER_BUCKETS" "roster_buckets r' ! j = RosterUsed x" for j x
    using paths_update [OF assms(1,2), of RosterTombstone] that by (simp add: r'_def)
  show r': "roster_ok r'"
    using ok path u assms(3) by (simp add: roster_ok_def r'_def)
  define R where "R = set (used_entries (take i (roster_buckets r))) \<union> set (used_entries (drop (Suc i) (roster_buckets r)))"
  have sets: "set (used_entries (roster_buckets r')) = R" "set (used_entries (roster_buckets r)) = insert e R"
    "re_key e \<notin> re_key ` R"
    using u ok(2) assms(3) by (auto simp: r'_def R_def)
  show "roster_map r' = (roster_map r)(re_key e := None)"
  proof (rule map_eq_by_Some)
    fix k x
    have "roster_map r' k = Some x \<longleftrightarrow> (k \<noteq> re_key e \<and> roster_map r k = Some x)"
      unfolding roster_map_Some [OF r'] roster_map_Some [OF assms(1)] sets by (rule keyed_insert(2) [OF sets(3)])
    then show "roster_map r' k = Some x \<longleftrightarrow> ((roster_map r)(re_key e := None)) k = Some x" by simp
  qed
qed

lemma insert_bucket:
  assumes "roster_ok r" "i < DDIAL_ROSTER_BUCKETS" "\<not> is_used (roster_buckets r ! i)" "roster_map r (re_key e) = None"
    and "roster_count r < DDIAL_ROSTER_MAX" "reached (roster_buckets r) (re_key e) i"
    and "r' = r\<lparr>roster_buckets := (roster_buckets r)[i := RosterUsed e], roster_count := roster_count r + 1\<rparr>"
  shows "roster_ok r'" "roster_map r' = (roster_map r)(re_key e \<mapsto> e)"
proof -
  note ok = roster_okD [OF assms(1)]
  have i: "i < length (roster_buckets r)" using assms(2) ok(1) by simp
  note u = used_update(1) [OF i, of "RosterUsed e"] used_update(2) [OF i]
  have none: "used_entries [roster_buckets r ! i] = []" using assms(3) by (cases "roster_buckets r ! i") simp_all
  have new: "re_key e \<notin> re_key ` set (used_entries (roster_buckets r))"
    using assms(4) roster_map_Some [OF assms(1)] by (metis image_iff option.distinct(1))
  have path: "reached (roster_buckets r') (re_key x) j" if "j < DDIAL_ROSTER_BUCKETS" "roster_buckets r' ! j = RosterUsed x" for j x
    using paths_update [OF assms(1,2), of "RosterUsed e"] assms(6) that by (simp add: assms(7))
  show r': "roster_ok r'"
    using ok path u none new assms(5) by (auto simp: roster_ok_def assms(7))
  have sets: "set (used_entries (roster_buckets r')) = insert e (set (used_entries (roster_buckets r)))"
    using u none by (auto simp: assms(7))
  show "roster_map r' = (roster_map r)(re_key e \<mapsto> e)"
  proof (rule map_eq_by_Some)
    fix k x
    have "roster_map r' k = Some x \<longleftrightarrow> (if k = re_key e then e = x else roster_map r k = Some x)"
      unfolding roster_map_Some [OF r'] roster_map_Some [OF assms(1)] sets by (rule keyed_insert(3) [OF new])
    then show "roster_map r' k = Some x \<longleftrightarrow> ((roster_map r)(re_key e \<mapsto> e)) k = Some x" by simp
  qed
qed


section \<open>The operations on the map\<close>

text \<open>A request to put a user into the roster.\<close>

type_synonym roster_request = "cstr \<times> nat \<times> nat \<times> cstr option"

fun request_key :: "roster_request \<Rightarrow> cstr" where
  "request_key (handle, link_slot, slot, station) = ddial_roster_make_key handle link_slot slot"

fun request_fill :: "roster_request \<Rightarrow> ddial_roster_entry option \<Rightarrow> ddial_roster_entry" where
  "request_fill (handle, link_slot, slot, station) old =
     fill_entry handle link_slot slot station
       (case old of None \<Rightarrow> fresh_entry (ddial_roster_make_key handle link_slot slot) | Some e \<Rightarrow> e)"

fun roster_put :: "roster_request \<Rightarrow> ddial_roster \<Rightarrow> ddial_roster option" where
  "roster_put (handle, link_slot, slot, station) r = ddial_roster_put_locked handle link_slot slot station r"

fun roster_remove :: "roster_request \<Rightarrow> ddial_roster \<Rightarrow> ddial_roster" where
  "roster_remove (handle, link_slot, slot, station) r = ddial_roster_remove_locked handle link_slot slot r"

lemma fill_key [simp]: "re_key (fill_entry handle link_slot slot station e) = re_key e" "re_key (fresh_entry key) = key"
  by (simp_all add: fill_entry_def fresh_entry_def)

lemma roster_map_size:
  assumes "roster_ok r"
  shows "finite (dom (roster_map r))" "card (dom (roster_map r)) = roster_count r"
proof -
  have "dom (roster_map r) = re_key ` set (used_entries (roster_buckets r))"
    using roster_map_Some [OF assms] by (auto simp: dom_def image_def)
  moreover have "card (re_key ` set (used_entries (roster_buckets r))) = roster_count r"
    using roster_okD(2,3) [OF assms] distinct_card [of "map re_key (used_entries (roster_buckets r))"] by simp
  ultimately show "finite (dom (roster_map r))" "card (dom (roster_map r)) = roster_count r" by simp_all
qed

text \<open>There is always a bucket that is not in use.\<close>

lemma free_bucket:
  assumes "roster_ok r" "roster_count r < DDIAL_ROSTER_MAX"
  obtains i where "free_loop (ddial_roster_hash key) (roster_buckets r) = Some i" "i < DDIAL_ROSTER_BUCKETS"
    "\<not> is_used (roster_buckets r ! i)" "reached (roster_buckets r) key i"
proof -
  define t where "t = roster_buckets r"
  have len: "length t = DDIAL_ROSTER_BUCKETS" using roster_okD(1) [OF assms(1)] by (simp add: t_def)
  have all: "length (used_entries s) = length s" if "\<forall>b\<in>set s. is_used b" for s
    using that
  proof (induction s)
    case (Cons b s)
    then show ?case by (cases b) simp_all
  qed simp
  have "length (used_entries t) < length t"
    using assms roster_okD(3) [OF assms(1)] len by (simp add: t_def DDIAL_ROSTER_MAX_def DDIAL_ROSTER_BUCKETS_def)
  then have "\<exists>b\<in>set t. \<not> is_used b" using all [of t] by auto
  then obtain i0 where i0: "i0 < DDIAL_ROSTER_BUCKETS" "\<not> is_used (t ! i0)" using len by (auto simp: in_set_conv_nth)
  obtain d where d: "d < DDIAL_ROSTER_BUCKETS" "probe (ddial_roster_hash key) d = i0"
    using probe_reaches [OF i0(1) hash_less] by blast
  obtain d' where d': "d' \<le> d" "free_loop (ddial_roster_hash key) t = Some (probe (ddial_roster_hash key) d')"
      "\<not> is_used (t ! probe (ddial_roster_hash key) d')" "\<forall>j<d'. is_used (t ! probe (ddial_roster_hash key) j)"
    using free_loop_ends [OF hash_less, of t key d] i0(2) d(2) by auto
  have "reached t key (probe (ddial_roster_hash key) d')"
    unfolding reached_def using d(1) d'(1,4) by (intro exI [of _ d']) (auto simp: is_used_def)
  then show ?thesis using that d' by (simp add: t_def)
qed

lemma put_new:
  assumes "roster_ok r" "q = (handle, link_slot, slot, station)" "request_key q \<noteq> []"
    and "ddial_roster_lookup_locked (request_key q) r = None" "\<not> DDIAL_ROSTER_MAX \<le> roster_count r"
  shows "\<exists>r'. roster_put q r = Some r' \<and> roster_ok r' \<and> roster_map r' = (roster_map r)(request_key q \<mapsto> request_fill q None)"
proof -
  define key where "key = request_key q"
  have key: "ddial_roster_make_key handle link_slot slot = key" by (simp add: key_def assms(2))
  have count: "roster_count r < DDIAL_ROSTER_MAX" using assms(5) by simp
  have m: "roster_map r key = None" using lookup_absent [OF assms(1,4)] by (simp add: key_def)
  obtain i where i: "free_loop (ddial_roster_hash key) (roster_buckets r) = Some i" "i < DDIAL_ROSTER_BUCKETS"
      "\<not> is_used (roster_buckets r ! i)" "reached (roster_buckets r) key i"
    using free_bucket [OF assms(1) count] by blast
  define e where "e = request_fill q None"
  have e: "re_key e = key" "e = fill_entry handle link_slot slot station (fresh_entry key)" by (simp_all add: e_def assms(2) key)
  define r' where "r' = r\<lparr>roster_buckets := (roster_buckets r)[i := RosterUsed e], roster_count := roster_count r + 1\<rparr>"
  have put: "roster_put q r = Some r'"
    using assms(3-5) i(1) e(2) unfolding key_def [symmetric]
    by (simp add: assms(2) key ddial_roster_put_locked_def Let_def r'_def)
  note ins = insert_bucket [OF assms(1) i(2,3) _ count _ r'_def, unfolded e(1), OF m i(4)]
  show ?thesis using put ins by (simp add: key_def e_def)
qed

lemma put_request:
  assumes "roster_ok r"
  shows "\<exists>r'. roster_put q r = Some r' \<and> roster_ok r' \<and> roster_map r' =
    (if request_key q \<noteq> [] then bounded_store DDIAL_ROSTER_MAX (request_key q) (request_fill q) (roster_map r) else roster_map r)"
proof -
  obtain handle link_slot slot station where q: "q = (handle, link_slot, slot, station)" by (cases q) auto
  define key where "key = request_key q"
  have key: "ddial_roster_make_key handle link_slot slot = key" by (simp add: key_def q)
  show ?thesis
  proof (cases "key = []")
    case True
    then show ?thesis using assms by (simp add: q key ddial_roster_put_locked_def Let_def)
  next
    case False
    show ?thesis
    proof (cases "ddial_roster_lookup_locked key r")
      case None
      then have m: "roster_map r key = None" by (rule lookup_absent [OF assms])
      show ?thesis
      proof (cases "roster_count r \<ge> DDIAL_ROSTER_MAX")
        case True
        then show ?thesis using assms None False m roster_map_size [OF assms]
          by (simp add: q key ddial_roster_put_locked_def Let_def bounded_store_def)
      next
        case room: False
        from put_new [OF assms q, folded key_def, OF False None room] show ?thesis
          unfolding key_def [symmetric] using False room by (simp add: bounded_store_def m roster_map_size [OF assms])
      qed
    next
      case (Some i)
      then obtain e where e: "i < DDIAL_ROSTER_BUCKETS" "roster_buckets r ! i = RosterUsed e" "re_key e = key" "roster_map r key = Some e"
        by (rule lookup_found [OF assms])
      define r' where "r' = r\<lparr>roster_buckets := (roster_buckets r)[i := RosterUsed (fill_entry handle link_slot slot station e)]\<rparr>"
      have put: "roster_put q r = Some r'"
        using False Some e(2) by (simp add: q key ddial_roster_put_locked_def Let_def r'_def)
      note rep = replace_bucket [OF assms e(1,2) _ r'_def]
      show ?thesis using put rep e(3,4) False by (simp add: q key bounded_store_def)
    qed
  qed
qed

lemma remove_request:
  assumes "roster_ok r"
  shows "roster_ok (roster_remove q r) \<and> roster_map (roster_remove q r) = (roster_map r)(request_key q := None)"
proof -
  obtain handle link_slot slot station where q: "q = (handle, link_slot, slot, station)" by (cases q) auto
  show ?thesis
  proof (cases "ddial_roster_lookup_locked (request_key q) r")
    case None
    then show ?thesis using assms lookup_absent [OF assms None] by (simp add: q ddial_roster_remove_locked_def fun_upd_idem)
  next
    case (Some i)
    then obtain e where "i < DDIAL_ROSTER_BUCKETS" "roster_buckets r ! i = RosterUsed e" "re_key e = request_key q"
      by (rule lookup_found [OF assms])
    then show ?thesis using remove_bucket [OF assms _ _ refl] Some by (simp add: q ddial_roster_remove_locked_def)
  qed
qed

interpretation roster_table: bounded_map roster_map roster_put roster_remove request_key request_fill
  "\<lambda>q. request_key q \<noteq> []" DDIAL_ROSTER_MAX roster_ok
proof (unfold_locales, goal_cases)
  case (1 r q)
  then show ?case by (rule put_request)
next
  case (2 r q)
  then show ?case by (rule remove_request)
next
  case (3 r)
  then show ?case using roster_map_size [OF 3] roster_okD(4) [OF 3] by simp
qed


end
