(* ===== verification/Roster_Lines.thy ===== *)
theory Roster_Lines
  imports Roster_Map
begin

text \<open>
  The lines of the link as operations on the map the roster stands for: station lists,
  logins and logouts, and chat.
\<close>

section \<open>Station lists\<close>

text \<open>The users a list names, at most \<open>room\<close> of them.\<close>

function station_users :: "nat \<Rightarrow> cstr option \<Rightarrow> (cstr \<times> nat) list" where
  "station_users room None = []"
| "station_users room (Some q) =
     (let following = ddial_roster_next_entry (tl q)
      in case (if 0 < room then ddial_roster_parse_identity q following DDIAL_MAX_HANDLE_LEN else None) of
           None \<Rightarrow> station_users room following
         | Some ident \<Rightarrow>
             if ri_is_link ident then station_users room following
             else (ri_handle ident, ri_slot ident) # station_users (room - 1) following)"
  by pat_completeness auto
termination
  by (relation "measure (\<lambda>(room, q). case q of None \<Rightarrow> 0 | Some q \<Rightarrow> Suc (length q))") (simp_all add: following_shorter)

declare station_users.simps [simp del]

definition station_requests :: "nat \<Rightarrow> cstr \<Rightarrow> (cstr \<times> nat) list \<Rightarrow> roster_request list" where
  "station_requests link_slot station users = map (\<lambda>(handle, slot). (handle, link_slot, slot, Some station)) users"

definition station_keys :: "nat \<Rightarrow> (cstr \<times> nat) list \<Rightarrow> cstr list" where
  "station_keys link_slot users = map (\<lambda>(handle, slot). ddial_roster_make_key handle link_slot slot) users"

lemma station_loop_users:
  "station_loop link_slot station q listed r =
     (let users = station_users (DDIAL_ROSTER_MAX - length listed) q
      in map_option (\<lambda>r'. (listed @ station_keys link_slot users, r')) (fold_opt roster_put (station_requests link_slot station users) r))"
proof (induction link_slot station q listed r rule: station_loop.induct)
  case (1 link_slot station listed r)
  then show ?case by (simp add: station_loop.simps station_users.simps station_keys_def station_requests_def)
next
  case (2 link_slot station q listed r)
  define following where "following = ddial_roster_next_entry (tl q)"
  define parsed where "parsed = (if length listed < DDIAL_ROSTER_MAX
    then ddial_roster_parse_identity q following DDIAL_MAX_HANDLE_LEN else None)"
  note IH = "2.IH" [OF following_def parsed_def]
  have users: "station_users (DDIAL_ROSTER_MAX - length listed) (Some q) =
      (case parsed of
         None \<Rightarrow> station_users (DDIAL_ROSTER_MAX - length listed) following
       | Some ident \<Rightarrow> if ri_is_link ident then station_users (DDIAL_ROSTER_MAX - length listed) following
           else (ri_handle ident, ri_slot ident) # station_users (DDIAL_ROSTER_MAX - Suc (length listed)) following)"
    unfolding station_users.simps(2) following_def [symmetric] Let_def parsed_def by (simp split: option.split)
  have loop: "station_loop link_slot station (Some q) listed r =
      (case parsed of
         None \<Rightarrow> station_loop link_slot station following listed r
       | Some ident \<Rightarrow> if ri_is_link ident then station_loop link_slot station following listed r
           else (case ddial_roster_put_locked (ri_handle ident) link_slot (ri_slot ident) (Some station) r of
                     None \<Rightarrow> None
                   | Some r \<Rightarrow> station_loop link_slot station following
                       (listed @ [ddial_roster_make_key (ri_handle ident) link_slot (ri_slot ident)]) r))"
    unfolding station_loop.simps(2) following_def [symmetric] Let_def parsed_def by (rule refl)
  show ?case
  proof (cases parsed)
    case None
    then show ?thesis using IH(1) by (simp add: loop users)
  next
    case (Some ident)
    show ?thesis
    proof (cases "ri_is_link ident")
      case True
      then show ?thesis using IH(2) Some by (simp add: loop users)
    next
      case False
      then show ?thesis using IH(3) Some
        by (auto simp: loop users station_requests_def station_keys_def Let_def option.map_comp comp_def split: option.split)
    qed
  qed
qed

text \<open>Keys of users in a list are not empty.\<close>

lemma make_key_not_empty: "handle \<noteq> [] \<Longrightarrow> ddial_roster_make_key handle link_slot slot \<noteq> []"
  by (simp add: ddial_roster_make_key_def DDIAL_ROSTER_KEY_LEN_def DDIAL_MAX_HANDLE_LEN_def snprintf_into_def)

lemma identity_handle: "ddial_roster_parse_identity p limit DDIAL_MAX_HANDLE_LEN = Some ident \<Longrightarrow> ri_handle ident \<noteq> []"
  by (auto simp: ddial_roster_parse_identity_def Let_def DDIAL_MAX_HANDLE_LEN_def split: option.splits prod.splits if_splits)

lemma station_users_handles: "(handle, slot) \<in> set (station_users room q) \<Longrightarrow> handle \<noteq> []"
proof (induction room q rule: station_users.induct)
  case (1 room)
  then show ?case by (simp add: station_users.simps)
next
  case (2 room q)
  then show ?case
    by (auto simp: station_users.simps(2) [of room q] Let_def dest: identity_handle split: option.splits if_splits)
qed

section \<open>Removing who is no longer listed\<close>

definition gone :: "cstr \<Rightarrow> cstr list \<Rightarrow> ddial_roster_entry \<Rightarrow> bool" where
  "gone station listed e \<longleftrightarrow> strcasecmp_eq (re_station e) station \<and> re_key e \<notin> set listed"

definition swept :: "cstr \<Rightarrow> cstr list \<Rightarrow> roster_bucket \<Rightarrow> roster_bucket" where
  "swept station listed b = (case b of RosterUsed e \<Rightarrow> if gone station listed e then RosterTombstone else b | _ \<Rightarrow> b)"

lemma sweep_bucket_eq:
  "roster_buckets (sweep_bucket station listed i r) = (roster_buckets r)[i := swept station listed (roster_buckets r ! i)]"
proof (cases "roster_buckets r ! i")
  case (RosterUsed e)
  then show ?thesis
    using list_update_id [of "roster_buckets r" i] by (simp add: sweep_bucket_def swept_def gone_def ddial_roster_remove_at_locked_def)
next
  case RosterEmpty
  then show ?thesis using list_update_id [of "roster_buckets r" i] by (simp add: sweep_bucket_def swept_def)
next
  case RosterTombstone
  then show ?thesis using list_update_id [of "roster_buckets r" i] by (simp add: sweep_bucket_def swept_def)
qed

lemma sweep_bucket_ok: "roster_ok r \<Longrightarrow> i < DDIAL_ROSTER_BUCKETS \<Longrightarrow> roster_ok (sweep_bucket station listed i r)"
  using remove_bucket(1) [OF _ _ _ refl] by (auto simp: sweep_bucket_def split: roster_bucket.split)

lemma sweep_buckets:
  assumes "roster_ok r" "n \<le> DDIAL_ROSTER_BUCKETS"
  shows "roster_ok (fold (sweep_bucket station listed) [0..<n] r) \<and>
    roster_buckets (fold (sweep_bucket station listed) [0..<n] r) =
      map (swept station listed) (take n (roster_buckets r)) @ drop n (roster_buckets r)"
  using assms(2)
proof (induction n)
  case 0
  then show ?case using assms(1) by simp
next
  case (Suc n)
  define r1 where "r1 = fold (sweep_bucket station listed) [0..<n] r"
  have r1: "roster_ok r1" "roster_buckets r1 = map (swept station listed) (take n (roster_buckets r)) @ drop n (roster_buckets r)"
    using Suc by (simp_all add: r1_def)
  have len: "length (roster_buckets r) = DDIAL_ROSTER_BUCKETS" by (rule roster_okD(1) [OF assms(1)])
  have n: "n < length (roster_buckets r)" using Suc.prems len by simp
  have "roster_buckets (sweep_bucket station listed n r1) =
      map (swept station listed) (take n (roster_buckets r)) @ swept station listed (roster_buckets r ! n) # drop (Suc n) (roster_buckets r)"
    using n by (subst sweep_bucket_eq) (simp_all add: r1(2) nth_append list_update_append Cons_nth_drop_Suc [symmetric])
  then show ?case using n Suc.prems sweep_bucket_ok [OF r1(1), of n] by (simp add: r1_def [symmetric] take_Suc_conv_app_nth)
qed

lemma used_swept: "used_entries (map (swept station listed) t) = filter (\<lambda>e. \<not> gone station listed e) (used_entries t)"
proof (induction t)
  case (Cons b t)
  then show ?case by (cases b) (simp_all add: swept_def)
qed simp

definition sweep_map :: "cstr \<Rightarrow> cstr list \<Rightarrow> (cstr \<Rightarrow> ddial_roster_entry option) \<Rightarrow> cstr \<Rightarrow> ddial_roster_entry option" where
  "sweep_map station listed m k = (case m k of None \<Rightarrow> None | Some e \<Rightarrow> if gone station listed e then None else Some e)"

lemma station_sweep_map:
  assumes "roster_ok r"
  shows "roster_ok (station_sweep station listed r)" "roster_map (station_sweep station listed r) = sweep_map station listed (roster_map r)"
proof -
  have b: "roster_buckets (station_sweep station listed r) = map (swept station listed) (roster_buckets r)"
    and ok: "roster_ok (station_sweep station listed r)"
    using sweep_buckets [OF assms order_refl] roster_okD(1) [OF assms] by (simp_all add: station_sweep_def)
  show "roster_ok (station_sweep station listed r)" by (rule ok)
  show "roster_map (station_sweep station listed r) = sweep_map station listed (roster_map r)"
  proof (rule map_eq_by_Some)
    fix k x
    have "sweep_map station listed (roster_map r) k = Some x \<longleftrightarrow> roster_map r k = Some x \<and> \<not> gone station listed x"
      by (auto simp: sweep_map_def split: option.split if_splits)
    then show "roster_map (station_sweep station listed r) k = Some x \<longleftrightarrow> sweep_map station listed (roster_map r) k = Some x"
      by (simp add: roster_map_Some [OF ok] roster_map_Some [OF assms] b used_swept)
  qed
qed

section \<open>What a line says\<close>

type_synonym roster_contents = "cstr \<Rightarrow> ddial_roster_entry option"

text \<open>A line lists the users of a station, shows a user, takes one away, or says nothing.\<close>

datatype roster_news = NewsList cstr "roster_request list" | NewsSeen roster_request | NewsGone roster_request | NewsNothing

definition line_news :: "cstr option \<Rightarrow> cstr \<Rightarrow> roster_news" where
  "line_news own line =
     (if take 8 line = ''[SYSOP] '' then
        (case station_head (drop 8 line) of
           None \<Rightarrow> NewsNothing
         | Some (link_slot, station, first) \<Rightarrow>
             if (case own of None \<Rightarrow> False | Some s \<Rightarrow> strcasecmp_eq s station) then NewsNothing
             else NewsList station (station_requests link_slot station (station_users DDIAL_ROSTER_MAX first)))
      else if take 7 line = ''[LINK] '' then
        (case event_parts (drop 7 line) of
           None \<Rightarrow> NewsNothing
         | Some (sign, ident) \<Rightarrow>
             if ri_is_link ident then NewsNothing
             else (if sign = CHR ''+'' then NewsSeen else NewsGone) (ri_handle ident, ri_link ident, ri_slot ident, None))
      else case ddial_parse_incoming_chat DDIAL_MAX_HANDLE_LEN line of
             None \<Rightarrow> NewsNothing
           | Some c \<Rightarrow>
               if \<not> id_is_link (cl_identity c) \<and> id_handle (cl_identity c) \<noteq> []
               then NewsSeen (id_handle (cl_identity c), cl_link_slot c, id_slot (cl_identity c), None)
               else NewsNothing)"

definition seen_effect :: "roster_request \<Rightarrow> roster_contents \<Rightarrow> roster_contents" where
  "seen_effect q m = (if request_key q \<noteq> [] then bounded_store DDIAL_ROSTER_MAX (request_key q) (request_fill q) m else m)"

fun news_effect :: "roster_news \<Rightarrow> roster_contents \<Rightarrow> roster_contents" where
  "news_effect (NewsList station qs) m = sweep_map station (map request_key qs) (fold seen_effect qs m)"
| "news_effect (NewsSeen q) m = seen_effect q m"
| "news_effect (NewsGone q) m = m(request_key q := None)"
| "news_effect NewsNothing m = m"

lemma seen_effect_fold:
  "seen_effect = (\<lambda>q m. if request_key q \<noteq> [] then bounded_store DDIAL_ROSTER_MAX (request_key q) (request_fill q) m else m)"
  by (intro ext) (simp add: seen_effect_def)

lemma request_keys: "map request_key (station_requests link_slot station users) = station_keys link_slot users"
  by (simp add: station_requests_def station_keys_def split_def)

lemma seen_news:
  assumes "roster_ok r"
  shows "\<exists>r'. ddial_roster_put_locked handle link_slot slot station r = Some r' \<and> roster_ok r' \<and>
    roster_map r' = seen_effect (handle, link_slot, slot, station) (roster_map r)"
  using put_request [OF assms, of "(handle, link_slot, slot, station)"] unfolding seen_effect_def roster_put.simps .

lemma list_news:
  assumes "roster_ok r"
  shows "\<exists>listed r1. station_loop link_slot station first [] r = Some (listed, r1) \<and> roster_ok (station_sweep station listed r1) \<and>
    roster_map (station_sweep station listed r1) =
      news_effect (NewsList station (station_requests link_slot station (station_users DDIAL_ROSTER_MAX first))) (roster_map r)"
proof -
  define users where "users = station_users DDIAL_ROSTER_MAX first"
  obtain r1 where r1: "fold_opt roster_put (station_requests link_slot station users) r = Some r1" "roster_ok r1"
      "roster_map r1 = fold seen_effect (station_requests link_slot station users) (roster_map r)"
    using roster_table.store_all [OF assms] unfolding seen_effect_fold by metis
  have "station_loop link_slot station first [] r = Some (station_keys link_slot users, r1)"
    using r1(1) by (simp add: station_loop_users users_def)
  then show ?thesis
    using station_sweep_map [OF r1(2)] r1(3) by (simp add: request_keys users_def)
qed

text \<open>Every line does to the table what its news does to the map.\<close>

lemma note_locked_news:
  assumes "roster_ok r"
  shows "\<exists>r'. ddial_roster_note_locked own line r = Some r' \<and> roster_ok r' \<and>
    roster_map r' = news_effect (line_news own line) (roster_map r)"
proof -
  consider (sysop) "take 8 line = ''[SYSOP] ''" | (link) "take 8 line \<noteq> ''[SYSOP] ''" "take 7 line = ''[LINK] ''"
    | (chat) "take 8 line \<noteq> ''[SYSOP] ''" "take 7 line \<noteq> ''[LINK] ''" by blast
  then show ?thesis
  proof cases
    case sysop
    show ?thesis
    proof (cases "station_head (drop 8 line)")
      case None
      then show ?thesis using assms sysop
        by (simp add: ddial_roster_note_locked_def line_news_def ddial_roster_note_station_list_locked_def)
    next
      case (Some h)
      obtain link_slot station first where h: "h = (link_slot, station, first)" by (cases h) auto
      show ?thesis using assms sysop Some h list_news [OF assms, of link_slot station first]
        by (auto simp: ddial_roster_note_locked_def line_news_def ddial_roster_note_station_list_locked_def simp del: news_effect.simps(1))
    qed
  next
    case link
    show ?thesis
    proof (cases "event_parts (drop 7 line)")
      case None
      then show ?thesis using assms link by (simp add: ddial_roster_note_locked_def line_news_def ddial_roster_note_event_locked_def)
    next
      case (Some h)
      obtain sign ident where h: "h = (sign, ident)" by (cases h)
      show ?thesis
        using assms link Some h seen_news [OF assms, of "ri_handle ident" "ri_link ident" "ri_slot ident" None]
          remove_request [OF assms, of "(ri_handle ident, ri_link ident, ri_slot ident, None)"]
        by (simp add: ddial_roster_note_locked_def line_news_def ddial_roster_note_event_locked_def)
    qed
  next
    case chat
    show ?thesis
    proof (cases "ddial_parse_incoming_chat DDIAL_MAX_HANDLE_LEN line")
      case None
      then show ?thesis using assms chat by (simp add: ddial_roster_note_locked_def line_news_def)
    next
      case (Some c)
      show ?thesis
        using assms chat Some seen_news [OF assms, of "id_handle (cl_identity c)" "cl_link_slot c" "id_slot (cl_identity c)" None]
        by (simp add: ddial_roster_note_locked_def line_news_def)
    qed
  qed
qed

lemma empty_line_news: "line_news own [] = NewsNothing"
proof -
  have "ddial_parse_incoming_chat DDIAL_MAX_HANDLE_LEN [] = None" by code_simp
  then show ?thesis by (simp add: line_news_def)
qed

lemma note_line_news:
  assumes "roster_ok r"
  shows "\<exists>r'. ddial_roster_note_line own line r = Some r' \<and> roster_ok r' \<and>
    roster_map r' = news_effect (line_news own line) (roster_map r)"
  using note_locked_news [OF assms] assms by (simp add: ddial_roster_note_line_def empty_line_news)

lemma note_lines_news:
  assumes "roster_ok r"
  shows "\<exists>r'. fold_opt (ddial_roster_note_line own) lines r = Some r' \<and> roster_ok r' \<and>
    roster_map r' = fold (\<lambda>line. news_effect (line_news own line)) lines (roster_map r)"
  using assms
proof (induction lines arbitrary: r)
  case (Cons line lines)
  from note_line_news [OF Cons.prems] obtain r1 where
    r1: "ddial_roster_note_line own line r = Some r1" "roster_ok r1" "roster_map r1 = news_effect (line_news own line) (roster_map r)"
    by blast
  then show ?case using Cons.IH [OF r1(2)] by simp
qed simp

lemma note_all_news:
  assumes "roster_ok r"
  shows "\<exists>r'. note_all own es r = Some r' \<and> roster_ok r' \<and>
    roster_map r' = fold (\<lambda>line. news_effect (line_news own line)) (map snd (filter (\<lambda>(is_user, m). \<not> is_user) es)) (roster_map r)"
  using assms
proof (induction es arbitrary: r)
  case (Cons x es)
  obtain is_user message where x: "x = (is_user, message)" by (cases x)
  show ?case
  proof (cases is_user)
    case True
    then show ?thesis using Cons by (simp add: x)
  next
    case False
    from note_locked_news [OF Cons.prems] obtain r1 where
      r1: "ddial_roster_note_locked own message r = Some r1" "roster_ok r1"
        "roster_map r1 = news_effect (line_news own message) (roster_map r)"
      by blast
    then show ?thesis using Cons.IH [OF r1(2)] False by (simp add: x)
  qed
qed simp

lemma used_empty: "used_entries (replicate n RosterEmpty) = []"
  by (induction n) simp_all

lemma empty_roster_ok: "roster_ok empty_roster" "roster_map empty_roster = Map.empty"
  by (simp_all add: roster_ok_def roster_map_def empty_roster_def used_empty)

end
