(* ===== verification/Roster_Main.thy ===== *)
theory Roster_Main
  imports Roster_Lines
begin

text \<open>
  What the roster promises: it is the map that the news of the lines make, a station list
  leaves exactly the users it names, and users are found from their login to their logout.
\<close>

lemma distinct_singleton_set:
  assumes "distinct xs" "set xs = {x}"
  shows "xs = [x]"
proof (cases xs)
  case (Cons y ys)
  then have "y = x" "set ys \<subseteq> {x}" "y \<notin> set ys" using assms by auto
  then show ?thesis using Cons by (cases ys) auto
qed (use assms in simp)

section \<open>Reading the roster\<close>

lemma find_map:
  assumes "roster_ok r"
  shows "ddial_roster_find is_local handle r =
    (if handle = [] \<or> handle = ''?'' then None
     else case roster_map r (ddial_roster_make_key handle 0 0) of
            None \<Rightarrow> None
          | Some e \<Rightarrow> if re_link_slot e = 0 \<and> \<not> is_local handle then Some (re_slot e) else None)"
proof (cases "ddial_roster_lookup_locked (ddial_roster_make_key handle 0 0) r")
  case None
  then show ?thesis using lookup_absent [OF assms None] by (simp add: ddial_roster_find_def)
next
  case (Some i)
  then obtain e where "roster_buckets r ! i = RosterUsed e" "roster_map r (ddial_roster_make_key handle 0 0) = Some e"
    by (rule lookup_found [OF assms])
  then show ?thesis using Some by (simp add: ddial_roster_find_def)
qed

lemma key_variant:
  assumes "strcasecmp_eq handle' handle" "handle \<noteq> ''?''"
  shows "ddial_roster_make_key handle' l' s' = ddial_roster_make_key handle l s" "handle' \<noteq> ''?''"
proof -
  have c: "c = CHR ''?''" if "c_tolower c = CHR ''?''" for c
  proof (cases "c_isupper c")
    case True
    then have "code (c_tolower c) = code c + 32" by (simp add: c_tolower_def c_isupper_def)
    then show ?thesis using True that by (simp add: c_isupper_def)
  next
    case False
    then show ?thesis using that by (simp add: c_tolower_def)
  qed
  have q: "x = ''?''" if m: "map c_tolower x = ''?''" for x
  proof (cases x)
    case (Cons a y)
    then show ?thesis using m c [of a] by simp
  qed (use m in simp)
  have "map c_tolower handle' \<noteq> ''?''"
    using assms q [of handle] by (auto simp: strcasecmp_eq_def)
  then show "handle' \<noteq> ''?''" by (auto simp: c_tolower_def c_isupper_def)
  then show "ddial_roster_make_key handle' l' s' = ddial_roster_make_key handle l s"
    using assms by (simp add: ddial_roster_make_key_def strcasecmp_eq_def)
qed

section \<open>The news of station lists\<close>

lemma list_news_requests:
  assumes "line_news own line = NewsList station qs"
  shows "length station < DDIAL_MAX_HANDLE_LEN"
    "q \<in> set qs \<Longrightarrow> request_key q \<noteq> [] \<and> re_key (request_fill q old) = (case old of None \<Rightarrow> request_key q | Some e \<Rightarrow> re_key e) \<and>
       re_station (request_fill q old) = station"
proof -
  obtain link_slot first where head: "station_head (drop 8 line) = Some (link_slot, station, first)"
    and qs: "qs = station_requests link_slot station (station_users DDIAL_ROSTER_MAX first)"
    using assms by (auto simp: line_news_def split: if_splits option.splits)
  have "length station \<le> DDIAL_MAX_HANDLE_LEN - 1"
    using head by (auto simp: station_head_def Let_def split: option.splits prod.splits list.splits if_splits)
  then show len: "length station < DDIAL_MAX_HANDLE_LEN" by (simp add: DDIAL_MAX_HANDLE_LEN_def)
  show "request_key q \<noteq> [] \<and> re_key (request_fill q old) = (case old of None \<Rightarrow> request_key q | Some e \<Rightarrow> re_key e) \<and>
      re_station (request_fill q old) = station" if q: "q \<in> set qs"
  proof -
    obtain handle slot where q': "q = (handle, link_slot, slot, Some station)" "(handle, slot) \<in> set (station_users DDIAL_ROSTER_MAX first)"
      using q by (auto simp: qs station_requests_def)
    have "handle \<noteq> []" by (rule station_users_handles [OF q'(2)])
    then show ?thesis
      using make_key_not_empty len by (simp add: q'(1) fill_entry_def fresh_entry_def split: option.split)
  qed
qed

text \<open>With room for all, the list stores every user it names, and touches no other.\<close>

lemma fold_seen_keys:
  assumes "line_news own line = NewsList station qs" "finite (dom m)" "card (dom m) + length qs \<le> DDIAL_ROSTER_MAX"
  shows "k \<in> request_key ` set qs \<Longrightarrow> \<exists>e. fold seen_effect qs m k = Some e \<and> re_station e = station"
    "k \<notin> request_key ` set qs \<Longrightarrow> fold seen_effect qs m k = m k"
proof -
  note q = list_news_requests [OF assms(1)]
  have valid: "{q \<in> set qs. request_key q \<noteq> []} = set qs" using q(2) by auto
  show "\<exists>e. fold seen_effect qs m k = Some e \<and> re_station e = station" if "k \<in> request_key ` set qs"
    using roster_table.fold_store_present [OF _ assms(2,3), of k] that q(2) unfolding valid seen_effect_fold by metis
  show "fold seen_effect qs m k = m k" if "k \<notin> request_key ` set qs"
    using roster_table.fold_store_other [of k qs m] that unfolding valid seen_effect_fold by blast
qed

section \<open>Properties\<close>

lemmas roster_line_simps = line_news_def event_parts_def station_head_def ddial_roster_parse_identity_def roster_link_prefix_def
  ddial_roster_is_entry_def ddial_roster_next_entry_def station_users.simps station_requests_def drop_trailing_def before_def
  strtoul_digits_def digits_val_def digit_val_def SIZE_MAX_def c_isdigit_def UINT16_MAX_def DDIAL_MAX_HANDLE_LEN_def Let_def

text \<open>
  C19: The roster implements its specification: seeding it from the history and feeding it any
  lines ends, the search loops included, keeps the invariant of the hash table, and leaves
  the map made by the news of the last 2048 messages that no user wrote and of the lines,
  one after the other.
\<close>

theorem roster_follows_lines:
  "\<exists>r0 r. ddial_roster_seed_from_history own entries empty_roster = Some r0 \<and>
     fold_opt (ddial_roster_note_line own) lines r0 = Some r \<and> roster_ok r \<and>
     roster_map r = fold (\<lambda>line. news_effect (line_news own line))
       (map snd (filter (\<lambda>(is_user, m). \<not> is_user) (drop (length entries - DDIAL_ROSTER_HISTORY_SCAN) entries)) @ lines) Map.empty"
proof -
  obtain r0 where r0: "ddial_roster_seed_from_history own entries empty_roster = Some r0" "roster_ok r0"
      "roster_map r0 = fold (\<lambda>line. news_effect (line_news own line))
         (map snd (filter (\<lambda>(is_user, m). \<not> is_user) (drop (length entries - DDIAL_ROSTER_HISTORY_SCAN) entries))) Map.empty"
    using note_all_news [OF empty_roster_ok(1)] unfolding ddial_roster_seed_from_history_def empty_roster_ok(2) by metis
  obtain r where "fold_opt (ddial_roster_note_line own) lines r0 = Some r" "roster_ok r"
      "roster_map r = fold (\<lambda>line. news_effect (line_news own line)) lines (roster_map r0)"
    using note_lines_news [OF r0(2)] by metis
  then show ?thesis using r0(1,3) by (intro exI [of _ r0] exI [of _ r]) simp
qed

text \<open>
  A station list is exact: where the roster, after any lines, has room for the users the
  list names, afterwards the users it shows for that station are those users and no others,
  and users of other stations that the list does not name are as before.
\<close>

theorem station_list_exact:
  assumes "fold_opt (ddial_roster_note_line own) lines empty_roster = Some r"
    and "line_news own line = NewsList station qs" "roster_count r + length qs \<le> DDIAL_ROSTER_MAX"
  shows "\<exists>r'. ddial_roster_note_line own line r = Some r' \<and>
    {k. \<exists>e. roster_map r' k = Some e \<and> strcasecmp_eq (re_station e) station} = request_key ` set qs \<and>
    {(k, e). k \<notin> request_key ` set qs \<and> roster_map r' k = Some e} =
      {(k, e). k \<notin> request_key ` set qs \<and> roster_map r k = Some e \<and> \<not> strcasecmp_eq (re_station e) station}"
proof -
  have ok: "roster_ok r" using note_lines_news [OF empty_roster_ok(1), of own lines] assms(1) by auto
  note size = roster_map_size [OF ok]
  obtain r' where r': "ddial_roster_note_line own line r = Some r'" "roster_ok r'"
      "roster_map r' = sweep_map station (map request_key qs) (fold seen_effect qs (roster_map r))"
    using note_line_news [OF ok, of own line] assms(2) by auto
  have full: "fold seen_effect qs (roster_map r) k = Some e \<Longrightarrow> re_key e = k" for k e
  proof -
    obtain r1 where "roster_ok r1" "roster_map r1 = fold seen_effect qs (roster_map r)"
      using roster_table.store_all [OF ok, of qs] unfolding seen_effect_fold by metis
    then show "fold seen_effect qs (roster_map r) k = Some e \<Longrightarrow> re_key e = k" using roster_map_Some by metis
  qed
  have m: "roster_map r' k = Some e \<longleftrightarrow> fold seen_effect qs (roster_map r) k = Some e \<and>
      (strcasecmp_eq (re_station e) station \<longrightarrow> k \<in> request_key ` set qs)" for k e
    using full by (auto simp: r'(3) sweep_map_def gone_def split: option.split)
  note keys = fold_seen_keys [OF assms(2) size(1), unfolded size(2), OF assms(3)]
  have "{k. \<exists>e. roster_map r' k = Some e \<and> strcasecmp_eq (re_station e) station} = request_key ` set qs"
    unfolding set_eq_iff mem_Collect_eq m using keys(1) strcasecmp_eq_refl by metis
  moreover have "{(k, e). k \<notin> request_key ` set qs \<and> roster_map r' k = Some e} =
      {(k, e). k \<notin> request_key ` set qs \<and> roster_map r k = Some e \<and> \<not> strcasecmp_eq (re_station e) station}"
    using keys(2) by (auto simp: m)
  ultimately show ?thesis using r'(1) by blast
qed

theorem station_list_exact_witness:
  "\<exists>r'. ddial_roster_note_line None ''[SYSOP] 73-.SynerChat #0[T1:Mae #2<T1:Joe:232'' empty_roster = Some r' \<and>
     {k. \<exists>e. roster_map r' k = Some e \<and> strcasecmp_eq (re_station e) ''SynerChat''} = {''mae'', ''joe''} \<and>
     {(k, e). k \<notin> {''mae'', ''joe''} \<and> roster_map r' k = Some e} =
       {(k, e). k \<notin> {''mae'', ''joe''} \<and> roster_map empty_roster k = Some e \<and> \<not> strcasecmp_eq (re_station e) ''SynerChat''}"
proof -
  define qs where "qs = [(''Mae'', 73::nat, 0::nat, Some ''SynerChat''), (''Joe'', 73, 2, Some ''SynerChat'')]"
  have news: "line_news None ''[SYSOP] 73-.SynerChat #0[T1:Mae #2<T1:Joe:232'' = NewsList ''SynerChat'' qs"
    unfolding qs_def by (simp add: roster_line_simps DDIAL_ROSTER_MAX_def)
  have "request_key (''Mae'', 73, 0, Some ''SynerChat'') = ''mae''" "request_key (''Joe'', 73, 2, Some ''SynerChat'') = ''joe''"
    by (simp_all add: ddial_roster_make_key_def DDIAL_ROSTER_KEY_LEN_def DDIAL_MAX_HANDLE_LEN_def c_tolower_def c_isupper_def char_of_def bit_0)
  then have keys: "request_key ` set qs = {''mae'', ''joe''}" by (simp add: qs_def del: request_key.simps)
  have room: "roster_count empty_roster + length qs \<le> DDIAL_ROSTER_MAX" by (simp add: empty_roster_def qs_def DDIAL_ROSTER_MAX_def)
  show ?thesis using station_list_exact [OF _ news room, of "[]"] unfolding keys by simp
qed

text \<open>
  A user is found from login to logout: where the roster, after any lines, has room, a line
  that shows a user of the linked station makes every spelling of the handle that differs
  only in case resolve to the slot of that line, unless the handle is local, and a line that
  takes the user away makes it resolve to nothing.
\<close>

theorem login_found_until_logout:
  assumes "fold_opt (ddial_roster_note_line own) lines empty_roster = Some r" "roster_count r < DDIAL_ROSTER_MAX"
    and "line_news own login = NewsSeen (handle, 0, slot, station)" "handle \<noteq> []" "handle \<noteq> ''?''"
    and "line_news own logout = NewsGone (handle, l, s, station')"
    and "strcasecmp_eq handle' handle" "\<not> is_local handle'"
  shows "\<exists>r1 r2. ddial_roster_note_line own login r = Some r1 \<and> ddial_roster_find is_local handle' r1 = Some slot \<and>
    ddial_roster_note_line own logout r1 = Some r2 \<and> ddial_roster_find is_local handle' r2 = None"
proof -
  have ok: "roster_ok r" using note_lines_news [OF empty_roster_ok(1), of own lines] assms(1) by auto
  define key where "key = ddial_roster_make_key handle 0 slot"
  have keys: "ddial_roster_make_key handle l s = key" "ddial_roster_make_key handle' 0 0 = key" "handle' \<noteq> ''?''" "handle' \<noteq> []" "key \<noteq> []"
    using key_variant [OF assms(7,5)] key_variant(1) [OF strcasecmp_eq_refl assms(5)] assms(4,7) make_key_not_empty
    by (auto simp: key_def)
  obtain r1 where r1: "ddial_roster_note_line own login r = Some r1" "roster_ok r1"
      "roster_map r1 = seen_effect (handle, 0, slot, station) (roster_map r)"
    using note_line_news [OF ok, of own login] assms(3) by auto
  have "roster_map r1 key = Some (request_fill (handle, 0, slot, station) (roster_map r key))"
    using keys(5) assms(2) by (simp add: r1(3) seen_effect_def bounded_store_def roster_map_size [OF ok] key_def [symmetric])
  then have find1: "ddial_roster_find is_local handle' r1 = Some slot"
    using keys assms(8) by (simp add: find_map [OF r1(2)] fill_entry_def)
  obtain r2 where r2: "ddial_roster_note_line own logout r1 = Some r2" "roster_ok r2" "roster_map r2 = (roster_map r1)(key := None)"
    using note_line_news [OF r1(2), of own logout] assms(6) keys(1) by auto
  have "ddial_roster_find is_local handle' r2 = None" using keys by (simp add: find_map [OF r2(2)] r2(3))
  then show ?thesis using r1(1) find1 r2(1) by blast
qed

theorem login_found_until_logout_witness:
  "\<exists>r1 r2. ddial_roster_note_line None ''[LINK] -->. + #5[T1:Freddy:#123*'' empty_roster = Some r1 \<and>
     ddial_roster_find (\<lambda>h. False) ''FREDDY'' r1 = Some 5 \<and>
     ddial_roster_note_line None ''[LINK] -->. - #5[T1:Freddy:#123*'' r1 = Some r2 \<and>
     ddial_roster_find (\<lambda>h. False) ''FREDDY'' r2 = None"
proof -
  have news: "line_news None ''[LINK] -->. + #5[T1:Freddy:#123*'' = NewsSeen (''Freddy'', 0, 5, None)"
    "line_news None ''[LINK] -->. - #5[T1:Freddy:#123*'' = NewsGone (''Freddy'', 0, 5, None)"
    "strcasecmp_eq ''FREDDY'' ''Freddy''"
    by (simp_all add: roster_line_simps strcasecmp_eq_def c_tolower_def c_isupper_def char_of_def bit_0)
  have "roster_count empty_roster < DDIAL_ROSTER_MAX" by (simp add: empty_roster_def DDIAL_ROSTER_MAX_def)
  then show ?thesis
    using login_found_until_logout [OF _ _ news(1) _ _ news(2,3), of "[]" empty_roster "\<lambda>h. False"] by simp
qed

text \<open>
  A snapshot with room for the whole roster holds each user once, and is the roster less the
  users that are local or excluded; guests are always in it.
\<close>

theorem snapshot_complete:
  assumes "fold_opt (ddial_roster_note_line own) lines empty_roster = Some r" "DDIAL_ROSTER_MAX \<le> cap"
  shows "set (ddial_roster_snapshot is_local exclude cap r) =
      {e \<in> ran (roster_map r). re_handle e = ''?'' \<or>
         \<not> (exclude \<noteq> [] \<and> strcasecmp_eq (re_handle e) exclude) \<and> \<not> is_local (re_handle e)} \<and>
    distinct (map re_key (ddial_roster_snapshot is_local exclude cap r))"
proof -
  have ok: "roster_ok r" using note_lines_news [OF empty_roster_ok(1), of own lines] assms(1) by auto
  define es where "es = used_entries (roster_buckets r)"
  have es: "length es \<le> DDIAL_ROSTER_MAX" "distinct (map re_key es)" using roster_okD(2-4) [OF ok] by (simp_all add: es_def)
  have short: "length (filter P es) \<le> cap" for P by (rule order_trans [OF length_filter_le order_trans [OF es(1) assms(2)]])
  have snap: "ddial_roster_snapshot is_local exclude cap r =
      filter (\<lambda>e. \<not> (re_handle e \<noteq> ''?'' \<and> (exclude \<noteq> [] \<and> strcasecmp_eq (re_handle e) exclude \<or> is_local (re_handle e)))) es"
    using es(1) short by (simp add: ddial_roster_snapshot_def used_entries_def [symmetric] es_def [symmetric])
  have ran: "ran (roster_map r) = set es" using roster_map_Some [OF ok] by (auto simp: ran_def es_def)
  have "distinct (map re_key (ddial_roster_snapshot is_local exclude cap r))"
    unfolding snap using es(2) by (rule distinct_map_filter)
  then show ?thesis unfolding snap ran by auto
qed

theorem snapshot_complete_witness:
  "\<exists>r. ddial_roster_note_line None ''[LINK] -->. + #5[T1:Freddy:#123*'' empty_roster = Some r \<and>
     map re_handle (ddial_roster_snapshot (\<lambda>h. False) [] 512 r) = [''Freddy''] \<and>
     ddial_roster_snapshot (\<lambda>h. h = ''Freddy'') [] 512 r = []"
proof -
  have news: "line_news None ''[LINK] -->. + #5[T1:Freddy:#123*'' = NewsSeen (''Freddy'', 0, 5, None)"
    by (simp add: roster_line_simps)
  obtain r where r: "ddial_roster_note_line None ''[LINK] -->. + #5[T1:Freddy:#123*'' empty_roster = Some r"
      "roster_map r = seen_effect (''Freddy'', 0, 5, None) Map.empty"
    using note_line_news [OF empty_roster_ok(1), of None "''[LINK] -->. + #5[T1:Freddy:#123*''"]
    unfolding news news_effect.simps empty_roster_ok(2) by blast
  define e where "e = request_fill (''Freddy'', 0, 5, None) None"
  have e: "ran (roster_map r) = {e}" "re_handle e = ''Freddy''"
    by (simp_all add: r(2) e_def seen_effect_def bounded_store_def DDIAL_ROSTER_MAX_def make_key_not_empty fill_entry_def
      DDIAL_MAX_HANDLE_LEN_def)
  have run: "fold_opt (ddial_roster_note_line None) [''[LINK] -->. + #5[T1:Freddy:#123*''] empty_roster = Some r"
    using r(1) by simp
  note snap = snapshot_complete [OF run, of 512]
  have all: "set (ddial_roster_snapshot (\<lambda>h. False) [] 512 r) = {e}" "distinct (map re_key (ddial_roster_snapshot (\<lambda>h. False) [] 512 r))"
    "set (ddial_roster_snapshot (\<lambda>h. h = ''Freddy'') [] 512 r) = {}"
    using snap [of "\<lambda>h. False" "[]"] snap [of "\<lambda>h. h = ''Freddy''" "[]"] e by (auto simp: DDIAL_ROSTER_MAX_def)
  have "ddial_roster_snapshot (\<lambda>h. False) [] 512 r = [e]"
    by (rule distinct_singleton_set [OF conjunct1 [OF iffD1 [OF distinct_map all(2)]] all(1)])
  then show ?thesis using r(1) e(2) all(3) by simp
qed

end
