(* ===== verification/Othello_Board.thy ===== *)
theory Othello_Board
  imports Prelude
begin

text \<open>
  The board rules of the Othello game (\<^verbatim>\<open>src/host/games/othello.c\<close>): bounds, the
  count of discs that a move flips, the move itself, scores, the list of legal
  moves, coordinates.

  The board array is a function from row and column; the code only reads and
  writes it inside the bounds.
\<close>

section \<open>State\<close>

datatype othello_cell_type = OTHELLO_CELL_EMPTY | OTHELLO_CELL_RED | OTHELLO_CELL_GREEN

type_synonym othello_board = "int \<times> int \<Rightarrow> othello_cell_type"

record othello_game_state =
  board :: othello_board
  player_turn :: bool
  game_over :: bool
  consecutive_passes :: nat
  red_score :: nat
  green_score :: nat
  last_player_row :: int
  last_player_col :: int
  last_ai_row :: int
  last_ai_col :: int
  awaiting_mode_selection :: bool
  awaiting_difficulty_selection :: bool
  difficulty_level :: nat
  multiplayer :: bool
  awaiting_opponent :: bool
  slot_index :: int
  player_number :: nat

definition OTHELLO_BOARD_SIZE :: int where
  "OTHELLO_BOARD_SIZE = 8"

definition kOthelloDirections :: "(int \<times> int) list" where
  "kOthelloDirections =
     [(-1, -1), (-1, 0), (-1, 1), (0, -1), (0, 1), (1, -1), (1, 0), (1, 1)]"

text \<open>The squares in the order in which the double loops visit them.\<close>

definition squares :: "(int \<times> int) list" where
  "squares = [(r, c). r \<leftarrow> [0..7], c \<leftarrow> [0..7]]"

section \<open>Operations\<close>

definition in_bounds :: "int \<Rightarrow> int \<Rightarrow> bool" where
  "in_bounds row col \<longleftrightarrow>
     row \<ge> 0 \<and> row < OTHELLO_BOARD_SIZE \<and> col \<ge> 0 \<and> col < OTHELLO_BOARD_SIZE"

definition opponent_of :: "othello_cell_type \<Rightarrow> othello_cell_type" where
  "opponent_of player =
     (if player = OTHELLO_CELL_RED then OTHELLO_CELL_GREEN else OTHELLO_CELL_RED)"

text \<open>The loop of the direction count.  A direction is never zero in both
  coordinates; the test for that makes the recursion total.\<close>

function direction_loop ::
  "othello_board \<Rightarrow> othello_cell_type \<Rightarrow> int \<Rightarrow> int \<Rightarrow> int \<Rightarrow> int \<Rightarrow> nat \<Rightarrow> nat" where
  "direction_loop b player drow dcol r c count =
     (if in_bounds r c \<and> (drow \<noteq> 0 \<or> dcol \<noteq> 0) then
        if b (r, c) = opponent_of player
        then direction_loop b player drow dcol (r + drow) (c + dcol) (Suc count)
        else if b (r, c) = player \<and> count > 0 then count
        else 0
      else 0)"
  by pat_completeness auto
termination
  by (relation "measure (\<lambda>(b, player, drow, dcol, r, c, count).
        nat (if drow > 0 then 8 - r else if drow < 0 then r + 1 else 0) +
        nat (if dcol > 0 then 8 - c else if dcol < 0 then c + 1 else 0))")
    (auto simp: in_bounds_def OTHELLO_BOARD_SIZE_def)

declare direction_loop.simps [simp del]

definition session_game_othello_direction_count ::
  "othello_board \<Rightarrow> int \<Rightarrow> int \<Rightarrow> int \<Rightarrow> int \<Rightarrow> othello_cell_type \<Rightarrow> nat" where
  "session_game_othello_direction_count b row col drow dcol player =
     direction_loop b player drow dcol (row + drow) (col + dcol) 0"

definition session_game_othello_count_flips ::
  "othello_board \<Rightarrow> int \<Rightarrow> int \<Rightarrow> othello_cell_type \<Rightarrow> nat" where
  "session_game_othello_count_flips b row col player =
     (if \<not> in_bounds row col then 0
      else if b (row, col) \<noteq> OTHELLO_CELL_EMPTY then 0
      else sum_list (map (\<lambda>(dr, dc). session_game_othello_direction_count b row col dr dc player)
                       kOthelloDirections))"

definition count_cells :: "othello_cell_type \<Rightarrow> othello_board \<Rightarrow> nat" where
  "count_cells cell b = length (filter (\<lambda>q. b q = cell) squares)"

definition session_game_othello_count_scores :: "othello_game_state \<Rightarrow> othello_game_state" where
  "session_game_othello_count_scores state =
     state\<lparr>red_score := count_cells OTHELLO_CELL_RED (board state),
           green_score := count_cells OTHELLO_CELL_GREEN (board state)\<rparr>"

definition othello_initial_board :: othello_board where
  "othello_initial_board =
     (let mid = OTHELLO_BOARD_SIZE div 2
      in (\<lambda>_. OTHELLO_CELL_EMPTY)
           ((mid - 1, mid - 1) := OTHELLO_CELL_GREEN,
            (mid, mid) := OTHELLO_CELL_GREEN,
            (mid - 1, mid) := OTHELLO_CELL_RED,
            (mid, mid - 1) := OTHELLO_CELL_RED))"

definition session_game_othello_reset_state :: othello_game_state where
  "session_game_othello_reset_state =
     session_game_othello_count_scores
       \<lparr>board = othello_initial_board, player_turn = True, game_over = False,
        consecutive_passes = 0, red_score = 0, green_score = 0,
        last_player_row = -1, last_player_col = -1, last_ai_row = -1, last_ai_col = -1,
        awaiting_mode_selection = False, awaiting_difficulty_selection = False,
        difficulty_level = 5, multiplayer = False, awaiting_opponent = False,
        slot_index = -1, player_number = 0\<rparr>"

definition session_game_othello_copy_core ::
  "othello_game_state \<Rightarrow> othello_game_state \<Rightarrow> othello_game_state" where
  "session_game_othello_copy_core dest src =
     dest\<lparr>board := board src, player_turn := player_turn src, game_over := game_over src,
          consecutive_passes := consecutive_passes src, red_score := red_score src,
          green_score := green_score src, last_player_row := last_player_row src,
          last_player_col := last_player_col src, last_ai_row := last_ai_row src,
          last_ai_col := last_ai_col src\<rparr>"

text \<open>The inner loop of a move: up to \<open>n\<close> squares of one direction are taken over.\<close>

fun flip_run ::
  "othello_cell_type \<Rightarrow> int \<Rightarrow> int \<Rightarrow> int \<Rightarrow> int \<Rightarrow> nat \<Rightarrow> othello_board \<Rightarrow> othello_board" where
  "flip_run player drow dcol r c 0 b = b"
| "flip_run player drow dcol r c (Suc n) b =
     (if in_bounds r c then flip_run player drow dcol (r + drow) (c + dcol) n (b((r, c) := player)) else b)"

definition apply_direction ::
  "othello_cell_type \<Rightarrow> int \<Rightarrow> int \<Rightarrow> int \<times> int \<Rightarrow> othello_board \<Rightarrow> othello_board" where
  "apply_direction player row col d b =
     (let (drow, dcol) = d;
          count = session_game_othello_direction_count b row col drow dcol player
      in if count = 0 then b else flip_run player drow dcol (row + drow) (col + dcol) count b)"

definition session_game_othello_apply_move ::
  "othello_game_state \<Rightarrow> int \<Rightarrow> int \<Rightarrow> othello_cell_type \<Rightarrow> othello_game_state" where
  "session_game_othello_apply_move state row col player =
     (if \<not> in_bounds row col then state
      else session_game_othello_count_scores
             (state\<lparr>board := fold (apply_direction player row col) kOthelloDirections
                               ((board state)((row, col) := player))\<rparr>))"

record othello_move =
  mv_row :: int
  mv_col :: int
  mv_flipped :: nat

definition session_game_othello_collect_moves ::
  "othello_game_state \<Rightarrow> othello_cell_type \<Rightarrow> othello_move list" where
  "session_game_othello_collect_moves state player =
     map (\<lambda>(r, c). \<lparr>mv_row = r, mv_col = c,
                     mv_flipped = session_game_othello_count_flips (board state) r c player\<rparr>)
       (filter (\<lambda>(r, c). session_game_othello_count_flips (board state) r c player > 0) squares)"

definition session_game_othello_format_coordinate :: "int \<Rightarrow> int \<Rightarrow> cstr" where
  "session_game_othello_format_coordinate row col =
     (if \<not> in_bounds row col then ''-''
      else [char_of (97 + nat col), char_of (49 + nat row)])"

text \<open>The coordinates typed by a player, in either order; without them both are -1.\<close>

definition othello_parse_move :: "cstr \<Rightarrow> int \<times> int" where
  "othello_parse_move w =
     (case w of
        a # b # _ \<Rightarrow>
          if c_isalpha a \<and> c_isdigit b then (int (code b) - 49, int (code a) - 97)
          else if c_isdigit a \<and> c_isalpha b then (int (code a) - 49, int (code b) - 97)
          else (-1, -1)
      | _ \<Rightarrow> (-1, -1))"

section \<open>The rule of the game\<close>

text \<open>\<open>bracketed b player row col d n\<close>: in direction \<open>d\<close> of the square lie exactly
  \<open>n\<close> discs of the opponent in a row and behind them one of the player.\<close>

definition step_square :: "int \<Rightarrow> int \<Rightarrow> int \<times> int \<Rightarrow> nat \<Rightarrow> int \<times> int" where
  "step_square row col d k = (row + int k * fst d, col + int k * snd d)"

definition on_board :: "int \<times> int \<Rightarrow> bool" where
  "on_board q \<longleftrightarrow> in_bounds (fst q) (snd q)"

definition bracketed ::
  "othello_board \<Rightarrow> othello_cell_type \<Rightarrow> int \<Rightarrow> int \<Rightarrow> int \<times> int \<Rightarrow> nat \<Rightarrow> bool" where
  "bracketed b player row col d n \<longleftrightarrow>
     n > 0 \<and>
     (\<forall>k\<in>{1..n}. on_board (step_square row col d k) \<and> b (step_square row col d k) = opponent_of player) \<and>
     on_board (step_square row col d (Suc n)) \<and> b (step_square row col d (Suc n)) = player"

lemma opponent_neq [simp]:
  "player \<noteq> OTHELLO_CELL_EMPTY \<Longrightarrow> opponent_of player \<noteq> player"
  "player \<noteq> OTHELLO_CELL_EMPTY \<Longrightarrow> player \<noteq> opponent_of player"
  by (cases player; simp add: opponent_of_def)+

lemma bracketed_prefix:
  assumes "bracketed b player row col d n" "player \<noteq> OTHELLO_CELL_EMPTY"
    and "\<forall>k\<in>{1..m}. b (step_square row col d k) = opponent_of player"
  shows "m \<le> n"
proof (rule ccontr)
  assume "\<not> m \<le> n"
  then have "Suc n \<in> {1..m}" by simp
  with assms show False by (auto simp: bracketed_def)
qed

lemma direction_loop_bracketed:
  "\<lbrakk>(dr, dc) \<noteq> (0, 0); player \<noteq> OTHELLO_CELL_EMPTY; r = row + int (Suc count) * dr;
    c = col + int (Suc count) * dc;
    \<forall>k\<in>{1..count}. on_board (step_square row col (dr, dc) k) \<and>
       b (step_square row col (dr, dc) k) = opponent_of player\<rbrakk> \<Longrightarrow>
   (direction_loop b player dr dc r c count = n \<and> 0 < n) \<longleftrightarrow> bracketed b player row col (dr, dc) n"
proof (induction b player dr dc r c count rule: direction_loop.induct)
  case (1 b player dr dc r c count)
  let ?q = "step_square row col (dr, dc) (Suc count)"
  have q: "?q = (r, c)" "on_board ?q = in_bounds r c"
    using 1(4,5) by (simp_all add: step_square_def on_board_def)
  have zero: "dr \<noteq> 0 \<or> dc \<noteq> 0" using 1(2) by auto
  have pre: "bracketed b player row col (dr, dc) n \<Longrightarrow> count \<le> n"
    using bracketed_prefix 1(3,6) by blast
  show ?case
  proof (cases "in_bounds r c \<and> b (r, c) = opponent_of player")
    case True
    have "direction_loop b player dr dc r c count
        = direction_loop b player dr dc (r + dr) (c + dc) (Suc count)"
      using True zero by (subst direction_loop.simps) simp
    moreover have "\<forall>k\<in>{1..Suc count}. on_board (step_square row col (dr, dc) k) \<and>
        b (step_square row col (dr, dc) k) = opponent_of player"
      using 1(6) True q by (auto simp: atLeastAtMostSuc_conv simp del: One_nat_def)
    ultimately show ?thesis
      using 1(1) [of] True zero 1(2-5) by (simp add: algebra_simps)
  next
    case False
    have longer: "\<not> count < n" if "bracketed b player row col (dr, dc) n"
    proof
      assume "count < n"
      then have "Suc count \<in> {1..n}" by simp
      with that have "on_board ?q \<and> b ?q = opponent_of player" unfolding bracketed_def by blast
      with False q show False by simp
    qed
    have "direction_loop b player dr dc r c count
        = (if in_bounds r c \<and> b (r, c) = player \<and> count > 0 then count else 0)"
      using False zero by (subst direction_loop.simps) auto
    moreover have "bracketed b player row col (dr, dc) count \<longleftrightarrow>
        in_bounds r c \<and> b (r, c) = player \<and> count > 0"
      using 1(6) q by (auto simp: bracketed_def)
    moreover have "bracketed b player row col (dr, dc) n \<Longrightarrow> n = count"
      using pre longer by fastforce
    ultimately show ?thesis by auto
  qed
qed

lemma direction_count_bracketed:
  assumes "d \<noteq> (0, 0)" "player \<noteq> OTHELLO_CELL_EMPTY"
  shows "(session_game_othello_direction_count b row col (fst d) (snd d) player = n \<and> 0 < n)
     \<longleftrightarrow> bracketed b player row col d n"
  using direction_loop_bracketed [of "fst d" "snd d" player "row + fst d" row 0 "col + snd d" col b n] assms
  by (simp add: session_game_othello_direction_count_def)

lemma direction_count_pos_iff:
  assumes "d \<noteq> (0, 0)" "player \<noteq> OTHELLO_CELL_EMPTY"
  shows "session_game_othello_direction_count b row col (fst d) (snd d) player > 0
     \<longleftrightarrow> (\<exists>n. bracketed b player row col d n)"
  by (subst direction_count_bracketed [OF assms, symmetric]) simp

lemma sum_list_pos: "0 < sum_list (map f xs) \<longleftrightarrow> (\<exists>x\<in>set xs. (0::nat) < f x)"
  by (induction xs) auto

lemma directions_nonzero: "d \<in> set kOthelloDirections \<Longrightarrow> d \<noteq> (0, 0)"
  by (auto simp: kOthelloDirections_def)

text \<open>
  C25: A move is legal exactly by the rule of the game: on an empty square of the board
  from which in at least one of the eight directions a row of the opponent's discs is
  bracketed by one of the player's own.
\<close>

theorem othello_legal_iff:
  assumes "player \<noteq> OTHELLO_CELL_EMPTY"
  shows "session_game_othello_count_flips b row col player > 0 \<longleftrightarrow>
     in_bounds row col \<and> b (row, col) = OTHELLO_CELL_EMPTY \<and>
     (\<exists>d\<in>set kOthelloDirections. \<exists>n. bracketed b player row col d n)"
proof -
  have "(\<exists>n. bracketed b player row col d n) \<longleftrightarrow>
      session_game_othello_direction_count b row col (fst d) (snd d) player > 0"
    if "d \<in> set kOthelloDirections" for d
    using direction_count_pos_iff [OF directions_nonzero [OF that] assms] by simp
  then have rule: "(\<exists>d\<in>set kOthelloDirections. \<exists>n. bracketed b player row col d n) \<longleftrightarrow>
      (\<exists>d\<in>set kOthelloDirections.
         session_game_othello_direction_count b row col (fst d) (snd d) player > 0)"
    by (rule bex_cong [OF refl])
  show ?thesis
    unfolding rule session_game_othello_count_flips_def
    by (cases "in_bounds row col \<and> b (row, col) = OTHELLO_CELL_EMPTY")
      (auto simp: sum_list_pos case_prod_beta)
qed

theorem othello_legal_iff_witness:
  "session_game_othello_count_flips othello_initial_board 2 3 OTHELLO_CELL_RED > 0 \<longleftrightarrow>
     in_bounds 2 3 \<and> othello_initial_board (2, 3) = OTHELLO_CELL_EMPTY \<and>
     (\<exists>d\<in>set kOthelloDirections. \<exists>n. bracketed othello_initial_board OTHELLO_CELL_RED 2 3 d n)"
  by (rule othello_legal_iff) simp

section \<open>The effect of a move\<close>

text \<open>The squares in one direction whose discs a move takes over.\<close>

definition captured ::
  "othello_board \<Rightarrow> othello_cell_type \<Rightarrow> int \<Rightarrow> int \<Rightarrow> int \<times> int \<Rightarrow> (int \<times> int) set" where
  "captured b player row col d =
     {step_square row col d k | k n. bracketed b player row col d n \<and> 1 \<le> k \<and> k \<le> n}"

definition ray :: "int \<Rightarrow> int \<Rightarrow> int \<times> int \<Rightarrow> (int \<times> int) set" where
  "ray row col d = {step_square row col d k | k. 1 \<le> k}"

lemma captured_ray: "captured b player row col d \<subseteq> ray row col d"
  by (auto simp: captured_def ray_def)

text \<open>The eight rays of a square are disjoint and do not contain the square.\<close>

lemma direction_sgn:
  assumes "d \<in> set kOthelloDirections" "0 < k"
  shows "d = (sgn (int k * fst d), sgn (int k * snd d))"
  using assms by (auto simp: kOthelloDirections_def sgn_mult)

lemma step_square_inj:
  assumes "d \<in> set kOthelloDirections" "e \<in> set kOthelloDirections" "0 < k" "0 < j"
    and "step_square row col d k = step_square row col e j"
  shows "d = e"
proof -
  have "int k * fst d = int j * fst e" "int k * snd d = int j * snd e"
    using assms(5) by (simp_all add: step_square_def)
  then show ?thesis
    using direction_sgn [OF assms(1,3)] direction_sgn [OF assms(2,4)] by simp
qed

lemma rays_disjoint:
  "\<lbrakk>d \<in> set kOthelloDirections; e \<in> set kOthelloDirections; d \<noteq> e\<rbrakk> \<Longrightarrow> ray row col d \<inter> ray row col e = {}"
proof (rule ccontr)
  assume mem: "d \<in> set kOthelloDirections" "e \<in> set kOthelloDirections" "d \<noteq> e"
    and "ray row col d \<inter> ray row col e \<noteq> {}"
  then obtain k j where "0 < k" "0 < j" "step_square row col d k = step_square row col e j"
    by (auto simp only: ray_def ex_in_conv [symmetric] Int_iff mem_Collect_eq One_nat_def Suc_le_eq)
  with mem show False using step_square_inj by metis
qed

lemma origin_not_ray: "d \<in> set kOthelloDirections \<Longrightarrow> (row, col) \<notin> ray row col d"
  by (auto simp: ray_def step_square_def kOthelloDirections_def)

text \<open>What happens in a direction depends on its ray alone.\<close>

lemma bracketed_cong:
  assumes "\<forall>q\<in>ray row col d. b q = b' q"
  shows "bracketed b player row col d n = bracketed b' player row col d n"
proof -
  have "b (step_square row col d k) = b' (step_square row col d k)" if "1 \<le> k" for k
  proof -
    have "step_square row col d k \<in> ray row col d" using that unfolding ray_def by blast
    with assms show ?thesis by blast
  qed
  then show ?thesis by (simp add: bracketed_def)
qed

lemma captured_cong:
  "\<forall>q\<in>ray row col d. b q = b' q \<Longrightarrow> captured b player row col d = captured b' player row col d"
  unfolding captured_def by (simp only: bracketed_cong [of row col d b b'])

lemma bracketed_unique:
  "\<lbrakk>player \<noteq> OTHELLO_CELL_EMPTY; bracketed b player row col d n; bracketed b player row col d m\<rbrakk> \<Longrightarrow> n = m"
  by (rule antisym; rule bracketed_prefix; assumption?) (auto simp: bracketed_def)

lemma direction_count_cong:
  assumes "\<forall>q\<in>ray row col d. b q = b' q" "d \<noteq> (0, 0)" "player \<noteq> OTHELLO_CELL_EMPTY"
  shows "session_game_othello_direction_count b row col (fst d) (snd d) player
       = session_game_othello_direction_count b' row col (fst d) (snd d) player"
  using direction_count_bracketed [OF assms(2,3)] bracketed_cong [OF assms(1)]
  by (metis neq0_conv)

lemma flip_run_eq:
  "\<forall>i<n. in_bounds (r + int i * dr) (c + int i * dc) \<Longrightarrow>
   flip_run player dr dc r c n b =
     (\<lambda>q. if \<exists>i<n. q = (r + int i * dr, c + int i * dc) then player else b q)"
proof (induction n arbitrary: r c b)
  case (Suc n)
  have bounds: "in_bounds r c" "\<forall>i<n. in_bounds (r + dr + int i * dr) (c + dc + int i * dc)"
    using Suc.prems [rule_format, of 0] Suc.prems [rule_format, of "Suc _"]
    by (simp_all add: algebra_simps)
  have "(\<exists>i<Suc n. q = (r + int i * dr, c + int i * dc)) \<longleftrightarrow>
      q = (r, c) \<or> (\<exists>i<n. q = (r + dr + int i * dr, c + dc + int i * dc))" for q
    by (subst Ex_less_Suc2) (simp add: algebra_simps)
  with bounds show ?case by (auto simp: Suc.IH [OF bounds(2)] fun_eq_iff)
qed simp

lemma apply_direction_captured:
  assumes "d \<noteq> (0, 0)" "player \<noteq> OTHELLO_CELL_EMPTY"
  shows "apply_direction player row col d b =
     (\<lambda>q. if q \<in> captured b player row col d then player else b q)"
proof -
  obtain dr dc where d: "d = (dr, dc)" by fastforce
  define n where "n = session_game_othello_direction_count b row col dr dc player"
  show ?thesis
  proof (cases "n = 0")
    case True
    then have "\<not> bracketed b player row col d m" for m
      using direction_count_bracketed [OF assms, of b row col m] d n_def by auto
    then have "captured b player row col d = {}" by (simp add: captured_def)
    with True show ?thesis by (simp add: apply_direction_def d n_def [symmetric])
  next
    case False
    then have br: "bracketed b player row col d n"
      using direction_count_bracketed [OF assms, of b row col n] d n_def by simp
    then have cap: "captured b player row col d = {step_square row col d k | k. 1 \<le> k \<and> k \<le> n}"
      unfolding captured_def using bracketed_unique [OF assms(2) br] by blast
    have sq: "step_square row col d (Suc i) = (row + dr + int i * dr, col + dc + int i * dc)" for i
      by (simp add: step_square_def d algebra_simps)
    have "in_bounds (row + dr + int i * dr) (col + dc + int i * dc)" if "i < n" for i
    proof -
      have "Suc i \<in> {1..n}" using that by simp
      with br have "on_board (step_square row col d (Suc i))" unfolding bracketed_def by blast
      then show ?thesis by (simp add: sq on_board_def)
    qed
    moreover have "q \<in> captured b player row col d \<longleftrightarrow>
        (\<exists>i<n. q = (row + dr + int i * dr, col + dc + int i * dc))" for q
      by (simp only: cap sq [symmetric] mem_Collect_eq) (metis One_nat_def Suc_le_D Suc_le_eq le_add1 plus_1_eq_Suc)
    ultimately show ?thesis
      using False by (simp add: apply_direction_def d n_def [symmetric] flip_run_eq)
  qed
qed

text \<open>One direction after the other: every direction still sees the rays as they were
  before the move.\<close>

lemma apply_direction_other_ray:
  assumes "d \<in> set kOthelloDirections" "e \<in> set kOthelloDirections" "e \<noteq> d"
    and "player \<noteq> OTHELLO_CELL_EMPTY" "\<forall>q\<in>ray row col e. b q = b0 q"
  shows "\<forall>q\<in>ray row col e. apply_direction player row col d b q = b0 q"
proof -
  have "q \<notin> captured b player row col d" if "q \<in> ray row col e" for q
    using that rays_disjoint [OF assms(1,2) assms(3) [symmetric], of row col]
      captured_ray [of b player row col d] by blast
  with assms(5) show ?thesis
    by (simp add: apply_direction_captured [OF directions_nonzero [OF assms(1)] assms(4)])
qed

lemma fold_directions_captured:
  assumes "player \<noteq> OTHELLO_CELL_EMPTY" "set ds \<subseteq> set kOthelloDirections" "distinct ds"
    and "\<forall>d\<in>set ds. \<forall>q\<in>ray row col d. b q = b0 q"
  shows "fold (apply_direction player row col) ds b =
     (\<lambda>q. if \<exists>d\<in>set ds. q \<in> captured b0 player row col d then player else b q)"
  using assms(2-)
proof (induction ds arbitrary: b)
  case (Cons d ds)
  let ?b = "apply_direction player row col d b"
  have "\<forall>e\<in>set ds. \<forall>q\<in>ray row col e. ?b q = b0 q"
  proof
    fix e assume "e \<in> set ds"
    with Cons.prems show "\<forall>q\<in>ray row col e. ?b q = b0 q"
      by (intro apply_direction_other_ray assms(1)) auto
  qed
  with Cons have run: "fold (apply_direction player row col) ds ?b =
      (\<lambda>q. if \<exists>d\<in>set ds. q \<in> captured b0 player row col d then player else ?b q)"
    by simp
  have one: "?b = (\<lambda>q. if q \<in> captured b0 player row col d then player else b q)"
    using Cons.prems assms(1) captured_cong [of row col d b b0 player]
    by (simp add: apply_direction_captured directions_nonzero)
  have "fold (apply_direction player row col) (d # ds) b = fold (apply_direction player row col) ds ?b"
    by simp
  also note run
  also have "(\<lambda>q. if \<exists>d\<in>set ds. q \<in> captured b0 player row col d then player else ?b q)
      = (\<lambda>q. if \<exists>d\<in>set (d # ds). q \<in> captured b0 player row col d then player else b q)"
    by (rule ext) (simp add: one)
  finally show ?case .
qed simp

lemma directions_distinct: "distinct kOthelloDirections"
  by (simp add: kOthelloDirections_def)

lemma origin_ray_agree:
  "d \<in> set kOthelloDirections \<Longrightarrow> \<forall>q\<in>ray row col d. (b((row, col) := player)) q = b q"
  using origin_not_ray [of d row col] by auto

text \<open>
  A move changes the board exactly by the rule of the game: the square itself and
  the discs captured in the eight directions become the player's, every other square
  keeps its contents.
\<close>

theorem othello_move_effect:
  assumes "player \<noteq> OTHELLO_CELL_EMPTY" "in_bounds row col"
  shows "board (session_game_othello_apply_move state row col player) q =
     (if q = (row, col) \<or> (\<exists>d\<in>set kOthelloDirections. q \<in> captured (board state) player row col d)
      then player else board state q)"
proof -
  have "\<forall>d\<in>set kOthelloDirections. \<forall>q\<in>ray row col d. ((board state)((row, col) := player)) q = board state q"
    by (intro ballI origin_ray_agree [rule_format])
  note run = fold_directions_captured [OF assms(1) subset_refl directions_distinct this]
  have "board (session_game_othello_apply_move state row col player) =
      fold (apply_direction player row col) kOthelloDirections ((board state)((row, col) := player))"
    using assms(2)
    by (simp add: session_game_othello_apply_move_def session_game_othello_count_scores_def)
  then show ?thesis unfolding run by simp
qed

theorem othello_move_effect_witness:
  "board (session_game_othello_apply_move session_game_othello_reset_state 2 3 OTHELLO_CELL_RED) (3, 3) =
     (if (3, 3) = (2::int, 3::int) \<or> (\<exists>d\<in>set kOthelloDirections.
           (3, 3) \<in> captured (board session_game_othello_reset_state) OTHELLO_CELL_RED 2 3 d)
      then OTHELLO_CELL_RED else board session_game_othello_reset_state (3, 3))"
  by (rule othello_move_effect) (simp_all add: in_bounds_def OTHELLO_BOARD_SIZE_def)

section \<open>Scores\<close>

lemma distinct_squares: "distinct squares"
  by code_simp

lemma set_squares: "set squares = {q. on_board q}"
proof -
  have "set squares = {0..7} \<times> {0..7}" by (auto simp: squares_def)
  also have "\<dots> = {q. on_board q}"
    by (auto simp: on_board_def in_bounds_def OTHELLO_BOARD_SIZE_def)
  finally show ?thesis .
qed

lemma count_cells_card: "count_cells cell b = card {q. on_board q \<and> b q = cell}"
  by (simp add: count_cells_def distinct_length_filter distinct_squares set_squares Int_def conj_commute)

lemma finite_on_board [simp]: "finite {q. on_board q \<and> P q}"
  by (rule finite_subset [of _ "set squares"]) (simp_all add: set_squares subset_eq del: finite_set, simp add: set_squares [symmetric])

lemma count_cells_update:
  assumes "on_board q" "b q = old" "old \<noteq> new"
  shows "count_cells new (b(q := new)) = Suc (count_cells new b)"
    and "Suc (count_cells old (b(q := new))) = count_cells old b"
    and "cell \<noteq> old \<Longrightarrow> cell \<noteq> new \<Longrightarrow> count_cells cell (b(q := new)) = count_cells cell b"
proof -
  have "{p. on_board p \<and> (b(q := new)) p = new} = insert q {p. on_board p \<and> b p = new}"
    using assms(1) by auto
  then show "count_cells new (b(q := new)) = Suc (count_cells new b)"
    using assms by (simp add: count_cells_card)
  have "{p. on_board p \<and> b p = old} = insert q {p. on_board p \<and> (b(q := new)) p = old}"
    using assms by auto
  then show "Suc (count_cells old (b(q := new))) = count_cells old b"
    using assms by (simp only: count_cells_card) simp
  show "cell \<noteq> old \<Longrightarrow> cell \<noteq> new \<Longrightarrow> count_cells cell (b(q := new)) = count_cells cell b"
    using assms by (auto simp: count_cells_card intro!: arg_cong [of _ _ card])
qed

lemma flip_run_counts:
  assumes "(dr, dc) \<noteq> (0, 0)" "player \<noteq> OTHELLO_CELL_EMPTY"
    and "\<forall>i<n. on_board (r + int i * dr, c + int i * dc) \<and>
           b (r + int i * dr, c + int i * dc) = opponent_of player"
  shows "count_cells player (flip_run player dr dc r c n b) = count_cells player b + n
       \<and> count_cells (opponent_of player) (flip_run player dr dc r c n b) + n
         = count_cells (opponent_of player) b
       \<and> count_cells OTHELLO_CELL_EMPTY (flip_run player dr dc r c n b) = count_cells OTHELLO_CELL_EMPTY b"
  using assms(3)
proof (induction n arbitrary: r c b)
  case (Suc n)
  have here: "on_board (r, c)" "b (r, c) = opponent_of player"
    using Suc.prems [rule_format, of 0] by simp_all
  let ?b = "b((r, c) := player)"
  have "\<forall>i<n. on_board (r + dr + int i * dr, c + dc + int i * dc) \<and>
      ?b (r + dr + int i * dr, c + dc + int i * dc) = opponent_of player"
  proof (intro allI impI)
    fix i assume "i < n"
    have "int (Suc i) * dr \<noteq> 0 \<or> int (Suc i) * dc \<noteq> 0" using assms(1) by auto
    then have "(r + dr + int i * dr, c + dc + int i * dc) \<noteq> (r, c)" by (auto simp: algebra_simps)
    moreover have "on_board (r + dr + int i * dr, c + dc + int i * dc) \<and>
        b (r + dr + int i * dr, c + dc + int i * dc) = opponent_of player"
      using Suc.prems [rule_format, of "Suc i"] \<open>i < n\<close> by (simp add: algebra_simps)
    ultimately show "on_board (r + dr + int i * dr, c + dc + int i * dc) \<and>
        ?b (r + dr + int i * dr, c + dc + int i * dc) = opponent_of player"
      by (simp only: fun_upd_def if_False simp_thms)
  qed
  note IH = Suc.IH [where r = "r + dr" and c = "c + dc" and b = ?b, OF this]
  have run: "flip_run player dr dc r c (Suc n) b = flip_run player dr dc (r + dr) (c + dc) n ?b"
    using here(1) by (simp add: on_board_def)
  note upd = count_cells_update [of "(r, c)" b "opponent_of player" player, OF here opponent_neq(1) [OF assms(2)]]
  have "OTHELLO_CELL_EMPTY \<noteq> opponent_of player" by (simp add: opponent_of_def)
  note upd = upd(1,2) upd(3) [OF this assms(2) [symmetric]]
  show ?case
    unfolding run using IH [THEN conjunct1] IH [THEN conjunct2, THEN conjunct1]
      IH [THEN conjunct2, THEN conjunct2] upd by (intro conjI; linarith)
qed simp

lemma apply_direction_counts:
  assumes "d \<noteq> (0, 0)" "player \<noteq> OTHELLO_CELL_EMPTY"
    and n_def: "n = session_game_othello_direction_count b row col (fst d) (snd d) player"
  shows "count_cells player (apply_direction player row col d b) = count_cells player b + n
       \<and> count_cells (opponent_of player) (apply_direction player row col d b) + n
         = count_cells (opponent_of player) b
       \<and> count_cells OTHELLO_CELL_EMPTY (apply_direction player row col d b)
         = count_cells OTHELLO_CELL_EMPTY b"
proof (cases "n = 0")
  case True
  then show ?thesis by (simp add: apply_direction_def case_prod_beta n_def [symmetric])
next
  case False
  then have br: "bracketed b player row col d n"
    using direction_count_bracketed [OF assms(1,2), of b row col n] n_def by simp
  have "\<forall>i<n. on_board (row + fst d + int i * fst d, col + snd d + int i * snd d) \<and>
      b (row + fst d + int i * fst d, col + snd d + int i * snd d) = opponent_of player"
  proof (intro allI impI)
    fix i assume "i < n"
    then have "Suc i \<in> {1..n}" by simp
    with br have "on_board (step_square row col d (Suc i)) \<and>
        b (step_square row col d (Suc i)) = opponent_of player"
      unfolding bracketed_def by blast
    then show "on_board (row + fst d + int i * fst d, col + snd d + int i * snd d) \<and>
        b (row + fst d + int i * fst d, col + snd d + int i * snd d) = opponent_of player"
      by (simp add: step_square_def algebra_simps)
  qed
  then show ?thesis
    using flip_run_counts [of "fst d" "snd d" player n "row + fst d" "col + snd d" b] assms False
    by (simp add: apply_direction_def case_prod_beta)
qed

lemma fold_directions_counts:
  assumes "player \<noteq> OTHELLO_CELL_EMPTY" "set ds \<subseteq> set kOthelloDirections" "distinct ds"
    and "\<forall>d\<in>set ds. \<forall>q\<in>ray row col d. b q = b0 q"
    and flips_def: "flips = (\<lambda>ds. sum_list (map (\<lambda>d.
      session_game_othello_direction_count b0 row col (fst d) (snd d) player) ds))"
  shows "count_cells player (fold (apply_direction player row col) ds b) = count_cells player b + flips ds
       \<and> count_cells (opponent_of player) (fold (apply_direction player row col) ds b) + flips ds
         = count_cells (opponent_of player) b
       \<and> count_cells OTHELLO_CELL_EMPTY (fold (apply_direction player row col) ds b)
         = count_cells OTHELLO_CELL_EMPTY b"
  using assms(2-4)
proof (induction ds arbitrary: b)
  case (Cons d ds)
  let ?b = "apply_direction player row col d b"
  have nz: "d \<noteq> (0, 0)" using Cons.prems directions_nonzero by simp
  have "\<forall>e\<in>set ds. \<forall>q\<in>ray row col e. ?b q = b0 q"
  proof
    fix e assume "e \<in> set ds"
    with Cons.prems show "\<forall>q\<in>ray row col e. ?b q = b0 q"
      by (intro apply_direction_other_ray assms(1)) auto
  qed
  note IH = Cons.IH [OF _ _ this]
  have "session_game_othello_direction_count b row col (fst d) (snd d) player
      = session_game_othello_direction_count b0 row col (fst d) (snd d) player"
    using Cons.prems by (intro direction_count_cong nz assms(1)) simp
  with IH apply_direction_counts [OF nz assms(1) refl, of row col b] Cons.prems show ?case
    by (simp add: flips_def)
qed (simp add: flips_def)

lemma legal_move_counts:
  assumes "player \<noteq> OTHELLO_CELL_EMPTY" "session_game_othello_count_flips (board state) row col player > 0"
    and n_def: "n = session_game_othello_count_flips (board state) row col player"
    and after_def: "after = board (session_game_othello_apply_move state row col player)"
  shows "count_cells player after = count_cells player (board state) + n + 1"
    and "count_cells (opponent_of player) after + n = count_cells (opponent_of player) (board state)"
    and "Suc (count_cells OTHELLO_CELL_EMPTY after) = count_cells OTHELLO_CELL_EMPTY (board state)"
proof -
  let ?b = "(board state)((row, col) := player)"
  have legal: "in_bounds row col" "board state (row, col) = OTHELLO_CELL_EMPTY"
    using assms(2) by (auto simp: session_game_othello_count_flips_def split: if_splits)
  have "\<forall>d\<in>set kOthelloDirections. \<forall>q\<in>ray row col d. ?b q = board state q"
    by (intro ballI origin_ray_agree [rule_format])
  note counts = fold_directions_counts [OF assms(1) subset_refl directions_distinct this refl]
  have n: "n = sum_list (map (\<lambda>d. session_game_othello_direction_count (board state) row col
      (fst d) (snd d) player) kOthelloDirections)"
    using legal by (simp add: n_def session_game_othello_count_flips_def case_prod_unfold)
  have after: "after = fold (apply_direction player row col) kOthelloDirections ?b"
    using legal by (simp add: after_def session_game_othello_apply_move_def
        session_game_othello_count_scores_def)
  have "on_board (row, col)" using legal(1) by (simp add: on_board_def)
  note upd = count_cells_update [of "(row, col)" "board state" OTHELLO_CELL_EMPTY player,
      OF this legal(2) assms(1) [symmetric]]
  have opp: "opponent_of player \<noteq> OTHELLO_CELL_EMPTY" by (simp add: opponent_of_def)
  show "count_cells player after = count_cells player (board state) + n + 1"
    using counts upd(1) unfolding n after by linarith
  show "count_cells (opponent_of player) after + n = count_cells (opponent_of player) (board state)"
    using counts upd(3) [OF opp opponent_neq(1) [OF assms(1)]] unfolding n after by linarith
  show "Suc (count_cells OTHELLO_CELL_EMPTY after) = count_cells OTHELLO_CELL_EMPTY (board state)"
    using counts upd(2) unfolding n after by linarith
qed

text \<open>
  A legal move is worth what the move list announces: the player's score grows by
  the number of flipped discs and the disc just placed, the opponent loses the flipped
  discs, and one square fewer is empty.
\<close>

theorem othello_move_score:
  assumes "mv \<in> set (session_game_othello_collect_moves state OTHELLO_CELL_RED)"
    and "state' = session_game_othello_apply_move state (mv_row mv) (mv_col mv) OTHELLO_CELL_RED"
  shows "red_score state' = count_cells OTHELLO_CELL_RED (board state) + mv_flipped mv + 1
       \<and> green_score state' + mv_flipped mv = count_cells OTHELLO_CELL_GREEN (board state)
       \<and> mv_flipped mv > 0
       \<and> Suc (count_cells OTHELLO_CELL_EMPTY (board state')) = count_cells OTHELLO_CELL_EMPTY (board state)"
proof -
  have mv: "session_game_othello_count_flips (board state) (mv_row mv) (mv_col mv) OTHELLO_CELL_RED > 0"
      "mv_flipped mv = session_game_othello_count_flips (board state) (mv_row mv) (mv_col mv) OTHELLO_CELL_RED"
    using assms(1) by (auto simp: session_game_othello_collect_moves_def)
  have "in_bounds (mv_row mv) (mv_col mv)"
    using mv(1) by (auto simp: session_game_othello_count_flips_def split: if_splits)
  then have scores: "red_score state' = count_cells OTHELLO_CELL_RED (board state')"
      "green_score state' = count_cells OTHELLO_CELL_GREEN (board state')"
    by (simp_all add: assms(2) session_game_othello_apply_move_def session_game_othello_count_scores_def)
  from legal_move_counts [OF _ mv(1) refl refl] mv show ?thesis
    by (simp add: scores) (simp add: assms(2) opponent_of_def)
qed

theorem othello_move_score_witness:
  "red_score (session_game_othello_apply_move session_game_othello_reset_state 2 3 OTHELLO_CELL_RED) =
     count_cells OTHELLO_CELL_RED (board session_game_othello_reset_state) + 1 + 1"
proof -
  have "\<lparr>mv_row = 2, mv_col = 3, mv_flipped = 1\<rparr> \<in>
      set (session_game_othello_collect_moves session_game_othello_reset_state OTHELLO_CELL_RED)"
    by code_simp
  from othello_move_score [OF this refl] show ?thesis by simp
qed

end
