(* ===== verification/Game_Session.thy ===== *)
theory Game_Session
  imports Interfaces Othello_Board
begin

text \<open>
  The game part of a session and its pseudo-random numbers (\<^verbatim>\<open>include/ssh_chatter/host.h\<close>,
  \<^verbatim>\<open>src/host/games/tetris.c\<close>), shared by the games.  The pointer to the Othello state is an
  option.  What the session is sent is the list of its system lines.  A game with
  a state of its own extends the record; the operations below work on every extension.
\<close>

section \<open>State\<close>

datatype session_game_type =
    SESSION_GAME_NONE | SESSION_GAME_TETRIS | SESSION_GAME_LIARGAME | SESSION_GAME_ALPHA
  | SESSION_GAME_OTHELLO | SESSION_GAME_GONU

record game_session =
  gs_active :: bool
  gs_type :: session_game_type
  gs_othello :: "othello_game_state option"
  gs_saved_othello :: "othello_game_state option"
  rng_state :: "64 word"
  rng_seeded :: bool
  sent :: "cstr list"

definition session_send_system_line :: "cstr \<Rightarrow> 'a game_session_scheme \<Rightarrow> 'a game_session_scheme" where
  "session_send_system_line msg ctx = ctx\<lparr>sent := sent ctx @ [msg]\<rparr>"

section \<open>Pseudo-random numbers\<close>

text \<open>The raw seed, taken from the clock and two addresses, is an input.\<close>

definition session_game_seed_rng :: "64 word \<Rightarrow> 'a game_session_scheme \<Rightarrow> 'a game_session_scheme" where
  "session_game_seed_rng raw ctx =
     (if rng_seeded ctx then ctx
      else ctx\<lparr>rng_state := (if raw = 0 then 0x9E3779B97F4A7C15 else raw), rng_seeded := True\<rparr>)"

definition session_game_random ::
    "64 word \<Rightarrow> 'a game_session_scheme \<Rightarrow> nat \<times> 'a game_session_scheme" where
  "session_game_random raw ctx0 =
     (let ctx = session_game_seed_rng raw ctx0;
          x = rng_state ctx;
          x = xor x (drop_bit 12 x);
          x = xor x (push_bit 25 x);
          x = xor x (drop_bit 27 x)
      in (unat (drop_bit 32 (x * 2685821657736338717)), ctx\<lparr>rng_state := x\<rparr>))"

definition session_game_random_range ::
    "64 word \<Rightarrow> 'a game_session_scheme \<Rightarrow> nat \<Rightarrow> nat \<times> 'a game_session_scheme" where
  "session_game_random_range raw ctx n =
     (if n = 0 then (0, ctx)
      else case session_game_random raw ctx of (v, ctx') \<Rightarrow> (v mod n, ctx'))"

section \<open>Facts used by the games\<close>

lemma random_range_less: "0 < n \<Longrightarrow> fst (session_game_random_range raw ctx n) < n"
  by (simp add: session_game_random_range_def split: prod.splits)

lemma seed_rng_game [simp]:
  "gs_othello (session_game_seed_rng raw ctx) = gs_othello ctx"
  "gs_active (session_game_seed_rng raw ctx) = gs_active ctx"
  "gs_type (session_game_seed_rng raw ctx) = gs_type ctx"
  by (simp_all add: session_game_seed_rng_def)

lemma random_range_game [simp]:
  "gs_active (snd (session_game_random_range raw ctx n)) = gs_active ctx"
  "gs_type (snd (session_game_random_range raw ctx n)) = gs_type ctx"
  by (simp_all add: session_game_random_range_def session_game_random_def Let_def case_prod_unfold)

end
