(* ===== verification/Othello_Turns.thy ===== *)
theory Othello_Turns
  imports Game_Session
begin

text \<open>
  The turns of a single-player Othello game (\<^verbatim>\<open>src/host/games/othello.c\<close>, the end
  of a game in \<^verbatim>\<open>gonu.c\<close>): the move of
  the computer, whose turn it is next, passes, the end of the game, the lines the
  player types.

  The state is the game part of a session.  The pointer to the game state is an
  option; an operation that dereferences it where it is null gives \<open>None\<close>.  What the
  session is sent is the list of its system lines.
\<close>

section \<open>State\<close>

definition put_othello :: "othello_game_state \<Rightarrow> game_session \<Rightarrow> game_session" where
  "put_othello st ctx = ctx\<lparr>gs_othello := Some st\<rparr>"

section \<open>The end of a game\<close>

definition othello_summary :: "nat \<Rightarrow> nat \<Rightarrow> cstr" where
  "othello_summary red green =
     ''Othello final score: Red '' @ dec_str red @ '' vs Green '' @ dec_str green @ '' - '' @
     (if red > green then ''Red wins!'' else if green > red then ''Green wins!''
      else [CHR ''I'', CHR ''t'', CHR 0x27, CHR ''s'', CHR '' '', CHR ''a'', CHR '' ''] @ ''draw.'')"

text \<open>Suspending a session whose game is Othello: the state is summed up and released.\<close>

definition othello_final_scores :: "othello_game_state option \<Rightarrow> nat \<times> nat" where
  "othello_final_scores st =
     (case st of None \<Rightarrow> (0, 0)
      | Some s \<Rightarrow>
          if red_score s = 0 \<and> green_score s = 0
          then (count_cells OTHELLO_CELL_RED (board s), count_cells OTHELLO_CELL_GREEN (board s))
          else (red_score s, green_score s))"

definition session_game_suspend_othello :: "cstr \<Rightarrow> game_session \<Rightarrow> game_session" where
  "session_game_suspend_othello reason ctx =
     (if \<not> gs_active ctx then
        session_send_system_line
          (if reason \<noteq> [] then reason else ''There is no active game to suspend.'') ctx
      else
        let ctx = (if reason \<noteq> [] then session_send_system_line reason ctx else ctx);
            (red, green) = othello_final_scores (gs_othello ctx);
            ctx = session_send_system_line (othello_summary red green) ctx
        in ctx\<lparr>gs_othello := None, gs_saved_othello := None, gs_active := False,
               gs_type := SESSION_GAME_NONE\<rparr>)"

text \<open>The end of a game that is not played against another user.\<close>

definition session_game_othello_finish_single :: "cstr \<Rightarrow> game_session \<Rightarrow> game_session option" where
  "session_game_othello_finish_single reason ctx =
     (if gs_type ctx \<noteq> SESSION_GAME_OTHELLO then Some ctx
      else case gs_othello ctx of
             None \<Rightarrow> None
           | Some state \<Rightarrow>
               let state = (if \<not> game_over state
                            then (session_game_othello_count_scores state)\<lparr>game_over := True\<rparr>
                            else state);
                   message = (if reason \<noteq> [] then reason else ''Othello finished.'')
               in Some (session_game_suspend_othello message (put_othello state ctx)))"

section \<open>The move of the computer\<close>

text \<open>The scan for the moves with most flips: the best value so far and the indexes
  that reach it.\<close>

definition best_step :: "othello_move list \<Rightarrow> nat \<Rightarrow> int \<times> nat list \<Rightarrow> int \<times> nat list" where
  "best_step moves idx acc =
     (case acc of (best_flips, best) \<Rightarrow>
        if int (mv_flipped (moves ! idx)) > best_flips then (int (mv_flipped (moves ! idx)), [idx])
        else if int (mv_flipped (moves ! idx)) = best_flips \<and> length best < 64
        then (best_flips, best @ [idx])
        else (best_flips, best))"

definition best_indexes :: "othello_move list \<Rightarrow> nat list" where
  "best_indexes moves = snd (fold (best_step moves) [0..<length moves] (-1, []))"

definition good_move_percent :: "nat \<Rightarrow> nat option" where
  "good_move_percent difficulty =
     (if difficulty = 2 then Some 60 else if difficulty = 3 then Some 80
      else if difficulty = 4 then Some 95 else None)"

definition othello_choose_move ::
  "64 word \<Rightarrow> nat \<Rightarrow> othello_move list \<Rightarrow> game_session \<Rightarrow> othello_move \<times> game_session" where
  "othello_choose_move raw difficulty moves ctx =
     (if difficulty = 1 then
        case session_game_random_range raw ctx (length moves) of (i, ctx) \<Rightarrow> (moves ! i, ctx)
      else
        let best = best_indexes moves;
            (good, ctx) = (case good_move_percent difficulty of
                             None \<Rightarrow> (True, ctx)
                           | Some p \<Rightarrow> (case session_game_random_range raw ctx 100 of
                                         (v, ctx) \<Rightarrow> (v < p, ctx)))
        in if good then
             case (if length best > 1 then session_game_random_range raw ctx (length best)
                   else (0, ctx)) of
               (i, ctx) \<Rightarrow> (moves ! (best ! i), ctx)
           else
             case session_game_random_range raw ctx (length moves) of (i, ctx) \<Rightarrow> (moves ! i, ctx))"

definition othello_ai_play :: "64 word \<Rightarrow> othello_game_state \<Rightarrow> game_session \<Rightarrow> game_session" where
  "othello_ai_play raw state ctx =
     (let moves = session_game_othello_collect_moves state OTHELLO_CELL_GREEN;
          (chosen, ctx) = othello_choose_move raw (difficulty_level state) moves
                            (session_game_seed_rng raw ctx);
          state = (session_game_othello_apply_move state (mv_row chosen) (mv_col chosen) OTHELLO_CELL_GREEN)
                    \<lparr>last_ai_row := mv_row chosen, last_ai_col := mv_col chosen,
                     consecutive_passes := 0, player_turn := True\<rparr>
      in session_send_system_line
           (''Green plays '' @ session_game_othello_format_coordinate (mv_row chosen) (mv_col chosen) @ ''.'')
           (put_othello state ctx))"

text \<open>The scan finds exactly the moves that flip most.\<close>

lemma best_scan:
  assumes "length moves \<le> 64" "n \<le> length moves"
    and "fold (best_step moves) [0..<n] (-1, []) = (m, best)"
  shows "(\<forall>i<n. int (mv_flipped (moves ! i)) \<le> m) \<and>
     (if n = 0 then m = -1 else \<exists>i<n. int (mv_flipped (moves ! i)) = m) \<and>
     best = filter (\<lambda>i. int (mv_flipped (moves ! i)) = m) [0..<n]"
  using assms(2,3)
proof (induction n arbitrary: m best)
  case (Suc n)
  obtain m0 best0 where old: "fold (best_step moves) [0..<n] (-1, []) = (m0, best0)" by fastforce
  let ?f = "\<lambda>i. int (mv_flipped (moves ! i))"
  have le: "\<forall>i<n. ?f i \<le> m0" and reached: "if n = 0 then m0 = -1 else \<exists>i<n. ?f i = m0"
    and best0: "best0 = filter (\<lambda>i. ?f i = m0) [0..<n]"
    using Suc.IH [OF _ old] Suc.prems(1) by simp_all
  have step: "best_step moves n (m0, best0) = (m, best)"
    using Suc.prems(2) old by simp
  have "length best0 \<le> n" unfolding best0 by (rule order_trans [OF length_filter_le]) simp
  then have short: "length best0 < 64" using Suc.prems(1) assms(1) by simp
  show ?case
  proof (cases "?f n > m0")
    case True
    then have "filter (\<lambda>i. ?f i = ?f n) [0..<n] = []"
      using le by (fastforce simp: filter_empty_conv)
    with True step le show ?thesis by (fastforce simp: best_step_def less_Suc_eq)
  next
    case False
    moreover have "n = 0 \<Longrightarrow> False" using False reached by simp
    ultimately show ?thesis
      using step le reached best0 short by (auto simp: best_step_def less_Suc_eq split: if_splits)
  qed
qed simp

lemma length_squares: "length squares = 64"
  by code_simp

lemma length_collect_moves: "length (session_game_othello_collect_moves state player) \<le> 64"
  unfolding session_game_othello_collect_moves_def length_map
  by (rule order_trans [OF length_filter_le]) (simp add: length_squares)

lemma best_indexes_spec:
  assumes "length moves \<le> 64" "moves \<noteq> []"
  shows "best_indexes moves \<noteq> []"
    and "i \<in> set (best_indexes moves) \<Longrightarrow>
         i < length moves \<and> (\<forall>mv\<in>set moves. mv_flipped mv \<le> mv_flipped (moves ! i))"
proof -
  obtain m best where fold: "fold (best_step moves) [0..<length moves] (-1, []) = (m, best)"
    by fastforce
  note spec = best_scan [OF assms(1) order_refl fold]
  have best: "best_indexes moves = filter (\<lambda>i. int (mv_flipped (moves ! i)) = m) [0..<length moves]"
    using spec fold by (simp add: best_indexes_def)
  show "best_indexes moves \<noteq> []"
    using spec assms(2) unfolding best by (auto simp: filter_empty_conv)
  show "i < length moves \<and> (\<forall>mv\<in>set moves. mv_flipped mv \<le> mv_flipped (moves ! i))"
    if "i \<in> set (best_indexes moves)"
  proof -
    from that have i: "i < length moves" "int (mv_flipped (moves ! i)) = m" unfolding best by auto
    have "mv_flipped mv \<le> mv_flipped (moves ! i)" if "mv \<in> set moves" for mv
    proof -
      from that obtain j where j: "j < length moves" "mv = moves ! j" by (auto simp: in_set_conv_nth)
      with spec have "int (mv_flipped mv) \<le> m" by simp
      with i(2) show ?thesis by simp
    qed
    with i(1) show ?thesis by blast
  qed
qed

text \<open>Whatever the level and the random numbers, the computer chooses one of the moves.\<close>

lemma choose_move_mem:
  assumes "length moves \<le> 64" "moves \<noteq> []"
  shows "fst (othello_choose_move raw d moves ctx) \<in> set moves"
proof -
  have rr: "session_game_random_range raw c (length moves) = (i, c') \<Longrightarrow> moves ! i \<in> set moves" for c c' :: game_session and i
    using random_range_less [of "length moves" raw c] assms(2) by simp
  have "best_indexes moves ! i < length moves" if "i < length (best_indexes moves)" for i
    using that best_indexes_spec(2) [OF assms, of "best_indexes moves ! i"] by simp
  moreover have "session_game_random_range raw c (length (best_indexes moves)) = (i, c') \<Longrightarrow>
      i < length (best_indexes moves)" for c c' :: game_session and i
    using random_range_less [of "length (best_indexes moves)" raw c] best_indexes_spec(1) [OF assms] by simp
  moreover have "0 < length (best_indexes moves)" using best_indexes_spec(1) [OF assms] by simp
  ultimately show ?thesis
    by (auto simp: othello_choose_move_def rr Let_def split: prod.splits if_splits)
qed

text \<open>At the highest level it takes one that flips most.\<close>

lemma choose_move_best:
  assumes "length moves \<le> 64" "moves \<noteq> []" "good_move_percent d = None" "d \<noteq> 1" "mv \<in> set moves"
  shows "mv_flipped mv \<le> mv_flipped (fst (othello_choose_move raw d moves ctx))"
proof -
  have "session_game_random_range raw c (length (best_indexes moves)) = (i, c') \<Longrightarrow>
      i < length (best_indexes moves)" for c c' :: game_session and i
    using random_range_less [of "length (best_indexes moves)" raw c] best_indexes_spec(1) [OF assms(1,2)] by simp
  moreover have "0 < length (best_indexes moves)" using best_indexes_spec(1) [OF assms(1,2)] by simp
  moreover have "mv_flipped mv \<le> mv_flipped (moves ! (best_indexes moves ! i))"
    if "i < length (best_indexes moves)" for i
    using best_indexes_spec(2) [OF assms(1,2) nth_mem [OF that]] assms(5) by blast
  ultimately show ?thesis
    using assms(3,4) by (auto simp: othello_choose_move_def Let_def split: prod.splits if_splits)
qed

lemma choose_move_game [simp]:
  "gs_active (snd (othello_choose_move raw d moves ctx)) = gs_active ctx"
  "gs_type (snd (othello_choose_move raw d moves ctx)) = gs_type ctx"
  by (simp_all add: othello_choose_move_def Let_def case_prod_unfold split: option.splits)

section \<open>Whose turn it is\<close>

definition count_moves :: "othello_game_state \<Rightarrow> othello_cell_type \<Rightarrow> nat" where
  "count_moves state player = length (session_game_othello_collect_moves state player)"

text \<open>The number of empty squares bounds the rest of a game.\<close>

definition open_squares :: "game_session \<Rightarrow> nat" where
  "open_squares ctx =
     (case gs_othello ctx of None \<Rightarrow> 0 | Some st \<Rightarrow> count_cells OTHELLO_CELL_EMPTY (board st))"

lemma collect_moves_legal:
  "mv \<in> set (session_game_othello_collect_moves state player) \<Longrightarrow>
   session_game_othello_count_flips (board state) (mv_row mv) (mv_col mv) player > 0 \<and>
   mv_flipped mv = session_game_othello_count_flips (board state) (mv_row mv) (mv_col mv) player"
  by (auto simp: session_game_othello_collect_moves_def)

definition ai_choice :: "64 word \<Rightarrow> othello_game_state \<Rightarrow> game_session \<Rightarrow> othello_move" where
  "ai_choice raw state ctx =
     fst (othello_choose_move raw (difficulty_level state)
            (session_game_othello_collect_moves state OTHELLO_CELL_GREEN) (session_game_seed_rng raw ctx))"

lemma ai_choice_mem:
  "count_moves state OTHELLO_CELL_GREEN \<noteq> 0 \<Longrightarrow>
   ai_choice raw state ctx \<in> set (session_game_othello_collect_moves state OTHELLO_CELL_GREEN)"
  unfolding ai_choice_def count_moves_def
  by (rule choose_move_mem) (simp_all add: length_collect_moves)

lemma ai_play_eq:
  "gs_othello (othello_ai_play raw state ctx) =
     Some ((session_game_othello_apply_move state (mv_row (ai_choice raw state ctx))
              (mv_col (ai_choice raw state ctx)) OTHELLO_CELL_GREEN)
           \<lparr>last_ai_row := mv_row (ai_choice raw state ctx), last_ai_col := mv_col (ai_choice raw state ctx),
            consecutive_passes := 0, player_turn := True\<rparr>)"
  "gs_active (othello_ai_play raw state ctx) = gs_active ctx"
  "gs_type (othello_ai_play raw state ctx) = gs_type ctx"
  by (simp_all add: othello_ai_play_def ai_choice_def Let_def case_prod_unfold
      session_send_system_line_def put_othello_def)

lemma ai_play_open_squares:
  assumes "count_moves state OTHELLO_CELL_GREEN \<noteq> 0" "gs_othello ctx = Some state"
  shows "Suc (open_squares (othello_ai_play raw state ctx)) = open_squares ctx"
proof -
  have "session_game_othello_count_flips (board state) (mv_row (ai_choice raw state ctx))
      (mv_col (ai_choice raw state ctx)) OTHELLO_CELL_GREEN > 0"
    using collect_moves_legal [OF ai_choice_mem [OF assms(1)]] by blast
  from legal_move_counts(3) [OF _ this refl refl] assms(2) show ?thesis
    by (simp add: open_squares_def ai_play_eq)
qed

definition no_more_moves :: cstr where
  "no_more_moves = ''No more moves available.''"

definition enter_move :: cstr where
  "enter_move = ''Enter your move (e.g., d3). Type '' @ [CHR 0x27] @ ''pass'' @ [CHR 0x27] @ '' if no moves.''"

text \<open>The prompt of a game between two users.\<close>

definition prepare_multiplayer :: "othello_game_state \<Rightarrow> game_session \<Rightarrow> game_session" where
  "prepare_multiplayer state =
     session_send_system_line
       (if awaiting_opponent state then ''Waiting for an opponent to join this game.''
        else if player_number state = 0 then ''Waiting for multiplayer assignment.''
        else if player_turn state then enter_move
        else if player_number state = 1
        then ''Waiting for 2P'' @ [CHR 0x27] @ ''s move.''
        else ''Waiting for 1P'' @ [CHR 0x27] @ ''s move.'')"

definition ai_stuck :: "game_session \<Rightarrow> bool" where
  "ai_stuck ctx = (case gs_othello ctx of None \<Rightarrow> True | Some st \<Rightarrow> count_moves st OTHELLO_CELL_GREEN = 0)"

lemma count_moves_board: "board st = board st' \<Longrightarrow> count_moves st p = count_moves st' p"
  by (simp add: count_moves_def session_game_othello_collect_moves_def)

lemma count_moves_pass [simp]:
  "count_moves (st\<lparr>consecutive_passes := n\<rparr>) p = count_moves st p"
  "count_moves (st\<lparr>player_turn := b\<rparr>) p = count_moves st p"
  "count_moves (st\<lparr>game_over := b\<rparr>) p = count_moves st p"
  "count_moves (st\<lparr>last_player_row := r\<rparr>) p = count_moves st p"
  "count_moves (st\<lparr>last_player_col := r\<rparr>) p = count_moves st p"
  "count_moves (st\<lparr>last_ai_row := r\<rparr>) p = count_moves st p"
  "count_moves (st\<lparr>last_ai_col := r\<rparr>) p = count_moves st p"
  by (rule count_moves_board; simp)+

lemma put_othello_simps [simp]:
  "gs_othello (put_othello st ctx) = Some st" "gs_active (put_othello st ctx) = gs_active ctx"
  "gs_type (put_othello st ctx) = gs_type ctx"
  "gs_othello (session_send_system_line m ctx) = gs_othello ctx"
  "gs_active (session_send_system_line m ctx) = gs_active ctx"
  "gs_type (session_send_system_line m ctx) = gs_type ctx"
  by (simp_all add: put_othello_def session_send_system_line_def)

lemma open_squares_simps [simp]:
  "open_squares (put_othello st ctx) = count_cells OTHELLO_CELL_EMPTY (board st)"
  "open_squares (session_send_system_line m ctx) = open_squares ctx"
  by (simp_all add: open_squares_def)

lemma ai_play_open_less:
  assumes "count_moves state OTHELLO_CELL_GREEN > 0" "gs_othello ctx = Some state"
  shows "Suc (2 * open_squares (othello_ai_play raw state ctx)) < 2 * count_cells OTHELLO_CELL_EMPTY (board state)"
  using ai_play_open_squares [of state ctx raw] assms by (simp add: open_squares_def)

lemma open_squares_Some: "gs_othello ctx = Some st \<Longrightarrow> open_squares ctx = count_cells OTHELLO_CELL_EMPTY (board st)"
  by (simp add: open_squares_def)

function (sequential) session_game_othello_prepare_next_turn ::
    "64 word \<Rightarrow> game_session \<Rightarrow> game_session option"
  and session_game_othello_handle_ai_turn ::
    "64 word \<Rightarrow> game_session \<Rightarrow> game_session option" where
  "session_game_othello_prepare_next_turn raw ctx =
     (if gs_type ctx \<noteq> SESSION_GAME_OTHELLO then Some ctx
      else case gs_othello ctx of
        None \<Rightarrow> None
      | Some state \<Rightarrow>
          if game_over state then Some ctx
          else if multiplayer state then Some (prepare_multiplayer state ctx)
          else if count_moves state OTHELLO_CELL_RED = 0 \<and> count_moves state OTHELLO_CELL_GREEN = 0
          then session_game_othello_finish_single no_more_moves ctx
          else if count_moves state OTHELLO_CELL_RED = 0 then
            let state' = state\<lparr>consecutive_passes := consecutive_passes state + 1\<rparr>
            in if consecutive_passes state' \<ge> 2
               then session_game_othello_finish_single no_more_moves (put_othello state' ctx)
               else session_game_othello_handle_ai_turn raw
                      (put_othello (state'\<lparr>player_turn := False\<rparr>)
                        (session_send_system_line ''You have no legal moves and must pass.'' ctx))
          else if count_moves state OTHELLO_CELL_GREEN = 0 then
            let state' = state\<lparr>consecutive_passes := consecutive_passes state + 1\<rparr>
            in if consecutive_passes state' \<ge> 2
               then session_game_othello_finish_single no_more_moves (put_othello state' ctx)
               else Some (session_send_system_line enter_move
                      (put_othello (state'\<lparr>player_turn := True\<rparr>)
                        (session_send_system_line ''Green has no legal moves and passes.'' ctx)))
          else Some (session_send_system_line enter_move (put_othello (state\<lparr>player_turn := True\<rparr>) ctx)))"
| "session_game_othello_handle_ai_turn raw ctx =
     (if gs_type ctx \<noteq> SESSION_GAME_OTHELLO then Some ctx
      else case gs_othello ctx of
        None \<Rightarrow> None
      | Some state \<Rightarrow>
          if multiplayer state then Some ctx
          else if game_over state then Some ctx
          else if count_moves state OTHELLO_CELL_GREEN = 0 then
            let state' = state\<lparr>consecutive_passes := consecutive_passes state + 1\<rparr>;
                ctx' = session_send_system_line ''Green has no legal moves and passes.'' ctx
            in if consecutive_passes state' \<ge> 2
               then session_game_othello_finish_single no_more_moves (put_othello state' ctx')
               else session_game_othello_prepare_next_turn raw (put_othello (state'\<lparr>player_turn := True\<rparr>) ctx')
          else session_game_othello_prepare_next_turn raw (othello_ai_play raw state ctx))"
  by pat_completeness auto
termination
  by (relation "measure (\<lambda>x. case x of
      Inl (raw, ctx) \<Rightarrow> 2 * open_squares ctx + 1
    | Inr (raw, ctx) \<Rightarrow> 2 * open_squares ctx + (if ai_stuck ctx then 2 else 0))")
    (auto simp: ai_stuck_def open_squares_Some ai_play_open_less)

declare session_game_othello_prepare_next_turn.simps [simp del]
  session_game_othello_handle_ai_turn.simps [simp del]

section \<open>The player's line\<close>

text \<open>A line typed in a running single-player game, trimmed and in lower case.\<close>

definition othello_single_line :: "64 word \<Rightarrow> cstr \<Rightarrow> othello_game_state \<Rightarrow> game_session \<Rightarrow> game_session option" where
  "othello_single_line raw working state ctx =
     (if game_over state then
        Some (session_send_system_line ''The game is over. Use /game to start again.'' ctx)
      else if \<not> player_turn state then
        Some (session_send_system_line ''Please wait for your turn.'' ctx)
      else if working = ''pass'' then
        if count_moves state OTHELLO_CELL_RED > 0 then
          Some (session_send_system_line ''You still have legal moves available.'' ctx)
        else
          let state' = state\<lparr>consecutive_passes := consecutive_passes state + 1\<rparr>;
              ctx' = session_send_system_line ''You pass your turn.'' ctx
          in if consecutive_passes state' \<ge> 2
             then session_game_othello_finish_single no_more_moves (put_othello state' ctx')
             else session_game_othello_handle_ai_turn raw (put_othello (state'\<lparr>player_turn := False\<rparr>) ctx')
      else if working = ''resign'' \<or> working = ''quit'' then
        session_game_othello_finish_single ''You resigned.''
          (put_othello (session_game_othello_count_scores state) ctx)
      else
        let (row, col) = othello_parse_move working
        in if \<not> in_bounds row col then
             Some (session_send_system_line ''Invalid move. Use coordinates like d3.'' ctx)
           else if session_game_othello_count_flips (board state) row col OTHELLO_CELL_RED = 0 then
             Some (session_send_system_line ''That square is not a legal move.'' ctx)
           else
             session_game_othello_handle_ai_turn raw
               (put_othello
                 ((session_game_othello_apply_move state row col OTHELLO_CELL_RED)
                    \<lparr>last_player_row := row, last_player_col := col, player_turn := False,
                     consecutive_passes := 0\<rparr>) ctx))"

definition coloured_disc :: "cstr \<Rightarrow> cstr" where
  "coloured_disc colour = [CHR 0x1B] @ ''['' @ colour @ ''mo'' @ [CHR 0x1B] @ ''[0m''"

definition you_are_red :: cstr where
  "you_are_red = ''You are Red ('' @ coloured_disc ''31'' @ ''). Green ('' @ coloured_disc ''32'' @
     '') will respond after your move.''"

text \<open>The line that chooses the level starts the game.\<close>

definition othello_difficulty_line :: "64 word \<Rightarrow> cstr \<Rightarrow> game_session \<Rightarrow> game_session option" where
  "othello_difficulty_line raw working ctx =
     (let difficulty = atoi working
      in if difficulty < 1 \<or> difficulty > 5 then
           Some (session_send_system_line ''Invalid difficulty. Please enter a number between 1 and 5.'' ctx)
         else
           session_game_othello_prepare_next_turn raw
             (session_send_system_line you_are_red
               (session_send_system_line []
                 (session_send_system_line
                   (''Difficulty set to '' @ dec_str (nat difficulty) @ ''. Good luck!'')
                   (put_othello (session_game_othello_reset_state
                      \<lparr>difficulty_level := nat difficulty, player_number := 1,
                       awaiting_difficulty_selection := False\<rparr>) ctx)))))"

section \<open>Every turn ends with the player or with the game\<close>

definition game_ended :: "game_session \<Rightarrow> bool" where
  "game_ended ctx \<longleftrightarrow> \<not> gs_active ctx \<and> gs_type ctx = SESSION_GAME_NONE \<and> gs_othello ctx = None"

definition players_turn :: "game_session \<Rightarrow> bool" where
  "players_turn ctx \<longleftrightarrow> gs_active ctx \<and> gs_type ctx = SESSION_GAME_OTHELLO \<and>
     (case gs_othello ctx of None \<Rightarrow> False
      | Some st \<Rightarrow> player_turn st \<and> \<not> game_over st \<and> \<not> multiplayer st \<and>
          count_moves st OTHELLO_CELL_RED > 0 \<and> consecutive_passes st \<le> 1)"

text \<open>A game in progress against the computer.\<close>

definition single_game :: "game_session \<Rightarrow> bool" where
  "single_game ctx \<longleftrightarrow> gs_active ctx \<and> gs_type ctx = SESSION_GAME_OTHELLO \<and>
     (case gs_othello ctx of None \<Rightarrow> False
      | Some st \<Rightarrow> \<not> game_over st \<and> \<not> multiplayer st \<and> consecutive_passes st \<le> 1)"

lemma finish_single_ends:
  assumes "gs_active ctx" "gs_type ctx = SESSION_GAME_OTHELLO" "gs_othello ctx = Some st"
  shows "\<exists>ctx'. session_game_othello_finish_single reason ctx = Some ctx' \<and> game_ended ctx'"
  using assms
  by (simp add: session_game_othello_finish_single_def session_game_suspend_othello_def game_ended_def
      Let_def case_prod_unfold)

lemma apply_move_fields [simp]:
  "multiplayer (session_game_othello_apply_move st r c p) = multiplayer st"
  "game_over (session_game_othello_apply_move st r c p) = game_over st"
  "player_turn (session_game_othello_apply_move st r c p) = player_turn st"
  "consecutive_passes (session_game_othello_apply_move st r c p) = consecutive_passes st"
  "difficulty_level (session_game_othello_apply_move st r c p) = difficulty_level st"
  by (simp_all add: session_game_othello_apply_move_def session_game_othello_count_scores_def)

lemma ai_play_single: "single_game ctx \<Longrightarrow> gs_othello ctx = Some state \<Longrightarrow> single_game (othello_ai_play raw state ctx)"
  by (simp add: single_game_def ai_play_eq)

lemma turns_settle:
  "single_game ctx \<Longrightarrow>
     \<exists>ctx'. session_game_othello_prepare_next_turn raw ctx = Some ctx' \<and> (game_ended ctx' \<or> players_turn ctx')"
  "single_game ctx2 \<Longrightarrow>
     \<exists>ctx'. session_game_othello_handle_ai_turn raw2 ctx2 = Some ctx' \<and> (game_ended ctx' \<or> players_turn ctx')"
proof (induction raw ctx and raw2 ctx2
    rule: session_game_othello_prepare_next_turn_session_game_othello_handle_ai_turn.induct)
  case (1 raw ctx)
  then obtain st where st: "gs_othello ctx = Some st" by (auto simp: single_game_def split: option.splits)
  note g = 1(2) [unfolded single_game_def] st
  show ?case
    using 1(1) [OF _ st] g finish_single_ends [of ctx st no_more_moves]
      finish_single_ends [of "put_othello (st\<lparr>consecutive_passes := consecutive_passes st + 1\<rparr>) ctx"
        "st\<lparr>consecutive_passes := consecutive_passes st + 1\<rparr>" no_more_moves]
    by (auto simp: session_game_othello_prepare_next_turn.simps [of raw ctx] Let_def single_game_def players_turn_def)
next
  case (2 raw ctx)
  then obtain st where st: "gs_othello ctx = Some st" by (auto simp: single_game_def split: option.splits)
  show ?case
  proof (cases "count_moves st OTHELLO_CELL_GREEN = 0")
    case True
    let ?st = "st\<lparr>consecutive_passes := consecutive_passes st + 1\<rparr>"
    let ?ctx = "session_send_system_line ''Green has no legal moves and passes.'' ctx"
    show ?thesis
      using 2(1) [OF _ st _ _ True refl refl] 2(3) [unfolded single_game_def] st True
        finish_single_ends [of "put_othello ?st ?ctx" ?st no_more_moves]
      by (auto simp: session_game_othello_handle_ai_turn.simps [of raw ctx] Let_def single_game_def)
  next
    case False
    show ?thesis
      using 2(2) [OF _ st _ _ False] 2(3) [unfolded single_game_def] st False ai_play_single [OF 2(3) st]
      by (simp add: session_game_othello_handle_ai_turn.simps [of raw ctx])
  qed
qed

lemma single_line_settles:
  assumes "players_turn ctx" "gs_othello ctx = Some st"
  shows "\<exists>ctx'. othello_single_line raw working st ctx = Some ctx' \<and> (game_ended ctx' \<or> players_turn ctx')"
proof -
  have st: "player_turn st" "\<not> game_over st" "\<not> multiplayer st" "count_moves st OTHELLO_CELL_RED > 0"
      "gs_active ctx" "gs_type ctx = SESSION_GAME_OTHELLO"
    using assms by (simp_all add: players_turn_def)
  have said: "players_turn (session_send_system_line m ctx)" for m
    using assms by (simp add: players_turn_def)
  obtain row col where rc: "othello_parse_move working = (row, col)" by fastforce
  let ?moved = "put_othello ((session_game_othello_apply_move st row col OTHELLO_CELL_RED)
      \<lparr>last_player_row := row, last_player_col := col, player_turn := False, consecutive_passes := 0\<rparr>) ctx"
  have "single_game ?moved" using st by (simp add: single_game_def)
  note settle = turns_settle(2) [OF this, of raw]
  have resign: "\<exists>ctx'. session_game_othello_finish_single ''You resigned.''
      (put_othello (session_game_othello_count_scores st) ctx) = Some ctx' \<and> game_ended ctx'"
    using st by (intro finish_single_ends) simp_all
  show ?thesis
    using settle resign said st
    by (auto simp: othello_single_line_def rc simp del: session_game_othello_count_scores_def)
qed

text \<open>Lines typed one after the other; when the game is over they go elsewhere.\<close>

definition othello_play :: "64 word \<times> cstr \<Rightarrow> game_session option \<Rightarrow> game_session option" where
  "othello_play l s =
     (case s of None \<Rightarrow> None
      | Some ctx \<Rightarrow>
          if gs_type ctx \<noteq> SESSION_GAME_OTHELLO then Some ctx
          else case gs_othello ctx of None \<Rightarrow> None
               | Some st \<Rightarrow> othello_single_line (fst l) (snd l) st ctx)"

definition settled :: "game_session option \<Rightarrow> bool" where
  "settled s = (case s of None \<Rightarrow> False | Some ctx \<Rightarrow> game_ended ctx \<or> players_turn ctx)"

lemma settled_play: "settled s \<Longrightarrow> settled (othello_play l s)"
proof -
  assume s: "settled s"
  then obtain ctx where ctx: "s = Some ctx" "game_ended ctx \<or> players_turn ctx"
    by (auto simp: settled_def split: option.splits)
  show ?thesis
  proof (cases "game_ended ctx")
    case True
    then show ?thesis by (simp add: ctx othello_play_def settled_def game_ended_def)
  next
    case False
    with ctx have turn: "players_turn ctx" by simp
    then obtain st where "gs_othello ctx = Some st" "gs_type ctx = SESSION_GAME_OTHELLO"
      by (auto simp: players_turn_def split: option.splits)
    with single_line_settles [OF turn this(1), of "fst l" "snd l"] show ?thesis
      by (auto simp: ctx othello_play_def settled_def)
  qed
qed

interpretation play: invariant_system othello_play "\<lambda>_. True" settled
  by unfold_locales (rule settled_play)


definition fresh_othello_session :: game_session where
  "fresh_othello_session =
     \<lparr>gs_active = True, gs_type = SESSION_GAME_OTHELLO,
      gs_othello = Some (session_game_othello_reset_state\<lparr>awaiting_difficulty_selection := True\<rparr>),
      gs_saved_othello = None, rng_state = 0, rng_seeded = False, sent = []\<rparr>"


lemma ai_choice_greedy:
  assumes "difficulty_level state = 5"
    and "session_game_othello_count_flips (board state) row col OTHELLO_CELL_GREEN > 0"
  shows "session_game_othello_count_flips (board state) row col OTHELLO_CELL_GREEN
     \<le> mv_flipped (ai_choice raw state ctx)"
proof -
  let ?moves = "session_game_othello_collect_moves state OTHELLO_CELL_GREEN"
  have "(row, col) \<in> set squares"
    using assms(2) by (auto simp: set_squares on_board_def session_game_othello_count_flips_def split: if_splits)
  with assms(2) have mem: "\<lparr>mv_row = row, mv_col = col, mv_flipped =
      session_game_othello_count_flips (board state) row col OTHELLO_CELL_GREEN\<rparr> \<in> set ?moves"
    by (auto simp: session_game_othello_collect_moves_def image_iff intro!: bexI [of _ "(row, col)"])
  then have "?moves \<noteq> []" by auto
  from choose_move_best [OF length_collect_moves this _ _ mem, of 5 raw "session_game_seed_rng raw ctx"]
  show ?thesis using assms(1) by (simp add: good_move_percent_def ai_choice_def)
qed

text \<open>
  The computer only plays legal moves, and at the highest level it plays one that
  flips at least as many discs as any other move.
\<close>

theorem othello_ai_legal_greedy:
  assumes "count_moves state OTHELLO_CELL_GREEN > 0" "mv = ai_choice raw state ctx"
  shows "session_game_othello_count_flips (board state) (mv_row mv) (mv_col mv) OTHELLO_CELL_GREEN > 0 \<and>
     (difficulty_level state = 5 \<longrightarrow>
        session_game_othello_count_flips (board state) row col OTHELLO_CELL_GREEN
        \<le> session_game_othello_count_flips (board state) (mv_row mv) (mv_col mv) OTHELLO_CELL_GREEN)"
proof -
  have "session_game_othello_count_flips (board state) (mv_row mv) (mv_col mv) OTHELLO_CELL_GREEN > 0 \<and>
      mv_flipped mv = session_game_othello_count_flips (board state) (mv_row mv) (mv_col mv) OTHELLO_CELL_GREEN"
    using assms by (intro collect_moves_legal) (simp add: ai_choice_mem)
  with ai_choice_greedy [of state row col raw ctx] assms(2) show ?thesis
    by (cases "session_game_othello_count_flips (board state) row col OTHELLO_CELL_GREEN > 0") auto
qed

definition red_opening :: othello_game_state where
  "red_opening = session_game_othello_apply_move session_game_othello_reset_state 2 3 OTHELLO_CELL_RED"

theorem othello_ai_legal_greedy_witness:
  "session_game_othello_count_flips (board red_opening) 2 2 OTHELLO_CELL_GREEN
     \<le> (case ai_choice 1 red_opening fresh_othello_session of mv \<Rightarrow>
          session_game_othello_count_flips (board red_opening) (mv_row mv) (mv_col mv) OTHELLO_CELL_GREEN)"
proof -
  have "count_moves red_opening OTHELLO_CELL_GREEN > 0" by code_simp
  from othello_ai_legal_greedy [OF this refl, of 1 fresh_othello_session 2 2] show ?thesis
    by (simp add: red_opening_def session_game_othello_reset_state_def session_game_othello_count_scores_def)
qed

section \<open>A pass counted twice\<close>

text \<open>
  C35: When the player's move leaves the computer without a move, its pass is counted by
  the computer's turn and again by the preparation of the next one.  The two counts reach
  the limit meant for two passes in a row, and the game ends although the player still has
  legal moves.
\<close>

theorem othello_green_pass_ends_game:
  assumes "players_turn ctx" "gs_othello ctx = Some st" "othello_parse_move working = (row, col)"
    and "session_game_othello_count_flips (board st) row col OTHELLO_CELL_RED > 0"
    and "count_moves (session_game_othello_apply_move st row col OTHELLO_CELL_RED) OTHELLO_CELL_GREEN = 0"
    and "count_moves (session_game_othello_apply_move st row col OTHELLO_CELL_RED) OTHELLO_CELL_RED > 0"
    and "working \<notin> {''pass'', ''resign'', ''quit''}"
  shows "\<exists>ctx'. othello_single_line raw working st ctx = Some ctx' \<and> game_ended ctx'"
proof -
  let ?st = "(session_game_othello_apply_move st row col OTHELLO_CELL_RED)
      \<lparr>last_player_row := row, last_player_col := col\<rparr>"
  have st: "player_turn st" "\<not> game_over st" "\<not> multiplayer st" "gs_active ctx"
      "gs_type ctx = SESSION_GAME_OTHELLO"
    using assms(1,2) by (simp_all add: players_turn_def)
  have "in_bounds row col"
    using assms(4) by (auto simp: session_game_othello_count_flips_def split: if_splits)
  then have "othello_single_line raw working st ctx = session_game_othello_handle_ai_turn raw
      (put_othello (?st\<lparr>player_turn := False, consecutive_passes := 0\<rparr>) ctx)"
    using assms st by (simp add: othello_single_line_def)
  also have "\<dots> = session_game_othello_prepare_next_turn raw
      (put_othello (?st\<lparr>player_turn := False, consecutive_passes := 1, player_turn := True\<rparr>)
        (session_send_system_line ''Green has no legal moves and passes.'' ctx))"
    using assms st
    by (simp add: session_game_othello_handle_ai_turn.simps put_othello_def session_send_system_line_def)
  also have "\<dots> = session_game_othello_finish_single no_more_moves
      (put_othello (?st\<lparr>player_turn := True, consecutive_passes := 2\<rparr>)
        (session_send_system_line ''Green has no legal moves and passes.'' ctx))"
    using assms st
    by (simp add: session_game_othello_prepare_next_turn.simps put_othello_def session_send_system_line_def numeral_2_eq_2)
  finally show ?thesis using st finish_single_ends by simp
qed

definition cornered_game :: othello_game_state where
  "cornered_game = session_game_othello_reset_state\<lparr>board := (\<lambda>_. OTHELLO_CELL_EMPTY)
     ((0, 0) := OTHELLO_CELL_RED, (0, 1) := OTHELLO_CELL_GREEN,
      (2, 0) := OTHELLO_CELL_RED, (2, 1) := OTHELLO_CELL_GREEN)\<rparr>"

theorem othello_green_pass_ends_game_witness:
  "\<exists>ctx'. othello_single_line 1 ''c1'' cornered_game (put_othello cornered_game fresh_othello_session) = Some ctx'
     \<and> game_ended ctx'"
proof (rule othello_green_pass_ends_game [where row = 0 and col = 2])
  show "players_turn (put_othello cornered_game fresh_othello_session)" by code_simp
qed (simp, code_simp+)

end
