(* ===== verification/Tetris_Play.thy ===== *)
theory Tetris_Play
  imports Tetris "HOL-Library.Multiset"
begin

text \<open>
  What holds of Tetris: the bag deals permutations of the seven pieces, full lines and
  only they disappear, a hard drop lands where the piece can fall no further, every key
  and every tick is handled and leaves a well-formed game whose falling piece lies on
  empty cells, and the camouflage gives the game back.
\<close>

section \<open>What an operation leaves alone\<close>

definition same_session :: "tetris_session \<Rightarrow> tetris_session \<Rightarrow> bool" where
  "same_session ctx ctx' \<longleftrightarrow>
     gs_active ctx' = gs_active ctx \<and> gs_type ctx' = gs_type ctx \<and>
     is_camouflaged ctx' = is_camouflaged ctx \<and> gs_saved_tetris ctx' = gs_saved_tetris ctx"

lemma same_session_refl [simp]: "same_session ctx ctx"
  by (simp add: same_session_def)

lemma same_session_put [simp]:
  "same_session ctx (put_tetris st ctx') = same_session ctx ctx'"
  "same_session (put_tetris st ctx) ctx' = same_session ctx ctx'"
  "gs_tetris (put_tetris st ctx) = st"
  "gs_active (put_tetris st ctx) = gs_active ctx"
  "gs_type (put_tetris st ctx) = gs_type ctx"
  "is_camouflaged (put_tetris st ctx) = is_camouflaged ctx"
  "gs_saved_tetris (put_tetris st ctx) = gs_saved_tetris ctx"
  by (simp_all add: same_session_def put_tetris_def)

lemma same_session_trans: "same_session a b \<Longrightarrow> same_session b c \<Longrightarrow> same_session a c"
  by (simp add: same_session_def)

lemma send_line_session [simp]:
  "same_session ctx (session_send_system_line msg ctx') = same_session ctx ctx'"
  "gs_tetris (session_send_system_line msg ctx) = gs_tetris ctx"
  "gs_active (session_send_system_line msg ctx) = gs_active ctx"
  "gs_type (session_send_system_line msg ctx) = gs_type ctx"
  "is_camouflaged (session_send_system_line msg ctx) = is_camouflaged ctx"
  "gs_saved_tetris (session_send_system_line msg ctx) = gs_saved_tetris ctx"
  by (simp_all add: same_session_def session_send_system_line_def)

lemma seed_rng_session [simp]:
  "same_session ctx (session_game_seed_rng raw ctx') = same_session ctx ctx'"
  "gs_tetris (session_game_seed_rng raw ctx) = gs_tetris ctx"
  by (simp_all add: same_session_def session_game_seed_rng_def)

lemma random_shape: "\<exists>x. snd (session_game_random raw ctx) = (session_game_seed_rng raw ctx)\<lparr>rng_state := x\<rparr>"
  unfolding session_game_random_def Let_def snd_conv by (rule exI, rule refl)

lemma random_range_session [simp]:
  "same_session ctx (snd (session_game_random_range raw ctx n)) \<and>
   gs_tetris (snd (session_game_random_range raw ctx n)) = gs_tetris ctx"
proof -
  have "same_session ctx (snd (session_game_random raw ctx)) \<and>
      gs_tetris (snd (session_game_random raw ctx)) = gs_tetris ctx"
    using random_shape [of raw ctx] seed_rng_session(1) [of ctx raw ctx]
    by (elim exE) (simp add: same_session_def del: seed_rng_session(1))
  then show ?thesis by (simp add: session_game_random_range_def case_prod_unfold)
qed

section \<open>The bag\<close>

definition all_pieces :: "int list" where
  "all_pieces = [0, 1, 2, 3, 4, 5, 6]"

lemma shuffle_bag_spec:
  assumes "n < length b" "shuffle_bag raw n b ctx = (b', ctx')"
  shows "mset b' = mset b \<and> same_session ctx ctx' \<and> gs_tetris ctx' = gs_tetris ctx"
  using assms
proof (induction n arbitrary: b ctx)
  case 0
  then show ?case by simp
next
  case (Suc n)
  obtain j c1 where r: "session_game_random_range raw ctx (Suc n + 1) = (j, c1)" by fastforce
  have j: "j < Suc n + 1" using random_range_less [of "Suc n + 1" raw ctx] r by simp
  have c1: "same_session ctx c1 \<and> gs_tetris c1 = gs_tetris ctx"
    using random_range_session [of ctx raw "Suc n + 1"] unfolding r by simp
  have m: "mset (b[Suc n := b ! j, j := b ! Suc n]) = mset b"
    using Suc.prems(1) j by (intro mset_swap) auto
  from Suc.prems(2) have "shuffle_bag raw n (b[Suc n := b ! j, j := b ! Suc n]) c1 = (b', ctx')"
    using r by simp
  from Suc.IH [OF _ this] Suc.prems(1) m c1 show ?case
    by (auto intro: same_session_trans)
qed

definition bag_ok :: "tetris_game_state \<Rightarrow> bool" where
  "bag_ok st \<longleftrightarrow> mset (bag st) = mset all_pieces \<and> bag_index st \<le> 7"

lemma set_all_pieces: "set all_pieces = {0..6}"
  by (simp add: all_pieces_def set_eq_iff) presburger

lemma bag_permutation:
  assumes "mset b = mset all_pieces"
  shows "length b = 7" "set b = {0..6}" "distinct b"
proof -
  show "length b = 7" using mset_eq_length [OF assms] by (simp add: all_pieces_def)
  show "set b = {0..6}" using mset_eq_setD [OF assms] by (simp add: set_all_pieces)
  show "distinct b" using mset_eq_imp_distinct_iff [OF assms] by (simp add: all_pieces_def)
qed

text \<open>Only the bag differs.\<close>

definition dealt :: "tetris_game_state \<Rightarrow> tetris_game_state \<Rightarrow> bool" where
  "dealt st st' \<longleftrightarrow> st'\<lparr>bag := bag st, bag_index := bag_index st\<rparr> = st \<and> bag_ok st'"

lemma dealtI: "mset b = mset all_pieces \<Longrightarrow> i \<le> 7 \<Longrightarrow> dealt st (st\<lparr>bag := b, bag_index := i\<rparr>)"
  by (simp add: dealt_def bag_ok_def)

lemma dealt_index: "dealt st st' \<Longrightarrow> i \<le> 7 \<Longrightarrow> dealt st (st'\<lparr>bag_index := i\<rparr>)"
  by (simp add: dealt_def bag_ok_def)

lemma dealt_refl: "bag_ok st \<Longrightarrow> dealt st st"
  by (simp add: dealt_def)

lemma fill_bag_spec:
  "dealt (gs_tetris ctx) (gs_tetris (session_game_tetris_fill_bag raw ctx))"
  "bag_index (gs_tetris (session_game_tetris_fill_bag raw ctx)) = 0"
  "same_session ctx (session_game_tetris_fill_bag raw ctx)"
proof -
  obtain b ctx' where sh: "shuffle_bag raw 6 all_pieces ctx = (b, ctx')" by fastforce
  have spec: "mset b = mset all_pieces \<and> same_session ctx ctx' \<and> gs_tetris ctx' = gs_tetris ctx"
    by (rule shuffle_bag_spec [OF _ sh]) (simp add: all_pieces_def)
  have f: "session_game_tetris_fill_bag raw ctx = put_tetris ((gs_tetris ctx)\<lparr>bag := b, bag_index := 0\<rparr>) ctx'"
    using sh spec by (simp add: session_game_tetris_fill_bag_def all_pieces_def)
  show "dealt (gs_tetris ctx) (gs_tetris (session_game_tetris_fill_bag raw ctx))"
    "bag_index (gs_tetris (session_game_tetris_fill_bag raw ctx)) = 0"
    "same_session ctx (session_game_tetris_fill_bag raw ctx)"
    using spec by (simp_all add: f dealtI)
qed

lemma take_piece_spec:
  assumes "bag_ok (gs_tetris ctx)" "session_game_tetris_take_piece raw ctx = (p, ctx')"
  shows "dealt (gs_tetris ctx) (gs_tetris ctx')" "0 \<le> p" "p < 7" "same_session ctx ctx'"
proof -
  define c1 where "c1 = (if bag_index (gs_tetris ctx) \<ge> 7 then session_game_tetris_fill_bag raw ctx else ctx)"
  define st where "st = gs_tetris c1"
  have r: "p = bag st ! bag_index st" "ctx' = put_tetris (st\<lparr>bag_index := bag_index st + 1\<rparr>) c1"
    using assms(2) unfolding session_game_tetris_take_piece_def c1_def [symmetric] st_def
    by (simp_all add: Let_def)
  have c1: "dealt (gs_tetris ctx) st" "bag_index st < 7" "same_session ctx c1"
    using fill_bag_spec [where ctx = ctx and raw = raw] dealt_refl [OF assms(1)] by (simp_all add: st_def c1_def)
  then have m: "mset (bag st) = mset all_pieces" by (simp add: dealt_def bag_ok_def)
  show "dealt (gs_tetris ctx) (gs_tetris ctx')" using c1(1,2) by (simp add: r(2) dealt_index)
  have "p \<in> set (bag st)" using bag_permutation(1) [OF m] c1(2) by (simp add: r(1))
  then show "0 \<le> p" "p < 7" using bag_permutation(2) [OF m] by auto
  show "same_session ctx ctx'" using c1(3) by (simp add: r(2))
qed

section \<open>Clearing lines\<close>

lemma clear_loop_eq:
  assumes "\<forall>x\<in>set (take row b). \<not> row_full x"
  shows "clear_loop row removed b =
     (removed + length (filter row_full b),
      replicate (length (filter row_full b)) empty_row @ filter (\<lambda>x. \<not> row_full x) b)"
  using assms
proof (induction row removed b rule: clear_loop.induct)
  case (1 row removed b)
  show ?case
  proof (cases "row < length b")
    case False
    then have "\<forall>x\<in>set b. \<not> row_full x" using 1(3) by simp
    then show ?thesis using False by (simp add: clear_loop.simps [of row])
  next
    case inside: True
    show ?thesis
    proof (cases "row_full (b ! row)")
      case True
      have "take row (shift_rows row b) = take row (empty_row # take row b)"
        using inside by (cases row) (simp_all add: shift_rows_eq)
      then have "\<forall>x\<in>set (take row (shift_rows row b)). \<not> row_full x"
        using 1(3) by (auto dest!: in_set_takeD)
      from 1(1) [OF inside True this] show ?thesis
        using inside True filter_shift_full [OF inside True]
        by (simp add: clear_loop.simps [of row] replicate_app_Cons_same flip: replicate_Suc)
    next
      case False
      have "\<forall>x\<in>set (take (Suc row) b). \<not> row_full x"
        using inside False 1(3) by (auto simp: take_Suc_conv_app_nth)
      from 1(2) [OF inside False this] show ?thesis
        using inside False by (simp add: clear_loop.simps [of row])
    qed
  qed
qed

text \<open>The board after the full lines are gone: the other rows in their order, with empty
  rows above them.\<close>

definition without_full_rows :: "int list list \<Rightarrow> int list list" where
  "without_full_rows b =
     (let kept = filter (\<lambda>row. \<not> row_full row) b in replicate (length b - length kept) empty_row @ kept)"

lemma clear_lines_eq:
  "session_game_tetris_clear_lines b = (length (filter row_full b), without_full_rows b)"
  using sum_length_filter_compl [of row_full b]
  by (simp add: session_game_tetris_clear_lines_def clear_loop_eq without_full_rows_def Let_def)

definition row_ok :: "int list \<Rightarrow> bool" where
  "row_ok row \<longleftrightarrow> length row = TETRIS_WIDTH \<and> (\<forall>v\<in>set row. 0 \<le> v \<and> v \<le> 7)"

definition board_ok :: "int list list \<Rightarrow> bool" where
  "board_ok b \<longleftrightarrow> length b = TETRIS_HEIGHT \<and> (\<forall>row\<in>set b. row_ok row)"

lemma row_ok_empty [simp]: "row_ok empty_row"
  by (simp add: row_ok_def empty_row_def)

lemma row_ok_update: "row_ok row \<Longrightarrow> 0 \<le> v \<Longrightarrow> v \<le> 7 \<Longrightarrow> row_ok (row[k := v])"
  using set_update_subset_insert [of row k v] by (auto simp: row_ok_def)

lemma board_ok_change:
  assumes "board_ok b" "length b' = length b" "set b' \<subseteq> insert row (set b)" "row_ok row"
  shows "board_ok b'"
  using assms(2) subsetD [OF assms(3)] assms(1,4) by (fastforce simp: board_ok_def)

lemma without_full_rows_ok:
  assumes "board_ok b"
  shows "board_ok (without_full_rows b)" "\<forall>row\<in>set (without_full_rows b). \<not> row_full row"
proof -
  have "length (without_full_rows b) = length b"
    using length_filter_le [of "\<lambda>row. \<not> row_full row" b] by (simp add: without_full_rows_def Let_def)
  then show "board_ok (without_full_rows b)"
    by (rule board_ok_change [OF assms _ _ row_ok_empty]) (auto simp: without_full_rows_def Let_def)
  show "\<forall>row\<in>set (without_full_rows b). \<not> row_full row"
    by (auto simp: without_full_rows_def Let_def)
qed

section \<open>Positions\<close>

text \<open>A position is valid on a board, whatever the rest of the state.\<close>

definition fits :: "int list list \<Rightarrow> int \<Rightarrow> int \<Rightarrow> int \<Rightarrow> int \<Rightarrow> bool" where
  "fits b piece rot row col \<longleftrightarrow>
     (\<forall>r c. session_game_tetris_cell_occupied piece rot r c \<longrightarrow>
        0 \<le> col + c \<and> col + c < int TETRIS_WIDTH \<and> row + r < int TETRIS_HEIGHT \<and>
        (0 \<le> row + r \<longrightarrow> board_at b (row + r) (col + c) = 0))"

lemma shape_cells_mem: "(r, c) \<in> set shape_cells \<longleftrightarrow> 0 \<le> r \<and> r < 4 \<and> 0 \<le> c \<and> c < 4"
  by (simp add: shape_cells_def) presburger

lemma occupied_range:
  "session_game_tetris_cell_occupied piece rot r c \<Longrightarrow>
     0 \<le> piece \<and> piece < 7 \<and> 0 \<le> r \<and> r < 4 \<and> 0 \<le> c \<and> c < 4"
  by (simp add: session_game_tetris_cell_occupied_def split: if_splits)

lemma position_valid_fits [simp]:
  "session_game_tetris_position_valid st piece rot row col = fits (t_board st) piece rot row col"
  unfolding session_game_tetris_position_valid_def fits_def list_all_iff
  using occupied_range shape_cells_mem
  by (smt (verit, best) case_prodI2 case_prod_conv)

text \<open>Each shape has four cells, so a position far enough down is not valid.\<close>

definition occupied_cells :: "int \<Rightarrow> int \<Rightarrow> (int \<times> int) list" where
  "occupied_cells piece rot = filter (\<lambda>(r, c). session_game_tetris_cell_occupied piece rot r c) shape_cells"

lemma four_cells_all:
  "list_all (\<lambda>p. list_all (\<lambda>rot. length (occupied_cells p rot) = 4) [0, 1, 2, 3]) [0, 1, 2, 3, 4, 5, 6]"
  by code_simp

lemma occupied_rot: "session_game_tetris_cell_occupied piece (rot mod 4) = session_game_tetris_cell_occupied piece rot"
  by (intro ext) (simp add: session_game_tetris_cell_occupied_def)

lemma four_cells:
  assumes "0 \<le> piece" "piece < 7"
  shows "length (occupied_cells piece rot) = 4"
proof -
  have "piece \<in> set [0, 1, 2, 3, 4, 5, 6]" using assms by simp presburger
  moreover have "rot mod 4 \<in> set [0, 1, 2, 3]" by simp presburger
  ultimately have "length (occupied_cells piece (rot mod 4)) = 4" using four_cells_all unfolding list_all_iff by blast
  then show ?thesis by (simp add: occupied_cells_def occupied_rot)
qed

lemma not_fits_below:
  assumes "0 \<le> piece" "piece < 7" "int TETRIS_HEIGHT \<le> row"
  shows "\<not> fits b piece rot row col"
proof
  assume f: "fits b piece rot row col"
  obtain r c where "(r, c) \<in> set (occupied_cells piece rot)"
    using four_cells [OF assms(1,2), of rot] by (cases "occupied_cells piece rot") auto
  then have occ: "session_game_tetris_cell_occupied piece rot r c" by (simp add: occupied_cells_def)
  then have "row + r < int TETRIS_HEIGHT" using f by (simp add: fits_def)
  then show False using assms(3) occupied_range [OF occ] by simp
qed

section \<open>Placing a piece\<close>

definition row_count :: "int list \<Rightarrow> nat" where
  "row_count cells = (\<Sum>v\<leftarrow>cells. if v \<noteq> 0 then 1 else 0)"

definition filled :: "int list list \<Rightarrow> nat" where
  "filled b = (\<Sum>row\<leftarrow>b. row_count row)"

definition set_cell :: "int \<Rightarrow> int \<times> int \<Rightarrow> int list list \<Rightarrow> int list list" where
  "set_cell v xy b = b[nat (fst xy) := (b ! nat (fst xy))[nat (snd xy) := v]]"

definition on_tetris_board :: "int \<times> int \<Rightarrow> bool" where
  "on_tetris_board xy \<longleftrightarrow> 0 \<le> fst xy \<and> fst xy < int TETRIS_HEIGHT \<and> 0 \<le> snd xy \<and> snd xy < int TETRIS_WIDTH"

lemma board_row:
  assumes "board_ok b" "on_tetris_board (x, y)"
  shows "nat x < length b" "nat y < length (b ! nat x)" "b ! nat x \<in> set b"
proof -
  show x: "nat x < length b" using assms by (simp add: board_ok_def on_tetris_board_def nat_less_iff)
  then show "b ! nat x \<in> set b" by simp
  then show "nat y < length (b ! nat x)" using assms by (simp add: board_ok_def row_ok_def on_tetris_board_def nat_less_iff)
qed

lemma set_cell_at:
  assumes "board_ok b" "on_tetris_board (x, y)" "on_tetris_board (x', y')"
  shows "board_at (set_cell v (x, y) b) x' y' = (if x' = x \<and> y' = y then v else board_at b x' y')"
  using board_row [OF assms(1,2)] board_row [OF assms(1,3)] assms(2,3)
  by (auto simp: board_at_def set_cell_def nth_list_update on_tetris_board_def eq_nat_nat_iff)

lemma set_cell_ok:
  assumes "board_ok b" "on_tetris_board (x, y)" "0 \<le> v" "v \<le> 7"
  shows "board_ok (set_cell v (x, y) b)"
proof (rule board_ok_change [OF assms(1)])
  show "set (set_cell v (x, y) b) \<subseteq> insert ((b ! nat x)[nat y := v]) (set b)"
    unfolding set_cell_def by (simp add: set_update_subset_insert)
  have "row_ok (b ! nat x)" using board_row(3) [OF assms(1,2)] assms(1) by (simp add: board_ok_def)
  then show "row_ok ((b ! nat x)[nat y := v])" using assms(3,4) by (rule row_ok_update)
qed (simp add: set_cell_def)

lemma set_cell_filled:
  assumes "board_ok b" "on_tetris_board (x, y)" "board_at b x y = 0" "v \<noteq> 0"
  shows "filled (set_cell v (x, y) b) = Suc (filled b)"
proof -
  note r = board_row [OF assms(1,2)]
  have "row_count ((b ! nat x)[nat y := v]) = Suc (row_count (b ! nat x))"
    using r(2) assms(3,4) by (simp add: row_count_def map_update sum_list_update board_at_def)
  moreover have "row_count (b ! nat x) \<le> filled b"
    unfolding filled_def using r(1) by (intro elem_le_sum_list [of "nat x" "map row_count b", simplified]) 
  ultimately show ?thesis
    using r(1) unfolding filled_def set_cell_def by (simp add: map_update sum_list_update)
qed

text \<open>Writing a value into distinct empty cells of the board.\<close>

lemma fold_set_cell:
  assumes "distinct cells" "\<forall>xy\<in>set cells. on_tetris_board xy \<and> board_at b (fst xy) (snd xy) = 0"
    and "board_ok b" "0 < v" "v \<le> 7"
  shows "board_ok (fold (set_cell v) cells b) \<and>
     filled (fold (set_cell v) cells b) = filled b + length cells \<and>
     (\<forall>x y. on_tetris_board (x, y) \<longrightarrow>
        board_at (fold (set_cell v) cells b) x y = (if (x, y) \<in> set cells then v else board_at b x y))"
  using assms(1,2,3)
proof (induction cells arbitrary: b)
  case Nil
  then show ?case by simp
next
  case (Cons xy cells)
  obtain x y where xy: "xy = (x, y)" by fastforce
  have here: "on_tetris_board (x, y)" "board_at b x y = 0" using Cons.prems(2) by (simp_all add: xy)
  have ok: "board_ok (set_cell v (x, y) b)" using Cons.prems(3) here assms(4,5) by (simp add: set_cell_ok)
  have at: "board_at (set_cell v (x, y) b) x' y' = (if x' = x \<and> y' = y then v else board_at b x' y')"
    if "on_tetris_board (x', y')" for x' y'
    using set_cell_at [OF Cons.prems(3) here(1) that] .
  have "\<forall>q\<in>set cells. on_tetris_board q \<and> board_at (set_cell v (x, y) b) (fst q) (snd q) = 0"
    using Cons.prems(1,2) by (auto simp: xy at)
  from Cons.IH [OF _ this ok] Cons.prems(1) show ?case
    using at set_cell_filled [OF Cons.prems(3) here] assms(4) by (auto simp: xy)
qed

text \<open>The cells of the board that the falling piece covers.\<close>

definition piece_cells :: "tetris_game_state \<Rightarrow> (int \<times> int) list" where
  "piece_cells st =
     map (\<lambda>(r, c). (piece_row st + r, piece_column st + c)) (occupied_cells (current_piece st) (rotation st))"

definition falling_ok :: "tetris_game_state \<Rightarrow> bool" where
  "falling_ok st \<longleftrightarrow> 0 \<le> current_piece st \<and> current_piece st < 7 \<and> 0 \<le> rotation st \<and> rotation st < 4 \<and>
     0 \<le> piece_row st"

definition lies_free :: "tetris_game_state \<Rightarrow> bool" where
  "lies_free st \<longleftrightarrow>
     fits (t_board st) (current_piece st) (rotation st) (piece_row st) (piece_column st)"

lemma distinct_piece_cells: "distinct (piece_cells st)"
proof -
  have "distinct shape_cells" by (simp add: shape_cells_def)
  then show ?thesis
    by (auto simp: piece_cells_def occupied_cells_def distinct_map inj_on_def)
qed

lemma piece_cells_free:
  assumes "falling_ok st" "lies_free st"
  shows "\<forall>xy\<in>set (piece_cells st). on_tetris_board xy \<and> board_at (t_board st) (fst xy) (snd xy) = 0"
proof
  fix xy
  assume "xy \<in> set (piece_cells st)"
  then obtain r c where rc: "session_game_tetris_cell_occupied (current_piece st) (rotation st) r c"
    "xy = (piece_row st + r, piece_column st + c)"
    by (auto simp: piece_cells_def occupied_cells_def)
  then show "on_tetris_board xy \<and> board_at (t_board st) (fst xy) (snd xy) = 0"
    using assms occupied_range [OF rc(1)] by (simp add: falling_ok_def lies_free_def fits_def on_tetris_board_def)
qed

lemma fold_place_cell:
  assumes "\<forall>xy\<in>set (piece_cells st). on_tetris_board xy" "set cells \<subseteq> set shape_cells"
  shows "fold (place_cell st) cells b =
     fold (set_cell (current_piece st + 1))
       (map (\<lambda>(r, c). (piece_row st + r, piece_column st + c))
          (filter (\<lambda>(r, c). session_game_tetris_cell_occupied (current_piece st) (rotation st) r c) cells)) b"
  using assms(2)
proof (induction cells arbitrary: b)
  case Nil
  then show ?case by simp
next
  case (Cons rc cells)
  obtain r c where rc: "rc = (r, c)" by fastforce
  have "on_tetris_board (piece_row st + r, piece_column st + c)"
    if "session_game_tetris_cell_occupied (current_piece st) (rotation st) r c"
    using that assms(1) Cons.prems by (force simp: rc piece_cells_def occupied_cells_def)
  then show ?case using Cons
    by (auto simp: rc place_cell_def Let_def set_cell_def on_tetris_board_def)
qed

lemma place_piece_spec:
  assumes "falling_ok st" "lies_free st" "board_ok (t_board st)"
  shows "board_ok (place_piece st)" "filled (place_piece st) = filled (t_board st) + 4"
    and "\<forall>x y. on_tetris_board (x, y) \<longrightarrow>
      board_at (place_piece st) x y =
        (if (x, y) \<in> set (piece_cells st) then current_piece st + 1 else board_at (t_board st) x y)"
proof -
  have "place_piece st = fold (set_cell (current_piece st + 1)) (piece_cells st) (t_board st)"
    unfolding place_piece_def
    by (subst fold_place_cell)
      (use piece_cells_free [OF assms(1,2)] in \<open>auto simp: piece_cells_def occupied_cells_def\<close>)
  moreover have "length (piece_cells st) = 4"
    using assms(1) four_cells [of "current_piece st" "rotation st"] by (simp add: piece_cells_def falling_ok_def)
  moreover have "0 < current_piece st + 1" "current_piece st + 1 \<le> 7"
    using assms(1) by (simp_all add: falling_ok_def)
  ultimately show "board_ok (place_piece st)" "filled (place_piece st) = filled (t_board st) + 4"
    "\<forall>x y. on_tetris_board (x, y) \<longrightarrow>
      board_at (place_piece st) x y =
        (if (x, y) \<in> set (piece_cells st) then current_piece st + 1 else board_at (t_board st) x y)"
    using fold_set_cell [OF distinct_piece_cells piece_cells_free [OF assms(1,2)] assms(3)] by simp_all
qed

section \<open>Rounds\<close>

definition rounds_ok :: "tetris_game_state \<Rightarrow> bool" where
  "rounds_ok st \<longleftrightarrow> 1 \<le> t_round st \<and> t_round st \<le> TETRIS_MAX_ROUNDS \<and>
     next_round_line_goal st = TETRIS_LINES_PER_ROUND * t_round st \<and>
     gravity_threshold st + t_round st = TETRIS_GRAVITY_THRESHOLD + 1 \<and> gravity_rate st = 1"

text \<open>A round is left as soon as its goal is reached.\<close>

definition goal_open :: "tetris_game_state \<Rightarrow> bool" where
  "goal_open st \<longleftrightarrow> (t_round st < TETRIS_MAX_ROUNDS \<longrightarrow> lines_cleared st < next_round_line_goal st)"

text \<open>What a change of round leaves alone.\<close>

definition same_play :: "tetris_game_state \<Rightarrow> tetris_game_state \<Rightarrow> bool" where
  "same_play st st' \<longleftrightarrow> t_board st' = t_board st \<and> bag st' = bag st \<and> bag_index st' = bag_index st \<and>
     next_piece st' = next_piece st \<and> t_score st' = t_score st \<and> lines_cleared st' = lines_cleared st \<and>
     t_game_over st' = t_game_over st"

lemmas tetris_constants = TETRIS_WIDTH_def TETRIS_HEIGHT_def TETRIS_GRAVITY_THRESHOLD_def
  TETRIS_LINES_PER_ROUND_def TETRIS_MAX_ROUNDS_def

lemma round_progress_spec:
  assumes "rounds_ok (gs_tetris ctx)" "gs_type ctx = SESSION_GAME_TETRIS"
  shows "rounds_ok (gs_tetris (session_game_tetris_handle_round_progress ctx)) \<and>
     goal_open (gs_tetris (session_game_tetris_handle_round_progress ctx)) \<and>
     same_play (gs_tetris ctx) (gs_tetris (session_game_tetris_handle_round_progress ctx)) \<and>
     same_session ctx (session_game_tetris_handle_round_progress ctx)"
  using assms
proof (induction ctx rule: session_game_tetris_handle_round_progress.induct)
  case (1 ctx)
  define st where "st = gs_tetris ctx"
  define st' where "st' = session_game_tetris_apply_round_settings (st\<lparr>t_round := t_round st + 1,
    next_round_line_goal := uint_add (next_round_line_goal st) TETRIS_LINES_PER_ROUND\<rparr>)"
  define ctx' where "ctx' = session_send_system_line (round_announcement (t_round st + 1)) (put_tetris st' ctx)"
  note step = session_game_tetris_handle_round_progress.simps [of ctx]
  show ?case
  proof (cases "t_round st < TETRIS_MAX_ROUNDS \<and> lines_cleared st \<ge> next_round_line_goal st")
    case False
    then have "session_game_tetris_handle_round_progress ctx = ctx" "goal_open st"
      by (auto simp: step Let_def st_def goal_open_def)
    then show ?thesis using 1(2) by (simp add: same_play_def st_def)
  next
    case True
    have r: "rounds_ok st'" "same_play st st'"
      using 1(2) True unfolding st'_def st_def [symmetric]
      by (simp_all add: rounds_ok_def same_play_def session_game_tetris_apply_round_settings_def Let_def
          tetris_constants uint_add_def UINT_MAX_def)
    have ctx': "gs_tetris ctx' = st'" "gs_type ctx' = SESSION_GAME_TETRIS" "same_session ctx ctx'"
      using 1(3) by (simp_all add: ctx'_def)
    have eq: "session_game_tetris_handle_round_progress ctx = session_game_tetris_handle_round_progress ctx'"
      using True 1(3) unfolding step by (simp add: Let_def ctx'_def st'_def st_def)
    have "gs_type ctx = SESSION_GAME_TETRIS \<and> t_round st < TETRIS_MAX_ROUNDS \<and>
        next_round_line_goal st \<le> lines_cleared st" using True 1(3) by simp
    from 1(1) [OF st_def this] r ctx' show ?thesis
      unfolding eq ctx'_def [symmetric] st'_def [symmetric] st_def [symmetric]
      by (auto intro: same_session_trans simp: same_play_def)
  qed
qed

section \<open>The well-formed game\<close>

definition score_ok :: "tetris_game_state \<Rightarrow> bool" where
  "score_ok st \<longleftrightarrow> lines_cleared st \<le> UINT_MAX \<and> t_score st = 10 * lines_cleared st mod 2 ^ 32"

definition books_ok :: "tetris_game_state \<Rightarrow> bool" where
  "books_ok st \<longleftrightarrow> board_ok (t_board st) \<and> (\<forall>row\<in>set (t_board st). \<not> row_full row) \<and> bag_ok st \<and>
     0 \<le> next_piece st \<and> next_piece st < 7 \<and> rounds_ok st \<and> goal_open st \<and> score_ok st"

definition tetris_ok :: "tetris_game_state \<Rightarrow> bool" where
  "tetris_ok st \<longleftrightarrow> books_ok st \<and> falling_ok st \<and> (t_game_over st \<or> lies_free st)"

lemma tetris_okD:
  "tetris_ok st \<Longrightarrow> books_ok st" "tetris_ok st \<Longrightarrow> falling_ok st"
  "tetris_ok st \<Longrightarrow> \<not> t_game_over st \<Longrightarrow> lies_free st"
  by (simp_all add: tetris_ok_def)

lemma books_okD:
  "books_ok st \<Longrightarrow> board_ok (t_board st)" "books_ok st \<Longrightarrow> bag_ok st" "books_ok st \<Longrightarrow> rounds_ok st"
  "books_ok st \<Longrightarrow> score_ok st" "books_ok st \<Longrightarrow> goal_open st"
  by (simp_all add: books_ok_def)

lemmas tetris_parts = books_ok_def bag_ok_def rounds_ok_def goal_open_def score_ok_def falling_ok_def lies_free_def

text \<open>The rest of the state does not matter to the invariant.\<close>

lemma tetris_ok_frame [simp]:
  "tetris_ok (st\<lparr>gravity_counter := n\<rparr>) = tetris_ok st"
  "tetris_ok (st\<lparr>gravity_timer_accumulator_ns := i\<rparr>) = tetris_ok st"
  "tetris_ok (st\<lparr>gravity_timer_initialized := f\<rparr>) = tetris_ok st"
  "tetris_ok (st\<lparr>gravity_timer_last := t\<rparr>) = tetris_ok st"
  "tetris_ok (st\<lparr>input_escape_active := f\<rparr>) = tetris_ok st"
  "tetris_ok (st\<lparr>input_escape_buffer := s\<rparr>) = tetris_ok st"
  by (simp_all add: tetris_ok_def tetris_parts)

lemma dealt_fields:
  assumes "dealt st st'"
  shows "same_play (st\<lparr>bag := bag st', bag_index := bag_index st'\<rparr>) st'" "bag_ok st'"
    and "rounds_ok st' = rounds_ok st" "goal_open st' = goal_open st" "score_ok st' = score_ok st"
    and "falling_ok st' = falling_ok st" "lies_free st' = lies_free st"
    and "gravity_counter st' = gravity_counter st" "current_piece st' = current_piece st"
    and "rotation st' = rotation st" "piece_row st' = piece_row st" "piece_column st' = piece_column st"
    and "input_escape_active st' = input_escape_active st"
proof -
  show "bag_ok st'" using assms by (simp add: dealt_def)
  have st: "st = st'\<lparr>bag := bag st, bag_index := bag_index st\<rparr>" using assms by (simp add: dealt_def)
  show "same_play (st\<lparr>bag := bag st', bag_index := bag_index st'\<rparr>) st'"
    "rounds_ok st' = rounds_ok st" "goal_open st' = goal_open st" "score_ok st' = score_ok st"
    "falling_ok st' = falling_ok st" "lies_free st' = lies_free st"
    "gravity_counter st' = gravity_counter st" "current_piece st' = current_piece st"
    "rotation st' = rotation st" "piece_row st' = piece_row st" "piece_column st' = piece_column st"
    "input_escape_active st' = input_escape_active st"
    by (subst st, simp add: same_play_def tetris_parts)+
qed

definition fresh_piece :: "tetris_game_state \<Rightarrow> tetris_game_state" where
  "fresh_piece st =
     st\<lparr>current_piece := next_piece st, rotation := 0, piece_row := 0,
        piece_column := int TETRIS_WIDTH div 2 - 2, gravity_counter := 0,
        gravity_timer_initialized := False, gravity_timer_accumulator_ns := 0,
        input_escape_active := False, input_escape_buffer := []\<rparr>"

lemma fresh_piece_fields [simp]:
  "rounds_ok (fresh_piece st) = rounds_ok st" "goal_open (fresh_piece st) = goal_open st"
  "score_ok (fresh_piece st) = score_ok st" "gravity_counter (fresh_piece st) = 0"
  "current_piece (fresh_piece st) = next_piece st" "rotation (fresh_piece st) = 0"
  "piece_row (fresh_piece st) = 0" "piece_column (fresh_piece st) = int TETRIS_WIDTH div 2 - 2"
  "input_escape_active (fresh_piece st) = False"
  by (simp_all add: fresh_piece_def tetris_parts)

lemma next_piece_fields [simp]:
  "rounds_ok (st\<lparr>next_piece := p\<rparr>) = rounds_ok st" "goal_open (st\<lparr>next_piece := p\<rparr>) = goal_open st"
  "score_ok (st\<lparr>next_piece := p\<rparr>) = score_ok st" "bag_ok (st\<lparr>next_piece := p\<rparr>) = bag_ok st"
  "falling_ok (st\<lparr>next_piece := p\<rparr>) = falling_ok st" "lies_free (st\<lparr>next_piece := p\<rparr>) = lies_free st"
  by (simp_all add: tetris_parts)

lemma game_over_fields [simp]:
  "books_ok (st\<lparr>t_game_over := f\<rparr>) = books_ok st" "falling_ok (st\<lparr>t_game_over := f\<rparr>) = falling_ok st"
  "lies_free (st\<lparr>t_game_over := f\<rparr>) = lies_free st"
  by (simp_all add: tetris_parts)

lemma spawn_eq:
  "session_game_tetris_spawn_piece raw ctx =
     (case session_game_tetris_take_piece raw (put_tetris (fresh_piece (gs_tetris ctx)) ctx) of (p, ctx') \<Rightarrow>
        let st = (gs_tetris ctx')\<lparr>next_piece := p\<rparr> in
        if lies_free st then (True, put_tetris st ctx')
        else (False, put_tetris (st\<lparr>t_game_over := True\<rparr>) ctx'))"
  by (simp add: session_game_tetris_spawn_piece_def fresh_piece_def lies_free_def Let_def case_prod_unfold)

text \<open>What a new piece leaves of the game.\<close>

definition spawned_from :: "tetris_game_state \<Rightarrow> tetris_game_state \<Rightarrow> bool" where
  "spawned_from st st' \<longleftrightarrow> tetris_ok st' \<and> gravity_counter st' = 0 \<and> current_piece st' = next_piece st \<and>
     rotation st' = 0 \<and> piece_row st' = 0 \<and> piece_column st' = int TETRIS_WIDTH div 2 - 2 \<and>
     \<not> input_escape_active st' \<and>
     t_board st' = t_board st \<and> t_score st' = t_score st \<and> lines_cleared st' = lines_cleared st"

lemma spawn_spec:
  assumes "books_ok (gs_tetris ctx)" "\<not> t_game_over (gs_tetris ctx)"
    and "session_game_tetris_spawn_piece raw ctx = (placed, ctx')"
  shows "spawned_from (gs_tetris ctx) (gs_tetris ctx')" "placed = (\<not> t_game_over (gs_tetris ctx'))"
    "same_session ctx ctx'" "placed = lies_free (gs_tetris ctx')"
proof -
  define st where "st = gs_tetris ctx"
  obtain p c1 where t: "session_game_tetris_take_piece raw (put_tetris (fresh_piece st) ctx) = (p, c1)"
    by fastforce
  have "bag_ok (gs_tetris (put_tetris (fresh_piece st) ctx))"
    using books_okD(2) [OF assms(1)] by (simp add: fresh_piece_def bag_ok_def st_def)
  note tp = take_piece_spec [OF this t]
  have d: "dealt (fresh_piece st) (gs_tetris c1)" using tp(1) by simp
  have f: "falling_ok (fresh_piece st)"
    using assms(1) by (simp add: fresh_piece_def st_def falling_ok_def books_ok_def)
  have keep: "t_board (gs_tetris c1) = t_board st" "t_score (gs_tetris c1) = t_score st"
    "lines_cleared (gs_tetris c1) = lines_cleared st" "\<not> t_game_over (gs_tetris c1)"
    using dealt_fields(1) [OF d] assms(2) by (simp_all add: same_play_def fresh_piece_def st_def)
  have upd: "books_ok ((gs_tetris c1)\<lparr>next_piece := p\<rparr>)" "falling_ok ((gs_tetris c1)\<lparr>next_piece := p\<rparr>)"
    using assms(1) tp(2,3) f dealt_fields(2-6) [OF d] keep(1) unfolding st_def by (simp_all add: books_ok_def)
  define st' where "st' = (gs_tetris c1)\<lparr>next_piece := p\<rparr>"
  have r: "ctx' = put_tetris (if placed then st' else st'\<lparr>t_game_over := True\<rparr>) c1" "placed = lies_free st'"
    using assms(3) t keep(4) unfolding spawn_eq st_def st'_def by (auto simp: Let_def split: if_splits)
  show "spawned_from (gs_tetris ctx) (gs_tetris ctx')"
    using upd keep dealt_fields(8-13) [OF d] r(2)
    unfolding spawned_from_def r(1) st_def [symmetric] st'_def [symmetric] by (simp add: tetris_ok_def st'_def)
  show "placed = (\<not> t_game_over (gs_tetris ctx'))" using keep(4) by (simp add: r(1) st'_def)
  show "same_session ctx ctx'" using tp(4) by (simp add: r(1))
  show "placed = lies_free (gs_tetris ctx')" using r(2) by (simp add: r(1))
qed

text \<open>The number of lines a locked piece completes, and the state it leaves.\<close>

definition completed :: "tetris_game_state \<Rightarrow> nat" where
  "completed st = length (filter row_full (place_piece st))"

definition locked_from :: "tetris_game_state \<Rightarrow> tetris_game_state \<Rightarrow> bool" where
  "locked_from st st' \<longleftrightarrow> tetris_ok st' \<and> gravity_counter st' = 0 \<and> current_piece st' = next_piece st \<and>
     t_board st' = without_full_rows (place_piece st) \<and>
     t_score st' = uint_add (t_score st) (10 * completed st) \<and>
     lines_cleared st' = uint_add (lines_cleared st) (completed st)"

lemma score_ok_add:
  assumes "score_ok st"
  shows "score_ok (st\<lparr>t_board := b, lines_cleared := uint_add (lines_cleared st) n,
                      t_score := uint_add (t_score st) (n * 10)\<rparr>)"
proof -
  have "(10 * a mod M + n * 10) mod M = 10 * ((a + n) mod M) mod M" for a M :: nat
    by (simp add: mod_simps distrib_left mult.commute)
  then show ?thesis
    using assms by (simp add: score_ok_def uint_add_le_UINT_MAX) (simp add: uint_add_def)
qed

text \<open>The state once the full lines are gone, before the next piece.\<close>

lemma cleared_state:
  assumes "tetris_ok (gs_tetris ctx)" "\<not> t_game_over (gs_tetris ctx)" "gs_type ctx = SESSION_GAME_TETRIS"
  defines "st \<equiv> gs_tetris ctx"
  defines "ctx1 \<equiv> (if completed st > 0
       then session_game_tetris_handle_round_progress (put_tetris
              (st\<lparr>t_board := without_full_rows (place_piece st), lines_cleared := uint_add (lines_cleared st) (completed st),
                  t_score := uint_add (t_score st) (completed st * 10)\<rparr>) ctx)
       else put_tetris (st\<lparr>t_board := without_full_rows (place_piece st)\<rparr>) ctx)"
  shows "books_ok (gs_tetris ctx1)" "\<not> t_game_over (gs_tetris ctx1)" "same_session ctx ctx1"
    and "t_board (gs_tetris ctx1) = without_full_rows (place_piece st)"
    and "t_score (gs_tetris ctx1) = uint_add (t_score st) (10 * completed st)"
    and "lines_cleared (gs_tetris ctx1) = uint_add (lines_cleared st) (completed st)"
    and "next_piece (gs_tetris ctx1) = next_piece st"
proof -
  have ok: "tetris_ok st" "\<not> t_game_over st" using assms(1,2) by (simp_all add: st_def)
  have "books_ok st" using tetris_okD(1) [OF ok(1)] .
  note sD = this books_okD [OF this]
  have b: "board_ok (without_full_rows (place_piece st))" "\<forall>row\<in>set (without_full_rows (place_piece st)). \<not> row_full row"
    using without_full_rows_ok [OF place_piece_spec(1) [OF tetris_okD(2) [OF ok(1)] tetris_okD(3) [OF ok] sD(2)]] .
  define st2 where "st2 = st\<lparr>t_board := without_full_rows (place_piece st),
    lines_cleared := uint_add (lines_cleared st) (completed st), t_score := uint_add (t_score st) (completed st * 10)\<rparr>"
  have st2: "rounds_ok st2" "score_ok st2" "bag_ok st2"
    using sD score_ok_add [OF sD(5)] by (simp_all add: st2_def rounds_ok_def bag_ok_def)
  have "books_ok (gs_tetris ctx1) \<and> \<not> t_game_over (gs_tetris ctx1) \<and> same_session ctx ctx1 \<and>
      t_board (gs_tetris ctx1) = t_board st2 \<and> t_score (gs_tetris ctx1) = t_score st2 \<and>
      lines_cleared (gs_tetris ctx1) = lines_cleared st2 \<and> next_piece (gs_tetris ctx1) = next_piece st2"
  proof (cases "completed st > 0")
    case True
    then have c1: "ctx1 = session_game_tetris_handle_round_progress (put_tetris st2 ctx)"
      by (simp add: ctx1_def st2_def)
    have p: "rounds_ok (gs_tetris ctx1)" "goal_open (gs_tetris ctx1)" "same_play st2 (gs_tetris ctx1)"
      "same_session ctx ctx1"
      using round_progress_spec [of "put_tetris st2 ctx"] st2(1) assms(3) by (simp_all add: c1)
    moreover have "score_ok (gs_tetris ctx1)" "bag_ok (gs_tetris ctx1)"
      using p(3) st2 by (simp_all add: same_play_def score_ok_def bag_ok_def)
    ultimately show ?thesis using b sD(1) ok(2) by (simp add: books_ok_def same_play_def st2_def)
  next
    case False
    then have "ctx1 = put_tetris (st\<lparr>t_board := without_full_rows (place_piece st)\<rparr>) ctx" by (simp add: ctx1_def)
    moreover have "books_ok (st\<lparr>t_board := without_full_rows (place_piece st)\<rparr>)"
      using b sD by (simp add: tetris_parts) 
    ultimately show ?thesis using False ok(2) sD(5) by (simp add: st2_def uint_add_def score_ok_def UINT_MAX_def)
  qed
  then show "books_ok (gs_tetris ctx1)" "\<not> t_game_over (gs_tetris ctx1)" "same_session ctx ctx1"
    "t_board (gs_tetris ctx1) = without_full_rows (place_piece st)"
    "t_score (gs_tetris ctx1) = uint_add (t_score st) (10 * completed st)"
    "lines_cleared (gs_tetris ctx1) = uint_add (lines_cleared st) (completed st)"
    "next_piece (gs_tetris ctx1) = next_piece st"
    by (simp_all add: st2_def mult.commute)
qed

lemma lock_spec:
  assumes "tetris_ok (gs_tetris ctx)" "\<not> t_game_over (gs_tetris ctx)" "gs_type ctx = SESSION_GAME_TETRIS"
  shows "locked_from (gs_tetris ctx) (gs_tetris (session_game_tetris_lock_piece raw ctx))"
    "same_session ctx (session_game_tetris_lock_piece raw ctx)"
proof -
  define st where "st = gs_tetris ctx"
  define ctx1 where "ctx1 = (if completed st > 0
       then session_game_tetris_handle_round_progress (put_tetris
              (st\<lparr>t_board := without_full_rows (place_piece st), lines_cleared := uint_add (lines_cleared st) (completed st),
                  t_score := uint_add (t_score st) (completed st * 10)\<rparr>) ctx)
       else put_tetris (st\<lparr>t_board := without_full_rows (place_piece st)\<rparr>) ctx)"
  note c = cleared_state [OF assms, folded st_def, folded ctx1_def]
  obtain placed ctx2 where sp: "session_game_tetris_spawn_piece raw ctx1 = (placed, ctx2)" by fastforce
  note s = spawn_spec [OF c(1,2) sp]
  have "\<not> current_piece st < 0" using tetris_okD(2) [OF assms(1)] by (simp add: falling_ok_def st_def)
  then have "session_game_tetris_lock_piece raw ctx =
      (if placed then ctx2 else put_tetris ((gs_tetris ctx2)\<lparr>t_game_over := True\<rparr>) ctx2)"
    using assms(3) sp unfolding session_game_tetris_lock_piece_def clear_lines_eq completed_def [symmetric]
      st_def [symmetric] Let_def prod.case ctx1_def [symmetric] by simp
  moreover have "locked_from st (gs_tetris ctx2)"
    using s(1) c(4-7) by (simp add: spawned_from_def locked_from_def)
  moreover have "same_session ctx ctx2" using s(3) c(3) by (rule same_session_trans [rotated])
  ultimately show "locked_from (gs_tetris ctx) (gs_tetris (session_game_tetris_lock_piece raw ctx))"
    "same_session ctx (session_game_tetris_lock_piece raw ctx)"
    by (auto simp: locked_from_def tetris_ok_def st_def)
qed

section \<open>Moves\<close>

text \<open>The game of a session is going on.\<close>

definition in_play :: "tetris_session \<Rightarrow> bool" where
  "in_play ctx \<longleftrightarrow> gs_type ctx = SESSION_GAME_TETRIS \<and> tetris_ok (gs_tetris ctx) \<and> \<not> t_game_over (gs_tetris ctx)"

lemma put_same [simp]: "put_tetris (gs_tetris ctx) ctx = ctx"
  by (simp add: put_tetris_def)

lemma put_put [simp]: "put_tetris st (put_tetris st' ctx) = put_tetris st ctx"
  by (simp add: put_tetris_def)

lemma piece_fields [simp]:
  "books_ok (st\<lparr>piece_row := r\<rparr>) = books_ok st" "books_ok (st\<lparr>piece_column := c\<rparr>) = books_ok st"
  "books_ok (st\<lparr>rotation := k\<rparr>) = books_ok st"
  by (simp_all add: tetris_parts)

lemma move_spec:
  assumes "in_play ctx" "0 \<le> drow"
  shows "session_game_tetris_move drow dcol ctx =
      (let st = gs_tetris ctx in
       if fits (t_board st) (current_piece st) (rotation st) (piece_row st + drow) (piece_column st + dcol)
       then (True, put_tetris (st\<lparr>piece_row := piece_row st + drow, piece_column := piece_column st + dcol\<rparr>) ctx)
       else (False, ctx))"
    and "in_play (snd (session_game_tetris_move drow dcol ctx))"
    and "same_session ctx (snd (session_game_tetris_move drow dcol ctx))"
proof -
  have st: "gs_type ctx = SESSION_GAME_TETRIS" "books_ok (gs_tetris ctx)" "falling_ok (gs_tetris ctx)"
    "\<not> t_game_over (gs_tetris ctx)"
    using assms by (simp_all add: in_play_def tetris_ok_def)
  then show eq: "session_game_tetris_move drow dcol ctx =
      (let st = gs_tetris ctx in
       if fits (t_board st) (current_piece st) (rotation st) (piece_row st + drow) (piece_column st + dcol)
       then (True, put_tetris (st\<lparr>piece_row := piece_row st + drow, piece_column := piece_column st + dcol\<rparr>) ctx)
       else (False, ctx))"
    by (simp add: session_game_tetris_move_def falling_ok_def Let_def)
  show "in_play (snd (session_game_tetris_move drow dcol ctx))"
    using assms st unfolding eq by (simp add: Let_def in_play_def tetris_ok_def falling_ok_def lies_free_def)
  show "same_session ctx (snd (session_game_tetris_move drow dcol ctx))"
    unfolding eq by (simp add: Let_def)
qed

lemma rotate_spec:
  assumes "in_play ctx"
  shows "in_play (snd (session_game_tetris_rotate ctx))" "same_session ctx (snd (session_game_tetris_rotate ctx))"
  using assms
  by (auto simp: session_game_tetris_rotate_def Let_def in_play_def tetris_ok_def falling_ok_def lies_free_def)

text \<open>The piece one row lower.\<close>

definition lowered_by :: "nat \<Rightarrow> tetris_session \<Rightarrow> tetris_session" where
  "lowered_by k ctx = put_tetris ((gs_tetris ctx)\<lparr>piece_row := piece_row (gs_tetris ctx) + int k\<rparr>) ctx"

definition can_fall :: "tetris_session \<Rightarrow> bool" where
  "can_fall ctx \<longleftrightarrow> (let st = gs_tetris ctx in
     fits (t_board st) (current_piece st) (rotation st) (piece_row st + 1) (piece_column st))"

lemma lowered_by_0 [simp]: "lowered_by 0 ctx = ctx"
  by (simp add: lowered_by_def)

lemma lowered_by_Suc: "lowered_by k (lowered_by 1 ctx) = lowered_by (Suc k) ctx"
  by (simp add: lowered_by_def add.assoc)

lemma lowered_session [simp]:
  "same_session ctx (lowered_by k ctx') = same_session ctx ctx'"
  "gravity_counter (gs_tetris (lowered_by k ctx)) = gravity_counter (gs_tetris ctx)"
  "gravity_threshold (gs_tetris (lowered_by k ctx)) = gravity_threshold (gs_tetris ctx)"
  "piece_row (gs_tetris (lowered_by k ctx)) = piece_row (gs_tetris ctx) + int k"
  "t_game_over (gs_tetris (lowered_by k ctx)) = t_game_over (gs_tetris ctx)"
  by (simp_all add: lowered_by_def)

lemma soft_drop_eq:
  assumes "in_play ctx"
  shows "session_game_tetris_soft_drop raw ctx =
     (if can_fall ctx then (True, lowered_by 1 ctx) else (False, session_game_tetris_lock_piece raw ctx))"
proof -
  have "session_game_tetris_move 1 0 ctx = (if can_fall ctx then (True, lowered_by 1 ctx) else (False, ctx))"
    using move_spec(1) [OF assms, of 1 0] by (simp add: can_fall_def lowered_by_def Let_def)
  then show ?thesis by (simp add: session_game_tetris_soft_drop_def)
qed

lemma lowered_in_play:
  assumes "in_play ctx" "can_fall ctx"
  shows "in_play (lowered_by 1 ctx)"
  using move_spec(1,2) [OF assms(1), of 1 0] assms(2) by (simp add: can_fall_def lowered_by_def Let_def)

lemma fall_bound:
  assumes "in_play ctx" "can_fall ctx"
  shows "piece_row (gs_tetris ctx) + 1 < int TETRIS_HEIGHT"
proof (rule ccontr)
  assume "\<not> ?thesis"
  then show False
    using assms not_fits_below [of "current_piece (gs_tetris ctx)" "piece_row (gs_tetris ctx) + 1"]
    by (simp add: can_fall_def in_play_def tetris_ok_def falling_ok_def Let_def)
qed

text \<open>A hard drop ends: it locks the piece where it can fall no further.\<close>

lemma hard_drop_lands:
  assumes "in_play ctx"
  shows "\<exists>k. (\<forall>j<k. can_fall (lowered_by j ctx)) \<and> \<not> can_fall (lowered_by k ctx) \<and> in_play (lowered_by k ctx) \<and>
     hard_drop_loop raw redraw ctx = Some (redraw \<or> 0 < k, session_game_tetris_lock_piece raw (lowered_by k ctx))"
  using assms
proof (induction "nat (int TETRIS_HEIGHT - piece_row (gs_tetris ctx))" arbitrary: ctx redraw rule: less_induct)
  case less
  show ?case
  proof (cases "can_fall ctx")
    case False
    then show ?thesis using less.prems
      by (intro exI [of _ 0]) (simp add: hard_drop_loop.simps [of raw redraw] soft_drop_eq)
  next
    case True
    have "nat (int TETRIS_HEIGHT - piece_row (gs_tetris (lowered_by 1 ctx))) <
        nat (int TETRIS_HEIGHT - piece_row (gs_tetris ctx))"
      using fall_bound [OF less.prems True] by simp
    from less.hyps [OF this lowered_in_play [OF less.prems True], of True]
    obtain k where k: "\<forall>j<k. can_fall (lowered_by (Suc j) ctx)" "\<not> can_fall (lowered_by (Suc k) ctx)"
      "in_play (lowered_by (Suc k) ctx)"
      "hard_drop_loop raw True (lowered_by 1 ctx) = Some (True, session_game_tetris_lock_piece raw (lowered_by (Suc k) ctx))"
      unfolding lowered_by_Suc by auto
    have "\<forall>j<Suc k. can_fall (lowered_by j ctx)"
      using k(1) True by (auto simp: less_Suc_eq_0_disj)
    then show ?thesis using k less.prems True
      by (intro exI [of _ "Suc k"]) (simp add: hard_drop_loop.simps [of raw redraw ctx] soft_drop_eq)
  qed
qed

section \<open>Gravity, keys and lines\<close>

definition ready :: "tetris_game_state \<Rightarrow> bool" where
  "ready st \<longleftrightarrow> tetris_ok st \<and> \<not> t_game_over st \<and> gravity_counter st < gravity_threshold st"

text \<open>What every part of a step keeps, until the end of the game is noticed.\<close>

definition kept :: "tetris_session \<Rightarrow> tetris_session \<Rightarrow> bool" where
  "kept ctx ctx' \<longleftrightarrow> same_session ctx ctx' \<and> tetris_ok (gs_tetris ctx') \<and>
     gravity_counter (gs_tetris ctx') < gravity_threshold (gs_tetris ctx')"

lemma threshold_pos: "tetris_ok st \<Longrightarrow> 0 < gravity_threshold st"
  by (auto simp: tetris_ok_def books_ok_def rounds_ok_def tetris_constants)

lemma lock_kept:
  assumes "in_play ctx"
  shows "kept ctx (session_game_tetris_lock_piece raw ctx)"
  using lock_spec [where ctx = ctx and raw = raw] assms threshold_pos
  by (auto simp: kept_def in_play_def locked_from_def)

lemma gravity_loop_returns:
  assumes "in_play ctx"
  shows "\<exists>m ctx'. gravity_loop raw moved ctx = Some (m, ctx') \<and> kept ctx ctx'"
  using assms
proof (induction "gravity_counter (gs_tetris ctx)" arbitrary: ctx moved rule: less_induct)
  case less
  define st where "st = gs_tetris ctx"
  have ok: "tetris_ok st" "\<not> t_game_over st" using less.prems by (simp_all add: in_play_def st_def)
  note unfold = gravity_loop.simps [of raw moved ctx]
  consider (wait) "gravity_counter st < gravity_threshold st"
    | (lock) "gravity_counter st \<ge> gravity_threshold st" "\<not> can_fall ctx"
    | (fall) "gravity_counter st \<ge> gravity_threshold st" "can_fall ctx" by linarith
  then show ?case
  proof cases
    case wait
    then show ?thesis using ok by (simp add: unfold st_def kept_def)
  next
    case lock
    then show ?thesis using lock_kept [OF less.prems, of raw] threshold_pos
      by (simp add: unfold st_def soft_drop_eq [OF less.prems] kept_def)
  next
    case fall
    define ctx2 where "ctx2 = put_tetris ((gs_tetris (lowered_by 1 ctx))
      \<lparr>gravity_counter := gravity_counter st - gravity_threshold st\<rparr>) (lowered_by 1 ctx)"
    have "in_play ctx2" using lowered_in_play [OF less.prems fall(2)] by (simp add: in_play_def ctx2_def lowered_by_def)
    moreover have "gravity_counter (gs_tetris ctx2) < gravity_counter (gs_tetris ctx)"
      using fall(1) threshold_pos [OF ok(1)] by (simp add: ctx2_def st_def)
    ultimately obtain m ctx' where r: "gravity_loop raw True ctx2 = Some (m, ctx')" "kept ctx2 ctx'"
      using less.hyps by blast
    have "gravity_loop raw moved ctx = gravity_loop raw True ctx2"
      using fall ok(2) by (simp add: unfold st_def ctx2_def soft_drop_eq [OF less.prems] Let_def)
    moreover have "kept ctx ctx'" using r(2) by (simp add: kept_def ctx2_def lowered_by_def)
    ultimately show ?thesis using r(1) by simp
  qed
qed

lemma apply_gravity_returns:
  assumes "in_play ctx" "gs_active ctx" "0 < ticks"
  shows "\<exists>m ctx'. session_game_tetris_apply_gravity raw ticks ctx = Some (m, ctx') \<and> kept ctx ctx'"
proof -
  define ctx1 where "ctx1 = put_tetris ((gs_tetris ctx)
    \<lparr>gravity_counter := uint_add (gravity_counter (gs_tetris ctx)) ticks\<rparr>) ctx"
  have "in_play ctx1" using assms(1) by (simp add: ctx1_def in_play_def)
  then obtain m ctx' where r: "gravity_loop raw False ctx1 = Some (m, ctx')" "kept ctx1 ctx'"
    using gravity_loop_returns by blast
  have "session_game_tetris_apply_gravity raw ticks ctx = gravity_loop raw False ctx1"
    using assms threshold_pos [of "gs_tetris ctx"]
    by (simp add: session_game_tetris_apply_gravity_def in_play_def Let_def ctx1_def)
  then show ?thesis using r by (simp add: kept_def ctx1_def)
qed

lemma timer_read_fields [simp]:
  "tetris_ok (timer_read now st) = tetris_ok st" "t_game_over (timer_read now st) = t_game_over st"
  "gravity_counter (timer_read now st) = gravity_counter st"
  "gravity_threshold (timer_read now st) = gravity_threshold st"
  by (simp_all add: timer_read_def)

lemma update_timer_returns:
  assumes "gs_active ctx" "gs_type ctx = SESSION_GAME_TETRIS" "ready (gs_tetris ctx)"
  shows "\<exists>m ctx'. session_game_tetris_update_timer raw now acc ctx = Some (m, ctx') \<and> kept ctx ctx'"
proof -
  define st where "st = timer_read now (gs_tetris ctx)"
  obtain t rest where t: "timer_ticks (gravity_rate st) (gravity_timer_accumulator_ns st) 0 = (t, rest)" by fastforce
  define ctx1 where "ctx1 = put_tetris (st\<lparr>gravity_timer_accumulator_ns := rest\<rparr>) ctx"
  define ticks where "ticks = (if acc then uint_add t (uint_add (gravity_rate st) (gravity_threshold st)) else t)"
  have eq: "session_game_tetris_update_timer raw now acc ctx =
      (if ticks = 0 then Some (False, ctx1) else session_game_tetris_apply_gravity raw ticks ctx1)"
    using assms t unfolding session_game_tetris_update_timer_def st_def [symmetric]
    by (simp add: ready_def Let_def ctx1_def ticks_def)
  have c1: "in_play ctx1" "gs_active ctx1" "kept ctx ctx1"
    using assms by (simp_all add: in_play_def ctx1_def st_def ready_def kept_def)
  show ?thesis
  proof (cases "ticks = 0")
    case True
    then show ?thesis using c1 by (auto simp: eq)
  next
    case False
    then obtain m ctx' where "session_game_tetris_apply_gravity raw ticks ctx1 = Some (m, ctx')" "kept ctx1 ctx'"
      using apply_gravity_returns [OF c1(1,2)] by blast
    then show ?thesis using False by (simp add: eq kept_def ctx1_def)
  qed
qed

lemma in_play_ready: "gs_type ctx = SESSION_GAME_TETRIS \<Longrightarrow> ready (gs_tetris ctx) \<Longrightarrow> in_play ctx"
  by (simp add: in_play_def ready_def)

lemma move_kept:
  assumes "gs_type ctx = SESSION_GAME_TETRIS" "ready (gs_tetris ctx)"
  shows "kept ctx (snd (session_game_tetris_move 0 dcol ctx))" "kept ctx (snd (session_game_tetris_rotate ctx))"
proof -
  note p = in_play_ready [OF assms]
  have c: "gravity_counter (gs_tetris (snd (session_game_tetris_move 0 dcol ctx))) = gravity_counter (gs_tetris ctx)"
    "gravity_threshold (gs_tetris (snd (session_game_tetris_move 0 dcol ctx))) = gravity_threshold (gs_tetris ctx)"
    "gravity_counter (gs_tetris (snd (session_game_tetris_rotate ctx))) = gravity_counter (gs_tetris ctx)"
    "gravity_threshold (gs_tetris (snd (session_game_tetris_rotate ctx))) = gravity_threshold (gs_tetris ctx)"
    by (simp_all add: session_game_tetris_move_def session_game_tetris_rotate_def Let_def)
  then show "kept ctx (snd (session_game_tetris_move 0 dcol ctx))" "kept ctx (snd (session_game_tetris_rotate ctx))"
    using assms move_spec(2,3) [OF p, of 0 dcol] rotate_spec [OF p]
    unfolding kept_def in_play_def ready_def by simp_all
qed

lemma perform_returns:
  assumes "gs_type ctx = SESSION_GAME_TETRIS" "ready (gs_tetris ctx)"
  shows "\<exists>m ctx'. tetris_perform raw action ctx = Some (m, ctx') \<and> kept ctx ctx'"
proof (cases action)
  case TETRIS_INPUT_HARD_DROP
  obtain k where "hard_drop_loop raw False ctx = Some (0 < k, session_game_tetris_lock_piece raw (lowered_by k ctx))"
    "in_play (lowered_by k ctx)"
    using hard_drop_lands [OF in_play_ready [OF assms], of raw False] by auto
  then show ?thesis using lock_kept [of "lowered_by k ctx" raw] TETRIS_INPUT_HARD_DROP
    by (simp add: tetris_perform_def kept_def lowered_by_def)
qed (use move_kept [OF assms] assms in \<open>auto simp: tetris_perform_def kept_def ready_def prod_eq_iff\<close>)

end
