(* ===== verification/Tetris_Session.thy ===== *)
theory Tetris_Session
  imports Tetris_Play
begin

text \<open>
  The Tetris games of a session from their start to their end: the keys, the lines, the
  idle ticks and the suspensions as steps, the invariant of the session, and the
  properties of the game.
\<close>

section \<open>Steps\<close>

text \<open>A key, a tick of the main loop, a line, the suspension of the game (Ctrl-Z or
  \<^verbatim>\<open>/suspend!\<close>), the command \<^verbatim>\<open>/game tetris\<close>.\<close>

datatype tetris_event =
    TetrisKey char timespec timespec "cstr list"
  | TetrisIdle timespec
  | TetrisLine cstr timespec timespec
  | TetrisSuspend
  | TetrisStart bool cstr

definition session_handle_game_tetris :: "64 word \<Rightarrow> bool \<Rightarrow> cstr \<Rightarrow> tetris_session \<Rightarrow> tetris_session" where
  "session_handle_game_tetris raw allocated inp ctx =
     (if gs_active ctx then session_send_system_line ''Finish the current game with /suspend! first.'' ctx
      else session_game_start_tetris raw allocated inp ctx)"

fun tetris_step :: "64 word \<Rightarrow> tetris_event \<Rightarrow> tetris_session \<Rightarrow> tetris_session option" where
  "tetris_step raw (TetrisKey ch now1 now2 shown) ctx =
     map_option snd (session_game_tetris_process_raw_input raw now1 now2 shown ch ctx)"
| "tetris_step raw (TetrisIdle now) ctx = map_option snd (session_game_tetris_process_timeout raw now ctx)"
| "tetris_step raw (TetrisLine line now1 now2) ctx = session_game_tetris_handle_line raw now1 now2 line ctx"
| "tetris_step raw TetrisSuspend ctx = Some (session_game_suspend_tetris ''Game suspended.'' ctx)"
| "tetris_step raw (TetrisStart allocated inp) ctx = Some (session_handle_game_tetris raw allocated inp ctx)"

definition tetris_run :: "64 word \<Rightarrow> tetris_event list \<Rightarrow> tetris_session \<Rightarrow> tetris_session option" where
  "tetris_run raw evs ctx = fold (\<lambda>e s. Option.bind s (tetris_step raw e)) evs (Some ctx)"

section \<open>The invariant of the session\<close>

definition session_ok :: "tetris_session \<Rightarrow> bool" where
  "session_ok ctx \<longleftrightarrow>
     (if gs_active ctx then gs_type ctx = SESSION_GAME_TETRIS \<and> ready (gs_tetris ctx)
      else gs_type ctx = SESSION_GAME_NONE) \<and>
     (is_camouflaged ctx \<longrightarrow> ready (gs_saved_tetris ctx))"

lemma session_ok_active:
  "session_ok ctx \<Longrightarrow> gs_active ctx \<Longrightarrow> gs_type ctx = SESSION_GAME_TETRIS \<and> ready (gs_tetris ctx)"
  by (simp add: session_ok_def)

lemma session_ok_send [simp]: "session_ok (session_send_system_line msg ctx) = session_ok ctx"
  by (simp add: session_ok_def)

lemma suspend_ok: "session_ok ctx \<or> gs_active ctx \<and> (is_camouflaged ctx \<longrightarrow> ready (gs_saved_tetris ctx)) \<Longrightarrow>
    session_ok (session_game_suspend_tetris reason ctx)"
  by (auto simp: session_game_suspend_tetris_def session_ok_def Let_def)

lemma kept_session:
  assumes "session_ok ctx" "gs_active ctx" "kept ctx ctx'"
  shows "gs_active ctx'" "is_camouflaged ctx' \<longrightarrow> ready (gs_saved_tetris ctx')"
    "\<not> t_game_over (gs_tetris ctx') \<Longrightarrow> session_ok ctx'"
  using assms by (auto simp: session_ok_def kept_def same_session_def ready_def)

lemma game_over_check_ok:
  assumes "session_ok ctx" "gs_active ctx" "kept ctx ctx'"
    and "\<And>c. session_ok c \<Longrightarrow> gs_active c \<Longrightarrow> \<exists>r. k c = Some r \<and> session_ok r"
  shows "\<exists>r. game_over_check ctx' k = Some r \<and> session_ok r"
  using kept_session [OF assms(1-3)] assms(4) by (auto simp: game_over_check_def suspend_ok)

lemma kept_refl: "session_ok ctx \<Longrightarrow> gs_active ctx \<Longrightarrow> kept ctx ctx"
  by (simp add: session_ok_def kept_def ready_def)

lemma timer_then_check:
  assumes "session_ok ctx" "gs_active ctx"
    and "\<And>c. session_ok c \<Longrightarrow> gs_active c \<Longrightarrow> \<exists>r. k c = Some r \<and> session_ok r"
  shows "\<exists>r. (case session_game_tetris_update_timer raw now acc ctx of None \<Rightarrow> None
     | Some (_, ctx) \<Rightarrow> game_over_check ctx k) = Some r \<and> session_ok r"
proof -
  obtain m ctx' where "session_game_tetris_update_timer raw now acc ctx = Some (m, ctx')" "kept ctx ctx'"
    using update_timer_returns [of ctx raw now acc] assms(1,2) session_ok_active by blast
  then show ?thesis using game_over_check_ok [OF assms(1,2) _ assms(3)] by simp
qed

lemma perform_then_check:
  assumes "session_ok ctx" "gs_active ctx"
    and "\<And>c. session_ok c \<Longrightarrow> gs_active c \<Longrightarrow> \<exists>r. k c = Some r \<and> session_ok r"
  shows "\<exists>r. (case tetris_perform raw action ctx of None \<Rightarrow> None
     | Some (_, ctx) \<Rightarrow> game_over_check ctx k) = Some r \<and> session_ok r"
proof -
  obtain m ctx' where "tetris_perform raw action ctx = Some (m, ctx')" "kept ctx ctx'"
    using perform_returns [of ctx raw action] assms(1,2) session_ok_active by blast
  then show ?thesis using game_over_check_ok [OF assms(1,2) _ assms(3)] by simp
qed

lemma process_action_ok:
  assumes "session_ok ctx"
  shows "\<exists>r. session_game_tetris_process_action raw now1 now2 action ctx = Some r \<and> session_ok r"
proof (cases "gs_active ctx \<and> \<not> is_camouflaged ctx \<and> action \<noteq> TETRIS_INPUT_NONE")
  case False
  then show ?thesis using assms by (auto simp: session_game_tetris_process_action_def)
next
  case True
  have last: "\<exists>r. (case (if action = TETRIS_INPUT_HARD_DROP then Some (False, c)
              else session_game_tetris_update_timer raw now2 (action = TETRIS_INPUT_SOFT_DROP) c)
        of None \<Rightarrow> None | Some (_, ctx) \<Rightarrow> game_over_check ctx Some) = Some r \<and> session_ok r"
    if "session_ok c" "gs_active c" for c
    using timer_then_check [OF that, of Some raw now2] game_over_check_ok [OF that kept_refl [OF that], of Some]
    by (cases "action = TETRIS_INPUT_HARD_DROP") simp_all
  show ?thesis
    using True session_ok_active [OF assms] unfolding session_game_tetris_process_action_def
    by (simp, intro game_over_check_ok [OF assms _ kept_refl [OF assms]] timer_then_check perform_then_check last)
      simp_all
qed

lemma ready_frame [simp]:
  "ready (timer_off st) = ready st"
  "ready (st\<lparr>input_escape_active := f\<rparr>) = ready st"
  "ready (st\<lparr>input_escape_buffer := s\<rparr>) = ready st"
  by (simp_all add: ready_def timer_off_def)

lemma session_ok_put:
  "session_ok ctx \<Longrightarrow> (gs_active ctx \<Longrightarrow> ready st) \<Longrightarrow> session_ok (put_tetris st ctx)"
  by (simp add: session_ok_def)

lemma toggle_ok: "session_ok ctx \<Longrightarrow> session_ok (session_game_toggle_camouflage_tetris shown ctx)"
  by (auto simp: session_game_toggle_camouflage_tetris_def session_ok_def)

text \<open>An operation that reports whether it has consumed its input returns, and the session is
  well formed.\<close>

definition returns_ok :: "(bool \<times> tetris_session) option \<Rightarrow> bool" where
  "returns_ok res \<longleftrightarrow> res \<noteq> None \<and> session_ok (snd (the res))"

lemma returns_ok_Some [simp]: "returns_ok (Some (m, r)) = session_ok r"
  by (simp add: returns_ok_def)

lemma returns_ok_snd: "returns_ok res \<Longrightarrow> \<exists>r. map_option snd res = Some r \<and> session_ok r"
  by (auto simp: returns_ok_def)

lemma returns_ok_if: "returns_ok (if b then x else y) = (if b then returns_ok x else returns_ok y)"
  by simp

lemma action_returns_ok [simp]:
  "session_ok ctx \<Longrightarrow> returns_ok (map_option (Pair True) (session_game_tetris_process_action raw now1 now2 a ctx))"
  using process_action_ok [of ctx raw now1 now2 a] by (auto simp: returns_ok_def)

lemma timeout_ok:
  assumes "session_ok ctx"
  shows "returns_ok (session_game_tetris_process_timeout raw now ctx)"
proof (cases "gs_active ctx \<and> \<not> is_camouflaged ctx")
  case False
  then show ?thesis using assms session_ok_put [OF assms, of "timer_off (gs_tetris ctx)"] session_ok_active [OF assms]
    by (auto simp: session_game_tetris_process_timeout_def)
next
  case True
  obtain m ctx' where u: "session_game_tetris_update_timer raw now False ctx = Some (m, ctx')" "kept ctx ctx'"
    using update_timer_returns [of ctx raw now False] session_ok_active [OF assms] True by blast
  note k = kept_session [OF assms _ u(2)]
  show ?thesis using True u(1) k session_ok_active [OF assms] suspend_ok
    by (simp add: session_game_tetris_process_timeout_def)
qed

lemma escape_char_ok:
  assumes "session_ok ctx" "gs_active ctx"
  shows "returns_ok (tetris_escape_char raw now1 now2 ch ctx)"
proof -
  have "session_ok (put_tetris ((gs_tetris ctx)\<lparr>input_escape_active := f, input_escape_buffer := s\<rparr>) ctx)"
    "session_ok (put_tetris ((gs_tetris ctx)\<lparr>input_escape_buffer := s\<rparr>) ctx)" for f s
    using assms session_ok_active [OF assms] by (simp_all add: session_ok_put)
  then show ?thesis
    unfolding tetris_escape_char_def Let_def returns_ok_if by simp
qed

lemma raw_input_ok:
  assumes "session_ok ctx"
  shows "returns_ok (session_game_tetris_process_raw_input raw now1 now2 shown ch ctx)"
proof -
  have "session_ok (put_tetris ((gs_tetris ctx)\<lparr>input_escape_active := True, input_escape_buffer := s\<rparr>) ctx)" for s
    using session_ok_active [OF assms] by (simp add: session_ok_put [OF assms])
  then show ?thesis
    using assms escape_char_ok [OF assms] toggle_ok [OF assms]
    unfolding session_game_tetris_process_raw_input_def Let_def returns_ok_if by simp
qed

lemma handle_line_ok:
  assumes "session_ok ctx"
  shows "\<exists>r. session_game_tetris_handle_line raw now1 now2 line ctx = Some r \<and> session_ok r"
  using assms process_action_ok [OF assms] suspend_ok returns_ok_snd [OF timeout_ok [OF assms]]
  unfolding session_game_tetris_handle_line_def Let_def by simp

section \<open>The start\<close>

lemma reset_books_ok:
  "books_ok (session_game_tetris_reset st)" "\<not> t_game_over (session_game_tetris_reset st)"
  by (simp_all add: session_game_tetris_reset_def session_game_tetris_apply_round_settings_def Let_def books_ok_def
      board_ok_def bag_ok_def all_pieces_def rounds_ok_def goal_open_def score_ok_def tetris_constants)

lemma choose_language_session:
  "same_session ctx (choose_language answer ctx)" "gs_tetris (choose_language answer ctx) = gs_tetris ctx"
  by (simp_all add: choose_language_def Let_def same_session_def session_send_system_line_def)

lemma deal_spec:
  "books_ok (gs_tetris (tetris_deal raw ctx))" "\<not> t_game_over (gs_tetris (tetris_deal raw ctx))"
  "t_board (gs_tetris (tetris_deal raw ctx)) = replicate TETRIS_HEIGHT empty_row"
  "gs_type (tetris_deal raw ctx) = SESSION_GAME_TETRIS" "gs_active (tetris_deal raw ctx)"
  "is_camouflaged (tetris_deal raw ctx) = is_camouflaged ctx"
  "gs_saved_tetris (tetris_deal raw ctx) = gs_saved_tetris ctx"
proof -
  define st where "st = session_game_tetris_reset (gs_tetris ctx)"
  define c1 where "c1 = session_game_seed_rng raw (put_tetris st ctx)"
  define c2 where "c2 = session_game_tetris_fill_bag raw c1"
  obtain p c3 where t: "session_game_tetris_take_piece raw c2 = (p, c3)" by fastforce
  have c1: "same_session ctx c1" "gs_tetris c1 = st"
    by (simp_all add: c1_def)
  have d2: "dealt st (gs_tetris c2)" "same_session ctx c2"
    using fill_bag_spec(1,3) [where ctx = c1 and raw = raw] c1 by (auto simp: c2_def intro: same_session_trans)
  have b2: "bag_ok (gs_tetris c2)" using dealt_fields(2) [OF d2(1)] .
  note tp = take_piece_spec [OF b2 t]
  have d: "tetris_deal raw ctx = (put_tetris ((gs_tetris c3)\<lparr>next_piece := p, t_game_over := False\<rparr>) c3)
      \<lparr>gs_type := SESSION_GAME_TETRIS, gs_active := True\<rparr>"
    unfolding tetris_deal_def Let_def st_def [symmetric] c1_def [symmetric] c2_def [symmetric] by (simp add: t)
  note f2 = dealt_fields [OF d2(1)] and f3 = dealt_fields [OF tp(1)]
  have b: "t_board (gs_tetris c3) = t_board st"
    using f2(1) f3(1) by (simp add: same_play_def)
  have "books_ok ((gs_tetris c3)\<lparr>next_piece := p\<rparr>)"
    using reset_books_ok(1) [of "gs_tetris ctx", folded st_def] f2 f3 b tp(2,3) by (simp add: books_ok_def)
  then show "books_ok (gs_tetris (tetris_deal raw ctx))" by (simp add: d)
  show "t_board (gs_tetris (tetris_deal raw ctx)) = replicate TETRIS_HEIGHT empty_row"
    using b by (simp add: d st_def session_game_tetris_reset_def session_game_tetris_apply_round_settings_def Let_def)
  show "\<not> t_game_over (gs_tetris (tetris_deal raw ctx))" "gs_type (tetris_deal raw ctx) = SESSION_GAME_TETRIS"
    "gs_active (tetris_deal raw ctx)" by (simp_all add: d)
  show "is_camouflaged (tetris_deal raw ctx) = is_camouflaged ctx"
    "gs_saved_tetris (tetris_deal raw ctx) = gs_saved_tetris ctx"
    using d2(2) tp(4) by (simp_all add: d same_session_def)
qed

text \<open>Every piece fits at the top of an empty board.\<close>

lemma fits_empty_all:
  "list_all (\<lambda>p. session_game_tetris_position_valid
      (st\<lparr>t_board := replicate TETRIS_HEIGHT empty_row\<rparr>) p 0 0 5) [0, 1, 2, 3, 4, 5, 6]"
  by (simp add: session_game_tetris_position_valid_def session_game_tetris_cell_occupied_def shape_cells_def
      TETROMINO_SHAPES_def board_at_def tetris_constants empty_row_def del: position_valid_fits)

lemma fits_empty:
  assumes "0 \<le> p" "p < 7"
  shows "fits (replicate TETRIS_HEIGHT empty_row) p 0 0 5"
proof -
  have "p \<in> set [0, 1, 2, 3, 4, 5, 6]" using assms by simp presburger
  then show ?thesis using fits_empty_all [of "undefined"] by (auto simp: list_all_iff)
qed

text \<open>A game that has its memory and the answer to its question starts.\<close>

lemma start_spec:
  assumes "allocated" "read_language [] inp = Some (answer, rest)"
    and "ctx' = session_game_start_tetris raw allocated inp ctx"
  shows "gs_active ctx'" "gs_type ctx' = SESSION_GAME_TETRIS" "ready (gs_tetris ctx')"
    "t_board (gs_tetris ctx') = replicate TETRIS_HEIGHT empty_row"
    "is_camouflaged ctx' = is_camouflaged ctx" "gs_saved_tetris ctx' = gs_saved_tetris ctx"
    "\<not> input_escape_active (gs_tetris ctx')"
proof -
  define c0 where "c0 = session_send_system_line
     (''CHOOSE YOUR LOCKSCREEN LANGUAGE TO HIDE THE SCREEN ON YOUR OFFICE! '' @
      ''(c, cpp, java, go, js, ts, rust)'') ctx"
  define c1 where "c1 = choose_language answer c0"
  obtain placed c2 where sp: "session_game_tetris_spawn_piece raw (tetris_deal raw c1) = (placed, c2)" by fastforce
  note d = deal_spec [of raw c1] and s = spawn_spec [OF deal_spec(1,2) sp]
  have st: "tetris_ok (gs_tetris c2)" "gravity_counter (gs_tetris c2) = 0" "current_piece (gs_tetris c2) < 7"
    "0 \<le> current_piece (gs_tetris c2)" "t_board (gs_tetris c2) = replicate TETRIS_HEIGHT empty_row"
    using s(1) d(1,3) by (simp_all add: spawned_from_def books_ok_def)
  have placed: placed
    using s(1,4) st(3-5) fits_empty [of "current_piece (gs_tetris c2)"]
    by (simp add: lies_free_def spawned_from_def TETRIS_WIDTH_def)
  have ctx': "gs_tetris ctx' = gs_tetris c2" "gs_active ctx' = gs_active c2" "gs_type ctx' = gs_type c2"
    "is_camouflaged ctx' = is_camouflaged c2" "gs_saved_tetris ctx' = gs_saved_tetris c2"
    using assms(1,2) placed sp unfolding assms(3) session_game_start_tetris_def Let_def
      c0_def [symmetric] by (simp_all add: c1_def)
  have c1: "same_session c0 c1" using choose_language_session(1) by (simp add: c1_def)
  have c0: "is_camouflaged c0 = is_camouflaged ctx" "gs_saved_tetris c0 = gs_saved_tetris ctx"
    by (simp_all add: c0_def)
  show "gs_active ctx'" "gs_type ctx' = SESSION_GAME_TETRIS" "is_camouflaged ctx' = is_camouflaged ctx"
    "gs_saved_tetris ctx' = gs_saved_tetris ctx" "t_board (gs_tetris ctx') = replicate TETRIS_HEIGHT empty_row"
    using s(3) d(4-7) c1 c0 st(5) by (simp_all add: ctx' same_session_def)
  show "\<not> input_escape_active (gs_tetris ctx')" using s(1) by (simp add: ctx' spawned_from_def)
  show "ready (gs_tetris ctx')"
    using st(1,2) placed s(2) threshold_pos [OF st(1)] by (simp add: ctx' ready_def)
qed

lemma start_ok:
  assumes "session_ok ctx" "\<not> gs_active ctx"
  shows "session_ok (session_game_start_tetris raw allocated inp ctx)"
proof (cases "allocated \<and> read_language [] inp \<noteq> None")
  case False
  then consider "\<not> allocated" | "allocated" "read_language [] inp = None" by blast
  then show ?thesis using assms
    by cases (simp_all add: session_game_start_tetris_def Let_def session_ok_def del: read_language.simps)
next
  case True
  then obtain answer rest where "read_language [] inp = Some (answer, rest)" by fastforce
  from start_spec [OF _ this refl, of allocated] True assms show ?thesis
    by (simp add: session_ok_def)
qed

lemma step_ok:
  assumes "session_ok ctx"
  shows "\<exists>ctx'. tetris_step raw ev ctx = Some ctx' \<and> session_ok ctx'"
  using returns_ok_snd [OF raw_input_ok [OF assms]] returns_ok_snd [OF timeout_ok [OF assms]]
    handle_line_ok [OF assms] suspend_ok assms start_ok [OF assms]
  by (cases ev) (auto simp: session_handle_game_tetris_def)

interpretation tetris_sys: invariant_system "\<lambda>e s. Option.bind s (tetris_step raw e)" "\<lambda>_. True"
    "\<lambda>s. \<exists>ctx. s = Some ctx \<and> session_ok ctx" for raw
  by unfold_locales (use step_ok in auto)

lemma tetris_run_eq: "tetris_run raw evs ctx = tetris_sys.run raw evs (Some ctx)"
  by (simp add: tetris_run_def tetris_sys.run_def)

section \<open>Properties\<close>

text \<open>Counting the occupied cells across a clearing of lines.\<close>

lemma row_count_full: "row_ok row \<Longrightarrow> row_full row \<Longrightarrow> row_count row = TETRIS_WIDTH"
proof -
  have "list_all (\<lambda>v. v \<noteq> 0) row \<Longrightarrow> row_count row = length row" for row
    by (induction row) (simp_all add: row_count_def)
  then show "row_ok row \<Longrightarrow> row_full row \<Longrightarrow> row_count row = TETRIS_WIDTH"
    by (simp add: row_ok_def row_full_def)
qed

lemma filled_split:
  assumes "\<forall>row\<in>set b. row_ok row"
  shows "filled b = filled (filter (\<lambda>row. \<not> row_full row) b) + TETRIS_WIDTH * length (filter row_full b)"
  using assms by (induction b) (simp_all add: filled_def row_count_full)

lemma filled_clear:
  assumes "board_ok b"
  shows "filled (without_full_rows b) + TETRIS_WIDTH * length (filter row_full b) = filled b"
proof -
  have "row_count empty_row = 0" by (simp add: row_count_def empty_row_def sum_list_replicate)
  then have "filled (without_full_rows b) = filled (filter (\<lambda>row. \<not> row_full row) b)"
    by (simp add: filled_def without_full_rows_def Let_def sum_list_replicate)
  then show ?thesis using filled_split [of b] assms by (simp add: board_ok_def)
qed

text \<open>
  Clearing lines.  The scan from the top, which moves the rows above a full one down
  and looks at the same place again, ends with exactly the rows that were not full, in
  their order, under as many empty rows as lines were removed, and with their number.
\<close>

theorem clear_lines_exact:
  "session_game_tetris_clear_lines b =
     (length (filter row_full b),
      replicate (length (filter row_full b)) (replicate 15 0) @ filter (\<lambda>row. \<not> row_full row) b)"
  by (simp add: session_game_tetris_clear_lines_def clear_loop_eq empty_row_def TETRIS_WIDTH_def)

text \<open>
  Locking a piece.  When a piece of a well-formed game is locked, its four cells are
  added to the board in its colour, full lines disappear, each gives ten points, and no
  other occupied cell is gained or lost: the cells of the new board and fifteen for each
  line cleared are the old ones and four.  The announced piece comes next.
\<close>

theorem lock_conserves_cells:
  assumes "gs_type ctx = SESSION_GAME_TETRIS" "ready (gs_tetris ctx)"
  shows "let st = gs_tetris ctx; st' = gs_tetris (session_game_tetris_lock_piece raw ctx);
             n = length (filter row_full (place_piece st)) in
     filled (t_board st') + 15 * n = filled (t_board st) + 4 \<and>
     (\<forall>x y. on_tetris_board (x, y) \<longrightarrow> board_at (place_piece st) x y =
        (if (x, y) \<in> set (piece_cells st) then current_piece st + 1 else board_at (t_board st) x y)) \<and>
     t_board st' = replicate n (replicate 15 0) @ filter (\<lambda>row. \<not> row_full row) (place_piece st) \<and>
     t_score st' = (t_score st + 10 * n) mod 2 ^ 32 \<and> lines_cleared st' = (lines_cleared st + n) mod 2 ^ 32 \<and>
     current_piece st' = next_piece st"
proof -
  define st where "st = gs_tetris ctx"
  define n where "n = length (filter row_full (place_piece st))"
  have p: "in_play ctx" using in_play_ready [OF assms] .
  then have st: "falling_ok st" "lies_free st" "board_ok (t_board st)"
    by (auto simp: in_play_def tetris_ok_def books_ok_def st_def)
  note l = lock_spec(1) [of ctx raw, folded st_def] and pl = place_piece_spec [OF st]
  have l: "locked_from st (gs_tetris (session_game_tetris_lock_piece raw ctx))"
    using l p by (simp add: in_play_def st_def)
  have "without_full_rows (place_piece st) =
      replicate n (replicate 15 0) @ filter (\<lambda>row. \<not> row_full row) (place_piece st)"
    using clear_lines_eq [of "place_piece st"]
    by (simp add: session_game_tetris_clear_lines_def clear_loop_eq empty_row_def TETRIS_WIDTH_def n_def)
  then show ?thesis
    using l pl filled_clear [OF pl(1)]
    unfolding st_def [symmetric] Let_def n_def [symmetric]
    by (simp add: locked_from_def completed_def uint_add_def n_def TETRIS_WIDTH_def)
qed

text \<open>
  Hard drop.  In a game going on, a hard drop ends: there is a number of rows the piece
  can fall, each of them onto free cells, after which it can fall no further, and the
  drop is the locking of the piece there.
\<close>

theorem hard_drop_is_lowest:
  assumes "gs_type ctx = SESSION_GAME_TETRIS" "ready (gs_tetris ctx)"
  shows "\<exists>k. let st = gs_tetris ctx;
       free = (\<lambda>row. session_game_tetris_position_valid st (current_piece st) (rotation st) row (piece_column st)) in
     (\<forall>j\<le>k. free (piece_row st + int j)) \<and> \<not> free (piece_row st + int k + 1) \<and>
     tetris_perform raw TETRIS_INPUT_HARD_DROP ctx =
       Some (0 < k, session_game_tetris_lock_piece raw (put_tetris (st\<lparr>piece_row := piece_row st + int k\<rparr>) ctx))"
proof -
  have p: "in_play ctx" using in_play_ready [OF assms] .
  obtain k where k: "\<forall>j<k. can_fall (lowered_by j ctx)" "\<not> can_fall (lowered_by k ctx)"
    "hard_drop_loop raw False ctx = Some (0 < k, session_game_tetris_lock_piece raw (lowered_by k ctx))"
    using hard_drop_lands [OF p, of raw False] by auto
  define st where "st = gs_tetris ctx"
  define free where "free row = fits (t_board st) (current_piece st) (rotation st) row (piece_column st)" for row
  have cf: "can_fall (lowered_by j ctx) = free (piece_row st + int j + 1)" for j
    by (simp add: can_fall_def lowered_by_def free_def st_def Let_def)
  have "free (piece_row st + int j)" if "j \<le> k" for j
  proof (cases j)
    case 0
    then show ?thesis using p by (auto simp: in_play_def tetris_ok_def lies_free_def free_def st_def)
  next
    case (Suc i)
    then show ?thesis using k(1) cf [of i] that by (simp add: add.assoc add.commute [of 1])
  qed
  then show ?thesis using k(2,3) cf
    by (intro exI [of _ k]) (simp add: Let_def free_def st_def tetris_perform_def lowered_by_def)
qed

lemma ready_picture:
  assumes "ready st"
  shows "\<not> t_game_over st \<and> length (t_board st) = 20 \<and>
    (\<forall>row\<in>set (t_board st). length row = 15 \<and> \<not> row_full row) \<and>
    length (piece_cells st) = 4 \<and> distinct (piece_cells st) \<and>
    (\<forall>(x, y)\<in>set (piece_cells st). 0 \<le> x \<and> x < 20 \<and> 0 \<le> y \<and> y < 15 \<and> board_at (t_board st) x y = 0)"
proof -
  have st: "books_ok st" "falling_ok st" "lies_free st" "\<not> t_game_over st"
    using assms by (auto simp: ready_def tetris_ok_def)
  have "length (t_board st) = 20 \<and> (\<forall>row\<in>set (t_board st). length row = 15 \<and> \<not> row_full row)"
    using st(1) by (simp add: books_ok_def board_ok_def row_ok_def tetris_constants)
  moreover have "length (piece_cells st) = 4"
    using st(2) four_cells [of "current_piece st" "rotation st"] by (simp add: piece_cells_def falling_ok_def)
  moreover have "\<forall>(x, y)\<in>set (piece_cells st). 0 \<le> x \<and> x < 20 \<and> 0 \<le> y \<and> y < 15 \<and> board_at (t_board st) x y = 0"
    using piece_cells_free [OF st(2,3)] by (auto simp: on_tetris_board_def tetris_constants)
  ultimately show ?thesis using st(4) distinct_piece_cells by blast
qed

text \<open>
  C18: The games of a session.  From a session without a game, every sequence of keys, ticks,
  lines, suspensions and starts, at whatever times and with whatever random numbers, is
  handled to its end: no drop and no fall goes on for ever.  While a game is on, it is not
  over, its board has 20 rows of 15 cells, none of them full, and the falling piece
  covers four different cells of the board, all of them empty.
\<close>

theorem tetris_every_input_handled:
  assumes "\<not> gs_active ctx" "gs_type ctx = SESSION_GAME_NONE" "\<not> is_camouflaged ctx"
  shows "\<exists>ctx'. tetris_run raw evs ctx = Some ctx' \<and>
    (gs_active ctx' \<longrightarrow>
       (let st = gs_tetris ctx' in
        gs_type ctx' = SESSION_GAME_TETRIS \<and> \<not> t_game_over st \<and>
        length (t_board st) = 20 \<and> (\<forall>row\<in>set (t_board st). length row = 15 \<and> \<not> row_full row) \<and>
        length (piece_cells st) = 4 \<and> distinct (piece_cells st) \<and>
        (\<forall>(x, y)\<in>set (piece_cells st).
           0 \<le> x \<and> x < 20 \<and> 0 \<le> y \<and> y < 15 \<and> board_at (t_board st) x y = 0)))"
proof -
  have "session_ok ctx" using assms by (simp add: session_ok_def)
  then obtain ctx' where r: "tetris_run raw evs ctx = Some ctx'" "session_ok ctx'"
    using tetris_sys.inv_run [of evs "Some ctx" raw] by (auto simp: tetris_run_eq list_all_iff)
  then show ?thesis using session_ok_active [OF r(2)] ready_picture [of "gs_tetris ctx'"]
    by (intro exI [of _ ctx']) (simp add: Let_def)
qed

text \<open>
  The books of a game.  At every moment of a game, however it was played, the bag is an
  arrangement of the seven pieces, the score is ten times the lines cleared (in 32
  bits), the round is 1, 2 or 3, goes up with every ten lines, and sets the speed: a
  piece falls every \<open>6 - round\<close> tenths of a second.
\<close>

theorem tetris_books_balance:
  assumes "\<not> gs_active ctx" "gs_type ctx = SESSION_GAME_NONE" "\<not> is_camouflaged ctx"
    and "tetris_run raw evs ctx = Some ctx'" "gs_active ctx'"
  shows "let st = gs_tetris ctx' in
     mset (bag st) = mset [0..6] \<and> bag_index st \<le> 7 \<and>
     t_score st = 10 * lines_cleared st mod 2 ^ 32 \<and>
     t_round st \<in> {1, 2, 3} \<and> (t_round st < 3 \<longrightarrow> lines_cleared st < 10 * t_round st) \<and>
     gravity_threshold st = 6 - t_round st \<and> gravity_counter st < gravity_threshold st"
proof -
  have "session_ok ctx" using assms by (simp add: session_ok_def)
  then have "session_ok ctx'"
    using tetris_sys.inv_run [of evs "Some ctx" raw] assms(4) by (simp add: tetris_run_eq list_all_iff)
  then have st: "ready (gs_tetris ctx')" using session_ok_active assms(5) by blast
  have "[0..6] = all_pieces" by (simp add: all_pieces_def upto.simps)
  then show ?thesis using st
    by (auto simp: Let_def ready_def tetris_ok_def books_ok_def bag_ok_def rounds_ok_def score_ok_def goal_open_def
        tetris_constants)
qed

text \<open>
  Camouflage.  A game that is hidden stands still, whatever time passes and whatever keys
  are typed but T and Escape, and the same game goes on when T is typed again; only the
  timer of the fall starts afresh.
\<close>

definition idle_key :: "tetris_event \<Rightarrow> bool" where
  "idle_key ev \<longleftrightarrow> (case ev of TetrisIdle now \<Rightarrow> True
     | TetrisKey ch now1 now2 shown \<Rightarrow> ch \<noteq> CHR ''t'' \<and> ch \<noteq> CHR ''T'' \<and> ch \<noteq> CHR 0x1B
     | _ \<Rightarrow> False)"

definition hidden_like :: "tetris_session \<Rightarrow> tetris_session \<Rightarrow> bool" where
  "hidden_like ctx ctx' \<longleftrightarrow> gs_active ctx' \<and> gs_type ctx' = SESSION_GAME_TETRIS \<and> is_camouflaged ctx' \<and>
     \<not> input_escape_active (gs_tetris ctx') \<and> gs_saved_tetris ctx' = gs_saved_tetris ctx"

lemma t_key: "(if c_isupper ch then c_tolower ch else ch) = CHR ''t'' \<longleftrightarrow> ch = CHR ''t'' \<or> ch = CHR ''T''"
proof -
  have "code ch = 84" if "char_of (code ch + 32) = CHR ''t''" "code ch \<le> 90"
    using arg_cong [OF that(1), of code] that(2) by simp
  moreover have "ch = CHR ''T'' \<longleftrightarrow> code ch = 84" using of_char_eq_iff [where ?'a = nat, of ch "CHR ''T''"] by simp
  moreover have "char_of (116 :: nat) = CHR ''t''" by code_simp
  ultimately show ?thesis by (auto simp: c_tolower_def c_isupper_def)
qed

lemma hidden_step:
  assumes "hidden_like ctx c" "idle_key ev"
  shows "\<exists>c'. tetris_step raw ev c = Some c' \<and> hidden_like ctx c'"
proof (cases ev)
  case (TetrisKey ch now1 now2 shown)
  have ex: "\<exists>a :: bool. a" "Ex Not" by blast+
  show ?thesis using assms
    unfolding TetrisKey tetris_step.simps session_game_tetris_process_raw_input_def Let_def t_key
    by (simp add: hidden_like_def idle_key_def ex)
next
  case (TetrisIdle now)
  then show ?thesis using assms
    by (simp add: hidden_like_def session_game_tetris_process_timeout_def timer_off_def)
qed (use assms in \<open>simp_all add: idle_key_def\<close>)

lemma hidden_run:
  assumes "hidden_like ctx c" "list_all idle_key evs"
  shows "\<exists>c'. fold (\<lambda>e s. Option.bind s (tetris_step raw e)) evs (Some c) = Some c' \<and> hidden_like ctx c'"
  using assms
proof (induction evs arbitrary: c)
  case Nil
  then show ?case by simp
next
  case (Cons ev evs)
  then obtain c1 where "tetris_step raw ev c = Some c1" "hidden_like ctx c1"
    using hidden_step [of ctx c ev raw] by auto
  then show ?case using Cons by simp
qed

text \<open>Typing T in a game that is not hidden, and in one that is.\<close>

lemma t_key_step:
  assumes "gs_active ctx" "gs_type ctx = SESSION_GAME_TETRIS" "\<not> input_escape_active (gs_tetris ctx)"
  shows "tetris_step raw (TetrisKey CHR ''t'' now1 now2 shown) ctx =
     Some (session_game_toggle_camouflage_tetris shown ctx)"
proof -
  have "(if c_isupper CHR ''t'' then c_tolower CHR ''t'' else CHR ''t'') = CHR ''t''" using t_key by simp
  then show ?thesis using assms
    unfolding tetris_step.simps session_game_tetris_process_raw_input_def Let_def by simp
qed

lemma toggle_hidden:
  assumes "gs_active ctx" "gs_type ctx = SESSION_GAME_TETRIS" "\<not> input_escape_active (gs_tetris ctx)"
    "\<not> is_camouflaged ctx"
  shows "hidden_like (ctx\<lparr>gs_saved_tetris := timer_off (gs_tetris ctx)\<rparr>)
     (session_game_toggle_camouflage_tetris shown ctx)"
  using assms by (simp add: hidden_like_def session_game_toggle_camouflage_tetris_def timer_off_def)

lemma toggle_back:
  assumes "hidden_like ctx c"
  shows "gs_tetris (session_game_toggle_camouflage_tetris shown c) = timer_off (gs_saved_tetris ctx)"
    "gs_active (session_game_toggle_camouflage_tetris shown c)"
    "\<not> is_camouflaged (session_game_toggle_camouflage_tetris shown c)"
  using assms by (simp_all add: hidden_like_def session_game_toggle_camouflage_tetris_def session_send_system_line_def put_tetris_def)

theorem hidden_game_stands_still:
  assumes "gs_active ctx" "gs_type ctx = SESSION_GAME_TETRIS" "\<not> is_camouflaged ctx"
    and "\<not> input_escape_active (gs_tetris ctx)" "list_all idle_key evs"
  shows "\<exists>ctx'. tetris_run raw (TetrisKey CHR ''t'' a1 a2 shown # evs @ [TetrisKey CHR ''t'' b1 b2 shown']) ctx =
      Some ctx' \<and> gs_active ctx' \<and> \<not> is_camouflaged ctx' \<and>
      gs_tetris ctx' = (gs_tetris ctx)\<lparr>gravity_timer_initialized := False, gravity_timer_accumulator_ns := 0\<rparr>"
proof -
  define c1 where "c1 = session_game_toggle_camouflage_tetris shown ctx"
  have h1: "hidden_like (ctx\<lparr>gs_saved_tetris := timer_off (gs_tetris ctx)\<rparr>) c1"
    using toggle_hidden [OF assms(1,2,4,3)] by (simp add: c1_def)
  obtain c2 where c2: "fold (\<lambda>e s. Option.bind s (tetris_step raw e)) evs (Some c1) = Some c2"
    "hidden_like (ctx\<lparr>gs_saved_tetris := timer_off (gs_tetris ctx)\<rparr>) c2"
    using hidden_run [OF h1 assms(5)] by blast
  have s2: "tetris_step raw (TetrisKey CHR ''t'' b1 b2 shown') c2 =
      Some (session_game_toggle_camouflage_tetris shown' c2)"
    using c2(2) by (intro t_key_step) (simp_all add: hidden_like_def)
  have "tetris_run raw (TetrisKey CHR ''t'' a1 a2 shown # evs @ [TetrisKey CHR ''t'' b1 b2 shown']) ctx =
      Some (session_game_toggle_camouflage_tetris shown' c2)"
    using t_key_step [OF assms(1,2,4)] c2(1) s2 by (simp add: tetris_run_def c1_def del: tetris_step.simps)
  then show ?thesis using toggle_back [OF c2(2), of shown'] by (simp add: timer_off_def)
qed

text \<open>
  A suspended game comes back.  The command that starts a game does not end the camouflage
  of an earlier one.  So when a game is suspended while it is hidden and a new one is
  started, the new one is hidden from its first moment, and typing T replaces it by the
  game that was suspended, with its board and its score.  The code means to end a
  suspended game: it prints its final score and clears its state.
\<close>

theorem suspended_game_returns:
  assumes "gs_active ctx" "gs_type ctx = SESSION_GAME_TETRIS" "\<not> is_camouflaged ctx"
    and "\<not> input_escape_active (gs_tetris ctx)" "read_language [] inp = Some (answer, rest)"
  shows "\<exists>ctx'. tetris_run raw [TetrisKey CHR ''t'' a1 a2 shown, TetrisSuspend, TetrisStart True inp,
        TetrisKey CHR ''t'' b1 b2 shown'] ctx = Some ctx' \<and> gs_active ctx' \<and>
      t_board (gs_tetris ctx') = t_board (gs_tetris ctx) \<and> t_score (gs_tetris ctx') = t_score (gs_tetris ctx) \<and>
      current_piece (gs_tetris ctx') = current_piece (gs_tetris ctx)"
proof -
  define c1 where "c1 = session_game_toggle_camouflage_tetris shown ctx"
  define c2 where "c2 = session_game_suspend_tetris ''Game suspended.'' c1"
  define c3 where "c3 = session_game_start_tetris raw True inp c2"
  have c1: "gs_active c1" "is_camouflaged c1" "gs_saved_tetris c1 = timer_off (gs_tetris ctx)"
    using toggle_hidden [OF assms(1,2,4,3)] by (simp_all add: hidden_like_def c1_def)
  have c2: "\<not> gs_active c2" "is_camouflaged c2" "gs_saved_tetris c2 = timer_off (gs_tetris ctx)"
    using c1 by (simp_all add: c2_def session_game_suspend_tetris_def Let_def)
  note s = start_spec [OF TrueI assms(5) c3_def]
  have h: "hidden_like c3 c3" using s c2 by (simp add: hidden_like_def)
  have "tetris_run raw [TetrisKey CHR ''t'' a1 a2 shown, TetrisSuspend, TetrisStart True inp,
        TetrisKey CHR ''t'' b1 b2 shown'] ctx = Some (session_game_toggle_camouflage_tetris shown' c3)"
    using t_key_step [OF assms(1,2,4)] t_key_step [OF s(1,2,7)] c2(1)
    by (simp add: tetris_run_def c1_def [symmetric] c2_def [symmetric] c3_def [symmetric]
        session_handle_game_tetris_def del: tetris_step.simps(1))
  then show ?thesis using toggle_back [OF h, of shown'] s(6) c2(3) by (simp add: timer_off_def)
qed

text \<open>
  Arrow keys with a modifier.  A plain arrow key is the letter key of its direction.  Of
  the sequence a terminal sends for Shift and the left arrow only the first three
  characters are taken as a sequence; the rest is read as typed, and its last one, the
  letter D, moves the piece to the right.
\<close>

lemmas key_simps = tetris_run_def session_game_tetris_process_raw_input_def Let_def tetris_escape_char_def
  escape_action_def letter_action_def c_isupper_def option.map_comp comp_def option.map_ident

lemma lower_D: "c_tolower CHR ''D'' = CHR ''d''"
  by code_simp

theorem shift_left_moves_right:
  assumes "gs_active ctx" "gs_type ctx = SESSION_GAME_TETRIS" "\<not> is_camouflaged ctx"
    and "input_escape_buffer (gs_tetris ctx) = []" "\<not> input_escape_active (gs_tetris ctx)"
  shows "tetris_run raw (map (\<lambda>c. TetrisKey c now now []) [CHR 0x1B, CHR ''['', CHR ''D'']) ctx =
      session_game_tetris_process_action raw now now TETRIS_INPUT_MOVE_LEFT ctx \<and>
    tetris_run raw (map (\<lambda>c. TetrisKey c now now [])
        [CHR 0x1B, CHR ''['', CHR ''1'', CHR '';'', CHR ''2'', CHR ''D'']) ctx =
      session_game_tetris_process_action raw now now TETRIS_INPUT_MOVE_RIGHT ctx"
proof -
  define ctx0 where "ctx0 = put_tetris ((gs_tetris ctx)\<lparr>input_escape_active := False, input_escape_buffer := []\<rparr>) ctx"
  have "(gs_tetris ctx)\<lparr>input_escape_active := False, input_escape_buffer := []\<rparr> = gs_tetris ctx"
    using assms(4,5) by (cases "gs_tetris ctx") simp
  then have same: "ctx0 = ctx" unfolding ctx0_def by (simp only: put_same)
  have "tetris_run raw (map (\<lambda>c. TetrisKey c now now []) [CHR 0x1B, CHR ''['', CHR ''D'']) ctx =
      session_game_tetris_process_action raw now now TETRIS_INPUT_MOVE_LEFT ctx0"
    using assms by (simp add: key_simps ctx0_def)
  moreover have "tetris_run raw (map (\<lambda>c. TetrisKey c now now [])
        [CHR 0x1B, CHR ''['', CHR ''1'', CHR '';'', CHR ''2'', CHR ''D'']) ctx =
      session_game_tetris_process_action raw now now TETRIS_INPUT_MOVE_RIGHT ctx0"
    using assms by (simp add: key_simps lower_D ctx0_def)
  ultimately show ?thesis by (simp only: same)
qed

section \<open>What the player sees\<close>

lemma board_eqI:
  assumes "board_ok b" "length b' = TETRIS_HEIGHT" "\<forall>row\<in>set b'. length row = TETRIS_WIDTH"
    and "\<And>x y. on_tetris_board (x, y) \<Longrightarrow> board_at b' x y = board_at b x y"
  shows "b' = b"
proof (rule nth_equalityI)
  show "length b' = length b" using assms(1,2) by (simp add: board_ok_def)
  fix i
  assume i: "i < length b'"
  then have len: "length (b' ! i) = TETRIS_WIDTH" "length (b ! i) = TETRIS_WIDTH"
    using assms(1-3) by (auto simp: board_ok_def row_ok_def)
  show "b' ! i = b ! i"
  proof (rule nth_equalityI)
    show "length (b' ! i) = length (b ! i)" using len by simp
    fix j
    assume "j < length (b' ! i)"
    then show "b' ! i ! j = b ! i ! j"
      using assms(4) [of "int i" "int j"] i assms(2) len by (simp add: on_tetris_board_def board_at_def)
  qed
qed

lemma piece_cells_mem:
  "(x, y) \<in> set (piece_cells st) \<longleftrightarrow>
     session_game_tetris_cell_occupied (current_piece st) (rotation st) (x - piece_row st) (y - piece_column st)"
proof
  assume "(x, y) \<in> set (piece_cells st)"
  then show "session_game_tetris_cell_occupied (current_piece st) (rotation st) (x - piece_row st) (y - piece_column st)"
    by (auto simp: piece_cells_def occupied_cells_def)
next
  assume occ: "session_game_tetris_cell_occupied (current_piece st) (rotation st) (x - piece_row st) (y - piece_column st)"
  then have "(x - piece_row st, y - piece_column st) \<in> set (occupied_cells (current_piece st) (rotation st))"
    using occupied_range [OF occ] by (simp add: occupied_cells_def shape_cells_mem)
  then show "(x, y) \<in> set (piece_cells st)" by (force simp: piece_cells_def)
qed

text \<open>
  What is drawn.  In a game going on, the cells collected for drawing are the board as it
  would be with the falling piece locked where it is, before lines are cleared.
\<close>

theorem drawn_board_is_placed_piece:
  assumes "ready st"
  shows "session_game_tetris_capture_visible_cells st = place_piece st"
proof -
  have st: "falling_ok st" "lies_free st" "board_ok (t_board st)" "\<not> t_game_over st"
    using assms by (auto simp: ready_def tetris_ok_def books_ok_def)
  note pl = place_piece_spec [OF st(1-3)]
  show ?thesis
  proof (rule board_eqI [OF pl(1)])
    fix x y
    assume xy: "on_tetris_board (x, y)"
    have "row_ok (t_board st ! nat x)" using board_row(3) [OF st(3) xy] st(3) by (simp add: board_ok_def)
    then have v: "0 \<le> board_at (t_board st) x y" "board_at (t_board st) x y \<le> 7"
      using nth_mem [OF board_row(2) [OF st(3) xy]] unfolding row_ok_def board_at_def by blast+
    have free: "(x, y) \<in> set (piece_cells st) \<Longrightarrow> board_at (t_board st) x y = 0"
      using piece_cells_free [OF st(1,2)] by fastforce
    have "board_at (session_game_tetris_capture_visible_cells st) x y = visible_cell st x y"
      using xy by (simp add: session_game_tetris_capture_visible_cells_def board_at_def on_tetris_board_def
          nat_less_iff)
    also have "\<dots> = (if (x, y) \<in> set (piece_cells st) then current_piece st + 1 else board_at (t_board st) x y)"
      using v free st(1,4) occupied_range [of "current_piece st" "rotation st" "x - piece_row st" "y - piece_column st"]
      unfolding visible_cell_def Let_def piece_cells_mem falling_ok_def by (cases "board_at (t_board st) x y = 0") auto
    also have "\<dots> = board_at (place_piece st) x y" using pl(3) xy by simp
    finally show "board_at (session_game_tetris_capture_visible_cells st) x y = board_at (place_piece st) x y" .
  qed (auto simp: session_game_tetris_capture_visible_cells_def)
qed

section \<open>A session that plays\<close>

definition blank_game :: tetris_game_state where
  "blank_game =
     \<lparr>t_board = replicate TETRIS_HEIGHT empty_row, current_piece = 0, rotation = 0, piece_row = 0, piece_column = 5,
      next_piece = 0, t_score = 0, lines_cleared = 0, t_game_over = False, bag = [0, 0, 0, 0, 0, 0, 0], bag_index = 0,
      gravity_counter = 0, gravity_threshold = 0, gravity_rate = 0, gravity_timer_initialized = False,
      gravity_timer_last = timespec_zero, gravity_timer_accumulator_ns = 0, t_round = 0, next_round_line_goal = 0,
      input_escape_active = False, input_escape_buffer = []\<rparr>"

definition lobby :: tetris_session where
  "lobby = \<lparr>gs_active = False, gs_type = SESSION_GAME_NONE, gs_othello = None, gs_saved_othello = None,
     rng_state = 0, rng_seeded = False, sent = [], gs_tetris = blank_game, gs_saved_tetris = blank_game,
     is_camouflaged = False, chosen_camouflage_language = []\<rparr>"

definition at_play :: tetris_session where
  "at_play = session_game_start_tetris 7 True [CHR 0x0D] lobby"

lemma at_play_facts:
  "gs_active at_play" "gs_type at_play = SESSION_GAME_TETRIS" "ready (gs_tetris at_play)" "\<not> is_camouflaged at_play"
  "\<not> input_escape_active (gs_tetris at_play)"
proof -
  have "read_language [] [CHR 0x0D] = Some ([], [])" by simp
  note s = start_spec [OF TrueI this at_play_def]
  show "gs_active at_play" "gs_type at_play = SESSION_GAME_TETRIS" "ready (gs_tetris at_play)"
    "\<not> is_camouflaged at_play" "\<not> input_escape_active (gs_tetris at_play)"
    using s by (simp_all add: lobby_def)
qed

lemma lobby_facts: "\<not> gs_active lobby" "gs_type lobby = SESSION_GAME_NONE" "\<not> is_camouflaged lobby"
  by (simp_all add: lobby_def)

theorem lock_conserves_cells_witness:
  "let st = gs_tetris at_play; st' = gs_tetris (session_game_tetris_lock_piece 7 at_play) in
     filled (t_board st') + 15 * length (filter row_full (place_piece st)) = filled (t_board st) + 4 \<and>
     current_piece st' = next_piece st"
  using lock_conserves_cells [OF at_play_facts(2,3), of 7] unfolding Let_def by blast

theorem hard_drop_is_lowest_witness:
  "\<exists>ctx'. tetris_perform 7 TETRIS_INPUT_HARD_DROP at_play = Some ctx'"
  using hard_drop_is_lowest [OF at_play_facts(2,3), of 7] unfolding Let_def by blast

theorem tetris_every_input_handled_witness:
  "\<exists>ctx'. tetris_run 7 [TetrisStart True [CHR 0x0D], TetrisKey CHR '' '' timespec_zero timespec_zero [],
      TetrisIdle timespec_zero, TetrisSuspend] lobby = Some ctx'"
  using tetris_every_input_handled [OF lobby_facts, of 7] by blast

theorem tetris_books_balance_witness:
  "t_score (gs_tetris at_play) = 10 * lines_cleared (gs_tetris at_play) mod 2 ^ 32 \<and>
   mset (bag (gs_tetris at_play)) = mset [0..6]"
proof -
  have "tetris_run 7 [TetrisStart True [CHR 0x0D]] lobby = Some at_play"
    by (simp add: tetris_run_def session_handle_game_tetris_def lobby_facts at_play_def)
  from tetris_books_balance [OF lobby_facts this at_play_facts(1)] show ?thesis unfolding Let_def by blast
qed

theorem hidden_game_stands_still_witness:
  "\<exists>ctx'. tetris_run 7 [TetrisKey CHR ''t'' timespec_zero timespec_zero [], TetrisIdle timespec_zero,
      TetrisKey CHR ''a'' timespec_zero timespec_zero [], TetrisKey CHR ''t'' timespec_zero timespec_zero []] at_play =
      Some ctx' \<and> t_board (gs_tetris ctx') = t_board (gs_tetris at_play)"
proof -
  have "list_all idle_key [TetrisIdle timespec_zero, TetrisKey CHR ''a'' timespec_zero timespec_zero []]"
    by (simp add: idle_key_def)
  from hidden_game_stands_still [OF at_play_facts(1,2,4,5) this, of 7 timespec_zero timespec_zero "[]" timespec_zero timespec_zero "[]"]
  obtain ctx' where c: "tetris_run 7 [TetrisKey CHR ''t'' timespec_zero timespec_zero [], TetrisIdle timespec_zero,
      TetrisKey CHR ''a'' timespec_zero timespec_zero [], TetrisKey CHR ''t'' timespec_zero timespec_zero []] at_play = Some ctx'"
    "gs_tetris ctx' = (gs_tetris at_play)\<lparr>gravity_timer_initialized := False, gravity_timer_accumulator_ns := 0\<rparr>"
    by auto
  then show ?thesis by (intro exI [of _ ctx']) simp
qed

theorem suspended_game_returns_witness:
  "\<exists>ctx'. tetris_run 7 [TetrisKey CHR ''t'' timespec_zero timespec_zero [], TetrisSuspend,
      TetrisStart True [CHR 0x0D], TetrisKey CHR ''t'' timespec_zero timespec_zero []] at_play = Some ctx' \<and>
      current_piece (gs_tetris ctx') = current_piece (gs_tetris at_play)"
proof -
  have "read_language [] [CHR 0x0D] = Some ([], [])" by simp
  from suspended_game_returns [OF at_play_facts(1,2,4,5) this, of 7 timespec_zero timespec_zero "[]" timespec_zero timespec_zero "[]"]
  show ?thesis by blast
qed

theorem shift_left_moves_right_witness:
  "let ctx = lobby\<lparr>gs_active := True, gs_type := SESSION_GAME_TETRIS\<rparr>; now = timespec_zero in
   map_option (\<lambda>c. piece_column (gs_tetris c)) (tetris_run 7 (map (\<lambda>c. TetrisKey c now now [])
       [CHR 0x1B, CHR ''['', CHR ''1'', CHR '';'', CHR ''2'', CHR ''D'']) ctx) = Some 6"
proof -
  let ?ctx = "lobby\<lparr>gs_active := True, gs_type := SESSION_GAME_TETRIS\<rparr>"
  have "map_option (\<lambda>c. piece_column (gs_tetris c))
      (session_game_tetris_process_action 7 timespec_zero timespec_zero TETRIS_INPUT_MOVE_RIGHT ?ctx) = Some 6"
    by code_simp
  then show ?thesis
    using shift_left_moves_right [of ?ctx 7 timespec_zero] by (simp add: lobby_def blank_game_def)
qed

theorem drawn_board_is_placed_piece_witness:
  "session_game_tetris_capture_visible_cells (gs_tetris at_play) = place_piece (gs_tetris at_play)"
  by (rule drawn_board_is_placed_piece [OF at_play_facts(3)])

end
