(* ===== verification/Tetris_Gravity.thy ===== *)
theory Tetris_Gravity
  imports Tetris_Session
begin

text \<open>
  The fall of a piece that is left alone: the ticks that the timer makes of the time
  passed, the rows they move the piece, and that the piece is locked in the end.
\<close>

section \<open>The timer\<close>

lemma timer_ticks_closed:
  assumes "0 \<le> acc" "t + nat (acc div TETRIS_GRAVITY_INTERVAL_NS) \<le> UINT_MAX"
  shows "timer_ticks 1 acc t =
     (t + nat (acc div TETRIS_GRAVITY_INTERVAL_NS), acc mod TETRIS_GRAVITY_INTERVAL_NS)"
  using assms
proof (induction "1 :: nat" acc t rule: timer_ticks.induct)
  case (1 acc t)
  show ?case
  proof (cases "acc \<ge> TETRIS_GRAVITY_INTERVAL_NS")
    case False
    then show ?thesis using 1(2) by (simp add: timer_ticks.simps [of 1 acc] del: One_nat_def)
  next
    case True
    define q where "q = (acc - TETRIS_GRAVITY_INTERVAL_NS) div TETRIS_GRAVITY_INTERVAL_NS"
    have I: "TETRIS_GRAVITY_INTERVAL_NS \<noteq> 0" by (simp add: TETRIS_GRAVITY_INTERVAL_NS_def)
    have q: "acc div TETRIS_GRAVITY_INTERVAL_NS = q + 1" "0 \<le> q"
      using True I by (simp_all add: q_def div_pos_geq TETRIS_GRAVITY_INTERVAL_NS_def)
    have "uint_add t 1 = t + 1" using 1(3) q by (intro uint_add_small) simp
    moreover have "(acc - TETRIS_GRAVITY_INTERVAL_NS) mod TETRIS_GRAVITY_INTERVAL_NS = acc mod TETRIS_GRAVITY_INTERVAL_NS"
      by simp
    ultimately show ?thesis using 1(1) [OF True] 1(3) True q
      by (simp add: timer_ticks.simps [of 1 acc] q_def [symmetric] nat_add_distrib del: One_nat_def)
  qed
qed

lemma elapsed_eq:
  assumes "timespec_ok now" "timespec_ok prev" "timespec_to_ns prev < timespec_to_ns now" "timespec_to_ns now < 2 ^ 63"
  shows "elapsed_ns now prev = timespec_to_ns now - timespec_to_ns prev"
proof -
  define s where "s = tv_sec now - tv_sec prev"
  define n where "n = tv_nsec now - tv_nsec prev"
  have d: "timespec_to_ns now - timespec_to_ns prev = s * 1000000000 + n"
    by (simp add: timespec_to_ns_def s_def n_def algebra_simps)
  have n: "- 1000000000 < n" "n < 1000000000" using assms(1,2) by (auto simp: timespec_ok_def n_def)
  have r: "0 < s * 1000000000 + n" "s * 1000000000 + n < 2 ^ 64"
    using assms d by (auto simp: timespec_ok_def timespec_to_ns_def)
  then have m: "(s * 1000000000 + n) mod 2 ^ 64 = s * 1000000000 + n" by simp
  have "(s - 1) * 1000000000 + (n + 1000000000) = s * 1000000000 + n" by simp
  then show ?thesis
    using r m n unfolding elapsed_ns_def d s_def [symmetric] n_def [symmetric] Let_def
    by (auto split: if_splits)
qed

section \<open>The fall\<close>

text \<open>The same board and the same piece, perhaps in another row.\<close>

definition same_piece :: "tetris_game_state \<Rightarrow> tetris_game_state \<Rightarrow> bool" where
  "same_piece st st' \<longleftrightarrow> t_board st' = t_board st \<and> current_piece st' = current_piece st \<and>
     rotation st' = rotation st \<and> piece_column st' = piece_column st"

text \<open>The piece is lower and nothing else has happened, or it has been locked in some row.\<close>

definition fell :: "tetris_game_state \<Rightarrow> tetris_game_state \<Rightarrow> bool" where
  "fell st st' \<longleftrightarrow> same_piece st st' \<and> piece_row st < piece_row st' \<and> \<not> t_game_over st' \<and>
     gravity_timer_initialized st' = gravity_timer_initialized st \<and> gravity_timer_last st' = gravity_timer_last st \<and>
     gravity_timer_accumulator_ns st' = gravity_timer_accumulator_ns st"

definition landed_board :: "tetris_game_state \<Rightarrow> tetris_game_state \<Rightarrow> bool" where
  "landed_board st st' \<longleftrightarrow>
     (\<exists>row. t_board st' = without_full_rows (place_piece (st\<lparr>piece_row := row\<rparr>)) \<and> lies_free (st\<lparr>piece_row := row\<rparr>))"

lemma place_piece_same:
  assumes "same_piece st st'"
  shows "place_piece (st'\<lparr>piece_row := row\<rparr>) = place_piece (st\<lparr>piece_row := row\<rparr>)"
proof -
  have "place_cell (st'\<lparr>piece_row := row\<rparr>) = place_cell (st\<lparr>piece_row := row\<rparr>)"
    using assms by (intro ext) (simp add: place_cell_def Let_def same_piece_def split: prod.split)
  then show ?thesis using assms by (simp add: place_piece_def same_piece_def)
qed

lemma landed_same:
  assumes "same_piece st st'" "landed_board st' x"
  shows "landed_board st x"
proof -
  obtain row where "t_board x = without_full_rows (place_piece (st'\<lparr>piece_row := row\<rparr>))" "lies_free (st'\<lparr>piece_row := row\<rparr>)"
    using assms(2) by (auto simp: landed_board_def)
  then show ?thesis
    using assms(1) place_piece_same [OF assms(1), of row] unfolding landed_board_def
    by (intro exI [of _ row]) (simp add: lies_free_def same_piece_def)
qed

lemma gravity_loop_moves:
  assumes "in_play ctx" "gravity_loop raw moved ctx = Some (m, ctx')"
  shows "gravity_counter (gs_tetris ctx) < gravity_threshold (gs_tetris ctx) \<and> ctx' = ctx \<or>
     fell (gs_tetris ctx) (gs_tetris ctx') \<or> landed_board (gs_tetris ctx) (gs_tetris ctx')"
  using assms
proof (induction "gravity_counter (gs_tetris ctx)" arbitrary: ctx moved rule: less_induct)
  case less
  define st where "st = gs_tetris ctx"
  have ok: "tetris_ok st" "\<not> t_game_over st" using less.prems by (simp_all add: in_play_def st_def)
  note unfold = gravity_loop.simps [of raw moved ctx]
  consider (wait) "gravity_counter st < gravity_threshold st"
    | (lock) "gravity_counter st \<ge> gravity_threshold st" "\<not> can_fall ctx"
    | (fall) "gravity_counter st \<ge> gravity_threshold st" "can_fall ctx" by linarith
  then show ?case
  proof cases
    case wait
    then show ?thesis using less.prems(2) by (simp add: unfold st_def)
  next
    case lock
    then have "ctx' = put_tetris ((gs_tetris (session_game_tetris_lock_piece raw ctx))\<lparr>gravity_counter := 0\<rparr>)
        (session_game_tetris_lock_piece raw ctx)"
      using less.prems(2) by (simp add: unfold st_def soft_drop_eq [OF less.prems(1)])
    then have "t_board (gs_tetris ctx') = without_full_rows (place_piece (st\<lparr>piece_row := piece_row st\<rparr>))"
      using lock_spec(1) [of ctx raw] less.prems(1) by (simp add: in_play_def locked_from_def st_def)
    moreover have "lies_free (st\<lparr>piece_row := piece_row st\<rparr>)" using tetris_okD(3) [OF ok] by simp
    ultimately have "landed_board st (gs_tetris ctx')" unfolding landed_board_def by blast
    then show ?thesis by (simp add: st_def)
  next
    case fall
    define ctx2 where "ctx2 = put_tetris ((gs_tetris (lowered_by 1 ctx))
      \<lparr>gravity_counter := gravity_counter st - gravity_threshold st\<rparr>) (lowered_by 1 ctx)"
    have p2: "in_play ctx2" using lowered_in_play [OF less.prems(1) fall(2)] by (simp add: in_play_def ctx2_def lowered_by_def)
    have lt: "gravity_counter (gs_tetris ctx2) < gravity_counter (gs_tetris ctx)"
      using fall(1) threshold_pos [OF ok(1)] by (simp add: ctx2_def st_def)
    have "gravity_loop raw moved ctx = gravity_loop raw True ctx2"
      using fall ok(2) by (simp add: unfold st_def ctx2_def soft_drop_eq [OF less.prems(1)] Let_def)
    from less.hyps [OF lt p2] less.prems(2) this
    have "ctx' = ctx2 \<or> fell (gs_tetris ctx2) (gs_tetris ctx') \<or> landed_board (gs_tetris ctx2) (gs_tetris ctx')"
      by auto
    moreover have "fell st (gs_tetris ctx2)" using ok(2) by (simp add: fell_def same_piece_def ctx2_def lowered_by_def st_def)
    moreover have "landed_board st x" if "landed_board (gs_tetris ctx2) x" for x
      using landed_same [OF _ that, of st] by (simp add: same_piece_def ctx2_def lowered_by_def st_def)
    ultimately show ?thesis by (auto simp: st_def fell_def same_piece_def)
  qed
qed

text \<open>A game going on whose timer was last read at \<open>prev\<close>.\<close>

definition left_alone :: "timespec \<Rightarrow> tetris_session \<Rightarrow> bool" where
  "left_alone prev ctx \<longleftrightarrow> gs_active ctx \<and> gs_type ctx = SESSION_GAME_TETRIS \<and> \<not> is_camouflaged ctx \<and>
     ready (gs_tetris ctx) \<and> gravity_timer_initialized (gs_tetris ctx) \<and>
     gravity_timer_last (gs_tetris ctx) = prev \<and> timespec_ok prev \<and>
     0 \<le> gravity_timer_accumulator_ns (gs_tetris ctx) \<and>
     gravity_timer_accumulator_ns (gs_tetris ctx) < TETRIS_GRAVITY_INTERVAL_NS"

text \<open>At least half a second after the last reading, and not years.\<close>

definition next_reading :: "timespec \<Rightarrow> timespec \<Rightarrow> bool" where
  "next_reading prev now \<longleftrightarrow> timespec_ok now \<and> timespec_to_ns now < 2 ^ 63 \<and>
     500000000 \<le> timespec_to_ns now - timespec_to_ns prev \<and>
     timespec_to_ns now - timespec_to_ns prev \<le> 100000000000000000"

lemma reading_ticks:
  assumes "left_alone prev ctx" "next_reading prev now"
  defines "st \<equiv> timer_read now (gs_tetris ctx)"
  shows "\<exists>t acc. timer_ticks (gravity_rate st) (gravity_timer_accumulator_ns st) 0 = (t, acc) \<and>
     5 \<le> t \<and> t + gravity_counter st \<le> UINT_MAX \<and> 0 \<le> acc \<and> acc < TETRIS_GRAVITY_INTERVAL_NS"
proof -
  define d where "d = timespec_to_ns now - timespec_to_ns prev"
  define a where "a = gravity_timer_accumulator_ns (gs_tetris ctx)"
  have d: "500000000 \<le> d" "d \<le> 100000000000000000" using assms(2) by (simp_all add: next_reading_def d_def)
  have a: "0 \<le> a" "a < 100000000"
    using assms(1) by (simp_all add: left_alone_def a_def TETRIS_GRAVITY_INTERVAL_NS_def)
  have "elapsed_ns now prev = d"
    using elapsed_eq [of now prev] assms d(1) by (simp add: left_alone_def next_reading_def d_def)
  then have "gravity_timer_accumulator_ns st = (a + d) mod 2 ^ 64"
    using assms(1) by (simp add: left_alone_def st_def timer_read_def a_def)
  then have acc: "gravity_timer_accumulator_ns st = a + d" using a d by simp
  have st: "gravity_rate st = 1" "gravity_counter st \<le> 5"
    using assms(1) by (auto simp: left_alone_def ready_def tetris_ok_def books_ok_def rounds_ok_def st_def
        timer_read_def tetris_constants)
  define t where "t = nat ((a + d) div TETRIS_GRAVITY_INTERVAL_NS)"
  have t: "5 \<le> t" "t \<le> 1000000001"
    using a d by (simp_all add: t_def TETRIS_GRAVITY_INTERVAL_NS_def le_nat_iff nat_le_iff) 
  then have "timer_ticks 1 (a + d) 0 = (t, (a + d) mod TETRIS_GRAVITY_INTERVAL_NS)"
    using timer_ticks_closed [of "a + d" 0] a d by (simp add: t_def UINT_MAX_def)
  then show ?thesis using t st by (simp add: acc UINT_MAX_def TETRIS_GRAVITY_INTERVAL_NS_def)
qed

lemma idle_gravity:
  assumes "left_alone prev ctx" "next_reading prev now"
  shows "\<exists>m ctx'. session_game_tetris_update_timer raw now False ctx = Some (m, ctx') \<and> kept ctx ctx' \<and>
     (left_alone now ctx' \<and> same_piece (gs_tetris ctx) (gs_tetris ctx') \<and>
        piece_row (gs_tetris ctx) < piece_row (gs_tetris ctx') \<or>
      landed_board (gs_tetris ctx) (gs_tetris ctx'))"
proof -
  define st where "st = timer_read now (gs_tetris ctx)"
  obtain t acc where t: "timer_ticks (gravity_rate st) (gravity_timer_accumulator_ns st) 0 = (t, acc)"
    "5 \<le> t" "t + gravity_counter st \<le> UINT_MAX" "0 \<le> acc" "acc < TETRIS_GRAVITY_INTERVAL_NS"
    using reading_ticks [OF assms] unfolding st_def by blast
  define ctx1 where "ctx1 = put_tetris (st\<lparr>gravity_timer_accumulator_ns := acc,
     gravity_counter := gravity_counter st + t\<rparr>) ctx"
  have la: "gs_active ctx" "gs_type ctx = SESSION_GAME_TETRIS" "ready (gs_tetris ctx)" "\<not> is_camouflaged ctx"
    using assms(1) by (simp_all add: left_alone_def)
  have ok: "tetris_ok st" "\<not> t_game_over st" using la(3) by (simp_all add: ready_def st_def)
  have p1: "in_play ctx1" using la ok by (simp add: in_play_def ctx1_def)
  have th: "gravity_threshold st \<le> 5" "0 < gravity_threshold st"
    using ok(1) threshold_pos [OF ok(1)] by (auto simp: tetris_ok_def books_ok_def rounds_ok_def tetris_constants)
  have eq: "session_game_tetris_update_timer raw now False ctx = gravity_loop raw False ctx1"
    using la t(1,2) th(2) ok(2) uint_add_small [of "gravity_counter st" t] t(3)
    unfolding session_game_tetris_update_timer_def st_def [symmetric]
    by (simp add: Let_def ctx1_def session_game_tetris_apply_gravity_def ready_def add.commute)
  obtain m ctx' where r: "gravity_loop raw False ctx1 = Some (m, ctx')" "kept ctx1 ctx'"
    using gravity_loop_returns [OF p1] by blast
  have k: "kept ctx ctx'" using r(2) by (simp add: kept_def ctx1_def)
  have sp: "same_piece (gs_tetris ctx) (gs_tetris ctx1)" "piece_row (gs_tetris ctx1) = piece_row (gs_tetris ctx)"
    by (simp_all add: same_piece_def ctx1_def st_def timer_read_def)
  have "fell (gs_tetris ctx1) (gs_tetris ctx') \<or> landed_board (gs_tetris ctx1) (gs_tetris ctx')"
    using gravity_loop_moves [OF p1 r(1)] t(2) th(1) by (auto simp: ctx1_def)
  then show ?thesis
  proof
    assume f: "fell (gs_tetris ctx1) (gs_tetris ctx')"
    have "left_alone now ctx'"
      using f k la t(4,5) assms(2)
      by (simp add: left_alone_def fell_def kept_def same_session_def ready_def next_reading_def ctx1_def st_def timer_read_def)
    then show ?thesis using f sp r(1) k eq by (auto simp: fell_def same_piece_def)
  next
    assume "landed_board (gs_tetris ctx1) (gs_tetris ctx')"
    then show ?thesis using landed_same [OF sp(1)] r(1) k eq by auto
  qed
qed

lemma idle_falls_or_lands:
  assumes "left_alone prev ctx" "next_reading prev now"
  shows "\<exists>ctx'. tetris_step raw (TetrisIdle now) ctx = Some ctx' \<and>
     (left_alone now ctx' \<and> same_piece (gs_tetris ctx) (gs_tetris ctx') \<and>
        piece_row (gs_tetris ctx) < piece_row (gs_tetris ctx') \<or>
      \<not> gs_active ctx' \<or> landed_board (gs_tetris ctx) (gs_tetris ctx'))"
proof -
  obtain m ctx' where u: "session_game_tetris_update_timer raw now False ctx = Some (m, ctx')"
    "left_alone now ctx' \<and> same_piece (gs_tetris ctx) (gs_tetris ctx') \<and>
       piece_row (gs_tetris ctx) < piece_row (gs_tetris ctx') \<or> landed_board (gs_tetris ctx) (gs_tetris ctx')"
    "kept ctx ctx'"
    using idle_gravity [OF assms, of raw] by blast
  have la: "gs_active ctx" "gs_type ctx = SESSION_GAME_TETRIS" "\<not> is_camouflaged ctx" "gs_active ctx'"
    using assms(1) u(3) by (simp_all add: left_alone_def kept_def same_session_def)
  have "tetris_step raw (TetrisIdle now) ctx =
      Some (if t_game_over (gs_tetris ctx') then session_game_suspend_tetris ''Game over!'' ctx' else ctx')"
    using la u(1) by (auto simp: session_game_tetris_process_timeout_def)
  moreover have "\<not> gs_active (session_game_suspend_tetris ''Game over!'' ctx')"
    using la(4) by (simp add: session_game_suspend_tetris_def Let_def)
  ultimately show ?thesis using u(2) by (cases "t_game_over (gs_tetris ctx')") (simp_all del: tetris_step.simps)
qed

section \<open>The end of the fall\<close>

fun readings :: "timespec \<Rightarrow> timespec list \<Rightarrow> bool" where
  "readings prev [] = True"
| "readings prev (now # later) = (next_reading prev now \<and> readings now later)"

lemma row_on_board:
  assumes "left_alone prev ctx"
  shows "0 \<le> piece_row (gs_tetris ctx)" "piece_row (gs_tetris ctx) < 20"
proof -
  have st: "falling_ok (gs_tetris ctx)" "lies_free (gs_tetris ctx)"
    using assms by (auto simp: left_alone_def ready_def tetris_ok_def)
  then show "0 \<le> piece_row (gs_tetris ctx)" by (simp add: falling_ok_def)
  show "piece_row (gs_tetris ctx) < 20"
    using st not_fits_below [of "current_piece (gs_tetris ctx)" "piece_row (gs_tetris ctx)"]
    by (force simp: falling_ok_def lies_free_def TETRIS_HEIGHT_def)
qed

lemma falls_until_locked:
  assumes "left_alone prev ctx" "readings prev clock" "20 - piece_row (gs_tetris ctx) \<le> int (length clock)"
  shows "\<exists>n<length clock. \<exists>c c'.
     tetris_run raw (map TetrisIdle (take n clock)) ctx = Some c \<and> gs_active c \<and>
     same_piece (gs_tetris ctx) (gs_tetris c) \<and>
     tetris_run raw (map TetrisIdle (take (Suc n) clock)) ctx = Some c' \<and>
     (\<not> gs_active c' \<or> landed_board (gs_tetris ctx) (gs_tetris c'))"
  using assms
proof (induction clock arbitrary: prev ctx)
  case Nil
  then show ?case using row_on_board [OF Nil(1)] by simp
next
  case (Cons now clock)
  obtain c1 where c1: "tetris_step raw (TetrisIdle now) ctx = Some c1"
    "left_alone now c1 \<and> same_piece (gs_tetris ctx) (gs_tetris c1) \<and> piece_row (gs_tetris ctx) < piece_row (gs_tetris c1) \<or>
     \<not> gs_active c1 \<or> landed_board (gs_tetris ctx) (gs_tetris c1)"
    using idle_falls_or_lands [OF Cons.prems(1), of now raw] Cons.prems(2) by auto
  have run: "tetris_run raw (map TetrisIdle (now # l)) ctx = tetris_run raw (map TetrisIdle l) c1" for l
    using c1(1) by (simp add: tetris_run_def del: tetris_step.simps)
  show ?case
  proof (cases "left_alone now c1 \<and> same_piece (gs_tetris ctx) (gs_tetris c1) \<and> piece_row (gs_tetris ctx) < piece_row (gs_tetris c1)")
    case True
    then have "readings now clock" "20 - piece_row (gs_tetris c1) \<le> int (length clock)"
      using Cons.prems by auto
    from Cons.IH [OF _ this] True obtain n c c' where n: "n < length clock"
      "tetris_run raw (map TetrisIdle (take n clock)) c1 = Some c" "gs_active c" "same_piece (gs_tetris c1) (gs_tetris c)"
      "tetris_run raw (map TetrisIdle (take (Suc n) clock)) c1 = Some c'"
      "\<not> gs_active c' \<or> landed_board (gs_tetris c1) (gs_tetris c')" by blast
    have "same_piece (gs_tetris ctx) (gs_tetris c)" using True n(4) by (simp add: same_piece_def)
    moreover have "\<not> gs_active c' \<or> landed_board (gs_tetris ctx) (gs_tetris c')"
      using True n(6) landed_same by blast
    ultimately show ?thesis using n(1-3,5) run [of "take n clock"] run [of "take (Suc n) clock"]
      by (intro exI [of _ "Suc n"]) (simp add: take_Suc_Cons)
  next
    case False
    then have "\<not> gs_active c1 \<or> landed_board (gs_tetris ctx) (gs_tetris c1)" using c1(2) by blast
    moreover have "gs_active ctx" using Cons.prems(1) by (simp add: left_alone_def)
    moreover have "tetris_run raw [] c = Some c" "same_piece (gs_tetris c) (gs_tetris c)" for c
      by (simp_all add: tetris_run_def same_piece_def)
    ultimately show ?thesis using run [of "[]"] by (intro exI [of _ 0]) simp
  qed
qed

text \<open>
  C26: A piece left alone lands.  When nobody touches a game that is not hidden and its timer
  is read twenty clock, each at least half a second after the one before, then at one of these readings
  the piece, which until then has only fallen straight down, is locked in some row onto
  free cells, or the game ends.
\<close>

theorem piece_left_alone_lands:
  assumes "left_alone prev ctx" "readings prev clock" "length clock = 20"
  shows "\<exists>n<20. \<exists>c c'.
     tetris_run raw (map TetrisIdle (take n clock)) ctx = Some c \<and> gs_active c \<and>
     same_piece (gs_tetris ctx) (gs_tetris c) \<and>
     tetris_run raw (map TetrisIdle (take (Suc n) clock)) ctx = Some c' \<and>
     (\<not> gs_active c' \<or> landed_board (gs_tetris ctx) (gs_tetris c'))"
  using falls_until_locked [OF assms(1,2), of raw] row_on_board(1) [OF assms(1)] assms(3) by simp

theorem piece_left_alone_lands_witness:
  "let ctx = at_play\<lparr>gs_tetris := (gs_tetris at_play)\<lparr>gravity_timer_initialized := True,
         gravity_timer_last := timespec_zero, gravity_timer_accumulator_ns := 0\<rparr>\<rparr>;
       clock = map (\<lambda>s. \<lparr>tv_sec = s, tv_nsec = 0\<rparr>) [1..20] in
   \<exists>n c'. tetris_run 7 (map TetrisIdle (take (Suc n) clock)) ctx = Some c' \<and>
     (if gs_active c' then landed_board (gs_tetris ctx) (gs_tetris c') else True)"
proof -
  let ?ctx = "at_play\<lparr>gs_tetris := (gs_tetris at_play)\<lparr>gravity_timer_initialized := True,
         gravity_timer_last := timespec_zero, gravity_timer_accumulator_ns := 0\<rparr>\<rparr>"
  let ?clock = "map (\<lambda>s. \<lparr>tv_sec = s, tv_nsec = 0\<rparr>) [1..20]"
  have "left_alone timespec_zero ?ctx"
    using at_play_facts by (simp add: left_alone_def ready_def TETRIS_GRAVITY_INTERVAL_NS_def)
  moreover have "readings timespec_zero ?clock" by code_simp
  moreover have "length ?clock = 20" by simp
  ultimately show ?thesis
    unfolding Let_def using piece_left_alone_lands [of timespec_zero ?ctx ?clock 7] by fastforce
qed

end
