(* ===== verification/Gonu.thy ===== *)
theory Gonu
  imports Tetris
begin

unbundle bit_operations_syntax

text \<open>
  Gonu (\<^verbatim>\<open>src/host/games/gonu.c\<close>): the boards of the four variants, the rules, the moves of the
  computer, the lines of the player, the camouflage of the game and its start and end.

  A board pattern marks the points of a board and holds for each point the mask of the
  directions in which a line leaves it.  Where the computer reads an array element that was
  never written, the model gives \<open>None\<close>, as it does for a null pointer.  Drawing the board
  is not part of the state.
\<close>

section \<open>Boards\<close>

datatype gonu_variant = GONU_VARIANT_HOBAK | GONU_VARIANT_BAKWI | GONU_VARIANT_UMUL | GONU_VARIANT_JANGGI_STAR

datatype gonu_cell = GONU_CELL_EMPTY | GONU_CELL_PLAYER | GONU_CELL_AI

definition GONU_BOARD_SIZE :: int where "GONU_BOARD_SIZE = 5"

record gonu_board_pattern =
  gp_valid :: "bool list list"
  gp_neighbors :: "nat list list"

definition grid_at :: "'a list list \<Rightarrow> int \<Rightarrow> int \<Rightarrow> 'a" where
  "grid_at g row col = g ! nat row ! nat col"

definition grid_set :: "int \<Rightarrow> int \<Rightarrow> 'a \<Rightarrow> 'a list list \<Rightarrow> 'a list list" where
  "grid_set row col x g = g[nat row := (g ! nat row)[nat col := x]]"

definition session_game_gonu_in_bounds :: "int \<Rightarrow> int \<Rightarrow> bool" where
  "session_game_gonu_in_bounds row col \<longleftrightarrow> 0 \<le> row \<and> row < GONU_BOARD_SIZE \<and> 0 \<le> col \<and> col < GONU_BOARD_SIZE"

definition session_game_gonu_dir_to_bit :: "int \<Rightarrow> int \<Rightarrow> nat" where
  "session_game_gonu_dir_to_bit dr dc =
     (if dr = -1 \<and> dc = 0 then 1 else if dr = -1 \<and> dc = 1 then 2 else if dr = 0 \<and> dc = 1 then 4
      else if dr = 1 \<and> dc = 1 then 8 else if dr = 1 \<and> dc = 0 then 16 else if dr = 1 \<and> dc = -1 then 32
      else if dr = 0 \<and> dc = -1 then 64 else if dr = -1 \<and> dc = -1 then 128 else 0)"

definition add_direction :: "int \<Rightarrow> int \<Rightarrow> nat \<Rightarrow> gonu_board_pattern \<Rightarrow> gonu_board_pattern" where
  "add_direction row col bits p =
     p\<lparr>gp_neighbors := grid_set row col (grid_at (gp_neighbors p) row col OR bits) (gp_neighbors p)\<rparr>"

definition session_game_gonu_connect_cells :: "int \<Rightarrow> int \<Rightarrow> int \<Rightarrow> int \<Rightarrow> gonu_board_pattern \<Rightarrow> gonu_board_pattern" where
  "session_game_gonu_connect_cells r1 c1 r2 c2 p =
     (let dr = r2 - r1;
          dc = c2 - c1;
          forward = session_game_gonu_dir_to_bit dr dc;
          backward = session_game_gonu_dir_to_bit (- dr) (- dc)
      in if dr < -1 \<or> dr > 1 \<or> dc < -1 \<or> dc > 1 \<or> dr = 0 \<and> dc = 0 then p
         else if forward = 0 \<or> backward = 0 then p
         else add_direction r2 c2 backward (add_direction r1 c1 forward p))"

text \<open>The points of a line, one after the other; the step is not zero.\<close>

function add_line_loop :: "int \<Rightarrow> int \<Rightarrow> int \<Rightarrow> int \<Rightarrow> (int \<times> int) option \<Rightarrow> int \<Rightarrow> int \<Rightarrow> gonu_board_pattern \<Rightarrow> gonu_board_pattern" where
  "add_line_loop dr dc r2 c2 previous row col p =
     (let p = p\<lparr>gp_valid := grid_set row col True (gp_valid p)\<rparr>;
          p = (case previous of None \<Rightarrow> p | Some (pr, pc) \<Rightarrow> session_game_gonu_connect_cells pr pc row col p)
      in if row = r2 \<and> col = c2 then p
         else if \<not> session_game_gonu_in_bounds (row + dr) (col + dc) \<or> dr = 0 \<and> dc = 0 then p
         else add_line_loop dr dc r2 c2 (Some (row, col)) (row + dr) (col + dc) p)"
  by pat_completeness auto
termination
  by (relation "measure (\<lambda>(dr, dc, r2, c2, previous, row, col, p).
      nat (if 0 < dr then GONU_BOARD_SIZE - row else if dr < 0 then row + 1
           else if 0 < dc then GONU_BOARD_SIZE - col else col + 1))")
    (auto simp: session_game_gonu_in_bounds_def GONU_BOARD_SIZE_def)

declare add_line_loop.simps [simp del]

definition session_game_gonu_add_line :: "int \<times> int \<times> int \<times> int \<Rightarrow> gonu_board_pattern \<Rightarrow> gonu_board_pattern" where
  "session_game_gonu_add_line l p =
     (case l of (r1, c1, r2, c2) \<Rightarrow>
        let dr = (if r2 > r1 then 1 else if r2 < r1 then -1 else 0);
            dc = (if c2 > c1 then 1 else if c2 < c1 then -1 else 0)
        in if \<not> session_game_gonu_in_bounds r1 c1 \<or> \<not> session_game_gonu_in_bounds r2 c2 then p
           else if dr = 0 \<and> dc = 0 then p
           else if \<not> (dr = 0 \<or> dc = 0 \<or> \<bar>dr\<bar> = \<bar>dc\<bar>) then p
           else add_line_loop dr dc r2 c2 None r1 c1 p)"

definition session_game_gonu_add_diamond :: "int \<Rightarrow> int \<Rightarrow> gonu_board_pattern \<Rightarrow> gonu_board_pattern" where
  "session_game_gonu_add_diamond center radius p =
     fold session_game_gonu_add_line
       [(center, center - radius, center - radius, center), (center - radius, center, center, center + radius),
        (center, center + radius, center + radius, center), (center + radius, center, center, center - radius)] p"

definition blank_pattern :: gonu_board_pattern where
  "blank_pattern = \<lparr>gp_valid = replicate 5 (replicate 5 False), gp_neighbors = replicate 5 (replicate 5 0)\<rparr>"

definition gonu_frame :: "(int \<times> int \<times> int \<times> int) list" where
  "gonu_frame = [(0, 0, 0, 4), (0, 4, 4, 4), (4, 4, 4, 0), (4, 0, 0, 0), (1, 1, 1, 3), (1, 3, 3, 3), (3, 3, 3, 1), (3, 1, 1, 1)]"

definition gonu_spokes :: "(int \<times> int \<times> int \<times> int) list" where
  "gonu_spokes = [(2, 0, 2, 4), (0, 2, 4, 2)]"

definition gonu_diagonals :: "(int \<times> int \<times> int \<times> int) list" where
  "gonu_diagonals = [(0, 0, 4, 4), (0, 4, 4, 0)]"

fun session_game_gonu_build_patterns :: "gonu_variant \<Rightarrow> gonu_board_pattern" where
  "session_game_gonu_build_patterns GONU_VARIANT_HOBAK =
     fold session_game_gonu_add_line (gonu_spokes @ [(1, 1, 3, 1), (1, 3, 3, 3)] @ gonu_diagonals)
       (session_game_gonu_add_diamond 2 1 (session_game_gonu_add_diamond 2 2 blank_pattern))"
| "session_game_gonu_build_patterns GONU_VARIANT_BAKWI =
     fold session_game_gonu_add_line (gonu_frame @ gonu_spokes @ gonu_diagonals) blank_pattern"
| "session_game_gonu_build_patterns GONU_VARIANT_UMUL =
     fold session_game_gonu_add_line
       ([(0, 0, 0, 4), (4, 0, 4, 4), (0, 0, 4, 0), (0, 4, 4, 4)] @ gonu_spokes @
        [(1, 1, 1, 3), (3, 1, 3, 3), (1, 1, 3, 1), (1, 3, 3, 3)] @ gonu_diagonals) blank_pattern"
| "session_game_gonu_build_patterns GONU_VARIANT_JANGGI_STAR =
     session_game_gonu_add_diamond 2 2 (session_game_gonu_add_diamond 2 1
       (fold session_game_gonu_add_line
         (gonu_frame @ gonu_spokes @ [(1, 2, 3, 2), (2, 1, 2, 3)] @ gonu_diagonals @ [(1, 3, 3, 1), (1, 1, 3, 3)]) blank_pattern))"

definition session_game_gonu_is_valid_position :: "gonu_variant \<Rightarrow> int \<Rightarrow> int \<Rightarrow> bool" where
  "session_game_gonu_is_valid_position v row col \<longleftrightarrow>
     session_game_gonu_in_bounds row col \<and> grid_at (gp_valid (session_game_gonu_build_patterns v)) row col"

definition session_game_gonu_is_connected :: "gonu_variant \<Rightarrow> int \<Rightarrow> int \<Rightarrow> int \<Rightarrow> int \<Rightarrow> bool" where
  "session_game_gonu_is_connected v r1 c1 r2 c2 =
     (let dr = r2 - r1;
          dc = c2 - c1
      in if \<not> session_game_gonu_is_valid_position v r1 c1 \<or> \<not> session_game_gonu_is_valid_position v r2 c2 then False
         else if dr < -1 \<or> dr > 1 \<or> dc < -1 \<or> dc > 1 \<or> dr = 0 \<and> dc = 0 then False
         else grid_at (gp_neighbors (session_game_gonu_build_patterns v)) r1 c1 AND session_game_gonu_dir_to_bit dr dc \<noteq> 0)"

section \<open>State\<close>

record gonu_game_state =
  gn_variant :: gonu_variant
  gn_board :: "gonu_cell list list"
  gn_player_turn :: bool
  gn_game_over :: bool
  gn_placement_phase :: bool
  gn_movement_started :: bool
  gn_player_pieces :: nat
  gn_ai_pieces :: nat
  gn_selected_row :: int
  gn_selected_col :: int
  gn_piece_selected :: bool
  gn_awaiting_variant_selection :: bool
  gn_awaiting_mode_selection :: bool
  gn_awaiting_difficulty_selection :: bool
  gn_difficulty_level :: nat
  gn_multiplayer :: bool
  gn_awaiting_opponent :: bool
  gn_slot_index :: int
  gn_player_number :: nat

definition empty_gonu_board :: "gonu_cell list list" where
  "empty_gonu_board = replicate 5 (replicate 5 GONU_CELL_EMPTY)"

definition session_game_gonu_reset :: "gonu_variant \<Rightarrow> gonu_game_state" where
  "session_game_gonu_reset v =
     \<lparr>gn_variant = v, gn_board = empty_gonu_board, gn_player_turn = True, gn_game_over = False,
      gn_placement_phase = True, gn_movement_started = False, gn_player_pieces = 0, gn_ai_pieces = 0,
      gn_selected_row = -1, gn_selected_col = -1, gn_piece_selected = False,
      gn_awaiting_variant_selection = False, gn_awaiting_mode_selection = False,
      gn_awaiting_difficulty_selection = False, gn_difficulty_level = 5, gn_multiplayer = False,
      gn_awaiting_opponent = False, gn_slot_index = -1, gn_player_number = 0\<rparr>"

text \<open>A state as it is allocated: zero but for the slot.\<close>

definition zero_gonu :: gonu_game_state where
  "zero_gonu =
     \<lparr>gn_variant = GONU_VARIANT_HOBAK, gn_board = empty_gonu_board, gn_player_turn = False, gn_game_over = False,
      gn_placement_phase = False, gn_movement_started = False, gn_player_pieces = 0, gn_ai_pieces = 0,
      gn_selected_row = 0, gn_selected_col = 0, gn_piece_selected = False,
      gn_awaiting_variant_selection = False, gn_awaiting_mode_selection = False,
      gn_awaiting_difficulty_selection = False, gn_difficulty_level = 0, gn_multiplayer = False,
      gn_awaiting_opponent = False, gn_slot_index = -1, gn_player_number = 0\<rparr>"

record gonu_session = game_session +
  gs_gonu :: "gonu_game_state option"
  gs_saved_gonu :: "gonu_game_state option"
  gs_is_camouflaged :: bool
  gs_camouflage_language :: cstr

definition session_game_ensure_gonu :: "bool \<Rightarrow> gonu_session \<Rightarrow> gonu_session" where
  "session_game_ensure_gonu allocated ctx =
     (if gs_gonu ctx = None \<and> allocated then ctx\<lparr>gs_gonu := Some zero_gonu\<rparr> else ctx)"

definition session_game_ensure_saved_gonu :: "bool \<Rightarrow> gonu_session \<Rightarrow> gonu_session" where
  "session_game_ensure_saved_gonu allocated ctx =
     (if gs_saved_gonu ctx = None \<and> allocated then ctx\<lparr>gs_saved_gonu := Some zero_gonu\<rparr> else ctx)"

section \<open>Rules\<close>

definition gonu_cells :: "(int \<times> int) list" where
  "gonu_cells = List.product [0..GONU_BOARD_SIZE - 1] [0..GONU_BOARD_SIZE - 1]"

definition gonu_dirs :: "(int \<times> int) list" where
  "gonu_dirs = [(-1, -1), (-1, 0), (-1, 1), (0, -1), (0, 1), (1, -1), (1, 0), (1, 1)]"

definition gonu_steps :: "(int \<times> int) list" where
  "gonu_steps = List.product [-1..1] [-1..1]"

definition three_from :: "gonu_game_state \<Rightarrow> gonu_cell \<Rightarrow> int \<Rightarrow> int \<Rightarrow> int \<times> int \<Rightarrow> bool" where
  "three_from st player row col dir =
     (case dir of (dr, dc) \<Rightarrow>
        let connected = session_game_gonu_is_connected (gn_variant st);
            at = grid_at (gn_board st)
        in if connected (row - dr) (col - dc) row col \<and> at (row - dr) (col - dc) = player then False
           else connected row col (row + dr) (col + dc) \<and>
                connected (row + dr) (col + dc) (row + 2 * dr) (col + 2 * dc) \<and>
                at (row + dr) (col + dc) = player \<and> at (row + 2 * dr) (col + 2 * dc) = player)"

definition session_game_gonu_check_win :: "gonu_game_state \<Rightarrow> gonu_cell \<Rightarrow> bool" where
  "session_game_gonu_check_win st player =
     (if gn_placement_phase st \<or> \<not> gn_movement_started st then False
      else list_ex (\<lambda>(row, col).
             if grid_at (gn_board st) row col \<noteq> player \<or> \<not> session_game_gonu_is_valid_position (gn_variant st) row col
             then False else list_ex (three_from st player row col) gonu_dirs) gonu_cells)"

definition session_game_gonu_count_adjacent :: "gonu_game_state \<Rightarrow> int \<Rightarrow> int \<Rightarrow> gonu_cell \<Rightarrow> int" where
  "session_game_gonu_count_adjacent st row col player =
     int (length (filter (\<lambda>(dr, dc). \<not> (dr = 0 \<and> dc = 0) \<and>
       session_game_gonu_is_connected (gn_variant st) row col (row + dr) (col + dc) \<and>
       grid_at (gn_board st) (row + dr) (col + dc) = player) gonu_steps))"

definition session_game_gonu_positional_score :: "gonu_game_state \<Rightarrow> int \<Rightarrow> int \<Rightarrow> gonu_cell \<Rightarrow> int" where
  "session_game_gonu_positional_score st row col focus =
     (let center = GONU_BOARD_SIZE div 2;
          manhattan = \<bar>center - row\<bar> + \<bar>center - col\<bar>
      in GONU_BOARD_SIZE * 2 - manhattan * 2 + session_game_gonu_count_adjacent st row col focus * 4 +
         session_game_gonu_count_adjacent st row col
           (if focus = GONU_CELL_AI then GONU_CELL_PLAYER else GONU_CELL_AI) * 3)"

definition gonu_slide :: "gonu_cell \<Rightarrow> int \<Rightarrow> int \<Rightarrow> int \<Rightarrow> int \<Rightarrow> gonu_game_state \<Rightarrow> gonu_game_state" where
  "gonu_slide player r1 c1 r2 c2 st =
     st\<lparr>gn_board := grid_set r2 c2 player (grid_set r1 c1 GONU_CELL_EMPTY (gn_board st)), gn_movement_started := True\<rparr>"

text \<open>The slides of a player, in the order of the loops of the code.\<close>

definition gonu_slides :: "gonu_game_state \<Rightarrow> gonu_cell \<Rightarrow> (int \<times> int \<times> int \<times> int) list" where
  "gonu_slides st player =
     concat (map (\<lambda>(row, col).
       if grid_at (gn_board st) row col \<noteq> player then []
       else map (\<lambda>(dr, dc). (row, col, row + dr, col + dc))
         (filter (\<lambda>(dr, dc). session_game_gonu_is_connected (gn_variant st) row col (row + dr) (col + dc) \<and>
            grid_at (gn_board st) (row + dr) (col + dc) = GONU_CELL_EMPTY) gonu_steps)) gonu_cells)"

definition session_game_gonu_has_winning_move :: "gonu_game_state \<Rightarrow> gonu_cell \<Rightarrow> bool" where
  "session_game_gonu_has_winning_move st player =
     (if gn_placement_phase st then False
      else list_ex (\<lambda>(r1, c1, r2, c2). session_game_gonu_check_win (gonu_slide player r1 c1 r2 c2 st) player)
             (gonu_slides st player))"

section \<open>The computer\<close>

record gonu_ai_move =
  am_from_row :: int
  am_from_col :: int
  am_to_row :: int
  am_to_col :: int
  am_is_placement :: bool
  am_score :: int

definition ai_placements :: "gonu_game_state \<Rightarrow> gonu_ai_move list" where
  "ai_placements st =
     map (\<lambda>(row, col). \<lparr>am_from_row = 0, am_from_col = 0, am_to_row = row, am_to_col = col, am_is_placement = True,
            am_score = session_game_gonu_positional_score st row col GONU_CELL_AI\<rparr>)
       (filter (\<lambda>(row, col). session_game_gonu_is_valid_position (gn_variant st) row col \<and>
          grid_at (gn_board st) row col = GONU_CELL_EMPTY) gonu_cells)"

definition ai_slide_score :: "bool \<Rightarrow> gonu_game_state \<Rightarrow> int \<Rightarrow> int \<Rightarrow> int \<Rightarrow> int \<Rightarrow> int" where
  "ai_slide_score player_has_immediate_win st row col new_row new_col =
     (let after = gonu_slide GONU_CELL_AI row col new_row new_col st;
          ai_wins = session_game_gonu_check_win after GONU_CELL_AI;
          player_can_win_after = session_game_gonu_has_winning_move after GONU_CELL_PLAYER
      in session_game_gonu_positional_score after new_row new_col GONU_CELL_AI +
         session_game_gonu_count_adjacent after row col GONU_CELL_AI +
         (if ai_wins then 500 else if player_has_immediate_win \<and> \<not> player_can_win_after then 150 else 0) -
         (if player_can_win_after then 120 else 0))"

definition ai_slides :: "gonu_game_state \<Rightarrow> gonu_ai_move list" where
  "ai_slides st =
     (let player_has_immediate_win = session_game_gonu_has_winning_move st GONU_CELL_PLAYER
      in map (\<lambda>(r1, c1, r2, c2). \<lparr>am_from_row = r1, am_from_col = c1, am_to_row = r2, am_to_col = c2, am_is_placement = False,
              am_score = ai_slide_score player_has_immediate_win st r1 c1 r2 c2\<rparr>)
           (gonu_slides st GONU_CELL_AI))"

definition possible_moves :: "gonu_game_state \<Rightarrow> gonu_ai_move list" where
  "possible_moves st =
     take 128 (if gn_placement_phase st \<and> gn_ai_pieces st < 3 then ai_placements st else ai_slides st)"

definition gonu_best_step :: "gonu_ai_move list \<Rightarrow> nat \<Rightarrow> int \<times> nat list \<Rightarrow> int \<times> nat list" where
  "gonu_best_step moves i acc =
     (case acc of (best_score, best) \<Rightarrow>
        if am_score (moves ! i) > best_score then (am_score (moves ! i), [i])
        else if am_score (moves ! i) = best_score \<and> length best < 128 then (best_score, best @ [i])
        else (best_score, best))"

definition gonu_best_indexes :: "gonu_ai_move list \<Rightarrow> nat list" where
  "gonu_best_indexes moves = snd (fold (gonu_best_step moves) [0..<length moves] (-1, []))"

definition gonu_good_percent :: "nat \<Rightarrow> nat option" where
  "gonu_good_percent difficulty =
     (if difficulty = 2 then Some 50 else if difficulty = 3 then Some 70 else if difficulty = 4 then Some 90 else None)"

text \<open>The index read from \<open>best_indexes\<close> is not written where no move scored above -1.\<close>

definition gonu_choose_move :: "64 word \<Rightarrow> nat \<Rightarrow> gonu_ai_move list \<Rightarrow> gonu_session \<Rightarrow> gonu_ai_move option \<times> gonu_session" where
  "gonu_choose_move raw difficulty moves ctx =
     (if difficulty = 1 then
        case session_game_random_range raw ctx (length moves) of (i, ctx) \<Rightarrow> (Some (moves ! i), ctx)
      else
        let best = gonu_best_indexes moves;
            (good, ctx) = (case gonu_good_percent difficulty of
                             None \<Rightarrow> (True, ctx)
                           | Some p \<Rightarrow> (case session_game_random_range raw ctx 100 of (v, ctx) \<Rightarrow> (v < p, ctx)))
        in if good then
             case session_game_random_range raw ctx (length best) of
               (i, ctx) \<Rightarrow> (if i < length best then Some (moves ! (best ! i)) else None, ctx)
           else case session_game_random_range raw ctx (length moves) of (i, ctx) \<Rightarrow> (Some (moves ! i), ctx))"

definition put_gonu :: "gonu_game_state \<Rightarrow> gonu_session \<Rightarrow> gonu_session" where
  "put_gonu st ctx = ctx\<lparr>gs_gonu := Some st\<rparr>"

definition letter_of :: "int \<Rightarrow> char" where
  "letter_of col = char_of (65 + nat col)"

definition placement_done :: "gonu_game_state \<Rightarrow> bool" where
  "placement_done st \<longleftrightarrow> gn_ai_pieces st = 3 \<and> gn_player_pieces st = 3"

text \<open>The end of the placement is announced.\<close>

definition end_placement :: "gonu_game_state \<Rightarrow> gonu_session \<Rightarrow> gonu_session" where
  "end_placement st ctx =
     (if placement_done st
      then session_send_system_line ''Placement complete! Now move your pieces.'' (put_gonu (st\<lparr>gn_placement_phase := False\<rparr>) ctx)
      else put_gonu st ctx)"

definition gonu_ai_execute :: "gonu_ai_move \<Rightarrow> gonu_game_state \<Rightarrow> gonu_session \<Rightarrow> gonu_session" where
  "gonu_ai_execute mv st ctx =
     (if am_is_placement mv then
        end_placement (st\<lparr>gn_board := grid_set (am_to_row mv) (am_to_col mv) GONU_CELL_AI (gn_board st),
                          gn_ai_pieces := gn_ai_pieces st + 1\<rparr>)
          (session_send_system_line
             (''AI placed piece at '' @ dec_str (nat (am_to_row mv)) @ '','' @ dec_str (nat (am_to_col mv))) ctx)
      else
        session_send_system_line
          (''AI moved from '' @ dec_str (nat (am_from_row mv)) @ '','' @ [letter_of (am_from_col mv)] @ '' to '' @
           dec_str (nat (am_to_row mv)) @ '','' @ [letter_of (am_to_col mv)])
          (put_gonu (gonu_slide GONU_CELL_AI (am_from_row mv) (am_from_col mv) (am_to_row mv) (am_to_col mv) st) ctx))"

definition session_game_gonu_ai_move :: "64 word \<Rightarrow> gonu_session \<Rightarrow> gonu_session option" where
  "session_game_gonu_ai_move raw ctx =
     (case gs_gonu ctx of
        None \<Rightarrow> None
      | Some st \<Rightarrow>
          if gn_multiplayer st then Some ctx
          else let ctx = session_game_seed_rng raw ctx;
                   moves = possible_moves st
               in if moves = [] then Some ctx
                  else case gonu_choose_move raw (gn_difficulty_level st) moves ctx of
                         (None, ctx) \<Rightarrow> None
                       | (Some mv, ctx) \<Rightarrow> Some (gonu_ai_execute mv st ctx))"


section \<open>The end of a game and the camouflage\<close>

definition session_game_suspend_gonu :: "cstr \<Rightarrow> gonu_session \<Rightarrow> gonu_session" where
  "session_game_suspend_gonu reason ctx =
     (if \<not> gs_active ctx
      then session_send_system_line (if reason \<noteq> [] then reason else ''There is no active game to suspend.'') ctx
      else (if reason \<noteq> [] then session_send_system_line reason ctx else ctx)
             \<lparr>gs_gonu := None, gs_saved_gonu := None, gs_active := False, gs_type := SESSION_GAME_NONE\<rparr>)"

text \<open>The camouflage of a session whose game is Gonu; \<open>shown\<close> is what hiding the game prints.\<close>

definition session_game_toggle_camouflage_gonu :: "bool \<Rightarrow> cstr list \<Rightarrow> gonu_session \<Rightarrow> gonu_session" where
  "session_game_toggle_camouflage_gonu allocated shown ctx =
     (if \<not> gs_active ctx then ctx
      else if gs_is_camouflaged ctx then
        let ctx = session_send_system_line ''Start game'' (ctx\<lparr>gs_is_camouflaged := False\<rparr>);
            ctx = session_game_ensure_saved_gonu allocated (session_game_ensure_gonu allocated ctx)
        in case (gs_gonu ctx, gs_saved_gonu ctx) of
             (Some live, Some saved) \<Rightarrow> put_gonu saved ctx
           | _ \<Rightarrow> ctx
      else
        let ctx = session_game_ensure_saved_gonu allocated (ctx\<lparr>gs_is_camouflaged := True\<rparr>);
            ctx = (case (gs_gonu ctx, gs_saved_gonu ctx) of
                     (Some live, Some saved) \<Rightarrow> ctx\<lparr>gs_saved_gonu := Some live\<rparr>
                   | _ \<Rightarrow> ctx)
        in ctx\<lparr>sent := sent ctx @ shown\<rparr>)"

section \<open>Lines of the player\<close>

definition in_quotes :: "cstr \<Rightarrow> cstr" where
  "in_quotes s = [CHR 0x27] @ s @ [CHR 0x27]"

definition gonu_levels :: "cstr list" where
  "gonu_levels =
     [[], ''Choose difficulty level (1-5):'', ''  1 - Very Easy (random moves)'', ''  2 - Easy (50% good moves)'',
      ''  3 - Medium (70% good moves)'', ''  4 - Hard (90% good moves)'',
      ''  5 - Expert (always best moves, but not perfect to keep it fair)'', ''Type a number 1-5:'']"

definition gonu_mode_line :: "cstr \<Rightarrow> gonu_game_state \<Rightarrow> gonu_session \<Rightarrow> gonu_session" where
  "gonu_mode_line working st ctx =
     (if working = ''single'' \<or> working = ''s'' then
        fold session_send_system_line gonu_levels
          (put_gonu (st\<lparr>gn_awaiting_mode_selection := False, gn_awaiting_difficulty_selection := True,
                        gn_multiplayer := False\<rparr>) ctx)
      else if working = ''multi'' \<or> working = ''m'' then
        session_send_system_line (''For now, please choose '' @ in_quotes ''single'' @ '' mode.'')
          (session_send_system_line ''Multiplayer mode for Gonu is coming soon!'' ctx)
      else if working = ''exit'' \<or> working = ''quit'' then session_game_suspend_gonu ''Game cancelled.'' ctx
      else session_send_system_line
             (''Type '' @ in_quotes ''single'' @ '' or '' @ in_quotes ''multi'' @ '' to choose how to play.'') ctx)"

definition gonu_instructions :: "int \<Rightarrow> cstr list" where
  "gonu_instructions difficulty =
     [''Difficulty set to '' @ dec_str (nat difficulty) @ ''. Good luck!'', [],
      ''Gonu started! Place your 3 pieces first.'',
      ''Note: Three-in-a-row only wins after all pieces are placed and movement begins.'',
      ''_ = empty position, Q = your piece, X = AI piece'',
      ''Use column letters (A-E) or numbers (0-4): e.g., '' @ in_quotes ''2,E'' @ '' or '' @ in_quotes ''2,2'',
      ''Press '' @ in_quotes ''t'' @ '' to toggle camouflage screen.'']"

definition gonu_difficulty_line :: "cstr \<Rightarrow> gonu_game_state \<Rightarrow> gonu_session \<Rightarrow> gonu_session" where
  "gonu_difficulty_line working st ctx =
     (let difficulty = atoi working
      in if difficulty < 1 \<or> difficulty > 5
         then session_send_system_line ''Invalid difficulty. Please enter a number between 1 and 5.'' ctx
         else fold session_send_system_line (gonu_instructions difficulty)
                (put_gonu (st\<lparr>gn_difficulty_level := nat difficulty, gn_awaiting_difficulty_selection := False,
                              gn_player_turn := True\<rparr>) ctx))"

text \<open>The point a line names, or the message it gets.\<close>

definition gonu_column :: "cstr \<Rightarrow> int" where
  "gonu_column col_str =
     (case col_str of
        [c] \<Rightarrow> if 65 \<le> code c \<and> code c \<le> 69 \<or> 97 \<le> code c \<and> code c \<le> 101
               then int (code (c_toupper c)) - 65 else atoi col_str
      | _ \<Rightarrow> atoi col_str)"

definition gonu_parse_point :: "cstr \<Rightarrow> cstr + int \<times> int" where
  "gonu_parse_point inp =
     (let before_comma = takeWhile (\<lambda>c. c \<noteq> CHR '','') inp;
          rest = dropWhile (\<lambda>c. c \<noteq> CHR '','') inp;
          row = atoi (c_trim before_comma);
          col = gonu_column (c_trim (snprintf_into 16 (tl rest)))
      in if rest = [] then
           Inl (''Invalid input. Use format: row,col (e.g., '' @ in_quotes ''2,C'' @ '' or '' @ in_quotes ''2,2'' @ '')'')
         else if length before_comma \<ge> 16 then Inl ''Invalid row value.''
         else if row < 0 \<or> row \<ge> GONU_BOARD_SIZE \<or> col < 0 \<or> col \<ge> GONU_BOARD_SIZE
         then Inl ''Invalid row or column value.''
         else Inr (row, col))"

text \<open>After a move of the player: the end of the game, or the turn of the computer.\<close>

definition gonu_after_move :: "64 word \<Rightarrow> gonu_session \<Rightarrow> gonu_session option" where
  "gonu_after_move raw ctx =
     (case gs_gonu ctx of
        None \<Rightarrow> None
      | Some st \<Rightarrow>
          if session_game_gonu_check_win st GONU_CELL_PLAYER
          then Some (session_game_suspend_gonu []
                 (session_send_system_line ''Congratulations! You won!'' (put_gonu (st\<lparr>gn_game_over := True\<rparr>) ctx)))
          else case session_game_gonu_ai_move raw (put_gonu (st\<lparr>gn_player_turn := False\<rparr>) ctx) of
                 None \<Rightarrow> None
               | Some ctx \<Rightarrow>
                   (case gs_gonu ctx of
                      None \<Rightarrow> None
                    | Some st \<Rightarrow>
                        if session_game_gonu_check_win st GONU_CELL_AI
                        then Some (session_game_suspend_gonu []
                               (session_send_system_line ''AI wins! Better luck next time.''
                                 (put_gonu (st\<lparr>gn_game_over := True\<rparr>) ctx)))
                        else Some (put_gonu (st\<lparr>gn_player_turn := True\<rparr>) ctx)))"

definition gonu_placement_line :: "64 word \<Rightarrow> int \<Rightarrow> int \<Rightarrow> gonu_game_state \<Rightarrow> gonu_session \<Rightarrow> gonu_session option" where
  "gonu_placement_line raw row col st ctx =
     (if grid_at (gn_board st) row col \<noteq> GONU_CELL_EMPTY
      then Some (session_send_system_line ''Position already occupied.'' ctx)
      else gonu_after_move raw
             (end_placement (st\<lparr>gn_board := grid_set row col GONU_CELL_PLAYER (gn_board st),
                                gn_player_pieces := gn_player_pieces st + 1\<rparr>) ctx))"

definition gonu_movement_line :: "64 word \<Rightarrow> int \<Rightarrow> int \<Rightarrow> gonu_game_state \<Rightarrow> gonu_session \<Rightarrow> gonu_session option" where
  "gonu_movement_line raw row col st ctx =
     (let released = st\<lparr>gn_piece_selected := False\<rparr>
      in if \<not> gn_piece_selected st then
           if grid_at (gn_board st) row col \<noteq> GONU_CELL_PLAYER
           then Some (session_send_system_line ''Select your own piece first.'' ctx)
           else Some (session_send_system_line ''Piece selected. Enter destination position.''
                  (put_gonu (st\<lparr>gn_selected_row := row, gn_selected_col := col, gn_piece_selected := True\<rparr>) ctx))
         else if grid_at (gn_board st) row col \<noteq> GONU_CELL_EMPTY
         then Some (session_send_system_line ''Destination must be empty.'' (put_gonu released ctx))
         else if \<not> session_game_gonu_is_connected (gn_variant st) (gn_selected_row st) (gn_selected_col st) row col
         then Some (session_send_system_line ''Cannot move there - not connected.'' (put_gonu released ctx))
         else gonu_after_move raw
                (put_gonu (gonu_slide GONU_CELL_PLAYER (gn_selected_row st) (gn_selected_col st) row col released) ctx))"

definition gonu_turn_line :: "64 word \<Rightarrow> cstr \<Rightarrow> gonu_game_state \<Rightarrow> gonu_session \<Rightarrow> gonu_session option" where
  "gonu_turn_line raw inp st ctx =
     (case gonu_parse_point inp of
        Inl message \<Rightarrow> Some (session_send_system_line message ctx)
      | Inr (row, col) \<Rightarrow>
          if \<not> session_game_gonu_is_valid_position (gn_variant st) row col
          then Some (session_send_system_line ''Invalid position for this board layout.'' ctx)
          else if gn_placement_phase st then gonu_placement_line raw row col st ctx
          else gonu_movement_line raw row col st ctx)"

definition session_game_gonu_handle_input :: "64 word \<Rightarrow> bool \<Rightarrow> cstr list \<Rightarrow> cstr \<Rightarrow> gonu_session \<Rightarrow> gonu_session option" where
  "session_game_gonu_handle_input raw allocated shown inp ctx =
     (let working = map c_tolower (c_trim (snprintf_into 4096 inp))
      in if gs_type ctx \<noteq> SESSION_GAME_GONU then Some ctx
         else case gs_gonu ctx of
                None \<Rightarrow> if working = ''t'' then Some (session_game_toggle_camouflage_gonu allocated shown ctx) else None
              | Some st \<Rightarrow>
                  if working = ''t'' then Some (session_game_toggle_camouflage_gonu allocated shown ctx)
                  else if gn_awaiting_mode_selection st then Some (gonu_mode_line working st ctx)
                  else if gn_awaiting_difficulty_selection st then Some (gonu_difficulty_line working st ctx)
                  else if gn_game_over st \<or> \<not> gn_player_turn st then Some ctx
                  else gonu_turn_line raw inp st ctx)"

section \<open>The session\<close>

definition camouflage_languages :: "cstr list" where
  "camouflage_languages = [''c'', ''cpp'', ''java'', ''go'', ''js'', ''ts'', ''rust'']"

definition choose_gonu_language :: "cstr \<Rightarrow> gonu_session \<Rightarrow> gonu_session" where
  "choose_gonu_language answer ctx =
     (let choice = map c_tolower (c_trim answer)
      in if choice = [] then (session_send_system_line ''No language chosen. Defaulting to C.'' ctx)\<lparr>gs_camouflage_language := ''c''\<rparr>
         else if choice \<in> set camouflage_languages then ctx\<lparr>gs_camouflage_language := choice\<rparr>
         else (session_send_system_line ''Invalid language. Defaulting to C.'' ctx)\<lparr>gs_camouflage_language := ''c''\<rparr>)"

definition gonu_variant_of :: "cstr \<Rightarrow> gonu_variant" where
  "gonu_variant_of choice =
     (if choice = ''1'' then GONU_VARIANT_HOBAK else if choice = ''2'' then GONU_VARIANT_BAKWI
      else if choice = ''3'' then GONU_VARIANT_UMUL else GONU_VARIANT_JANGGI_STAR)"

definition gonu_variants :: "cstr list" where
  "gonu_variants =
     [[], ''Choose Gonu variant:'', ''1. Hobak-gonu (Pumpkin) - layered diamonds from the classic map'',
      ''2. Bakwi-gonu (Wheel) - triple-ring wheel with spokes'',
      ''3. Umul-gonu (Well) - thickened well grid with diagonals'',
      ''4. Janggi-gonu (Star Palace) - extended palace star lattice'', ''Enter 1, 2, 3, or 4 (default 4):'']"

definition session_game_start_gonu :: "bool \<Rightarrow> cstr \<Rightarrow> gonu_session \<Rightarrow> gonu_session" where
  "session_game_start_gonu allocated typed ctx =
     (let ctx = session_send_system_line
            (''CHOOSE YOUR LOCKSCREEN LANGUAGE TO HIDE THE SCREEN ON YOUR OFFICE! '' @ ''(c, cpp, java, go, js, ts, rust)'') ctx
      in case read_language [] typed of
           None \<Rightarrow> ctx
         | Some (language, typed) \<Rightarrow>
             let ctx = fold session_send_system_line gonu_variants (choose_gonu_language language ctx)
             in case read_language [] typed of
                  None \<Rightarrow> ctx
                | Some (choice, typed) \<Rightarrow>
                    let ctx = session_game_ensure_gonu allocated ctx
                    in if gs_gonu ctx = None then session_send_system_line ''Unable to allocate Gonu state.'' ctx
                       else fold session_send_system_line
                              [[], ''Choose Gonu mode: type '' @ in_quotes ''single'' @ '' to play against AI or '' @
                                   in_quotes ''multi'' @ '' for multiplayer.'']
                              (put_gonu ((session_game_gonu_reset (gonu_variant_of (c_trim choice)))
                                           \<lparr>gn_awaiting_mode_selection := True\<rparr>)
                                 (ctx\<lparr>gs_type := SESSION_GAME_GONU, gs_active := True\<rparr>)))"

text \<open>The command that starts a game, where it names Gonu, and the lines of a session with a game
  in progress.  Lines are not empty.\<close>

datatype gonu_event = GonuStart bool cstr | GonuLine "64 word" bool "cstr list" cstr

fun gonu_step :: "gonu_event \<Rightarrow> gonu_session \<Rightarrow> gonu_session option" where
  "gonu_step (GonuStart allocated typed) ctx =
     (if gs_active ctx then Some (session_send_system_line ''Finish the current game with /suspend! first.'' ctx)
      else Some (session_game_start_gonu allocated typed ctx))"
| "gonu_step (GonuLine raw allocated shown line) ctx =
     (if line = [] \<or> \<not> gs_active ctx then Some ctx
      else if line = ''/suspend!'' then Some (session_game_suspend_gonu ''Game suspended.'' ctx)
      else if line = ''t'' then Some (session_game_toggle_camouflage_gonu allocated shown ctx)
      else if hd line = CHR ''/'' then Some (session_send_system_line ''Finish the current game with /suspend! first.'' ctx)
      else session_game_gonu_handle_input raw allocated shown line ctx)"

end
