(* ===== verification/Gonu_Board.thy ===== *)
theory Gonu_Board
  imports Gonu
begin

text \<open>
  The boards of Gonu: their lines as tables, what holds of every board, and the rule that
  ends a game.
\<close>

section \<open>The tables\<close>

lemma pattern_tables [simp, code]:
  "session_game_gonu_build_patterns GONU_VARIANT_HOBAK =
     \<lparr>gp_valid = [[True, False, True, False, True], [False, True, True, True, False], [True, True, True, True, True],
        [False, True, True, True, False], [True, False, True, False, True]],
      gp_neighbors = [[8, 0, 56, 0, 32], [0, 186, 57, 186, 0], [14, 95, 255, 245, 224], [0, 171, 147, 171, 0], [2, 0, 131, 0, 128]]\<rparr>"
  "session_game_gonu_build_patterns GONU_VARIANT_BAKWI =
     \<lparr>gp_valid = replicate 5 (replicate 5 True),
      gp_neighbors = [[28, 68, 84, 68, 112], [17, 156, 85, 114, 17], [21, 85, 255, 85, 81], [17, 39, 85, 201, 17], [7, 68, 69, 68, 193]]\<rparr>"
  "session_game_gonu_build_patterns GONU_VARIANT_UMUL =
     \<lparr>gp_valid = replicate 5 (replicate 5 True),
      gp_neighbors = [[28, 68, 84, 68, 112], [17, 156, 85, 114, 17], [21, 85, 255, 85, 81], [17, 39, 85, 201, 17], [7, 68, 69, 68, 193]]\<rparr>"
  "session_game_gonu_build_patterns GONU_VARIANT_JANGGI_STAR =
     \<lparr>gp_valid = replicate 5 (replicate 5 True),
      gp_neighbors = [[28, 68, 124, 68, 112], [17, 190, 125, 250, 17], [31, 95, 255, 245, 241], [17, 175, 215, 235, 17], [7, 68, 199, 68, 193]]\<rparr>"
  by code_simp+

declare session_game_gonu_build_patterns.simps [simp del]

section \<open>Connections\<close>

text \<open>The drawing of a board: its lines, and the points of a line.\<close>

definition diamond_lines :: "int \<Rightarrow> (int \<times> int \<times> int \<times> int) list" where
  "diamond_lines radius =
     [(2, 2 - radius, 2 - radius, 2), (2 - radius, 2, 2, 2 + radius), (2, 2 + radius, 2 + radius, 2), (2 + radius, 2, 2, 2 - radius)]"

fun gonu_drawing :: "gonu_variant \<Rightarrow> (int \<times> int \<times> int \<times> int) list" where
  "gonu_drawing GONU_VARIANT_HOBAK =
     diamond_lines 2 @ diamond_lines 1 @ gonu_spokes @ [(1, 1, 3, 1), (1, 3, 3, 3)] @ gonu_diagonals"
| "gonu_drawing GONU_VARIANT_BAKWI = gonu_frame @ gonu_spokes @ gonu_diagonals"
| "gonu_drawing GONU_VARIANT_UMUL = gonu_frame @ gonu_spokes @ gonu_diagonals"
| "gonu_drawing GONU_VARIANT_JANGGI_STAR = gonu_frame @ gonu_spokes @ gonu_diagonals @ diamond_lines 1 @ diamond_lines 2"

fun on_segment :: "int \<times> int \<times> int \<times> int \<Rightarrow> int \<Rightarrow> int \<Rightarrow> bool" where
  "on_segment (r1, c1, r2, c2) r c \<longleftrightarrow>
     min r1 r2 \<le> r \<and> r \<le> max r1 r2 \<and> min c1 c2 \<le> c \<and> c \<le> max c1 c2 \<and> (r - r1) * (c2 - c1) = (c - c1) * (r2 - r1)"

definition step_drawn :: "gonu_variant \<Rightarrow> int \<Rightarrow> int \<Rightarrow> int \<Rightarrow> int \<Rightarrow> bool" where
  "step_drawn v r1 c1 r2 c2 \<longleftrightarrow> list_ex (\<lambda>l. on_segment l r1 c1 \<and> on_segment l r2 c2) (gonu_drawing v)"

definition steps_as_drawn :: "gonu_variant \<Rightarrow> bool" where
  "steps_as_drawn v = list_all (\<lambda>(r, c). list_all (\<lambda>(dr, dc).
     session_game_gonu_is_connected v r c (r + dr) (c + dc) = step_drawn v r c (r + dr) (c + dc)) gonu_dirs) gonu_cells"

lemma hobak_as_drawn: "steps_as_drawn GONU_VARIANT_HOBAK"
  by code_simp

lemma bakwi_as_drawn: "steps_as_drawn GONU_VARIANT_BAKWI"
  by code_simp

lemma umul_as_drawn: "steps_as_drawn GONU_VARIANT_UMUL"
proof -
  have "session_game_gonu_is_connected GONU_VARIANT_UMUL = session_game_gonu_is_connected GONU_VARIANT_BAKWI"
    "step_drawn GONU_VARIANT_UMUL = step_drawn GONU_VARIANT_BAKWI"
    by (intro ext, simp only: session_game_gonu_is_connected_def session_game_gonu_is_valid_position_def step_drawn_def
        pattern_tables(2,3) gonu_drawing.simps(2,3))+
  then show ?thesis using bakwi_as_drawn by (simp only: steps_as_drawn_def)
qed

lemma janggi_as_drawn: "steps_as_drawn GONU_VARIANT_JANGGI_STAR"
  by code_simp

lemma cells_mem: "(r, c) \<in> set gonu_cells \<longleftrightarrow> session_game_gonu_in_bounds r c"
  by (auto simp: gonu_cells_def session_game_gonu_in_bounds_def GONU_BOARD_SIZE_def)

lemma abs_one: "\<bar>x\<bar> \<le> (1::int) \<longleftrightarrow> x = -1 \<or> x = 0 \<or> x = 1"
  by arith

lemma dirs_mem: "(dr, dc) \<in> set gonu_dirs \<longleftrightarrow> \<bar>dr\<bar> \<le> 1 \<and> \<bar>dc\<bar> \<le> 1 \<and> (dr, dc) \<noteq> (0, 0)"
  unfolding abs_one by (auto simp: gonu_dirs_def)

lemma steps_mem: "(dr, dc) \<in> set gonu_steps \<longleftrightarrow> \<bar>dr\<bar> \<le> 1 \<and> \<bar>dc\<bar> \<le> 1"
  unfolding abs_one by (auto simp: gonu_steps_def)

fun ends_on_board :: "int \<times> int \<times> int \<times> int \<Rightarrow> bool" where
  "ends_on_board (r1, c1, r2, c2) \<longleftrightarrow> session_game_gonu_in_bounds r1 c1 \<and> session_game_gonu_in_bounds r2 c2"

lemma drawing_ends: "list_all ends_on_board (gonu_drawing v)"
  by (cases v) (simp_all add: diamond_lines_def gonu_frame_def gonu_spokes_def gonu_diagonals_def
      session_game_gonu_in_bounds_def GONU_BOARD_SIZE_def)

lemma segment_on_board: "ends_on_board l \<Longrightarrow> on_segment l r c \<Longrightarrow> session_game_gonu_in_bounds r c"
  by (cases l) (simp add: session_game_gonu_in_bounds_def min_le_iff_disj le_max_iff_disj, arith)

lemma drawing_on_board: "l \<in> set (gonu_drawing v) \<Longrightarrow> on_segment l r c \<Longrightarrow> session_game_gonu_in_bounds r c"
  by (rule segment_on_board) (rule bspec [OF drawing_ends [unfolded list_all_iff]])

lemma as_drawn: "steps_as_drawn v"
  by (cases v) (simp_all add: hobak_as_drawn bakwi_as_drawn umul_as_drawn janggi_as_drawn)

lemma connected_points:
  assumes "session_game_gonu_is_connected v r1 c1 r2 c2"
  shows "session_game_gonu_is_valid_position v r1 c1" "session_game_gonu_is_valid_position v r2 c2"
    "session_game_gonu_in_bounds r1 c1" "session_game_gonu_in_bounds r2 c2" "(r2 - r1, c2 - c1) \<in> set gonu_dirs"
  using assms
  by (auto simp: session_game_gonu_is_connected_def session_game_gonu_is_valid_position_def Let_def dirs_mem split: if_splits)

lemma connected_as_drawn:
  "session_game_gonu_is_connected v r1 c1 r2 c2 \<longleftrightarrow> (r2 - r1, c2 - c1) \<in> set gonu_dirs \<and> step_drawn v r1 c1 r2 c2"
proof -
  have "session_game_gonu_is_connected v r1 c1 r2 c2 = step_drawn v r1 c1 r2 c2"
    if "(r2 - r1, c2 - c1) \<in> set gonu_dirs" "session_game_gonu_in_bounds r1 c1"
  proof -
    have cell: "(r1, c1) \<in> set gonu_cells" using that(2) by (simp add: cells_mem)
    have "list_all (\<lambda>(dr, dc). session_game_gonu_is_connected v r1 c1 (r1 + dr) (c1 + dc) = step_drawn v r1 c1 (r1 + dr) (c1 + dc)) gonu_dirs"
      using as_drawn [of v] cell unfolding steps_as_drawn_def list_all_iff by (metis (no_types, lifting) case_prodD)
    then have "(case (r2 - r1, c2 - c1) of (dr, dc) \<Rightarrow>
        session_game_gonu_is_connected v r1 c1 (r1 + dr) (c1 + dc) = step_drawn v r1 c1 (r1 + dr) (c1 + dc))"
      using that(1) unfolding list_all_iff by blast
    then show ?thesis by simp
  qed
  moreover have "step_drawn v r1 c1 r2 c2 \<Longrightarrow> session_game_gonu_in_bounds r1 c1"
    using drawing_on_board by (auto simp: step_drawn_def list_ex_iff)
  ultimately show ?thesis using connected_points(3,5) by blast
qed

lemma connected_sym: "session_game_gonu_is_connected v r1 c1 r2 c2 = session_game_gonu_is_connected v r2 c2 r1 c1"
  by (auto simp: connected_as_drawn step_drawn_def dirs_mem list_ex_iff abs_minus_commute)

section \<open>Three in a line\<close>

definition three_in_line :: "gonu_variant \<Rightarrow> gonu_cell list list \<Rightarrow> gonu_cell \<Rightarrow> int \<Rightarrow> int \<Rightarrow> int \<Rightarrow> int \<Rightarrow> bool" where
  "three_in_line v b player row col dr dc \<longleftrightarrow>
     session_game_gonu_is_connected v row col (row + dr) (col + dc) \<and>
     session_game_gonu_is_connected v (row + dr) (col + dc) (row + 2 * dr) (col + 2 * dc) \<and>
     grid_at b row col = player \<and> grid_at b (row + dr) (col + dc) = player \<and> grid_at b (row + 2 * dr) (col + 2 * dc) = player"

text \<open>The scan counts a line at its first point only; going back along a line ends there.\<close>

lemma first_of_three:
  assumes "three_in_line (gn_variant st) (gn_board st) player row col dr dc"
  shows "\<exists>r c. session_game_gonu_in_bounds r c \<and> grid_at (gn_board st) r c = player \<and>
    session_game_gonu_is_valid_position (gn_variant st) r c \<and> three_from st player r c (dr, dc)"
  using assms
proof (induction "nat (if 0 < dr then row else if dr < 0 then 4 - row else if 0 < dc then col else 4 - col)"
    arbitrary: row col rule: less_induct)
  case less
  note three = less.prems [unfolded three_in_line_def]
  note pts = connected_points [OF conjunct1 [OF three]]
  show ?case
  proof (cases "session_game_gonu_is_connected (gn_variant st) (row - dr) (col - dc) row col \<and>
      grid_at (gn_board st) (row - dr) (col - dc) = player")
    case True
    from True have prior: "three_in_line (gn_variant st) (gn_board st) player (row - dr) (col - dc) dr dc"
      using three by (simp add: three_in_line_def add.commute)
    have "session_game_gonu_in_bounds (row - dr) (col - dc)" "(dr, dc) \<in> set gonu_dirs"
      using connected_points [OF conjunct1 [OF True]] by auto
    then have "nat (if 0 < dr then row - dr else if dr < 0 then 4 - (row - dr) else if 0 < dc then col - dc else 4 - (col - dc)) <
        nat (if 0 < dr then row else if dr < 0 then 4 - row else if 0 < dc then col else 4 - col)"
      using pts(3) by (auto simp: session_game_gonu_in_bounds_def GONU_BOARD_SIZE_def dirs_mem)
    from less.hyps [OF this prior] show ?thesis .
  next
    case False
    then show ?thesis using three pts(1,3) by (intro exI [of _ row] exI [of _ col]) (auto simp: three_from_def Let_def)
  qed
qed

lemma three_from_dirs: "three_from st player r c (dr, dc) \<Longrightarrow> (dr, dc) \<in> set gonu_dirs"
  using connected_points(5) [of "gn_variant st" r c "r + dr" "c + dc"] by (auto simp: three_from_def Let_def split: if_splits)

lemma three_from_line:
  "grid_at (gn_board st) r c = player \<Longrightarrow> three_from st player r c (dr, dc) \<Longrightarrow>
     three_in_line (gn_variant st) (gn_board st) player r c dr dc"
  by (auto simp: three_from_def three_in_line_def Let_def split: if_splits)

lemma check_win_from:
  "session_game_gonu_check_win st player \<longleftrightarrow> \<not> gn_placement_phase st \<and> gn_movement_started st \<and>
     (\<exists>r c dr dc. session_game_gonu_in_bounds r c \<and> grid_at (gn_board st) r c = player \<and>
        session_game_gonu_is_valid_position (gn_variant st) r c \<and> three_from st player r c (dr, dc))"
proof -
  have "list_ex (three_from st player r c) gonu_dirs \<longleftrightarrow> (\<exists>dr dc. three_from st player r c (dr, dc))" for r c
    using three_from_dirs [of st player r c] by (auto simp: list_ex_iff)
  then have "session_game_gonu_check_win st player \<longleftrightarrow> \<not> gn_placement_phase st \<and> gn_movement_started st \<and>
      (\<exists>x\<in>set gonu_cells. case x of (r, c) \<Rightarrow> grid_at (gn_board st) r c = player \<and>
        session_game_gonu_is_valid_position (gn_variant st) r c \<and> (\<exists>dr dc. three_from st player r c (dr, dc)))"
    unfolding session_game_gonu_check_win_def list_ex_iff [of _ gonu_cells] by (auto simp: split_def)
  then show ?thesis by (auto simp: cells_mem [symmetric])
qed

lemma check_win_three:
  "session_game_gonu_check_win st player \<longleftrightarrow> \<not> gn_placement_phase st \<and> gn_movement_started st \<and>
     (\<exists>row col dr dc. three_in_line (gn_variant st) (gn_board st) player row col dr dc)"
  unfolding check_win_from using first_of_three [of st player] three_from_line [of st _ _ player] by blast

end
