(* ===== verification/Gonu_Play.thy ===== *)
theory Gonu_Play
  imports Gonu_Board
begin

text \<open>
  The pieces of a game of Gonu: the invariant of the state, the moves of both sides, and the
  choice of the computer.
\<close>

section \<open>Pieces\<close>

definition board_5x5 :: "'a list list \<Rightarrow> bool" where
  "board_5x5 b \<longleftrightarrow> length b = 5 \<and> (\<forall>row\<in>set b. length row = 5)"

lemma in_bounds_nat:
  "session_game_gonu_in_bounds r c \<Longrightarrow> nat r < 5 \<and> nat c < 5"
  by (auto simp: session_game_gonu_in_bounds_def GONU_BOARD_SIZE_def)

lemma in_bounds_eq:
  "session_game_gonu_in_bounds r c \<Longrightarrow> session_game_gonu_in_bounds r' c' \<Longrightarrow> (nat r = nat r' \<longleftrightarrow> r = r') \<and> (nat c = nat c' \<longleftrightarrow> c = c')"
  by (auto simp: session_game_gonu_in_bounds_def eq_nat_nat_iff)

lemma board_set [simp]:
  assumes "board_5x5 b" "session_game_gonu_in_bounds r c"
  shows "board_5x5 (grid_set r c x b)"
  using assms in_bounds_nat [OF assms(2)]
  by (auto simp: board_5x5_def grid_set_def dest!: subsetD [OF set_update_subset_insert])

lemma grid_at_set:
  assumes "board_5x5 b" "session_game_gonu_in_bounds r c" "session_game_gonu_in_bounds r' c'"
  shows "grid_at (grid_set r c x b) r' c' = (if r' = r \<and> c' = c then x else grid_at b r' c')"
  using in_bounds_nat [OF assms(2)] in_bounds_nat [OF assms(3)] in_bounds_eq [OF assms(2,3)] assms(1)
  by (auto simp: grid_at_def grid_set_def board_5x5_def nth_list_update)

definition pieces :: "gonu_cell \<Rightarrow> gonu_cell list list \<Rightarrow> (int \<times> int) set" where
  "pieces x b = {(r, c). session_game_gonu_in_bounds r c \<and> grid_at b r c = x}"

lemma pieces_mem [simp]: "(r, c) \<in> pieces x b \<longleftrightarrow> session_game_gonu_in_bounds r c \<and> grid_at b r c = x"
  by (simp add: pieces_def)

lemma finite_pieces [simp]: "finite (pieces x b)"
  by (rule finite_subset [of _ "set gonu_cells"]) (auto simp: cells_mem)

lemma pieces_set:
  assumes "board_5x5 b" "session_game_gonu_in_bounds r c"
  shows "pieces y (grid_set r c x b) = (if x = y then insert (r, c) (pieces y b) else pieces y b - {(r, c)})"
  using grid_at_set [OF assms] assms(2) by (auto split: if_splits)

lemma pieces_slide:
  assumes "board_5x5 b" "session_game_gonu_in_bounds r1 c1" "session_game_gonu_in_bounds r2 c2" "(r1, c1) \<noteq> (r2, c2)"
    and "x \<noteq> GONU_CELL_EMPTY" "grid_at b r1 c1 = x" "grid_at b r2 c2 = GONU_CELL_EMPTY"
  shows "pieces x (grid_set r2 c2 x (grid_set r1 c1 GONU_CELL_EMPTY b)) = insert (r2, c2) (pieces x b - {(r1, c1)})"
    "y \<noteq> x \<Longrightarrow> y \<noteq> GONU_CELL_EMPTY \<Longrightarrow> pieces y (grid_set r2 c2 x (grid_set r1 c1 GONU_CELL_EMPTY b)) = pieces y b"
    "card (pieces x (grid_set r2 c2 x (grid_set r1 c1 GONU_CELL_EMPTY b))) = card (pieces x b)"
proof -
  have b1: "board_5x5 (grid_set r1 c1 GONU_CELL_EMPTY b)" using assms(1,2) by simp
  note sets = pieces_set [OF b1 assms(3)] pieces_set [OF assms(1,2)]
  show p: "pieces x (grid_set r2 c2 x (grid_set r1 c1 GONU_CELL_EMPTY b)) = insert (r2, c2) (pieces x b - {(r1, c1)})"
    unfolding sets using assms(5) by auto
  show "pieces y (grid_set r2 c2 x (grid_set r1 c1 GONU_CELL_EMPTY b)) = pieces y b" if "y \<noteq> x" "y \<noteq> GONU_CELL_EMPTY"
    unfolding sets using that assms(6,7) by auto
  have "(r2, c2) \<notin> pieces x b" "(r1, c1) \<in> pieces x b" using assms by auto
  then have "card (insert (r2, c2) (pieces x b - {(r1, c1)})) = Suc (card (pieces x b - {(r1, c1)}))"
    by (intro card_insert_disjoint finite_Diff finite_pieces) blast
  also have "\<dots> = card (pieces x b)" by (rule card.remove [symmetric]) (use \<open>(r1, c1) \<in> pieces x b\<close> in simp_all)
  finally show "card (pieces x (grid_set r2 c2 x (grid_set r1 c1 GONU_CELL_EMPTY b))) = card (pieces x b)" using p by simp
qed

section \<open>The invariant\<close>

text \<open>Pieces stand on points of the board and are counted, the phases follow the counts, and a
  selected piece is one of the player.\<close>

definition gonu_ok :: "gonu_game_state \<Rightarrow> bool" where
  "gonu_ok st \<longleftrightarrow> board_5x5 (gn_board st) \<and>
     (\<forall>r c. session_game_gonu_in_bounds r c \<longrightarrow> grid_at (gn_board st) r c \<noteq> GONU_CELL_EMPTY \<longrightarrow>
        session_game_gonu_is_valid_position (gn_variant st) r c) \<and>
     card (pieces GONU_CELL_PLAYER (gn_board st)) = gn_player_pieces st \<and>
     card (pieces GONU_CELL_AI (gn_board st)) = gn_ai_pieces st \<and>
     gn_player_pieces st \<le> 3 \<and> gn_ai_pieces st \<le> 3 \<and>
     (gn_placement_phase st \<longleftrightarrow> \<not> placement_done st) \<and> (gn_movement_started st \<longrightarrow> \<not> gn_placement_phase st) \<and>
     (gn_piece_selected st \<longrightarrow> \<not> gn_placement_phase st \<and> (gn_selected_row st, gn_selected_col st) \<in> pieces GONU_CELL_PLAYER (gn_board st)) \<and>
     \<not> gn_multiplayer st \<and> \<not> gn_game_over st"

lemma gonu_okD:
  assumes "gonu_ok st"
  shows "board_5x5 (gn_board st)"
    "session_game_gonu_in_bounds r c \<Longrightarrow> grid_at (gn_board st) r c \<noteq> GONU_CELL_EMPTY \<Longrightarrow>
       session_game_gonu_is_valid_position (gn_variant st) r c"
    "card (pieces GONU_CELL_PLAYER (gn_board st)) = gn_player_pieces st"
    "card (pieces GONU_CELL_AI (gn_board st)) = gn_ai_pieces st"
    "gn_player_pieces st \<le> 3" "gn_ai_pieces st \<le> 3" "gn_placement_phase st \<longleftrightarrow> \<not> placement_done st"
    "gn_movement_started st \<Longrightarrow> \<not> gn_placement_phase st"
    "gn_piece_selected st \<Longrightarrow> \<not> gn_placement_phase st"
    "gn_piece_selected st \<Longrightarrow> (gn_selected_row st, gn_selected_col st) \<in> pieces GONU_CELL_PLAYER (gn_board st)"
    "\<not> gn_multiplayer st" "\<not> gn_game_over st"
  using assms unfolding gonu_ok_def by blast+

lemma gonu_slides_mem:
  "(r1, c1, r2, c2) \<in> set (gonu_slides st player) \<longleftrightarrow>
     (r1, c1) \<in> pieces player (gn_board st) \<and> session_game_gonu_is_connected (gn_variant st) r1 c1 r2 c2 \<and>
     grid_at (gn_board st) r2 c2 = GONU_CELL_EMPTY"
proof -
  have "(\<exists>dr dc. (dr, dc) \<in> set gonu_steps \<and> session_game_gonu_is_connected (gn_variant st) r1 c1 (r1 + dr) (c1 + dc) \<and>
      grid_at (gn_board st) (r1 + dr) (c1 + dc) = GONU_CELL_EMPTY \<and> r2 = r1 + dr \<and> c2 = c1 + dc) \<longleftrightarrow>
      session_game_gonu_is_connected (gn_variant st) r1 c1 r2 c2 \<and> grid_at (gn_board st) r2 c2 = GONU_CELL_EMPTY"
    using connected_points(5) [of "gn_variant st" r1 c1 r2 c2] by (fastforce simp: steps_mem dirs_mem)
  moreover have "(r1, c1, r2, c2) \<in> set (gonu_slides st player) \<longleftrightarrow> (r1, c1) \<in> set gonu_cells \<and> grid_at (gn_board st) r1 c1 = player \<and>
      (\<exists>dr dc. (dr, dc) \<in> set gonu_steps \<and> session_game_gonu_is_connected (gn_variant st) r1 c1 (r1 + dr) (c1 + dc) \<and>
        grid_at (gn_board st) (r1 + dr) (c1 + dc) = GONU_CELL_EMPTY \<and> r2 = r1 + dr \<and> c2 = c1 + dc)"
    (is "?mem \<longleftrightarrow> ?cell \<and> ?own \<and> ?step")
  proof
    assume ?mem
    then show "?cell \<and> ?own \<and> ?step" by (auto simp: gonu_slides_def split: if_splits)
  next
    assume "?cell \<and> ?own \<and> ?step"
    then show ?mem unfolding gonu_slides_def set_concat set_map
      by (intro UN_I [OF imageI [of "(r1, c1)"]]) (auto simp: image_iff)
  qed
  ultimately show ?thesis by (simp add: cells_mem)
qed

text \<open>A slide keeps the invariant.\<close>

lemma slide_ok:
  assumes "gonu_ok st" "(r1, c1, r2, c2) \<in> set (gonu_slides st player)" "player \<noteq> GONU_CELL_EMPTY"
    and "\<not> gn_placement_phase st" "gn_piece_selected st \<longrightarrow> player \<noteq> GONU_CELL_PLAYER"
  shows "gonu_ok (gonu_slide player r1 c1 r2 c2 st)"
proof -
  have m: "session_game_gonu_in_bounds r1 c1" "grid_at (gn_board st) r1 c1 = player" "grid_at (gn_board st) r2 c2 = GONU_CELL_EMPTY"
    and conn: "session_game_gonu_is_connected (gn_variant st) r1 c1 r2 c2"
    using assms(2) by (simp_all add: gonu_slides_mem)
  note pts = connected_points [OF conn]
  note ok = gonu_okD [OF assms(1)]
  have ne: "(r1, c1) \<noteq> (r2, c2)" using pts(5) by (auto simp: dirs_mem)
  define b where "b = grid_set r2 c2 player (grid_set r1 c1 GONU_CELL_EMPTY (gn_board st))"
  note ps = pieces_slide [OF ok(1) pts(3,4) ne assms(3) m(2,3)]
  have other: "card (pieces y b) = card (pieces y (gn_board st))" if "y \<noteq> GONU_CELL_EMPTY" for y
    using ps(2) [of y] ps(3) that by (cases "y = player") (simp_all add: b_def)
  have valid: "session_game_gonu_is_valid_position (gn_variant st) r c"
    if "session_game_gonu_in_bounds r c" "grid_at b r c \<noteq> GONU_CELL_EMPTY" for r c
    using that ok(1,2) pts m unfolding b_def
    by (simp add: grid_at_set [OF board_set [OF ok(1) pts(3)] pts(4)] grid_at_set [OF ok(1) pts(3)] split: if_splits)
  have sel: "(gn_selected_row st, gn_selected_col st) \<in> pieces GONU_CELL_PLAYER b" if "gn_piece_selected st"
    using ok(10) [OF that] ps(2) [of GONU_CELL_PLAYER] assms(5) that by (simp add: b_def)
  show ?thesis
    using ok valid sel other assms(4) pts by (auto simp: gonu_ok_def gonu_slide_def b_def [symmetric] placement_done_def) (simp_all add: b_def)
qed

lemma place_ok:
  assumes "gonu_ok st" "session_game_gonu_is_valid_position (gn_variant st) r c" "grid_at (gn_board st) r c = GONU_CELL_EMPTY"
    and "player = GONU_CELL_PLAYER \<or> player = GONU_CELL_AI" "gn_placement_phase st"
  shows "board_5x5 (grid_set r c player (gn_board st))"
    "session_game_gonu_in_bounds r' c' \<Longrightarrow> grid_at (grid_set r c player (gn_board st)) r' c' \<noteq> GONU_CELL_EMPTY \<Longrightarrow>
       session_game_gonu_is_valid_position (gn_variant st) r' c'"
    "card (pieces player (grid_set r c player (gn_board st))) = Suc (card (pieces player (gn_board st)))"
    "y \<noteq> player \<Longrightarrow> y \<noteq> GONU_CELL_EMPTY \<Longrightarrow> pieces y (grid_set r c player (gn_board st)) = pieces y (gn_board st)"
proof -
  note ok = gonu_okD [OF assms(1)]
  have rc: "session_game_gonu_in_bounds r c" using assms(2) by (simp add: session_game_gonu_is_valid_position_def)
  show "board_5x5 (grid_set r c player (gn_board st))" using ok(1) rc by simp
  show "session_game_gonu_is_valid_position (gn_variant st) r' c'"
    if "session_game_gonu_in_bounds r' c'" "grid_at (grid_set r c player (gn_board st)) r' c' \<noteq> GONU_CELL_EMPTY"
    using that ok(2) assms(2) by (simp add: grid_at_set [OF ok(1) rc] split: if_splits)
  have "(r, c) \<notin> pieces player (gn_board st)" using assms(3,4) by auto
  then show "card (pieces player (grid_set r c player (gn_board st))) = Suc (card (pieces player (gn_board st)))"
    by (simp add: pieces_set [OF ok(1) rc])
  show "pieces y (grid_set r c player (gn_board st)) = pieces y (gn_board st)" if "y \<noteq> player" "y \<noteq> GONU_CELL_EMPTY"
    using that assms(3) by (auto simp: pieces_set [OF ok(1) rc])
qed

section \<open>Scores\<close>

lemma count_adjacent_bounds: "0 \<le> session_game_gonu_count_adjacent st r c x" "session_game_gonu_count_adjacent st r c x \<le> 9"
proof -
  have "length gonu_steps = 9" by code_simp
  then show "0 \<le> session_game_gonu_count_adjacent st r c x" "session_game_gonu_count_adjacent st r c x \<le> 9"
    using length_filter_le [of _ gonu_steps] by (simp_all add: session_game_gonu_count_adjacent_def)
qed

lemma positional_bounds:
  assumes "session_game_gonu_in_bounds r c"
  shows "2 \<le> session_game_gonu_positional_score st r c x" "session_game_gonu_positional_score st r c x \<le> 73"
proof -
  define own other where "own = session_game_gonu_count_adjacent st r c x"
    and "other = session_game_gonu_count_adjacent st r c (if x = GONU_CELL_AI then GONU_CELL_PLAYER else GONU_CELL_AI)"
  have score: "session_game_gonu_positional_score st r c x = 10 - (\<bar>2 - r\<bar> + \<bar>2 - c\<bar>) * 2 + own * 4 + other * 3"
    by (simp add: session_game_gonu_positional_score_def Let_def GONU_BOARD_SIZE_def own_def other_def)
  have counts: "0 \<le> own" "own \<le> 9" "0 \<le> other" "other \<le> 9" using count_adjacent_bounds by (simp_all add: own_def other_def)
  define p q where "p = \<bar>2 - r\<bar>" and "q = \<bar>2 - c\<bar>"
  have "p \<le> 2" "q \<le> 2" "0 \<le> p" "0 \<le> q" using assms by (auto simp: session_game_gonu_in_bounds_def GONU_BOARD_SIZE_def p_def q_def)
  then show "2 \<le> session_game_gonu_positional_score st r c x" "session_game_gonu_positional_score st r c x \<le> 73"
    using counts unfolding score p_def [symmetric] q_def [symmetric] by simp_all
qed

text \<open>A winning slide scores above all others; a slide that lets the player win scores below zero
  unless it wins, and every other slide scores above zero.\<close>

lemma slide_score:
  assumes "session_game_gonu_in_bounds r2 c2"
  shows "session_game_gonu_check_win (gonu_slide GONU_CELL_AI r1 c1 r2 c2 st) GONU_CELL_AI \<Longrightarrow> 382 \<le> ai_slide_score pw st r1 c1 r2 c2"
    "\<not> session_game_gonu_check_win (gonu_slide GONU_CELL_AI r1 c1 r2 c2 st) GONU_CELL_AI \<Longrightarrow> ai_slide_score pw st r1 c1 r2 c2 \<le> 232"
    "\<not> session_game_gonu_check_win (gonu_slide GONU_CELL_AI r1 c1 r2 c2 st) GONU_CELL_AI \<Longrightarrow>
       session_game_gonu_has_winning_move (gonu_slide GONU_CELL_AI r1 c1 r2 c2 st) GONU_CELL_PLAYER \<Longrightarrow>
       ai_slide_score pw st r1 c1 r2 c2 < -1"
    "\<not> session_game_gonu_has_winning_move (gonu_slide GONU_CELL_AI r1 c1 r2 c2 st) GONU_CELL_PLAYER \<Longrightarrow>
       0 \<le> ai_slide_score pw st r1 c1 r2 c2"
  using positional_bounds [OF assms, of "gonu_slide GONU_CELL_AI r1 c1 r2 c2 st" GONU_CELL_AI]
    count_adjacent_bounds [of "gonu_slide GONU_CELL_AI r1 c1 r2 c2 st" r1 c1 GONU_CELL_AI]
  by (simp_all add: ai_slide_score_def Let_def)

section \<open>The choice of the computer\<close>

lemma gonu_best_scan:
  assumes "length moves \<le> 128" "n \<le> length moves" "fold (gonu_best_step moves) [0..<n] (-1, []) = (m, best)"
  shows "-1 \<le> m \<and> (\<forall>i<n. am_score (moves ! i) \<le> m) \<and> (m = -1 \<or> (\<exists>i<n. am_score (moves ! i) = m)) \<and>
     best = filter (\<lambda>i. am_score (moves ! i) = m) [0..<n]"
  using assms(2,3)
proof (induction n arbitrary: m best)
  case (Suc n)
  obtain m0 best0 where old: "fold (gonu_best_step moves) [0..<n] (-1, []) = (m0, best0)" by fastforce
  let ?f = "\<lambda>i. am_score (moves ! i)"
  have le: "-1 \<le> m0" "\<forall>i<n. ?f i \<le> m0" and reached: "m0 = -1 \<or> (\<exists>i<n. ?f i = m0)"
    and best0: "best0 = filter (\<lambda>i. ?f i = m0) [0..<n]"
    using Suc.IH [OF _ old] Suc.prems(1) by simp_all
  have step: "gonu_best_step moves n (m0, best0) = (m, best)" using Suc.prems(2) old by simp
  have "length best0 \<le> n" unfolding best0 by (rule order_trans [OF length_filter_le]) simp
  then have short: "length best0 < 128" using Suc.prems(1) assms(1) by simp
  show ?case
  proof (cases "?f n > m0")
    case True
    then have none: "filter (\<lambda>i. ?f i = ?f n) [0..<n] = []" using le(2) by (fastforce simp: filter_empty_conv)
    have "m = ?f n" "best = [n]" using step True by (simp_all add: gonu_best_step_def)
    then show ?thesis using True le none by (auto simp: less_Suc_eq)
  next
    case False
    then have "m = m0" "best = best0 @ (if ?f n = m0 then [n] else [])"
      using step short by (auto simp: gonu_best_step_def split: if_splits)
    then show ?thesis using False le reached best0 by (auto simp: less_Suc_eq)
  qed
qed simp

lemma gonu_best_spec:
  assumes "length moves \<le> 128"
  shows "i \<in> set (gonu_best_indexes moves) \<Longrightarrow> i < length moves \<and> (\<forall>mv\<in>set moves. am_score mv \<le> am_score (moves ! i))"
    "gonu_best_indexes moves = [] \<longleftrightarrow> (\<forall>mv\<in>set moves. am_score mv < -1)"
proof -
  obtain m best where fold: "fold (gonu_best_step moves) [0..<length moves] (-1, []) = (m, best)" by fastforce
  note spec = gonu_best_scan [OF assms order_refl fold]
  have best: "gonu_best_indexes moves = filter (\<lambda>i. am_score (moves ! i) = m) [0..<length moves]"
    using spec fold by (simp add: gonu_best_indexes_def)
  have le: "am_score mv \<le> m" if "mv \<in> set moves" for mv using spec that by (auto simp: in_set_conv_nth)
  show "i < length moves \<and> (\<forall>mv\<in>set moves. am_score mv \<le> am_score (moves ! i))" if "i \<in> set (gonu_best_indexes moves)"
    using that le by (auto simp: best)
  show "gonu_best_indexes moves = [] \<longleftrightarrow> (\<forall>mv\<in>set moves. am_score mv < -1)"
  proof
    assume "gonu_best_indexes moves = []"
    then have none: "\<forall>i<length moves. am_score (moves ! i) \<noteq> m" by (simp add: best filter_empty_conv)
    then have "m = -1" using spec by blast
    then show "\<forall>mv\<in>set moves. am_score mv < -1" using none le by (metis in_set_conv_nth order_le_less)
  next
    assume "\<forall>mv\<in>set moves. am_score mv < -1"
    then have "am_score (moves ! i) \<noteq> m" if "i < length moves" for i using spec that nth_mem by fastforce
    then show "gonu_best_indexes moves = []" by (simp add: best filter_empty_conv)
  qed
qed

text \<open>What the levels choose.\<close>

lemma gonu_choose_spec:
  assumes "length moves \<le> 128" "moves \<noteq> []" "gonu_choose_move raw level moves ctx = (choice, ctx')"
  shows "choice = Some mv \<Longrightarrow> mv \<in> set moves"
    "choice = None \<Longrightarrow> level \<noteq> 1 \<and> (\<forall>mv\<in>set moves. am_score mv < -1)"
    "level = 5 \<Longrightarrow> choice = Some mv \<Longrightarrow> mv' \<in> set moves \<Longrightarrow> am_score mv' \<le> am_score mv"
    "level = 5 \<Longrightarrow> (\<forall>mv\<in>set moves. am_score mv < -1) \<Longrightarrow> choice = None"
proof -
  define best where "best = gonu_best_indexes moves"
  have rr: "session_game_random_range raw c (length moves) = (i, c') \<Longrightarrow> moves ! i \<in> set moves" for c c' :: gonu_session and i
    using random_range_less [of "length moves" raw c] assms(2) by simp
  have ri: "i < length best" if "session_game_random_range raw c (length best) = (i, c')" "best \<noteq> []" for c c' :: gonu_session and i
    using random_range_less [of "length best" raw c] that by simp
  have bi: "best ! i < length moves" "mv' \<in> set moves \<Longrightarrow> am_score mv' \<le> am_score (moves ! (best ! i))" if "i < length best" for i mv'
    using gonu_best_spec(1) [OF assms(1), of "best ! i"] that by (simp_all add: best_def)
  note empty = gonu_best_spec(2) [OF assms(1), folded best_def]
  show "choice = Some mv \<Longrightarrow> mv \<in> set moves"
    using assms(3) rr bi(1) by (auto simp: gonu_choose_move_def Let_def best_def [symmetric] split: prod.splits if_splits)
  show "choice = None \<Longrightarrow> level \<noteq> 1 \<and> (\<forall>mv\<in>set moves. am_score mv < -1)"
    using assms(3) ri unfolding empty [symmetric]
    by (auto simp: gonu_choose_move_def Let_def best_def [symmetric] split: prod.splits if_splits)
  show "level = 5 \<Longrightarrow> choice = Some mv \<Longrightarrow> mv' \<in> set moves \<Longrightarrow> am_score mv' \<le> am_score mv"
    using assms(3) bi(2) by (auto simp: gonu_choose_move_def gonu_good_percent_def Let_def best_def [symmetric] split: prod.splits if_splits)
  show "level = 5 \<Longrightarrow> (\<forall>mv\<in>set moves. am_score mv < -1) \<Longrightarrow> choice = None"
    using assms(3) unfolding empty [symmetric]
    by (auto simp: gonu_choose_move_def gonu_good_percent_def Let_def best_def [symmetric] split: prod.splits if_splits)
qed

section \<open>Moves of the computer\<close>

text \<open>The computer is cornered where it can move, but no move wins and after each the player can win.\<close>

definition cornered :: "gonu_game_state \<Rightarrow> bool" where
  "cornered st \<longleftrightarrow> gonu_slides st GONU_CELL_AI \<noteq> [] \<and>
     list_all (\<lambda>(r1, c1, r2, c2). \<not> session_game_gonu_check_win (gonu_slide GONU_CELL_AI r1 c1 r2 c2 st) GONU_CELL_AI \<and>
        session_game_gonu_has_winning_move (gonu_slide GONU_CELL_AI r1 c1 r2 c2 st) GONU_CELL_PLAYER) (gonu_slides st GONU_CELL_AI)"

lemma length_slides:
  assumes "gonu_ok st"
  shows "length (gonu_slides st GONU_CELL_AI) \<le> 27"
proof -
  define own where "own = (\<lambda>(r, c). grid_at (gn_board st) r c = GONU_CELL_AI)"
  have steps: "length gonu_steps = 9" by code_simp
  have bound: "length (concat (map (\<lambda>x. if own x then map (g x) (filter (P x) gonu_steps) else []) xs)) \<le> 9 * length (filter own xs)"
    for g P and xs :: "(int \<times> int) list"
  proof (induction xs)
    case (Cons x xs)
    then show ?case using length_filter_le [of "P x" gonu_steps] steps by simp
  qed simp
  have "gonu_slides st GONU_CELL_AI = concat (map (\<lambda>x. if own x
      then map (\<lambda>(dr, dc). (fst x, snd x, fst x + dr, snd x + dc))
        (filter (\<lambda>(dr, dc). session_game_gonu_is_connected (gn_variant st) (fst x) (snd x) (fst x + dr) (snd x + dc) \<and>
           grid_at (gn_board st) (fst x + dr) (snd x + dc) = GONU_CELL_EMPTY) gonu_steps) else []) gonu_cells)"
    unfolding gonu_slides_def own_def by (intro arg_cong [of _ _ concat] map_cong) (auto simp: split_def)
  then have "length (gonu_slides st GONU_CELL_AI) \<le> 9 * length (filter own gonu_cells)" using bound by simp
  moreover have "set (filter own gonu_cells) = pieces GONU_CELL_AI (gn_board st)" "distinct gonu_cells"
    using cells_mem by (auto simp: own_def) (simp add: gonu_cells_def distinct_product)
  then have "length (filter own gonu_cells) \<le> 3"
    using gonu_okD(4,6) [OF assms] distinct_card [of "filter own gonu_cells"] by simp
  ultimately show ?thesis by simp
qed

lemma slide_moves:
  assumes "gonu_ok st" "\<not> gn_placement_phase st"
  shows "possible_moves st = ai_slides st" "length (possible_moves st) \<le> 128"
    "mv \<in> set (ai_slides st) \<longleftrightarrow> (\<exists>r1 c1 r2 c2. (r1, c1, r2, c2) \<in> set (gonu_slides st GONU_CELL_AI) \<and>
       mv = \<lparr>am_from_row = r1, am_from_col = c1, am_to_row = r2, am_to_col = c2, am_is_placement = False,
             am_score = ai_slide_score (session_game_gonu_has_winning_move st GONU_CELL_PLAYER) st r1 c1 r2 c2\<rparr>)"
  using length_slides [OF assms(1)] assms(2) by (auto simp: possible_moves_def ai_slides_def Let_def image_iff split_def intro: rev_bexI)

lemma cornered_scores:
  assumes "gonu_ok st"
  shows "cornered st \<longleftrightarrow> ai_slides st \<noteq> [] \<and> (\<forall>mv\<in>set (ai_slides st). am_score mv < -1)"
proof -
  have "(\<not> session_game_gonu_check_win (gonu_slide GONU_CELL_AI r1 c1 r2 c2 st) GONU_CELL_AI \<and>
        session_game_gonu_has_winning_move (gonu_slide GONU_CELL_AI r1 c1 r2 c2 st) GONU_CELL_PLAYER) \<longleftrightarrow>
      ai_slide_score pw st r1 c1 r2 c2 < -1" if "(r1, c1, r2, c2) \<in> set (gonu_slides st GONU_CELL_AI)" for r1 c1 r2 c2 pw
  proof -
    have "session_game_gonu_in_bounds r2 c2" using that connected_points(4) by (auto simp: gonu_slides_mem)
    from slide_score [OF this, of r1 c1 st pw] show ?thesis by fastforce
  qed
  then show ?thesis by (auto simp: cornered_def list_all_iff ai_slides_def Let_def split_def)
qed

lemma placement_moves:
  assumes "gonu_ok st" "gn_placement_phase st" "gn_ai_pieces st < 3"
  shows "possible_moves st = take 128 (ai_placements st)" "possible_moves st \<noteq> []"
    "mv \<in> set (possible_moves st) \<Longrightarrow> am_is_placement mv \<and> 0 \<le> am_score mv \<and>
       session_game_gonu_is_valid_position (gn_variant st) (am_to_row mv) (am_to_col mv) \<and>
       grid_at (gn_board st) (am_to_row mv) (am_to_col mv) = GONU_CELL_EMPTY"
proof -
  show eq: "possible_moves st = take 128 (ai_placements st)" using assms(2,3) by (simp add: possible_moves_def)
  show "mv \<in> set (possible_moves st) \<Longrightarrow> am_is_placement mv \<and> 0 \<le> am_score mv \<and>
      session_game_gonu_is_valid_position (gn_variant st) (am_to_row mv) (am_to_col mv) \<and>
      grid_at (gn_board st) (am_to_row mv) (am_to_col mv) = GONU_CELL_EMPTY"
    using positional_bounds(1) [of _ _ st GONU_CELL_AI]
    by (force simp: eq ai_placements_def cells_mem dest!: in_set_takeD)
  let ?row = "{(2, 0), (2, 1), (2, 2), (2, 3), (2, 4), (1, 1), (1, 2)} :: (int \<times> int) set"
  let ?full = "pieces GONU_CELL_PLAYER (gn_board st) \<union> pieces GONU_CELL_AI (gn_board st)"
  have "card ?full \<le> 6"
    using card_Un_le [of "pieces GONU_CELL_PLAYER (gn_board st)" "pieces GONU_CELL_AI (gn_board st)"] gonu_okD(3-6) [OF assms(1)] by linarith
  moreover have "card ?row = 7" by simp
  ultimately have "\<not> ?row \<subseteq> ?full" using card_mono [of ?full ?row] by fastforce
  then obtain r c where rc: "(r, c) \<in> ?row" "(r, c) \<notin> ?full" by blast
  have "session_game_gonu_is_valid_position v r c" for v
    using rc(1) by (cases v) (auto simp: session_game_gonu_is_valid_position_def session_game_gonu_in_bounds_def GONU_BOARD_SIZE_def grid_at_def)
  moreover from this [of "gn_variant st"] have "grid_at (gn_board st) r c = GONU_CELL_EMPTY" "(r, c) \<in> set gonu_cells"
    using rc(2) by (auto simp: session_game_gonu_is_valid_position_def cells_mem) (metis gonu_cell.exhaust)
  ultimately show "possible_moves st \<noteq> []" by (force simp: eq ai_placements_def filter_empty_conv)
qed

end
