(* ===== verification/Gonu_Session.thy ===== *)
theory Gonu_Session
  imports Gonu_Play
begin

text \<open>
  Gonu in a session: the turns, the lines of the player, the camouflage, and runs of a session
  from the start of a game to its end.
\<close>

section \<open>What the moves leave alone\<close>

definition same_frame :: "gonu_session \<Rightarrow> gonu_session \<Rightarrow> bool" where
  "same_frame ctx ctx' \<longleftrightarrow> gs_active ctx' = gs_active ctx \<and> gs_type ctx' = gs_type ctx \<and>
     gs_saved_gonu ctx' = gs_saved_gonu ctx \<and> gs_is_camouflaged ctx' = gs_is_camouflaged ctx"

lemma same_frame_simps [simp]:
  "same_frame ctx ctx" "same_frame ctx (put_gonu st ctx') \<longleftrightarrow> same_frame ctx ctx'"
  "same_frame ctx (session_send_system_line msg ctx') \<longleftrightarrow> same_frame ctx ctx'"
  "same_frame ctx (session_game_seed_rng raw ctx') \<longleftrightarrow> same_frame ctx ctx'"
  "same_frame ctx (snd (session_game_random_range raw ctx' n)) \<longleftrightarrow> same_frame ctx ctx'"
  "same_frame (put_gonu st ctx) ctx' \<longleftrightarrow> same_frame ctx ctx'"
  "same_frame (session_send_system_line msg ctx) ctx' \<longleftrightarrow> same_frame ctx ctx'"
  by (simp_all add: same_frame_def put_gonu_def session_send_system_line_def session_game_seed_rng_def
      session_game_random_range_def session_game_random_def Let_def case_prod_unfold)

lemma gonu_frame_simps [simp]:
  "gs_gonu (put_gonu st ctx) = Some st" "gs_gonu (session_send_system_line msg ctx) = gs_gonu ctx"
  "gs_gonu (session_game_seed_rng raw ctx) = gs_gonu ctx" "gs_saved_gonu (session_game_seed_rng raw ctx) = gs_saved_gonu ctx"
  "gs_is_camouflaged (session_game_seed_rng raw ctx) = gs_is_camouflaged ctx"
  "gs_active (put_gonu st ctx) = gs_active ctx" "gs_active (session_send_system_line msg ctx) = gs_active ctx"
  "gs_type (put_gonu st ctx) = gs_type ctx" "gs_type (session_send_system_line msg ctx) = gs_type ctx"
  "gs_saved_gonu (put_gonu st ctx) = gs_saved_gonu ctx" "gs_saved_gonu (session_send_system_line msg ctx) = gs_saved_gonu ctx"
  "gs_is_camouflaged (put_gonu st ctx) = gs_is_camouflaged ctx"
  "gs_is_camouflaged (session_send_system_line msg ctx) = gs_is_camouflaged ctx"
  by (simp_all add: put_gonu_def session_send_system_line_def session_game_seed_rng_def)

lemma choose_frame: "gonu_choose_move raw level moves ctx = (choice, ctx') \<Longrightarrow> same_frame ctx ctx'"
proof -
  have "same_frame ctx (snd (gonu_choose_move raw level moves ctx))"
    by (simp add: gonu_choose_move_def Let_def case_prod_unfold split: option.split)
  then show "gonu_choose_move raw level moves ctx = (choice, ctx') \<Longrightarrow> same_frame ctx ctx'" by simp
qed

section \<open>The turn of the computer\<close>

lemma check_win_pieces:
  assumes "pieces x (gn_board st') = pieces x (gn_board st)" "gn_variant st' = gn_variant st"
    and "gn_placement_phase st' = gn_placement_phase st" "gn_movement_started st' = gn_movement_started st"
  shows "session_game_gonu_check_win st' x = session_game_gonu_check_win st x"
proof -
  have "three_in_line v b x r c dr dc \<longleftrightarrow>
      session_game_gonu_is_connected v r c (r + dr) (c + dc) \<and>
      session_game_gonu_is_connected v (r + dr) (c + dc) (r + 2 * dr) (c + 2 * dc) \<and>
      {(r, c), (r + dr, c + dc), (r + 2 * dr, c + 2 * dc)} \<subseteq> pieces x b" for v b r c dr dc
    using connected_points(3,4) by (auto simp: three_in_line_def)
  then have "three_in_line (gn_variant st') (gn_board st') x = three_in_line (gn_variant st) (gn_board st) x"
    by (intro ext) (simp only: assms(1,2))
  then show ?thesis by (simp only: check_win_three assms(3,4))
qed

text \<open>Before the computer moves: the player has placed one piece more, or has slid a piece.\<close>

definition ai_to_move :: "gonu_game_state \<Rightarrow> bool" where
  "ai_to_move st \<longleftrightarrow> gonu_ok st \<and> (gn_movement_started st \<longleftrightarrow> \<not> gn_placement_phase st) \<and>
     (gn_placement_phase st \<longrightarrow> gn_player_pieces st = Suc (gn_ai_pieces st)) \<and> \<not> session_game_gonu_check_win st GONU_CELL_PLAYER"

definition ai_moved :: "gonu_game_state \<Rightarrow> gonu_game_state \<Rightarrow> bool" where
  "ai_moved st st' \<longleftrightarrow> gonu_ok st' \<and> gn_player_pieces st' = gn_ai_pieces st' \<and> gn_difficulty_level st' = gn_difficulty_level st \<and>
     \<not> session_game_gonu_check_win st' GONU_CELL_PLAYER"

lemma counts_equal: "gonu_ok st \<Longrightarrow> \<not> gn_placement_phase st \<Longrightarrow> gn_player_pieces st = 3 \<and> gn_ai_pieces st = 3"
  using gonu_okD(7) [of st] by (simp add: placement_done_def)

lemma ai_slides_ok:
  assumes "ai_to_move st" "\<not> gn_placement_phase st" "(r1, c1, r2, c2) \<in> set (gonu_slides st GONU_CELL_AI)"
  shows "ai_moved st (gonu_slide GONU_CELL_AI r1 c1 r2 c2 st)"
proof -
  have st: "gonu_ok st" "gn_movement_started st" "\<not> session_game_gonu_check_win st GONU_CELL_PLAYER"
    using assms(1,2) by (simp_all add: ai_to_move_def)
  have ok: "gonu_ok (gonu_slide GONU_CELL_AI r1 c1 r2 c2 st)" by (rule slide_ok [OF st(1) assms(3)]) (use assms(2) in simp_all)
  have m: "session_game_gonu_is_connected (gn_variant st) r1 c1 r2 c2" "grid_at (gn_board st) r1 c1 = GONU_CELL_AI"
    "grid_at (gn_board st) r2 c2 = GONU_CELL_EMPTY"
    using assms(3) by (simp_all add: gonu_slides_mem)
  have ne: "(r1, c1) \<noteq> (r2, c2)" using connected_points(5) [OF m(1)] by (auto simp: dirs_mem)
  have "pieces GONU_CELL_PLAYER (gn_board (gonu_slide GONU_CELL_AI r1 c1 r2 c2 st)) = pieces GONU_CELL_PLAYER (gn_board st)"
    using pieces_slide(2) [OF gonu_okD(1) [OF st(1)] connected_points(3,4) [OF m(1)] ne _ m(2,3)] by (simp add: gonu_slide_def)
  then have "session_game_gonu_check_win (gonu_slide GONU_CELL_AI r1 c1 r2 c2 st) GONU_CELL_PLAYER =
      session_game_gonu_check_win st GONU_CELL_PLAYER"
    by (rule check_win_pieces) (use st(2) in \<open>simp_all add: gonu_slide_def\<close>)
  then show ?thesis using ok st counts_equal [OF st(1) assms(2)] by (simp add: ai_moved_def) (simp add: gonu_slide_def)
qed

lemma place_piece_ok:
  assumes "gonu_ok st" "session_game_gonu_is_valid_position (gn_variant st) r c" "grid_at (gn_board st) r c = GONU_CELL_EMPTY"
    and "gn_placement_phase st" "\<not> gn_movement_started st"
  shows "gn_player_pieces st < 3 \<Longrightarrow> st' = st\<lparr>gn_board := grid_set r c GONU_CELL_PLAYER (gn_board st), gn_player_pieces := gn_player_pieces st + 1\<rparr> \<Longrightarrow>
      gonu_ok (st'\<lparr>gn_placement_phase := \<not> placement_done st'\<rparr>)"
    "gn_ai_pieces st < 3 \<Longrightarrow> st' = st\<lparr>gn_board := grid_set r c GONU_CELL_AI (gn_board st), gn_ai_pieces := gn_ai_pieces st + 1\<rparr> \<Longrightarrow>
      gonu_ok (st'\<lparr>gn_placement_phase := \<not> placement_done st'\<rparr>)"
proof -
  note ok = gonu_okD [OF assms(1)]
  have sel: "\<not> gn_piece_selected st" using ok(9) assms(4) by blast
  show "gonu_ok (st'\<lparr>gn_placement_phase := \<not> placement_done st'\<rparr>)"
    if "gn_player_pieces st < 3" "st' = st\<lparr>gn_board := grid_set r c GONU_CELL_PLAYER (gn_board st), gn_player_pieces := gn_player_pieces st + 1\<rparr>"
    using place_ok [OF assms(1-3) _ assms(4), of GONU_CELL_PLAYER] ok sel that assms(5) by (simp add: gonu_ok_def placement_done_def)
  show "gonu_ok (st'\<lparr>gn_placement_phase := \<not> placement_done st'\<rparr>)"
    if "gn_ai_pieces st < 3" "st' = st\<lparr>gn_board := grid_set r c GONU_CELL_AI (gn_board st), gn_ai_pieces := gn_ai_pieces st + 1\<rparr>"
    using place_ok [OF assms(1-3) _ assms(4), of GONU_CELL_AI] ok sel that assms(5) by (simp add: gonu_ok_def placement_done_def)
qed

lemma end_placement_eq:
  assumes "gn_placement_phase st"
  shows "gs_gonu (end_placement st ctx) = Some (st\<lparr>gn_placement_phase := \<not> placement_done st\<rparr>)" "same_frame ctx (end_placement st ctx)"
  using assms by (auto simp: end_placement_def)

lemma ai_execute_ok:
  assumes "ai_to_move st" "mv \<in> set (possible_moves st)"
  obtains st' where "gs_gonu (gonu_ai_execute mv st ctx) = Some st'" "ai_moved st st'" "same_frame ctx (gonu_ai_execute mv st ctx)"
proof (cases "gn_placement_phase st")
  case True
  have st: "gonu_ok st" "\<not> gn_movement_started st" "gn_player_pieces st = Suc (gn_ai_pieces st)"
    using assms(1) True by (simp_all add: ai_to_move_def)
  have few: "gn_ai_pieces st < 3" using gonu_okD(5) [OF st(1)] st(3) by simp
  note mv = placement_moves(3) [OF st(1) True few assms(2)]
  define st1 where "st1 = st\<lparr>gn_board := grid_set (am_to_row mv) (am_to_col mv) GONU_CELL_AI (gn_board st), gn_ai_pieces := gn_ai_pieces st + 1\<rparr>"
  have ok: "gonu_ok (st1\<lparr>gn_placement_phase := \<not> placement_done st1\<rparr>)"
    using place_piece_ok(2) [OF st(1) _ _ True st(2) few st1_def] mv by blast
  have phase: "gn_placement_phase st1" using True by (simp add: st1_def)
  have "ai_moved st (st1\<lparr>gn_placement_phase := \<not> placement_done st1\<rparr>)"
    using ok st by (simp add: ai_moved_def check_win_three) (simp add: st1_def)
  moreover obtain c where "gonu_ai_execute mv st ctx = end_placement st1 c" "same_frame ctx c"
  proof
    show "gonu_ai_execute mv st ctx = end_placement st1 (session_send_system_line
        (''AI placed piece at '' @ dec_str (nat (am_to_row mv)) @ '','' @ dec_str (nat (am_to_col mv))) ctx)"
      using mv unfolding gonu_ai_execute_def st1_def by (simp only: if_True)
  qed simp
  ultimately show ?thesis using that end_placement_eq [OF phase, of c] by (simp add: same_frame_def)
next
  case False
  have ok: "gonu_ok st" using assms(1) by (simp add: ai_to_move_def)
  obtain r1 c1 r2 c2 where "(r1, c1, r2, c2) \<in> set (gonu_slides st GONU_CELL_AI)"
      "am_from_row mv = r1" "am_from_col mv = c1" "am_to_row mv = r2" "am_to_col mv = c2" "\<not> am_is_placement mv"
    using assms(2) slide_moves(1,3) [OF ok False] by auto
  then show ?thesis using that ai_slides_ok [OF assms(1) False] by (simp add: gonu_ai_execute_def)
qed

lemma ai_move_ok:
  assumes "gs_gonu ctx = Some st" "ai_to_move st"
  shows "session_game_gonu_ai_move raw ctx = None \<Longrightarrow> gn_difficulty_level st \<noteq> 1 \<and> \<not> gn_placement_phase st \<and> cornered st"
    "session_game_gonu_ai_move raw ctx = Some ctx' \<Longrightarrow> \<exists>st'. gs_gonu ctx' = Some st' \<and> ai_moved st st' \<and> same_frame ctx ctx'"
proof -
  have ok: "gonu_ok st" "\<not> gn_multiplayer st" using assms(2) gonu_okD(11) by (auto simp: ai_to_move_def)
  define moves where "moves = possible_moves st"
  have len: "length moves \<le> 128" by (simp add: moves_def possible_moves_def)
  have phase: "gn_ai_pieces st < 3" if "gn_placement_phase st"
    using that assms(2) gonu_okD(5) [OF ok(1)] by (simp add: ai_to_move_def)
  obtain choice c1 where choice: "gonu_choose_move raw (gn_difficulty_level st) moves (session_game_seed_rng raw ctx) = (choice, c1)"
    by fastforce
  have frame: "same_frame ctx c1" using choose_frame [OF choice] by (simp add: same_frame_def)
  have move: "session_game_gonu_ai_move raw ctx =
      (if moves = [] then Some (session_game_seed_rng raw ctx) else map_option (\<lambda>mv. gonu_ai_execute mv st c1) choice)"
    using choice ok(2) by (simp add: session_game_gonu_ai_move_def assms(1) Let_def moves_def split: option.split)
  show "gn_difficulty_level st \<noteq> 1 \<and> \<not> gn_placement_phase st \<and> cornered st" if "session_game_gonu_ai_move raw ctx = None"
  proof -
    have none: "moves \<noteq> []" "choice = None" using that move by (auto split: if_splits)
    note spec = gonu_choose_spec(2) [OF len none(1) choice none(2)]
    have "\<not> gn_placement_phase st"
      using placement_moves(2,3) [OF ok(1) _ phase] none(1) spec by (fastforce simp: moves_def neq_Nil_conv)
    then show ?thesis using spec none(1) cornered_scores [OF ok(1)] slide_moves(1) [OF ok(1)] by (simp add: moves_def)
  qed
  show "\<exists>st'. gs_gonu ctx' = Some st' \<and> ai_moved st st' \<and> same_frame ctx ctx'" if some: "session_game_gonu_ai_move raw ctx = Some ctx'"
  proof (cases "moves = []")
    case True
    then have "\<not> gn_placement_phase st" using placement_moves(2) [OF ok(1) _ phase] by (auto simp: moves_def)
    then have "ai_moved st st" using assms(2) counts_equal [OF ok(1)] by (simp add: ai_moved_def ai_to_move_def)
    then show ?thesis using some move True assms(1) by auto
  next
    case False
    then obtain mv where mv: "choice = Some mv" "ctx' = gonu_ai_execute mv st c1" using some move by auto
    have "mv \<in> set moves" by (rule gonu_choose_spec(1) [OF len False choice mv(1)])
    then show ?thesis
      using ai_execute_ok [OF assms(2), of mv c1] frame mv(2) unfolding moves_def same_frame_def by metis
  qed
qed

section \<open>The lines of the player\<close>

text \<open>A game that waits for its player.\<close>

definition gonu_waiting :: "gonu_game_state \<Rightarrow> bool" where
  "gonu_waiting st \<longleftrightarrow> gonu_ok st \<and> gn_player_turn st \<and> gn_player_pieces st = gn_ai_pieces st \<and>
     1 \<le> gn_difficulty_level st \<and> gn_difficulty_level st \<le> 5 \<and>
     \<not> session_game_gonu_check_win st GONU_CELL_PLAYER \<and> \<not> session_game_gonu_check_win st GONU_CELL_AI"

definition good_game :: "gonu_game_state \<Rightarrow> bool" where
  "good_game st \<longleftrightarrow> gonu_waiting st \<or> st = zero_gonu"

definition gonu_session_ok :: "gonu_session \<Rightarrow> bool" where
  "gonu_session_ok ctx \<longleftrightarrow>
     (if gs_active ctx then gs_type ctx = SESSION_GAME_GONU \<and> (\<exists>st. gs_gonu ctx = Some st \<and> good_game st)
      else gs_gonu ctx = None \<and> gs_saved_gonu ctx = None) \<and>
     (\<forall>st. gs_saved_gonu ctx = Some st \<longrightarrow> good_game st)"

definition saved_good :: "gonu_session \<Rightarrow> bool" where
  "saved_good ctx \<longleftrightarrow> (\<forall>st. gs_saved_gonu ctx = Some st \<longrightarrow> good_game st)"

lemma gonu_session_put:
  assumes "saved_good ctx" "gs_active ctx" "gs_type ctx = SESSION_GAME_GONU" "good_game st"
  shows "gonu_session_ok (put_gonu st ctx)"
  using assms by (simp add: gonu_session_ok_def saved_good_def)

lemma session_ok_message [simp]: "gonu_session_ok (session_send_system_line msg ctx) = gonu_session_ok ctx"
  by (simp add: gonu_session_ok_def)

lemma session_ok_messages [simp]: "gonu_session_ok (fold session_send_system_line msgs ctx) = gonu_session_ok ctx"
  by (induction msgs arbitrary: ctx) simp_all

lemma suspend_session_ok: "gs_active ctx \<Longrightarrow> gonu_session_ok (session_game_suspend_gonu reason ctx)"
  by (simp add: session_game_suspend_gonu_def gonu_session_ok_def)

text \<open>The turn of the player does not matter to the rules.\<close>

lemma turn_irrelevant [simp]:
  "session_game_gonu_check_win (st\<lparr>gn_player_turn := t\<rparr>) x = session_game_gonu_check_win st x"
  "gonu_slides (st\<lparr>gn_player_turn := t\<rparr>) x = gonu_slides st x"
  "gonu_slide x r1 c1 r2 c2 (st\<lparr>gn_player_turn := t\<rparr>) = (gonu_slide x r1 c1 r2 c2 st)\<lparr>gn_player_turn := t\<rparr>"
  "gonu_ok (st\<lparr>gn_player_turn := t\<rparr>) = gonu_ok st"
  by (simp_all add: check_win_three gonu_slides_def gonu_slide_def gonu_ok_def placement_done_def cong: if_cong)

lemma turn_irrelevant_more [simp]:
  "session_game_gonu_has_winning_move (st\<lparr>gn_player_turn := t\<rparr>) x = session_game_gonu_has_winning_move st x"
  "ai_to_move (st\<lparr>gn_player_turn := t\<rparr>) = ai_to_move st"
  by (simp_all add: session_game_gonu_has_winning_move_def ai_to_move_def split_def)

lemma cornered_turn [simp]: "cornered (st\<lparr>gn_player_turn := t\<rparr>) = cornered st"
  by (simp add: cornered_def)

lemma after_move_ok:
  assumes "gs_gonu ctx = Some st" "saved_good ctx" "gs_active ctx" "gs_type ctx = SESSION_GAME_GONU"
    and "gonu_ok st" "gn_movement_started st \<longleftrightarrow> \<not> gn_placement_phase st"
    and "gn_placement_phase st \<longrightarrow> gn_player_pieces st = Suc (gn_ai_pieces st)"
    and "1 \<le> gn_difficulty_level st" "gn_difficulty_level st \<le> 5"
  shows "gonu_after_move raw ctx = None \<Longrightarrow> gn_difficulty_level st \<noteq> 1 \<and> \<not> gn_placement_phase st \<and> cornered st"
    "gonu_after_move raw ctx = Some ctx' \<Longrightarrow> gonu_session_ok ctx'"
proof -
  define turn where "turn = st\<lparr>gn_player_turn := False\<rparr>"
  have eq: "gonu_after_move raw ctx =
      (if session_game_gonu_check_win st GONU_CELL_PLAYER
       then Some (session_game_suspend_gonu [] (session_send_system_line ''Congratulations! You won!'' (put_gonu (st\<lparr>gn_game_over := True\<rparr>) ctx)))
       else case session_game_gonu_ai_move raw (put_gonu turn ctx) of None \<Rightarrow> None | Some c \<Rightarrow>
         (case gs_gonu c of None \<Rightarrow> None | Some s \<Rightarrow>
            if session_game_gonu_check_win s GONU_CELL_AI
            then Some (session_game_suspend_gonu [] (session_send_system_line ''AI wins! Better luck next time.'' (put_gonu (s\<lparr>gn_game_over := True\<rparr>) c)))
            else Some (put_gonu (s\<lparr>gn_player_turn := True\<rparr>) c)))"
    by (simp add: gonu_after_move_def assms(1) turn_def)
  have to_move: "ai_to_move turn" if "\<not> session_game_gonu_check_win st GONU_CELL_PLAYER"
    using assms(5-7) that by (simp add: ai_to_move_def turn_def)
  note ai = ai_move_ok [of "put_gonu turn ctx" turn raw, OF gonu_frame_simps(1)]
  show "gn_difficulty_level st \<noteq> 1 \<and> \<not> gn_placement_phase st \<and> cornered st" if "gonu_after_move raw ctx = None"
  proof -
    have no: "\<not> session_game_gonu_check_win st GONU_CELL_PLAYER" using that by (auto simp: eq)
    have "session_game_gonu_ai_move raw (put_gonu turn ctx) = None"
      using that no ai(2) [OF to_move [OF no]] by (fastforce simp: eq split: option.splits if_splits)
    from ai(1) [OF to_move [OF no] this] show ?thesis by (simp add: turn_def)
  qed
  show "gonu_session_ok ctx'" if some: "gonu_after_move raw ctx = Some ctx'"
  proof (cases "session_game_gonu_check_win st GONU_CELL_PLAYER")
    case True
    then show ?thesis using some assms(3) suspend_session_ok by (auto simp: eq)
  next
    case False
    then obtain c where c: "session_game_gonu_ai_move raw (put_gonu turn ctx) = Some c" using some by (auto simp: eq split: option.splits)
    then obtain s where s: "gs_gonu c = Some s" "ai_moved turn s" "same_frame ctx c" using ai(2) [OF to_move [OF False]] by auto
    have frame: "gs_active c" "gs_type c = SESSION_GAME_GONU" "saved_good c" using s(3) assms(2-4) by (simp_all add: same_frame_def saved_good_def)
    show ?thesis
    proof (cases "session_game_gonu_check_win s GONU_CELL_AI")
      case True
      then show ?thesis using some False c s(1) frame(1) suspend_session_ok by (auto simp: eq)
    next
      case go: False
      have "gonu_waiting (s\<lparr>gn_player_turn := True\<rparr>)"
        using s(2) go assms(8,9) by (simp add: gonu_waiting_def ai_moved_def turn_def)
      then show ?thesis using some False c s(1) go gonu_session_put [OF frame(3,1,2)] by (auto simp: eq good_game_def)
    qed
  qed
qed


lemma waitingD:
  assumes "gonu_waiting st"
  shows "gonu_ok st" "gn_player_turn st" "gn_player_pieces st = gn_ai_pieces st" "1 \<le> gn_difficulty_level st" "gn_difficulty_level st \<le> 5"
    "\<not> session_game_gonu_check_win st GONU_CELL_PLAYER" "\<not> session_game_gonu_check_win st GONU_CELL_AI"
  using assms by (simp_all add: gonu_waiting_def)

text \<open>Where a line is not answered, the player has just slid a piece and the computer is cornered.\<close>

definition answer_undefined :: "gonu_game_state \<Rightarrow> bool" where
  "answer_undefined st \<longleftrightarrow> gn_difficulty_level st \<noteq> 1 \<and> (\<exists>r1 c1 r2 c2. (r1, c1, r2, c2) \<in> set (gonu_slides st GONU_CELL_PLAYER) \<and>
     cornered (gonu_slide GONU_CELL_PLAYER r1 c1 r2 c2 (st\<lparr>gn_piece_selected := False\<rparr>)))"

lemma waiting_settings:
  assumes "gonu_waiting st"
  shows "gonu_waiting (st\<lparr>gn_piece_selected := False\<rparr>)"
    "\<not> gn_placement_phase st \<Longrightarrow> (r, c) \<in> pieces GONU_CELL_PLAYER (gn_board st) \<Longrightarrow>
       gonu_waiting (st\<lparr>gn_selected_row := r, gn_selected_col := c, gn_piece_selected := True\<rparr>)"
    "gonu_waiting (st\<lparr>gn_awaiting_mode_selection := False, gn_awaiting_difficulty_selection := True, gn_multiplayer := False\<rparr>)"
    "1 \<le> d \<Longrightarrow> d \<le> 5 \<Longrightarrow> gonu_waiting (st\<lparr>gn_difficulty_level := d, gn_awaiting_difficulty_selection := False, gn_player_turn := True\<rparr>)"
  using assms unfolding gonu_waiting_def gonu_ok_def by (auto simp: placement_done_def check_win_three)

definition at_table :: "gonu_game_state \<Rightarrow> gonu_session \<Rightarrow> bool" where
  "at_table st ctx \<longleftrightarrow> gs_gonu ctx = Some st \<and> gonu_waiting st \<and> gs_active ctx \<and> gs_type ctx = SESSION_GAME_GONU \<and> saved_good ctx"

lemma at_table_ok: "at_table st ctx \<Longrightarrow> gonu_session_ok ctx"
  by (simp add: at_table_def gonu_session_ok_def good_game_def saved_good_def)

lemma at_table_put: "at_table st ctx \<Longrightarrow> gonu_waiting st' \<Longrightarrow> gonu_session_ok (put_gonu st' ctx)"
  by (rule gonu_session_put) (simp_all add: at_table_def good_game_def)

lemma placement_line_ok:
  assumes "at_table st ctx" "session_game_gonu_is_valid_position (gn_variant st) r c" "gn_placement_phase st"
  shows "\<exists>ctx'. gonu_placement_line raw r c st ctx = Some ctx' \<and> gonu_session_ok ctx'"
proof (cases "grid_at (gn_board st) r c = GONU_CELL_EMPTY")
  case False
  then show ?thesis using at_table_ok [OF assms(1)] by (simp add: gonu_placement_line_def)
next
  case True
  have w: "gonu_waiting st" "gs_active ctx" "gs_type ctx = SESSION_GAME_GONU" "saved_good ctx" using assms(1) by (simp_all add: at_table_def)
  note st = waitingD [OF w(1)] and ok = gonu_okD [OF waitingD(1) [OF w(1)]]
  have few: "gn_player_pieces st < 3" "\<not> gn_movement_started st" using ok(5,7,8) st(3) assms(3) by (auto simp: placement_done_def)
  define st1 where "st1 = st\<lparr>gn_board := grid_set r c GONU_CELL_PLAYER (gn_board st), gn_player_pieces := gn_player_pieces st + 1\<rparr>"
  have phase: "gn_placement_phase st1" "\<not> placement_done st1" using assms(3) st(3) few(1) by (simp_all add: st1_def placement_done_def)
  define c1 where "c1 = end_placement st1 ctx"
  have c1: "gs_gonu c1 = Some (st1\<lparr>gn_placement_phase := True\<rparr>)" "gs_active c1" "gs_type c1 = SESSION_GAME_GONU" "saved_good c1"
    using end_placement_eq [OF phase(1), of ctx] phase(2) w by (simp_all add: c1_def same_frame_def saved_good_def)
  have "gonu_ok (st1\<lparr>gn_placement_phase := True\<rparr>)"
    using place_piece_ok(1) [OF st(1) assms(2) True assms(3) few(2,1) st1_def] phase(2) by simp
  note after = after_move_ok [OF c1(1,4,2,3) this, of raw]
  have pre: "gn_movement_started (st1\<lparr>gn_placement_phase := True\<rparr>) = (\<not> gn_placement_phase (st1\<lparr>gn_placement_phase := True\<rparr>))"
    "gn_placement_phase (st1\<lparr>gn_placement_phase := True\<rparr>) \<longrightarrow>
       gn_player_pieces (st1\<lparr>gn_placement_phase := True\<rparr>) = Suc (gn_ai_pieces (st1\<lparr>gn_placement_phase := True\<rparr>))"
    "1 \<le> gn_difficulty_level (st1\<lparr>gn_placement_phase := True\<rparr>)" "gn_difficulty_level (st1\<lparr>gn_placement_phase := True\<rparr>) \<le> 5"
    using few(2) st(3-5) by (simp_all add: st1_def)
  have line: "gonu_placement_line raw r c st ctx = gonu_after_move raw c1"
    unfolding gonu_placement_line_def c1_def st1_def using True by simp
  show ?thesis
  proof (cases "gonu_after_move raw c1")
    case None
    then show ?thesis using after(1) [OF pre None] by simp
  next
    case (Some ctx')
    then show ?thesis using after(2) [OF pre Some] line by simp
  qed
qed

lemma movement_line_ok:
  assumes "at_table st ctx" "session_game_gonu_is_valid_position (gn_variant st) r c" "\<not> gn_placement_phase st"
  shows "gonu_movement_line raw r c st ctx = Some ctx' \<Longrightarrow> gonu_session_ok ctx'"
    "gonu_movement_line raw r c st ctx = None \<Longrightarrow> answer_undefined st"
proof -
  have w: "gonu_waiting st" "gs_active ctx" "gs_type ctx = SESSION_GAME_GONU" "saved_good ctx" using assms(1) by (simp_all add: at_table_def)
  note st = waitingD [OF w(1)] and ok = gonu_okD [OF waitingD(1) [OF w(1)]]
  have rc: "session_game_gonu_in_bounds r c" using assms(2) by (simp add: session_game_gonu_is_valid_position_def)
  define sr sc where "sr = gn_selected_row st" and "sc = gn_selected_col st"
  define released where "released = st\<lparr>gn_piece_selected := False\<rparr>"
  define slid where "slid = gonu_slide GONU_CELL_PLAYER sr sc r c released"
  have rel: "gonu_waiting released" unfolding released_def by (rule waiting_settings(1) [OF w(1)])
  have put: "gonu_session_ok (put_gonu released ctx)" by (rule at_table_put [OF assms(1) rel])
  have cases: "gonu_movement_line raw r c st ctx = Some ctx' \<Longrightarrow> gonu_session_ok ctx' \<or>
      gn_piece_selected st \<and> grid_at (gn_board st) r c = GONU_CELL_EMPTY \<and> session_game_gonu_is_connected (gn_variant st) sr sc r c \<and>
      gonu_after_move raw (put_gonu slid ctx) = Some ctx'"
    "gonu_movement_line raw r c st ctx = None \<Longrightarrow>
      gn_piece_selected st \<and> grid_at (gn_board st) r c = GONU_CELL_EMPTY \<and> session_game_gonu_is_connected (gn_variant st) sr sc r c \<and>
      gonu_after_move raw (put_gonu slid ctx) = None"
    using at_table_ok [OF assms(1)] put at_table_put [OF assms(1) waiting_settings(2) [OF w(1) assms(3), of r c]] rc
    by (auto simp: gonu_movement_line_def Let_def released_def [symmetric] sr_def [symmetric] sc_def [symmetric] slid_def [symmetric]
        split: if_splits)
  have moved: "(sr, sc, r, c) \<in> set (gonu_slides st GONU_CELL_PLAYER)" "gonu_ok slid" "saved_good (put_gonu slid ctx)"
    if sel: "gn_piece_selected st" "grid_at (gn_board st) r c = GONU_CELL_EMPTY" "session_game_gonu_is_connected (gn_variant st) sr sc r c"
  proof -
    show mem: "(sr, sc, r, c) \<in> set (gonu_slides st GONU_CELL_PLAYER)"
      using sel ok(10) by (simp add: gonu_slides_mem sr_def sc_def)
    have "(sr, sc, r, c) \<in> set (gonu_slides released GONU_CELL_PLAYER)" using mem by (simp add: gonu_slides_mem released_def)
    then show "gonu_ok slid" unfolding slid_def
      by (rule slide_ok [OF waitingD(1) [OF rel]]) (use assms(3) in \<open>simp_all add: released_def\<close>)
    show "saved_good (put_gonu slid ctx)" using w(4) by (simp add: saved_good_def)
  qed
  have pre: "gn_movement_started slid = (\<not> gn_placement_phase slid)" "gn_placement_phase slid \<longrightarrow> gn_player_pieces slid = Suc (gn_ai_pieces slid)"
    "1 \<le> gn_difficulty_level slid" "gn_difficulty_level slid \<le> 5" "gn_difficulty_level slid = gn_difficulty_level st"
    using assms(3) st(4,5) by (simp_all add: slid_def released_def gonu_slide_def)
  note after = after_move_ok [of "put_gonu slid ctx" slid raw, OF gonu_frame_simps(1) _ _ _ _ pre(1-4)]
  show "gonu_session_ok ctx'" if "gonu_movement_line raw r c st ctx = Some ctx'"
    using cases(1) [OF that] after(2) moved(2,3) w(2,3) by auto
  show "answer_undefined st" if "gonu_movement_line raw r c st ctx = None"
  proof -
    note none = cases(2) [OF that]
    have "gn_difficulty_level slid \<noteq> 1" "cornered slid" using none after(1) moved(2,3) w(2,3) by auto
    then show ?thesis unfolding answer_undefined_def pre(5)
      using moved(1) none unfolding slid_def released_def by blast
  qed
qed


lemma mode_line_ok:
  assumes "at_table st ctx"
  shows "gonu_session_ok (gonu_mode_line working st ctx)" "gonu_session_ok (gonu_difficulty_line working st ctx)"
proof -
  have w: "gonu_waiting st" "gs_active ctx" using assms by (simp_all add: at_table_def)
  show "gonu_session_ok (gonu_mode_line working st ctx)"
    using at_table_ok [OF assms] at_table_put [OF assms waiting_settings(3) [OF w(1)]] suspend_session_ok [OF w(2)]
    by (simp add: gonu_mode_line_def)
  have "1 \<le> nat d \<and> nat d \<le> 5" if "\<not> d < 1" "\<not> d > 5" for d :: int using that by linarith
  then show "gonu_session_ok (gonu_difficulty_line working st ctx)"
    using at_table_ok [OF assms] at_table_put [OF assms waiting_settings(4) [OF w(1), of "nat (atoi working)"]]
    by (simp add: gonu_difficulty_line_def Let_def)
qed

lemma turn_line_ok:
  assumes "at_table st ctx"
  shows "gonu_turn_line raw inp st ctx = Some ctx' \<Longrightarrow> gonu_session_ok ctx'"
    "gonu_turn_line raw inp st ctx = None \<Longrightarrow> answer_undefined st"
  using at_table_ok [OF assms] placement_line_ok [OF assms, of _ _ raw] movement_line_ok [OF assms, of _ _ raw]
  by (fastforce simp: gonu_turn_line_def split: sum.splits prod.splits if_splits)+

lemma toggle_session_ok:
  assumes "gonu_session_ok ctx"
  shows "gonu_session_ok (session_game_toggle_camouflage_gonu allocated shown ctx)"
proof (cases "gs_active ctx")
  case True
  then obtain st where "gs_gonu ctx = Some st" "good_game st" "gs_type ctx = SESSION_GAME_GONU"
    using assms by (auto simp: gonu_session_ok_def)
  moreover have "good_game zero_gonu" by (simp add: good_game_def)
  ultimately show ?thesis using assms True
    by (cases "gs_saved_gonu ctx") (auto simp: session_game_toggle_camouflage_gonu_def session_game_ensure_gonu_def
        session_game_ensure_saved_gonu_def gonu_session_ok_def Let_def put_gonu_def session_send_system_line_def)
qed (use assms in \<open>simp add: session_game_toggle_camouflage_gonu_def\<close>)

lemma handle_input_ok:
  assumes "gonu_session_ok ctx" "gs_active ctx" "gs_gonu ctx = Some st"
  shows "session_game_gonu_handle_input raw allocated shown inp ctx = Some ctx' \<Longrightarrow> gonu_session_ok ctx'"
    "session_game_gonu_handle_input raw allocated shown inp ctx = None \<Longrightarrow> answer_undefined st"
proof -
  have type: "gs_type ctx = SESSION_GAME_GONU" using assms(1,2) by (simp add: gonu_session_ok_def)
  have still: "gn_awaiting_mode_selection zero_gonu = False" "gn_awaiting_difficulty_selection zero_gonu = False"
    "gn_player_turn zero_gonu = False" by (simp_all add: zero_gonu_def)
  have table: "at_table st ctx" if "st \<noteq> zero_gonu"
    using assms that by (auto simp: at_table_def gonu_session_ok_def good_game_def saved_good_def)
  show "session_game_gonu_handle_input raw allocated shown inp ctx = Some ctx' \<Longrightarrow> gonu_session_ok ctx'"
    using assms(1) toggle_session_ok [OF assms(1)] mode_line_ok [OF table] turn_line_ok(1) [OF table] type still
    by (cases "st = zero_gonu") (auto simp: session_game_gonu_handle_input_def Let_def assms(3) split: if_splits)
  show "session_game_gonu_handle_input raw allocated shown inp ctx = None \<Longrightarrow> answer_undefined st"
    using turn_line_ok(2) [OF table] type still
    by (cases "st = zero_gonu") (auto simp: session_game_gonu_handle_input_def Let_def assms(3) split: if_splits)
qed

section \<open>Runs\<close>

lemma pieces_empty: "x \<noteq> GONU_CELL_EMPTY \<Longrightarrow> pieces x empty_gonu_board = {}"
  by (auto simp: pieces_def empty_gonu_board_def grid_at_def session_game_gonu_in_bounds_def GONU_BOARD_SIZE_def)

lemma reset_waiting: "gonu_waiting ((session_game_gonu_reset v)\<lparr>gn_awaiting_mode_selection := True\<rparr>)"
proof -
  have "board_5x5 empty_gonu_board" by (simp add: board_5x5_def empty_gonu_board_def)
  moreover have "grid_at empty_gonu_board r c = GONU_CELL_EMPTY" if "session_game_gonu_in_bounds r c" for r c
    using in_bounds_nat [OF that] by (simp add: empty_gonu_board_def grid_at_def)
  ultimately show ?thesis
    by (simp add: gonu_waiting_def gonu_ok_def session_game_gonu_reset_def placement_done_def check_win_three pieces_empty)
qed

lemma choose_language_frame:
  "same_frame ctx (choose_gonu_language answer ctx)" "gs_gonu (choose_gonu_language answer ctx) = gs_gonu ctx"
  by (simp_all add: choose_gonu_language_def Let_def same_frame_def session_send_system_line_def)

lemma messages_frame:
  "same_frame ctx (fold session_send_system_line msgs ctx)" "gs_gonu (fold session_send_system_line msgs ctx) = gs_gonu ctx"
  by (induction msgs arbitrary: ctx) (simp_all add: same_frame_def)

lemma start_session_ok:
  assumes "gonu_session_ok ctx" "\<not> gs_active ctx"
  shows "gonu_session_ok (session_game_start_gonu allocated typed ctx)"
proof -
  have none: "gs_gonu ctx = None" "gs_saved_gonu ctx = None" using assms by (simp_all add: gonu_session_ok_def)
  define c1 where "c1 = session_send_system_line
    (''CHOOSE YOUR LOCKSCREEN LANGUAGE TO HIDE THE SCREEN ON YOUR OFFICE! '' @ ''(c, cpp, java, go, js, ts, rust)'') ctx"
  define c2 where "c2 = (\<lambda>language. fold session_send_system_line gonu_variants (choose_gonu_language language c1))"
  have c2: "gs_gonu (c2 l) = None" "gs_saved_gonu (c2 l) = None" "gs_active (c2 l) = gs_active ctx" for l
    using choose_language_frame(1) [of c1 l] choose_language_frame(2) [of l c1] none
      messages_frame(1) [of "choose_gonu_language l c1" gonu_variants] messages_frame(2) [of gonu_variants "choose_gonu_language l c1"]
    by (auto simp: c2_def c1_def same_frame_def)
  have ok: "gonu_session_ok c1" "gonu_session_ok (c2 l)" for l
    using assms none c2 [of l] by (simp_all add: c1_def gonu_session_ok_def)
  have "gonu_session_ok (put_gonu ((session_game_gonu_reset v)\<lparr>gn_awaiting_mode_selection := True\<rparr>)
      ((session_game_ensure_gonu allocated (c2 l))\<lparr>gs_type := SESSION_GAME_GONU, gs_active := True\<rparr>))" for v l
    using reset_waiting [of v] c2 [of l] by (simp add: gonu_session_ok_def session_game_ensure_gonu_def good_game_def)
  moreover have "gonu_session_ok (session_game_ensure_gonu allocated (c2 l))" if "gs_gonu (session_game_ensure_gonu allocated (c2 l)) = None" for l
    using ok(2) [of l] that by (auto simp: session_game_ensure_gonu_def split: if_splits)
  moreover have "fold session_send_system_line gonu_variants (choose_gonu_language l c1) = c2 l" for l by (simp add: c2_def)
  ultimately show ?thesis
    using ok unfolding session_game_start_gonu_def Let_def c1_def [symmetric]
    by (auto split: option.split prod.split simp del: read_language.simps)
qed

end
