(* ===== verification/Gonu_Main.thy ===== *)
theory Gonu_Main
  imports Gonu_Session
begin

text \<open>
  What holds of Gonu over every run of a session, what the computer plays, and where the code
  goes wrong: a choice that reads an index never written, and a game lost to the camouflage.
\<close>

section \<open>Runs of a session\<close>

definition gonu_run :: "gonu_event list \<Rightarrow> gonu_session \<Rightarrow> gonu_session option" where
  "gonu_run evs ctx = fold (\<lambda>e s. Option.bind s (gonu_step e)) evs (Some ctx)"

lemma step_session_ok:
  assumes "gonu_session_ok ctx"
  shows "gonu_step ev ctx = Some ctx' \<Longrightarrow> gonu_session_ok ctx'"
    "gonu_step ev ctx = None \<Longrightarrow> \<exists>st. gs_gonu ctx = Some st \<and> answer_undefined st"
proof -
  have game: "gs_active ctx \<Longrightarrow> \<exists>st. gs_gonu ctx = Some st" using assms by (auto simp: gonu_session_ok_def)
  show "gonu_step ev ctx = Some ctx' \<Longrightarrow> gonu_session_ok ctx'"
    using assms game start_session_ok [OF assms] toggle_session_ok [OF assms] suspend_session_ok [of ctx] handle_input_ok(1) [OF assms]
    by (cases ev) (auto split: if_splits)
  show "gonu_step ev ctx = None \<Longrightarrow> \<exists>st. gs_gonu ctx = Some st \<and> answer_undefined st"
    using game handle_input_ok(2) [OF assms] by (cases ev) (auto split: if_splits)
qed

interpretation gonu_sys: invariant_system "\<lambda>e s. Option.bind s (gonu_step e)" "\<lambda>_. True"
    "\<lambda>s. \<forall>ctx. s = Some ctx \<longrightarrow> gonu_session_ok ctx"
  by unfold_locales (use step_session_ok(1) in \<open>auto split: bind_splits\<close>)

lemma gonu_run_ok:
  assumes "gonu_session_ok ctx" "gonu_run evs ctx = Some ctx'"
  shows "gonu_session_ok ctx'"
  using gonu_sys.inv_run [of evs "Some ctx"] assms by (simp add: gonu_run_def gonu_sys.run_def list_all_iff)


section \<open>The rule that ends a game\<close>


text \<open>Two of the four boards are the same.\<close>

theorem gonu_wheel_is_well:
  "session_game_gonu_build_patterns GONU_VARIANT_BAKWI = session_game_gonu_build_patterns GONU_VARIANT_UMUL"
  by simp

section \<open>The computer at the highest level\<close>

lemma expert_choice:
  assumes "gonu_ok st" "\<not> gn_placement_phase st" "gn_difficulty_level st = 5" "gs_gonu ctx = Some st" "gonu_slides st GONU_CELL_AI \<noteq> []"
  shows "cornered st \<Longrightarrow> session_game_gonu_ai_move raw ctx = None"
    "\<not> cornered st \<Longrightarrow> \<exists>mv c. mv \<in> set (ai_slides st) \<and> (\<forall>mv'\<in>set (ai_slides st). am_score mv' \<le> am_score mv) \<and>
       session_game_gonu_ai_move raw ctx = Some (gonu_ai_execute mv st c) \<and> gs_active c = gs_active ctx"
proof -
  define moves where "moves = ai_slides st"
  have moves: "possible_moves st = moves" "length moves \<le> 128" "moves \<noteq> []"
    using slide_moves(1,2) [OF assms(1,2)] assms(5) by (auto simp: moves_def ai_slides_def Let_def)
  obtain choice c where choice: "gonu_choose_move raw 5 moves (session_game_seed_rng raw ctx) = (choice, c)" by fastforce
  note spec = gonu_choose_spec [OF moves(2,3) choice]
  have eq: "session_game_gonu_ai_move raw ctx = map_option (\<lambda>mv. gonu_ai_execute mv st c) choice"
    using choice gonu_okD(11) [OF assms(1)] moves(3)
    by (simp add: session_game_gonu_ai_move_def assms(3,4) Let_def moves(1) split: option.split)
  note scores = cornered_scores [OF assms(1), folded moves_def]
  show "cornered st \<Longrightarrow> session_game_gonu_ai_move raw ctx = None" using scores spec(4) eq by simp
  show "\<exists>mv c. mv \<in> set (ai_slides st) \<and> (\<forall>mv'\<in>set (ai_slides st). am_score mv' \<le> am_score mv) \<and>
      session_game_gonu_ai_move raw ctx = Some (gonu_ai_execute mv st c) \<and> gs_active c = gs_active ctx" if "\<not> cornered st"
  proof -
    have "choice \<noteq> None" using scores moves(3) spec(2) that by blast
    then obtain mv where mv: "choice = Some mv" by blast
    have "gs_active c = gs_active ctx" using choose_frame [OF choice] by (simp add: same_frame_def)
    then show ?thesis using mv eq spec(1,3) by (auto simp: moves_def)
  qed
qed

text \<open>
  At the highest level the computer takes a win when there is one: where the player has slid
  a piece without winning and some slide of the computer makes three in a line, the game ends
  with the win of the computer.
\<close>

theorem gonu_expert_takes_win:
  assumes "gs_gonu ctx = Some st" "gs_active ctx" "gonu_ok st" "\<not> gn_placement_phase st" "gn_difficulty_level st = 5"
    and "\<not> session_game_gonu_check_win st GONU_CELL_PLAYER" "(r1, c1, r2, c2) \<in> set (gonu_slides st GONU_CELL_AI)"
    and "session_game_gonu_check_win (gonu_slide GONU_CELL_AI r1 c1 r2 c2 st) GONU_CELL_AI"
  shows "\<exists>ctx'. gonu_after_move raw ctx = Some ctx' \<and> \<not> gs_active ctx' \<and> last (sent ctx') = ''AI wins! Better luck next time.''"
proof -
  define turn where "turn = st\<lparr>gn_player_turn := False\<rparr>"
  have turn: "gonu_ok turn" "\<not> gn_placement_phase turn" "gn_difficulty_level turn = 5" "gonu_slides turn GONU_CELL_AI \<noteq> []"
    "\<not> cornered turn"
    using assms(3-5,7,8) by (auto simp: turn_def cornered_def list_all_iff)
  define pw where "pw = session_game_gonu_has_winning_move turn GONU_CELL_PLAYER"
  obtain mv c where mv: "mv \<in> set (ai_slides turn)" "\<forall>mv'\<in>set (ai_slides turn). am_score mv' \<le> am_score mv"
      "session_game_gonu_ai_move raw (put_gonu turn ctx) = Some (gonu_ai_execute mv turn c)" "gs_active c"
    using expert_choice(2) [OF turn(1-3) gonu_frame_simps(1) turn(4,5)] assms(2) by (metis gonu_frame_simps(6))
  obtain a b a' b' where s: "(a, b, a', b') \<in> set (gonu_slides turn GONU_CELL_AI)"
      "mv = \<lparr>am_from_row = a, am_from_col = b, am_to_row = a', am_to_col = b', am_is_placement = False, am_score = ai_slide_score pw turn a b a' b'\<rparr>"
    using mv(1) slide_moves(3) [OF turn(1,2), of mv] by (auto simp: pw_def)
  have bounds: "session_game_gonu_in_bounds r2 c2" "session_game_gonu_in_bounds a' b'"
    using s(1) assms(7) connected_points(4) by (auto simp: gonu_slides_mem)
  have "382 \<le> ai_slide_score pw turn r1 c1 r2 c2" using slide_score(1) [OF bounds(1)] assms(8) by (simp add: turn_def)
  moreover have "ai_slide_score pw turn r1 c1 r2 c2 \<le> am_score mv"
    using mv(2) slide_moves(3) [OF turn(1,2)] assms(7) by (force simp: turn_def pw_def)
  ultimately have "session_game_gonu_check_win (gonu_slide GONU_CELL_AI a b a' b' turn) GONU_CELL_AI"
    using slide_score(2) [OF bounds(2), of a b turn pw] s(2) by fastforce
  then show ?thesis using assms(1,6) mv(3,4)
    by (simp add: gonu_after_move_def turn_def [symmetric] gonu_ai_execute_def s(2) session_game_suspend_gonu_def)
      (simp add: session_send_system_line_def put_gonu_def)
qed

text \<open>
  C37: The computer reads an index that was never written: where no move of the computer wins and
  each lets the player win, all its moves score below the initial best score, no index is
  recorded, and at the highest level the answer to the slide of the player is undefined.
\<close>

theorem gonu_cornered_undefined:
  assumes "gs_gonu ctx = Some st" "gonu_ok st" "\<not> gn_placement_phase st" "gn_difficulty_level st = 5"
    and "\<not> session_game_gonu_check_win st GONU_CELL_PLAYER" "cornered st"
  shows "gonu_after_move raw ctx = None"
proof -
  define turn where "turn = st\<lparr>gn_player_turn := False\<rparr>"
  have "session_game_gonu_ai_move raw (put_gonu turn ctx) = None"
    by (rule expert_choice(1) [OF _ _ _ gonu_frame_simps(1)]) (use assms(2-6) in \<open>simp_all add: turn_def, simp_all add: cornered_def\<close>)
  then show ?thesis using assms(1,5) by (simp add: gonu_after_move_def turn_def)
qed

section \<open>The camouflage\<close>

lemma started_game:
  assumes "read_language [] typed = Some (language, rest)" "read_language [] rest = Some (choice, rest')" "gs_gonu ctx = None"
  shows "gs_gonu (session_game_start_gonu True typed ctx) =
      Some ((session_game_gonu_reset (gonu_variant_of (c_trim choice)))\<lparr>gn_awaiting_mode_selection := True\<rparr>)"
    "gs_active (session_game_start_gonu True typed ctx)" "gs_type (session_game_start_gonu True typed ctx) = SESSION_GAME_GONU"
    "gs_is_camouflaged (session_game_start_gonu True typed ctx) = gs_is_camouflaged ctx"
    "gs_saved_gonu (session_game_start_gonu True typed ctx) = gs_saved_gonu ctx"
  using assms messages_frame choose_language_frame
  by (simp_all add: session_game_start_gonu_def Let_def session_game_ensure_gonu_def same_frame_def del: read_language.simps)

lemma blank_game_stands:
  assumes "gs_gonu ctx = Some zero_gonu" "gs_type ctx = SESSION_GAME_GONU" "map c_tolower (c_trim (snprintf_into 4096 line)) \<noteq> ''t''"
    and "line \<noteq> ''t''" "line = [] \<or> hd line \<noteq> CHR ''/''"
  shows "gonu_step (GonuLine raw allocated shown line) ctx = Some ctx"
proof -
  have "gn_awaiting_mode_selection zero_gonu = False" "gn_awaiting_difficulty_selection zero_gonu = False" "gn_player_turn zero_gonu = False"
    by (simp_all add: zero_gonu_def)
  then show ?thesis using assms by (auto simp: session_game_gonu_handle_input_def)
qed

text \<open>
  A game that ends while it is hidden spoils the next one: the mark of the camouflage stays
  with the session, and when the next game is started, asking to hide it overwrites it with a
  blank state, in which no line has an effect but those that toggle the camouflage or suspend
  the game.
\<close>

theorem gonu_hidden_end_spoils_next:
  assumes "gs_is_camouflaged ctx" "\<not> gs_active ctx" "gs_gonu ctx = None" "gs_saved_gonu ctx = None"
    and "read_language [] typed = Some (language, rest)" "read_language [] rest = Some (choice, rest')"
  shows "\<exists>ctx1 ctx2. gonu_step (GonuStart True typed) ctx = Some ctx1 \<and>
    gs_gonu ctx1 = Some ((session_game_gonu_reset (gonu_variant_of (c_trim choice)))\<lparr>gn_awaiting_mode_selection := True\<rparr>) \<and>
    gonu_step (GonuLine raw True shown ''t'') ctx1 = Some ctx2 \<and> gs_gonu ctx2 = Some zero_gonu \<and>
    {line. map c_tolower (c_trim (snprintf_into 4096 line)) \<noteq> ''t'' \<and> (line = [] \<or> hd line \<noteq> CHR ''/'') \<and>
       gonu_step (GonuLine raw' True shown' line) ctx2 \<noteq> Some ctx2} = {}"
proof -
  define ctx1 where "ctx1 = session_game_start_gonu True typed ctx"
  have ctx1: "gs_gonu ctx1 = Some ((session_game_gonu_reset (gonu_variant_of (c_trim choice)))\<lparr>gn_awaiting_mode_selection := True\<rparr>)"
    "gs_active ctx1" "gs_type ctx1 = SESSION_GAME_GONU" "gs_is_camouflaged ctx1" "gs_saved_gonu ctx1 = None"
    using started_game [OF assms(5,6,3)] assms(1,4) by (simp_all add: ctx1_def)
  define ctx2 where "ctx2 = session_game_toggle_camouflage_gonu True shown ctx1"
  have ctx2: "gs_gonu ctx2 = Some zero_gonu" "gs_type ctx2 = SESSION_GAME_GONU"
    using ctx1 by (simp_all add: ctx2_def session_game_toggle_camouflage_gonu_def Let_def session_game_ensure_gonu_def
        session_game_ensure_saved_gonu_def put_gonu_def session_send_system_line_def)
  have t: "map c_tolower (c_trim (snprintf_into 4096 ''t'')) = ''t''" by (simp add: snprintf_into_def) code_simp
  have still: "gonu_step (GonuLine raw' True shown' line) ctx2 = Some ctx2"
    if "map c_tolower (c_trim (snprintf_into 4096 line)) \<noteq> ''t''" "line = [] \<or> hd line \<noteq> CHR ''/''" for line
    by (rule blank_game_stands [OF ctx2 that(1) _ that(2)]) (use that(1) t in metis)
  have "gonu_step (GonuStart True typed) ctx = Some ctx1" "gonu_step (GonuLine raw True shown ''t'') ctx1 = Some ctx2"
    using assms(2) ctx1(2) by (simp_all add: ctx1_def ctx2_def)
  then show ?thesis using ctx1(1) ctx2(1) still by blast
qed

section \<open>Examples\<close>

lemma gonu_ok_code:
  "gonu_ok st \<longleftrightarrow> board_5x5 (gn_board st) \<and>
     list_all (\<lambda>(r, c). grid_at (gn_board st) r c = GONU_CELL_EMPTY \<or> session_game_gonu_is_valid_position (gn_variant st) r c) gonu_cells \<and>
     length (filter (\<lambda>(r, c). grid_at (gn_board st) r c = GONU_CELL_PLAYER) gonu_cells) = gn_player_pieces st \<and>
     length (filter (\<lambda>(r, c). grid_at (gn_board st) r c = GONU_CELL_AI) gonu_cells) = gn_ai_pieces st \<and>
     gn_player_pieces st \<le> 3 \<and> gn_ai_pieces st \<le> 3 \<and>
     (gn_placement_phase st \<longleftrightarrow> \<not> placement_done st) \<and> (gn_movement_started st \<longrightarrow> \<not> gn_placement_phase st) \<and>
     (gn_piece_selected st \<longrightarrow> \<not> gn_placement_phase st \<and> session_game_gonu_in_bounds (gn_selected_row st) (gn_selected_col st) \<and>
        grid_at (gn_board st) (gn_selected_row st) (gn_selected_col st) = GONU_CELL_PLAYER) \<and>
     \<not> gn_multiplayer st \<and> \<not> gn_game_over st"
proof -
  have "distinct gonu_cells" by (simp add: gonu_cells_def distinct_product)
  moreover have "set (filter (\<lambda>(r, c). grid_at b r c = x) gonu_cells) = pieces x b" for x b by (auto simp: cells_mem)
  ultimately have count: "card (pieces x b) = length (filter (\<lambda>(r, c). grid_at b r c = x) gonu_cells)" for x b
    by (metis distinct_card distinct_filter)
  have "(\<forall>r c. session_game_gonu_in_bounds r c \<longrightarrow> grid_at (gn_board st) r c \<noteq> GONU_CELL_EMPTY \<longrightarrow>
      session_game_gonu_is_valid_position (gn_variant st) r c) \<longleftrightarrow>
    list_all (\<lambda>(r, c). grid_at (gn_board st) r c = GONU_CELL_EMPTY \<or> session_game_gonu_is_valid_position (gn_variant st) r c) gonu_cells"
    by (auto simp: list_all_iff cells_mem) blast
  then show ?thesis unfolding gonu_ok_def count by simp
qed

definition gonu_lobby :: gonu_session where
  "gonu_lobby = \<lparr>gs_active = False, gs_type = SESSION_GAME_NONE, gs_othello = None, gs_saved_othello = None, rng_state = 1,
     rng_seeded = True, sent = [], gs_gonu = None, gs_saved_gonu = None, gs_is_camouflaged = False, gs_camouflage_language = []\<rparr>"

definition gonu_at :: "gonu_cell list list \<Rightarrow> gonu_game_state" where
  "gonu_at b = (session_game_gonu_reset GONU_VARIANT_HOBAK)
     \<lparr>gn_board := b, gn_placement_phase := False, gn_movement_started := True, gn_player_pieces := 3, gn_ai_pieces := 3\<rparr>"

definition gonu_playing :: "gonu_cell list list \<Rightarrow> gonu_session" where
  "gonu_playing b = gonu_lobby\<lparr>gs_active := True, gs_type := SESSION_GAME_GONU, gs_gonu := Some (gonu_at b)\<rparr>"

abbreviation gonu_e where "gonu_e \<equiv> GONU_CELL_EMPTY"
abbreviation gonu_q where "gonu_q \<equiv> GONU_CELL_PLAYER"
abbreviation gonu_x where "gonu_x \<equiv> GONU_CELL_AI"

definition win_board :: "gonu_cell list list" where
  "win_board = [[gonu_q, gonu_e, gonu_q, gonu_e, gonu_e], [gonu_e, gonu_e, gonu_e, gonu_x, gonu_e], [gonu_e, gonu_x, gonu_x, gonu_e, gonu_e], [gonu_e, gonu_e, gonu_e, gonu_e, gonu_e], [gonu_e, gonu_e, gonu_e, gonu_e, gonu_q]]"

definition cornered_board :: "gonu_cell list list" where
  "cornered_board = [[gonu_x, gonu_e, gonu_q, gonu_e, gonu_e], [gonu_e, gonu_q, gonu_e, gonu_e, gonu_e], [gonu_x, gonu_e, gonu_e, gonu_e, gonu_e], [gonu_e, gonu_q, gonu_e, gonu_e, gonu_e], [gonu_x, gonu_e, gonu_e, gonu_e, gonu_e]]"

lemma sample_boards:
  "gonu_ok (gonu_at win_board)" "\<not> session_game_gonu_check_win (gonu_at win_board) GONU_CELL_PLAYER"
  "(1, 3, 2, 3) \<in> set (gonu_slides (gonu_at win_board) GONU_CELL_AI)"
  "session_game_gonu_check_win (gonu_slide GONU_CELL_AI 1 3 2 3 (gonu_at win_board)) GONU_CELL_AI"
  "gonu_ok (gonu_at cornered_board)" "\<not> session_game_gonu_check_win (gonu_at cornered_board) GONU_CELL_PLAYER"
  "cornered (gonu_at cornered_board)"
  unfolding gonu_ok_code by code_simp+

definition two_answers :: cstr where
  "two_answers = ''c'' @ [CHR 0x0A] @ ''1'' @ [CHR 0x0A]"

lemma two_answers_read:
  "read_language [] two_answers = Some (''c'', ''1'' @ [CHR 0x0A])" "read_language [] (''1'' @ [CHR 0x0A]) = Some (''1'', [])"
  by (simp_all add: two_answers_def)

lemma lobby_fields:
  "\<not> gs_active gonu_lobby" "gs_gonu gonu_lobby = None" "gs_saved_gonu gonu_lobby = None"
  by (simp_all add: gonu_lobby_def)


theorem gonu_expert_takes_win_witness:
  "\<exists>ctx'. gonu_after_move 1 (gonu_playing win_board) = Some ctx' \<and> \<not> gs_active ctx' \<and>
     last (sent ctx') = ''AI wins! Better luck next time.''"
  by (rule gonu_expert_takes_win [OF _ _ sample_boards(1) _ _ sample_boards(2-4)])
    (simp_all add: gonu_playing_def gonu_at_def session_game_gonu_reset_def)

theorem gonu_cornered_undefined_witness:
  "gonu_after_move 1 (gonu_playing cornered_board) = None"
  by (rule gonu_cornered_undefined [OF _ sample_boards(5) _ _ sample_boards(6,7)])
    (simp_all add: gonu_playing_def gonu_at_def session_game_gonu_reset_def)

theorem gonu_hidden_end_spoils_next_witness:
  "\<exists>ctx1 ctx2. gonu_step (GonuStart True two_answers) (gonu_lobby\<lparr>gs_is_camouflaged := True\<rparr>) = Some ctx1 \<and>
     gs_gonu ctx1 = Some ((session_game_gonu_reset (gonu_variant_of (c_trim ''1'')))\<lparr>gn_awaiting_mode_selection := True\<rparr>) \<and>
     gonu_step (GonuLine 1 True [] ''t'') ctx1 = Some ctx2 \<and> gs_gonu ctx2 = Some zero_gonu \<and>
     {line. map c_tolower (c_trim (snprintf_into 4096 line)) \<noteq> ''t'' \<and> (line = [] \<or> hd line \<noteq> CHR ''/'') \<and>
        gonu_step (GonuLine 1 True [] line) ctx2 \<noteq> Some ctx2} = {}"
  by (rule gonu_hidden_end_spoils_next [OF _ _ _ _ two_answers_read]) (simp_all add: gonu_lobby_def)

end
