(* ===== verification/Polls.thy ===== *)
theory Polls
  imports Interfaces "HOL-Library.Word"
begin

unbundle bit_operations_syntax

text \<open>
  Polls (\<^verbatim>\<open>src/host/commands/poll.c\<close>, the table of named polls in \<^verbatim>\<open>runtime/dispatch.c\<close>, the
  preferences of users in \<^verbatim>\<open>transport/session_setup.c\<close>, the file of votes in
  \<^verbatim>\<open>security/eliza_worker.c\<close> and \<^verbatim>\<open>security/vote_ban.c\<close>): the main poll, whose votes are kept
  with the preferences of the users, and sixteen named polls with their voters.

  A command returns the host and what it sends.  The array of voters is the list of its
  first \<^verbatim>\<open>voter_count\<close> entries, the array of preferences the list of the slots in use,
  which are never given back.  Whether the file of votes can be written is an argument.
\<close>

section \<open>State\<close>

record poll_option =
  po_text :: cstr
  po_votes :: nat

record poll_state =
  p_active :: bool
  p_id :: nat
  p_question :: cstr
  p_option_count :: nat
  p_options :: "poll_option list"
  p_allow_multiple :: bool

record poll_voter =
  v_username :: cstr
  v_choice :: int
  v_choices_mask :: "32 word"

record named_poll_state =
  np_poll :: poll_state
  np_label :: cstr
  np_owner :: cstr
  np_voters :: "poll_voter list"

record poll_preference =
  pref_username :: cstr
  pref_ip :: cstr
  last_poll_id :: nat
  last_poll_choice :: int

record vote_state_named_entry =
  ve_poll :: poll_state
  ve_label :: cstr
  ve_owner :: cstr
  ve_voters :: "poll_voter list"

record vote_state_file =
  vf_main :: poll_state
  vf_named :: "vote_state_named_entry list"

record poll_host =
  main_poll :: poll_state
  named_polls :: "named_poll_state list"
  named_poll_count :: nat
  preferences :: "poll_preference list"
  vote_file :: "vote_state_file option"

record poll_user =
  pu_name :: cstr
  pu_ip :: cstr
  pu_operator :: bool

text \<open>What a command sends: a line, the usage of a command, a summary, the list of polls, or
  a notice to the history and to the room.\<close>

datatype poll_reply =
    PollLine cstr | PollUsage cstr | PollSummary poll_state "cstr option" | PollList | PollNotice cstr

definition MAX_NAMED_POLLS :: nat where "MAX_NAMED_POLLS = 16"

definition MAX_NAMED_VOTERS :: nat where "MAX_NAMED_VOTERS = 256"

definition MAX_PREFERENCES :: nat where "MAX_PREFERENCES = 1024"

definition POLL_LABEL_LEN :: nat where "POLL_LABEL_LEN = 32"

definition POLL_NAME_LEN :: nat where "POLL_NAME_LEN = 256"

definition POLL_INPUT_LEN :: nat where "POLL_INPUT_LEN = 1024"

definition POLL_TEXT_LEN :: nat where "POLL_TEXT_LEN = 4096"

definition no_option :: poll_option where
  "no_option = \<lparr>po_text = [], po_votes = 0\<rparr>"

definition poll_state_reset :: "poll_state \<Rightarrow> poll_state" where
  "poll_state_reset p =
     p\<lparr>p_active := False, p_option_count := 0, p_question := [], p_allow_multiple := False,
       p_options := replicate 5 no_option\<rparr>"

definition named_poll_reset :: "named_poll_state \<Rightarrow> named_poll_state" where
  "named_poll_reset p =
     p\<lparr>np_poll := poll_state_reset (np_poll p), np_label := [], np_owner := [], np_voters := []\<rparr>"

definition host_find_named_poll_locked :: "poll_host \<Rightarrow> cstr \<Rightarrow> nat option" where
  "host_find_named_poll_locked h label =
     (if label = [] then None
      else first_index (\<lambda>p. np_label p \<noteq> [] \<and> strcasecmp_eq (np_label p) label) (named_polls h))"

definition host_ensure_named_poll_locked :: "poll_host \<Rightarrow> cstr \<Rightarrow> (nat \<times> poll_host) option" where
  "host_ensure_named_poll_locked h label =
     (if label = [] then None
      else case host_find_named_poll_locked h label of
             Some i \<Rightarrow> Some (i, h)
           | None \<Rightarrow>
               (case first_index (\<lambda>p. np_label p = []) (named_polls h) of
                  None \<Rightarrow> None
                | Some i \<Rightarrow>
                    Some (i, h\<lparr>named_polls := (named_polls h)
                      [i := (named_poll_reset (named_polls h ! i))
                              \<lparr>np_label := snprintf_into POLL_LABEL_LEN label\<rparr>]\<rparr>)))"

definition host_recount_named_polls_locked :: "poll_host \<Rightarrow> poll_host" where
  "host_recount_named_polls_locked h =
     h\<lparr>named_poll_count := length (filter (\<lambda>p. np_label p \<noteq> [] \<and> p_active (np_poll p)) (named_polls h))\<rparr>"

definition poll_label_is_valid :: "cstr \<Rightarrow> bool" where
  "poll_label_is_valid label \<longleftrightarrow>
     label \<noteq> [] \<and> list_all (\<lambda>ch. c_isalnum ch \<or> ch = CHR ''_'' \<or> ch = CHR ''-'') label"

section \<open>The file of votes\<close>

text \<open>The numbers of the file keep the truth values and counts of the state; the entry of a
  poll has its fields.\<close>

definition vote_state_export_poll_entry :: "poll_state \<Rightarrow> poll_state" where
  "vote_state_export_poll_entry p =
     p\<lparr>p_option_count := min 5 (p_option_count p), p_question := snprintf_into POLL_TEXT_LEN (p_question p),
       p_options := map (\<lambda>opt. opt\<lparr>po_text := snprintf_into POLL_TEXT_LEN (po_text opt)\<rparr>) (take 5 (p_options p))\<rparr>"

definition vote_state_import_poll_entry :: "poll_state \<Rightarrow> poll_state" where
  "vote_state_import_poll_entry e =
     (let count = min 5 (p_option_count e)
      in e\<lparr>p_option_count := count, p_question := snprintf_into POLL_TEXT_LEN (p_question e),
           p_options := map (\<lambda>opt. opt\<lparr>po_text := snprintf_into POLL_TEXT_LEN (po_text opt)\<rparr>) (take count (p_options e)) @
             replicate (5 - count) no_option\<rparr>)"

definition copy_voter :: "poll_voter \<Rightarrow> poll_voter" where
  "copy_voter v = v\<lparr>v_username := snprintf_into POLL_NAME_LEN (v_username v)\<rparr>"

definition export_named_poll :: "named_poll_state \<Rightarrow> vote_state_named_entry" where
  "export_named_poll p =
     \<lparr>ve_poll = vote_state_export_poll_entry (np_poll p), ve_label = snprintf_into POLL_LABEL_LEN (np_label p),
      ve_owner = snprintf_into POLL_NAME_LEN (np_owner p),
      ve_voters = map copy_voter (take MAX_NAMED_VOTERS (np_voters p))\<rparr>"

definition host_vote_state_save_locked :: "bool \<Rightarrow> poll_host \<Rightarrow> poll_host" where
  "host_vote_state_save_locked writable h =
     (if writable
      then h\<lparr>vote_file := Some \<lparr>vf_main = vote_state_export_poll_entry (main_poll h),
             vf_named = map export_named_poll (filter (\<lambda>p. np_label p \<noteq> []) (named_polls h))\<rparr>\<rparr>
      else h)"

definition import_named_poll :: "vote_state_named_entry \<Rightarrow> named_poll_state" where
  "import_named_poll e =
     \<lparr>np_poll = vote_state_import_poll_entry (ve_poll e), np_label = snprintf_into POLL_LABEL_LEN (ve_label e),
      np_owner = snprintf_into POLL_NAME_LEN (ve_owner e),
      np_voters = map copy_voter (take MAX_NAMED_VOTERS (ve_voters e))\<rparr>"

text \<open>A complete file replaces the polls of the host.\<close>

definition host_vote_state_load :: "poll_host \<Rightarrow> poll_host" where
  "host_vote_state_load h =
     (case vote_file h of None \<Rightarrow> h
      | Some f \<Rightarrow>
          let loaded = map import_named_poll (take MAX_NAMED_POLLS (vf_named f))
          in host_recount_named_polls_locked
               (h\<lparr>main_poll := vote_state_import_poll_entry (vf_main f),
                  named_polls := loaded @ map named_poll_reset (drop (length loaded) (named_polls h))\<rparr>))"

section \<open>Preferences\<close>

definition pref_exact :: "cstr \<Rightarrow> cstr \<Rightarrow> poll_preference \<Rightarrow> bool" where
  "pref_exact username ip p \<longleftrightarrow>
     strncmp_eq POLL_NAME_LEN (pref_username p) username \<and>
     (pref_ip p \<noteq> [] \<and> ip \<noteq> [] \<and> strncmp_eq 64 (pref_ip p) ip \<or> ip = [] \<and> pref_ip p = [])"

definition host_find_preference_locked :: "poll_preference list \<Rightarrow> cstr \<Rightarrow> cstr \<Rightarrow> nat option" where
  "host_find_preference_locked ps username ip =
     (if username = [] then None
      else case first_index (pref_exact username ip) ps of
             Some i \<Rightarrow> Some i
           | None \<Rightarrow> first_index (\<lambda>p. strncmp_eq POLL_NAME_LEN (pref_username p) username) ps)"

definition host_ensure_preference_locked ::
    "cstr \<Rightarrow> cstr \<Rightarrow> poll_preference list \<Rightarrow> (nat \<times> poll_preference list) option" where
  "host_ensure_preference_locked username ip ps =
     (let existing = host_find_preference_locked ps username ip
      in if username = [] then None
         else if existing \<noteq> None \<and> (ip = [] \<or> pref_ip (ps ! the existing) \<noteq> []) then Some (the existing, ps)
         else if length ps < MAX_PREFERENCES
         then Some (length ps, ps @ [\<lparr>pref_username = snprintf_into POLL_NAME_LEN username,
                                      pref_ip = snprintf_into 64 ip, last_poll_id = 0, last_poll_choice = -1\<rparr>])
         else map_option (\<lambda>i. (i, ps)) existing)"

section \<open>Starting and closing polls\<close>

text \<open>The options after the question: at most five, none of them blank.\<close>

fun parse_options :: "nat \<Rightarrow> cstr list \<Rightarrow> cstr + cstr list" where
  "parse_options count [] = Inr []"
| "parse_options count (token # tokens) =
     (if count \<ge> 5 then Inl ''You may only provide up to 5 options.''
      else if c_trim token = [] then Inl ''Poll options may not be empty.''
      else case parse_options (count + 1) tokens of
             Inl e \<Rightarrow> Inl e
           | Inr opts \<Rightarrow> Inr (snprintf_into POLL_TEXT_LEN (c_trim token) # opts))"

definition question_missing :: cstr where
  "question_missing = ''Provide a question and at least two options separated by '' @ [CHR 0x27, CHR ''|'', CHR 0x27, CHR ''.'']"

definition session_poll_parse_fields :: "cstr \<Rightarrow> cstr + cstr \<times> cstr list" where
  "session_poll_parse_fields input =
     (case strtok_all (\<lambda>c. c = CHR ''|'') (snprintf_into POLL_INPUT_LEN input) of
        [] \<Rightarrow> Inl question_missing
      | token # tokens \<Rightarrow>
          if c_trim token = [] then Inl question_missing
          else case parse_options 0 tokens of
                 Inl e \<Rightarrow> Inl e
               | Inr opts \<Rightarrow>
                   if length opts < 2
                   then Inl (''Provide at least two options separated by '' @ [CHR 0x27, CHR ''|'', CHR 0x27, CHR ''.''])
                   else Inr (snprintf_into POLL_TEXT_LEN (c_trim token), opts))"

definition next_poll_id :: "nat \<Rightarrow> nat" where
  "next_poll_id i = (let n = (i + 1) mod 2 ^ 64 in if n = 0 then 1 else n)"

text \<open>A poll that has been reset and started with a question and options.\<close>

definition started_poll :: "bool \<Rightarrow> cstr \<Rightarrow> cstr list \<Rightarrow> poll_state \<Rightarrow> poll_state" where
  "started_poll multiple question opts p =
     (poll_state_reset p)
       \<lparr>p_active := True, p_allow_multiple := multiple, p_id := next_poll_id (p_id p),
        p_option_count := length opts, p_question := snprintf_into POLL_TEXT_LEN question,
        p_options := map (\<lambda>t. \<lparr>po_text = snprintf_into POLL_TEXT_LEN t, po_votes = 0\<rparr>) opts @
          replicate (5 - length opts) no_option\<rparr>"

definition says_close :: "cstr \<Rightarrow> bool" where
  "says_close s \<longleftrightarrow> strcasecmp_eq s ''close'' \<or> strcasecmp_eq s ''end'' \<or> strcasecmp_eq s ''stop'' \<or>
     strcasecmp_eq s ''off''"

definition session_handle_poll :: "bool \<Rightarrow> poll_user \<Rightarrow> cstr \<Rightarrow> poll_host \<Rightarrow> poll_host \<times> poll_reply list" where
  "session_handle_poll writable u arguments h =
     (let working = c_trim (snprintf_into POLL_INPUT_LEN arguments)
      in if working = [] \<or> strcasecmp_eq working ''list'' \<or> strcasecmp_eq working ''status''
         then (h, [PollSummary (main_poll h) None])
         else if says_close working
         then if \<not> pu_operator u then (h, [PollLine ''Only operators may close global polls.''])
              else if p_active (main_poll h)
              then (host_vote_state_save_locked writable (h\<lparr>main_poll := (main_poll h)\<lparr>p_active := False\<rparr>\<rparr>),
                    [PollNotice (''* ['' @ pu_name u @ ''] closed the main poll.''), PollLine ''Poll closed.''])
              else (h, [PollLine ''No active poll to close.''])
         else if \<not> pu_operator u then (h, [PollLine ''Only operators may start global polls.''])
         else case session_poll_parse_fields working of
                Inl e \<Rightarrow> (h, [PollLine e])
              | Inr (question, opts) \<Rightarrow>
                  let h = host_vote_state_save_locked writable
                            (h\<lparr>main_poll := started_poll False question opts (main_poll h)\<rparr>)
                  in (h, [PollNotice (''* ['' @ take 255 (pu_name u) @ ''] started a poll: '' @ take 2048 question),
                          PollSummary (main_poll h) None]))"

text \<open>A named poll may be closed by an operator or the owner, and started under its label by
  them or when it is not active.\<close>

definition poll_controlled_by :: "poll_user \<Rightarrow> named_poll_state \<Rightarrow> bool" where
  "poll_controlled_by u p \<longleftrightarrow> pu_operator u \<or> strcasecmp_eq (np_owner p) (pu_name u)"

definition started_named_poll :: "bool \<Rightarrow> poll_user \<Rightarrow> cstr \<Rightarrow> cstr \<Rightarrow> cstr list \<Rightarrow> named_poll_state \<Rightarrow> named_poll_state" where
  "started_named_poll multiple u label question opts p =
     \<lparr>np_poll = started_poll multiple question opts (np_poll p), np_label = snprintf_into POLL_LABEL_LEN label,
      np_owner = snprintf_into POLL_NAME_LEN (pu_name u), np_voters = []\<rparr>"

definition label_refused :: cstr where
  "label_refused = ''Poll labels may only contain letters, numbers, '' @
     [CHR 0x27, CHR ''-'', CHR 0x27] @ '' or '' @ [CHR 0x27, CHR ''_'', CHR 0x27, CHR ''.'']"

definition vote_close :: "bool \<Rightarrow> poll_user \<Rightarrow> cstr \<Rightarrow> poll_host \<Rightarrow> poll_host \<times> poll_reply list" where
  "vote_close writable u label h =
     (case host_find_named_poll_locked h label of
        None \<Rightarrow> (h, [PollLine (''No poll found for label '' @ [CHR 0x27] @ label @ [CHR 0x27, CHR ''.''])])
      | Some i \<Rightarrow>
          let p = named_polls h ! i
          in if \<not> poll_controlled_by u p
             then (h, [PollLine ''Only the poll owner or an operator may close this poll.''])
             else if \<not> p_active (np_poll p) then (h, [PollLine ''That poll is not active.''])
             else (host_vote_state_save_locked writable (host_recount_named_polls_locked
                     (h\<lparr>named_polls := (named_polls h)[i := p\<lparr>np_poll := (np_poll p)\<lparr>p_active := False\<rparr>\<rparr>]\<rparr>)),
                   [PollNotice (''* ['' @ pu_name u @ ''] closed poll ['' @ label @ ''].''), PollLine ''Poll closed.'']))"

definition vote_start ::
    "bool \<Rightarrow> bool \<Rightarrow> poll_user \<Rightarrow> cstr \<Rightarrow> cstr \<Rightarrow> cstr list \<Rightarrow> poll_host \<Rightarrow> poll_host \<times> poll_reply list" where
  "vote_start writable multiple u label question opts h =
     (let refused = [PollLine (''Unable to start that poll. Another active '' @
                       ''poll owns the label or the poll limit has '' @ ''been reached.'')]
      in case host_ensure_named_poll_locked h label of
           None \<Rightarrow> (h, refused)
         | Some (i, h) \<Rightarrow>
             let p = named_polls h ! i
             in if p_active (np_poll p) \<and> \<not> poll_controlled_by u p then (h, refused)
                else let p' = started_named_poll multiple u label question opts p;
                         h = host_vote_state_save_locked writable (host_recount_named_polls_locked
                               (h\<lparr>named_polls := (named_polls h)[i := p']\<rparr>))
                     in (h, [PollNotice (''* ['' @ take 255 (pu_name u) @ ''] started poll ['' @ take 31 label @
                                        '']: '' @ take 2048 question),
                             PollSummary (np_poll p') (Some (np_label p'))]))"

definition session_handle_vote_command ::
    "bool \<Rightarrow> bool \<Rightarrow> poll_user \<Rightarrow> cstr \<Rightarrow> poll_host \<Rightarrow> poll_host \<times> poll_reply list" where
  "session_handle_vote_command writable multiple u arguments h =
     (let working = c_trim (snprintf_into POLL_INPUT_LEN arguments);
          blank = (\<lambda>c. c = CHR '' '' \<or> c = CHR 0x09);
          start = dropWhile blank working;
          token = takeWhile (\<lambda>c. \<not> blank c) start;
          label = c_trim token;
          remainder = c_trim (drop 1 (dropWhile (\<lambda>c. \<not> blank c) start))
      in if working = [] then (h, [PollList])
         else if token = [] then (h, [PollUsage (if multiple then ''/vote'' else ''/vote-single'')])
         else if strcasecmp_eq token ''list'' then (h, [PollList])
         else if \<not> poll_label_is_valid label then (h, [PollLine label_refused])
         else if remainder = []
         then case host_find_named_poll_locked h label of
                None \<Rightarrow> (h, [PollLine (''No poll found for label '' @ [CHR 0x27] @ label @ [CHR 0x27, CHR ''.''])])
              | Some i \<Rightarrow> (h, [PollSummary (np_poll (named_polls h ! i)) (Some (np_label (named_polls h ! i)))])
         else if says_close remainder then vote_close writable u label h
         else case session_poll_parse_fields remainder of
                Inl e \<Rightarrow> (h, [PollLine e])
              | Inr (question, opts) \<Rightarrow> vote_start writable multiple u label question opts h)"

section \<open>Voting\<close>

definition add_vote :: "nat \<Rightarrow> poll_state \<Rightarrow> poll_state" where
  "add_vote k p = p\<lparr>p_options := (p_options p)
     [k := (p_options p ! k)\<lparr>po_votes := uint_add (po_votes (p_options p ! k)) 1\<rparr>]\<rparr>"

definition take_vote :: "nat \<Rightarrow> poll_state \<Rightarrow> poll_state" where
  "take_vote k p =
     (if po_votes (p_options p ! k) > 0
      then p\<lparr>p_options := (p_options p)[k := (p_options p ! k)\<lparr>po_votes := po_votes (p_options p ! k) - 1\<rparr>]\<rparr>
      else p)"

definition vote_recorded :: "nat \<Rightarrow> cstr" where
  "vote_recorded k = ''Vote recorded for option '' @ dec_str (k + 1) @ ''.''"

definition vote_removed :: "nat \<Rightarrow> cstr" where
  "vote_removed k = ''Removed your vote for option '' @ dec_str (k + 1) @ ''.''"

text \<open>A vote in the main poll, given the preference of the voter; \<open>None\<close> where it is the
  vote he has given already.  The choices of a poll with several are a mask in the same
  field.\<close>

definition main_vote :: "nat \<Rightarrow> poll_state \<Rightarrow> poll_preference \<Rightarrow> (poll_state \<times> poll_preference \<times> cstr) option" where
  "main_vote k poll pref0 =
     (let pref = (if last_poll_id pref0 \<noteq> p_id poll
                  then pref0\<lparr>last_poll_id := p_id poll, last_poll_choice := -1\<rparr> else pref0);
          previous = last_poll_choice pref
      in if p_allow_multiple poll
         then let m = (if previous < 0 then 0 else word_of_int previous) :: 32 word;
                  m' = (if bit m k then unset_bit k m else set_bit k m)
              in Some (if bit m k then take_vote k poll else add_vote k poll,
                       pref\<lparr>last_poll_choice := (if m' = 0 then -1 else sint m'), last_poll_id := p_id poll\<rparr>,
                       if bit m k then vote_removed k else vote_recorded k)
         else if previous = int k then None
         else Some (add_vote k (if previous \<ge> 0 \<and> nat previous < p_option_count poll
                                then take_vote (nat previous) poll else poll),
                    pref\<lparr>last_poll_choice := int k, last_poll_id := p_id poll\<rparr>, vote_recorded k))"

definition session_handle_vote :: "bool \<Rightarrow> poll_user \<Rightarrow> nat \<Rightarrow> poll_host \<Rightarrow> poll_host \<times> poll_reply list" where
  "session_handle_vote writable u k h =
     (let poll = main_poll h
      in if \<not> p_active poll \<or> p_option_count poll = 0 then (h, [PollLine ''No active poll right now.''])
         else if k \<ge> p_option_count poll then (h, [PollLine ''That poll option does not exist.''])
         else case host_ensure_preference_locked (pu_name u) (pu_ip u) (preferences h) of
                None \<Rightarrow> (h, [PollLine ''Unable to record your vote.''])
              | Some (i, ps) \<Rightarrow>
                  (case main_vote k poll (ps ! i) of
                     None \<Rightarrow>
                       (h\<lparr>preferences := ps[i := if last_poll_id (ps ! i) \<noteq> p_id poll
                             then (ps ! i)\<lparr>last_poll_id := p_id poll, last_poll_choice := -1\<rparr> else ps ! i]\<rparr>,
                        [PollLine ''You have already voted for that option.''])
                   | Some (poll', pref', response) \<Rightarrow>
                       (host_vote_state_save_locked writable
                          (h\<lparr>main_poll := poll', preferences := ps[i := pref']\<rparr>), [PollLine response])))"

text \<open>A vote in a named poll: the poll after it, or \<open>None\<close>, and the answer.\<close>

definition new_voter :: "cstr \<Rightarrow> nat \<Rightarrow> 32 word \<Rightarrow> poll_voter" where
  "new_voter name k m = \<lparr>v_username = snprintf_into POLL_NAME_LEN name, v_choice = int k, v_choices_mask = m\<rparr>"

definition remove_voter :: "nat \<Rightarrow> poll_voter list \<Rightarrow> poll_voter list" where
  "remove_voter i vs = take i vs @ drop (Suc i) vs"

definition named_vote_multiple :: "cstr \<Rightarrow> nat \<Rightarrow> named_poll_state \<Rightarrow> named_poll_state option \<times> cstr" where
  "named_vote_multiple name k p =
     (case first_index (\<lambda>v. strcasecmp_eq (v_username v) name) (np_voters p) of
        Some i \<Rightarrow>
          let v = np_voters p ! i; m = v_choices_mask v
          in if bit m k
             then (Some (p\<lparr>np_poll := take_vote k (np_poll p),
                           np_voters := (if unset_bit k m = 0 then remove_voter i (np_voters p)
                             else (np_voters p)[i := v\<lparr>v_choices_mask := unset_bit k m, v_choice := int k\<rparr>])\<rparr>),
                   vote_removed k)
             else (Some (p\<lparr>np_poll := add_vote k (np_poll p),
                           np_voters := (np_voters p)[i := v\<lparr>v_choices_mask := set_bit k m, v_choice := int k\<rparr>]\<rparr>),
                   vote_recorded k)
      | None \<Rightarrow>
          if length (np_voters p) \<ge> MAX_NAMED_VOTERS then (None, ''That poll has reached its voter limit.'')
          else (Some (p\<lparr>np_poll := add_vote k (np_poll p),
                        np_voters := np_voters p @ [new_voter name k (set_bit k 0)]\<rparr>), vote_recorded k))"

definition named_vote_single :: "cstr \<Rightarrow> nat \<Rightarrow> named_poll_state \<Rightarrow> named_poll_state option \<times> cstr" where
  "named_vote_single name k p =
     (case first_index (\<lambda>v. strcasecmp_eq (v_username v) name) (np_voters p) of
        Some i \<Rightarrow>
          let v = np_voters p ! i; previous = v_choice v
          in if previous = int k then (None, ''You have already voted for that option.'')
             else (Some (p\<lparr>np_poll := add_vote k
                             (if previous \<ge> 0 \<and> nat previous < p_option_count (np_poll p)
                              then take_vote (nat previous) (np_poll p) else np_poll p),
                           np_voters := (np_voters p)[i := v\<lparr>v_choice := int k, v_choices_mask := 0\<rparr>]\<rparr>),
                   vote_recorded k)
      | None \<Rightarrow>
          if length (np_voters p) \<ge> MAX_NAMED_VOTERS then (None, ''That poll has reached its voter limit.'')
          else (Some (p\<lparr>np_poll := add_vote k (np_poll p),
                        np_voters := np_voters p @ [new_voter name k 0]\<rparr>), vote_recorded k))"

definition named_vote :: "cstr \<Rightarrow> nat \<Rightarrow> named_poll_state \<Rightarrow> named_poll_state option \<times> cstr" where
  "named_vote name k p =
     (if p_allow_multiple (np_poll p) then named_vote_multiple name k p else named_vote_single name k p)"

definition session_handle_named_vote ::
    "bool \<Rightarrow> poll_user \<Rightarrow> nat \<Rightarrow> cstr \<Rightarrow> poll_host \<Rightarrow> poll_host \<times> poll_reply list" where
  "session_handle_named_vote writable u k label h =
     (let normalized = c_trim (snprintf_into POLL_LABEL_LEN label)
      in if label = [] then (h, [])
         else if \<not> poll_label_is_valid normalized then (h, [PollLine label_refused])
         else case host_find_named_poll_locked h normalized of
                None \<Rightarrow> (h, [PollLine ''That poll is not active.''])
              | Some i \<Rightarrow>
                  let p = named_polls h ! i
                  in if \<not> p_active (np_poll p) \<or> p_option_count (np_poll p) = 0
                     then (h, [PollLine ''That poll is not active.''])
                     else if k \<ge> p_option_count (np_poll p)
                     then (h, [PollLine ''That poll option does not exist.''])
                     else case named_vote (pu_name u) k p of
                            (None, answer) \<Rightarrow> (h, [PollLine answer])
                          | (Some p', answer) \<Rightarrow>
                              (host_vote_state_save_locked writable
                                 (h\<lparr>named_polls := (named_polls h)[i := p']\<rparr>), [PollLine answer]))"

definition session_handle_elect_command ::
    "bool \<Rightarrow> poll_user \<Rightarrow> cstr \<Rightarrow> poll_host \<Rightarrow> poll_host \<times> poll_reply list" where
  "session_handle_elect_command writable u arguments h =
     (let working = c_trim (snprintf_into POLL_INPUT_LEN arguments)
      in case strtok_all (\<lambda>c. c = CHR '' '' \<or> c = CHR 0x09) working of
           label # choice_text # _ \<Rightarrow>
             if \<not> poll_label_is_valid (c_trim label) then (h, [PollLine label_refused])
             else (case strtoul choice_text of
                     (choice, _, read) \<Rightarrow>
                       if \<not> read \<or> choice = 0 then (h, [PollUsage ''/elect''])
                       else session_handle_named_vote writable u (choice - 1) (c_trim label) h)
         | _ \<Rightarrow> (h, [PollUsage ''/elect'']))"

text \<open>A line of a slash and a number: a vote in the main poll, or with a label in a named one;
  \<open>None\<close> where the line is something else.\<close>

definition session_vote_line ::
    "bool \<Rightarrow> poll_user \<Rightarrow> cstr \<Rightarrow> poll_host \<Rightarrow> (poll_host \<times> poll_reply list) option" where
  "session_vote_line writable u line h =
     (if line = [] \<or> hd line \<noteq> CHR ''/'' \<or> tl line = [] \<or> \<not> c_isdigit (hd (tl line)) then None
      else case strtoul_digits (tl line) of
             (index, rest) \<Rightarrow>
               let rest = dropWhile (\<lambda>c. c = CHR '' '' \<or> c = CHR 0x09) rest;
                   label = takeWhile (\<lambda>c. \<not> c_isspace c) rest
               in if index < 1 \<or> index > 5 then None
                  else if rest = [] then Some (session_handle_vote writable u (index - 1) h)
                  else if label = [] \<or> length label + 1 > POLL_LABEL_LEN then None
                  else Some (session_handle_named_vote writable u (index - 1) label h))"

section \<open>The polls of a new host\<close>

definition zero_poll :: poll_state where
  "zero_poll = \<lparr>p_active = False, p_id = 0, p_question = [], p_option_count = 0, p_options = replicate 5 no_option,
     p_allow_multiple = False\<rparr>"

definition host_polls_init :: poll_host where
  "host_polls_init =
     \<lparr>main_poll = poll_state_reset zero_poll,
      named_polls = replicate MAX_NAMED_POLLS
        (named_poll_reset \<lparr>np_poll = zero_poll, np_label = [], np_owner = [], np_voters = []\<rparr>),
      named_poll_count = 0, preferences = [], vote_file = None\<rparr>"

end
