(* ===== verification/Poll_Tally.thy ===== *)
theory Poll_Tally
  imports Polls
begin

text \<open>
  What holds of the polls: the votes of every option are the number of voters who have
  chosen it, a voter is counted once, polls are in the hands of their owners and the
  operators, and the file of votes gives the polls back.
\<close>

section \<open>Counting\<close>

lemma length_filter_update:
  assumes "i < length xs"
  shows "length (filter P (xs[i := y])) + (if P (xs ! i) then 1 else 0) =
     length (filter P xs) + (if P y then 1 else 0)"
proof -
  have "filter P xs = filter P (take i xs) @ filter P [xs ! i] @ filter P (drop (Suc i) xs)"
    using arg_cong [OF id_take_nth_drop [OF assms], of "filter P"] by simp
  then show ?thesis using assms by (simp add: upd_conv_take_nth_drop)
qed

lemma length_filter_remove:
  assumes "i < length xs"
  shows "length (filter P (remove_voter i xs)) + (if P (xs ! i) then 1 else 0) = length (filter P xs)"
proof -
  have "filter P xs = filter P (take i xs) @ filter P [xs ! i] @ filter P (drop (Suc i) xs)"
    using arg_cong [OF id_take_nth_drop [OF assms], of "filter P"] by simp
  then show ?thesis by (simp add: remove_voter_def)
qed

definition votes :: "poll_state \<Rightarrow> nat \<Rightarrow> nat" where
  "votes p k = po_votes (p_options p ! k)"

lemma votes_add:
  assumes "k < length (p_options p)" "votes p k < UINT_MAX"
  shows "votes (add_vote k p) j = (if j = k then Suc (votes p k) else votes p j)"
proof -
  have "uint_add (votes p k) 1 = votes p k + 1" using assms(2) by (intro uint_add_small) simp
  then show ?thesis using assms(1) by (simp add: add_vote_def votes_def nth_list_update)
qed

lemma votes_take:
  assumes "k < length (p_options p)"
  shows "votes (take_vote k p) j = (if j = k then votes p k - 1 else votes p j)"
  using assms by (simp add: take_vote_def votes_def nth_list_update)

lemma vote_fields [simp]:
  "length (p_options (add_vote k p)) = length (p_options p)" "length (p_options (take_vote k p)) = length (p_options p)"
  "p_option_count (add_vote k p) = p_option_count p" "p_option_count (take_vote k p) = p_option_count p"
  "p_allow_multiple (add_vote k p) = p_allow_multiple p" "p_allow_multiple (take_vote k p) = p_allow_multiple p"
  "p_active (add_vote k p) = p_active p" "p_active (take_vote k p) = p_active p"
  "p_question (add_vote k p) = p_question p" "p_question (take_vote k p) = p_question p"
  "p_id (add_vote k p) = p_id p" "p_id (take_vote k p) = p_id p"
  by (simp_all add: add_vote_def take_vote_def)

section \<open>Named polls\<close>

definition chose :: "bool \<Rightarrow> nat \<Rightarrow> poll_voter \<Rightarrow> bool" where
  "chose multiple k v \<longleftrightarrow> (if multiple then bit (v_choices_mask v) k else v_choice v = int k)"

definition tallied :: "poll_state \<Rightarrow> poll_voter list \<Rightarrow> bool" where
  "tallied p vs \<longleftrightarrow> (\<forall>k<5. votes p k = length (filter (chose (p_allow_multiple p) k) vs))"

text \<open>The options a voter may have chosen, and that he has chosen one.\<close>

definition voter_ok :: "poll_state \<Rightarrow> poll_voter \<Rightarrow> bool" where
  "voter_ok p v \<longleftrightarrow>
     (if p_allow_multiple p then v_choices_mask v \<noteq> 0 \<and> (\<forall>k. bit (v_choices_mask v) k \<longrightarrow> k < p_option_count p)
      else 0 \<le> v_choice v \<and> v_choice v < int (p_option_count p))"

definition voter_names :: "poll_voter list \<Rightarrow> cstr list" where
  "voter_names vs = map (\<lambda>v. map c_tolower (v_username v)) vs"

definition named_ok :: "named_poll_state \<Rightarrow> bool" where
  "named_ok p \<longleftrightarrow> length (p_options (np_poll p)) = 5 \<and> p_option_count (np_poll p) \<le> 5 \<and>
     length (np_voters p) \<le> MAX_NAMED_VOTERS \<and> distinct (voter_names (np_voters p)) \<and>
     tallied (np_poll p) (np_voters p) \<and> list_all (voter_ok (np_poll p)) (np_voters p)"

lemma named_okD:
  assumes "named_ok p"
  shows "length (p_options (np_poll p)) = 5" "p_option_count (np_poll p) \<le> 5" "length (np_voters p) \<le> 256"
    "distinct (voter_names (np_voters p))" "tallied (np_poll p) (np_voters p)"
    "v \<in> set (np_voters p) \<Longrightarrow> voter_ok (np_poll p) v"
  using assms by (auto simp: named_ok_def MAX_NAMED_VOTERS_def list_all_iff)

lemma votes_bound:
  assumes "named_ok p" "k < 5"
  shows "votes (np_poll p) k < UINT_MAX"
proof -
  have "votes (np_poll p) k \<le> length (np_voters p)"
    using named_okD(5) [OF assms(1)] assms(2) by (simp add: tallied_def)
  then show ?thesis using named_okD(3) [OF assms(1)] by (simp add: UINT_MAX_def)
qed

text \<open>What votes do not change.\<close>

definition same_terms :: "named_poll_state \<Rightarrow> named_poll_state \<Rightarrow> bool" where
  "same_terms p p' \<longleftrightarrow> np_label p' = np_label p \<and> np_owner p' = np_owner p \<and>
     p_active (np_poll p') = p_active (np_poll p) \<and> p_question (np_poll p') = p_question (np_poll p) \<and>
     p_id (np_poll p') = p_id (np_poll p) \<and>
     p_allow_multiple (np_poll p') = p_allow_multiple (np_poll p) \<and>
     p_option_count (np_poll p') = p_option_count (np_poll p)"

lemma voter_ok_terms: "same_terms p p' \<Longrightarrow> voter_ok (np_poll p') = voter_ok (np_poll p)"
  by (intro ext) (simp add: voter_ok_def same_terms_def)

text \<open>A poll in which one voter has changed his choice, a voter has come, or one has left.\<close>

lemma named_ok_change:
  assumes "named_ok p" "same_terms p p'" "length (p_options (np_poll p')) = 5" "i < length (np_voters p)"
    and "np_voters p' = (np_voters p)[i := v]" "v_username v = v_username (np_voters p ! i)" "voter_ok (np_poll p) v"
    and "\<And>k. k < 5 \<Longrightarrow> votes (np_poll p') k + (if chose (p_allow_multiple (np_poll p)) k (np_voters p ! i) then 1 else 0) =
        votes (np_poll p) k + (if chose (p_allow_multiple (np_poll p)) k v then 1 else 0)"
  shows "named_ok p'"
proof -
  note ok = named_okD [OF assms(1)]
  have "voter_names (np_voters p') = voter_names (np_voters p)"
    using assms(4,6) by (simp add: voter_names_def assms(5) map_update list_update_same_conv)
  moreover have "tallied (np_poll p') (np_voters p')"
    unfolding tallied_def
  proof (intro allI impI)
    fix k :: nat
    assume "k < 5"
    then show "votes (np_poll p') k = length (filter (chose (p_allow_multiple (np_poll p')) k) (np_voters p'))"
      using assms(8) [of k] ok(5) assms(2)
        length_filter_update [OF assms(4), of "chose (p_allow_multiple (np_poll p)) k" v]
      by (simp add: assms(5) tallied_def same_terms_def split: if_splits)
  qed
  moreover have "list_all (voter_ok (np_poll p')) (np_voters p')"
    using voter_ok_terms [OF assms(2)] ok(6) assms(7) set_update_subset_insert [of "np_voters p" i v]
    by (auto simp: list_all_iff assms(5))
  ultimately show ?thesis using assms(2,3) ok by (simp add: named_ok_def same_terms_def assms(5) MAX_NAMED_VOTERS_def)
qed

lemma named_ok_join:
  assumes "named_ok p" "same_terms p p'" "length (p_options (np_poll p')) = 5" "length (np_voters p) < MAX_NAMED_VOTERS"
    and "np_voters p' = np_voters p @ [v]" "map c_tolower (v_username v) \<notin> set (voter_names (np_voters p))"
    and "voter_ok (np_poll p) v"
    and "\<And>k. k < 5 \<Longrightarrow> votes (np_poll p') k =
        votes (np_poll p) k + (if chose (p_allow_multiple (np_poll p)) k v then 1 else 0)"
  shows "named_ok p'"
  using named_okD [OF assms(1)] assms(2-8) voter_ok_terms [OF assms(2)]
  by (auto simp: named_ok_def same_terms_def tallied_def list_all_iff voter_names_def)

lemma named_ok_leave:
  assumes "named_ok p" "same_terms p p'" "length (p_options (np_poll p')) = 5" "i < length (np_voters p)"
    and "np_voters p' = remove_voter i (np_voters p)"
    and "\<And>k. k < 5 \<Longrightarrow> votes (np_poll p') k + (if chose (p_allow_multiple (np_poll p)) k (np_voters p ! i) then 1 else 0) =
        votes (np_poll p) k"
  shows "named_ok p'"
proof -
  note ok = named_okD [OF assms(1)]
  have sub: "set (np_voters p') \<subseteq> set (np_voters p)" "length (np_voters p') \<le> length (np_voters p)"
    using set_take_subset [of i "np_voters p"] set_drop_subset [of "Suc i" "np_voters p"]
    by (auto simp: assms(5) remove_voter_def)
  have "np_voters p = take i (np_voters p) @ np_voters p ! i # drop (Suc i) (np_voters p)"
    using id_take_nth_drop [OF assms(4)] .
  then have "distinct (voter_names (take i (np_voters p) @ np_voters p ! i # drop (Suc i) (np_voters p)))"
    using ok(4) by simp
  then have "distinct (voter_names (np_voters p'))"
    by (auto simp: voter_names_def assms(5) remove_voter_def)
  moreover have "tallied (np_poll p') (np_voters p')"
    unfolding tallied_def
  proof (intro allI impI)
    fix k :: nat
    assume "k < 5"
    then show "votes (np_poll p') k = length (filter (chose (p_allow_multiple (np_poll p')) k) (np_voters p'))"
      using assms(6) [of k] ok(5) assms(2) length_filter_remove [OF assms(4), of "chose (p_allow_multiple (np_poll p)) k"]
      by (simp add: assms(5) tallied_def same_terms_def split: if_splits)
  qed
  ultimately show ?thesis using assms(2,3) ok sub voter_ok_terms [OF assms(2)]
    by (auto simp: named_ok_def same_terms_def list_all_iff MAX_NAMED_VOTERS_def)
qed

section \<open>A vote in a named poll\<close>

lemma find_voter:
  assumes "first_index (\<lambda>v. strcasecmp_eq (v_username v) name) vs = Some i"
  shows "i < length vs" "strcasecmp_eq (v_username (vs ! i)) name" "vs ! i \<in> set vs"
  using assms by (auto simp: first_index_Some)

lemma no_voter:
  assumes "first_index (\<lambda>v. strcasecmp_eq (v_username v) name) vs = None" "length name < POLL_NAME_LEN"
  shows "map c_tolower (v_username (new_voter name k m)) \<notin> set (voter_names vs)"
proof -
  have "\<forall>v\<in>set vs. \<not> strcasecmp_eq (v_username v) name" using assms(1) by (simp add: first_index_None)
  then show ?thesis using assms(2) by (auto simp: voter_names_def new_voter_def strcasecmp_eq_def)
qed

lemma set_bit_nonzero:
  assumes "k < 5"
  shows "set_bit k m \<noteq> (0 :: 32 word)"
proof
  assume "set_bit k m = 0"
  moreover have "bit (set_bit k m) k" using assms by (simp add: bit_simps)
  ultimately show False by simp
qed

lemma counted:
  assumes "named_ok p" "v \<in> set (np_voters p)" "chose (p_allow_multiple (np_poll p)) k v" "k < 5"
  shows "0 < votes (np_poll p) k"
  using named_okD(5) [OF assms(1)] assms(2-4) length_pos_if_in_set [of v "filter (chose (p_allow_multiple (np_poll p)) k) (np_voters p)"]
  by (simp add: tallied_def)

lemma join_vote_ok:
  assumes "named_ok p" "k < p_option_count (np_poll p)" "length name < POLL_NAME_LEN"
    and "first_index (\<lambda>v. strcasecmp_eq (v_username v) name) (np_voters p) = None"
    and "length (np_voters p) < MAX_NAMED_VOTERS" "m = (if p_allow_multiple (np_poll p) then set_bit k 0 else 0)"
  defines "p' \<equiv> p\<lparr>np_poll := add_vote k (np_poll p), np_voters := np_voters p @ [new_voter name k m]\<rparr>"
  shows "named_ok p' \<and> same_terms p p'"
proof -
  have k: "k < 5" using assms(2) named_okD(2) [OF assms(1)] by simp
  have terms: "same_terms p p'" by (simp add: p'_def same_terms_def)
  have nz: "set_bit k 0 \<noteq> (0 :: 32 word)" using set_bit_nonzero [OF k] .
  have "named_ok p'"
  proof (rule named_ok_join [OF assms(1) terms _ assms(5), where v = "new_voter name k m"])
    show "voter_ok (np_poll p) (new_voter name k m)"
      using assms(2,6) nz by (auto simp: voter_ok_def new_voter_def bit_simps)
    show "votes (np_poll p') j = votes (np_poll p) j +
        (if chose (p_allow_multiple (np_poll p)) j (new_voter name k m) then 1 else 0)" if "j < 5" for j
      using k that assms(6) votes_bound [OF assms(1) k] named_okD(1) [OF assms(1)]
      by (auto simp: p'_def votes_add chose_def new_voter_def bit_simps)
  qed (use named_okD(1) [OF assms(1)] no_voter [OF assms(4,3)] in \<open>simp_all add: p'_def\<close>)
  then show ?thesis using terms by blast
qed

text \<open>A known voter of a poll with several choices drops his last choice, drops one of several,
  or adds one.\<close>

lemma drop_last_ok:
  assumes "named_ok p" "p_allow_multiple (np_poll p)" "k < 5" "i < length (np_voters p)"
    and "bit (v_choices_mask (np_voters p ! i)) k" "unset_bit k (v_choices_mask (np_voters p ! i)) = 0"
  defines "p' \<equiv> p\<lparr>np_poll := take_vote k (np_poll p), np_voters := remove_voter i (np_voters p)\<rparr>"
  shows "named_ok p' \<and> same_terms p p'"
proof -
  have terms: "same_terms p p'" by (simp add: p'_def same_terms_def)
  have only: "bit (v_choices_mask (np_voters p ! i)) j = (j = k)" for j
    using assms(5) arg_cong [OF assms(6), of "\<lambda>w. bit w j"] by (auto simp: bit_simps)
  have "0 < votes (np_poll p) k"
    using counted [OF assms(1) nth_mem [OF assms(4)], of k] assms(2,3,5) by (simp add: chose_def)
  then have "named_ok p'"
    by (intro named_ok_leave [OF assms(1) terms _ assms(4)])
      (use named_okD(1) [OF assms(1)] assms(2,3) in \<open>simp_all add: p'_def votes_take chose_def only\<close>)
  then show ?thesis using terms by blast
qed

lemma toggle_choice_ok:
  assumes "named_ok p" "p_allow_multiple (np_poll p)" "k < p_option_count (np_poll p)" "i < length (np_voters p)"
  defines "v \<equiv> np_voters p ! i"
  defines "m \<equiv> v_choices_mask v"
  defines "m' \<equiv> (if bit m k then unset_bit k m else set_bit k m)"
  defines "p' \<equiv> p\<lparr>np_poll := (if bit m k then take_vote k (np_poll p) else add_vote k (np_poll p)),
     np_voters := (np_voters p)[i := v\<lparr>v_choices_mask := m', v_choice := int k\<rparr>]\<rparr>"
  assumes "m' \<noteq> 0"
  shows "named_ok p' \<and> same_terms p p'"
proof -
  have k: "k < 5" using assms(3) named_okD(2) [OF assms(1)] by simp
  have terms: "same_terms p p'" by (simp add: p'_def same_terms_def)
  have v: "v \<in> set (np_voters p)" using assms(4) by (simp add: v_def)
  have vok: "\<And>j. bit m j \<Longrightarrow> j < p_option_count (np_poll p)"
    using named_okD(6) [OF assms(1) v] assms(2) by (simp add: voter_ok_def m_def)
  have bits: "bit m' j = (if j = k then \<not> bit m k else bit m j)" for j
    using k by (auto simp: m'_def bit_simps)
  have pos: "bit m k \<Longrightarrow> 0 < votes (np_poll p) k"
    using counted [OF assms(1) v _ k] assms(2) by (simp add: chose_def m_def)
  have "named_ok p'"
  proof (rule named_ok_change [OF assms(1) terms _ assms(4)])
    show "np_voters p' = (np_voters p)[i := v\<lparr>v_choices_mask := m', v_choice := int k\<rparr>]" by (simp add: p'_def)
    show "voter_ok (np_poll p) (v\<lparr>v_choices_mask := m', v_choice := int k\<rparr>)"
      using assms(2,3,9) vok bits by (auto simp: voter_ok_def split: if_splits)
    show "votes (np_poll p') j + (if chose (p_allow_multiple (np_poll p)) j (np_voters p ! i) then 1 else 0) =
        votes (np_poll p) j + (if chose (p_allow_multiple (np_poll p)) j (v\<lparr>v_choices_mask := m', v_choice := int k\<rparr>) then 1 else 0)"
      if "j < 5" for j
      using assms(2) k pos named_okD(1) [OF assms(1)] votes_bound [OF assms(1) k]
      by (auto simp: p'_def votes_add votes_take chose_def bits v_def [symmetric] m_def [symmetric])
  qed (use named_okD(1) [OF assms(1)] in \<open>simp_all add: p'_def v_def\<close>)
  then show ?thesis using terms by blast
qed

lemma multiple_vote_ok:
  assumes "named_ok p" "p_allow_multiple (np_poll p)" "k < p_option_count (np_poll p)" "length name < POLL_NAME_LEN"
    and "named_vote_multiple name k p = (Some p', answer)"
  shows "named_ok p' \<and> same_terms p p'"
proof (cases "first_index (\<lambda>v. strcasecmp_eq (v_username v) name) (np_voters p)")
  case None
  then show ?thesis using join_vote_ok [OF assms(1,3,4) None] assms(2,5)
    by (auto simp: named_vote_multiple_def split: if_splits)
next
  case (Some i)
  have k: "k < 5" using assms(3) named_okD(2) [OF assms(1)] by simp
  define m where "m = v_choices_mask (np_voters p ! i)"
  note i = find_voter [OF Some]
  have nz: "set_bit k m \<noteq> 0" using set_bit_nonzero [OF k] .
  show ?thesis
    using assms(5) Some drop_last_ok [OF assms(1,2) k i(1)] toggle_choice_ok [OF assms(1-3) i(1)] nz
    by (auto simp: named_vote_multiple_def Let_def m_def [symmetric] split: if_splits)
qed

lemma single_vote_ok:
  assumes "named_ok p" "\<not> p_allow_multiple (np_poll p)" "k < p_option_count (np_poll p)" "length name < POLL_NAME_LEN"
    and "named_vote_single name k p = (Some p', answer)"
  shows "named_ok p' \<and> same_terms p p'"
proof (cases "first_index (\<lambda>v. strcasecmp_eq (v_username v) name) (np_voters p)")
  case None
  then show ?thesis using join_vote_ok [OF assms(1,3,4) None] assms(2,5)
    by (auto simp: named_vote_single_def split: if_splits)
next
  case (Some i)
  have k: "k < 5" using assms(3) named_okD(2) [OF assms(1)] by simp
  note i = find_voter [OF Some]
  define v where "v = np_voters p ! i"
  define q where "q = nat (v_choice v)"
  have q: "v_choice v = int q" "q < p_option_count (np_poll p)"
    using named_okD(6) [OF assms(1) i(3)] assms(2) by (simp_all add: voter_ok_def v_def q_def nat_less_iff)
  have q5: "q < 5" using q(2) named_okD(2) [OF assms(1)] by simp
  have p': "p' = p\<lparr>np_poll := add_vote k (take_vote q (np_poll p)),
      np_voters := (np_voters p)[i := v\<lparr>v_choice := int k, v_choices_mask := 0\<rparr>]\<rparr>" and ne: "q \<noteq> k"
    using assms(5) Some q by (auto simp: named_vote_single_def Let_def v_def [symmetric] split: if_splits)
  have terms: "same_terms p p'" by (simp add: p' same_terms_def)
  have pos: "0 < votes (np_poll p) q"
    using counted [OF assms(1) i(3) _ q5] assms(2) q(1) by (simp add: chose_def v_def)
  have bound: "votes (take_vote q (np_poll p)) k < UINT_MAX"
    using votes_bound [OF assms(1) k] named_okD(1) [OF assms(1)] q5 ne by (simp add: votes_take)
  have "named_ok p'"
    by (rule named_ok_change [OF assms(1) terms _ i(1), where v = "v\<lparr>v_choice := int k, v_choices_mask := 0\<rparr>"])
      (use named_okD(1) [OF assms(1)] assms(2,3) k q q5 ne pos bound in
        \<open>auto simp: p' votes_add votes_take chose_def voter_ok_def v_def [symmetric]\<close>)
  then show ?thesis using terms by blast
qed

lemma named_vote_ok:
  assumes "named_ok p" "k < p_option_count (np_poll p)" "length name < POLL_NAME_LEN"
    and "named_vote name k p = (Some p', answer)"
  shows "named_ok p' \<and> same_terms p p'"
  using assms multiple_vote_ok [OF assms(1) _ assms(2,3)] single_vote_ok [OF assms(1) _ assms(2,3)]
  by (simp add: named_vote_def split: if_splits)

end
