(* ===== verification/Poll_Host.thy ===== *)
theory Poll_Host
  imports Poll_Tally
begin

text \<open>
  The polls of a host under every sequence of commands: the table of named polls, the main
  poll and the preferences that hold its votes, the file of votes.
\<close>

section \<open>Commands as steps\<close>

text \<open>The last kind of event is a setting of a user that is stored with his preferences.\<close>

datatype poll_event =
    PollCommand bool poll_user cstr
  | VoteCommand bool bool poll_user cstr
  | ElectCommand bool poll_user cstr
  | VoteLine bool poll_user cstr
  | PreferenceStored cstr cstr

fun poll_step :: "poll_event \<Rightarrow> poll_host \<Rightarrow> poll_host" where
  "poll_step (PollCommand w u arguments) h = fst (session_handle_poll w u arguments h)"
| "poll_step (VoteCommand w multiple u arguments) h = fst (session_handle_vote_command w multiple u arguments h)"
| "poll_step (ElectCommand w u arguments) h = fst (session_handle_elect_command w u arguments h)"
| "poll_step (VoteLine w u line) h = (case session_vote_line w u line h of None \<Rightarrow> h | Some r \<Rightarrow> fst r)"
| "poll_step (PreferenceStored name ip) h =
     (case host_ensure_preference_locked name ip (preferences h) of
        None \<Rightarrow> h | Some (_, ps) \<Rightarrow> h\<lparr>preferences := ps\<rparr>)"

fun poll_event_user :: "poll_event \<Rightarrow> poll_user option" where
  "poll_event_user (PollCommand w u arguments) = Some u"
| "poll_event_user (VoteCommand w multiple u arguments) = Some u"
| "poll_event_user (ElectCommand w u arguments) = Some u"
| "poll_event_user (VoteLine w u line) = Some u"
| "poll_event_user (PreferenceStored name ip) = None"

text \<open>The name of a user fits its buffer.\<close>

definition poll_event_ok :: "poll_event \<Rightarrow> bool" where
  "poll_event_ok ev \<longleftrightarrow> (case poll_event_user ev of None \<Rightarrow> True | Some u \<Rightarrow> length (pu_name u) < POLL_NAME_LEN)"

section \<open>The table of named polls\<close>

abbreviation poll_counted :: "named_poll_state \<Rightarrow> bool" where
  "poll_counted \<equiv> \<lambda>p. np_label p \<noteq> [] \<and> p_active (np_poll p)"

definition table_ok :: "poll_host \<Rightarrow> bool" where
  "table_ok h \<longleftrightarrow> length (named_polls h) = MAX_NAMED_POLLS \<and> (\<forall>p\<in>set (named_polls h). named_ok p) \<and>
     named_poll_count h = length (filter poll_counted (named_polls h))"

lemma save_fields [simp]:
  "named_polls (host_vote_state_save_locked w h) = named_polls h" "main_poll (host_vote_state_save_locked w h) = main_poll h"
  "preferences (host_vote_state_save_locked w h) = preferences h"
  "named_poll_count (host_vote_state_save_locked w h) = named_poll_count h"
  by (simp_all add: host_vote_state_save_locked_def)

lemma recount_fields [simp]:
  "named_polls (host_recount_named_polls_locked h) = named_polls h" "main_poll (host_recount_named_polls_locked h) = main_poll h"
  "preferences (host_recount_named_polls_locked h) = preferences h"
  "named_poll_count (host_recount_named_polls_locked h) = length (filter poll_counted (named_polls h))"
  by (simp_all add: host_recount_named_polls_locked_def)

lemma table_ok_save [simp]: "table_ok (host_vote_state_save_locked w h) = table_ok h"
  by (simp add: table_ok_def)

lemma table_ok_recount:
  "length (named_polls h) = MAX_NAMED_POLLS \<Longrightarrow> (\<forall>p\<in>set (named_polls h). named_ok p) \<Longrightarrow>
     table_ok (host_recount_named_polls_locked h)"
  by (simp add: table_ok_def)

lemma named_ok_update:
  assumes "\<forall>p\<in>set ps. named_ok p" "named_ok p'"
  shows "\<forall>p\<in>set (ps[i := p']). named_ok p"
  using assms set_update_subset_insert [of ps i p'] by blast

lemma parse_options_length: "parse_options n tokens = Inr opts \<Longrightarrow> n \<le> 5 \<Longrightarrow> n + length opts \<le> 5"
proof (induction n tokens arbitrary: opts rule: parse_options.induct)
  case (2 n token tokens)
  then show ?case by (fastforce split: if_splits sum.splits)
qed simp

lemma parse_fields_length:
  assumes "session_poll_parse_fields input = Inr (question, opts)"
  shows "2 \<le> length opts" "length opts \<le> 5"
  using assms parse_options_length [of 0]
  by (auto simp: session_poll_parse_fields_def split: list.splits if_splits sum.splits)

lemma named_ok_started:
  assumes "length opts \<le> 5"
  shows "named_ok (started_named_poll multiple u label question opts p)"
proof -
  have "votes (started_poll multiple question opts q) k = 0" if "k < 5" for k q
    using that assms by (simp add: votes_def started_poll_def nth_append no_option_def)
  then show ?thesis using assms
    by (simp add: named_ok_def started_named_poll_def tallied_def voter_names_def started_poll_def poll_state_reset_def)
qed

lemma named_ok_fresh:
  assumes "np_poll p = poll_state_reset q" "np_voters p = []"
  shows "named_ok p"
  using assms by (simp add: named_ok_def poll_state_reset_def tallied_def voter_names_def votes_def no_option_def nth_replicate)

lemma named_ok_reset: "named_ok ((named_poll_reset p)\<lparr>np_label := label\<rparr>)" "named_ok (named_poll_reset p)"
  by (rule named_ok_fresh; simp add: named_poll_reset_def)+

lemma named_ok_close: "named_ok p \<Longrightarrow> named_ok (p\<lparr>np_poll := (np_poll p)\<lparr>p_active := f\<rparr>\<rparr>)"
proof -
  have "voter_ok ((np_poll p)\<lparr>p_active := f\<rparr>) = voter_ok (np_poll p)"
    by (intro ext) (simp add: voter_ok_def)
  then show "named_ok p \<Longrightarrow> named_ok (p\<lparr>np_poll := (np_poll p)\<lparr>p_active := f\<rparr>\<rparr>)"
    by (simp add: named_ok_def tallied_def votes_def)
qed

lemma ensure_named_poll:
  assumes "\<forall>p\<in>set (named_polls h). named_ok p" "host_ensure_named_poll_locked h label = Some (i, h')"
  shows "i < length (named_polls h')" "length (named_polls h') = length (named_polls h)"
    "\<forall>p\<in>set (named_polls h'). named_ok p" "main_poll h' = main_poll h" "preferences h' = preferences h"
    "\<And>j. j \<noteq> i \<Longrightarrow> named_polls h' ! j = named_polls h ! j"
    "np_label (named_polls h ! i) \<noteq> [] \<Longrightarrow> h' = h"
  using assms named_ok_update [OF assms(1) named_ok_reset(1)]
  by (auto simp: host_ensure_named_poll_locked_def host_find_named_poll_locked_def first_index_Some
      split: option.splits if_splits)

lemma find_named_poll:
  assumes "host_find_named_poll_locked h label = Some i"
  shows "i < length (named_polls h)" "np_label (named_polls h ! i) \<noteq> []" "strcasecmp_eq (np_label (named_polls h ! i)) label"
  using assms by (auto simp: host_find_named_poll_locked_def first_index_Some split: if_splits)

lemma vote_close_table:
  assumes "table_ok h"
  shows "table_ok (fst (vote_close w u label h))"
proof (cases "host_find_named_poll_locked h label")
  case None
  then show ?thesis using assms by (simp add: vote_close_def)
next
  case (Some i)
  define p where "p = named_polls h ! i"
  have t: "\<forall>p\<in>set (named_polls h). named_ok p" "length (named_polls h) = MAX_NAMED_POLLS"
    using assms by (simp_all add: table_ok_def)
  have "named_ok p" using t(1) find_named_poll(1) [OF Some] by (simp add: p_def)
  note closed = named_ok_update [OF t(1) named_ok_close [OF this], of i False]
  have "table_ok (host_recount_named_polls_locked
      (h\<lparr>named_polls := (named_polls h)[i := p\<lparr>np_poll := (np_poll p)\<lparr>p_active := False\<rparr>\<rparr>]\<rparr>))"
    using t(2) closed by (intro table_ok_recount) simp_all
  then show ?thesis using Some assms by (simp add: vote_close_def Let_def p_def [symmetric])
qed

lemma vote_start_table:
  assumes "table_ok h" "length opts \<le> 5"
  shows "table_ok (fst (vote_start w multiple u label question opts h))"
proof (cases "host_ensure_named_poll_locked h label")
  case None
  then show ?thesis using assms(1) by (simp add: vote_start_def)
next
  case (Some r)
  obtain i h' where r: "r = (i, h')" by fastforce
  have t: "\<forall>p\<in>set (named_polls h). named_ok p" "length (named_polls h) = MAX_NAMED_POLLS"
    using assms(1) by (simp_all add: table_ok_def)
  note e = ensure_named_poll [OF t(1) Some [unfolded r]]
  show ?thesis
  proof (cases "p_active (np_poll (named_polls h' ! i)) \<and> \<not> poll_controlled_by u (named_polls h' ! i)")
    case True
    have "np_label (named_polls h ! i) \<noteq> []"
      using True Some r by (auto simp: host_ensure_named_poll_locked_def host_find_named_poll_locked_def first_index_Some
          named_poll_reset_def poll_state_reset_def split: option.splits if_splits)
    then show ?thesis using True Some r e(7) assms(1) by (simp add: vote_start_def)
  next
    case False
    then show ?thesis using Some r e(2) t(2) named_ok_update [OF e(3) named_ok_started [OF assms(2)]]
      by (auto simp: vote_start_def Let_def intro!: table_ok_recount)
  qed
qed

lemma vote_command_table: "table_ok h \<Longrightarrow> table_ok (fst (session_handle_vote_command w multiple u arguments h))"
  using vote_close_table vote_start_table parse_fields_length(2)
  by (simp add: session_handle_vote_command_def Let_def split: option.split sum.split)

text \<open>A vote in the table: the poll of the slot has the same terms, the others are as they were.\<close>

lemma named_slot_vote:
  assumes "table_ok h" "host_find_named_poll_locked h label = Some i" "k < p_option_count (np_poll (named_polls h ! i))"
    and "length name < POLL_NAME_LEN" "named_vote name k (named_polls h ! i) = (Some p', answer)"
  shows "table_ok (h\<lparr>named_polls := (named_polls h)[i := p']\<rparr>)" "same_terms (named_polls h ! i) p'"
proof -
  have t: "\<forall>p\<in>set (named_polls h). named_ok p" using assms(1) by (simp add: table_ok_def)
  note i = find_named_poll [OF assms(2)]
  have ok: "named_ok (named_polls h ! i)" using t i(1) by simp
  note v = named_vote_ok [OF ok assms(3-5)]
  then show same: "same_terms (named_polls h ! i) p'" by blast
  have "length (filter poll_counted ((named_polls h)[i := p'])) = length (filter poll_counted (named_polls h))"
    using length_filter_update [OF i(1), of poll_counted p'] same by (simp add: same_terms_def split: if_splits)
  then show "table_ok (h\<lparr>named_polls := (named_polls h)[i := p']\<rparr>)"
    using assms(1) named_ok_update [OF t, of p' i] v by (simp add: table_ok_def)
qed

lemma named_vote_table:
  assumes "table_ok h" "length (pu_name u) < POLL_NAME_LEN"
  shows "table_ok (fst (session_handle_named_vote w u k label h))"
  using assms named_slot_vote(1) [OF assms(1) _ _ assms(2)]
  by (auto simp: session_handle_named_vote_def Let_def not_le split: option.split prod.split)

lemma elect_table:
  assumes "table_ok h" "length (pu_name u) < POLL_NAME_LEN"
  shows "table_ok (fst (session_handle_elect_command w u arguments h))"
  using assms named_vote_table [OF assms]
  by (simp add: session_handle_elect_command_def Let_def split: list.split prod.split)

text \<open>The commands of the main poll leave the table alone.\<close>

lemma main_commands_table [simp]:
  "table_ok (fst (session_handle_poll w u arguments h)) = table_ok h"
  "table_ok (fst (session_handle_vote w u k h)) = table_ok h"
proof -
  have m: "table_ok (h\<lparr>main_poll := p\<rparr>) = table_ok h" "table_ok (h\<lparr>main_poll := p, preferences := ps\<rparr>) = table_ok h"
    "table_ok (h\<lparr>preferences := ps\<rparr>) = table_ok h" for p ps
    by (simp_all add: table_ok_def)
  show "table_ok (fst (session_handle_poll w u arguments h)) = table_ok h"
    by (simp add: session_handle_poll_def Let_def m split: sum.split prod.split)
  show "table_ok (fst (session_handle_vote w u k h)) = table_ok h"
    by (simp add: session_handle_vote_def Let_def m split: option.split prod.split)
qed

lemma vote_line_table:
  assumes "table_ok h" "length (pu_name u) < POLL_NAME_LEN" "session_vote_line w u line h = Some r"
  shows "table_ok (fst r)"
  using assms(1,3) named_vote_table [OF assms(1,2)]
  by (auto simp: session_vote_line_def Let_def split: if_splits prod.splits)

lemma poll_step_table:
  assumes "table_ok h" "poll_event_ok ev"
  shows "table_ok (poll_step ev h)"
proof (cases ev)
  case (PreferenceStored name ip)
  have "table_ok (h\<lparr>preferences := ps\<rparr>) = table_ok h" for ps by (simp add: table_ok_def)
  then show ?thesis using assms(1) PreferenceStored by (simp split: option.split prod.split)
next
  case (VoteLine w u line)
  then show ?thesis using assms vote_line_table [OF assms(1), of u w line]
    by (simp add: poll_event_ok_def split: option.split)
qed (use assms vote_command_table elect_table in \<open>simp_all add: poll_event_ok_def\<close>)

section \<open>Every run of commands\<close>

interpretation poll_sys: invariant_system poll_step poll_event_ok table_ok
  by unfold_locales (rule poll_step_table)

lemma table_ok_init: "table_ok host_polls_init"
  using named_ok_reset(2) by (simp add: table_ok_def host_polls_init_def) (simp add: named_poll_reset_def)

section \<open>Who controls a named poll\<close>

text \<open>Where a slot of the table stands after a command of a user who does not control its
  active poll: the terms of the poll are the same.\<close>

definition slot_kept :: "nat \<Rightarrow> poll_host \<Rightarrow> poll_host \<Rightarrow> bool" where
  "slot_kept i h h' \<longleftrightarrow> same_terms (named_polls h ! i) (named_polls h' ! i)"

text \<open>The command of a user who neither owns a poll nor is an operator.\<close>

definition poll_outsider :: "named_poll_state \<Rightarrow> poll_event \<Rightarrow> bool" where
  "poll_outsider p ev \<longleftrightarrow> (case poll_event_user ev of None \<Rightarrow> True | Some u \<Rightarrow> \<not> poll_controlled_by u p)"

lemma slot_kept_same [simp]: "slot_kept i h h" "named_polls h' = named_polls h \<Longrightarrow> slot_kept i h h'"
  by (simp_all add: slot_kept_def same_terms_def)

lemma slot_kept_save [simp]: "slot_kept i h (host_vote_state_save_locked w h') = slot_kept i h h'"
  "slot_kept i h (host_recount_named_polls_locked h') = slot_kept i h h'"
  by (simp_all add: slot_kept_def)

lemma vote_close_kept:
  assumes "\<not> poll_controlled_by u (named_polls h ! i)"
  shows "slot_kept i h (fst (vote_close w u label h))"
proof (cases "host_find_named_poll_locked h label")
  case None
  then show ?thesis by (simp add: vote_close_def)
next
  case (Some j)
  have "slot_kept i h (h\<lparr>named_polls := (named_polls h)[j := q]\<rparr>)" if "j \<noteq> i" for q
    using that by (simp add: slot_kept_def same_terms_def)
  then show ?thesis using Some assms by (cases "j = i") (simp_all add: vote_close_def Let_def)
qed

lemma vote_start_kept:
  assumes "np_label (named_polls h ! i) \<noteq> []" "p_active (np_poll (named_polls h ! i))"
    and "\<not> poll_controlled_by u (named_polls h ! i)"
  shows "slot_kept i h (fst (vote_start w multiple u label question opts h))"
proof (cases "host_ensure_named_poll_locked h label")
  case None
  then show ?thesis by (simp add: vote_start_def)
next
  case (Some r)
  obtain j h' where r: "r = (j, h')" by fastforce
  show ?thesis
  proof (cases "j = i")
    case True
    have "h' = h"
      using Some assms(1) True r
      by (auto simp: host_ensure_named_poll_locked_def host_find_named_poll_locked_def first_index_Some
          split: option.splits if_splits)
    then show ?thesis using Some r True assms(2,3) by (simp add: vote_start_def)
  next
    case False
    have "named_polls h' ! i = named_polls h ! i"
      using Some False r by (auto simp: host_ensure_named_poll_locked_def split: option.splits if_splits)
    then show ?thesis using Some r False by (simp add: vote_start_def Let_def slot_kept_def same_terms_def)
  qed
qed

lemma vote_command_kept:
  assumes "np_label (named_polls h ! i) \<noteq> []" "p_active (np_poll (named_polls h ! i))"
    and "\<not> poll_controlled_by u (named_polls h ! i)"
  shows "slot_kept i h (fst (session_handle_vote_command w multiple u arguments h))"
  using vote_close_kept [OF assms(3)] vote_start_kept [OF assms]
  by (simp add: session_handle_vote_command_def Let_def split: option.split sum.split)

lemma named_vote_kept:
  assumes "table_ok h" "length (pu_name u) < POLL_NAME_LEN"
  shows "slot_kept i h (fst (session_handle_named_vote w u k label h))"
proof -
  have "slot_kept i h (h\<lparr>named_polls := (named_polls h)[j := p']\<rparr>)"
    if "host_find_named_poll_locked h lab = Some j" "k < p_option_count (np_poll (named_polls h ! j))"
      "named_vote (pu_name u) k (named_polls h ! j) = (Some p', answer)" for lab j p' answer
    using named_slot_vote(2) [OF assms(1) that(1,2) assms(2) that(3)] find_named_poll(1) [OF that(1)]
    by (cases "j = i") (simp_all add: slot_kept_def same_terms_def)
  then show ?thesis
    by (auto simp: session_handle_named_vote_def Let_def not_le split: option.split prod.split)
qed

lemma main_commands_kept:
  "slot_kept i h (fst (session_handle_poll w u arguments h))" "slot_kept i h (fst (session_handle_vote w u k h))"
  by (simp_all add: session_handle_poll_def session_handle_vote_def Let_def split: sum.split option.split prod.split)

lemma vote_line_kept:
  assumes "table_ok h" "length (pu_name u) < POLL_NAME_LEN" "session_vote_line w u line h = Some r"
  shows "slot_kept i h (fst r)"
  using assms(3) named_vote_kept [OF assms(1,2), of i] main_commands_kept(2)
  by (auto simp: session_vote_line_def Let_def split: if_splits prod.splits)

lemma poll_step_kept:
  assumes "table_ok h" "poll_event_ok ev" "np_label (named_polls h ! i) \<noteq> []" "p_active (np_poll (named_polls h ! i))"
    and "poll_outsider (named_polls h ! i) ev"
  shows "slot_kept i h (poll_step ev h)"
proof (cases ev)
  case (VoteLine w u line)
  then show ?thesis using assms(2) vote_line_kept [OF assms(1), of u w line]
    by (simp add: poll_event_ok_def split: option.split)
next
  case (ElectCommand w u arguments)
  then show ?thesis using assms(2) named_vote_kept [OF assms(1), of u i]
    by (simp add: poll_event_ok_def session_handle_elect_command_def Let_def split: list.split prod.split)
next
  case (VoteCommand w multiple u arguments)
  then show ?thesis using assms(5) vote_command_kept [OF assms(3,4)] by (simp add: poll_outsider_def)
qed (simp_all add: main_commands_kept split: option.split prod.split)

lemma same_terms_trans: "same_terms p q \<Longrightarrow> same_terms q r \<Longrightarrow> same_terms p r"
  by (simp add: same_terms_def)

lemma outsider_terms: "same_terms p q \<Longrightarrow> poll_outsider q = poll_outsider p"
  by (intro ext) (simp add: poll_outsider_def poll_controlled_by_def same_terms_def split: option.split)

lemma poll_run_kept:
  assumes "table_ok h" "list_all poll_event_ok evs" "np_label (named_polls h ! i) \<noteq> []"
    and "p_active (np_poll (named_polls h ! i))"
    and "list_all (poll_outsider (named_polls h ! i)) evs"
  shows "same_terms (named_polls h ! i) (named_polls (fold poll_step evs h) ! i)"
  using assms
proof (induction evs arbitrary: h)
  case Nil
  then show ?case by (simp add: same_terms_def)
next
  case (Cons ev evs)
  have kept: "same_terms (named_polls h ! i) (named_polls (poll_step ev h) ! i)"
    using poll_step_kept [OF Cons.prems(1) _ Cons.prems(3,4), of ev] Cons.prems(2,5)
    by (simp add: slot_kept_def)
  have "same_terms (named_polls (poll_step ev h) ! i) (named_polls (fold poll_step evs (poll_step ev h)) ! i)"
    using kept Cons.prems poll_step_table [OF Cons.prems(1), of ev] outsider_terms [OF kept]
    by (intro Cons.IH) (simp_all add: same_terms_def)
  then show ?case using same_terms_trans [OF kept] by simp
qed

section \<open>Votes of a poll with one choice\<close>

lemma one_choice_sum:
  assumes "\<forall>v\<in>set vs. 0 \<le> v_choice v \<and> v_choice v < 5"
  shows "(\<Sum>k<5. length (filter (chose False k) vs)) = length vs"
  using assms
proof (induction vs)
  case Nil
  then show ?case by simp
next
  case (Cons v vs)
  define q where "q = nat (v_choice v)"
  have "v_choice v = int q" "q < 5" using Cons.prems by (auto simp: q_def)
  then have "chose False k v = (k = q)" for k by (auto simp: chose_def)
  then have "length (filter (chose False k) (v # vs)) = length (filter (chose False k) vs) + (if k = q then 1 else 0)" for k
    by simp
  then show ?case using Cons \<open>q < 5\<close> by (simp add: sum.distrib)
qed

lemma one_choice_total:
  assumes "named_ok p" "\<not> p_allow_multiple (np_poll p)"
  shows "(\<Sum>k<5. votes (np_poll p) k) = length (np_voters p)"
proof -
  have "\<forall>v\<in>set (np_voters p). 0 \<le> v_choice v \<and> v_choice v < 5"
    using named_okD(2,6) [OF assms(1)] assms(2) by (fastforce simp: voter_ok_def)
  note s = one_choice_sum [OF this]
  have "(\<Sum>k<5. votes (np_poll p) k) = (\<Sum>k<5. length (filter (chose False k) (np_voters p)))"
    using named_okD(5) [OF assms(1)] assms(2) by (intro sum.cong) (simp_all add: tallied_def)
  then show ?thesis using s by simp
qed

section \<open>Evaluation\<close>

text \<open>Equations that evaluate the bounds of machine integers on binary integers.\<close>

lemma uint_add_code [code]: "uint_add a b = nat ((int a + int b) mod 4294967296)"
  by (simp add: uint_add_def nat_mod_distrib nat_add_distrib)

lemma next_poll_id_code [code]:
  "next_poll_id i = (let n = nat ((int i + 1) mod 18446744073709551616) in if n = 0 then 1 else n)"
  by (simp add: next_poll_id_def nat_mod_distrib nat_add_distrib)

lemma strtoul_digits_code [code]:
  "strtoul_digits s =
     (let v = digits_val (takeWhile c_isdigit s)
      in (if int v < 18446744073709551616 then v else SIZE_MAX, dropWhile c_isdigit s))"
  by (simp add: strtoul_digits_def SIZE_MAX_def Let_def min_def)

lemma strtoul_code [code]:
  "strtoul s =
     (let t = dropWhile c_isspace s;
          neg = (t \<noteq> [] \<and> hd t = CHR ''-'');
          u = (if t \<noteq> [] \<and> (hd t = CHR ''-'' \<or> hd t = CHR ''+'') then tl t else t);
          v = digits_val (takeWhile c_isdigit u)
      in if takeWhile c_isdigit u = [] then (0, s, False)
         else if int v < 18446744073709551616
         then ((if neg then (2 ^ 64 - v) mod 2 ^ 64 else v), dropWhile c_isdigit u, True)
         else (SIZE_MAX, dropWhile c_isdigit u, True))"
  by (simp add: strtoul_def SIZE_MAX_def Let_def)

text \<open>Cutting a text to the size of a large buffer.\<close>

definition cut_int :: "int \<Rightarrow> cstr \<Rightarrow> cstr" where
  "cut_int n s = (if int (length s) < n then s else take (nat (n - 1)) s)"

lemma cut_code [code_unfold]:
  "snprintf_into POLL_TEXT_LEN s = cut_int 4096 s" "snprintf_into POLL_INPUT_LEN s = cut_int 1024 s"
  "snprintf_into POLL_NAME_LEN s = cut_int 256 s"
  by (simp_all add: snprintf_into_def cut_int_def POLL_TEXT_LEN_def POLL_INPUT_LEN_def POLL_NAME_LEN_def)

lemma bound_code [code_unfold]:
  "length ps < MAX_PREFERENCES \<longleftrightarrow> int (length ps) < 1024" "MAX_NAMED_VOTERS \<le> length vs \<longleftrightarrow> 256 \<le> int (length vs)"
  "take MAX_NAMED_VOTERS vs = (if int (length vs) \<le> 256 then vs else take (nat 256) vs)"
  by (simp_all add: MAX_PREFERENCES_def MAX_NAMED_VOTERS_def)

section \<open>Properties\<close>

text \<open>
  C2: After any commands of any users, in every poll of the table: the votes of an option
  are the number of voters recorded with that choice, no user is recorded twice (whatever
  the case of his name), the votes of a poll with one choice add up to its voters, and the
  count of active polls is right.
\<close>

theorem polls_tally_exact:
  assumes "list_all poll_event_ok evs" "i < MAX_NAMED_POLLS" "k < 5"
    and "h = fold poll_step evs host_polls_init" "p = named_polls h ! i"
  shows "votes (np_poll p) k = length (filter (chose (p_allow_multiple (np_poll p)) k) (np_voters p)) \<and>
     distinct (voter_names (np_voters p)) \<and>
     (p_allow_multiple (np_poll p) \<or> (\<Sum>k<5. votes (np_poll p) k) = length (np_voters p)) \<and>
     named_poll_count h = length (filter (\<lambda>p. np_label p \<noteq> [] \<and> p_active (np_poll p)) (named_polls h))"
proof -
  have ok: "table_ok h"
    using poll_sys.inv_run [OF assms(1) table_ok_init] assms(4) by (simp add: poll_sys.run_def)
  then have p: "named_ok p" using assms(2,5) by (simp add: table_ok_def)
  have "votes (np_poll p) k = length (filter (chose (p_allow_multiple (np_poll p)) k) (np_voters p))"
    using named_okD(5) [OF p] assms(3) by (simp add: tallied_def)
  moreover have "named_poll_count h = length (filter poll_counted (named_polls h))" using ok by (simp add: table_ok_def)
  ultimately show ?thesis using named_okD(4) [OF p] one_choice_total [OF p] by blast
qed

definition poll_example :: "poll_event list" where
  "poll_example =
     [VoteCommand True False \<lparr>pu_name = ''alice'', pu_ip = ''10.0.0.1'', pu_operator = False\<rparr> ''lunch Where?|Here|There'',
      VoteLine True \<lparr>pu_name = ''bob'', pu_ip = ''10.0.0.2'', pu_operator = False\<rparr> ''/1 lunch'',
      ElectCommand True \<lparr>pu_name = ''carol'', pu_ip = ''10.0.0.3'', pu_operator = False\<rparr> ''LUNCH 2'',
      VoteLine True \<lparr>pu_name = ''BOB'', pu_ip = ''10.0.0.4'', pu_operator = False\<rparr> ''/2 lunch'']"

definition poll_example_end :: poll_host where
  "poll_example_end = fold poll_step poll_example host_polls_init"

lemma poll_example_facts:
  "(\<lambda>p. (np_label p, np_owner p, p_active (np_poll p), p_allow_multiple (np_poll p), map v_username (np_voters p),
      map v_choice (np_voters p))) (named_polls poll_example_end ! 0) =
     (''lunch'', ''alice'', True, False, [''bob'', ''carol''], [1, 1])"
  by code_simp

theorem polls_tally_exact_witness:
  "list_all poll_event_ok poll_example \<and>
   votes (np_poll (named_polls (fold poll_step poll_example host_polls_init) ! 0)) 1 = 2 \<and>
   map v_username (np_voters (named_polls (fold poll_step poll_example host_polls_init) ! 0)) = [''bob'', ''carol'']"
proof -
  define h where "h = poll_example_end"
  have h: "h = fold poll_step poll_example host_polls_init" by (simp add: h_def poll_example_end_def)
  have e: "list_all poll_event_ok poll_example" by code_simp
  have ch: "map v_choice (np_voters (named_polls h ! 0)) = [1, 1]" and m: "\<not> p_allow_multiple (np_poll (named_polls h ! 0))"
    and n: "map v_username (np_voters (named_polls h ! 0)) = [''bob'', ''carol'']"
    using poll_example_facts by (simp_all add: h_def)
  have c: "length (filter (chose (p_allow_multiple (np_poll (named_polls h ! 0))) 1) (np_voters (named_polls h ! 0))) = 2"
    using ch m by (auto simp: chose_def [abs_def] map_eq_Cons_conv)
  have "votes (np_poll (named_polls h ! 0)) 1 = 2"
    using polls_tally_exact [OF e _ _ h refl, of 0 1] unfolding c by (simp add: MAX_NAMED_POLLS_def)
  then show ?thesis using e n unfolding h by blast
qed



end
