(* ===== verification/Poll_File.thy ===== *)
theory Poll_File
  imports Poll_Host
begin

text \<open>
  The file of votes: as long as it can be written it holds the main poll and the named
  polls of the host after every command, and a host that starts from it has them again.
\<close>

section \<open>Texts fit their buffers\<close>

definition text_fits :: "nat \<Rightarrow> cstr \<Rightarrow> bool" where
  "text_fits n s \<longleftrightarrow> length s < n"

lemma text_fits_cut [simp]: "0 < n \<Longrightarrow> text_fits n (snprintf_into n s)"
  by (simp add: text_fits_def snprintf_into_def)

lemma cut_fits [simp]: "text_fits n s \<Longrightarrow> snprintf_into n s = s"
  by (simp add: text_fits_def snprintf_into_def)

lemma text_fits_Nil [simp]: "0 < n \<Longrightarrow> text_fits n []"
  by (simp add: text_fits_def)

lemma buffer_sizes [simp]: "0 < POLL_TEXT_LEN" "0 < POLL_NAME_LEN" "0 < POLL_LABEL_LEN"
  by (simp_all add: POLL_TEXT_LEN_def POLL_NAME_LEN_def POLL_LABEL_LEN_def)

text \<open>A poll whose texts fit and whose unused options are empty.\<close>

definition poll_fits :: "poll_state \<Rightarrow> bool" where
  "poll_fits p \<longleftrightarrow> text_fits POLL_TEXT_LEN (p_question p) \<and> length (p_options p) = 5 \<and> p_option_count p \<le> 5 \<and>
     (\<forall>opt\<in>set (p_options p). text_fits POLL_TEXT_LEN (po_text opt)) \<and>
     drop (p_option_count p) (p_options p) = replicate (5 - p_option_count p) no_option"

definition voters_fit :: "poll_voter list \<Rightarrow> bool" where
  "voters_fit vs \<longleftrightarrow> length vs \<le> MAX_NAMED_VOTERS \<and> (\<forall>v\<in>set vs. text_fits POLL_NAME_LEN (v_username v))"

definition named_fits :: "named_poll_state \<Rightarrow> bool" where
  "named_fits p \<longleftrightarrow> poll_fits (np_poll p) \<and> text_fits POLL_LABEL_LEN (np_label p) \<and> text_fits POLL_NAME_LEN (np_owner p) \<and>
     voters_fit (np_voters p)"

definition polls_fit :: "poll_host \<Rightarrow> bool" where
  "polls_fit h \<longleftrightarrow> poll_fits (main_poll h) \<and> length (named_polls h) = MAX_NAMED_POLLS \<and>
     (\<forall>p\<in>set (named_polls h). named_fits p)"

lemma map_texts_same:
  "\<forall>opt\<in>set opts. text_fits POLL_TEXT_LEN (po_text opt) \<Longrightarrow>
     map (\<lambda>opt. opt\<lparr>po_text := snprintf_into POLL_TEXT_LEN (po_text opt)\<rparr>) opts = opts"
  by (induction opts) simp_all

lemma export_same: "poll_fits p \<Longrightarrow> vote_state_export_poll_entry p = p"
  by (simp add: vote_state_export_poll_entry_def poll_fits_def map_texts_same min_absorb2)

lemma import_same:
  assumes "poll_fits p"
  shows "vote_state_import_poll_entry p = p"
proof -
  have "take (p_option_count p) (p_options p) @ replicate (5 - p_option_count p) no_option = p_options p"
    using assms append_take_drop_id [of "p_option_count p" "p_options p"] by (simp add: poll_fits_def)
  moreover have "\<forall>opt\<in>set (take (p_option_count p) (p_options p)). text_fits POLL_TEXT_LEN (po_text opt)"
    using assms set_take_subset [of "p_option_count p" "p_options p"] by (auto simp: poll_fits_def)
  ultimately show ?thesis using assms
    by (simp add: vote_state_import_poll_entry_def Let_def poll_fits_def map_texts_same min_absorb2)
qed

lemma copy_voters_same:
  "\<forall>v\<in>set vs. text_fits POLL_NAME_LEN (v_username v) \<Longrightarrow> map copy_voter vs = vs"
  by (induction vs) (simp_all add: copy_voter_def)

lemma import_export_same: "named_fits p \<Longrightarrow> import_named_poll (export_named_poll p) = p"
  by (simp add: named_fits_def voters_fit_def import_named_poll_def export_named_poll_def export_same import_same copy_voters_same)

section \<open>Commands keep the texts in their buffers\<close>

lemma poll_fits_reset: "poll_fits (poll_state_reset p)"
  by (simp add: poll_fits_def poll_state_reset_def no_option_def)

lemma poll_fits_started: "length opts \<le> 5 \<Longrightarrow> poll_fits (started_poll multiple question opts p)"
  by (auto simp: poll_fits_def started_poll_def no_option_def)

lemma poll_fits_active [simp]: "poll_fits (p\<lparr>p_active := b\<rparr>) = poll_fits p"
  by (simp add: poll_fits_def)

lemma poll_fits_options:
  assumes "poll_fits p" "k < p_option_count p" "po_text opt = po_text (p_options p ! k)"
  shows "poll_fits (p\<lparr>p_options := (p_options p)[k := opt]\<rparr>)"
proof -
  have "p_options p ! k \<in> set (p_options p)" using assms(1,2) by (simp add: poll_fits_def)
  then show ?thesis
    using assms set_update_subset_insert [of "p_options p" k opt] by (auto simp: poll_fits_def)
qed

lemma poll_fits_vote:
  assumes "poll_fits p" "k < p_option_count p"
  shows "poll_fits (add_vote k p)" "poll_fits (take_vote k p)"
  using assms by (simp_all add: add_vote_def take_vote_def poll_fits_options)

lemma voters_fit_update:
  assumes "voters_fit vs" "text_fits POLL_NAME_LEN (v_username v')"
  shows "voters_fit (vs[i := v'])"
  using assms set_update_subset_insert [of vs i v'] by (auto simp: voters_fit_def)

lemma voters_fit_remove: "voters_fit vs \<Longrightarrow> voters_fit (remove_voter i vs)"
  by (auto simp: voters_fit_def remove_voter_def dest: in_set_takeD in_set_dropD)

lemma voters_fit_new: "voters_fit vs \<Longrightarrow> length vs < MAX_NAMED_VOTERS \<Longrightarrow> voters_fit (vs @ [new_voter name k m])"
  by (auto simp: voters_fit_def new_voter_def)

lemma voters_fit_found:
  assumes "voters_fit vs" "first_index (\<lambda>v. strcasecmp_eq (v_username v) name) vs = Some i"
  shows "text_fits POLL_NAME_LEN (v_username (vs ! i))"
  using assms(1) find_voter(3) [OF assms(2)] by (simp add: voters_fit_def)

lemma named_fits_change:
  "named_fits p \<Longrightarrow> poll_fits q \<Longrightarrow> voters_fit vs \<Longrightarrow> named_fits (p\<lparr>np_poll := q, np_voters := vs\<rparr>)"
  by (simp add: named_fits_def)

lemmas voters_fit_rules = voters_fit_update voters_fit_remove voters_fit_new voters_fit_found

lemma named_fits_multiple:
  assumes "named_fits p" "k < p_option_count (np_poll p)" "named_vote_multiple name k p = (Some p', answer)"
  shows "named_fits p'"
proof -
  have vs: "voters_fit (np_voters p)" "poll_fits (np_poll p)" using assms(1) by (simp_all add: named_fits_def)
  note ch = named_fits_change [OF assms(1)] poll_fits_vote [OF vs(2) assms(2)]
  show ?thesis
  proof (cases "first_index (\<lambda>v. strcasecmp_eq (v_username v) name) (np_voters p)")
    case None
    then show ?thesis using assms(3) ch voters_fit_new [OF vs(1)]
      by (auto simp: named_vote_multiple_def not_le split: if_splits)
  next
    case (Some i)
    have up: "voters_fit ((np_voters p)[i := (np_voters p ! i)\<lparr>v_choices_mask := m, v_choice := c\<rparr>])" for m c
      using voters_fit_found [OF vs(1) Some] by (intro voters_fit_update [OF vs(1)]) simp
    show ?thesis using assms(3) Some ch up voters_fit_remove [OF vs(1)]
      by (auto simp: named_vote_multiple_def Let_def split: if_splits)
  qed
qed

lemma named_fits_single:
  assumes "named_fits p" "k < p_option_count (np_poll p)" "named_vote_single name k p = (Some p', answer)"
  shows "named_fits p'"
proof -
  have vs: "voters_fit (np_voters p)" "poll_fits (np_poll p)" using assms(1) by (simp_all add: named_fits_def)
  note ch = named_fits_change [OF assms(1)] poll_fits_vote [OF vs(2) assms(2)]
  have again: "poll_fits (add_vote k (take_vote q (np_poll p)))" if "q < p_option_count (np_poll p)" for q
    using poll_fits_vote(1) [OF poll_fits_vote(2) [OF vs(2) that], of k] assms(2) by simp
  show ?thesis
  proof (cases "first_index (\<lambda>v. strcasecmp_eq (v_username v) name) (np_voters p)")
    case None
    then show ?thesis using assms(3) ch voters_fit_new [OF vs(1)]
      by (auto simp: named_vote_single_def not_le split: if_splits)
  next
    case (Some i)
    have up: "voters_fit ((np_voters p)[i := (np_voters p ! i)\<lparr>v_choice := c, v_choices_mask := m\<rparr>])" for m c
      using voters_fit_found [OF vs(1) Some] by (intro voters_fit_update [OF vs(1)]) simp
    show ?thesis using assms(3) Some ch up again
      by (auto simp: named_vote_single_def Let_def split: if_splits)
  qed
qed

lemma named_fits_vote:
  assumes "named_fits p" "k < p_option_count (np_poll p)" "named_vote name k p = (Some p', answer)"
  shows "named_fits p'"
  using assms named_fits_multiple [OF assms(1,2)] named_fits_single [OF assms(1,2)]
  by (simp add: named_vote_def split: if_splits)

section \<open>The file follows the polls\<close>

text \<open>What a command does to the polls and their file: nothing, or it ends by writing them.\<close>

definition poll_file_of :: "poll_host \<Rightarrow> vote_state_file" where
  "poll_file_of h = \<lparr>vf_main = vote_state_export_poll_entry (main_poll h),
     vf_named = map export_named_poll (filter (\<lambda>p. np_label p \<noteq> []) (named_polls h))\<rparr>"

definition written :: "poll_host \<Rightarrow> poll_host \<Rightarrow> bool" where
  "written h h' \<longleftrightarrow> main_poll h' = main_poll h \<and> named_polls h' = named_polls h \<and> vote_file h' = vote_file h \<or>
     polls_fit h' \<and> vote_file h' = Some (poll_file_of h')"

lemma written_same [simp]: "written h h" "written h (h\<lparr>preferences := ps\<rparr>)"
  by (simp_all add: written_def)

lemma written_save: "polls_fit h' \<Longrightarrow> written h (host_vote_state_save_locked True h')"
  by (simp add: written_def host_vote_state_save_locked_def polls_fit_def poll_file_of_def)

lemma polls_fit_main: "polls_fit h \<Longrightarrow> poll_fits p \<Longrightarrow> polls_fit (h\<lparr>main_poll := p\<rparr>)"
  "polls_fit h \<Longrightarrow> poll_fits p \<Longrightarrow> polls_fit (h\<lparr>main_poll := p, preferences := ps\<rparr>)"
  by (simp_all add: polls_fit_def)

lemma polls_fit_named: "polls_fit h \<Longrightarrow> named_fits p \<Longrightarrow> polls_fit (h\<lparr>named_polls := (named_polls h)[i := p]\<rparr>)"
  using set_update_subset_insert [of "named_polls h" i p] by (auto simp: polls_fit_def)

lemma polls_fit_recount [simp]: "polls_fit (host_recount_named_polls_locked h) = polls_fit h"
  by (simp add: polls_fit_def)

lemma poll_written:
  assumes "polls_fit h"
  shows "written h (fst (session_handle_poll True u arguments h))"
proof -
  have close: "written h (host_vote_state_save_locked True (h\<lparr>main_poll := (main_poll h)\<lparr>p_active := False\<rparr>\<rparr>))"
    using assms by (intro written_save polls_fit_main) (simp_all add: polls_fit_def)
  have start: "written h (host_vote_state_save_locked True (h\<lparr>main_poll := started_poll False question opts (main_poll h)\<rparr>))"
    if "session_poll_parse_fields input = Inr (question, opts)" for input question opts
    using assms parse_fields_length(2) [OF that] by (intro written_save polls_fit_main poll_fits_started)
  show ?thesis using close start
    by (simp add: session_handle_poll_def Let_def split: sum.split)
qed

lemma main_vote_fits:
  assumes "poll_fits poll" "k < p_option_count poll" "main_vote k poll pref = Some (poll', pref', response)"
  shows "poll_fits poll'"
proof -
  have "poll_fits (add_vote k (take_vote q poll))" if "q < p_option_count poll" for q
    using poll_fits_vote(1) [OF poll_fits_vote(2) [OF assms(1) that], of k] assms(2) by simp
  then show ?thesis using assms poll_fits_vote [OF assms(1,2)] by (auto simp: main_vote_def Let_def split: if_splits)
qed

lemma vote_written: "polls_fit h \<Longrightarrow> written h (fst (session_handle_vote True u k h))"
  using main_vote_fits [of "main_poll h" k]
  by (auto simp: session_handle_vote_def Let_def polls_fit_def [of h] not_le split: option.split prod.split
      intro!: written_save polls_fit_main)

lemma vote_close_written:
  assumes "polls_fit h"
  shows "written h (fst (vote_close True u label h))"
proof (cases "host_find_named_poll_locked h label")
  case None
  then show ?thesis by (simp add: vote_close_def)
next
  case (Some i)
  have "named_fits (named_polls h ! i)" using assms find_named_poll(1) [OF Some] by (simp add: polls_fit_def)
  then have "named_fits ((named_polls h ! i)\<lparr>np_poll := (np_poll (named_polls h ! i))\<lparr>p_active := False\<rparr>\<rparr>)"
    by (simp add: named_fits_def)
  note w = written_save [of "host_recount_named_polls_locked _", simplified, OF polls_fit_named [OF assms this]]
  show ?thesis using Some w by (simp add: vote_close_def Let_def)
qed

lemma named_fits_reset: "text_fits POLL_LABEL_LEN label \<Longrightarrow> named_fits ((named_poll_reset p)\<lparr>np_label := label\<rparr>)"
  by (simp add: named_fits_def named_poll_reset_def poll_fits_reset voters_fit_def)

lemma ensure_fits:
  assumes "polls_fit h" "host_ensure_named_poll_locked h label = Some (i, h')"
  shows "polls_fit h'"
  using assms by (auto simp: host_ensure_named_poll_locked_def split: option.splits if_splits
      intro!: polls_fit_named named_fits_reset)

lemma vote_start_written:
  assumes "polls_fit h" "length opts \<le> 5"
  shows "written h (fst (vote_start True multiple u label question opts h))"
proof (cases "host_ensure_named_poll_locked h label")
  case None
  then show ?thesis by (simp add: vote_start_def)
next
  case (Some r)
  obtain i h' where r: "r = (i, h')" by fastforce
  have "named_fits (started_named_poll multiple u label question opts (named_polls h' ! i))"
    using assms(2) by (simp add: named_fits_def started_named_poll_def poll_fits_started voters_fit_def)
  note w = written_save [of "host_recount_named_polls_locked _", simplified,
      OF polls_fit_named [OF ensure_fits [OF assms(1) Some [unfolded r]] this]]
  have "h' = h" if "p_active (np_poll (named_polls h' ! i))"
    using Some r that
    by (auto simp: host_ensure_named_poll_locked_def host_find_named_poll_locked_def first_index_Some named_poll_reset_def
        poll_state_reset_def split: option.splits if_splits)
  then show ?thesis using Some r w by (auto simp: vote_start_def Let_def)
qed

lemma vote_command_written:
  assumes "polls_fit h"
  shows "written h (fst (session_handle_vote_command True multiple u arguments h))"
  using vote_close_written [OF assms] vote_start_written [OF assms] parse_fields_length(2)
  by (simp add: session_handle_vote_command_def Let_def split: option.split sum.split)

lemma named_vote_written:
  assumes "polls_fit h"
  shows "written h (fst (session_handle_named_vote True u k label h))"
proof -
  have "written h (host_vote_state_save_locked True (h\<lparr>named_polls := (named_polls h)[i := p']\<rparr>))"
    if "host_find_named_poll_locked h lab = Some i" "k < p_option_count (np_poll (named_polls h ! i))"
      "named_vote (pu_name u) k (named_polls h ! i) = (Some p', answer)" for lab i p' answer
  proof -
    have "named_fits (named_polls h ! i)" using assms find_named_poll(1) [OF that(1)] by (simp add: polls_fit_def)
    then show ?thesis using named_fits_vote that(2,3) assms by (intro written_save polls_fit_named)
  qed
  then show ?thesis
    by (simp add: session_handle_named_vote_def Let_def not_le split: option.split prod.split)
qed

lemma vote_line_written:
  assumes "polls_fit h" "session_vote_line True u line h = Some r"
  shows "written h (fst r)"
  using assms(2) named_vote_written [OF assms(1)] vote_written [OF assms(1)]
  by (auto simp: session_vote_line_def Let_def split: if_splits prod.splits)

text \<open>The commands of a time in which the file can be written.\<close>

fun poll_event_writable :: "poll_event \<Rightarrow> bool" where
  "poll_event_writable (PollCommand w u arguments) = w"
| "poll_event_writable (VoteCommand w multiple u arguments) = w"
| "poll_event_writable (ElectCommand w u arguments) = w"
| "poll_event_writable (VoteLine w u line) = w"
| "poll_event_writable (PreferenceStored name ip) = True"

lemma poll_step_written:
  assumes "polls_fit h" "poll_event_writable ev"
  shows "written h (poll_step ev h)"
proof (cases ev)
  case (VoteLine w u line)
  then show ?thesis using assms(2) vote_line_written [OF assms(1), of u line] by (simp split: option.split)
next
  case (ElectCommand w u arguments)
  then show ?thesis using assms(2) named_vote_written [OF assms(1)]
    by (simp add: session_handle_elect_command_def Let_def split: list.split prod.split)
qed (use assms poll_written vote_command_written in \<open>simp_all split: option.split prod.split\<close>)

section \<open>Starting from the file\<close>

abbreviation labelled :: "named_poll_state list \<Rightarrow> named_poll_state list" where
  "labelled ps \<equiv> filter (\<lambda>p. np_label p \<noteq> []) ps"

definition filed :: "poll_host \<Rightarrow> bool" where
  "filed h \<longleftrightarrow> polls_fit h \<and>
     (case vote_file h of
        None \<Rightarrow> main_poll h = main_poll host_polls_init \<and> named_polls h = named_polls host_polls_init
      | Some f \<Rightarrow> f = poll_file_of h)"

lemma polls_fit_init: "polls_fit host_polls_init"
  using poll_fits_reset
  by (simp add: polls_fit_def host_polls_init_def named_fits_def named_poll_reset_def voters_fit_def)

lemma filed_init: "filed host_polls_init"
  using polls_fit_init by (simp add: filed_def) (simp add: host_polls_init_def)

lemma filed_step:
  assumes "filed h" "written h h'"
  shows "filed h'"
  using assms(2) unfolding written_def
proof
  assume "main_poll h' = main_poll h \<and> named_polls h' = named_polls h \<and> vote_file h' = vote_file h"
  then show ?thesis using assms(1)
    by (simp add: filed_def polls_fit_def poll_file_of_def split: option.splits)
qed (simp add: filed_def)

interpretation poll_file_sys: invariant_system poll_step poll_event_writable filed
proof
  show "filed (poll_step ev h)" if "poll_event_writable ev" "filed h" for ev h
    using that(2) by (rule filed_step) (use that in \<open>simp add: filed_def poll_step_written\<close>)
qed

lemma labelled_reset [simp]: "labelled (map named_poll_reset ps) = []"
  by (induction ps) (simp_all add: named_poll_reset_def)

lemma load_named:
  assumes "polls_fit h"
  shows "labelled (map import_named_poll (take MAX_NAMED_POLLS (map export_named_poll (labelled (named_polls h))))) =
     labelled (named_polls h)"
proof -
  have "length (labelled (named_polls h)) \<le> MAX_NAMED_POLLS"
    using assms length_filter_le [of _ "named_polls h"] by (simp add: polls_fit_def)
  moreover have "map import_named_poll (map export_named_poll (labelled (named_polls h))) = labelled (named_polls h)"
    unfolding map_map by (intro map_idI) (use assms import_export_same in \<open>simp add: polls_fit_def\<close>)
  ultimately show ?thesis by simp
qed

lemma counted_labelled:
  "length (filter (\<lambda>p. np_label p \<noteq> [] \<and> p_active (np_poll p)) ps) = length (filter (\<lambda>p. p_active (np_poll p)) (labelled ps))"
  by (simp add: conj_commute)

text \<open>
  C28: As long as the file of votes can be written, a host that starts from it after any
  commands has the main poll, the named polls with their voters and the count of active
  polls of the host that wrote it; only the slots of the table may differ.
\<close>

theorem vote_file_restores_polls:
  assumes "list_all poll_event_ok evs" "list_all poll_event_writable evs" "h = fold poll_step evs host_polls_init"
    and "r = host_vote_state_load (host_polls_init\<lparr>vote_file := vote_file h\<rparr>)"
  shows "main_poll r = main_poll h \<and> labelled (named_polls r) = labelled (named_polls h) \<and>
     named_poll_count r = named_poll_count h"
proof -
  have filed: "filed h" using poll_file_sys.inv_run [OF assms(2) filed_init] assms(3) by (simp add: poll_file_sys.run_def)
  have "table_ok h" using poll_sys.inv_run [OF assms(1) table_ok_init] assms(3) by (simp add: poll_sys.run_def)
  then have count: "named_poll_count h = length (filter (\<lambda>p. p_active (np_poll p)) (labelled (named_polls h)))"
    unfolding counted_labelled [symmetric] by (simp add: table_ok_def)
  show ?thesis
  proof (cases "vote_file h")
    case None
    then have same: "main_poll h = main_poll host_polls_init" "named_polls h = named_polls host_polls_init"
      using filed by (simp_all add: filed_def)
    have "labelled (named_polls host_polls_init) = []" by (simp add: host_polls_init_def named_poll_reset_def)
    then have "named_poll_count host_polls_init = named_poll_count h"
      unfolding count same by (simp add: host_polls_init_def)
    then show ?thesis using None same by (simp add: assms(4) host_vote_state_load_def)
  next
    case (Some f)
    then have fit: "polls_fit h" and content: "f = poll_file_of h" using filed by (simp_all add: filed_def)
    have main: "main_poll r = main_poll h"
      using fit Some content export_same import_same
      by (simp add: assms(4) host_vote_state_load_def Let_def poll_file_of_def polls_fit_def)
    have named: "labelled (named_polls r) = labelled (named_polls h)"
      using Some content load_named [OF fit] by (simp add: assms(4) host_vote_state_load_def Let_def poll_file_of_def)
    have "named_poll_count r = length (filter (\<lambda>p. p_active (np_poll p)) (labelled (named_polls r)))"
      unfolding counted_labelled [symmetric] using Some by (simp add: assms(4) host_vote_state_load_def Let_def)
    then show ?thesis using main named count by simp
  qed
qed

theorem vote_file_restores_polls_witness:
  "main_poll (host_vote_state_load (host_polls_init\<lparr>vote_file := vote_file poll_example_end\<rparr>)) = main_poll poll_example_end \<and>
   map np_label (labelled (named_polls (host_vote_state_load (host_polls_init\<lparr>vote_file := vote_file poll_example_end\<rparr>)))) =
     map np_label (labelled (named_polls poll_example_end)) \<and>
   np_label (named_polls poll_example_end ! 0) = ''lunch''"
proof -
  have e: "list_all poll_event_ok poll_example" "list_all poll_event_writable poll_example" by code_simp+
  show ?thesis
    using vote_file_restores_polls [OF e poll_example_end_def refl] poll_example_facts by simp
qed

end
