(* ===== verification/Poll_Main.thy ===== *)
theory Poll_Main
  imports Poll_File
begin

text \<open>
  The main poll: its votes are those of the preferences that name it, and who votes twice.
\<close>

section \<open>Votes in the preferences\<close>

definition voted :: "nat \<Rightarrow> nat \<Rightarrow> poll_preference \<Rightarrow> bool" where
  "voted i k pref \<longleftrightarrow> last_poll_id pref = i \<and> last_poll_choice pref = int k"

definition main_tallied :: "poll_state \<Rightarrow> poll_preference list \<Rightarrow> bool" where
  "main_tallied p prefs \<longleftrightarrow> (\<forall>k<5. votes p k = length (filter (voted (p_id p) k) prefs))"

definition pref_ok :: "poll_state \<Rightarrow> poll_preference \<Rightarrow> bool" where
  "pref_ok p pref \<longleftrightarrow> last_poll_id pref \<le> p_id p \<and>
     (if last_poll_id pref = p_id p then last_poll_choice pref < int (p_option_count p) else True)"

definition main_ok :: "poll_state \<Rightarrow> poll_preference list \<Rightarrow> bool" where
  "main_ok p prefs \<longleftrightarrow> \<not> p_allow_multiple p \<and> length (p_options p) = 5 \<and> p_option_count p \<le> 5 \<and>
     length prefs \<le> MAX_PREFERENCES \<and> list_all (pref_ok p) prefs \<and> main_tallied p prefs"

lemma main_okD:
  assumes "main_ok p prefs"
  shows "\<not> p_allow_multiple p" "length (p_options p) = 5" "p_option_count p \<le> 5" "length prefs \<le> 1024"
    "pref \<in> set prefs \<Longrightarrow> pref_ok p pref" "main_tallied p prefs"
  using assms by (auto simp: main_ok_def MAX_PREFERENCES_def list_all_iff)

lemma main_votes_bound:
  assumes "main_ok p prefs" "k < 5"
  shows "votes p k < UINT_MAX"
proof -
  have "votes p k \<le> length prefs" using main_okD(6) [OF assms(1)] assms(2) by (simp add: main_tallied_def)
  then show ?thesis using main_okD(4) [OF assms(1)] by (simp add: UINT_MAX_def)
qed

lemma main_ok_active [simp]: "main_ok (p\<lparr>p_active := b\<rparr>) prefs = main_ok p prefs"
proof -
  have "pref_ok (p\<lparr>p_active := b\<rparr>) = pref_ok p" by (intro ext) (simp add: pref_ok_def)
  then show ?thesis by (simp add: main_ok_def main_tallied_def votes_def)
qed

text \<open>A new poll has a number that no preference has.\<close>

lemma main_ok_started:
  assumes "main_ok p prefs" "length opts \<le> 5" "p_id p + 1 < 2 ^ 64"
  shows "main_ok (started_poll False question opts p) prefs"
proof -
  have n: "next_poll_id (p_id p) = p_id p + 1" using assms(3) by (simp add: next_poll_id_def)
  have old: "\<forall>pref\<in>set prefs. last_poll_id pref \<le> p_id p" using main_okD(5) [OF assms(1)] by (simp add: pref_ok_def)
  have "votes (started_poll False question opts p) k = 0" if "k < 5" for k
    using that assms(2) by (simp add: votes_def started_poll_def nth_append no_option_def)
  moreover have "filter (voted (Suc (p_id p)) k) prefs = []" for k
    using old by (force simp: filter_empty_conv voted_def)
  ultimately show ?thesis using assms old n main_okD(4) [OF assms(1)]
    by (fastforce simp: main_ok_def main_tallied_def started_poll_def poll_state_reset_def pref_ok_def list_all_iff
        MAX_PREFERENCES_def)
qed

text \<open>A preference that is made or found, and what a vote does to it.\<close>

definition fresh_pref :: "poll_preference \<Rightarrow> bool" where
  "fresh_pref pref \<longleftrightarrow> last_poll_id pref = 0 \<and> last_poll_choice pref = -1"

lemma ensure_preference:
  assumes "host_ensure_preference_locked name ip prefs = Some (i, prefs')"
  shows "i < length prefs'"
    "prefs' = prefs \<or> (\<exists>pref. prefs' = prefs @ [pref] \<and> fresh_pref pref) \<and> length prefs < MAX_PREFERENCES"
  using assms
  by (auto simp: host_ensure_preference_locked_def host_find_preference_locked_def Let_def first_index_Some fresh_pref_def
      split: if_splits option.splits)

lemma main_ok_new:
  assumes "main_ok p prefs" "fresh_pref pref" "length prefs < MAX_PREFERENCES"
  shows "main_ok p (prefs @ [pref])"
  using assms by (auto simp: main_ok_def main_tallied_def pref_ok_def fresh_pref_def voted_def)

lemma main_ok_ensure:
  assumes "main_ok p prefs" "host_ensure_preference_locked name ip prefs = Some (i, prefs')"
  shows "main_ok p prefs'"
  using ensure_preference(2) [OF assms(2)] main_ok_new [OF assms(1)] assms(1) by blast

lemma main_ok_change:
  assumes "main_ok p prefs" "i < length prefs" "p_id p' = p_id p" "p_option_count p' = p_option_count p"
    and "p_allow_multiple p' = p_allow_multiple p" "length (p_options p') = 5" "pref_ok p pref"
    and "\<And>k. k < 5 \<Longrightarrow> votes p' k + (if voted (p_id p) k (prefs ! i) then 1 else 0) =
        votes p k + (if voted (p_id p) k pref then 1 else 0)"
  shows "main_ok p' (prefs[i := pref])"
proof -
  have ok: "pref_ok p' = pref_ok p" by (intro ext) (simp add: pref_ok_def assms(3,4))
  have "main_tallied p' (prefs[i := pref])"
    unfolding main_tallied_def
  proof (intro allI impI)
    fix k :: nat
    assume "k < 5"
    then show "votes p' k = length (filter (voted (p_id p') k) (prefs[i := pref]))"
      using assms(8) [of k] main_okD(6) [OF assms(1)] length_filter_update [OF assms(2), of "voted (p_id p) k" pref]
      by (simp add: main_tallied_def assms(3) split: if_splits)
  qed
  then show ?thesis
    using main_okD [OF assms(1)] assms(4-7) set_update_subset_insert [of prefs i pref] ok
    by (auto simp: main_ok_def list_all_iff MAX_PREFERENCES_def)
qed

section \<open>A vote in the main poll\<close>

text \<open>The choice a preference counts for: none where it names another poll.\<close>

definition counts_for :: "poll_state \<Rightarrow> poll_preference \<Rightarrow> int" where
  "counts_for p pref = (if last_poll_id pref = p_id p then last_poll_choice pref else -1)"

lemma voted_counts: "voted (p_id p) k pref \<longleftrightarrow> counts_for p pref = int k"
  by (auto simp: voted_def counts_for_def)

lemma main_vote_single:
  assumes "\<not> p_allow_multiple p"
  shows "main_vote k p pref =
     (if counts_for p pref = int k then None
      else Some (add_vote k (if 0 \<le> counts_for p pref \<and> nat (counts_for p pref) < p_option_count p
                             then take_vote (nat (counts_for p pref)) p else p),
                 pref\<lparr>last_poll_choice := int k, last_poll_id := p_id p\<rparr>, vote_recorded k))"
  using assms by (simp add: main_vote_def Let_def counts_for_def)

lemma main_ok_vote:
  assumes "main_ok p prefs" "k < p_option_count p" "i < length prefs" "main_vote k p (prefs ! i) = Some (p', pref', response)"
  shows "main_ok p' (prefs[i := pref'])"
proof -
  note ok = main_okD [OF assms(1)]
  define c where "c = counts_for p (prefs ! i)"
  have k: "k < 5" using assms(2) ok(3) by simp
  have p': "p' = add_vote k (if 0 \<le> c \<and> nat c < p_option_count p then take_vote (nat c) p else p)"
    and pref': "pref' = (prefs ! i)\<lparr>last_poll_choice := int k, last_poll_id := p_id p\<rparr>" and ne: "c \<noteq> int k"
    using assms(4) main_vote_single [OF ok(1)] by (auto simp: c_def split: if_splits)
  have new: "counts_for p pref' = int k" "pref_ok p pref'"
    using assms(2) by (simp_all add: pref' counts_for_def pref_ok_def)
  have bound: "votes p k < UINT_MAX" using main_votes_bound [OF assms(1) k] .
  show ?thesis
  proof (cases "0 \<le> c")
    case True
    define q where "q = nat c"
    have q: "c = int q" using True by (simp add: q_def)
    have "q < p_option_count p"
      using ok(5) [OF nth_mem [OF assms(3)]] q True by (auto simp: c_def counts_for_def pref_ok_def split: if_splits)
    then have q5: "q < 5" and p'q: "p' = add_vote k (take_vote q p)" using ok(3) q by (simp_all add: p')
    have "voted (p_id p) q (prefs ! i)" using q by (simp add: voted_counts c_def)
    then have pos: "0 < votes p q"
      using ok(6) q5 length_pos_if_in_set [of "prefs ! i" "filter (voted (p_id p) q) prefs"] nth_mem [OF assms(3)]
      by (simp add: main_tallied_def)
    have "votes (take_vote q p) k < UINT_MAX" using bound ne q q5 ok(2) by (simp add: votes_take)
    then show ?thesis using ok(2) k q5 pos ne q new
      by (intro main_ok_change [OF assms(1,3)]) (auto simp: p'q votes_add votes_take voted_counts c_def [symmetric])
  next
    case False
    then have p'q: "p' = add_vote k p" by (simp add: p')
    show ?thesis using ok(2) k False ne new bound
      by (intro main_ok_change [OF assms(1,3)]) (auto simp: p'q votes_add voted_counts c_def [symmetric])
  qed
qed

lemma main_ok_again:
  assumes "main_ok p prefs" "i < length prefs" "main_vote k p (prefs ! i) = None"
  shows "prefs[i := if last_poll_id (prefs ! i) \<noteq> p_id p
      then (prefs ! i)\<lparr>last_poll_id := p_id p, last_poll_choice := -1\<rparr> else prefs ! i] = prefs"
  using assms(3) main_vote_single [OF main_okD(1) [OF assms(1)]] by (auto simp: counts_for_def split: if_splits)

lemma session_vote_main:
  assumes "main_ok (main_poll h) (preferences h)" "h' = fst (session_handle_vote w u k h)"
  shows "main_ok (main_poll h') (preferences h')" "p_id (main_poll h') = p_id (main_poll h)"
proof -
  define p where "p = main_poll h"
  have "main_ok (main_poll h') (preferences h') \<and> p_id (main_poll h') = p_id (main_poll h)"
  proof (cases "p_active p \<and> k < p_option_count p \<and> host_ensure_preference_locked (pu_name u) (pu_ip u) (preferences h) \<noteq> None")
    case False
    then have "h' = h" by (auto simp: assms(2) session_handle_vote_def Let_def p_def split: option.split)
    then show ?thesis using assms(1) by simp
  next
    case True
    then obtain i prefs where e: "host_ensure_preference_locked (pu_name u) (pu_ip u) (preferences h) = Some (i, prefs)"
      by auto
    note i = ensure_preference(1) [OF e] and ok = main_ok_ensure [OF assms(1) e]
    have shape: "h' = (case main_vote k p (prefs ! i) of
         None \<Rightarrow> h\<lparr>preferences := prefs[i := if last_poll_id (prefs ! i) \<noteq> p_id p
             then (prefs ! i)\<lparr>last_poll_id := p_id p, last_poll_choice := -1\<rparr> else prefs ! i]\<rparr>
       | Some (p', pref', response) \<Rightarrow>
           host_vote_state_save_locked w (h\<lparr>main_poll := p', preferences := prefs[i := pref']\<rparr>))"
      using True e by (auto simp: assms(2) session_handle_vote_def Let_def p_def split: option.split)
    show ?thesis
    proof (cases "main_vote k p (prefs ! i)")
      case None
      then have "h' = h\<lparr>preferences := prefs\<rparr>"
        using shape main_ok_again [OF ok [folded p_def] i None] by (simp only: option.case)
      then show ?thesis using ok by simp
    next
      case (Some r)
      obtain p' pref' response where r: "r = (p', pref', response)" by (cases r)
      have v: "main_ok p' (prefs[i := pref'])"
        using main_ok_vote [OF ok [folded p_def] _ i] True Some r by blast
      have "p_id p' = p_id p" using Some r by (auto simp: main_vote_def Let_def split: if_splits)
      then show ?thesis using v Some r shape by (simp add: p_def)
    qed
  qed
  then show "main_ok (main_poll h') (preferences h')" "p_id (main_poll h') = p_id (main_poll h)" by blast+
qed

section \<open>Every run of commands\<close>

lemma named_commands_main [simp]:
  "main_poll (fst (session_handle_named_vote w u k label h)) = main_poll h"
  "preferences (fst (session_handle_named_vote w u k label h)) = preferences h"
  "main_poll (fst (vote_close w u label h)) = main_poll h" "preferences (fst (vote_close w u label h)) = preferences h"
  by (simp_all add: session_handle_named_vote_def vote_close_def Let_def split: option.split prod.split)

lemma vote_start_main [simp]:
  "main_poll (fst (vote_start w multiple u label question opts h)) = main_poll h"
  "preferences (fst (vote_start w multiple u label question opts h)) = preferences h"
proof -
  have e: "main_poll h' = main_poll h" "preferences h' = preferences h"
    if "host_ensure_named_poll_locked h label = Some (i, h')" for i h'
    using that by (auto simp: host_ensure_named_poll_locked_def split: option.splits if_splits)
  show "main_poll (fst (vote_start w multiple u label question opts h)) = main_poll h"
    "preferences (fst (vote_start w multiple u label question opts h)) = preferences h"
    by (cases "host_ensure_named_poll_locked h label"; use e in \<open>force simp: vote_start_def Let_def\<close>)+
qed

lemma vote_commands_main [simp]:
  "main_poll (fst (session_handle_vote_command w multiple u arguments h)) = main_poll h"
  "preferences (fst (session_handle_vote_command w multiple u arguments h)) = preferences h"
  "main_poll (fst (session_handle_elect_command w u arguments h)) = main_poll h"
  "preferences (fst (session_handle_elect_command w u arguments h)) = preferences h"
  by (simp_all add: session_handle_vote_command_def session_handle_elect_command_def Let_def
      split: option.split sum.split list.split prod.split)

lemma poll_command_main:
  assumes "main_ok (main_poll h) (preferences h)" "p_id (main_poll h) + 1 < 2 ^ 64"
    and "h' = fst (session_handle_poll w u arguments h)"
  shows "main_ok (main_poll h') (preferences h') \<and> p_id (main_poll h') \<le> p_id (main_poll h) + 1"
proof -
  have start: "main_ok (started_poll False question opts (main_poll h)) (preferences h)"
    if "session_poll_parse_fields input = Inr (question, opts)" for input question opts
    using main_ok_started [OF assms(1) parse_fields_length(2) [OF that] assms(2)] .
  have "p_id (started_poll False question opts p) \<le> p_id p + 1" if "p_id p + 1 < 2 ^ 64" for question opts p
    using that by (simp add: started_poll_def next_poll_id_def)
  then show ?thesis using assms(1,2) start
    by (simp add: assms(3) session_handle_poll_def Let_def split: sum.split)
qed

text \<open>The numbers of main polls do not run out before $2^{64}$ commands.\<close>

lemma poll_step_main:
  assumes "main_ok (main_poll h) (preferences h)" "p_id (main_poll h) + 1 < 2 ^ 64" "h' = poll_step ev h"
  shows "main_ok (main_poll h') (preferences h') \<and> p_id (main_poll h') \<le> p_id (main_poll h) + 1"
proof (cases ev)
  case (PollCommand w u arguments)
  then show ?thesis using poll_command_main [OF assms(1,2)] assms(3) by simp
next
  case (VoteLine w u line)
  show ?thesis
  proof (cases "session_vote_line w u line h")
    case None
    then show ?thesis using assms VoteLine by simp
  next
    case (Some r)
    then have "(\<exists>k. r = session_handle_vote w u k h) \<or> (\<exists>k label. r = session_handle_named_vote w u k label h)"
      by (auto simp: session_vote_line_def Let_def split: if_splits prod.splits)
    then show ?thesis using session_vote_main [OF assms(1) refl, of w u] assms VoteLine Some by auto
  qed
next
  case (PreferenceStored name ip)
  then show ?thesis using assms main_ok_ensure [OF assms(1)]
    by (simp split: option.split prod.split)
qed (use assms in simp_all)

lemma poll_run_main:
  assumes "main_ok (main_poll h) (preferences h)" "p_id (main_poll h) + length evs < 2 ^ 64"
  shows "main_ok (main_poll (fold poll_step evs h)) (preferences (fold poll_step evs h))"
  using assms
proof (induction evs arbitrary: h)
  case Nil
  then show ?case by simp
next
  case (Cons ev evs)
  have "p_id (main_poll h) + 1 < 2 ^ 64" using Cons.prems(2) by simp
  note s = poll_step_main [OF Cons.prems(1) this refl, of ev]
  have "p_id (main_poll (poll_step ev h)) + length evs < 2 ^ 64" using s Cons.prems(2) by simp
  then show ?case using Cons.IH [OF conjunct1 [OF s]] by simp
qed

lemma main_ok_init: "main_ok (main_poll host_polls_init) (preferences host_polls_init)"
  by (simp add: host_polls_init_def main_ok_def poll_state_reset_def zero_poll_def main_tallied_def votes_def no_option_def
      nth_replicate)

section \<open>One preference for every user\<close>

text \<open>Preferences are made for an address.\<close>

fun poll_event_addressed :: "poll_event \<Rightarrow> bool" where
  "poll_event_addressed (PollCommand w u arguments) = True"
| "poll_event_addressed (VoteCommand w multiple u arguments) = True"
| "poll_event_addressed (ElectCommand w u arguments) = True"
| "poll_event_addressed (VoteLine w u line) = (pu_ip u \<noteq> [] \<and> length (pu_name u) < POLL_NAME_LEN)"
| "poll_event_addressed (PreferenceStored name ip) = (ip \<noteq> [] \<and> length name < POLL_NAME_LEN)"

definition one_each :: "poll_preference list \<Rightarrow> bool" where
  "one_each prefs \<longleftrightarrow> distinct (map pref_username prefs) \<and> (\<forall>pref\<in>set prefs. pref_ip pref \<noteq> [] \<and> length (pref_username pref) < POLL_NAME_LEN)"

lemma one_each_ensure:
  assumes "one_each prefs" "ip \<noteq> []" "length name < POLL_NAME_LEN" "host_ensure_preference_locked name ip prefs = Some (i, prefs')"
  shows "one_each prefs'"
proof (cases "host_find_preference_locked prefs name ip")
  case (Some j)
  then have "j < length prefs"
    by (auto simp: host_find_preference_locked_def first_index_Some split: if_splits option.splits)
  then have "pref_ip (prefs ! j) \<noteq> []" using assms(1) by (simp add: one_each_def)
  then show ?thesis using assms(1,4) Some by (simp add: host_ensure_preference_locked_def Let_def split: if_splits)
next
  case None
  then have none: "\<forall>pref\<in>set prefs. \<not> strncmp_eq POLL_NAME_LEN (pref_username pref) name" "name \<noteq> []"
    using assms(4)
    by (auto simp: host_find_preference_locked_def host_ensure_preference_locked_def first_index_None split: if_splits option.splits)
  have "name \<notin> pref_username ` set prefs" using none(1) by (auto simp: strncmp_eq_def)
  then show ?thesis using assms None none
    by (auto simp: host_ensure_preference_locked_def Let_def one_each_def snprintf_into_def split: if_splits)
qed

lemma one_each_update:
  assumes "one_each prefs" "i < length prefs" "pref_username pref = pref_username (prefs ! i)" "pref_ip pref = pref_ip (prefs ! i)"
  shows "one_each (prefs[i := pref])"
proof -
  have "map pref_username (prefs[i := pref]) = map pref_username prefs"
    using assms(2,3) by (simp add: map_update list_update_same_conv)
  moreover have "pref_ip q \<noteq> [] \<and> length (pref_username q) < POLL_NAME_LEN" if "q \<in> set (prefs[i := pref])" for q
    using that assms(1,3,4) set_update_subset_insert [of prefs i pref] nth_mem [OF assms(2)]
    by (cases "q = pref") (auto simp: one_each_def)
  ultimately show ?thesis using assms(1) by (simp add: one_each_def)
qed

lemma main_vote_owner:
  "main_vote k p pref = Some (p', pref', response) \<Longrightarrow> pref_username pref' = pref_username pref \<and> pref_ip pref' = pref_ip pref"
  by (auto simp: main_vote_def Let_def split: if_splits)

lemma session_vote_one_each:
  assumes "one_each (preferences h)" "pu_ip u \<noteq> []" "length (pu_name u) < POLL_NAME_LEN"
  shows "one_each (preferences (fst (session_handle_vote w u k h)))"
proof (cases "host_ensure_preference_locked (pu_name u) (pu_ip u) (preferences h)")
  case None
  then show ?thesis using assms(1) by (simp add: session_handle_vote_def Let_def)
next
  case (Some r)
  obtain i prefs where r: "r = (i, prefs)" by fastforce
  note ok = one_each_ensure [OF assms Some [unfolded r]] and i = ensure_preference(1) [OF Some [unfolded r]]
  have again: "one_each (prefs[i := (prefs ! i)\<lparr>last_poll_id := n, last_poll_choice := -1\<rparr>])" for n
    by (rule one_each_update [OF ok i]) simp_all
  have vote: "one_each (prefs[i := pref'])" if "main_vote k p (prefs ! i) = Some (p', pref', response)" for p p' pref' response
    using main_vote_owner [OF that] by (intro one_each_update [OF ok i]) simp_all
  show ?thesis using Some r assms(1) ok again vote
    by (simp add: session_handle_vote_def Let_def split: option.split prod.split)
qed

lemma poll_step_one_each:
  assumes "poll_event_addressed ev" "one_each (preferences h)"
  shows "one_each (preferences (poll_step ev h))"
proof (cases ev)
  case (PollCommand w u arguments)
  then show ?thesis using assms(2) by (simp add: session_handle_poll_def Let_def split: sum.split)
next
  case (VoteLine w u line)
  show ?thesis
  proof (cases "session_vote_line w u line h")
    case None
    then show ?thesis using assms VoteLine by simp
  next
    case (Some r)
    then have "(\<exists>k. r = session_handle_vote w u k h) \<or> (\<exists>k label. r = session_handle_named_vote w u k label h)"
      by (auto simp: session_vote_line_def Let_def split: if_splits prod.splits)
    then show ?thesis using session_vote_one_each [OF assms(2)] assms VoteLine Some by auto
  qed
next
  case (PreferenceStored name ip)
  then show ?thesis using assms one_each_ensure [OF assms(2)]
    by (auto split: option.split prod.split)
qed (use assms in simp_all)

interpretation poll_pref_sys: invariant_system poll_step poll_event_addressed "\<lambda>h. one_each (preferences h)"
  by unfold_locales (rule poll_step_one_each)

section \<open>Properties\<close>

text \<open>
  In fewer than $2^{64}$ commands the votes of an option of the main poll are the number
  of preferences that name this poll and this option.  Where every preference was made for an
  address, these are as many different users.
\<close>

theorem main_poll_tally_exact:
  assumes "length evs < 2 ^ 64" "h = fold poll_step evs host_polls_init" "k < 5"
    and "prefs = filter (\<lambda>pref. last_poll_id pref = p_id (main_poll h) \<and> last_poll_choice pref = int k) (preferences h)"
  shows "po_votes (p_options (main_poll h) ! k) = length prefs \<and>
     (if list_all poll_event_addressed evs then distinct (map pref_username prefs) else True)"
proof -
  have "main_ok (main_poll h) (preferences h)"
    using poll_run_main [OF main_ok_init, of evs] assms(1,2) by (simp add: host_polls_init_def poll_state_reset_def zero_poll_def)
  then have "votes (main_poll h) k = length prefs"
    using main_okD(6) assms(3) by (simp add: main_tallied_def voted_def [abs_def] assms(4))
  moreover have "distinct (map pref_username prefs)" if "list_all poll_event_addressed evs"
  proof -
    have "one_each (preferences host_polls_init)" by (simp add: one_each_def host_polls_init_def)
    then have "one_each (preferences h)"
      using poll_pref_sys.inv_run [OF that] assms(2) by (simp add: poll_pref_sys.run_def)
    then show ?thesis by (simp add: assms(4) one_each_def distinct_map_filter)
  qed
  ultimately show ?thesis by (simp add: votes_def)
qed

definition main_example :: "poll_event list" where
  "main_example =
     [PollCommand False \<lparr>pu_name = ''op'', pu_ip = ''10.0.0.1'', pu_operator = True\<rparr> ''Tea?|Yes|No'',
      VoteLine False \<lparr>pu_name = ''bob'', pu_ip = ''10.0.0.2'', pu_operator = False\<rparr> ''/1'',
      VoteLine False \<lparr>pu_name = ''bob'', pu_ip = ''10.0.0.3'', pu_operator = False\<rparr> ''/2'']"

theorem main_poll_tally_exact_witness:
  "list_all poll_event_addressed main_example \<and>
   po_votes (p_options (main_poll (fold poll_step main_example host_polls_init)) ! 1) =
     length (filter (\<lambda>pref. last_poll_id pref = p_id (main_poll (fold poll_step main_example host_polls_init)) \<and>
        last_poll_choice pref = 1) (preferences (fold poll_step main_example host_polls_init)))"
proof -
  have "list_all poll_event_addressed main_example" by code_simp
  moreover have "length main_example < 2 ^ 64" by (simp add: main_example_def)
  ultimately show ?thesis using main_poll_tally_exact [of main_example, OF _ refl _ refl, of 1] by simp
qed

text \<open>Where a preference without an address has been made, as every setting of a user does,
  the same user votes once from every address.\<close>

lemma votes_of_one_user:
  "po_votes (p_options (main_poll (fold poll_step
     [PreferenceStored ''bob'' [],
      PollCommand False \<lparr>pu_name = ''op'', pu_ip = ''10.0.0.1'', pu_operator = True\<rparr> ''Tea?|Yes|No'',
      VoteLine False \<lparr>pu_name = ''bob'', pu_ip = ''10.0.0.2'', pu_operator = False\<rparr> ''/1'',
      VoteLine False \<lparr>pu_name = ''bob'', pu_ip = ''10.0.0.3'', pu_operator = False\<rparr> ''/1''] host_polls_init)) ! 0) = 2"
  by code_simp

end
