(* ===== verification/Bbs.thy ===== *)
theory Bbs
  imports Interfaces "HOL-Library.Word"
begin

unbundle bit_operations_syntax

text \<open>
  The bulletin board (\<^verbatim>\<open>src/host/commands/bbs.c\<close>, \<^verbatim>\<open>storage/bbs_storage.c\<close>): posts with
  comments and votes, notifications, reports, mutes, drafts and the log of the moderators.

  The slots of posts hold the address of their array of comments, as the struct does; the
  arrays themselves are a store beside the slots, so that two slots may share one.  The
  entries of the other tables are lists of the entries in use.  The arrays of the queues
  are taken to be allocated.  A command is one step under the lock of the host with one
  reading of the clock.  The clock, the scan of a text, the records of users, who is in
  the room, the workspace of the editor and the file system are arguments.  A file is as it
  was written.  The board stays loaded: its release while the room is empty, the removal of
  posts by the moderation service, the marks of what was read and the record of addresses are
  not modelled, nor are lists, searches and the drawing of posts.
\<close>

section \<open>State\<close>

record bbs_comment =
  c_author :: cstr
  c_text :: cstr
  c_created_at :: int
  c_edited_at :: int
  c_upvotes :: int
  c_downvotes :: int

record bbs_post =
  bp_in_use :: bool
  bp_id :: nat
  bp_board_id :: nat
  bp_mod_flags :: "8 word"
  bp_author :: cstr
  bp_title :: cstr
  bp_body :: cstr
  bp_tags :: "cstr list"
  bp_created_at :: int
  bp_bumped_at :: int
  bp_upvotes :: int
  bp_downvotes :: int
  bp_comments :: nat
  bp_comment_count :: nat

record bbs_vote =
  bv_post :: nat
  bv_comment :: int
  bv_voter :: cstr
  bv_type :: int
  bv_created_at :: int

record bbs_rate_limit_entry =
  rl_username :: cstr
  last_comment_at :: int
  last_post_at :: int

record bbs_notification =
  bn_kind :: int
  bn_to :: cstr
  bn_from :: cstr
  bn_post :: nat
  bn_comment :: int
  bn_created_at :: int

record bbs_report =
  br_post :: nat
  br_reporter :: cstr
  br_reason :: cstr
  br_status :: int
  br_created_at :: int

record bbs_mute =
  bm_username :: cstr
  bm_until :: int
  bm_muted_by :: cstr
  bm_created_at :: int

record bbs_modlog_entry =
  ml_created_at :: int
  ml_actor :: cstr
  ml_action :: cstr
  ml_target :: cstr

record bbs_draft =
  bd_in_use :: bool
  bd_id :: nat
  bd_author :: cstr
  bd_board_id :: nat
  bd_title :: cstr
  bd_body :: cstr
  bd_tags :: "cstr list"
  bd_created_at :: int

record bbs_board =
  bb_board_id :: nat
  bb_name :: cstr
  bb_description :: cstr
  bb_is_notice :: bool

record bbs_state_entry =
  se_post :: bbs_post
  se_comments :: "bbs_comment list"

record bbs_state_file =
  sf_next_id :: nat
  sf_posts :: "bbs_state_entry list"

record bbs_host =
  bbs_posts :: "bbs_post list"
  bbs_comment_arrays :: "bbs_comment list list"
  bbs_post_count :: nat
  next_bbs_id :: nat
  bbs_votes :: "bbs_vote list"
  bbs_vote_capacity :: nat
  bbs_rate_limits :: "bbs_rate_limit_entry list"
  bbs_notifications :: "bbs_notification list"
  bbs_reports :: "bbs_report list"
  bbs_mutes :: "bbs_mute list"
  bbs_modlog :: "bbs_modlog_entry list"
  bbs_drafts :: "bbs_draft list"
  bbs_boards :: "bbs_board list"
  bbs_comment_edit_enabled :: bool
  bbs_comment_delete_enabled :: bool
  bbs_state :: "bbs_state_file option"

record bbs_user =
  bu_name :: cstr
  bu_operator :: bool
  bu_lan_operator :: bool

datatype bbs_editor_mode = NoEditor | BbsCreate | BbsEdit

record bbs_session =
  bs_user :: bbs_user
  bs_post_pending :: bool
  bs_editor_mode :: bbs_editor_mode
  bs_edit_id :: nat
  bs_title :: cstr
  bs_body :: cstr
  bs_tags :: "cstr list"
  bs_board :: nat
  bs_view_active :: bool
  bs_view_post :: nat

record bbs_env =
  be_now :: int
  be_clean :: "cstr \<Rightarrow> bool"
  be_known_user :: "cstr \<Rightarrow> bool"
  be_room_operator :: "cstr \<Rightarrow> bool"
  be_storage :: bool
  be_workspace :: bool
  be_writable :: bool

text \<open>What a command sends: a line, a usage, the view of a post with a notice, or the editor.\<close>

datatype bbs_reply =
    BbsLine cstr | BbsUsage cstr | BbsView bbs_post "bbs_comment list" cstr | BbsEditor cstr

definition BBS_MAX_POSTS :: nat where "BBS_MAX_POSTS = 256"
definition BBS_MAX_COMMENTS :: nat where "BBS_MAX_COMMENTS = 64"
definition BBS_MAX_TAGS :: nat where "BBS_MAX_TAGS = 4"
definition BBS_MAX_RATE_LIMITS :: nat where "BBS_MAX_RATE_LIMITS = 128"
definition BBS_MAX_NOTIFICATIONS :: nat where "BBS_MAX_NOTIFICATIONS = 256"
definition BBS_MAX_REPORTS :: nat where "BBS_MAX_REPORTS = 256"
definition BBS_MAX_MUTES :: nat where "BBS_MAX_MUTES = 256"
definition BBS_MAX_MODLOG :: nat where "BBS_MAX_MODLOG = 512"
definition BBS_NAME_LEN :: nat where "BBS_NAME_LEN = 256"
definition BBS_TITLE_LEN :: nat where "BBS_TITLE_LEN = 512"
definition BBS_BODY_LEN :: nat where "BBS_BODY_LEN = 40960"
definition BBS_TAG_LEN :: nat where "BBS_TAG_LEN = 24"
definition BBS_COMMENT_LEN :: nat where "BBS_COMMENT_LEN = 512"
definition BBS_LINE_LEN :: nat where "BBS_LINE_LEN = 4096"
definition BBS_ID_SANE_MAX :: nat where "BBS_ID_SANE_MAX = 2 ^ 40"

definition bbs_operator :: "bbs_user \<Rightarrow> bool" where
  "bbs_operator u \<longleftrightarrow> bu_operator u \<or> bu_lan_operator u"

definition zero_comment :: bbs_comment where
  "zero_comment = \<lparr>c_author = [], c_text = [], c_created_at = 0, c_edited_at = 0, c_upvotes = 0, c_downvotes = 0\<rparr>"

section \<open>Column resets\<close>

definition host_column_reset_sequence_length :: "cstr \<Rightarrow> nat" where
  "host_column_reset_sequence_length s =
     (if take 4 s = CHR 0x1B # ''[1G'' then 4 else if take 3 s = ''[1G'' then 3 else 0)"

function host_strip_column_reset :: "cstr \<Rightarrow> cstr" where
  "host_strip_column_reset [] = []"
| "host_strip_column_reset (c # s) =
     (if host_column_reset_sequence_length (c # s) > 0
      then host_strip_column_reset (drop (host_column_reset_sequence_length (c # s)) (c # s))
      else c # host_strip_column_reset s)"
  by pat_completeness auto
termination
  by (relation "measure length") (auto simp: host_column_reset_sequence_length_def split: if_splits)

section \<open>Posts and their comments\<close>

definition bbs_post_has_required_fields :: "bbs_post \<Rightarrow> bool" where
  "bbs_post_has_required_fields p \<longleftrightarrow> bp_in_use p \<and> bp_id p \<noteq> 0 \<and> bp_author p \<noteq> [] \<and> bp_title p \<noteq> []"

definition host_find_bbs_post_locked :: "bbs_host \<Rightarrow> nat \<Rightarrow> nat option" where
  "host_find_bbs_post_locked h i =
     (if i = 0 \<or> i > BBS_ID_SANE_MAX then None
      else first_index (\<lambda>p. bbs_post_has_required_fields p \<and> bp_id p = i) (bbs_posts h))"

definition post_comments :: "bbs_host \<Rightarrow> bbs_post \<Rightarrow> bbs_comment list" where
  "post_comments h p = bbs_comment_arrays h ! bp_comments p"

definition set_post :: "nat \<Rightarrow> bbs_post \<Rightarrow> bbs_host \<Rightarrow> bbs_host" where
  "set_post i p h = h\<lparr>bbs_posts := (bbs_posts h)[i := p]\<rparr>"

definition set_comments :: "nat \<Rightarrow> bbs_comment list \<Rightarrow> bbs_host \<Rightarrow> bbs_host" where
  "set_comments a cs h = h\<lparr>bbs_comment_arrays := (bbs_comment_arrays h)[a := cs]\<rparr>"

definition next_id_after :: "nat \<Rightarrow> nat" where
  "next_id_after i = (i + 1) mod 2 ^ 64"

definition host_allocate_bbs_post_locked :: "int \<Rightarrow> bbs_host \<Rightarrow> (nat \<times> bbs_host) option" where
  "host_allocate_bbs_post_locked now h =
     (case first_index (\<lambda>p. \<not> bp_in_use p) (bbs_posts h) of
        None \<Rightarrow> None
      | Some i \<Rightarrow>
          let p = bbs_posts h ! i;
              p' = p\<lparr>bp_in_use := True, bp_id := next_bbs_id h, bp_tags := [], bp_comment_count := 0,
                     bp_created_at := now, bp_bumped_at := now, bp_title := [], bp_body := [], bp_author := []\<rparr>;
              cs = map (\<lambda>c. c\<lparr>c_author := [], c_text := [], c_created_at := 0\<rparr>) (post_comments h p)
          in Some (i, set_comments (bp_comments p) cs (set_post i p' h)
               \<lparr>next_bbs_id := next_id_after (next_bbs_id h),
                bbs_post_count := (if bbs_post_count h < BBS_MAX_POSTS then bbs_post_count h + 1 else bbs_post_count h)\<rparr>))"

definition reset_post :: "bbs_post \<Rightarrow> bbs_post" where
  "reset_post p = p\<lparr>bp_in_use := False, bp_id := 0, bp_mod_flags := 0, bp_author := [], bp_title := [], bp_body := [],
     bp_tags := [], bp_created_at := 0, bp_bumped_at := 0, bp_comment_count := 0\<rparr>"

definition host_reset_bbs_post :: "nat \<Rightarrow> bbs_host \<Rightarrow> bbs_host" where
  "host_reset_bbs_post i h =
     (let p = bbs_posts h ! i
      in set_comments (bp_comments p)
           (map (\<lambda>c. c\<lparr>c_author := [], c_text := [], c_created_at := 0, c_edited_at := 0\<rparr>) (post_comments h p))
           (set_post i (reset_post p) h))"

definition host_clear_bbs_post_locked :: "nat \<Rightarrow> bbs_host \<Rightarrow> bbs_host" where
  "host_clear_bbs_post_locked i h =
     (let h1 = host_reset_bbs_post i h;
          n = length (bbs_posts h1)
      in case compact_loop bp_in_use n 0 0 (bbs_posts h1) of
           (posts, used) \<Rightarrow>
             fold host_reset_bbs_post [used..<n] (h1\<lparr>bbs_posts := posts\<rparr>)\<lparr>bbs_post_count := used\<rparr>)"

section \<open>Limits on the rate of posts and comments\<close>

definition host_bbs_rate_limit_find_locked :: "bbs_host \<Rightarrow> cstr \<Rightarrow> nat option" where
  "host_bbs_rate_limit_find_locked h username =
     first_index (\<lambda>e. strncmp_eq BBS_NAME_LEN (rl_username e) username) (bbs_rate_limits h)"

fun rate_limit_slot :: "int \<Rightarrow> nat \<Rightarrow> nat \<Rightarrow> bbs_rate_limit_entry list \<Rightarrow> nat" where
  "rate_limit_slot oldest slot idx [] = slot"
| "rate_limit_slot oldest slot idx (e # es) =
     (let stamp = (if last_post_at e > last_comment_at e then last_post_at e else last_comment_at e)
      in if stamp < oldest then rate_limit_slot stamp idx (idx + 1) es else rate_limit_slot oldest slot (idx + 1) es)"

definition fresh_rate_limit :: "cstr \<Rightarrow> bbs_rate_limit_entry" where
  "fresh_rate_limit username = \<lparr>rl_username = snprintf_into BBS_NAME_LEN username, last_comment_at = 0, last_post_at = 0\<rparr>"

definition host_bbs_rate_limit_ensure_locked :: "bbs_host \<Rightarrow> cstr \<Rightarrow> (nat \<times> bbs_host) option" where
  "host_bbs_rate_limit_ensure_locked h username =
     (if username = [] then None
      else case host_bbs_rate_limit_find_locked h username of
             Some i \<Rightarrow> Some (i, h)
           | None \<Rightarrow>
               if length (bbs_rate_limits h) < BBS_MAX_RATE_LIMITS
               then Some (length (bbs_rate_limits h), h\<lparr>bbs_rate_limits := bbs_rate_limits h @ [fresh_rate_limit username]\<rparr>)
               else let slot = rate_limit_slot (-1) 0 0 (bbs_rate_limits h)
                    in Some (slot, h\<lparr>bbs_rate_limits := (bbs_rate_limits h)[slot := fresh_rate_limit username]\<rparr>))"

section \<open>Notifications\<close>

definition host_bbs_notification_enqueue_locked ::
    "int \<Rightarrow> int \<Rightarrow> cstr \<Rightarrow> cstr \<Rightarrow> nat \<Rightarrow> int \<Rightarrow> bbs_host \<Rightarrow> bbs_host" where
  "host_bbs_notification_enqueue_locked now kind to_name from_name post comment h =
     (if to_name = [] \<or> from_name = [] then h
      else let queue = (if length (bbs_notifications h) \<ge> BBS_MAX_NOTIFICATIONS then tl (bbs_notifications h)
                        else bbs_notifications h)
           in h\<lparr>bbs_notifications := queue @
                [\<lparr>bn_kind = kind, bn_to = snprintf_into BBS_NAME_LEN to_name, bn_from = snprintf_into BBS_NAME_LEN from_name,
                  bn_post = post, bn_comment = comment, bn_created_at = now\<rparr>]\<rparr>)"

definition host_bbs_notification_drop_for_post_locked :: "nat \<Rightarrow> bbs_host \<Rightarrow> bbs_host" where
  "host_bbs_notification_drop_for_post_locked post h =
     h\<lparr>bbs_notifications := compact (\<lambda>n. bn_post n \<noteq> post) (bbs_notifications h)\<rparr>"

definition mention_char :: "char \<Rightarrow> bool" where
  "mention_char c \<longleftrightarrow> c_isalnum c \<or> c = CHR ''_''"

function session_bbs_scan_mentions :: "nat \<Rightarrow> cstr list \<Rightarrow> cstr \<Rightarrow> cstr list" where
  "session_bbs_scan_mentions max_names found text =
     (if text = [] \<or> length found \<ge> max_names then found
      else case dropWhile (\<lambda>c. c \<noteq> CHR ''@'') text of
             [] \<Rightarrow> found
           | _ # rest \<Rightarrow>
               let name = take (BBS_NAME_LEN - 1) (takeWhile mention_char rest)
               in session_bbs_scan_mentions max_names
                    (if name = [] \<or> list_ex (\<lambda>n. strncmp_eq BBS_NAME_LEN n name) found then found else found @ [name])
                    (drop (length name) rest))"
  by pat_completeness auto
termination
proof (relation "measure (\<lambda>(max_names, found, text). length text)", goal_cases)
  case (2 max_names found s a rest name)
  then have "Suc (length rest) \<le> length s" using length_dropWhile_le [of "\<lambda>c. c \<noteq> CHR ''@''" s] by simp
  then show ?case by simp
qed simp

declare session_bbs_scan_mentions.simps [simp del]

definition session_bbs_notify_mentions_locked :: "bbs_env \<Rightarrow> cstr \<Rightarrow> cstr \<Rightarrow> nat \<Rightarrow> int \<Rightarrow> bbs_host \<Rightarrow> bbs_host" where
  "session_bbs_notify_mentions_locked env text actor post comment h =
     fold (\<lambda>name h.
         if strncmp_eq BBS_NAME_LEN name actor \<or> \<not> be_known_user env name then h
         else host_bbs_notification_enqueue_locked (be_now env) 1 name actor post comment h)
       (session_bbs_scan_mentions 8 [] text) h"

section \<open>Reports, mutes and the log of the moderators\<close>

definition host_bbs_report_enqueue_locked :: "int \<Rightarrow> nat \<Rightarrow> cstr \<Rightarrow> cstr \<Rightarrow> bbs_host \<Rightarrow> bool \<times> bbs_host" where
  "host_bbs_report_enqueue_locked now post reporter reason h =
     (if reporter = [] then (False, h)
      else if list_ex (\<lambda>r. br_post r = post \<and> br_status r = 0 \<and> strncmp_eq BBS_NAME_LEN (br_reporter r) reporter) (bbs_reports h)
      then (False, h)
      else let victim = (case first_index (\<lambda>r. br_status r \<noteq> 0) (bbs_reports h) of None \<Rightarrow> 0 | Some i \<Rightarrow> i);
               queue = (if length (bbs_reports h) \<ge> BBS_MAX_REPORTS
                        then take victim (bbs_reports h) @ drop (Suc victim) (bbs_reports h) else bbs_reports h)
           in (True, h\<lparr>bbs_reports := queue @
                [\<lparr>br_post = post, br_reporter = snprintf_into BBS_NAME_LEN reporter, br_reason = snprintf_into 128 reason,
                  br_status = 0, br_created_at = now\<rparr>]\<rparr>))"

definition host_bbs_reports_resolve_for_post_locked :: "nat \<Rightarrow> bbs_host \<Rightarrow> bbs_host" where
  "host_bbs_reports_resolve_for_post_locked post h =
     h\<lparr>bbs_reports := map (\<lambda>r. if br_post r = post \<and> br_status r = 0 then r\<lparr>br_status := 1\<rparr> else r) (bbs_reports h)\<rparr>"

definition host_bbs_mute_find_locked :: "bbs_host \<Rightarrow> cstr \<Rightarrow> nat option" where
  "host_bbs_mute_find_locked h username = first_index (\<lambda>m. strncmp_eq BBS_NAME_LEN (bm_username m) username) (bbs_mutes h)"

definition host_bbs_mute_active_locked :: "bbs_host \<Rightarrow> cstr \<Rightarrow> int \<Rightarrow> bool" where
  "host_bbs_mute_active_locked h username now =
     (case host_bbs_mute_find_locked h username of
        None \<Rightarrow> False
      | Some i \<Rightarrow> bm_until (bbs_mutes h ! i) = 0 \<or> now < bm_until (bbs_mutes h ! i))"

definition host_bbs_mute_set_locked :: "int \<Rightarrow> cstr \<Rightarrow> int \<Rightarrow> cstr \<Rightarrow> bbs_host \<Rightarrow> bbs_host" where
  "host_bbs_mute_set_locked now username until muted_by h =
     (if username = [] then h
      else case host_bbs_mute_find_locked h username of
             Some i \<Rightarrow>
               h\<lparr>bbs_mutes := (bbs_mutes h)[i := (bbs_mutes h ! i)
                 \<lparr>bm_until := until, bm_muted_by := snprintf_into BBS_NAME_LEN muted_by, bm_created_at := now\<rparr>]\<rparr>
           | None \<Rightarrow>
               h\<lparr>bbs_mutes := (if length (bbs_mutes h) \<ge> BBS_MAX_MUTES then tl (bbs_mutes h) else bbs_mutes h) @
                 [\<lparr>bm_username = snprintf_into BBS_NAME_LEN username, bm_until = until,
                   bm_muted_by = snprintf_into BBS_NAME_LEN muted_by, bm_created_at = now\<rparr>]\<rparr>)"

definition host_bbs_mute_remove_locked :: "cstr \<Rightarrow> bbs_host \<Rightarrow> bool \<times> bbs_host" where
  "host_bbs_mute_remove_locked username h =
     (case host_bbs_mute_find_locked h username of
        None \<Rightarrow> (False, h)
      | Some i \<Rightarrow> (True, h\<lparr>bbs_mutes := take i (bbs_mutes h) @ drop (Suc i) (bbs_mutes h)\<rparr>))"

definition session_bbs_mute_blocks_locked :: "int \<Rightarrow> bbs_user \<Rightarrow> bbs_host \<Rightarrow> bool" where
  "session_bbs_mute_blocks_locked now u h \<longleftrightarrow> \<not> bbs_operator u \<and> host_bbs_mute_active_locked h (bu_name u) now"

definition host_bbs_modlog_append_locked :: "int \<Rightarrow> cstr \<Rightarrow> cstr \<Rightarrow> cstr \<Rightarrow> bbs_host \<Rightarrow> bbs_host" where
  "host_bbs_modlog_append_locked now actor action target h =
     h\<lparr>bbs_modlog := (if length (bbs_modlog h) \<ge> BBS_MAX_MODLOG then tl (bbs_modlog h) else bbs_modlog h) @
       [\<lparr>ml_created_at = now, ml_actor = snprintf_into BBS_NAME_LEN actor, ml_action = snprintf_into 24 action,
         ml_target = snprintf_into BBS_NAME_LEN target\<rparr>]\<rparr>"

section \<open>The file of posts\<close>

definition export_post :: "bbs_host \<Rightarrow> bbs_post \<Rightarrow> bbs_state_entry" where
  "export_post h p =
     \<lparr>se_post = p\<lparr>bp_author := snprintf_into BBS_NAME_LEN (bp_author p), bp_title := snprintf_into BBS_TITLE_LEN (bp_title p),
        bp_body := snprintf_into BBS_BODY_LEN (bp_body p),
        bp_tags := map (snprintf_into BBS_TAG_LEN) (take BBS_MAX_TAGS (bp_tags p)),
        bp_comments := 0, bp_comment_count := min BBS_MAX_COMMENTS (bp_comment_count p)\<rparr>,
      se_comments = map (\<lambda>c. c\<lparr>c_author := snprintf_into BBS_NAME_LEN (c_author c), c_text := snprintf_into BBS_COMMENT_LEN (c_text c)\<rparr>)
        (take (min BBS_MAX_COMMENTS (bp_comment_count p)) (post_comments h p))\<rparr>"

definition host_bbs_state_save_locked :: "bbs_env \<Rightarrow> bbs_host \<Rightarrow> bbs_host" where
  "host_bbs_state_save_locked env h =
     (if be_writable env
      then h\<lparr>bbs_state := Some \<lparr>sf_next_id = next_bbs_id h, sf_posts = map (export_post h) (filter bp_in_use (bbs_posts h))\<rparr>\<rparr>
      else h)"

definition host_bbs_text_has_disallowed_controls :: "cstr \<Rightarrow> bool" where
  "host_bbs_text_has_disallowed_controls s \<longleftrightarrow>
     list_ex (\<lambda>c. c \<noteq> CHR 0x0A \<and> c \<noteq> CHR 0x0D \<and> c \<noteq> CHR 0x09 \<and> (code c < 0x20 \<or> code c = 0x7F)) s"

definition host_bbs_serialized_has_required_fields :: "bbs_post \<Rightarrow> bool" where
  "host_bbs_serialized_has_required_fields p \<longleftrightarrow> bp_id p \<noteq> 0 \<and> bp_author p \<noteq> [] \<and> bp_title p \<noteq> []"

definition host_bbs_serialized_is_sane :: "bbs_post \<Rightarrow> int \<Rightarrow> bool" where
  "host_bbs_serialized_is_sane p now \<longleftrightarrow>
     \<not> host_bbs_text_has_disallowed_controls (bp_author p) \<and> \<not> host_bbs_text_has_disallowed_controls (bp_title p) \<and>
     946684800 \<le> bp_created_at p \<and> bp_created_at p \<le> bp_bumped_at p \<and> bp_bumped_at p \<le> now + 7 * 24 * 60 * 60 \<and>
     \<not> c_strstr (bp_title p) ''[BREAKING NEWS]''"

definition normalize_entry :: "int \<Rightarrow> bbs_state_entry \<Rightarrow> bbs_state_entry" where
  "normalize_entry now e =
     (let p = se_post e;
          created = (if bp_created_at p \<le> 0 then now else bp_created_at p)
      in e\<lparr>se_post := p\<lparr>bp_created_at := created,
              bp_bumped_at := (if bp_bumped_at p \<le> 0 \<or> bp_bumped_at p < created then created else bp_bumped_at p)\<rparr>,
           se_comments := map (\<lambda>c. if c_created_at c \<le> 0 then c\<lparr>c_created_at := now\<rparr> else c) (se_comments e)\<rparr>)"

text \<open>An entry goes into the slot after those already filled, with the comments at the
  front of the array of the slot.\<close>

definition import_entry :: "bbs_state_entry \<Rightarrow> bbs_host \<Rightarrow> bbs_host" where
  "import_entry e h =
     (let i = bbs_post_count h;
          a = bp_comments (bbs_posts h ! i);
          p = se_post e;
          cs = map (\<lambda>c. c\<lparr>c_author := host_strip_column_reset (c_author c), c_text := host_strip_column_reset (c_text c)\<rparr>)
                 (take BBS_MAX_COMMENTS (se_comments e))
      in set_comments a (cs @ drop (length cs) (bbs_comment_arrays h ! a))
           (set_post i (p\<lparr>bp_in_use := True, bp_author := host_strip_column_reset (bp_author p),
               bp_title := host_strip_column_reset (bp_title p), bp_body := host_strip_column_reset (bp_body p),
               bp_tags := map host_strip_column_reset (take BBS_MAX_TAGS (bp_tags p)),
               bp_comments := a, bp_comment_count := length cs\<rparr>) h)\<lparr>bbs_post_count := i + 1\<rparr>)"

fun import_entries :: "int \<Rightarrow> nat \<Rightarrow> nat \<Rightarrow> bbs_state_entry list \<Rightarrow> bbs_host \<Rightarrow> nat \<times> bbs_host" where
  "import_entries now idx max_id [] h = (max_id, h)"
| "import_entries now idx max_id (e0 # es) h =
     (let e = normalize_entry now e0
      in if \<not> host_bbs_serialized_has_required_fields (se_post e) \<or> \<not> host_bbs_serialized_is_sane (se_post e) now
         then import_entries now (idx + 1) max_id es h
         else import_entries now (idx + 1) (max max_id (bp_id (se_post e))) es
                (if idx \<ge> length (bbs_posts h) then h else import_entry e h))"

definition clear_slot :: "nat \<Rightarrow> bbs_host \<Rightarrow> bbs_host" where
  "clear_slot i h =
     (let p = bbs_posts h ! i
      in set_comments (bp_comments p) (replicate BBS_MAX_COMMENTS zero_comment)
           (set_post i (p\<lparr>bp_in_use := False, bp_id := 0, bp_board_id := 0, bp_author := [], bp_title := [], bp_body := [],
               bp_tags := [], bp_created_at := 0, bp_bumped_at := 0, bp_upvotes := 0, bp_downvotes := 0,
               bp_comment_count := 0\<rparr>) h))"

definition host_bbs_state_load :: "int \<Rightarrow> bbs_host \<Rightarrow> bbs_host" where
  "host_bbs_state_load clock h =
     (case bbs_state h of
        None \<Rightarrow> h
      | Some f \<Rightarrow>
          let now = (if clock \<le> 0 then 1 else clock);
              h1 = fold clear_slot [0..<length (bbs_posts h)] h\<lparr>bbs_post_count := 0\<rparr>
          in case import_entries now 0 0 (sf_posts f) h1 of
               (max_id, h2) \<Rightarrow>
                 h2\<lparr>next_bbs_id := (if sf_next_id f = 0 \<or> sf_next_id f \<le> max_id then next_id_after max_id else sf_next_id f)\<rparr>)"

section \<open>The board of a new host\<close>

definition zero_post :: "nat \<Rightarrow> bbs_post" where
  "zero_post a = \<lparr>bp_in_use = False, bp_id = 0, bp_board_id = 0, bp_mod_flags = 0, bp_author = [], bp_title = [], bp_body = [],
     bp_tags = [], bp_created_at = 0, bp_bumped_at = 0, bp_upvotes = 0, bp_downvotes = 0, bp_comments = a, bp_comment_count = 0\<rparr>"

definition host_bbs_acquire_storage :: "bbs_host \<Rightarrow> bbs_host" where
  "host_bbs_acquire_storage h =
     h\<lparr>bbs_posts := map zero_post [0..<BBS_MAX_POSTS],
       bbs_comment_arrays := replicate BBS_MAX_POSTS (replicate BBS_MAX_COMMENTS zero_comment)\<rparr>"

definition default_boards :: "bbs_board list" where
  "default_boards =
     [\<lparr>bb_board_id = 0, bb_name = ''general'', bb_description = ''General discussion'', bb_is_notice = False\<rparr>,
      \<lparr>bb_board_id = 1, bb_name = ''notice'', bb_description = ''Notices and announcements'', bb_is_notice = True\<rparr>,
      \<lparr>bb_board_id = 2, bb_name = ''qna'', bb_description = ''Questions and answers'', bb_is_notice = False\<rparr>,
      \<lparr>bb_board_id = 3, bb_name = ''games'', bb_description = ''Game-related posts'', bb_is_notice = False\<rparr>]"

definition empty_draft :: bbs_draft where
  "empty_draft = \<lparr>bd_in_use = False, bd_id = 0, bd_author = [], bd_board_id = 0, bd_title = [], bd_body = [], bd_tags = [],
     bd_created_at = 0\<rparr>"

definition bbs_host_init :: "bool \<Rightarrow> bool \<Rightarrow> bbs_host" where
  "bbs_host_init edit_enabled delete_enabled =
     host_bbs_acquire_storage \<lparr>bbs_posts = [], bbs_comment_arrays = [], bbs_post_count = 0, next_bbs_id = 1, bbs_votes = [],
       bbs_vote_capacity = 8192, bbs_rate_limits = [], bbs_notifications = [], bbs_reports = [], bbs_mutes = [],
       bbs_modlog = [], bbs_drafts = replicate 8 empty_draft, bbs_boards = default_boards,
       bbs_comment_edit_enabled = edit_enabled, bbs_comment_delete_enabled = delete_enabled, bbs_state = None\<rparr>"


end
