(* ===== verification/Bbs_Commands.thy ===== *)
theory Bbs_Commands
  imports Bbs
begin

text \<open>
  The commands of the bulletin board: writing, changing and deleting posts and comments,
  votes, drafts, and the commands of the moderators (\<^verbatim>\<open>src/host/commands/bbs.c\<close>).

  Replies are the English texts, without the hint how to leave the editor.  The picker of
  avatars that opens before the editor stores a picture with the user and is left out, and so
  is the editor of pictures, which borrows the draft.
\<close>

section \<open>Numbers in arguments\<close>

text \<open>\<open>strtoull\<close> and \<open>strtol\<close> where the code looks at \<^verbatim>\<open>errno\<close>: \<open>None\<close> where the
  number does not fit.  Without digits the value is 0 and nothing is consumed.\<close>

definition number_digits :: "cstr \<Rightarrow> cstr" where
  "number_digits s =
     (let t = dropWhile c_isspace s
      in takeWhile c_isdigit (if t \<noteq> [] \<and> (hd t = CHR ''-'' \<or> hd t = CHR ''+'') then tl t else t))"

definition strtoull_checked :: "cstr \<Rightarrow> (nat \<times> cstr \<times> bool) option" where
  "strtoull_checked s = (if digits_val (number_digits s) > SIZE_MAX then None else Some (strtoul s))"

definition strtol_checked :: "cstr \<Rightarrow> (int \<times> cstr \<times> bool) option" where
  "strtol_checked s =
     (let v = int (digits_val (number_digits s))
      in if v > LLONG_MAX + 1 \<or> v = LLONG_MAX + 1 \<and> fst (strtol s) > 0 then None else Some (strtol s))"

text \<open>A post and the index of a comment, and the text after them.\<close>

definition parse_comment_target :: "cstr \<Rightarrow> (nat \<times> nat \<times> cstr) option" where
  "parse_comment_target arguments =
     (case strtoull_checked arguments of
        None \<Rightarrow> None
      | Some (post, rest, read) \<Rightarrow>
          if \<not> read \<or> rest = [] \<or> hd rest \<noteq> CHR '' '' then None
          else case strtol_checked rest of
                 None \<Rightarrow> None
               | Some (idx, rest, _) \<Rightarrow> if idx < 0 \<or> idx > 2147483647 then None else Some (post, nat idx, rest))"

section \<open>Drafting a post\<close>

definition session_bbs_is_admin_only_tag :: "cstr \<Rightarrow> bool" where
  "session_bbs_is_admin_only_tag tag \<longleftrightarrow>
     strcasecmp_eq tag ''manual'' \<or> strcasecmp_eq tag ''notice'' \<or>
     tag = [CHR 0xEC, CHR 0x84, CHR 0xA4, CHR 0xEB, CHR 0xAA, CHR 0x85, CHR 0xEC, CHR 0x84, CHR 0x9C] \<or>
     tag = [CHR 0xEA, CHR 0xB3, CHR 0xB5, CHR 0xEC, CHR 0xA7, CHR 0x80]"

definition session_bbs_reset_pending_post :: "bbs_session \<Rightarrow> bbs_session" where
  "session_bbs_reset_pending_post s =
     s\<lparr>bs_post_pending := False, bs_editor_mode := NoEditor, bs_edit_id := 0, bs_title := [], bs_body := [], bs_tags := []\<rparr>"

definition is_quote :: "char \<Rightarrow> bool" where
  "is_quote c \<longleftrightarrow> c = CHR 0x22 \<or> c = CHR 0x27"

text \<open>The title and the text of the tags.\<close>

definition piped_title :: "cstr \<Rightarrow> cstr" where
  "piped_title part =
     (let t = take BBS_TITLE_LEN part
      in take (BBS_TITLE_LEN - 1)
           (if length t > 1 \<and> is_quote (hd t) \<and> last t = hd t then c_trim (tl (butlast t)) else part))"

definition parse_title :: "cstr \<Rightarrow> cstr + cstr \<times> cstr" where
  "parse_title working =
     (let bar = (\<lambda>c. c = CHR ''|'');
          word = takeWhile (\<lambda>c. \<not> c_isspace c) working
      in if list_ex bar working
         then Inr (piped_title (c_trim (takeWhile (\<lambda>c. \<not> bar c) working)), c_trim (tl (dropWhile (\<lambda>c. \<not> bar c) working)))
         else if working \<noteq> [] \<and> is_quote (hd working)
         then let quote = hd working; rest = tl working
              in if quote \<notin> set rest then Inl ''Missing closing quote for the title.''
                 else Inr (take (BBS_TITLE_LEN - 1) (takeWhile (\<lambda>c. c \<noteq> quote) rest),
                           c_trim (tl (dropWhile (\<lambda>c. c \<noteq> quote) rest)))
         else Inr (take (BBS_TITLE_LEN - 1) word, c_trim (drop (length word) working)))"

text \<open>The first four tags, or the tag that only administrators may use.\<close>

fun parse_tags :: "bool \<Rightarrow> nat \<Rightarrow> cstr list \<Rightarrow> cstr + cstr list" where
  "parse_tags admin count [] = Inr []"
| "parse_tags admin count (w # ws) =
     (if count \<ge> BBS_MAX_TAGS then Inr []
      else let tag = take (BBS_TAG_LEN - 1) w
           in if \<not> admin \<and> session_bbs_is_admin_only_tag tag then Inl tag
              else case parse_tags admin (count + 1) ws of Inl t \<Rightarrow> Inl t | Inr tags \<Rightarrow> Inr (tag # tags))"

definition tag_notice :: "nat \<Rightarrow> cstr" where
  "tag_notice count =
     (if count = 0 then ''No tags provided; default tag '' @ [CHR 0x27] @ ''general'' @ [CHR 0x27] @ '' applied.''
      else if count > BBS_MAX_TAGS then ''Only the first four tags were kept. Extra tags were ignored.''
      else [])"

definition board_unavailable :: cstr where
  "board_unavailable = ''The bulletin board is unavailable right now.''"

definition session_bbs_begin_post :: "bbs_env \<Rightarrow> cstr \<Rightarrow> bbs_session \<Rightarrow> bbs_session \<times> bbs_reply list" where
  "session_bbs_begin_post env arguments s0 =
     (let usage = [BbsUsage ''post'', BbsLine ''Use | to separate tags when the title has spaces.''];
          s1 = s0\<lparr>bs_view_active := False, bs_view_post := 0\<rparr>;
          s = session_bbs_reset_pending_post s1;
          working = c_trim (snprintf_into BBS_LINE_LEN arguments)
      in if bs_post_pending s0 then (s0, [BbsLine ''You are already composing a post.''])
         else if \<not> be_storage env then (s1, [BbsLine board_unavailable])
         else if \<not> be_workspace env then (s, [BbsLine ''Unable to allocate editor workspace.''])
         else if working = [] then (s, usage)
         else case parse_title working of
                Inl e \<Rightarrow> (s, [BbsLine e])
              | Inr (title, tag_text) \<Rightarrow>
                  if title = [] then (s, [BbsLine ''A title is required to create a post.''])
                  else (case parse_tags (bu_operator (bs_user s)) 0 (strtok_all c_isspace tag_text) of
                          Inl tag \<Rightarrow> (s, [BbsLine (''The '' @ [CHR 0x27] @ tag @ [CHR 0x27] @
                            '' tag is reserved for administrators.'')])
                        | Inr tags \<Rightarrow>
                            (s\<lparr>bs_title := title, bs_tags := (if tags = [] then [''general''] else tags), bs_body := [],
                               bs_post_pending := True, bs_editor_mode := BbsCreate, bs_edit_id := 0\<rparr>,
                             [BbsEditor (tag_notice (length (strtok_all c_isspace tag_text)))])))"

definition bbs_may_change :: "bbs_user \<Rightarrow> cstr \<Rightarrow> bool" where
  "bbs_may_change u author \<longleftrightarrow> strncmp_eq BBS_NAME_LEN author (bu_name u) \<or> bbs_operator u"

definition session_bbs_begin_edit :: "bbs_env \<Rightarrow> nat \<Rightarrow> bbs_host \<Rightarrow> bbs_session \<Rightarrow> bbs_session \<times> bbs_reply list" where
  "session_bbs_begin_edit env i h s =
     (if i = 0 then (s, [BbsLine ''Invalid post identifier.''])
      else if bs_post_pending s then (s, [BbsLine ''You are already composing a post.''])
      else if \<not> be_storage env then (s, [BbsLine board_unavailable])
      else case host_find_bbs_post_locked h i of
             None \<Rightarrow> (s, [BbsLine ''No post exists with that identifier.''])
           | Some k \<Rightarrow>
               let p = bbs_posts h ! k
               in if \<not> bbs_may_change (bs_user s) (bp_author p)
                  then (s, [BbsLine ''Only the author or an operator may edit this post.''])
                  else if \<not> be_workspace env
                  then (session_bbs_reset_pending_post s, [BbsLine ''Unable to allocate editor workspace.''])
                  else ((session_bbs_reset_pending_post s)
                         \<lparr>bs_post_pending := True, bs_editor_mode := BbsEdit, bs_edit_id := i,
                          bs_title := snprintf_into BBS_TITLE_LEN (bp_title p), bs_body := take (BBS_BODY_LEN - 1) (bp_body p),
                          bs_tags := map (snprintf_into BBS_TAG_LEN) (take BBS_MAX_TAGS (bp_tags p))\<rparr>,
                        [BbsEditor (''Editing post #'' @ dec_str i @ ''.'')]))"

section \<open>Committing a post\<close>

definition post_view :: "bbs_host \<Rightarrow> nat \<Rightarrow> cstr \<Rightarrow> bbs_reply" where
  "post_view h k notice = BbsView (bbs_posts h ! k)
     (take (bp_comment_count (bbs_posts h ! k)) (post_comments h (bbs_posts h ! k))) notice"

definition stripped_tags :: "bbs_session \<Rightarrow> cstr list" where
  "stripped_tags s = map (\<lambda>t. host_strip_column_reset (snprintf_into BBS_TAG_LEN t)) (bs_tags s)"

definition commit_edit :: "bbs_env \<Rightarrow> bbs_session \<Rightarrow> bbs_host \<Rightarrow> bbs_host \<times> bbs_reply list" where
  "commit_edit env s h =
     (case host_find_bbs_post_locked h (bs_edit_id s) of
        None \<Rightarrow> (h, [BbsLine ''No post exists with that identifier anymore.''])
      | Some k \<Rightarrow>
          let p = bbs_posts h ! k
          in if \<not> bbs_may_change (bs_user s) (bp_author p)
             then (h, [BbsLine ''Only the author or an operator may edit this post.''])
             else let h' = host_bbs_state_save_locked env (set_post k
                         (p\<lparr>bp_title := host_strip_column_reset (snprintf_into BBS_TITLE_LEN (bs_title s)),
                            bp_body := host_strip_column_reset (bs_body s), bp_tags := stripped_tags s,
                            bp_bumped_at := be_now env\<rparr>) h)
                  in (h', [post_view h' k ''Post updated.'']))"

definition post_too_soon :: "int \<Rightarrow> bbs_user \<Rightarrow> bbs_host \<Rightarrow> bool" where
  "post_too_soon now u h =
     (case host_bbs_rate_limit_find_locked h (bu_name u) of
        None \<Rightarrow> False
      | Some i \<Rightarrow> last_post_at (bbs_rate_limits h ! i) \<noteq> 0 \<and> now - last_post_at (bbs_rate_limits h ! i) < 30)"

definition note_post_time :: "int \<Rightarrow> bbs_user \<Rightarrow> bbs_host \<Rightarrow> bbs_host" where
  "note_post_time now u h =
     (if bbs_operator u then h
      else case host_bbs_rate_limit_ensure_locked h (bu_name u) of
             None \<Rightarrow> h
           | Some (i, h) \<Rightarrow> h\<lparr>bbs_rate_limits := (bbs_rate_limits h)[i := (bbs_rate_limits h ! i)\<lparr>last_post_at := now\<rparr>]\<rparr>)"

definition commit_create :: "bbs_env \<Rightarrow> bbs_session \<Rightarrow> bbs_host \<Rightarrow> bool \<times> bbs_host \<times> bbs_reply list" where
  "commit_create env s h0 =
     (let u = bs_user s; now = be_now env
      in case host_allocate_bbs_post_locked now h0 of
           None \<Rightarrow> (False, h0, [BbsLine ''The bulletin board is full right now.''])
         | Some (k, h) \<Rightarrow>
             if \<not> bbs_operator u \<and> session_bbs_mute_blocks_locked now u h
             then (True, h, [BbsLine ''You are muted and cannot post right now.''])
             else if \<not> bbs_operator u \<and> post_too_soon now u h
             then (True, h, [BbsLine ''You are posting too quickly. Try again in a moment.''])
             else let p = (bbs_posts h ! k)
                        \<lparr>bp_board_id := bs_board s mod 65536,
                         bp_author := host_strip_column_reset (snprintf_into BBS_NAME_LEN (bu_name u)),
                         bp_title := host_strip_column_reset (snprintf_into BBS_TITLE_LEN (bs_title s)),
                         bp_body := host_strip_column_reset (bs_body s), bp_tags := stripped_tags s\<rparr>;
                      h1 = note_post_time now u (set_post k p h);
                      h2 = session_bbs_notify_mentions_locked env (bp_title p) (bp_author p) (bp_id p) (-1) h1;
                      h3 = session_bbs_notify_mentions_locked env (bp_body p) (bp_author p) (bp_id p) (-1) h2;
                      h4 = host_bbs_state_save_locked env h3
                  in (True, h4, [post_view h4 k ''Post created.'']))"

definition session_bbs_commit_pending_post ::
    "bbs_env \<Rightarrow> bbs_session \<Rightarrow> bbs_host \<Rightarrow> bbs_session \<times> bbs_host \<times> bbs_reply list" where
  "session_bbs_commit_pending_post env s h =
     (let reset = session_bbs_reset_pending_post s
      in if \<not> bs_post_pending s then (s, h, [])
         else if bs_body s = [] then (reset, h, [BbsLine ''Post body was empty. Draft discarded.''])
         else if \<not> be_clean env (bs_body s) then (reset, h, [])
         else if \<not> be_storage env then (reset, h, [BbsLine board_unavailable])
         else if bs_editor_mode s = BbsEdit then (case commit_edit env s h of (h, r) \<Rightarrow> (reset, h, r))
         else case commit_create env s h of (done, h, r) \<Rightarrow> (if done then reset else s, h, r))"

section \<open>Comments\<close>

text \<open>The post and the text of a comment; without a bar they go to the post in view.\<close>

definition comment_target :: "bbs_session \<Rightarrow> cstr \<Rightarrow> (nat \<times> cstr) option" where
  "comment_target s working =
     (let bar = (\<lambda>c. c = CHR ''|'');
          id_text = c_trim (takeWhile (\<lambda>c. \<not> bar c) working);
          comment_text = c_trim (tl (dropWhile (\<lambda>c. \<not> bar c) working))
      in if working = [] then None
         else if \<not> list_ex bar working
         then if bs_view_active s \<and> bs_view_post s \<noteq> 0 then Some (bs_view_post s, working) else None
         else if id_text = [] \<or> comment_text = [] then None
         else Some (fst (strtoul id_text), comment_text))"

definition comment_too_soon :: "int \<Rightarrow> bbs_user \<Rightarrow> bbs_host \<Rightarrow> bool" where
  "comment_too_soon now u h =
     (case host_bbs_rate_limit_find_locked h (bu_name u) of
        None \<Rightarrow> False
      | Some i \<Rightarrow> last_comment_at (bbs_rate_limits h ! i) \<noteq> 0 \<and> now - last_comment_at (bbs_rate_limits h ! i) < 3)"

definition note_comment_time :: "int \<Rightarrow> bbs_user \<Rightarrow> bbs_host \<Rightarrow> bbs_host" where
  "note_comment_time now u h =
     (if bbs_operator u then h
      else case host_bbs_rate_limit_ensure_locked h (bu_name u) of
             None \<Rightarrow> h
           | Some (i, h) \<Rightarrow> h\<lparr>bbs_rate_limits := (bbs_rate_limits h)[i := (bbs_rate_limits h ! i)\<lparr>last_comment_at := now\<rparr>]\<rparr>)"

definition put_comment :: "bbs_env \<Rightarrow> bbs_user \<Rightarrow> nat \<Rightarrow> cstr \<Rightarrow> bbs_host \<Rightarrow> bbs_host" where
  "put_comment env u k comment_text h =
     (let p = bbs_posts h ! k;
          idx = bp_comment_count p;
          now = be_now env;
          c = (post_comments h p ! idx)
                \<lparr>c_author := host_strip_column_reset (snprintf_into BBS_NAME_LEN (bu_name u)),
                 c_text := host_strip_column_reset (take (BBS_COMMENT_LEN - 1) comment_text),
                 c_created_at := now, c_edited_at := 0\<rparr>;
          h1 = set_comments (bp_comments p) ((post_comments h p)[idx := c])
                 (set_post k (p\<lparr>bp_comment_count := idx + 1, bp_bumped_at := now\<rparr>) h);
          h2 = note_comment_time now u h1;
          h3 = (if bp_author p \<noteq> [] \<and> \<not> strncmp_eq BBS_NAME_LEN (bp_author p) (c_author c)
                then host_bbs_notification_enqueue_locked now 0 (bp_author p) (c_author c) (bp_id p) (int idx) h2 else h2)
      in session_bbs_notify_mentions_locked env (c_text c) (c_author c) (bp_id p) (int idx) h3)"

definition session_bbs_add_comment :: "bbs_env \<Rightarrow> bbs_session \<Rightarrow> cstr \<Rightarrow> bbs_host \<Rightarrow> bbs_host \<times> bbs_reply list" where
  "session_bbs_add_comment env s arguments h =
     (let u = bs_user s; now = be_now env
      in case comment_target s (c_trim (snprintf_into BBS_LINE_LEN arguments)) of
           None \<Rightarrow> (h, [BbsUsage ''comment''])
         | Some (i, comment_text) \<Rightarrow>
             if i = 0 then (h, [BbsLine ''Invalid post identifier.''])
             else if \<not> be_clean env (take BBS_COMMENT_LEN comment_text) then (h, [])
             else if \<not> be_storage env then (h, [BbsLine board_unavailable])
             else case host_find_bbs_post_locked h i of
                    None \<Rightarrow> (h, [BbsLine ''No post exists with that identifier.''])
                  | Some k \<Rightarrow>
                      if bp_comment_count (bbs_posts h ! k) \<ge> BBS_MAX_COMMENTS
                      then (h, [BbsLine ''This post has reached the comment limit.''])
                      else if session_bbs_mute_blocks_locked now u h
                      then (h, [BbsLine ''You are muted and cannot post right now.''])
                      else if \<not> bbs_operator u \<and> comment_too_soon now u h
                      then (h, [BbsLine ''You are commenting too quickly. Try again in a moment.''])
                      else let h' = host_bbs_state_save_locked env (put_comment env u k comment_text h)
                           in (h', [post_view h' k ''Comment added.'']))"

definition session_bbs_cmtedit :: "bbs_env \<Rightarrow> bbs_session \<Rightarrow> cstr \<Rightarrow> bbs_host \<Rightarrow> bbs_host \<times> bbs_reply list" where
  "session_bbs_cmtedit env s arguments h =
     (let usage = (h, [BbsUsage ''cmtedit''])
      in if arguments = [] then usage
         else if \<not> bbs_comment_edit_enabled h then (h, [BbsLine ''Comment editing is disabled.''])
         else case parse_comment_target arguments of
                None \<Rightarrow> usage
              | Some (post, idx, rest) \<Rightarrow>
                  let trimmed = c_trim (snprintf_into BBS_COMMENT_LEN (dropWhile (\<lambda>c. c = CHR '' '') rest))
                  in if rest = [] \<or> hd rest \<noteq> CHR '' '' \<or> trimmed = [] then usage
                     else if \<not> be_clean env trimmed then (h, [])
                     else if \<not> be_storage env then (h, [BbsLine ''BBS storage is unavailable.''])
                     else case host_find_bbs_post_locked h post of
                            None \<Rightarrow> (h, [BbsLine ''Invalid post or comment index.''])
                          | Some k \<Rightarrow>
                              let p = bbs_posts h ! k; cs = post_comments h p; c = cs ! idx
                              in if idx \<ge> bp_comment_count p then (h, [BbsLine ''Invalid post or comment index.''])
                                 else if c_author c \<noteq> [] \<and> \<not> bbs_may_change (bs_user s) (c_author c)
                                 then (h, [BbsLine ''Only the author or an operator may edit this comment.''])
                                 else let h' = host_bbs_state_save_locked env (set_comments (bp_comments p)
                                           (cs[idx := c\<lparr>c_text := host_strip_column_reset trimmed, c_edited_at := be_now env\<rparr>]) h)
                                      in (h', [post_view h' k ''Comment updated.'']))"

text \<open>Removing a comment from the dense array, and from the votes.\<close>

definition remove_comment :: "nat \<Rightarrow> nat \<Rightarrow> bbs_comment list \<Rightarrow> bbs_comment list" where
  "remove_comment idx count cs = take idx cs @ take (count - idx - 1) (drop (idx + 1) cs) @ drop (count - 1) cs"

fun shift_votes :: "nat \<Rightarrow> int \<Rightarrow> bbs_vote list \<Rightarrow> bbs_vote list" where
  "shift_votes post idx [] = []"
| "shift_votes post idx (v # vs) =
     (if bv_post v = post
      then if bv_comment v = idx then shift_votes post idx vs
           else (if bv_comment v > idx then v\<lparr>bv_comment := bv_comment v - 1\<rparr> else v) # shift_votes post idx vs
      else v # shift_votes post idx vs)"

definition session_bbs_cmtdel :: "bbs_env \<Rightarrow> bbs_session \<Rightarrow> cstr \<Rightarrow> bbs_host \<Rightarrow> bbs_host \<times> bbs_reply list" where
  "session_bbs_cmtdel env s arguments h =
     (let usage = (h, [BbsUsage ''cmtdel''])
      in if arguments = [] then usage
         else if \<not> bbs_comment_delete_enabled h then (h, [BbsLine ''Comment deletion is disabled.''])
         else case parse_comment_target arguments of
                None \<Rightarrow> usage
              | Some (post, idx, rest) \<Rightarrow>
                  if rest \<noteq> [] \<and> hd rest \<noteq> CHR '' '' then usage
                  else if \<not> be_storage env then (h, [BbsLine ''BBS storage is unavailable.''])
                  else case host_find_bbs_post_locked h post of
                         None \<Rightarrow> (h, [BbsLine ''Invalid post or comment index.''])
                       | Some k \<Rightarrow>
                           let p = bbs_posts h ! k; cs = post_comments h p
                           in if idx \<ge> bp_comment_count p then (h, [BbsLine ''Invalid post or comment index.''])
                              else if c_author (cs ! idx) \<noteq> [] \<and> \<not> bbs_may_change (bs_user s) (c_author (cs ! idx))
                              then (h, [BbsLine ''Only the author or an operator may delete this comment.''])
                              else let h1 = set_comments (bp_comments p) (remove_comment idx (bp_comment_count p) cs)
                                         (set_post k (p\<lparr>bp_comment_count := bp_comment_count p - 1\<rparr>) h);
                                       h' = host_bbs_state_save_locked env
                                         (h1\<lparr>bbs_votes := shift_votes post (int idx) (bbs_votes h1)\<rparr>)
                                   in (h', [post_view h' k ''Comment deleted.'']))"

section \<open>Deleting and bumping posts\<close>

definition session_bbs_delete :: "bbs_env \<Rightarrow> bbs_session \<Rightarrow> nat \<Rightarrow> bbs_host \<Rightarrow> bbs_host \<times> bbs_reply list" where
  "session_bbs_delete env s i h =
     (if i = 0 then (h, [BbsLine ''Invalid post identifier.''])
      else if \<not> be_storage env then (h, [BbsLine board_unavailable])
      else case first_index (\<lambda>p. bp_id p = i) (bbs_posts h) of
             None \<Rightarrow> (h, [BbsLine ''No post exists with that identifier.''])
           | Some k \<Rightarrow>
               let p = bbs_posts h ! k
               in if bp_author p \<noteq> [] \<and> \<not> bbs_may_change (bs_user s) (bp_author p)
                  then (h, [BbsLine ''Only the author or an operator may delete this post.''])
                  else (host_bbs_state_save_locked env (host_bbs_notification_drop_for_post_locked i
                          (host_clear_bbs_post_locked k (set_post k (p\<lparr>bp_in_use := False, bp_id := 0\<rparr>) h))),
                        [BbsLine ''Post deleted.'']))"

definition session_bbs_regen_post :: "bbs_env \<Rightarrow> nat \<Rightarrow> bbs_host \<Rightarrow> bbs_host \<times> bbs_reply list" where
  "session_bbs_regen_post env i h =
     (if i = 0 then (h, [])
      else if \<not> be_storage env then (h, [BbsLine board_unavailable])
      else case host_find_bbs_post_locked h i of
             None \<Rightarrow> (h, [BbsLine ''No post exists with that identifier.''])
           | Some k \<Rightarrow>
               let h' = host_bbs_state_save_locked env (set_post k ((bbs_posts h ! k)\<lparr>bp_bumped_at := be_now env\<rparr>) h)
               in (h', [post_view h' k ''Post bumped to the top.'']))"

section \<open>Votes\<close>

definition find_vote :: "nat \<Rightarrow> int \<Rightarrow> cstr \<Rightarrow> bbs_vote list \<Rightarrow> nat option" where
  "find_vote post comment voter = first_index (\<lambda>v. bv_post v = post \<and> bv_comment v = comment \<and> bv_voter v = voter)"

definition record_vote :: "int \<Rightarrow> nat \<Rightarrow> int \<Rightarrow> cstr \<Rightarrow> int \<Rightarrow> bbs_host \<Rightarrow> bbs_host" where
  "record_vote now post comment voter t h =
     (case find_vote post comment voter (bbs_votes h) of
        Some i \<Rightarrow> h\<lparr>bbs_votes := (bbs_votes h)[i := (bbs_votes h ! i)\<lparr>bv_type := t\<rparr>]\<rparr>
      | None \<Rightarrow>
          if length (bbs_votes h) < bbs_vote_capacity h
          then h\<lparr>bbs_votes := bbs_votes h @
                 [\<lparr>bv_post = post, bv_comment = comment, bv_voter = snprintf_into BBS_NAME_LEN voter, bv_type = t,
                   bv_created_at = now\<rparr>]\<rparr>
          else h)"

text \<open>The counts after a vote: it is withdrawn from the other count where there was one.\<close>

definition voted_post :: "int \<Rightarrow> bool \<Rightarrow> bbs_post \<Rightarrow> bbs_post" where
  "voted_post t again p =
     (if t = 1 then p\<lparr>bp_downvotes := bp_downvotes p - (if again then 1 else 0), bp_upvotes := bp_upvotes p + 1\<rparr>
      else p\<lparr>bp_upvotes := bp_upvotes p - (if again then 1 else 0), bp_downvotes := bp_downvotes p + 1\<rparr>)"

definition post_vote :: "bbs_env \<Rightarrow> bbs_session \<Rightarrow> nat \<Rightarrow> int \<Rightarrow> bbs_host \<Rightarrow> bbs_host \<times> bbs_reply list" where
  "post_vote env s i t h =
     (let voter = bu_name (bs_user s);
          earlier = find_vote i (-1) voter (bbs_votes h)
      in if i = 0 then (h, [])
         else if \<not> be_storage env then (h, [BbsLine ''BBS storage is unavailable.''])
         else case host_find_bbs_post_locked h i of
                None \<Rightarrow> (h, [BbsLine ''No post exists with that identifier.''])
              | Some k \<Rightarrow>
                  if earlier \<noteq> None \<and> bv_type (bbs_votes h ! the earlier) = t
                  then (h, [BbsLine (if t = 1 then ''You already upvoted this post.'' else ''You already downvoted this post.'')])
                  else (host_bbs_state_save_locked env
                          (record_vote (be_now env) i (-1) voter t (set_post k (voted_post t (earlier \<noteq> None) (bbs_posts h ! k)) h)),
                        [BbsLine (if t = 1 then ''Upvoted.'' else ''Downvoted.'')]))"

definition session_bbs_upvote :: "bbs_env \<Rightarrow> bbs_session \<Rightarrow> nat \<Rightarrow> bbs_host \<Rightarrow> bbs_host \<times> bbs_reply list" where
  "session_bbs_upvote env s i h = post_vote env s i 1 h"

definition session_bbs_downvote :: "bbs_env \<Rightarrow> bbs_session \<Rightarrow> nat \<Rightarrow> bbs_host \<Rightarrow> bbs_host \<times> bbs_reply list" where
  "session_bbs_downvote env s i h = post_vote env s i (-1) h"

definition voted_comment :: "int \<Rightarrow> int option \<Rightarrow> bbs_comment \<Rightarrow> bbs_comment" where
  "voted_comment t earlier c0 =
     (let c = (case earlier of
                 None \<Rightarrow> c0
               | Some e \<Rightarrow> if e = 1 then c0\<lparr>c_upvotes := c_upvotes c0 - 1\<rparr> else c0\<lparr>c_downvotes := c_downvotes c0 - 1\<rparr>)
      in if t = 1 then c\<lparr>c_upvotes := c_upvotes c + 1\<rparr> else c\<lparr>c_downvotes := c_downvotes c + 1\<rparr>)"

definition session_bbs_cmtvote :: "bbs_env \<Rightarrow> bbs_session \<Rightarrow> cstr \<Rightarrow> bbs_host \<Rightarrow> bbs_host \<times> bbs_reply list" where
  "session_bbs_cmtvote env s arguments h =
     (let usage = (h, [BbsUsage ''cmtvote'']); voter = bu_name (bs_user s)
      in if arguments = [] then usage
         else case parse_comment_target arguments of
                None \<Rightarrow> usage
              | Some (post, idx, rest) \<Rightarrow>
                  let dir = dropWhile (\<lambda>c. c = CHR '' '') rest;
                      t = (if strcasecmp_eq (snprintf_into 8 dir) ''up'' then 1 else -1);
                      earlier = find_vote post (int idx) voter (bbs_votes h)
                  in if rest = [] \<or> hd rest \<noteq> CHR '' '' \<or>
                        \<not> strcasecmp_eq (take 2 dir) ''up'' \<and> \<not> strcasecmp_eq (take 4 dir) ''down'' then usage
                     else if \<not> be_storage env then (h, [BbsLine ''BBS storage is unavailable.''])
                     else case host_find_bbs_post_locked h post of
                            None \<Rightarrow> (h, [BbsLine ''Invalid post or comment index.''])
                          | Some k \<Rightarrow>
                              let p = bbs_posts h ! k; cs = post_comments h p
                              in if idx \<ge> bp_comment_count p then (h, [BbsLine ''Invalid post or comment index.''])
                                 else if earlier \<noteq> None \<and> bv_type (bbs_votes h ! the earlier) = t
                                 then (h, [BbsLine ''You already voted this comment.''])
                                 else (host_bbs_state_save_locked env (record_vote (be_now env) post (int idx) voter t
                                         (set_comments (bp_comments p) (cs[idx := voted_comment t
                                            (map_option (\<lambda>i. bv_type (bbs_votes h ! i)) earlier) (cs ! idx)]) h)),
                                       [BbsLine (if t = 1 then ''Comment upvoted.'' else ''Comment downvoted.'')]))"

section \<open>Moderation\<close>

definition session_bbs_report :: "bbs_env \<Rightarrow> bbs_session \<Rightarrow> cstr \<Rightarrow> bbs_host \<Rightarrow> bbs_host \<times> bbs_reply list" where
  "session_bbs_report env s arguments h =
     (let usage = (h, [BbsUsage ''report''])
      in if arguments = [] then usage
         else case strtoull_checked arguments of
                None \<Rightarrow> usage
              | Some (post, rest, read) \<Rightarrow>
                  let reason = dropWhile (\<lambda>c. c = CHR '' '') rest;
                      reason = (if reason = [] then [] else c_trim (snprintf_into 128 reason))
                  in if \<not> read \<or> rest \<noteq> [] \<and> hd rest \<noteq> CHR '' '' then usage
                     else if reason \<noteq> [] \<and> \<not> be_clean env reason then (h, [])
                     else if \<not> be_storage env then (h, [BbsLine ''BBS storage is unavailable.''])
                     else if host_find_bbs_post_locked h post = None
                     then (h, [BbsLine ''No post exists with that identifier.''])
                     else (case host_bbs_report_enqueue_locked (be_now env) post (bu_name (bs_user s)) reason h of
                             (False, h) \<Rightarrow> (h, [BbsLine ''You have already reported this post.''])
                           | (True, h) \<Rightarrow> (host_bbs_state_save_locked env h, [BbsLine ''Report submitted. Thank you.''])))"

definition operators_only :: "bbs_reply list" where
  "operators_only = [BbsLine ''Only operators may use this command.'']"

definition session_bbs_set_mod_flag ::
    "bbs_env \<Rightarrow> bbs_session \<Rightarrow> nat \<Rightarrow> 8 word \<Rightarrow> bool \<Rightarrow> cstr \<Rightarrow> cstr \<Rightarrow> bbs_host \<Rightarrow> bbs_host \<times> bbs_reply list" where
  "session_bbs_set_mod_flag env s i flag setting action confirmation h =
     (let name = bu_name (bs_user s); now = be_now env
      in if \<not> bbs_operator (bs_user s) then (h, operators_only)
         else if i = 0 then (h, [BbsLine ''Invalid post identifier.''])
         else if \<not> be_storage env then (h, [BbsLine ''BBS storage is unavailable.''])
         else case host_find_bbs_post_locked h i of
                None \<Rightarrow> (h, [BbsLine ''No post exists with that identifier.''])
              | Some k \<Rightarrow>
                  let p = bbs_posts h ! k;
                      h1 = set_post k (p\<lparr>bp_mod_flags := (if setting then bp_mod_flags p OR flag
                                                          else bp_mod_flags p AND NOT flag)\<rparr>) h;
                      h2 = (if flag = 1 then host_bbs_modlog_append_locked now name ''resolve'' ''reports''
                              (host_bbs_reports_resolve_for_post_locked i h1) else h1)
                  in (host_bbs_state_save_locked env (host_bbs_modlog_append_locked now name action (dec_str i) h2),
                      [BbsLine confirmation]))"

text \<open>The name and the minutes of a mute.\<close>

definition split_mute :: "cstr \<Rightarrow> cstr \<times> cstr option" where
  "split_mute working =
     (let bar = (\<lambda>c. c = CHR ''|''); space = (\<lambda>c. c = CHR '' '');
          tail = rev (takeWhile (\<lambda>c. \<not> space c) (rev working))
      in if list_ex bar working
         then (c_trim (takeWhile (\<lambda>c. \<not> bar c) working), Some (c_trim (tl (dropWhile (\<lambda>c. \<not> bar c) working))))
         else if list_ex space working \<and> list_all c_isdigit tail
         then (c_trim (take (length working - length tail - 1) working), Some (c_trim tail))
         else (working, None))"

definition session_bbs_mute :: "bbs_env \<Rightarrow> bbs_session \<Rightarrow> cstr \<Rightarrow> bbs_host \<Rightarrow> bbs_host \<times> bbs_reply list" where
  "session_bbs_mute env s arguments h =
     (let usage = (h, [BbsUsage ''mute'']); name = bu_name (bs_user s); now = be_now env
      in if \<not> bbs_operator (bs_user s) then (h, operators_only)
         else if arguments = [] then usage
         else case split_mute (c_trim (snprintf_into 128 arguments)) of
                (target, minutes_text) \<Rightarrow>
                  let timed = (minutes_text \<noteq> None \<and> minutes_text \<noteq> Some []);
                      parsed = strtol_checked (the minutes_text);
                      refused = (case parsed of None \<Rightarrow> True
                                 | Some (m, rest, _) \<Rightarrow> rest \<noteq> [] \<or> m \<le> 0 \<or> m > 24 * 60 * 365);
                      until = (if timed then now + fst (the parsed) * 60 else 0)
                  in if target = [] then usage
                     else if timed \<and> refused then usage
                     else if be_room_operator env target then (h, [BbsLine ''Operators cannot be muted.''])
                     else if \<not> be_known_user env target then (h, [BbsLine ''No such user.''])
                     else if \<not> be_storage env then (h, [BbsLine ''BBS storage is unavailable.''])
                     else (host_bbs_state_save_locked env (host_bbs_modlog_append_locked now name ''mute'' target
                             (host_bbs_mute_set_locked now target until name h)), [BbsLine ''User muted.'']))"

definition session_bbs_unmute :: "bbs_env \<Rightarrow> bbs_session \<Rightarrow> cstr \<Rightarrow> bbs_host \<Rightarrow> bbs_host \<times> bbs_reply list" where
  "session_bbs_unmute env s username h =
     (if \<not> bbs_operator (bs_user s) then (h, operators_only)
      else if username = [] then (h, [BbsUsage ''unmute''])
      else if \<not> be_storage env then (h, [BbsLine ''BBS storage is unavailable.''])
      else case host_bbs_mute_remove_locked username h of
             (False, h) \<Rightarrow> (h, [BbsLine ''No such user.''])
           | (True, h) \<Rightarrow> (host_bbs_state_save_locked env
               (host_bbs_modlog_append_locked (be_now env) (bu_name (bs_user s)) ''unmute'' username h),
               [BbsLine ''User unmuted.'']))"

section \<open>Drafts and boards\<close>

definition new_draft :: "bbs_env \<Rightarrow> bbs_session \<Rightarrow> bbs_host \<Rightarrow> bbs_draft" where
  "new_draft env s h =
     \<lparr>bd_in_use = True, bd_id = next_bbs_id h, bd_author = snprintf_into BBS_NAME_LEN (bu_name (bs_user s)),
      bd_board_id = bs_board s mod 65536, bd_title = snprintf_into BBS_TITLE_LEN (bs_title s),
      bd_body = snprintf_into BBS_BODY_LEN (bs_body s), bd_tags = map (snprintf_into BBS_TAG_LEN) (bs_tags s),
      bd_created_at = be_now env\<rparr>"

definition draft_save :: "bbs_env \<Rightarrow> bbs_session \<Rightarrow> bbs_host \<Rightarrow> bbs_host \<times> bbs_reply list" where
  "draft_save env s h =
     (if \<not> bs_post_pending s then (h, [BbsLine ''Nothing to save. Start a post first.''])
      else case first_index (\<lambda>d. \<not> bd_in_use d) (bbs_drafts h) of
             None \<Rightarrow> (h, [BbsLine ''Draft storage full. Delete old drafts first.''])
           | Some i \<Rightarrow> (host_bbs_state_save_locked env (h\<lparr>bbs_drafts := (bbs_drafts h)[i := new_draft env s h],
               next_bbs_id := next_id_after (next_bbs_id h)\<rparr>), [BbsLine ''Draft saved.'']))"

definition own_draft :: "bbs_session \<Rightarrow> cstr \<Rightarrow> bbs_host \<Rightarrow> nat option" where
  "own_draft s rest h =
     (case strtoul rest of
        (idx, _, _) \<Rightarrow>
          if idx < length (bbs_drafts h) \<and> bd_in_use (bbs_drafts h ! idx) \<and> bd_author (bbs_drafts h ! idx) = bu_name (bs_user s)
          then Some idx else None)"

definition session_bbs_draft :: "bbs_env \<Rightarrow> cstr \<Rightarrow> bbs_session \<Rightarrow> bbs_host \<Rightarrow> bbs_session \<times> bbs_host \<times> bbs_reply list" where
  "session_bbs_draft env arguments s h =
     (let action = take 15 (takeWhile (\<lambda>c. \<not> c_isspace c) (dropWhile c_isspace arguments));
          rest = dropWhile (\<lambda>c. c = CHR '' '' \<or> c = CHR 0x09) (drop (length action) arguments);
          number = (case strtoul rest of (_, _, read) \<Rightarrow> read)
      in if action = ''save'' then (case draft_save env s h of (h, r) \<Rightarrow> (s, h, r))
         else if action = ''list'' then (s, h, [])
         else if action = ''load''
         then if \<not> number then (s, h, [BbsUsage ''draft load''])
              else (case own_draft s rest h of
                      None \<Rightarrow> (s, h, [BbsLine ''Draft not found.''])
                    | Some i \<Rightarrow>
                        let d = bbs_drafts h ! i
                        in (s\<lparr>bs_title := bd_title d, bs_body := bd_body d, bs_tags := take BBS_MAX_TAGS (bd_tags d),
                              bs_post_pending := True, bs_editor_mode := BbsCreate\<rparr>, h,
                            [BbsLine ''Draft loaded. Continue editing with the post editor.'']))
         else if action = ''delete''
         then if \<not> number then (s, h, [BbsUsage ''draft delete''])
              else (case own_draft s rest h of
                      None \<Rightarrow> (s, h, [BbsLine ''Draft not found.''])
                    | Some i \<Rightarrow>
                        (s, host_bbs_state_save_locked env (h\<lparr>bbs_drafts := (bbs_drafts h)[i := (bbs_drafts h ! i)\<lparr>bd_in_use := False\<rparr>]\<rparr>),
                         [BbsLine ''Draft deleted.'']))
         else (s, h, [BbsUsage ''draft'']))"

definition session_bbs_select_board :: "bbs_env \<Rightarrow> cstr \<Rightarrow> bbs_host \<Rightarrow> bbs_session \<Rightarrow> bbs_session \<times> bbs_reply list" where
  "session_bbs_select_board env arguments h s =
     (let target = c_trim (snprintf_into 64 arguments);
          parsed = strtol target;
          number = (fst (snd parsed) = [])
      in if \<not> be_storage env then (s, [BbsLine ''BBS storage is unavailable.''])
         else if arguments = [] then (s, [])
         else case find (\<lambda>b. number \<and> int (bb_board_id b) = fst parsed mod 65536 \<or> strcasecmp_eq (bb_name b) target) (bbs_boards h) of
                Some b \<Rightarrow> (s\<lparr>bs_board := bb_board_id b\<rparr>, [BbsLine (snprintf_into 256
                  (''Joined board: '' @ bb_name b @ CHR '' '' # [CHR 0xE2, CHR 0x80, CHR 0x94] @ CHR '' '' # bb_description b))])
              | None \<Rightarrow> (s, [BbsLine ''Board not found.'']))"

section \<open>Commands as steps\<close>

text \<open>A command of a session, the text the editor leaves in the draft, and the view of a post.\<close>

datatype bbs_command =
    BeginPost cstr | BeginEdit nat | EditorText cstr | CommitPost | AddComment cstr | CommentEdit cstr | CommentDelete cstr
  | DeletePost nat | RegenPost nat | Upvote nat | Downvote nat | CommentVote cstr | Report cstr
  | ModFlag nat "8 word" bool cstr cstr | Mute cstr | Unmute cstr | Draft cstr | SelectBoard cstr | ViewPost nat

fun bbs_command_step ::
    "bbs_env \<Rightarrow> bbs_command \<Rightarrow> bbs_session \<Rightarrow> bbs_host \<Rightarrow> bbs_session \<times> bbs_host \<times> bbs_reply list" where
  "bbs_command_step env (BeginPost a) s h = (case session_bbs_begin_post env a s of (s, r) \<Rightarrow> (s, h, r))"
| "bbs_command_step env (BeginEdit i) s h = (case session_bbs_begin_edit env i h s of (s, r) \<Rightarrow> (s, h, r))"
| "bbs_command_step env (EditorText b) s h = (if bs_post_pending s then s\<lparr>bs_body := take (BBS_BODY_LEN - 1) b\<rparr> else s, h, [])"
| "bbs_command_step env CommitPost s h = session_bbs_commit_pending_post env s h"
| "bbs_command_step env (AddComment a) s h = (s, session_bbs_add_comment env s a h)"
| "bbs_command_step env (CommentEdit a) s h = (s, session_bbs_cmtedit env s a h)"
| "bbs_command_step env (CommentDelete a) s h = (s, session_bbs_cmtdel env s a h)"
| "bbs_command_step env (DeletePost i) s h = (s, session_bbs_delete env s i h)"
| "bbs_command_step env (RegenPost i) s h = (s, session_bbs_regen_post env i h)"
| "bbs_command_step env (Upvote i) s h = (s, session_bbs_upvote env s i h)"
| "bbs_command_step env (Downvote i) s h = (s, session_bbs_downvote env s i h)"
| "bbs_command_step env (CommentVote a) s h = (s, session_bbs_cmtvote env s a h)"
| "bbs_command_step env (Report a) s h = (s, session_bbs_report env s a h)"
| "bbs_command_step env (ModFlag i flag setting action confirmation) s h =
     (s, session_bbs_set_mod_flag env s i flag setting action confirmation h)"
| "bbs_command_step env (Mute a) s h = (s, session_bbs_mute env s a h)"
| "bbs_command_step env (Unmute a) s h = (s, session_bbs_unmute env s a h)"
| "bbs_command_step env (Draft a) s h = session_bbs_draft env a s h"
| "bbs_command_step env (SelectBoard a) s h = (case session_bbs_select_board env a h s of (s, r) \<Rightarrow> (s, h, r))"
| "bbs_command_step env (ViewPost i) s h =
     (s, h, case host_find_bbs_post_locked h i of None \<Rightarrow> [] | Some k \<Rightarrow> [post_view h k []])"

text \<open>Showing a post makes it the one in view.\<close>

fun note_view :: "bbs_reply list \<Rightarrow> bbs_session \<Rightarrow> bbs_session" where
  "note_view [] s = s"
| "note_view (BbsView p cs notice # rs) s = note_view rs (s\<lparr>bs_view_active := True, bs_view_post := bp_id p\<rparr>)"
| "note_view (_ # rs) s = note_view rs s"

text \<open>Many sessions work on one host: an event is the command of one of them.\<close>

record bbs_world =
  bw_host :: bbs_host
  bw_sessions :: "bbs_session list"

definition bbs_step :: "bbs_env \<times> nat \<times> bbs_command \<Rightarrow> bbs_world \<Rightarrow> bbs_world" where
  "bbs_step ev w =
     (case ev of (env, n, c) \<Rightarrow>
        if n < length (bw_sessions w)
        then case bbs_command_step env c (bw_sessions w ! n) (bw_host w) of
               (s, h, r) \<Rightarrow> w\<lparr>bw_host := h, bw_sessions := (bw_sessions w)[n := note_view r s]\<rparr>
        else w)"

end
