(* ===== verification/Bbs_Changes.thy ===== *)
theory Bbs_Changes
  imports Bbs_Commands
begin

text \<open>
  What the commands do to the table of posts: a step relation with the few kinds of change
  there are, and that every command follows it.
\<close>

section \<open>The kinds of change\<close>

text \<open>What a post says, and what it keeps through every change.\<close>

definition content :: "bbs_post \<Rightarrow> cstr \<times> cstr \<times> cstr list \<times> nat \<times> int" where
  "content p = (bp_title p, bp_body p, bp_tags p, bp_board_id p, bp_created_at p)"

definition same_post :: "bbs_post \<Rightarrow> bbs_post \<Rightarrow> bool" where
  "same_post p p' \<longleftrightarrow> bp_in_use p' = bp_in_use p \<and> bp_id p' = bp_id p \<and> bp_author p' = bp_author p \<and>
     bp_comments p' = bp_comments p"

text \<open>Slots without the post of slot \<open>k\<close>: the others move up, in order.\<close>

definition without_slot :: "nat \<Rightarrow> bbs_post list \<Rightarrow> bbs_post list" where
  "without_slot k ps = filter bp_in_use (ps[k := reset_post (ps ! k)])"

inductive post_change :: "bbs_user \<Rightarrow> bbs_host \<Rightarrow> bbs_host \<Rightarrow> bool" for u :: bbs_user where
  unchanged: "bbs_posts h' = bbs_posts h \<Longrightarrow> bbs_post_count h' = bbs_post_count h \<Longrightarrow>
     next_bbs_id h' = next_bbs_id h \<or> next_bbs_id h' = next_id_after (next_bbs_id h) \<Longrightarrow> post_change u h h'"
| touched: "k < length (bbs_posts h) \<Longrightarrow> p = bbs_posts h ! k \<Longrightarrow> bbs_post_has_required_fields p \<Longrightarrow> same_post p p' \<Longrightarrow>
     bp_comment_count p' \<le> max BBS_MAX_COMMENTS (bp_comment_count p) \<Longrightarrow>
     content p' = content p \<or> bbs_may_change u (bp_author p) \<Longrightarrow>
     bbs_posts h' = (bbs_posts h)[k := p'] \<Longrightarrow> bbs_post_count h' = bbs_post_count h \<Longrightarrow> next_bbs_id h' = next_bbs_id h \<Longrightarrow>
     post_change u h h'"
| created: "k < length (bbs_posts h) \<Longrightarrow> \<not> bp_in_use (bbs_posts h ! k) \<Longrightarrow> bp_in_use p' \<Longrightarrow> bp_id p' = next_bbs_id h \<Longrightarrow>
     bp_comments p' = bp_comments (bbs_posts h ! k) \<Longrightarrow> bp_comment_count p' = 0 \<Longrightarrow>
     bbs_posts h' = (bbs_posts h)[k := p'] \<Longrightarrow>
     bbs_post_count h' = (if bbs_post_count h < BBS_MAX_POSTS then bbs_post_count h + 1 else bbs_post_count h) \<Longrightarrow>
     next_bbs_id h' = next_id_after (next_bbs_id h) \<Longrightarrow> post_change u h h'"
| removed: "k < length (bbs_posts h) \<Longrightarrow> bp_id (bbs_posts h ! k) \<noteq> 0 \<Longrightarrow>
     bp_author (bbs_posts h ! k) = [] \<or> bbs_may_change u (bp_author (bbs_posts h ! k)) \<Longrightarrow>
     length (bbs_posts h') = length (bbs_posts h) \<Longrightarrow>
     take (length (without_slot k (bbs_posts h))) (bbs_posts h') = without_slot k (bbs_posts h) \<Longrightarrow>
     list_all (\<lambda>p. \<not> bp_in_use p \<and> bp_id p = 0 \<and> bp_comment_count p = 0 \<and> bp_comments p \<in> bp_comments ` set (bbs_posts h))
       (drop (length (without_slot k (bbs_posts h))) (bbs_posts h')) \<Longrightarrow>
     bbs_post_count h' = length (without_slot k (bbs_posts h)) \<Longrightarrow> next_bbs_id h' = next_bbs_id h \<Longrightarrow>
     post_change u h h'"

section \<open>What the parts of a command leave alone\<close>

lemma set_post_simps [simp]:
  "bbs_posts (set_post k p h) = (bbs_posts h)[k := p]" "bbs_post_count (set_post k p h) = bbs_post_count h"
  "next_bbs_id (set_post k p h) = next_bbs_id h" "bbs_votes (set_post k p h) = bbs_votes h"
  "bbs_reports (set_post k p h) = bbs_reports h" "bbs_comment_arrays (set_post k p h) = bbs_comment_arrays h"
  "bbs_rate_limits (set_post k p h) = bbs_rate_limits h" "bbs_vote_capacity (set_post k p h) = bbs_vote_capacity h"
  "bbs_mutes (set_post k p h) = bbs_mutes h"
  by (simp_all add: set_post_def)

lemma set_comments_simps [simp]:
  "bbs_posts (set_comments a cs h) = bbs_posts h" "bbs_post_count (set_comments a cs h) = bbs_post_count h"
  "next_bbs_id (set_comments a cs h) = next_bbs_id h" "bbs_votes (set_comments a cs h) = bbs_votes h"
  "bbs_reports (set_comments a cs h) = bbs_reports h" "bbs_comment_arrays (set_comments a cs h) = (bbs_comment_arrays h)[a := cs]"
  "bbs_rate_limits (set_comments a cs h) = bbs_rate_limits h" "bbs_vote_capacity (set_comments a cs h) = bbs_vote_capacity h"
  "bbs_mutes (set_comments a cs h) = bbs_mutes h"
  by (simp_all add: set_comments_def)

lemma save_simps [simp]:
  "bbs_posts (host_bbs_state_save_locked env h) = bbs_posts h" "bbs_post_count (host_bbs_state_save_locked env h) = bbs_post_count h"
  "next_bbs_id (host_bbs_state_save_locked env h) = next_bbs_id h" "bbs_votes (host_bbs_state_save_locked env h) = bbs_votes h"
  "bbs_reports (host_bbs_state_save_locked env h) = bbs_reports h"
  "bbs_comment_arrays (host_bbs_state_save_locked env h) = bbs_comment_arrays h"
  "bbs_rate_limits (host_bbs_state_save_locked env h) = bbs_rate_limits h"
  "bbs_vote_capacity (host_bbs_state_save_locked env h) = bbs_vote_capacity h"
  "bbs_mutes (host_bbs_state_save_locked env h) = bbs_mutes h"
  by (simp_all add: host_bbs_state_save_locked_def)

lemma enqueue_simps [simp]:
  "bbs_posts (host_bbs_notification_enqueue_locked now kind t f post c h) = bbs_posts h"
  "bbs_post_count (host_bbs_notification_enqueue_locked now kind t f post c h) = bbs_post_count h"
  "next_bbs_id (host_bbs_notification_enqueue_locked now kind t f post c h) = next_bbs_id h"
  "bbs_votes (host_bbs_notification_enqueue_locked now kind t f post c h) = bbs_votes h"
  "bbs_reports (host_bbs_notification_enqueue_locked now kind t f post c h) = bbs_reports h"
  "bbs_comment_arrays (host_bbs_notification_enqueue_locked now kind t f post c h) = bbs_comment_arrays h"
  "bbs_vote_capacity (host_bbs_notification_enqueue_locked now kind t f post c h) = bbs_vote_capacity h"
  by (simp_all add: host_bbs_notification_enqueue_locked_def Let_def)

lemma mentions_simps [simp]:
  "bbs_posts (session_bbs_notify_mentions_locked env txt actor post c h) = bbs_posts h"
  "bbs_post_count (session_bbs_notify_mentions_locked env txt actor post c h) = bbs_post_count h"
  "next_bbs_id (session_bbs_notify_mentions_locked env txt actor post c h) = next_bbs_id h"
  "bbs_votes (session_bbs_notify_mentions_locked env txt actor post c h) = bbs_votes h"
  "bbs_reports (session_bbs_notify_mentions_locked env txt actor post c h) = bbs_reports h"
  "bbs_comment_arrays (session_bbs_notify_mentions_locked env txt actor post c h) = bbs_comment_arrays h"
  "bbs_vote_capacity (session_bbs_notify_mentions_locked env txt actor post c h) = bbs_vote_capacity h"
proof -
  define f where "f = (\<lambda>name h. if strncmp_eq BBS_NAME_LEN name actor \<or> \<not> be_known_user env name then h
     else host_bbs_notification_enqueue_locked (be_now env) 1 name actor post c h)"
  have "bbs_posts (fold f names h) = bbs_posts h \<and> bbs_post_count (fold f names h) = bbs_post_count h \<and>
     next_bbs_id (fold f names h) = next_bbs_id h \<and> bbs_votes (fold f names h) = bbs_votes h \<and>
     bbs_reports (fold f names h) = bbs_reports h \<and> bbs_comment_arrays (fold f names h) = bbs_comment_arrays h \<and>
     bbs_vote_capacity (fold f names h) = bbs_vote_capacity h" for names
    by (induction names arbitrary: h) (simp_all add: f_def)
  then show "bbs_posts (session_bbs_notify_mentions_locked env txt actor post c h) = bbs_posts h"
    "bbs_post_count (session_bbs_notify_mentions_locked env txt actor post c h) = bbs_post_count h"
    "next_bbs_id (session_bbs_notify_mentions_locked env txt actor post c h) = next_bbs_id h"
    "bbs_votes (session_bbs_notify_mentions_locked env txt actor post c h) = bbs_votes h"
    "bbs_reports (session_bbs_notify_mentions_locked env txt actor post c h) = bbs_reports h"
    "bbs_comment_arrays (session_bbs_notify_mentions_locked env txt actor post c h) = bbs_comment_arrays h"
    "bbs_vote_capacity (session_bbs_notify_mentions_locked env txt actor post c h) = bbs_vote_capacity h"
    by (simp_all add: session_bbs_notify_mentions_locked_def f_def)
qed

lemma rate_ensure_simps:
  assumes "host_bbs_rate_limit_ensure_locked h name = Some (i, h')"
  shows "bbs_posts h' = bbs_posts h" "bbs_post_count h' = bbs_post_count h" "next_bbs_id h' = next_bbs_id h"
    "bbs_votes h' = bbs_votes h" "bbs_reports h' = bbs_reports h" "bbs_comment_arrays h' = bbs_comment_arrays h"
    "bbs_vote_capacity h' = bbs_vote_capacity h"
  using assms by (auto simp: host_bbs_rate_limit_ensure_locked_def Let_def split: option.splits if_splits)

lemma note_time_simps [simp]:
  "bbs_posts (note_post_time now u h) = bbs_posts h" "bbs_post_count (note_post_time now u h) = bbs_post_count h"
  "next_bbs_id (note_post_time now u h) = next_bbs_id h" "bbs_votes (note_post_time now u h) = bbs_votes h"
  "bbs_reports (note_post_time now u h) = bbs_reports h" "bbs_comment_arrays (note_post_time now u h) = bbs_comment_arrays h"
  "bbs_vote_capacity (note_post_time now u h) = bbs_vote_capacity h"
  "bbs_posts (note_comment_time now u h) = bbs_posts h" "bbs_post_count (note_comment_time now u h) = bbs_post_count h"
  "next_bbs_id (note_comment_time now u h) = next_bbs_id h" "bbs_votes (note_comment_time now u h) = bbs_votes h"
  "bbs_reports (note_comment_time now u h) = bbs_reports h" "bbs_comment_arrays (note_comment_time now u h) = bbs_comment_arrays h"
  "bbs_vote_capacity (note_comment_time now u h) = bbs_vote_capacity h"
  by (simp_all add: note_post_time_def note_comment_time_def rate_ensure_simps split: option.split prod.split)

lemma tables_simps [simp]:
  "bbs_posts (host_bbs_modlog_append_locked now actor action target h) = bbs_posts h"
  "bbs_post_count (host_bbs_modlog_append_locked now actor action target h) = bbs_post_count h"
  "next_bbs_id (host_bbs_modlog_append_locked now actor action target h) = next_bbs_id h"
  "bbs_reports (host_bbs_modlog_append_locked now actor action target h) = bbs_reports h"
  "bbs_posts (host_bbs_reports_resolve_for_post_locked i h) = bbs_posts h"
  "bbs_post_count (host_bbs_reports_resolve_for_post_locked i h) = bbs_post_count h"
  "next_bbs_id (host_bbs_reports_resolve_for_post_locked i h) = next_bbs_id h"
  "bbs_posts (host_bbs_notification_drop_for_post_locked i h) = bbs_posts h"
  "bbs_post_count (host_bbs_notification_drop_for_post_locked i h) = bbs_post_count h"
  "next_bbs_id (host_bbs_notification_drop_for_post_locked i h) = next_bbs_id h"
  "bbs_reports (host_bbs_notification_drop_for_post_locked i h) = bbs_reports h"
  "bbs_comment_arrays (host_bbs_notification_drop_for_post_locked i h) = bbs_comment_arrays h"
  "bbs_posts (record_vote now i c voter t h) = bbs_posts h" "bbs_post_count (record_vote now i c voter t h) = bbs_post_count h"
  "next_bbs_id (record_vote now i c voter t h) = next_bbs_id h" "bbs_reports (record_vote now i c voter t h) = bbs_reports h"
  "bbs_comment_arrays (record_vote now i c voter t h) = bbs_comment_arrays h"
  "bbs_posts (host_bbs_mute_set_locked now name until by_name h) = bbs_posts h"
  "bbs_post_count (host_bbs_mute_set_locked now name until by_name h) = bbs_post_count h"
  "next_bbs_id (host_bbs_mute_set_locked now name until by_name h) = next_bbs_id h"
  "bbs_reports (host_bbs_mute_set_locked now name until by_name h) = bbs_reports h"
  by (simp_all add: host_bbs_modlog_append_locked_def host_bbs_reports_resolve_for_post_locked_def
      host_bbs_notification_drop_for_post_locked_def record_vote_def host_bbs_mute_set_locked_def split: option.split)

section \<open>Removing a post\<close>

lemma compact_loop_slots:
  assumes "w \<le> idx" "idx \<le> n" "n \<le> length xs" "compact_loop keep n idx w xs = (ys, v)"
  shows "length ys = length xs \<and> set ys \<subseteq> set xs \<and> v \<le> n"
  using assms
proof (induction keep n idx w xs rule: compact_loop.induct)
  case (1 keep n idx w xs)
  show ?case
  proof (cases "idx < n")
    case True
    have e: "compact_loop keep n idx w xs =
        (if keep (xs ! idx) then compact_loop keep n (Suc idx) (Suc w) (if w \<noteq> idx then xs[w := xs ! idx] else xs)
         else compact_loop keep n (Suc idx) w xs)"
      using True by (subst compact_loop.simps) simp
    have up: "set (xs[w := xs ! idx]) \<subseteq> set xs"
      using True "1.prems"(3) set_update_subset_insert [of xs w "xs ! idx"] by auto
    show ?thesis
    proof (cases "keep (xs ! idx)")
      case keep: True
      define xs' where "xs' = (if w \<noteq> idx then xs[w := xs ! idx] else xs)"
      have "compact_loop keep n (Suc idx) (Suc w) xs' = (ys, v)" using e keep "1.prems"(4) by (simp add: xs'_def)
      then have "length ys = length xs' \<and> set ys \<subseteq> set xs' \<and> v \<le> n"
        using "1.IH"(1) [OF True keep, folded xs'_def] "1.prems" True by (simp add: xs'_def)
      moreover have "length xs' = length xs" "set xs' \<subseteq> set xs" using up by (simp_all add: xs'_def)
      ultimately show ?thesis by (metis order_trans)
    next
      case False
      then show ?thesis using e "1.IH"(2) [OF True False] "1.prems" True by simp
    qed
  next
    case False
    then have "compact_loop keep n idx w xs = (xs, w)" by (subst compact_loop.simps) simp
    then show ?thesis using "1.prems" by simp
  qed
qed

lemma reset_slots:
  assumes "w \<le> length (bbs_posts h)" "n = length (bbs_posts h)"
  shows "bbs_posts (fold host_reset_bbs_post [w..<n] h) = take w (bbs_posts h) @ map reset_post (drop w (bbs_posts h))"
    "next_bbs_id (fold host_reset_bbs_post [w..<n] h) = next_bbs_id h"
proof -
  have "bbs_posts (fold host_reset_bbs_post [w..<n] h) = take w (bbs_posts h) @ map reset_post (drop w (bbs_posts h)) \<and>
      next_bbs_id (fold host_reset_bbs_post [w..<n] h) = next_bbs_id h"
    using assms
  proof (induction "n - w" arbitrary: w h)
    case 0
    then show ?case by simp
  next
    case (Suc m)
    then have w: "w < n" by simp
    define h1 where "h1 = host_reset_bbs_post w h"
    have h1: "bbs_posts h1 = (bbs_posts h)[w := reset_post (bbs_posts h ! w)]" "next_bbs_id h1 = next_bbs_id h"
      by (simp_all add: h1_def host_reset_bbs_post_def Let_def)
    have "bbs_posts (fold host_reset_bbs_post [Suc w..<n] h1) = take (Suc w) (bbs_posts h1) @ map reset_post (drop (Suc w) (bbs_posts h1)) \<and>
        next_bbs_id (fold host_reset_bbs_post [Suc w..<n] h1) = next_bbs_id h1"
      using Suc w by (intro Suc.hyps(1)) (simp_all add: h1)
    moreover have "take (Suc w) (bbs_posts h1) @ map reset_post (drop (Suc w) (bbs_posts h1)) =
        take w (bbs_posts h) @ map reset_post (drop w (bbs_posts h))"
      using w Suc.prems(2) by (simp add: h1 take_Suc_conv_app_nth Cons_nth_drop_Suc [symmetric])
    ultimately show ?case using w by (simp add: upt_conv_Cons h1_def [symmetric] h1)
  qed
  then show "bbs_posts (fold host_reset_bbs_post [w..<n] h) = take w (bbs_posts h) @ map reset_post (drop w (bbs_posts h))"
    "next_bbs_id (fold host_reset_bbs_post [w..<n] h) = next_bbs_id h" by blast+
qed

lemma reset_post_simps [simp]:
  "\<not> bp_in_use (reset_post p)" "bp_id (reset_post p) = 0" "bp_comment_count (reset_post p) = 0"
  "bp_comments (reset_post p) = bp_comments p"
  by (simp_all add: reset_post_def)

lemma clear_post:
  assumes "k < length (bbs_posts h)" "h' = host_clear_bbs_post_locked k h"
  defines "used \<equiv> without_slot k (bbs_posts h)"
  shows "length (bbs_posts h') = length (bbs_posts h)" "take (length used) (bbs_posts h') = used"
    "list_all (\<lambda>p. \<not> bp_in_use p \<and> bp_id p = 0 \<and> bp_comment_count p = 0 \<and> bp_comments p \<in> bp_comments ` set (bbs_posts h))
       (drop (length used) (bbs_posts h'))"
    "bbs_post_count h' = length used" "next_bbs_id h' = next_bbs_id h"
proof -
  define n where "n = length (bbs_posts h)"
  define h1 where "h1 = host_reset_bbs_post k h"
  have h1: "bbs_posts h1 = (bbs_posts h)[k := reset_post (bbs_posts h ! k)]" "next_bbs_id h1 = next_bbs_id h"
    by (simp_all add: h1_def host_reset_bbs_post_def Let_def)
  obtain ys v where c: "compact_loop bp_in_use n 0 0 (bbs_posts h1) = (ys, v)" by fastforce
  have "take v ys = filter bp_in_use (bbs_posts h1)"
    using compact_loop_filter [of 0 0 n "bbs_posts h1" bp_in_use] c by (simp add: h1 n_def)
  then have front: "take v ys = used" by (simp add: used_def without_slot_def h1)
  have slots: "length ys = n" "set ys \<subseteq> set (bbs_posts h1)" "v \<le> n"
    using compact_loop_slots [OF _ _ _ c] by (simp_all add: h1 n_def)
  have v: "length used = v" using slots arg_cong [OF front, of length] by simp
  have h': "h' = fold host_reset_bbs_post [v..<n] (h1\<lparr>bbs_posts := ys\<rparr>)\<lparr>bbs_post_count := v\<rparr>"
    using c by (simp add: assms(2) host_clear_bbs_post_locked_def Let_def h1_def [symmetric] h1 n_def)
  define h2 where "h2 = h1\<lparr>bbs_posts := ys\<rparr>"
  have h2: "bbs_posts h2 = ys" "next_bbs_id h2 = next_bbs_id h" by (simp_all add: h2_def h1)
  have bound: "v \<le> length (bbs_posts h2)" "n = length (bbs_posts h2)" using slots by (simp_all add: h2)
  have posts: "bbs_posts h' = take v ys @ map reset_post (drop v ys)" "next_bbs_id h' = next_bbs_id h"
    unfolding h' h2_def [symmetric] using reset_slots [OF bound] by (simp_all add: h2)
  show "length (bbs_posts h') = length (bbs_posts h)" using slots by (simp add: posts n_def)
  show "take (length used) (bbs_posts h') = used" using slots v by (simp add: posts front)
  show "bbs_post_count h' = length used" "next_bbs_id h' = next_bbs_id h" using v posts(2) by (simp_all add: h')
  have "bp_comments p \<in> bp_comments ` set (bbs_posts h)" if "p \<in> set (bbs_posts h1)" for p
    using that assms(1) set_update_subset_insert [of "bbs_posts h" k "reset_post (bbs_posts h ! k)"] by (auto simp: h1)
  then show "list_all (\<lambda>p. \<not> bp_in_use p \<and> bp_id p = 0 \<and> bp_comment_count p = 0 \<and> bp_comments p \<in> bp_comments ` set (bbs_posts h))
       (drop (length used) (bbs_posts h'))"
    using slots v by (auto simp: posts list_all_iff dest!: in_set_dropD)
qed


section \<open>Every command makes one of the changes\<close>

lemma find_post:
  assumes "host_find_bbs_post_locked h i = Some k"
  shows "k < length (bbs_posts h)" "bbs_post_has_required_fields (bbs_posts h ! k)" "bp_id (bbs_posts h ! k) = i"
  using assms by (auto simp: host_find_bbs_post_locked_def first_index_Some split: if_splits)

lemma touch_found:
  assumes "host_find_bbs_post_locked h i = Some k" "bbs_posts h' = (bbs_posts h)[k := p']" "same_post (bbs_posts h ! k) p'"
    and "bp_comment_count p' \<le> max BBS_MAX_COMMENTS (bp_comment_count (bbs_posts h ! k))"
    and "content p' = content (bbs_posts h ! k) \<or> bbs_may_change u (bp_author (bbs_posts h ! k))"
    and "bbs_post_count h' = bbs_post_count h" "next_bbs_id h' = next_bbs_id h"
  shows "post_change u h h'"
  using find_post [OF assms(1)] assms(2-7) by (intro touched [OF _ refl]) simp_all

lemma post_change_same [intro!]: "post_change u h h"
  by (rule unchanged) simp_all

lemma post_change_tables:
  assumes "bbs_posts h' = bbs_posts h" "bbs_post_count h' = bbs_post_count h" "next_bbs_id h' = next_bbs_id h"
  shows "post_change u h h'"
  using assms by (intro unchanged) simp_all

text \<open>A change that keeps the content.\<close>

lemma same_post_keeps [simp]:
  "same_post p (p\<lparr>bp_bumped_at := t\<rparr>)" "content (p\<lparr>bp_bumped_at := t\<rparr>) = content p"
  "same_post p (p\<lparr>bp_comment_count := n, bp_bumped_at := t\<rparr>)" "content (p\<lparr>bp_comment_count := n, bp_bumped_at := t\<rparr>) = content p"
  "same_post p (p\<lparr>bp_comment_count := n\<rparr>)" "content (p\<lparr>bp_comment_count := n\<rparr>) = content p"
  "same_post p (p\<lparr>bp_mod_flags := f\<rparr>)" "content (p\<lparr>bp_mod_flags := f\<rparr>) = content p"
  "same_post p (voted_post t again p)" "content (voted_post t again p) = content p"
  "bp_comment_count (voted_post t again p) = bp_comment_count p"
  by (simp_all add: same_post_def content_def voted_post_def)

lemma commit_edit_change: "post_change (bs_user s) h (fst (commit_edit env s h))"
proof (cases "host_find_bbs_post_locked h (bs_edit_id s)")
  case None
  then show ?thesis by (simp add: commit_edit_def post_change_same)
next
  case (Some k)
  show ?thesis
  proof (cases "bbs_may_change (bs_user s) (bp_author (bbs_posts h ! k))")
    case True
    define p' where "p' = (bbs_posts h ! k)\<lparr>bp_title := host_strip_column_reset (snprintf_into BBS_TITLE_LEN (bs_title s)),
      bp_body := host_strip_column_reset (bs_body s), bp_tags := stripped_tags s, bp_bumped_at := be_now env\<rparr>"
    show ?thesis using Some True
      by (intro touch_found [OF Some, where p' = p']) (simp_all add: commit_edit_def Let_def same_post_def p'_def)
  next
    case False
    then show ?thesis using Some by (simp add: commit_edit_def Let_def post_change_same)
  qed
qed

lemma allocate_post:
  assumes "host_allocate_bbs_post_locked now h = Some (k, h')"
  shows "k < length (bbs_posts h)" "\<not> bp_in_use (bbs_posts h ! k)" "length (bbs_posts h') = length (bbs_posts h)"
    "bbs_posts h' = (bbs_posts h)[k := bbs_posts h' ! k]" "bp_in_use (bbs_posts h' ! k)" "bp_id (bbs_posts h' ! k) = next_bbs_id h"
    "bp_comments (bbs_posts h' ! k) = bp_comments (bbs_posts h ! k)" "bp_comment_count (bbs_posts h' ! k) = 0"
    "bp_author (bbs_posts h' ! k) = []"
    "bbs_post_count h' = (if bbs_post_count h < BBS_MAX_POSTS then bbs_post_count h + 1 else bbs_post_count h)"
    "next_bbs_id h' = next_id_after (next_bbs_id h)" "bbs_mutes h' = bbs_mutes h" "bbs_rate_limits h' = bbs_rate_limits h"
  using assms by (auto simp: host_allocate_bbs_post_locked_def Let_def first_index_Some split: option.splits)

lemma commit_create_change: "post_change (bs_user s) h (fst (snd (commit_create env s h)))"
proof (cases "host_allocate_bbs_post_locked (be_now env) h")
  case None
  then show ?thesis by (simp add: commit_create_def post_change_same)
next
  case (Some r)
  obtain k h1 where r: "r = (k, h1)" by fastforce
  note a = allocate_post [OF Some [unfolded r]]
  have leak: "post_change (bs_user s) h h1"
    by (rule created [of k h "bbs_posts h1 ! k"]) (use a in \<open>simp_all\<close>)
  have full: "post_change (bs_user s) h h'"
    if "bbs_posts h' = (bbs_posts h1)[k := p]" "bp_in_use p" "bp_id p = next_bbs_id h" "bp_comments p = bp_comments (bbs_posts h ! k)"
      "bp_comment_count p = 0" "bbs_post_count h' = bbs_post_count h1" "next_bbs_id h' = next_bbs_id h1" for h' p
  proof (rule created [of k h p])
    show "bbs_posts h' = (bbs_posts h)[k := p]" using that(1) a(4) by (metis list_update_overwrite)
  qed (use that a in simp_all)
  show ?thesis using Some r leak a
    by (auto simp: commit_create_def Let_def intro!: full)
qed

lemma put_comment_simps:
  "bbs_posts (put_comment env u k body h) =
     (bbs_posts h)[k := (bbs_posts h ! k)\<lparr>bp_comment_count := bp_comment_count (bbs_posts h ! k) + 1, bp_bumped_at := be_now env\<rparr>]"
  "bbs_post_count (put_comment env u k body h) = bbs_post_count h" "next_bbs_id (put_comment env u k body h) = next_bbs_id h"
  "bbs_votes (put_comment env u k body h) = bbs_votes h" "bbs_reports (put_comment env u k body h) = bbs_reports h"
  "bbs_vote_capacity (put_comment env u k body h) = bbs_vote_capacity h"
  by (simp_all add: put_comment_def Let_def)

lemma add_comment_change: "post_change u h (fst (session_bbs_add_comment env s arguments h))"
proof -
  have "post_change u h (host_bbs_state_save_locked env (put_comment env v k body h))"
    if "host_find_bbs_post_locked h i = Some k" "bp_comment_count (bbs_posts h ! k) < BBS_MAX_COMMENTS" for i k v body
    by (rule touch_found [OF that(1), where p' = "(bbs_posts h ! k)\<lparr>bp_comment_count := bp_comment_count (bbs_posts h ! k) + 1,
        bp_bumped_at := be_now env\<rparr>"]) (use that(2) in \<open>simp_all add: put_comment_simps\<close>)
  then show ?thesis
    by (simp add: session_bbs_add_comment_def Let_def post_change_same not_le split: option.split prod.split)
qed

lemma comment_commands_change:
  "post_change u h (fst (session_bbs_cmtedit env s arguments h))" "post_change u h (fst (session_bbs_cmtvote env s arguments h))"
  by (auto simp: session_bbs_cmtedit_def session_bbs_cmtvote_def Let_def intro!: post_change_tables split: option.split prod.split)

lemma cmtdel_change: "post_change u h (fst (session_bbs_cmtdel env s arguments h))"
proof -
  have "post_change u h (host_bbs_state_save_locked env ((set_comments a cs (set_post k ((bbs_posts h ! k)\<lparr>bp_comment_count := bp_comment_count (bbs_posts h ! k) - 1\<rparr>) h))
      \<lparr>bbs_votes := vs\<rparr>))" if "host_find_bbs_post_locked h i = Some k" for i k a cs vs
    by (intro touch_found [OF that, where p' = "(bbs_posts h ! k)\<lparr>bp_comment_count := bp_comment_count (bbs_posts h ! k) - 1\<rparr>"])
      (simp_all del: One_nat_def)
  then show ?thesis
    by (simp add: session_bbs_cmtdel_def Let_def post_change_same split: option.split prod.split)
qed

lemma delete_change: "post_change (bs_user s) h (fst (session_bbs_delete env s i h))"
proof (cases "i = 0 \<or> \<not> be_storage env \<or> first_index (\<lambda>p. bp_id p = i) (bbs_posts h) = None")
  case True
  then show ?thesis by (auto simp: session_bbs_delete_def)
next
  case False
  then obtain k where k: "first_index (\<lambda>p. bp_id p = i) (bbs_posts h) = Some k" by blast
  then have kl: "k < length (bbs_posts h)" "bp_id (bbs_posts h ! k) = i" by (simp_all add: first_index_Some)
  define h1 where "h1 = set_post k ((bbs_posts h ! k)\<lparr>bp_in_use := False, bp_id := 0\<rparr>) h"
  have ps: "bbs_posts h1 = (bbs_posts h)[k := (bbs_posts h ! k)\<lparr>bp_in_use := False, bp_id := 0\<rparr>]" by (simp add: h1_def)
  have kl1: "k < length (bbs_posts h1)" using kl(1) by (simp add: ps)
  have w: "without_slot k (bbs_posts h1) = without_slot k (bbs_posts h)"
    using kl(1) by (simp add: without_slot_def ps reset_post_def)
  have addr: "bp_comments ` set (bbs_posts h1) \<subseteq> bp_comments ` set (bbs_posts h)"
    using kl(1) set_update_subset_insert [of "bbs_posts h" k "(bbs_posts h ! k)\<lparr>bp_in_use := False, bp_id := 0\<rparr>"]
    by (auto simp: ps)
  note c = clear_post [OF kl1 refl, unfolded w]
  have tail: "list_all (\<lambda>p. \<not> bp_in_use p \<and> bp_id p = 0 \<and> bp_comment_count p = 0 \<and> bp_comments p \<in> bp_comments ` set (bbs_posts h))
      (drop (length (without_slot k (bbs_posts h))) (bbs_posts (host_clear_bbs_post_locked k h1)))"
    using c(3) addr by (auto simp: list_all_iff)
  have "post_change (bs_user s) h (host_bbs_state_save_locked env (host_bbs_notification_drop_for_post_locked i (host_clear_bbs_post_locked k h1)))"
    if "bp_author (bbs_posts h ! k) = [] \<or> bbs_may_change (bs_user s) (bp_author (bbs_posts h ! k))"
    by (rule removed [OF kl(1) _ that]) (use kl False c tail in \<open>simp_all add: h1_def [symmetric]\<close>, simp_all add: h1_def)
  then show ?thesis using False k by (auto simp: session_bbs_delete_def Let_def h1_def)
qed


lemma regen_change: "post_change u h (fst (session_bbs_regen_post env i h))"
proof -
  have "post_change u h (host_bbs_state_save_locked env (set_post k ((bbs_posts h ! k)\<lparr>bp_bumped_at := t\<rparr>) h))"
    if "host_find_bbs_post_locked h i = Some k" for k t
    by (rule touch_found [OF that, where p' = "(bbs_posts h ! k)\<lparr>bp_bumped_at := t\<rparr>"]) simp_all
  then show ?thesis by (simp add: session_bbs_regen_post_def Let_def post_change_same split: option.split)
qed

lemma post_vote_change: "post_change u h (fst (post_vote env s i t h))"
proof -
  have "post_change u h (host_bbs_state_save_locked env (record_vote now i c voter t' (set_post k (voted_post t' again (bbs_posts h ! k)) h)))"
    if "host_find_bbs_post_locked h i = Some k" for k now c voter again t'
    by (rule touch_found [OF that, where p' = "voted_post t' again (bbs_posts h ! k)"]) simp_all
  then show ?thesis by (simp add: post_vote_def Let_def post_change_same split: option.split)
qed

lemma mod_flag_change: "post_change u h (fst (session_bbs_set_mod_flag env s i flag setting action confirmation h))"
proof (cases "host_find_bbs_post_locked h i")
  case None
  then show ?thesis by (simp add: session_bbs_set_mod_flag_def Let_def post_change_same)
next
  case (Some k)
  define p' where "p' = (bbs_posts h ! k)\<lparr>bp_mod_flags := (if setting then bp_mod_flags (bbs_posts h ! k) OR flag
      else bp_mod_flags (bbs_posts h ! k) AND NOT flag)\<rparr>"
  have p': "same_post (bbs_posts h ! k) p'" "content p' = content (bbs_posts h ! k)"
    "bp_comment_count p' = bp_comment_count (bbs_posts h ! k)"
    by (simp_all add: p'_def)
  have "post_change u h h'" if "bbs_posts h' = (bbs_posts h)[k := p']" "bbs_post_count h' = bbs_post_count h" "next_bbs_id h' = next_bbs_id h" for h'
    by (rule touch_found [OF Some that(1) p'(1)]) (use that p' in simp_all)
  then show ?thesis using Some
    by (simp add: session_bbs_set_mod_flag_def Let_def post_change_same p'_def [symmetric])
qed

lemma mute_remove_simps:
  assumes "host_bbs_mute_remove_locked name h = (b, h')"
  shows "bbs_posts h' = bbs_posts h" "bbs_post_count h' = bbs_post_count h" "next_bbs_id h' = next_bbs_id h"
    "bbs_reports h' = bbs_reports h"
  using assms by (auto simp: host_bbs_mute_remove_locked_def split: option.splits)

lemma report_enqueue_simps:
  assumes "host_bbs_report_enqueue_locked now i name reason h = (b, h')"
  shows "bbs_posts h' = bbs_posts h" "bbs_post_count h' = bbs_post_count h" "next_bbs_id h' = next_bbs_id h"
  using assms by (auto simp: host_bbs_report_enqueue_locked_def Let_def split: if_splits)

lemma moderation_change:
  "post_change u h (fst (session_bbs_report env s arguments h))"
  "post_change u h (fst (session_bbs_mute env s arguments h))"
  "post_change u h (fst (session_bbs_unmute env s arguments h))"
proof -
  have "post_change u h h'" if "host_bbs_report_enqueue_locked now i name reason h = (b, h')" for now i name reason b h'
    using report_enqueue_simps [OF that] by (rule post_change_tables)
  moreover have "post_change u h (host_bbs_state_save_locked env h')"
    if "host_bbs_report_enqueue_locked now i name reason h = (b, h')" for now i name reason b h'
    using report_enqueue_simps [OF that] by (intro post_change_tables) simp_all
  ultimately show "post_change u h (fst (session_bbs_report env s arguments h))"
    by (simp add: session_bbs_report_def Let_def post_change_same split: option.split prod.split bool.split)
  show "post_change u h (fst (session_bbs_mute env s arguments h))"
    by (auto simp: session_bbs_mute_def Let_def intro!: post_change_tables split: prod.split)
  show "post_change u h (fst (session_bbs_unmute env s arguments h))"
    by (auto simp: session_bbs_unmute_def host_bbs_mute_remove_locked_def intro!: post_change_tables split: option.split)
qed

lemma draft_save_change: "post_change u h (fst (draft_save env s h))"
  by (auto simp: draft_save_def intro!: unchanged split: option.split)

lemma draft_change: "post_change u h (fst (snd (session_bbs_draft env arguments s h)))"
  using draft_save_change [of u h env s]
  by (auto simp: session_bbs_draft_def Let_def intro!: post_change_tables split: option.split prod.split)

lemma commit_change: "post_change (bs_user s) h (fst (snd (session_bbs_commit_pending_post env s h)))"
  using commit_edit_change [of s h env] commit_create_change [of s h env]
  by (auto simp: session_bbs_commit_pending_post_def Let_def split: prod.split)

lemma command_change: "post_change (bs_user s) h (fst (snd (bbs_command_step env c s h)))"
  using commit_change [of s h env] add_comment_change [of "bs_user s" h env s] comment_commands_change [of "bs_user s" h env s]
    cmtdel_change [of "bs_user s" h env s] delete_change [of s h env] regen_change [of "bs_user s" h env]
    post_vote_change [of "bs_user s" h env s] moderation_change [of "bs_user s" h env s] mod_flag_change [of "bs_user s" h env s]
    draft_change [of "bs_user s" h env]
  by (cases c) (auto simp: session_bbs_upvote_def session_bbs_downvote_def split: prod.split)

end
