(* ===== verification/Bbs_Posts.thy ===== *)
theory Bbs_Posts
  imports Bbs_Changes "HOL-Library.Multiset"
begin

text \<open>
  Runs of commands of many sessions on the bulletin board: identifiers are unique and the
  count is right, and posts are in the hands of their authors and the operators.
\<close>

section \<open>Well-formed tables of posts\<close>

definition slot_ok :: "nat \<Rightarrow> bbs_post \<Rightarrow> bool" where
  "slot_ok next_id p \<longleftrightarrow> (if bp_in_use p then 0 < bp_id p \<and> bp_id p < next_id else bp_id p = 0) \<and>
     bp_comment_count p \<le> BBS_MAX_COMMENTS \<and> bp_comments p < BBS_MAX_POSTS"

definition used_ids :: "bbs_post list \<Rightarrow> nat list" where
  "used_ids ps = map bp_id (filter bp_in_use ps)"

definition posts_ok :: "bbs_host \<Rightarrow> bool" where
  "posts_ok h \<longleftrightarrow> length (bbs_posts h) = BBS_MAX_POSTS \<and> list_all (slot_ok (next_bbs_id h)) (bbs_posts h) \<and>
     distinct (used_ids (bbs_posts h)) \<and> bbs_post_count h = length (used_ids (bbs_posts h)) \<and> 0 < next_bbs_id h"

lemma posts_okD:
  assumes "posts_ok h"
  shows "length (bbs_posts h) = BBS_MAX_POSTS" "p \<in> set (bbs_posts h) \<Longrightarrow> slot_ok (next_bbs_id h) p"
    "distinct (used_ids (bbs_posts h))" "bbs_post_count h = length (used_ids (bbs_posts h))" "0 < next_bbs_id h"
  using assms by (auto simp: posts_ok_def list_all_iff)

lemma slot_ok_mono: "slot_ok n p \<Longrightarrow> n \<le> m \<Longrightarrow> slot_ok m p"
  by (auto simp: slot_ok_def split: if_splits)

lemma list_all_update: "list_all P xs \<Longrightarrow> P x \<Longrightarrow> list_all P (xs[k := x])"
  using set_update_subset_insert [of xs k x] by (auto simp: list_all_iff)

lemma used_ids_same:
  assumes "k < length ps" "bp_in_use p = bp_in_use (ps ! k)" "bp_id p = bp_id (ps ! k)"
  shows "used_ids (ps[k := p]) = used_ids ps"
proof -
  have "used_ids ps = used_ids (take k ps @ ps ! k # drop (Suc k) ps)" using id_take_nth_drop [OF assms(1)] by simp
  then show ?thesis using assms by (simp add: used_ids_def upd_conv_take_nth_drop)
qed

lemma used_ids_new:
  assumes "k < length ps" "\<not> bp_in_use (ps ! k)" "bp_in_use p"
  shows "mset (used_ids (ps[k := p])) = add_mset (bp_id p) (mset (used_ids ps))"
proof -
  have "used_ids ps = used_ids (take k ps @ ps ! k # drop (Suc k) ps)" using id_take_nth_drop [OF assms(1)] by simp
  then show ?thesis using assms by (simp add: used_ids_def upd_conv_take_nth_drop)
qed

lemma used_ids_without:
  assumes "k < length ps"
  shows "map bp_id (without_slot k ps) = used_ids (take k ps) @ used_ids (drop (Suc k) ps)"
  using assms by (simp add: without_slot_def used_ids_def upd_conv_take_nth_drop)


lemma length_used_ids_le: "length (used_ids ps) \<le> length ps"
  by (simp add: used_ids_def)

lemma slots_mono: "posts_ok h \<Longrightarrow> next_bbs_id h \<le> n \<Longrightarrow> list_all (slot_ok n) (bbs_posts h)"
  using posts_okD(2) [of h] slot_ok_mono [of "next_bbs_id h" _ n] by (auto simp: list_all_iff)

lemma created_ok:
  assumes "posts_ok h" "k < length (bbs_posts h)" "\<not> bp_in_use (bbs_posts h ! k)" "bp_in_use p'" "bp_id p' = next_bbs_id h"
    and "bp_comments p' = bp_comments (bbs_posts h ! k)" "bp_comment_count p' = 0" "bbs_posts h' = (bbs_posts h)[k := p']"
    and "bbs_post_count h' = (if bbs_post_count h < BBS_MAX_POSTS then bbs_post_count h + 1 else bbs_post_count h)"
    and "next_bbs_id h' = next_bbs_id h + 1"
  shows "posts_ok h'"
proof -
  note ok = posts_okD [OF assms(1)]
  have "slot_ok (next_bbs_id h') p'" using assms(4-7,10) ok(2) [OF nth_mem [OF assms(2)]] ok(5) by (simp add: slot_ok_def)
  then have l: "list_all (slot_ok (next_bbs_id h')) (bbs_posts h')"
    unfolding assms(8) using slots_mono [OF assms(1), of "next_bbs_id h'"] assms(10) by (intro list_all_update) simp_all
  have m: "mset (used_ids (bbs_posts h')) = add_mset (next_bbs_id h) (mset (used_ids (bbs_posts h)))"
    using used_ids_new [OF assms(2-4)] assms(5,8) by simp
  have "next_bbs_id h \<notin> set (used_ids (bbs_posts h))" using ok(2) by (force simp: used_ids_def slot_ok_def)
  then have d: "distinct (used_ids (bbs_posts h'))"
    using m ok(3) by (metis distinct.simps(2) mset.simps(2) mset_eq_imp_distinct_iff)
  have n: "length (used_ids (bbs_posts h')) = length (used_ids (bbs_posts h)) + 1"
    using arg_cong [OF m, of size] by simp
  then have "bbs_post_count h < BBS_MAX_POSTS"
    using length_used_ids_le [of "bbs_posts h'"] ok(1,4) assms(8) by simp
  then show ?thesis using ok l d n assms(8-10) by (simp add: posts_ok_def)
qed

text \<open>After a removal: the posts left, then empty slots.\<close>

lemma removed_split:
  assumes "ws = without_slot k (bbs_posts h)" "take (length ws) (bbs_posts h') = ws"
    and "list_all (\<lambda>p. \<not> bp_in_use p \<and> bp_id p = 0 \<and> bp_comment_count p = 0 \<and> bp_comments p \<in> bp_comments ` set (bbs_posts h))
      (drop (length ws) (bbs_posts h'))"
  shows "bbs_posts h' = ws @ drop (length ws) (bbs_posts h')" "set ws \<subseteq> set (bbs_posts h)" "\<forall>p\<in>set ws. bp_in_use p"
    "filter bp_in_use (bbs_posts h') = ws"
proof -
  show split: "bbs_posts h' = ws @ drop (length ws) (bbs_posts h')"
    using assms(2) append_take_drop_id [of "length ws" "bbs_posts h'"] by simp
  show "set ws \<subseteq> set (bbs_posts h)"
    using set_update_subset_insert [of "bbs_posts h" k "reset_post (bbs_posts h ! k)"] by (auto simp: assms(1) without_slot_def)
  show use: "\<forall>p\<in>set ws. bp_in_use p" by (auto simp: assms(1) without_slot_def)
  have "filter bp_in_use (drop (length ws) (bbs_posts h')) = []" using assms(3) by (auto simp: filter_empty_conv list_all_iff)
  then show "filter bp_in_use (bbs_posts h') = ws" using use by (subst split) simp
qed

lemma without_distinct:
  assumes "distinct (used_ids ps)" "k < length ps"
  shows "distinct (map bp_id (without_slot k ps))"
proof -
  have "used_ids ps = used_ids (take k ps @ ps ! k # drop (Suc k) ps)" using id_take_nth_drop [OF assms(2)] by simp
  then have "distinct (used_ids (take k ps) @ used_ids (drop (Suc k) ps))"
    using assms(1) by (auto simp: used_ids_def split: if_splits)
  then show ?thesis using used_ids_without [OF assms(2)] by simp
qed

lemma change_posts_ok:
  assumes "post_change u h h'" "posts_ok h" "next_bbs_id h + 1 < 2 ^ 64"
  shows "posts_ok h' \<and> next_bbs_id h' \<le> next_bbs_id h + 1"
proof -
  note ok = posts_okD [OF assms(2)] and slots = slots_mono [OF assms(2)]
  have step: "next_id_after (next_bbs_id h) = next_bbs_id h + 1" using assms(3) by (simp add: next_id_after_def)
  show ?thesis using assms(1)
  proof cases
    case unchanged
    then show ?thesis using ok slots [of "next_bbs_id h'"] step by (auto simp: posts_ok_def)
  next
    case (touched k p p')
    have "slot_ok (next_bbs_id h) p" using ok(2) touched(1,2) by simp
    then have "slot_ok (next_bbs_id h) p'" using touched(4,5) by (auto simp: slot_ok_def same_post_def split: if_splits)
    then have "list_all (slot_ok (next_bbs_id h)) ((bbs_posts h)[k := p'])" using slots by (intro list_all_update) simp_all
    moreover have "used_ids ((bbs_posts h)[k := p']) = used_ids (bbs_posts h)"
      using touched by (intro used_ids_same) (simp_all add: same_post_def)
    ultimately show ?thesis using ok touched by (simp add: posts_ok_def)
  next
    case (created k p')
    then show ?thesis using created_ok [OF assms(2) created(1-8)] step by simp
  next
    case (removed k)
    define ws where "ws = without_slot k (bbs_posts h)"
    note r = removed_split [OF ws_def removed(5,6) [folded ws_def]]
    have tail: "\<forall>p\<in>set (drop (length ws) (bbs_posts h')). slot_ok (next_bbs_id h) p"
      using removed(6) ok(2) by (force simp: list_all_iff ws_def slot_ok_def)
    have "list_all (slot_ok (next_bbs_id h)) (bbs_posts h')" using r(2) ok(2) tail by (subst r(1)) (auto simp: list_all_iff)
    then show ?thesis using ok removed without_distinct [OF ok(3) removed(1)] r(4)
      by (simp add: posts_ok_def used_ids_def ws_def)
  qed
qed

section \<open>Posts by their identifiers\<close>

definition post_of :: "bbs_host \<Rightarrow> nat \<Rightarrow> bbs_post option" where
  "post_of h i = find (\<lambda>p. bp_in_use p \<and> bp_id p = i) (bbs_posts h)"

lemma distinct_used_same:
  assumes "distinct (used_ids ps)" "p \<in> set ps" "q \<in> set ps" "bp_in_use p" "bp_in_use q" "bp_id p = bp_id q"
  shows "p = q"
  using assms by (auto simp: used_ids_def distinct_map inj_on_def)

lemma post_of_iff:
  assumes "posts_ok h"
  shows "post_of h i = Some p \<longleftrightarrow> p \<in> set (bbs_posts h) \<and> bp_in_use p \<and> bp_id p = i"
proof
  assume "post_of h i = Some p"
  then show "p \<in> set (bbs_posts h) \<and> bp_in_use p \<and> bp_id p = i"
    by (auto simp: post_of_def find_Some_iff)
next
  assume p: "p \<in> set (bbs_posts h) \<and> bp_in_use p \<and> bp_id p = i"
  then have "post_of h i \<noteq> None" by (auto simp: post_of_def find_None_iff)
  then obtain q where q: "post_of h i = Some q" by blast
  then have "q \<in> set (bbs_posts h)" "bp_in_use q" "bp_id q = i" by (auto simp: post_of_def find_Some_iff)
  then show "post_of h i = Some p" using q p distinct_used_same [OF posts_okD(3) [OF assms], of p q] by simp
qed


text \<open>What a user may not change stays: the post is found with the same content.\<close>

definition kept_post :: "bbs_post \<Rightarrow> bbs_host \<Rightarrow> bool" where
  "kept_post p h \<longleftrightarrow> (\<exists>q. post_of h (bp_id p) = Some q \<and> content q = content p \<and> bp_author q = bp_author p)"

lemma change_kept:
  assumes "post_change u h h'" "posts_ok h" "posts_ok h'" "kept_post p h" "bp_author p \<noteq> []" "\<not> bbs_may_change u (bp_author p)"
  shows "kept_post p h'"
proof -
  obtain q where q: "q \<in> set (bbs_posts h)" "bp_in_use q" "bp_id q = bp_id p" "content q = content p" "bp_author q = bp_author p"
    using assms(4) post_of_iff [OF assms(2)] by (auto simp: kept_post_def)
  then obtain j where j: "j < length (bbs_posts h)" "bbs_posts h ! j = q" by (auto simp: in_set_conv_nth)
  have there: "kept_post p h'" if "q' \<in> set (bbs_posts h')" "bp_in_use q'" "bp_id q' = bp_id p" "content q' = content p"
      "bp_author q' = bp_author p" for q'
    unfolding kept_post_def using that post_of_iff [OF assms(3), of "bp_id p" q'] by (intro exI [of _ q']) simp
  show ?thesis using assms(1)
  proof cases
    case unchanged
    then show ?thesis using q by (intro there [of q]) simp_all
  next
    case (touched k r r')
    show ?thesis
    proof (cases "j = k")
      case True
      have "r' \<in> set (bbs_posts h')" using touched(1,7) set_update_memI by fastforce
      moreover have "content r' = content q" using touched(2,6) True j(2) q(5) assms(6) by auto
      ultimately show ?thesis using touched(2,4) True j(2) q by (intro there [of r']) (simp_all add: same_post_def)
    next
      case False
      then have "bbs_posts h' ! j = q" "j < length (bbs_posts h')" using touched(7) j by simp_all
      then have "q \<in> set (bbs_posts h')" using nth_mem by blast
      then show ?thesis using q by (intro there [of q]) simp_all
    qed
  next
    case (created k p')
    have "j \<noteq> k" using created(2) j(2) q(2) by auto
    then have "bbs_posts h' ! j = q" "j < length (bbs_posts h')" using created(7) j by simp_all
    then have "q \<in> set (bbs_posts h')" using nth_mem by blast
    then show ?thesis using q by (intro there [of q]) simp_all
  next
    case (removed k)
    define ws where "ws = without_slot k (bbs_posts h)"
    note r = removed_split [OF ws_def removed(5,6) [folded ws_def]]
    have "j \<noteq> k" using removed(3) j(2) q(5) assms(5,6) by auto
    then have "(bbs_posts h)[k := reset_post (bbs_posts h ! k)] ! j = q" using j by simp
    then have "q \<in> set ((bbs_posts h)[k := reset_post (bbs_posts h ! k)])" using j(1) nth_mem [of j "(bbs_posts h)[k := reset_post (bbs_posts h ! k)]"] by simp
    then have "q \<in> set ws" using q(2) by (simp add: ws_def without_slot_def)
    then have "q \<in> set (bbs_posts h')" by (subst r(1)) simp
    then show ?thesis using q by (intro there [of q]) simp_all
  qed
qed

lemma filter_unique_key:
  assumes "distinct (map f xs)" "x \<in> set xs"
  shows "filter (\<lambda>y. f y = f x) xs = [x]"
  using assms
proof (induction xs)
  case (Cons y ys)
  then show ?case by (auto simp: filter_empty_conv) (metis image_eqI)
qed simp

section \<open>Runs\<close>

lemma begin_user [simp]:
  "bs_user (fst (session_bbs_begin_post env a s)) = bs_user s" "bs_user (fst (session_bbs_begin_edit env i h s)) = bs_user s"
  "bs_user (fst (session_bbs_commit_pending_post env s h)) = bs_user s" "bs_user (fst (session_bbs_draft env a s h)) = bs_user s"
  "bs_user (fst (session_bbs_select_board env a h s)) = bs_user s"
  by (simp_all add: session_bbs_begin_post_def session_bbs_begin_edit_def session_bbs_commit_pending_post_def session_bbs_draft_def
      session_bbs_select_board_def session_bbs_reset_pending_post_def Let_def split: sum.split option.split prod.split)

lemma command_user: "bs_user (fst (bbs_command_step env c s h)) = bs_user s"
  by (cases c) (simp_all add: split_beta)

lemma view_user [simp]: "bs_user (note_view r s) = bs_user s"
  by (induction r s rule: note_view.induct) simp_all

lemma step_users: "map bs_user (bw_sessions (bbs_step ev w)) = map bs_user (bw_sessions w)"
proof -
  obtain env n c where ev: "ev = (env, n, c)" by (cases ev) auto
  show ?thesis
    using command_user [of env c "bw_sessions w ! n" "bw_host w"]
    by (simp add: bbs_step_def ev map_update list_update_same_conv split_beta)
qed

text \<open>The user of an event.\<close>

definition event_user :: "bbs_world \<Rightarrow> bbs_env \<times> nat \<times> bbs_command \<Rightarrow> bbs_user option" where
  "event_user w ev = (case ev of (env, n, c) \<Rightarrow> if n < length (bw_sessions w) then Some (bs_user (bw_sessions w ! n)) else None)"

lemma step_change:
  fixes w :: bbs_world
  shows "(case event_user w ev of None \<Rightarrow> bbs_step ev w = w | Some u \<Rightarrow> post_change u (bw_host w) (bw_host (bbs_step ev w)))"
proof -
  obtain env n c where ev: "ev = (env, n, c)" by (cases ev) auto
  show ?thesis
    using command_change [of "bw_sessions w ! n" "bw_host w" env c]
    by (simp add: bbs_step_def event_user_def ev split_beta)
qed

lemma event_user_step: "event_user (bbs_step ev w) ev' = event_user w ev'"
proof -
  obtain env n c where ev: "ev' = (env, n, c)" by (cases ev') auto
  have l: "length (bw_sessions (bbs_step ev w)) = length (bw_sessions w)" using arg_cong [OF step_users [of ev w], of length] by simp
  have "bs_user (bw_sessions (bbs_step ev w) ! n) = bs_user (bw_sessions w ! n)" if "n < length (bw_sessions w)"
    using arg_cong [OF step_users [of ev w], of "\<lambda>us. us ! n"] that l by simp
  then show ?thesis by (simp add: event_user_def ev l)
qed

lemma run_posts_ok:
  assumes "posts_ok (bw_host w)" "next_bbs_id (bw_host w) + length evs < 2 ^ 64"
  shows "posts_ok (bw_host (fold bbs_step evs w)) \<and> next_bbs_id (bw_host (fold bbs_step evs w)) \<le> next_bbs_id (bw_host w) + length evs"
  using assms
proof (induction evs arbitrary: w)
  case Nil
  then show ?case by simp
next
  case (Cons ev evs)
  have s: "posts_ok (bw_host (bbs_step ev w)) \<and> next_bbs_id (bw_host (bbs_step ev w)) \<le> next_bbs_id (bw_host w) + 1"
    using change_posts_ok [OF _ Cons.prems(1)] step_change [where w = w and ev = ev] Cons.prems by (auto split: option.splits)
  then show ?case using Cons.IH [of "bbs_step ev w"] Cons.prems(2) by simp
qed

lemma run_kept:
  assumes "posts_ok (bw_host w)" "next_bbs_id (bw_host w) + length evs < 2 ^ 64" "kept_post p (bw_host w)" "bp_author p \<noteq> []"
    and "list_all (\<lambda>ev. case event_user w ev of None \<Rightarrow> True | Some u \<Rightarrow> \<not> bbs_may_change u (bp_author p)) evs"
  shows "kept_post p (bw_host (fold bbs_step evs w))"
  using assms
proof (induction evs arbitrary: w)
  case Nil
  then show ?case by simp
next
  case (Cons ev evs)
  have s: "posts_ok (bw_host (bbs_step ev w)) \<and> next_bbs_id (bw_host (bbs_step ev w)) \<le> next_bbs_id (bw_host w) + 1"
    using run_posts_ok [OF Cons.prems(1), of "[ev]"] Cons.prems(2) by simp
  have "kept_post p (bw_host (bbs_step ev w))"
    using change_kept [OF _ Cons.prems(1) conjunct1 [OF s] Cons.prems(3,4)] step_change [where w = w and ev = ev] Cons.prems(3,5)
    by (auto split: option.splits)
  then show ?case using Cons.IH [of "bbs_step ev w"] Cons.prems s by (simp add: event_user_step)
qed


lemma posts_ok_init: "posts_ok (bbs_host_init e d)"
  by (simp add: posts_ok_def bbs_host_init_def host_bbs_acquire_storage_def list_all_iff slot_ok_def zero_post_def used_ids_def
      filter_empty_conv BBS_MAX_COMMENTS_def)

section \<open>Properties\<close>

text \<open>Sample values: an environment in which everything works, a session with a draft, and a
  board with one post.\<close>

definition quiet_env :: bbs_env where
  "quiet_env = \<lparr>be_now = 1000000000, be_clean = (\<lambda>_. True), be_known_user = (\<lambda>_. False), be_room_operator = (\<lambda>_. False),
     be_storage = True, be_workspace = True, be_writable = True\<rparr>"

definition draft_of :: "cstr \<Rightarrow> bbs_session" where
  "draft_of name = \<lparr>bs_user = \<lparr>bu_name = name, bu_operator = False, bu_lan_operator = False\<rparr>, bs_post_pending = True,
     bs_editor_mode = BbsCreate, bs_edit_id = 0, bs_title = ''title'', bs_body = ''body'', bs_tags = [''general''], bs_board = 0,
     bs_view_active = False, bs_view_post = 0\<rparr>"

definition sample_post :: bbs_post where
  "sample_post = (zero_post 0)\<lparr>bp_in_use := True, bp_id := 1, bp_author := ''ann'', bp_title := ''title'', bp_body := ''body'',
     bp_tags := [''general''], bp_created_at := 1000000000, bp_bumped_at := 1000000000\<rparr>"

definition sample_board :: bbs_host where
  "sample_board = (bbs_host_init True True)\<lparr>bbs_posts := sample_post # map zero_post [1..<BBS_MAX_POSTS], bbs_post_count := 1,
     next_bbs_id := 2\<rparr>"

lemma sample_board_ok: "posts_ok sample_board" "post_of sample_board 1 = Some sample_post" "next_bbs_id sample_board = 2"
proof -
  have "filter bp_in_use (map zero_post ns) = []" for ns by (induction ns) (simp_all add: zero_post_def)
  moreover have "list_all (slot_ok 2) (map zero_post [1..<BBS_MAX_POSTS])"
    by (simp add: list_all_iff slot_ok_def zero_post_def)
  ultimately show "posts_ok sample_board"
    by (simp add: posts_ok_def sample_board_def used_ids_def slot_ok_def sample_post_def zero_post_def BBS_MAX_POSTS_def)
qed (simp_all add: sample_board_def post_of_def sample_post_def)

text \<open>
  C16: After any commands of any sessions, fewer than $2^{64}$, the posts in use have different
  identifiers that were all given out before, the count of posts is right, and a search by
  identifier finds the only post that has it.
\<close>

theorem post_identifiers_unique:
  assumes "length evs + 1 < 2 ^ 64" "w = fold bbs_step evs \<lparr>bw_host = bbs_host_init e d, bw_sessions = ss\<rparr>" "h = bw_host w"
  shows "distinct (map bp_id (filter bp_in_use (bbs_posts h))) \<and>
     list_all (\<lambda>p. 0 < bp_id p \<and> bp_id p < next_bbs_id h) (filter bp_in_use (bbs_posts h)) \<and>
     bbs_post_count h = length (filter bp_in_use (bbs_posts h)) \<and>
     (case host_find_bbs_post_locked h i of
        None \<Rightarrow> True
      | Some k \<Rightarrow> filter (\<lambda>p. bp_in_use p \<and> bp_id p = i) (bbs_posts h) = [bbs_posts h ! k])"
proof -
  have start: "next_bbs_id (bbs_host_init e d) = 1" by (simp add: bbs_host_init_def host_bbs_acquire_storage_def)
  have ok: "posts_ok h"
    using run_posts_ok [of "\<lparr>bw_host = bbs_host_init e d, bw_sessions = ss\<rparr>" evs] posts_ok_init assms start by simp
  note D = posts_okD [OF ok]
  have "filter (\<lambda>p. bp_in_use p \<and> bp_id p = i) (bbs_posts h) = [bbs_posts h ! k]"
    if "host_find_bbs_post_locked h i = Some k" for k
  proof -
    note f = find_post [OF that]
    have "bbs_posts h ! k \<in> set (filter bp_in_use (bbs_posts h))"
      using f(1,2) by (simp add: bbs_post_has_required_fields_def)
    moreover have "distinct (map bp_id (filter bp_in_use (bbs_posts h)))" using D(3) by (simp add: used_ids_def)
    ultimately have "filter (\<lambda>p. bp_id p = i) (filter bp_in_use (bbs_posts h)) = [bbs_posts h ! k]"
      using filter_unique_key f(3) by fastforce
    then show ?thesis by (simp add: conj_commute)
  qed
  then show ?thesis using D(2-4)
    by (auto simp: used_ids_def list_all_iff slot_ok_def split: option.split)
qed

theorem post_identifiers_unique_witness:
  "distinct (map bp_id (filter bp_in_use (bbs_posts (bw_host
     (fold bbs_step [(quiet_env, 0, CommitPost), (quiet_env, 1, CommitPost)]
       \<lparr>bw_host = bbs_host_init True True, bw_sessions = [draft_of ''ann'', draft_of ''bob'']\<rparr>)))))"
  by (rule conjunct1 [OF post_identifiers_unique [OF _ refl refl]]) simp

text \<open>
  C17: A post stays in the hands of its author and of the operators: whatever commands the
  sessions of other users send, it can be found by its identifier with its author, title,
  body, tags, board and time unchanged.
\<close>

theorem post_in_hands_of_author:
  assumes "posts_ok (bw_host w)" "next_bbs_id (bw_host w) + length evs < 2 ^ 64"
    and "post_of (bw_host w) i = Some p" "bp_author p \<noteq> []"
    and "list_all (\<lambda>ev. case event_user w ev of None \<Rightarrow> True | Some u \<Rightarrow> \<not> bbs_may_change u (bp_author p)) evs"
  shows "map_option (\<lambda>q. (content q, bp_author q)) (post_of (bw_host (fold bbs_step evs w)) i) = Some (content p, bp_author p)"
proof -
  have i: "bp_id p = i" using assms(3) by (auto simp: post_of_def find_Some_iff)
  have "kept_post p (bw_host w)" using assms(3) i by (simp add: kept_post_def)
  from run_kept [OF assms(1,2) this assms(4,5)] show ?thesis by (auto simp: kept_post_def i)
qed

theorem post_in_hands_of_author_witness:
  "map_option (\<lambda>q. (content q, bp_author q))
     (post_of (bw_host (fold bbs_step [(quiet_env, 0, DeletePost 1), (quiet_env, 0, BeginEdit 1)]
        \<lparr>bw_host = sample_board, bw_sessions = [draft_of ''bob'']\<rparr>)) 1) = Some (content sample_post, ''ann'')"
proof -
  have a: "bp_author sample_post = ''ann''" by (simp add: sample_post_def)
  have "\<not> bbs_may_change (bs_user (draft_of ''bob'')) ''ann''"
    by (simp add: bbs_may_change_def draft_of_def bbs_operator_def strncmp_eq_def BBS_NAME_LEN_def)
  then show ?thesis
    using post_in_hands_of_author [of "\<lparr>bw_host = sample_board, bw_sessions = [draft_of ''bob'']\<rparr>"
        "[(quiet_env, 0, DeletePost 1), (quiet_env, 0, BeginEdit 1)]" 1 sample_post] sample_board_ok a
    by (simp add: event_user_def del: fold.simps fold_simps)
qed

end
