(* ===== verification/Bbs_Slots.thy ===== *)
theory Bbs_Slots
  imports Bbs_Posts
begin

text \<open>
  What becomes of the slots of the bulletin board: the arrays of comments of the posts that
  move up when one is deleted, and the slots taken by posts that are then refused.
\<close>

section \<open>Deleting\<close>

text \<open>The compaction writes only below the count it returns.\<close>

lemma compact_loop_drop:
  assumes "w \<le> idx" "compact_loop keep n idx w xs = (ys, v)"
  shows "w \<le> v \<and> drop v ys = drop v xs"
  using assms
proof (induction keep n idx w xs rule: compact_loop.induct)
  case (1 keep n idx w xs)
  show ?case
  proof (cases "idx < n")
    case True
    have e: "compact_loop keep n idx w xs =
        (if keep (xs ! idx) then compact_loop keep n (Suc idx) (Suc w) (if w \<noteq> idx then xs[w := xs ! idx] else xs)
         else compact_loop keep n (Suc idx) w xs)"
      using True by (subst compact_loop.simps) simp
    show ?thesis
    proof (cases "keep (xs ! idx)")
      case keep: True
      define xs' where "xs' = (if w \<noteq> idx then xs[w := xs ! idx] else xs)"
      have "compact_loop keep n (Suc idx) (Suc w) xs' = (ys, v)" using e keep "1.prems"(2) by (simp add: xs'_def)
      then have "Suc w \<le> v \<and> drop v ys = drop v xs'"
        using "1.IH"(1) [OF True keep, folded xs'_def] "1.prems"(1) by simp
      then show ?thesis by (auto simp: xs'_def)
    next
      case False
      then show ?thesis using e "1.IH"(2) [OF True False] "1.prems" by simp
    qed
  next
    case False
    then have "compact_loop keep n idx w xs = (xs, w)" by (subst compact_loop.simps) simp
    then show ?thesis using "1.prems" by simp
  qed
qed

text \<open>An array of comments without authors and texts stays so.\<close>

definition wiped :: "nat \<Rightarrow> bbs_host \<Rightarrow> bool" where
  "wiped a h \<longleftrightarrow> list_all (\<lambda>c. c_author c = [] \<and> c_text c = []) (bbs_comment_arrays h ! a)"

lemma reset_wipes:
  assumes "bp_comments (bbs_posts h ! i) < length (bbs_comment_arrays h)"
  shows "wiped (bp_comments (bbs_posts h ! i)) (host_reset_bbs_post i h)"
  using assms by (simp add: wiped_def host_reset_bbs_post_def Let_def list_all_iff)

lemma reset_keeps_wiped: "wiped a h \<Longrightarrow> a < length (bbs_comment_arrays h) \<Longrightarrow> wiped a (host_reset_bbs_post i h)"
  by (cases "a = bp_comments (bbs_posts h ! i)")
    (simp_all add: wiped_def host_reset_bbs_post_def Let_def list_all_iff)

lemma reset_arrays_length [simp]: "length (bbs_comment_arrays (host_reset_bbs_post i h)) = length (bbs_comment_arrays h)"
  by (simp add: host_reset_bbs_post_def Let_def)

lemma resets_keep_wiped:
  "wiped a h \<Longrightarrow> a < length (bbs_comment_arrays h) \<Longrightarrow> wiped a (fold host_reset_bbs_post is h)"
  by (induction "is" arbitrary: h) (simp_all add: reset_keeps_wiped)

lemma resets_wipe:
  assumes "v < n" "bp_comments (bbs_posts h ! v) < length (bbs_comment_arrays h)"
  shows "wiped (bp_comments (bbs_posts h ! v)) (fold host_reset_bbs_post [v..<n] h)"
  using assms reset_wipes [OF assms(2)] by (simp add: upt_conv_Cons resets_keep_wiped)

text \<open>On a board without gaps the last post moves up by one slot and shares its array with the
  slot it leaves, which is wiped.\<close>

lemma without_slot_dense:
  assumes "k < n" "n \<le> length ps" "list_all bp_in_use (take k ps @ drop (Suc k) (take n ps))"
    and "list_all (\<lambda>p. \<not> bp_in_use p) (drop n ps)"
  shows "without_slot k ps = take k ps @ drop (Suc k) (take n ps)"
proof -
  have split: "ps[k := reset_post (ps ! k)] = take k ps @ reset_post (ps ! k) # drop (Suc k) (take n ps) @ drop n ps"
    using assms(1,2) by (subst (1) append_take_drop_id [of n ps, symmetric])
      (simp add: upd_conv_take_nth_drop list_update_append del: append_take_drop_id)
  have "filter bp_in_use (take k ps @ drop (Suc k) (take n ps)) = take k ps @ drop (Suc k) (take n ps)"
    using assms(3) by (simp add: filter_id_conv list_all_iff)
  moreover have "filter bp_in_use (drop n ps) = []" using assms(4) by (simp add: filter_empty_conv list_all_iff)
  ultimately show ?thesis by (simp add: without_slot_def split)
qed

lemma clear_shares:
  assumes "k + 1 < n" "n \<le> length (bbs_posts h)" 
    "list_all bp_in_use (take k (bbs_posts h) @ drop (Suc k) (take n (bbs_posts h)))"
    and "list_all (\<lambda>p. \<not> bp_in_use p) (drop n (bbs_posts h))"
    and "bp_comments (bbs_posts h ! (n - 1)) < length (bbs_comment_arrays h)" "h' = host_clear_bbs_post_locked k h"
  shows "bbs_posts h' ! (n - 2) = bbs_posts h ! (n - 1)" "bbs_posts h' ! (n - 1) = reset_post (bbs_posts h ! (n - 1))"
    "wiped (bp_comments (bbs_posts h ! (n - 1))) h'"
proof -
  define ps where "ps = bbs_posts h"
  define h1 where "h1 = host_reset_bbs_post k h"
  have h1: "bbs_posts h1 = ps[k := reset_post (ps ! k)]" "length (bbs_comment_arrays h1) = length (bbs_comment_arrays h)"
    by (simp_all add: h1_def host_reset_bbs_post_def Let_def ps_def)
  obtain ys v where c: "compact_loop bp_in_use (length ps) 0 0 (bbs_posts h1) = (ys, v)" by fastforce
  have nl: "n \<le> length ps" using assms(2) by (simp add: ps_def)
  have used: "without_slot k ps = take k ps @ drop (Suc k) (take n ps)"
    using assms(1-4) by (intro without_slot_dense) (simp_all add: ps_def)
  have slots: "length ys = length ps" "v \<le> length ps" using compact_loop_slots [OF _ _ _ c] by (simp_all add: h1)
  have front: "take v ys = without_slot k ps"
    using compact_loop_filter [of 0 0 "length ps" "bbs_posts h1" bp_in_use] c by (simp add: h1 without_slot_def)
  have v: "v = n - 1" using arg_cong [OF front, of length] slots assms(1) nl by (simp add: used)
  have "ys ! v = drop v ys ! 0" using slots(1) v assms(1) nl by simp
  also have "\<dots> = ps ! v" using compact_loop_drop [OF _ c] v assms(1) nl by (simp add: h1)
  finally have yv: "ys ! v = ps ! v" .
  define h2 where "h2 = h1\<lparr>bbs_posts := ys\<rparr>"
  have h': "h' = fold host_reset_bbs_post [v..<length ps] h2\<lparr>bbs_post_count := v\<rparr>"
    using c by (simp add: assms(6) host_clear_bbs_post_locked_def Let_def h1_def [symmetric] h1 h2_def)
  have h2: "bbs_posts h2 = ys" "length (bbs_comment_arrays h2) = length (bbs_comment_arrays h)" by (simp_all add: h2_def h1)
  have posts: "bbs_posts h' = take v ys @ map reset_post (drop v ys)"
  proof -
    have "v \<le> length (bbs_posts h2)" "length ps = length (bbs_posts h2)" using slots by (simp_all add: h2)
    from reset_slots(1) [OF this] show ?thesis by (simp add: h' h2)
  qed
  have n: "n - 2 < v" "v < length ps" "n - 2 < length (without_slot k ps)" using assms(1) nl v by (simp_all add: used)
  have "bbs_posts h' ! (n - 2) = without_slot k ps ! (n - 2)" using n slots by (simp add: posts nth_append front [symmetric])
  also have "\<dots> = ps ! (n - 1)"
    using assms(1) nl by (auto simp: used nth_append min_def intro!: arg_cong [of _ _ "(!) ps"])
  finally show "bbs_posts h' ! (n - 2) = bbs_posts h ! (n - 1)" by (simp add: ps_def)
  show "bbs_posts h' ! (n - 1) = reset_post (bbs_posts h ! (n - 1))"
    using n slots yv by (simp add: posts nth_append v ps_def)
  have "wiped (bp_comments (ys ! v)) (fold host_reset_bbs_post [v..<length ps] h2)"
    using resets_wipe [of v "length ps" h2] n assms(5) yv by (simp add: h2 v) (simp add: ps_def)
  then show "wiped (bp_comments (bbs_posts h ! (n - 1))) h'" using yv by (simp add: h' v wiped_def) (simp add: ps_def)
qed

section \<open>Refused posts\<close>

definition free_slots :: "bbs_host \<Rightarrow> nat" where
  "free_slots h = length (filter (\<lambda>p. \<not> bp_in_use p) (bbs_posts h))"

lemma allocate_free:
  assumes "0 < free_slots h"
  obtains k h' where "host_allocate_bbs_post_locked now h = Some (k, h')" "free_slots h' = free_slots h - 1"
    "filter bbs_post_has_required_fields (bbs_posts h') = filter bbs_post_has_required_fields (bbs_posts h)"
proof -
  obtain k where k: "first_index (\<lambda>p. \<not> bp_in_use p) (bbs_posts h) = Some k"
    using assms by (cases "first_index (\<lambda>p. \<not> bp_in_use p) (bbs_posts h)")
      (auto simp: free_slots_def first_index_None filter_empty_conv list_all_iff)
  then obtain h' where a: "host_allocate_bbs_post_locked now h = Some (k, h')"
    by (simp add: host_allocate_bbs_post_locked_def Let_def)
  note f = allocate_post [OF a]
  have posts: "bbs_posts h = take k (bbs_posts h) @ bbs_posts h ! k # drop (Suc k) (bbs_posts h)"
    using f(1) by (rule id_take_nth_drop)
  have posts': "bbs_posts h' = take k (bbs_posts h) @ bbs_posts h' ! k # drop (Suc k) (bbs_posts h)"
    using f(1,4) upd_conv_take_nth_drop [OF f(1)] by metis
  have r: "\<not> bbs_post_has_required_fields (bbs_posts h ! k)" "\<not> bbs_post_has_required_fields (bbs_posts h' ! k)"
    using f(2,9) by (simp_all add: bbs_post_has_required_fields_def)
  have "free_slots h' = free_slots h - 1" unfolding free_slots_def
    by (subst posts', subst (3) posts) (simp add: f(2,5))
  moreover have "filter bbs_post_has_required_fields (bbs_posts h') = filter bbs_post_has_required_fields (bbs_posts h)"
    by (subst posts', subst (3) posts) (simp add: r)
  ultimately show ?thesis using that a by blast
qed

lemma mute_blocks_cong:
  assumes "bbs_mutes h' = bbs_mutes h"
  shows "session_bbs_mute_blocks_locked now u h' = session_bbs_mute_blocks_locked now u h"
  by (simp add: session_bbs_mute_blocks_locked_def host_bbs_mute_active_locked_def host_bbs_mute_find_locked_def assms
      cong: option.case_cong)

lemma refused_create:
  assumes "session_bbs_mute_blocks_locked (be_now env) (bs_user s) h" "0 < free_slots h"
  obtains h' r where "commit_create env s h = (True, h', r)" "free_slots h' = free_slots h - 1"
    "filter bbs_post_has_required_fields (bbs_posts h') = filter bbs_post_has_required_fields (bbs_posts h)"
    "bbs_mutes h' = bbs_mutes h"
proof -
  obtain k h' where a: "host_allocate_bbs_post_locked (be_now env) h = Some (k, h')" and free: "free_slots h' = free_slots h - 1"
    and req: "filter bbs_post_has_required_fields (bbs_posts h') = filter bbs_post_has_required_fields (bbs_posts h)"
    using allocate_free [OF assms(2)] by blast
  have m: "bbs_mutes h' = bbs_mutes h" by (rule allocate_post(12) [OF a])
  have "session_bbs_mute_blocks_locked (be_now env) (bs_user s) h'" using assms(1) mute_blocks_cong [OF m] by simp
  moreover have "\<not> bbs_operator (bs_user s)" using assms(1) by (simp add: session_bbs_mute_blocks_locked_def)
  ultimately have "commit_create env s h = (True, h', [BbsLine ''You are muted and cannot post right now.''])"
    by (simp add: commit_create_def a Let_def)
  then show ?thesis using that free req m by blast
qed

text \<open>The host after a session commits its draft.\<close>

abbreviation committed :: "bbs_env \<Rightarrow> bbs_session \<Rightarrow> bbs_host \<Rightarrow> bbs_host" where
  "committed env s h \<equiv> fst (snd (session_bbs_commit_pending_post env s h))"

lemma refused_commits:
  assumes "bs_post_pending s" "bs_editor_mode s = BbsCreate" "bs_body s \<noteq> []" "be_clean env (bs_body s)" "be_storage env"
    and "session_bbs_mute_blocks_locked (be_now env) (bs_user s) h" "n \<le> free_slots h"
  shows "free_slots ((committed env s ^^ n) h) = free_slots h - n \<and> bbs_mutes ((committed env s ^^ n) h) = bbs_mutes h \<and>
    filter bbs_post_has_required_fields (bbs_posts ((committed env s ^^ n) h)) = filter bbs_post_has_required_fields (bbs_posts h)"
  using assms(7)
proof (induction n)
  case 0
  then show ?case by simp
next
  case (Suc n)
  define g where "g = (committed env s ^^ n) h"
  have g: "free_slots g = free_slots h - n" "bbs_mutes g = bbs_mutes h"
    "filter bbs_post_has_required_fields (bbs_posts g) = filter bbs_post_has_required_fields (bbs_posts h)"
    using Suc by (simp_all add: g_def)
  have "session_bbs_mute_blocks_locked (be_now env) (bs_user s) g"
    using assms(6) mute_blocks_cong [OF g(2)] by simp
  moreover have "0 < free_slots g" using g(1) Suc.prems by simp
  ultimately obtain h' r where c: "commit_create env s g = (True, h', r)" "free_slots h' = free_slots g - 1"
    "filter bbs_post_has_required_fields (bbs_posts h') = filter bbs_post_has_required_fields (bbs_posts g)"
    "bbs_mutes h' = bbs_mutes g"
    by (rule refused_create)
  have "committed env s g = h'" using assms(1-5) c(1) by (simp add: session_bbs_commit_pending_post_def Let_def)
  then show ?case using g c by (simp add: g_def [symmetric])
qed

section \<open>Properties\<close>

text \<open>
  C36: Deleting a post that is not the last one loses the comments of another: on a board
  without gaps the last post moves up by one slot with its count of comments, but the slot it
  leaves still points to its array of comments and is then reset, so that all its comments
  are blank, and the next post to be written shares the array.
\<close>

theorem delete_blanks_comments_of_last_post:
  assumes "i \<noteq> 0" "be_storage env" "first_index (\<lambda>p. bp_id p = i) (bbs_posts h) = Some k"
    and "bbs_may_change (bs_user s) (bp_author (bbs_posts h ! k))"
    and "k + 1 < n" "n \<le> length (bbs_posts h)" "list_all bp_in_use (take n (bbs_posts h))"
    and "list_all (\<lambda>p. \<not> bp_in_use p) (drop n (bbs_posts h))"
    and "bp_comments (bbs_posts h ! (n - 1)) < length (bbs_comment_arrays h)"
    and "h' = fst (session_bbs_delete env s i h)"
  shows "bbs_posts h' ! (n - 2) = bbs_posts h ! (n - 1) \<and>
     list_all (\<lambda>c. c_author c = [] \<and> c_text c = []) (post_comments h' (bbs_posts h' ! (n - 2))) \<and>
     bp_comments (bbs_posts h' ! (n - 1)) = bp_comments (bbs_posts h' ! (n - 2))"
proof -
  define g where "g = set_post k ((bbs_posts h ! k)\<lparr>bp_in_use := False, bp_id := 0\<rparr>) h"
  have d: "h' = host_bbs_state_save_locked env (host_bbs_notification_drop_for_post_locked i (host_clear_bbs_post_locked k g))"
    using assms(1-4) by (simp add: assms(10) session_bbs_delete_def g_def Let_def)
  have last: "bbs_posts g ! (n - 1) = bbs_posts h ! (n - 1)" using assms(5) by (simp add: g_def)
  have dense: "list_all bp_in_use (take k (bbs_posts g) @ drop (Suc k) (take n (bbs_posts g)))"
  proof -
    have "take k (bbs_posts g) = take k (take n (bbs_posts h))" "drop (Suc k) (take n (bbs_posts g)) = drop (Suc k) (take n (bbs_posts h))"
      using assms(5) by (simp_all add: g_def take_update_swap [of n] min_def)
    then show ?thesis using assms(7) by (auto simp: list_all_iff dest: in_set_takeD in_set_dropD simp del: take_take)
  qed
  have "list_all (\<lambda>p. \<not> bp_in_use p) (drop n (bbs_posts g))" using assms(5,8) by (simp add: g_def)
  note c = clear_shares [OF assms(5) _ dense this _ refl]
  show ?thesis using c assms(6,9) last by (simp add: d g_def [symmetric] post_comments_def wiped_def) (simp add: g_def)
qed

text \<open>Sample values: a board with two posts, the second with a comment.\<close>

definition second_post :: bbs_post where
  "second_post = sample_post\<lparr>bp_id := 2, bp_author := ''bob'', bp_comments := 1, bp_comment_count := 1\<rparr>"

definition two_posts :: bbs_host where
  "two_posts = sample_board\<lparr>bbs_posts := sample_post # second_post # map zero_post [2..<BBS_MAX_POSTS], bbs_post_count := 2,
     next_bbs_id := 3, bbs_comment_arrays := [[], [zero_comment\<lparr>c_author := ''carol'', c_text := ''hello'', c_created_at := 1000000000\<rparr>]]\<rparr>"

theorem delete_blanks_comments_of_last_post_witness:
  "(let h = two_posts; h' = fst (session_bbs_delete quiet_env (draft_of ''ann'') 1 h)
    in bbs_posts h' ! 0 = bbs_posts h ! 1 \<and> bp_comment_count (bbs_posts h' ! 0) = 1 \<and>
       map c_text (post_comments h (bbs_posts h ! 1)) = [''hello''] \<and>
       list_all (\<lambda>c. c_author c = [] \<and> c_text c = []) (post_comments h' (bbs_posts h' ! 0)))"
proof -
  have p: "bbs_posts two_posts = sample_post # second_post # map zero_post [2..<BBS_MAX_POSTS]" by (simp add: two_posts_def)
  define h' where "h' = fst (session_bbs_delete quiet_env (draft_of ''ann'') 1 two_posts)"
  have a: "bbs_may_change (bs_user (draft_of ''ann'')) (bp_author (bbs_posts two_posts ! 0))"
    by (simp add: p sample_post_def bbs_may_change_def draft_of_def strncmp_eq_def)
  have f: "first_index (\<lambda>p. bp_id p = 1) (bbs_posts two_posts) = Some 0" by (simp add: p sample_post_def)
  have u: "list_all bp_in_use (take 2 (bbs_posts two_posts))" "list_all (\<lambda>p. \<not> bp_in_use p) (drop 2 (bbs_posts two_posts))"
    by (simp_all add: p list_all_iff zero_post_def sample_post_def second_post_def)
  have c: "bp_comments (bbs_posts two_posts ! (2 - 1)) < length (bbs_comment_arrays two_posts)"
    by (simp add: p second_post_def) (simp add: two_posts_def)
  have "bbs_posts h' ! 0 = second_post \<and> list_all (\<lambda>c. c_author c = [] \<and> c_text c = []) (post_comments h' (bbs_posts h' ! 0))"
    using delete_blanks_comments_of_last_post [OF _ _ f a _ _ u c h'_def] by (auto simp: p quiet_env_def)
  moreover have "bbs_posts two_posts ! 1 = second_post" "bp_comment_count second_post = 1"
    "map c_text (post_comments two_posts second_post) = [''hello'']"
    by (simp add: p, simp add: second_post_def, simp add: second_post_def post_comments_def two_posts_def)
  ultimately show ?thesis unfolding Let_def h'_def [symmetric] by auto
qed

text \<open>
  A muted user cannot add a post that anyone sees, but every attempt takes a slot: after
  as many attempts as there are free slots, the posts that can be found are the same and no
  one can write a post any more.
\<close>

theorem refused_posts_fill_board:
  assumes "bs_post_pending s" "bs_editor_mode s = BbsCreate" "bs_body s \<noteq> []" "be_clean env (bs_body s)" "be_storage env"
    and "session_bbs_mute_blocks_locked (be_now env) (bs_user s) h"
    and "h' = ((\<lambda>h. fst (snd (session_bbs_commit_pending_post env s h))) ^^ length (filter (\<lambda>p. \<not> bp_in_use p) (bbs_posts h))) h"
  shows "filter bbs_post_has_required_fields (bbs_posts h') = filter bbs_post_has_required_fields (bbs_posts h) \<and>
     host_allocate_bbs_post_locked now h' = None"
proof -
  note r = refused_commits [OF assms(1-6) order_refl]
  have h': "h' = (committed env s ^^ free_slots h) h" by (simp add: assms(7) free_slots_def)
  have "free_slots h' = 0" using r by (simp add: h')
  then have "first_index (\<lambda>p. \<not> bp_in_use p) (bbs_posts h') = None"
    by (simp add: free_slots_def first_index_None filter_empty_conv)
  then show ?thesis using r by (simp add: h' host_allocate_bbs_post_locked_def)
qed

definition muted_board :: bbs_host where
  "muted_board = sample_board\<lparr>bbs_mutes := [\<lparr>bm_username = ''bob'', bm_until = 0, bm_muted_by = ''op'', bm_created_at = 1\<rparr>]\<rparr>"

theorem refused_posts_fill_board_witness:
  "host_allocate_bbs_post_locked 5 (((\<lambda>h. fst (snd (session_bbs_commit_pending_post quiet_env (draft_of ''bob'') h))) ^^
     length (filter (\<lambda>p. \<not> bp_in_use p) (bbs_posts muted_board))) muted_board) = None"
  by (rule conjunct2 [OF refused_posts_fill_board [OF _ _ _ _ _ _ refl]])
    (simp_all add: draft_of_def quiet_env_def muted_board_def session_bbs_mute_blocks_locked_def bbs_operator_def
      host_bbs_mute_active_locked_def host_bbs_mute_find_locked_def strncmp_eq_def)

end
