(* ===== verification/Bbs_File.thy ===== *)
theory Bbs_File
  imports Bbs_Slots
begin

text \<open>
  The file of posts of the bulletin board: what a host writes and the next one reads
  (\<^verbatim>\<open>storage/bbs_storage.c\<close>).
\<close>

section \<open>Entries that are read back\<close>

text \<open>An entry the loader accepts and does not change: sane, with times, and without the
  control sequences that are stripped.\<close>

definition plain_text :: "cstr \<Rightarrow> bool" where
  "plain_text s \<longleftrightarrow> host_strip_column_reset s = s"

definition plain_comment :: "bbs_comment \<Rightarrow> bool" where
  "plain_comment c \<longleftrightarrow> 0 < c_created_at c \<and> plain_text (c_author c) \<and> plain_text (c_text c)"

definition plain_entry :: "int \<Rightarrow> bbs_state_entry \<Rightarrow> bool" where
  "plain_entry now e \<longleftrightarrow>
     host_bbs_serialized_has_required_fields (se_post e) \<and> host_bbs_serialized_is_sane (se_post e) now \<and>
     plain_text (bp_author (se_post e)) \<and> plain_text (bp_title (se_post e)) \<and> plain_text (bp_body (se_post e)) \<and>
     list_all plain_text (bp_tags (se_post e)) \<and> list_all plain_comment (se_comments e)"

text \<open>The shape of what is written.\<close>

definition file_comment :: "bbs_comment \<Rightarrow> bool" where
  "file_comment c \<longleftrightarrow> snprintf_into BBS_NAME_LEN (c_author c) = c_author c \<and> snprintf_into BBS_COMMENT_LEN (c_text c) = c_text c"

definition file_entry :: "bbs_state_entry \<Rightarrow> bool" where
  "file_entry e \<longleftrightarrow>
     (let p = se_post e
      in bp_in_use p \<and> bp_comments p = 0 \<and> bp_comment_count p = length (se_comments e) \<and>
         length (se_comments e) \<le> BBS_MAX_COMMENTS \<and> length (bp_tags p) \<le> BBS_MAX_TAGS \<and>
         snprintf_into BBS_NAME_LEN (bp_author p) = bp_author p \<and> snprintf_into BBS_TITLE_LEN (bp_title p) = bp_title p \<and>
         snprintf_into BBS_BODY_LEN (bp_body p) = bp_body p \<and> map (snprintf_into BBS_TAG_LEN) (bp_tags p) = bp_tags p \<and>
         list_all file_comment (se_comments e))"

lemma normalize_plain:
  assumes "plain_entry now e"
  shows "normalize_entry now e = e"
proof -
  have "946684800 \<le> bp_created_at (se_post e)" "bp_created_at (se_post e) \<le> bp_bumped_at (se_post e)"
    using assms by (simp_all add: plain_entry_def host_bbs_serialized_is_sane_def)
  moreover have "map (\<lambda>c. if c_created_at c \<le> 0 then c\<lparr>c_created_at := now\<rparr> else c) (se_comments e) = se_comments e"
    using assms by (intro map_idI) (auto simp: plain_entry_def list_all_iff plain_comment_def)
  ultimately show ?thesis by (simp add: normalize_entry_def Let_def)
qed

text \<open>What is in memory after an entry was read into a slot with the given array.\<close>

definition slot_post :: "nat \<Rightarrow> bbs_state_entry \<Rightarrow> bbs_post" where
  "slot_post a e = (se_post e)\<lparr>bp_comments := a\<rparr>"

lemma map_plain_tags:
  assumes "list_all plain_text ts" "length ts \<le> BBS_MAX_TAGS"
  shows "map host_strip_column_reset (take BBS_MAX_TAGS ts) = ts"
  using assms by (simp add: list_all_iff plain_text_def map_idI)

lemma map_plain_comments:
  assumes "list_all plain_comment cs" "length cs \<le> BBS_MAX_COMMENTS"
  shows "map (\<lambda>c. c\<lparr>c_author := host_strip_column_reset (c_author c), c_text := host_strip_column_reset (c_text c)\<rparr>)
     (take BBS_MAX_COMMENTS cs) = cs"
proof -
  have "take BBS_MAX_COMMENTS cs = cs" using assms(2) by simp
  then show ?thesis using assms(1) by (simp only: ) (intro map_idI, auto simp: list_all_iff plain_comment_def plain_text_def)
qed

lemma import_plain:
  assumes "plain_entry now e" "file_entry e" "bp_comments (bbs_posts h ! bbs_post_count h) = a"
  shows "import_entry e h = set_comments a (se_comments e @ drop (length (se_comments e)) (bbs_comment_arrays h ! a))
     (set_post (bbs_post_count h) (slot_post a e) h)\<lparr>bbs_post_count := bbs_post_count h + 1\<rparr>"
proof -
  have p: "plain_text (bp_author (se_post e))" "plain_text (bp_title (se_post e))" "plain_text (bp_body (se_post e))"
    "list_all plain_text (bp_tags (se_post e))" "list_all plain_comment (se_comments e)"
    using assms(1) by (simp_all add: plain_entry_def)
  have f: "bp_in_use (se_post e)" "bp_comment_count (se_post e) = length (se_comments e)"
     "length (se_comments e) \<le> BBS_MAX_COMMENTS" "length (bp_tags (se_post e)) \<le> BBS_MAX_TAGS"
    using assms(2) by (simp_all add: file_entry_def Let_def)
  note c = map_plain_comments [OF p(5) f(3)] and t = map_plain_tags [OF p(4) f(4)]
  have "(se_post e)\<lparr>bp_in_use := True, bp_comments := a, bp_comment_count := length (se_comments e)\<rparr> = slot_post a e"
    using f(1,2) by (intro bbs_post.equality) (simp_all add: slot_post_def)
  then show ?thesis
    unfolding import_entry_def Let_def c t assms(3) using p(1-3) by (simp add: plain_text_def)
qed

lemma export_slot:
  assumes "file_entry e" "take (length (se_comments e)) (bbs_comment_arrays h ! a) = se_comments e"
  shows "export_post h (slot_post a e) = e"
proof -
  have "map (\<lambda>c. c\<lparr>c_author := snprintf_into BBS_NAME_LEN (c_author c), c_text := snprintf_into BBS_COMMENT_LEN (c_text c)\<rparr>)
      (se_comments e) = se_comments e"
    using assms(1) by (intro map_idI) (auto simp: file_entry_def Let_def list_all_iff file_comment_def)
  then show ?thesis using assms
    by (intro bbs_state_entry.equality bbs_post.equality)
      (simp_all add: export_post_def slot_post_def file_entry_def Let_def post_comments_def min_absorb2)
qed

lemma file_entry_export:
  assumes "bp_in_use p" "bp_comment_count p \<le> length (post_comments h p)"
  shows "file_entry (export_post h p)"
  using assms by (simp add: file_entry_def export_post_def Let_def snprintf_into_def list_all_iff file_comment_def)

section \<open>Reading\<close>

text \<open>A board whose first slots were read from a file and whose others are empty.\<close>

definition board_read :: "bbs_state_entry list \<Rightarrow> bbs_host \<Rightarrow> bool" where
  "board_read es h \<longleftrightarrow> bbs_post_count h = length es \<and> length es \<le> BBS_MAX_POSTS \<and>
     bbs_posts h = map (\<lambda>i. slot_post i (es ! i)) [0..<length es] @ map zero_post [length es..<BBS_MAX_POSTS] \<and>
     length (bbs_comment_arrays h) = BBS_MAX_POSTS \<and>
     list_all (\<lambda>i. take (length (se_comments (es ! i))) (bbs_comment_arrays h ! i) = se_comments (es ! i)) [0..<length es]"

lemma board_read_export:
  assumes "board_read es h" "list_all file_entry es"
  shows "map (export_post h) (filter bp_in_use (bbs_posts h)) = es"
proof -
  have use: "bp_in_use (slot_post i (es ! i))" if "i < length es" for i
    using assms(2) nth_mem [OF that] by (auto simp: list_all_iff slot_post_def file_entry_def Let_def)
  have "filter bp_in_use (map (\<lambda>i. slot_post i (es ! i)) [0..<length es]) = map (\<lambda>i. slot_post i (es ! i)) [0..<length es]"
    using use by (simp add: filter_id_conv)
  moreover have "filter bp_in_use (map zero_post [length es..<BBS_MAX_POSTS]) = []" by (simp add: filter_empty_conv zero_post_def)
  ultimately have f: "filter bp_in_use (bbs_posts h) = map (\<lambda>i. slot_post i (es ! i)) [0..<length es]"
    using assms(1) by (simp add: board_read_def)
  have "export_post h (slot_post i (es ! i)) = es ! i" if "i < length es" for i
    using assms that by (intro export_slot) (auto simp: board_read_def list_all_iff)
  then have "map (export_post h) (filter bp_in_use (bbs_posts h)) = map ((!) es) [0..<length es]"
    unfolding f by simp
  then show ?thesis by (simp add: map_nth)
qed

lemma import_board_read:
  assumes "board_read es h" "plain_entry now e" "file_entry e" "length es < BBS_MAX_POSTS"
  shows "board_read (es @ [e]) (import_entry e h)" "next_bbs_id (import_entry e h) = next_bbs_id h"
proof -
  define n where "n = length es"
  note f = assms(1) [unfolded board_read_def, folded n_def]
  have here: "bbs_posts h ! n = zero_post n" using f assms(4) by (simp add: nth_append n_def)
  then have imp: "import_entry e h = set_comments n (se_comments e @ drop (length (se_comments e)) (bbs_comment_arrays h ! n))
     (set_post n (slot_post n e) h)\<lparr>bbs_post_count := n + 1\<rparr>"
    using import_plain [OF assms(2,3), of h n] f by (simp add: zero_post_def)
  have "[n..<BBS_MAX_POSTS] = n # [Suc n..<BBS_MAX_POSTS]" using assms(4) by (simp add: upt_conv_Cons n_def)
  then have posts: "bbs_posts (import_entry e h) = map (\<lambda>i. slot_post i ((es @ [e]) ! i)) [0..<Suc n] @ map zero_post [Suc n..<BBS_MAX_POSTS]"
    using f by (simp add: imp list_update_append nth_append n_def [symmetric])
  have arrays: "bbs_comment_arrays (import_entry e h) =
      (bbs_comment_arrays h)[n := se_comments e @ drop (length (se_comments e)) (bbs_comment_arrays h ! n)]" by (simp add: imp)
  have step: "take (length (se_comments ((es @ [e]) ! i))) (bbs_comment_arrays (import_entry e h) ! i) = se_comments ((es @ [e]) ! i)"
    if "i < Suc n" for i
    using that f assms(4) by (cases "i = n") (auto simp: arrays nth_append n_def list_all_iff)
  have "list_all (\<lambda>i. take (length (se_comments ((es @ [e]) ! i))) (bbs_comment_arrays (import_entry e h) ! i) =
      se_comments ((es @ [e]) ! i)) [0..<Suc n]"
    unfolding list_all_iff
  proof (rule ballI)
    fix i
    assume "i \<in> set [0..<Suc n]"
    then have "i < Suc n" by (simp only: set_upt atLeastLessThan_iff)
    then show "take (length (se_comments ((es @ [e]) ! i))) (bbs_comment_arrays (import_entry e h) ! i) = se_comments ((es @ [e]) ! i)"
      by (rule step)
  qed
  moreover have "bbs_post_count (import_entry e h) = Suc n" "length (bbs_comment_arrays (import_entry e h)) = BBS_MAX_POSTS"
    using f by (simp_all add: imp)
  moreover have "length (es @ [e]) = Suc n" "Suc n \<le> BBS_MAX_POSTS" using assms(4) by (simp_all add: n_def)
  ultimately show "board_read (es @ [e]) (import_entry e h)" unfolding board_read_def using posts by (simp only: simp_thms)
  show "next_bbs_id (import_entry e h) = next_bbs_id h" by (simp add: imp)
qed

lemma import_entries_board_read:
  assumes "board_read es h" "list_all (plain_entry now) fs" "list_all file_entry fs" "length es + length fs \<le> BBS_MAX_POSTS"
    and "import_entries now (length es) mx fs h = (mx', h')"
  shows "board_read (es @ fs) h' \<and> mx' = fold max (map (\<lambda>e. bp_id (se_post e)) fs) mx"
  using assms
proof (induction fs arbitrary: es mx h)
  case Nil
  then show ?case by simp
next
  case (Cons e fs)
  have e: "plain_entry now e" "file_entry e" using Cons.prems by simp_all
  have ok: "host_bbs_serialized_has_required_fields (se_post e)" "host_bbs_serialized_is_sane (se_post e) now"
    using e(1) by (simp_all add: plain_entry_def)
  have n: "length es < BBS_MAX_POSTS" "length (bbs_posts h) = BBS_MAX_POSTS"
    using Cons.prems(1,4) by (simp_all add: board_read_def)
  then have "import_entries now (length (es @ [e])) (max (bp_id (se_post e)) mx) fs (import_entry e h) = (mx', h')"
    using Cons.prems(5) ok by (simp add: normalize_plain [OF e(1)] Let_def max.commute)
  from Cons.IH [OF import_board_read(1) [OF Cons.prems(1) e n(1)] _ _ _ this] Cons.prems show ?case by simp
qed

text \<open>Clearing the slots of a new host changes nothing.\<close>

lemma clear_fresh:
  assumes "board_read [] h" "bbs_comment_arrays h = replicate BBS_MAX_POSTS (replicate BBS_MAX_COMMENTS zero_comment)"
    and "list_all (\<lambda>i. i < BBS_MAX_POSTS) is"
  shows "fold clear_slot is h = h"
  using assms(3)
proof (induction "is")
  case (Cons i "is")
  have "bbs_posts h ! i = zero_post i" using assms(1) Cons.prems by (simp add: board_read_def)
  then have "clear_slot i h = h"
    using assms(1,2) Cons.prems by (simp add: clear_slot_def Let_def set_comments_def set_post_def zero_post_def
        list_update_id [of "bbs_posts h" i, unfolded \<open>bbs_posts h ! i = zero_post i\<close> zero_post_def])
      (simp add: list_update_same_conv)
  then show ?case using Cons by simp
qed simp

lemma fold_max_less: "list_all (\<lambda>n. n < b) ns \<Longrightarrow> m < b \<Longrightarrow> fold max ns m < (b::nat)"
  by (induction ns arbitrary: m) simp_all

lemma load_file:
  assumes "h0 = (bbs_host_init e d)\<lparr>bbs_state := Some f\<rparr>" "0 < clock" "h' = host_bbs_state_load clock h0"
    and "list_all (plain_entry clock) (sf_posts f)" "list_all file_entry (sf_posts f)" "length (sf_posts f) \<le> BBS_MAX_POSTS"
  shows "board_read (sf_posts f) h'" "list_all (\<lambda>e. bp_id (se_post e) < sf_next_id f) (sf_posts f) \<Longrightarrow> 0 < sf_next_id f \<Longrightarrow>
    next_bbs_id h' = sf_next_id f"
proof -
  define h1 where "h1 = h0\<lparr>bbs_post_count := 0\<rparr>"
  have h1: "board_read [] h1" "bbs_comment_arrays h1 = replicate BBS_MAX_POSTS (replicate BBS_MAX_COMMENTS zero_comment)"
    by (simp_all add: h1_def assms(1) board_read_def bbs_host_init_def host_bbs_acquire_storage_def)
  have state: "bbs_state h0 = Some f" by (simp add: assms(1))
  have clear: "fold clear_slot [0..<length (bbs_posts h0)] h0 = h0"
    by (intro clear_fresh) (simp_all add: list_all_iff assms(1) board_read_def bbs_host_init_def host_bbs_acquire_storage_def)
  obtain mx h2 where i: "import_entries clock 0 0 (sf_posts f) h1 = (mx, h2)" by fastforce
  have board_read: "board_read (sf_posts f) h2" "mx = fold max (map (\<lambda>e. bp_id (se_post e)) (sf_posts f)) 0"
    using import_entries_board_read [OF h1(1) assms(4,5)] assms(6) i by (simp_all del: map_map)
  have h': "h' = h2\<lparr>next_bbs_id := (if sf_next_id f = 0 \<or> sf_next_id f \<le> mx then next_id_after mx else sf_next_id f)\<rparr>"
    using clear i assms(2) by (simp add: assms(3) host_bbs_state_load_def state Let_def h1_def [symmetric])
  show "board_read (sf_posts f) h'" using board_read(1) by (simp add: board_read_def h')
  show "next_bbs_id h' = sf_next_id f" if "list_all (\<lambda>e. bp_id (se_post e) < sf_next_id f) (sf_posts f)" "0 < sf_next_id f"
    using fold_max_less [of "sf_next_id f" "map (\<lambda>e. bp_id (se_post e)) (sf_posts f)" 0] that
    by (simp add: h' board_read(2) list.pred_map comp_def del: fold_map)
qed

section \<open>Properties\<close>


lemma sample_texts:
  "plain_text ''ann''" "plain_text ''bob''" "plain_text ''carol''" "plain_text ''title''" "plain_text ''body''" "plain_text ''general''"
  "plain_text ''hello''" "\<not> host_bbs_text_has_disallowed_controls ''ann''" "\<not> host_bbs_text_has_disallowed_controls ''bob''"
  "\<not> host_bbs_text_has_disallowed_controls ''title''" "\<not> c_strstr ''title'' ''[BREAKING NEWS]''"
  by code_simp+

lemmas sample_entry_simps = plain_entry_def plain_comment_def host_bbs_serialized_has_required_fields_def
  host_bbs_serialized_is_sane_def sample_post_def second_post_def zero_post_def zero_comment_def BBS_NAME_LEN_def BBS_TITLE_LEN_def
  BBS_BODY_LEN_def BBS_TAG_LEN_def BBS_COMMENT_LEN_def BBS_MAX_TAGS_def BBS_MAX_COMMENTS_def



end
