(* ===== verification/Spec2Isabelle.thy ===== *)
theory Spec2Isabelle
  imports Room_Entry Display_Model Message_Main Compact_Id Chat_History Roster_Main Othello_Turns Tetris_Gravity Gonu_Main Poll_Main Bbs_File
begin

text \<open>
  A verification library for ssh-chatter, a chat daemon that users reach over SSH and
  telnet.

  \<^bold>\<open>The program.\<close>  The host accepts connections and passes each address through
  guards: a connection guard that blocks addresses with escalating deadlines, rules on
  client versions and address ranges, a ban list with protected addresses, and the join
  throttle.  A session authenticates, perhaps as an operator of the local network, goes
  through a login dialogue that guards registered names and nickname claims, has its name
  checked and becomes a member of the chat room.  Messages go to the
  history, a cache in front of an archive file, and to the members, whose terminals show
  a window of wrapped lines.  Messages are named by compact labels and relayed to other
  stations over the ddial line protocol.  Sessions can hold polls, write on a bulletin board
  and play games, Othello, Tetris and Gonu among them.

  \<^bold>\<open>The theories.\<close>
  \<^item> \<open>Prelude\<close>: C characters, strings, bounded copies, decimal numbers, machine
    limits, linear searches and in-place compaction.
  \<^item> \<open>Interfaces\<close>: the contracts shared by the components as locales: a state
    machine with an invariant, one whose invariant counts steps within a budget, the growth of an array, a table keyed by address, copy
    loops into a bounded buffer, a map of bounded size.  Each is interpreted on the definitions of the
    components that meet it.
  \<^item> \<open>Timespec\<close> (\<^verbatim>\<open>transport/keys.c\<close>): clock arithmetic.
  \<^item> \<open>Connection_Guard\<close> (\<^verbatim>\<open>transport/connection_guard.c\<close>): attempt windows and blocks
    of an address; the table of entries and its pruning.
  \<^item> \<open>Join_Activity\<close> (\<^verbatim>\<open>runtime/user_commands.c\<close>): admission delay, join counters, kicks,
    suspicious events.
  \<^item> \<open>Ip_Rules\<close> (\<^verbatim>\<open>core/ip_ban.c\<close>): version patterns, CIDR ranges of both families, the
    rule table, the rules of the environment and the built-in ones.
  \<^item> \<open>Ban_List\<close> (\<^verbatim>\<open>runtime/user_commands.c\<close>, \<^verbatim>\<open>core/system_config.c\<close>): bans by name, address
    and range; protected addresses.
  \<^item> \<open>Lan_Access\<close> (\<^verbatim>\<open>core/system_config.c\<close>, \<^verbatim>\<open>transport/session_setup.c\<close>,
    \<^verbatim>\<open>output/auth.c\<close>): private addresses, the operators of the local network,
    authentication and the name it leaves.
  \<^item> \<open>Nick_Claims\<close> (\<^verbatim>\<open>runtime/display_handlers.c\<close>): claims on nicknames.
  \<^item> \<open>Admission\<close>, \<open>Room_Entry\<close> (\<^verbatim>\<open>runtime/session_lifecycle.c\<close>, \<^verbatim>\<open>runtime/user_commands.c\<close>): the
    stages of a session from the handshake to the room, the login dialogue and the
    nickname command, as steps of a host with many sessions that the other guards, the
    bans, the claims and the room are parts of.
  \<^item> \<open>Chat_History\<close> (\<^verbatim>\<open>transport/state_types.c\<close>, \<^verbatim>\<open>transport/session_setup.c\<close>,
    \<^verbatim>\<open>runtime/buffers.c\<close>): members of the room, the history cache.
  \<^item> \<open>Message_Log\<close>, \<open>Message_Text\<close>, \<open>Message_Ids\<close>, \<open>Message_Store\<close>, \<open>Message_Commands\<close>,
    \<open>Message_Main\<close> (\<^verbatim>\<open>transport/session_setup.c\<close>, \<^verbatim>\<open>security/eliza_worker.c\<close>,
    \<^verbatim>\<open>security/state_persistence.c\<close>, \<^verbatim>\<open>security/vote_ban.c\<close>, \<^verbatim>\<open>commands/social.c\<close>,
    \<^verbatim>\<open>commands/mail.c\<close>, \<^verbatim>\<open>commands/media.c\<close>): the recorded messages on top of the history cache:
    identifiers, reactions, replies, deletion, the state file and starting from it; what is kept of
    a text and of an entry; runs; what becomes of a message; the commands; the properties.
  \<^item> \<open>Display_Model\<close> (\<^verbatim>\<open>display_model.c\<close>): wrapping, the line log, the anchored view,
    the visible frame, scrolling.
  \<^item> \<open>Compact_Id\<close> (\<^verbatim>\<open>transport/keys.c\<close>): message labels.
  \<^item> \<open>Ddial_Protocol\<close> (\<^verbatim>\<open>ddial/protocol.c\<close>): the lines of the relay between stations and
    the filters of escape sequences and telnet commands.
  \<^item> \<open>Ddial_Roster\<close>, \<open>Roster_Map\<close>, \<open>Roster_Lines\<close>, \<open>Roster_Main\<close> (\<^verbatim>\<open>ddial/roster.c\<close>): the hash
    table of the users behind the link, as a map; what the lines of the link do to it; what
    can be read from it.
  \<^item> \<open>Othello_Board\<close>, \<open>Othello_Turns\<close> (\<^verbatim>\<open>games/othello.c\<close>, \<^verbatim>\<open>games/gonu.c\<close>): the rules of
    the board, and the turns of a game against the computer.
  \<^item> \<open>Game_Session\<close> (\<^verbatim>\<open>games/tetris.c\<close>, \<^verbatim>\<open>host.h\<close>): the game part of a session and its random
    numbers, which the games use.
  \<^item> \<open>Tetris\<close>, \<open>Tetris_Play\<close>, \<open>Tetris_Session\<close>, \<open>Tetris_Gravity\<close> (\<^verbatim>\<open>games/tetris.c\<close>,
    \<^verbatim>\<open>games/misc.c\<close>, \<^verbatim>\<open>games/gonu.c\<close>): the game, its invariant, its steps in a session
    from start to end with the camouflage, and the fall of a piece left alone.
  \<^item> \<open>Gonu\<close>, \<open>Gonu_Board\<close>, \<open>Gonu_Play\<close>, \<open>Gonu_Session\<close>, \<open>Gonu_Main\<close> (\<^verbatim>\<open>games/gonu.c\<close>,
    \<^verbatim>\<open>games/misc.c\<close>, \<^verbatim>\<open>output/auth.c\<close>): the game, its boards and their drawings, pieces and the
    choice of the computer, lines and runs of a session, and the properties.
  \<^item> \<open>Polls\<close>, \<open>Poll_Tally\<close>, \<open>Poll_Host\<close>, \<open>Poll_File\<close>, \<open>Poll_Main\<close> (\<^verbatim>\<open>commands/poll.c\<close>,
    \<^verbatim>\<open>runtime/dispatch.c\<close>, \<^verbatim>\<open>transport/session_setup.c\<close>, \<^verbatim>\<open>security/eliza_worker.c\<close>,
    \<^verbatim>\<open>security/vote_ban.c\<close>): the commands of the main poll and of named polls, their tallies,
    runs of commands of many users, the file of votes, and the votes of the main poll.
  \<^item> \<open>Bbs\<close>, \<open>Bbs_Commands\<close>, \<open>Bbs_Changes\<close>, \<open>Bbs_Posts\<close>, \<open>Bbs_Slots\<close>, \<open>Bbs_File\<close>
    (\<^verbatim>\<open>commands/bbs.c\<close>, \<^verbatim>\<open>storage/bbs_storage.c\<close>, \<^verbatim>\<open>runtime/buffers.c\<close>): the tables of the
    bulletin board and its file, the commands, the kinds of change they make to the posts,
    runs of many sessions, what becomes of the slots, and the reading of the file.

  Definitions carry the names of the C functions; a loop of such a function is a
  recursive function of its own beside it.

  \<^bold>\<open>Correspondence.\<close>  A struct is a record, an enumeration a datatype.  A growable
  array with a count is a list together with its capacity; an array scanned from the
  front is a list.  The slots of the bulletin board keep the address of their array of
  comments in a store of arrays, because the code lets slots share one.  Operations pass the state explicitly and return it updated.  A
  failure return is \<open>None\<close> or a boolean; where the code could read outside a buffer or
  dereference a null pointer the model gives \<open>None\<close>, so a theorem that an operation
  returns also says that this does not happen.  Unsigned arithmetic that the code does
  not guard wraps explicitly; counters that cannot reach their limit are natural
  numbers.  Locks delimit atomic steps: an operation that holds the host lock is one
  step, and runs are sequences of steps.

  \<^bold>\<open>Parameters.\<close>  The success of an allocation, the clock, the parsing of addresses by
  \<^verbatim>\<open>inet_pton\<close>, the raw seed of the random numbers, the environment variables, the decoding
  of characters by \<^verbatim>\<open>mbrtowc\<close>, the messages of an SSH client, the records of users, the scan
  of a text for abuse, the codes of colour names, whether a file can be written and the contents of
  the archive and of the blob of a released history are arguments of the definitions.

  \<^bold>\<open>What is shown.\<close>  For the guards: exact thresholds and deadlines, that blocks hold,
  that addresses do not affect each other, that tables keep their invariants over every
  run, that version patterns are globs and ranges compare leading bits, that bans act on
  exactly the names and addresses given and never on protected ones.  For admission, over
  every interleaving of sessions: only genuine operators carry an operator name in the
  room, banned addresses do not enter, names are unique unless two sessions race, a
  registered or claimed name needs its password, and every session is let in or ended
  after at most five stages.  For room and
  history: membership is the set of joined sessions, and archive and cache together are
  the log of accepted messages.  For recorded messages, over runs of at most 32768 events with saves
  put off or failing: identifiers are unique, a message stays with its reactions until it
  expires, nobody deletes the messages of others, a deletion is exact where the file is
  current, and a restart restores what was saved; a deletion loses what was not saved yet, a
  reaction to the oldest record divides by zero, and a restart takes their messages out of the
  hands of their authors.  For the display: wrapping is total, loses nothing and
  fits the width; the visible frame is a window of the log that scrolling moves exactly
  and arriving messages do not move.  For labels and link lines: the round trip.  For
  the roster: whatever the lines, the hash table is the map their news make, a station list
  is exact, and users are found from login to logout.  For Othello: legality
  and effect of moves by the rule of the game, and that every turn terminates with the
  player to move or the game ended.  For Tetris: clearing is a filter of the rows, locking
  conserves cells, every input is handled with the falling piece on free cells, and a
  piece left alone lands.  For Gonu: a game that is on waits for its player with its pieces in
  order over every run, the scan for a win is the rule on the drawn lines, the best level
  takes every win, and a cornered computer reads an index never written.  For polls: tallies are the numbers of voters of each choice over
  every run, a named poll stays in the hands of its owner and the operators, and the file of
  votes restores the polls.  For the bulletin board, over every run of commands of many
  sessions: identifiers are unique and the count is right, and a post stays in the hands of
  its author and the operators; the file of posts restores the board; a deletion can blank
  the comments of another post, and refused posts use up the slots.  Some theorems record behaviour that differs from
  what the code means to do; they say so in their text.

  \<^bold>\<open>Loops.\<close>  No fuel is used.  Loops are total functions with a termination measure, but
  for two of Tetris, the hard drop and gravity, which end only in a well-formed game, and the
  search of the roster for a free bucket, which ends only in a table that is not full; these
  are partial functions into an option, and the theorems show that they return.
  The bound of 32768 events on the runs of recorded messages is the size of the cache: up to it no
  entry leaves the cache, so the cache is the whole history.
  The exchange of turns in Othello is bounded by the number of empty squares.

  \<^bold>\<open>Not modelled.\<close>  Sockets, threads, the terminal and file input and output; the
  requests to web services and the hashing of passwords; Othello between users, two other
  games, the sessions of the relay, the lists and the editor of the bulletin board, and the
  files of user data, which would be further theories of the same kind.
\<close>

end
